(* ===== verification/Prelude.thy ===== *)
theory Prelude
  imports Main "HOL-Library.Word" "HOL-Library.List_Lexorder" "HOL-Library.Char_ord"
    "HOL-Library.Product_Lexorder" "HOL-Library.Multiset"
begin

section \<open>Shared vocabulary of the development\<close>

text \<open>
  The types every component uses, the outcome of a Go call, the slice operations with their
  panics, and the generic lemmas on lists, maps and words that the component proofs share.

  Representation of values whose types come from libraries outside the repository:
  \<^item> a \<^verbatim>\<open>did.DID\<close> is its string form, so \<^verbatim>\<open>String()\<close> and \<^verbatim>\<open>==\<close> agree; \<^verbatim>\<open>did.Undef\<close> is the
    empty string;
  \<^item> a \<^verbatim>\<open>cid.Cid\<close> is its binary form (what \<^verbatim>\<open>Bytes()\<close> returns and \<^verbatim>\<open>==\<close> compares); its text
    form \<^verbatim>\<open>String()\<close> is a parameter of the definitions that use it; \<^verbatim>\<open>cid.Undef\<close> is empty;
  \<^item> a \<^verbatim>\<open>multihash.Multihash\<close> is its bytes, and its \<^verbatim>\<open>HexString()\<close> is a parameter;
  \<^item> a \<^verbatim>\<open>time.Time\<close> is the number of nanoseconds since the Unix epoch, a \<^verbatim>\<open>time.Duration\<close> a
    number of nanoseconds;
  \<^item> \<^verbatim>\<open>uint64\<close> and \<^verbatim>\<open>int64\<close> values that are added are 64-bit words, so sums wrap as they do in
    Go; a Go \<^verbatim>\<open>int\<close> used as a length, a limit or an index is an \<^typ>\<open>int\<close>.

  Strings are byte sequences (a \<^typ>\<open>char\<close> is a byte), ordered lexicographically, which is the
  order of \<^verbatim>\<open>strings.Compare\<close> and \<^verbatim>\<open>bytes.Compare\<close>. \<^verbatim>\<open>slices.SortFunc\<close> is \<^const>\<open>sort_key\<close>.
\<close>

type_synonym bytes = string
type_synonym did = string
type_synonym cid = string
type_synonym multihash = string
type_synonym time = int
type_synonym duration = int
type_synonym uint64 = "64 word"
type_synonym int64 = "64 word"

text \<open>The zero value of \<^verbatim>\<open>time.Time\<close>, the first of January of year 1.\<close>

definition go_zero_time :: time where
  "go_zero_time = -62135596800 * 10 ^ 9"

subsection \<open>Collections of facts\<close>

named_theorems store_defs \<open>definitions of the store operations\<close>
named_theorems inv_intros \<open>an operation keeps a store invariant\<close>

subsection \<open>Errors and outcomes\<close>

text \<open>
  A Go error: a named error (\<^verbatim>\<open>errors.New(name, message)\<close>), a plain one (\<^verbatim>\<open>fmt.Errorf\<close> with no
  \<^verbatim>\<open>%w\<close>), or one wrapped by \<^verbatim>\<open>fmt.Errorf("...: %w", err)\<close>. Values formatted into a message are
  left out of the text.
\<close>

datatype gerr = Named (err_name: string) string | Errorf string | Wrap string gerr

text \<open>\<^verbatim>\<open>errors.Is\<close>: the error or one it wraps is the target.\<close>

fun errors_Is :: "gerr \<Rightarrow> gerr \<Rightarrow> bool" where
  "errors_Is (Wrap p e) t = (Wrap p e = t \<or> errors_Is e t)"
| "errors_Is e t = (e = t)"

text \<open>\<^verbatim>\<open>errors.As(err, &named)\<close>: the first named error of the chain.\<close>

fun errors_As_Named :: "gerr \<Rightarrow> gerr option" where
  "errors_As_Named (Named n m) = Some (Named n m)"
| "errors_As_Named (Errorf m) = None"
| "errors_As_Named (Wrap p e) = errors_As_Named e"

text \<open>What a Go call comes back with: a value, an error, or a panic.\<close>

datatype 'a res = Ok 'a | Err gerr | Panic

fun is_Ok :: "'a res \<Rightarrow> bool" where
  "is_Ok (Ok x) = True"
| "is_Ok _ = False"

lemma is_Ok_iff: "is_Ok r \<longleftrightarrow> (\<exists>x. r = Ok x)"
  by (cases r) auto

text \<open>Running on only where a call came back with a value, and \<^verbatim>\<open>fmt.Errorf("...: %w", err)\<close> around its
  error. The second form threads the state a call leaves behind.\<close>

fun andThen :: "'a res \<Rightarrow> ('a \<Rightarrow> 'b res) \<Rightarrow> 'b res" where
  "andThen (Ok x) f = f x"
| "andThen (Err e) f = Err e"
| "andThen Panic f = Panic"

fun wrap :: "string \<Rightarrow> 'a res \<Rightarrow> 'a res" where
  "wrap msg (Err e) = Err (Wrap msg e)"
| "wrap msg r = r"

fun andThenS :: "'s \<times> 'a res \<Rightarrow> ('a \<Rightarrow> 's \<Rightarrow> 's \<times> 'b res) \<Rightarrow> 's \<times> 'b res" where
  "andThenS (s, Ok x) f = f x s"
| "andThenS (s, Err e) f = (s, Err e)"
| "andThenS (s, Panic) f = (s, Panic)"

lemma andThen_eq_Ok [simp]: "andThen r f = Ok y \<longleftrightarrow> (\<exists>x. r = Ok x \<and> f x = Ok y)"
  by (cases r) auto

lemma wrap_eq_Ok [simp]: "wrap msg r = Ok x \<longleftrightarrow> r = Ok x"
  by (cases r) auto

lemma andThenS_eq_Ok: "andThenS p f = (s', Ok y) \<longleftrightarrow> (\<exists>s x. p = (s, Ok x) \<and> f x s = (s', Ok y))"
  by (cases "(p, f)" rule: andThenS.cases) auto

lemma andThen_eq_Panic: "andThen r f = Panic \<longleftrightarrow> r = Panic \<or> (\<exists>x. r = Ok x \<and> f x = Panic)"
  by (cases r) auto

lemma wrap_eq_Panic [simp]: "wrap msg r = Panic \<longleftrightarrow> r = Panic"
  by (cases r) auto

lemma snd_andThenS_Panic:
  "snd (andThenS p f) = Panic \<longleftrightarrow> snd p = Panic \<or> (\<exists>x. snd p = Ok x \<and> snd (f x (fst p)) = Panic)"
  by (cases "(p, f)" rule: andThenS.cases) auto

lemma fst_andThenS: "fst (andThenS p f) = (case snd p of Ok x \<Rightarrow> fst (f x (fst p)) | _ \<Rightarrow> fst p)"
  by (cases "(p, f)" rule: andThenS.cases) auto

subsection \<open>Slices\<close>

text \<open>\<^verbatim>\<open>xs[i:]\<close>, \<^verbatim>\<open>xs[:n]\<close> and \<^verbatim>\<open>xs[i]\<close>, which panic outside the slice's length.\<close>

definition slice_from :: "'a list \<Rightarrow> int \<Rightarrow> 'a list res" where
  "slice_from xs i = (if 0 \<le> i \<and> i \<le> int (length xs) then Ok (drop (nat i) xs) else Panic)"

definition slice_to :: "'a list \<Rightarrow> int \<Rightarrow> 'a list res" where
  "slice_to xs n = (if 0 \<le> n \<and> n \<le> int (length xs) then Ok (take (nat n) xs) else Panic)"

definition slice_at :: "'a list \<Rightarrow> int \<Rightarrow> 'a res" where
  "slice_at xs i = (if 0 \<le> i \<and> i < int (length xs) then Ok (xs ! nat i) else Panic)"

text \<open>\<^verbatim>\<open>slices.IndexFunc\<close>: the first index whose element satisfies the predicate.\<close>

fun IndexFunc :: "('a \<Rightarrow> bool) \<Rightarrow> 'a list \<Rightarrow> nat option" where
  "IndexFunc p [] = None"
| "IndexFunc p (x # xs) = (if p x then Some 0 else map_option Suc (IndexFunc p xs))"

lemma IndexFunc_None_iff: "IndexFunc p xs = None \<longleftrightarrow> (\<forall>x \<in> set xs. \<not> p x)"
  by (induction xs) auto

lemma IndexFunc_SomeD:
  "IndexFunc p xs = Some i \<Longrightarrow> i < length xs \<and> p (xs ! i) \<and> (\<forall>j < i. \<not> p (xs ! j))"
proof (induction xs arbitrary: i)
  case Nil
  then show ?case by simp
next
  case (Cons x xs)
  then show ?case
    by (auto split: if_splits simp: less_Suc_eq_0_disj)
qed

lemma IndexFunc_cong: "(\<And>x. x \<in> set xs \<Longrightarrow> p x = q x) \<Longrightarrow> IndexFunc p xs = IndexFunc q xs"
  by (induction xs) auto

text \<open>Where a key is injective on a slice, the index of an element's key is its own.\<close>

lemma IndexFunc_key:
  assumes "distinct (map f xs)" and "i < length xs"
  shows "IndexFunc (\<lambda>y. f y = f (xs ! i)) xs = Some i"
proof (cases "IndexFunc (\<lambda>y. f y = f (xs ! i)) xs")
  case None
  with assms(2) show ?thesis
    by (auto simp: IndexFunc_None_iff)
next
  case (Some j)
  from IndexFunc_SomeD [OF this] have "j < length xs" and "f (xs ! j) = f (xs ! i)"
    by auto
  with assms have "j = i"
    by (simp add: distinct_conv_nth) (metis nth_map)
  with Some show ?thesis by simp
qed

lemma find_eq_iff_key:
  assumes "distinct (map f xs)" and "x \<in> set xs"
  shows "find (\<lambda>y. f y = f x) xs = Some x"
  using assms by (induction xs) (auto simp: rev_image_eqI)

lemma find_None_key: "find (\<lambda>y. f y = k) xs = None \<longleftrightarrow> k \<notin> f ` set xs"
  by (auto simp: find_None_iff)

lemma find_SomeD: "find P xs = Some x \<Longrightarrow> x \<in> set xs \<and> P x"
  by (induction xs) (auto split: if_splits)

lemma IndexFunc_find: "find P xs = map_option ((!) xs) (IndexFunc P xs)"
  by (induction xs) (auto simp: option.map_comp o_def)

lemma find_update_key:
  assumes "IndexFunc (\<lambda>r. f r = k) xs = Some n" and "f y = k"
  shows "find (\<lambda>r. f r = k') (xs[n := y]) = (if k' = k then Some y else find (\<lambda>r. f r = k') xs)"
  using assms(1)
proof (induction xs arbitrary: n)
  case (Cons x xs)
  then show ?case
    using assms(2) by (cases n) (auto split: if_splits)
qed simp

subsection \<open>Sorting and sums\<close>

lemma distinct_map_sort_key [simp]: "distinct (map g (sort_key f xs)) = distinct (map g xs)"
  by (metis mset_map mset_sort mset_eq_imp_distinct_iff)

lemma sum_list_sort_key [simp]:
  "sum_list (map g (sort_key f xs)) = (sum_list (map g xs) :: 'b::comm_monoid_add)"
  by (metis mset_map mset_sort sum_mset_sum_list)

lemma filter_sort_key_sum [simp]:
  "sum_list (map g (filter P (sort_key f xs))) =
    (sum_list (map g (filter P xs)) :: 'b::comm_monoid_add)"
  by (metis mset_filter mset_map mset_sort sum_mset_sum_list)

lemma filter_all: "(\<And>x. x \<in> set xs \<Longrightarrow> P x) \<Longrightarrow> filter P xs = xs"
  by (induction xs) auto

lemma filter_nothing: "(\<And>x. x \<in> set xs \<Longrightarrow> \<not> P x) \<Longrightarrow> filter P xs = []"
  by (induction xs) auto

lemma filter_sorted_suffix:
  assumes "sorted_wrt (\<lambda>x y. f x < f y) (xs @ z # ys)"
  shows "filter (\<lambda>x. f z < (f x :: 'b::linorder)) (xs @ z # ys) = ys"
proof -
  have "filter (\<lambda>x. f z < f x) xs = []"
    using assms by (intro filter_nothing) (auto simp: sorted_wrt_append dest: less_asym)
  moreover have "filter (\<lambda>x. f z < f x) ys = ys"
    using assms by (intro filter_all) (auto simp: sorted_wrt_append)
  ultimately show ?thesis
    using assms by simp
qed

lemma take_append_drop_take: "take p xs @ take n (drop p xs) = take (p + n) xs"
  by (simp add: take_add)

lemma last_take_conv: "0 < n \<Longrightarrow> n \<le> length xs \<Longrightarrow> last (take n xs) = xs ! (n - 1)"
  by (cases n) (auto simp: take_Suc_conv_app_nth)

lemma sum_list_partition:
  "sum_list (map g (filter P xs)) + sum_list (map g (filter (\<lambda>x. \<not> P x) xs)) =
    (sum_list (map g xs) :: 'b::comm_monoid_add)"
  by (induction xs) (simp_all add: ac_simps)

lemma filter_key_singleton:
  assumes "distinct (map f xs)"
  shows "filter (\<lambda>x. f x = k) xs = (case find (\<lambda>x. f x = k) xs of None \<Rightarrow> [] | Some x \<Rightarrow> [x])"
  using assms
proof (induction xs)
  case (Cons x xs)
  have "find (\<lambda>y. f y = f x) xs = None"
    using Cons.prems by (simp add: find_None_key)
  with Cons show ?case by auto
qed simp

lemma find_perm_key:
  assumes "distinct (map f xs)" and "mset ys = mset xs"
  shows "find (\<lambda>x. f x = k) ys = find (\<lambda>x. f x = k) xs"
proof -
  have dist: "distinct (map f ys)"
    using assms by (metis mset_eq_imp_distinct_iff mset_map)
  have "set ys = set xs"
    using assms(2) by (metis set_mset_mset)
  show ?thesis
  proof (cases "find (\<lambda>x. f x = k) xs")
    case None
    then have "k \<notin> f ` set ys"
      using \<open>set ys = set xs\<close> by (simp add: find_None_key)
    with None show ?thesis
      by (simp add: find_None_key [THEN iffD2])
  next
    case (Some x)
    from find_SomeD [OF this] have "x \<in> set ys" "f x = k"
      using \<open>set ys = set xs\<close> by auto
    with find_eq_iff_key [OF dist] Some show ?thesis by auto
  qed
qed

lemma find_snoc_key:
  "find (\<lambda>x. f x = k) xs = None \<Longrightarrow> f y = k \<Longrightarrow>
    find (\<lambda>x. f x = k') (xs @ [y]) = (if k' = k then Some y else find (\<lambda>x. f x = k') xs)"
  by (induction xs) (auto split: if_splits)

lemma find_sort_key_snoc:
  assumes "distinct (map f (xs @ [y]))"
  shows "find (\<lambda>x. f x = k) (sort_key f (xs @ [y])) = (if k = f y then Some y else find (\<lambda>x. f x = k) xs)"
proof -
  have "find (\<lambda>x. f x = f y) xs = None"
    using assms by (simp add: find_None_key)
  then show ?thesis
    using find_perm_key [OF assms, of "sort_key f (xs @ [y])" k] find_snoc_key [of f "f y" xs y k] by simp
qed

subsection \<open>Reachable states and invariants\<close>

text \<open>The states a system of steps reaches from its initial states, and the contract of an
  invariant: it holds initially and every step keeps it.\<close>

inductive reachable :: "('s \<Rightarrow> bool) \<Rightarrow> ('s \<Rightarrow> 's \<Rightarrow> bool) \<Rightarrow> 's \<Rightarrow> bool"
  for init step where
  reach_init: "init s \<Longrightarrow> reachable init step s"
| reach_step: "reachable init step s \<Longrightarrow> step s t \<Longrightarrow> reachable init step t"

locale invariant_of =
  fixes init :: "'s \<Rightarrow> bool" and step :: "'s \<Rightarrow> 's \<Rightarrow> bool" and inv :: "'s \<Rightarrow> bool"
  assumes inv_init: "init s \<Longrightarrow> inv s"
    and inv_step: "inv s \<Longrightarrow> step s t \<Longrightarrow> inv t"
begin

lemma reachable_inv: "reachable init step s \<Longrightarrow> inv s"
  by (induction rule: reachable.induct) (auto intro: inv_init inv_step)

end

subsection \<open>Signed 64-bit values\<close>

text \<open>The signed reading of a word: \<^verbatim>\<open>x < 0\<close> and \<^verbatim>\<open>x > 0\<close> on an \<^verbatim>\<open>int64\<close>.\<close>

definition neg64 :: "int64 \<Rightarrow> bool" where
  "neg64 x \<longleftrightarrow> sint x < 0"

definition pos64 :: "int64 \<Rightarrow> bool" where
  "pos64 x \<longleftrightarrow> 0 < sint x"

definition MaxInt64 :: int where
  "MaxInt64 = 2 ^ 63 - 1"

lemma sint64_conv:
  "sint (x :: 64 word) = (if uint x < 2 ^ 63 then uint x else uint x - 2 ^ 64)"
proof -
  let ?u = "uint x"
  have u: "0 \<le> ?u" "?u < 2 ^ 64"
    using uint_lt2p [of x] by simp_all
  have s: "sint x = (?u + 2 ^ 63) mod 2 ^ 64 - 2 ^ 63"
    by (simp add: sint_uint signed_take_bit_eq_take_bit_shift take_bit_eq_mod)
  show ?thesis
  proof (cases "?u < 2 ^ 63")
    case True
    then have "(?u + 2 ^ 63) mod 2 ^ 64 = ?u + 2 ^ 63"
      using u by (intro mod_pos_pos_trivial) simp_all
    with s True show ?thesis by simp
  next
    case False
    then have "(?u + 2 ^ 63 - 2 ^ 64) mod 2 ^ 64 = ?u + 2 ^ 63 - 2 ^ 64"
      using u by (intro mod_pos_pos_trivial) simp_all
    then have "(?u + 2 ^ 63) mod 2 ^ 64 = ?u + 2 ^ 63 - 2 ^ 64"
      by (simp only: minus_mod_self2)
    with s False show ?thesis by simp
  qed
qed

lemma neg64_iff: "neg64 x \<longleftrightarrow> MaxInt64 < uint x"
  using uint_lt2p [of x] by (auto simp: neg64_def MaxInt64_def sint64_conv)

lemma not_neg64_sint: "\<not> neg64 x \<Longrightarrow> sint x = uint x"
  by (simp add: neg64_iff MaxInt64_def sint64_conv)

end
