(* ===== verification/Paging.thy ===== *)
theory Paging
  imports Prelude
begin

section \<open>Pages, cursors and the collecting loop\<close>

text \<open>
  \<^verbatim>\<open>pkg/store/store.go\<close>: the page type every listing returns, the pagination options, the loop
  \<^verbatim>\<open>Collect\<close> that reads a listing to its end, and the cursor of the diff logs.

  \<^verbatim>\<open>Collect\<close> runs until a page has no cursor or no results, which it may never reach, so it is a
  \<^theory_text>\<open>partial_function\<close> into \<^verbatim>\<open>option\<close>: \<^const>\<open>None\<close> is "does not return". The locale \<open>pager\<close> is
  the contract under which it does return: its laws are what a \<^verbatim>\<open>List\<close> operation promises, and
  every listing that the services read to the end interprets it.
\<close>

record PaginationConfig =
  Cursor :: "string option"
  Limit :: "int option"

record 'a Page =
  page_Cursor :: "string option"
  Results :: "'a list"

text \<open>A \<^verbatim>\<open>ListOption\<close> is a function that changes the configuration; a call applies its options
  in the order given.\<close>

type_synonym ListOption = "PaginationConfig \<Rightarrow> PaginationConfig"

definition apply_options :: "ListOption list \<Rightarrow> PaginationConfig \<Rightarrow> PaginationConfig" where
  "apply_options opts cfg = fold (\<lambda>opt c. opt c) opts cfg"

lemma apply_options_simps [simp]:
  "apply_options [] cfg = cfg"
  "apply_options (opt # opts) cfg = apply_options opts (opt cfg)"
  by (simp_all add: apply_options_def)

definition no_options :: PaginationConfig where
  "no_options = \<lparr>Cursor = None, Limit = None\<rparr>"

partial_function (option) Collect_from ::
  "(PaginationConfig \<Rightarrow> 'a Page res) \<Rightarrow> PaginationConfig \<Rightarrow> 'a list \<Rightarrow> 'a list res option" where
  "Collect_from getPage paginationOptions items =
     (case getPage paginationOptions of
        Panic \<Rightarrow> Some Panic
      | Err e \<Rightarrow> Some (Err (Wrap ''getting page'' e))
      | Ok page \<Rightarrow>
          (if page_Cursor page = None \<or> Results page = []
           then Some (Ok (items @ Results page))
           else Collect_from getPage (paginationOptions\<lparr>Cursor := page_Cursor page\<rparr>)
                  (items @ Results page)))"

definition store_Collect :: "(PaginationConfig \<Rightarrow> 'a Page res) \<Rightarrow> 'a list res option" where
  "store_Collect getPage = Collect_from getPage no_options []"

subsection \<open>The contract of a listing\<close>

text \<open>
  A listing of the items a state holds. \<open>resumes s c p\<close> says that cursor \<open>c\<close> resumes at
  position \<open>p\<close>; no cursor resumes at the start. A page served at \<open>p\<close> is a run of the items
  from \<open>p\<close> on; with no cursor it reaches the end, and with one it is not empty and the cursor
  resumes right behind it.
\<close>

locale pager =
  fixes wf :: "'s \<Rightarrow> bool"
    and items :: "'s \<Rightarrow> 'a list"
    and list_page :: "'s \<Rightarrow> string option \<Rightarrow> 'a Page res"
    and resumes :: "'s \<Rightarrow> string option \<Rightarrow> nat \<Rightarrow> bool"
  assumes resumes_start: "wf s \<Longrightarrow> resumes s None 0"
    and serves: "wf s \<Longrightarrow> resumes s c p \<Longrightarrow> p \<le> length (items s) \<Longrightarrow>
      \<exists>page n. list_page s c = Ok page \<and> Results page = take n (drop p (items s)) \<and>
        (case page_Cursor page of
           None \<Rightarrow> length (items s) \<le> p + n
         | Some c' \<Rightarrow> Results page \<noteq> [] \<and> resumes s (Some c') (p + length (Results page)))"
begin

lemma serves_cases:
  assumes "wf s" and "resumes s c p" and "p \<le> length (items s)"
  obtains (last_page) page where "list_page s c = Ok page" "page_Cursor page = None"
      "Results page = drop p (items s)"
  | (more) page c' q where "list_page s c = Ok page" "page_Cursor page = Some c'"
      "Results page \<noteq> []" "q = p + length (Results page)" "q \<le> length (items s)" "p < q"
      "resumes s (Some c') q" "take p (items s) @ Results page = take q (items s)"
proof -
  from serves [OF assms] obtain page n where
    page: "list_page s c = Ok page" "Results page = take n (drop p (items s))"
    and follow: "case page_Cursor page of
           None \<Rightarrow> length (items s) \<le> p + n
         | Some c' \<Rightarrow> Results page \<noteq> [] \<and> resumes s (Some c') (p + length (Results page))"
    by blast
  show thesis
  proof (cases "page_Cursor page")
    case None
    with page follow show thesis by (intro last_page) auto
  next
    case (Some c')
    let ?q = "p + length (Results page)"
    have "take p (items s) @ Results page = take ?q (items s)"
      using page(2) assms(3) by (simp add: take_add min_def)
    moreover have "?q \<le> length (items s)"
      using page(2) assms(3) by simp
    ultimately show thesis
      using page Some follow by (intro more [of page c' ?q]) auto
  qed
qed

lemma collect_from_items:
  assumes "wf s" and "resumes s (Cursor cfg) p" and "p \<le> length (items s)"
    and pages: "\<And>c. getPage (cfg\<lparr>Cursor := c\<rparr>) = list_page s c"
  shows "Collect_from getPage cfg (take p (items s)) = Some (Ok (items s))"
  using assms(2,3,4)
proof (induction "length (items s) - p" arbitrary: cfg p rule: less_induct)
  case less
  have page_at: "getPage cfg = list_page s (Cursor cfg)"
    using less.prems(3) [of "Cursor cfg"] by simp
  from \<open>wf s\<close> less.prems(1,2) show ?case
  proof (cases rule: serves_cases)
    case (last_page page)
    then show ?thesis
      by (simp add: Collect_from.simps page_at)
  next
    case (more page c' q)
    have "length (items s) - q < length (items s) - p"
      using more by linarith
    then have "Collect_from getPage (cfg\<lparr>Cursor := Some c'\<rparr>) (take q (items s)) = Some (Ok (items s))"
      using more less.prems(3) by (intro less.hyps) auto
    with more show ?thesis
      by (subst Collect_from.simps) (simp add: page_at)
  qed
qed

lemma collect_items:
  assumes "wf s" and "\<And>c. getPage \<lparr>Cursor = c, Limit = None\<rparr> = list_page s c"
  shows "store_Collect getPage = Some (Ok (items s))"
  using collect_from_items [of s no_options 0 getPage] assms resumes_start [OF assms(1)]
  by (simp add: store_Collect_def no_options_def)

end

subsection \<open>Pages cut to a limit\<close>

text \<open>
  The shape most listings share: where more entries are left than the limit, cut the slice to it
  and make the cursor from the last entry kept, otherwise return all of them with no cursor.
  A limit of zero cuts to nothing and then indexes the last entry of nothing, and a negative one
  cannot cut at all: both panic.
\<close>

definition cut_page :: "('a \<Rightarrow> string) \<Rightarrow> int \<Rightarrow> 'a list \<Rightarrow> 'a Page res" where
  "cut_page key limit entries =
     (if int (length entries) > limit then
        (case slice_to entries limit of
           Ok page_entries \<Rightarrow>
             (case slice_at page_entries (int (length page_entries) - 1) of
                Ok final \<Rightarrow> Ok \<lparr>page_Cursor = Some (key final), Results = page_entries\<rparr>
              | Err e \<Rightarrow> Err e
              | Panic \<Rightarrow> Panic)
         | Err e \<Rightarrow> Err e
         | Panic \<Rightarrow> Panic)
      else Ok \<lparr>page_Cursor = None, Results = entries\<rparr>)"

lemma cut_page_small: "int (length entries) \<le> limit \<Longrightarrow>
    cut_page key limit entries = Ok \<lparr>page_Cursor = None, Results = entries\<rparr>"
  by (simp add: cut_page_def)

lemma cut_page_large:
  assumes "0 < limit" and "limit < int (length entries)"
  shows "cut_page key limit entries =
    Ok \<lparr>page_Cursor = Some (key (entries ! (nat limit - 1))), Results = take (nat limit) entries\<rparr>"
proof -
  have "nat limit < length entries" "entries \<noteq> []"
    using assms by auto
  with assms show ?thesis
    by (simp add: cut_page_def slice_to_def slice_at_def nat_diff_distrib min_def)
qed

lemma cut_page_panics:
  assumes "limit \<le> 0" and "entries \<noteq> []"
  shows "cut_page key limit entries = Panic"
  using assms by (simp add: cut_page_def slice_to_def slice_at_def)

text \<open>A cursor made from the key of the last entry of a page resumes right behind it.\<close>

definition key_resumes :: "('a \<Rightarrow> string) \<Rightarrow> 'a list \<Rightarrow> string option \<Rightarrow> nat \<Rightarrow> bool" where
  "key_resumes key all_items c p \<longleftrightarrow> (case c of
      None \<Rightarrow> p = 0
    | Some k \<Rightarrow> 0 < p \<and> p \<le> length all_items \<and> k = key (all_items ! (p - 1)))"

lemma key_resumes_None [simp]: "key_resumes key all_items None p \<longleftrightarrow> p = 0"
  by (simp add: key_resumes_def)

lemma IndexFunc_key_resumes:
  assumes "distinct (map key all_items)" and "key_resumes key all_items (Some k) p"
  shows "IndexFunc (\<lambda>x. key x = k) all_items = Some (p - 1)" and "Suc (p - 1) = p"
    and "p - 1 < length all_items"
  using assms IndexFunc_key [of key all_items "p - 1"] by (auto simp: key_resumes_def)

text \<open>Cutting the entries behind position \<open>p\<close>, or any list that agrees with them up to one entry
  past the limit, serves the page at \<open>p\<close>.\<close>

lemma cut_page_serves_prefix:
  assumes xs: "take (Suc (nat limit)) xs = take (Suc (nat limit)) (drop p all_items)"
    and le: "length xs \<le> length (drop p all_items)" and "0 < limit"
  shows "\<exists>page n. cut_page key limit xs = Ok page \<and> Results page = take n (drop p all_items) \<and>
    (case page_Cursor page of
       None \<Rightarrow> length all_items \<le> p + n
     | Some c' \<Rightarrow> Results page \<noteq> [] \<and> key_resumes key all_items (Some c') (p + length (Results page)))"
proof (cases "int (length xs) > limit")
  case True
  let ?n = "nat limit"
  have len: "?n < length xs" "?n < length (drop p all_items)"
    using True le \<open>0 < limit\<close> by linarith+
  have cut: "take ?n xs = take ?n (drop p all_items)"
    using arg_cong [OF xs, of "take ?n"] by simp
  have "xs ! (?n - 1) = take ?n xs ! (?n - 1)"
    using \<open>0 < limit\<close> by simp
  then have final: "xs ! (?n - 1) = all_items ! (p + ?n - 1)"
    using len \<open>0 < limit\<close> by (simp add: cut add.commute)
  have "cut_page key limit xs = Ok \<lparr>page_Cursor = Some (key (all_items ! (p + ?n - 1))),
      Results = take ?n (drop p all_items)\<rparr>"
    using True \<open>0 < limit\<close> by (simp only: cut_page_large final cut)
  then show ?thesis
    using len \<open>0 < limit\<close> by (auto simp: key_resumes_def min_def intro!: exI [of _ ?n])
next
  case False
  then have "length xs \<le> nat limit" by simp
  with xs have "xs = drop p all_items"
    by (metis le_imp_less_Suc length_take min.absorb3 min_def not_less_eq take_all_iff nat_less_le)
  with False show ?thesis
    by (auto simp: cut_page_small intro!: exI [of _ "length xs"])
qed

lemmas cut_page_serves = cut_page_serves_prefix [OF refl order_refl]

lemma cut_page_more:
  assumes "cut_page key limit xs = Ok page" and "0 < limit" and "page_Cursor page \<noteq> None"
  shows "length (Results page) < length xs"
  using assms by (cases "int (length xs) \<le> limit") (auto simp: cut_page_small cut_page_large)

subsection \<open>Cursors that are positions\<close>

text \<open>
  \<^verbatim>\<open>strconv.Itoa\<close> and \<^verbatim>\<open>strconv.Atoi\<close>: the latter takes an optional sign and decimal digits, and
  fails on anything else and on numbers outside \<^verbatim>\<open>int\<close>.
\<close>

function digits :: "nat \<Rightarrow> string" where
  "digits n = (if n < 10 then [char_of (48 + n)] else digits (n div 10) @ [char_of (48 + n mod 10)])"
  by pat_completeness auto
termination
  by (relation "measure id") auto

declare digits.simps [simp del]

definition Itoa :: "int \<Rightarrow> string" where
  "Itoa i = (if i < 0 then CHR ''-'' # digits (nat (- i)) else digits (nat i))"

definition digit_value :: "char \<Rightarrow> nat option" where
  "digit_value c = (if 48 \<le> (of_char c :: nat) \<and> (of_char c :: nat) \<le> 57 then Some (of_char c - 48) else None)"

definition parse_digits :: "string \<Rightarrow> nat option" where
  "parse_digits s = (if s = [] \<or> None \<in> set (map digit_value s) then None
     else Some (foldl (\<lambda>n c. n * 10 + the (digit_value c)) 0 s))"

definition Atoi :: "string \<Rightarrow> int res" where
  "Atoi s =
     (let (neg, body) = (case s of
         c # r \<Rightarrow> (if c = CHR ''-'' then (True, r) else if c = CHR ''+'' then (False, r) else (False, s))
       | [] \<Rightarrow> (False, s))
      in case parse_digits body of
           None \<Rightarrow> Err (Errorf ''invalid syntax'')
         | Some n \<Rightarrow>
             (let i = (if neg then - int n else int n) in
              if i < - MaxInt64 - 1 \<or> i > MaxInt64 then Err (Errorf ''value out of range'') else Ok i))"

lemma digit_char:
  assumes "n < 10"
  shows "digit_value (char_of (48 + n)) = Some n" and "char_of (48 + n) \<noteq> CHR ''-''"
    and "char_of (48 + n) \<noteq> CHR ''+''"
proof -
  have c: "of_char (char_of (48 + n)) = 48 + n"
    using assms by (simp add: of_char_of)
  then show "digit_value (char_of (48 + n)) = Some n"
    using assms by (simp add: digit_value_def)
  have "x = (48 :: nat) + n \<Longrightarrow> x \<noteq> 45 \<and> x \<noteq> 43" for x
    by simp
  from this [OF c] show "char_of (48 + n) \<noteq> CHR ''-''" "char_of (48 + n) \<noteq> CHR ''+''"
    by (auto simp del: of_char_of)
qed

lemma parse_digits_snoc:
  assumes "parse_digits s = Some m" and "digit_value c = Some d"
  shows "parse_digits (s @ [c]) = Some (m * 10 + d)"
  using assms by (auto simp: parse_digits_def split: if_splits)

lemma digits_parse: "parse_digits (digits n) = Some n \<and> hd (digits n) \<noteq> CHR ''-'' \<and> hd (digits n) \<noteq> CHR ''+''"
proof (induction n rule: digits.induct)
  case (1 n)
  show ?case
  proof (cases "n < 10")
    case True
    then show ?thesis
      using digit_char [OF True] by (simp add: digits.simps parse_digits_def)
  next
    case False
    then have IH: "parse_digits (digits (n div 10)) = Some (n div 10)" "hd (digits (n div 10)) \<noteq> CHR ''-''"
      "hd (digits (n div 10)) \<noteq> CHR ''+''"
      using 1 by auto
    then have "digits (n div 10) \<noteq> []"
      by (auto simp: parse_digits_def split: if_splits)
    with IH False show ?thesis
      using parse_digits_snoc [OF IH(1) digit_char(1) [of "n mod 10"]]
      by (subst (1 2 3) digits.simps) simp
  qed
qed

lemma Atoi_Itoa:
  assumes "int n \<le> MaxInt64"
  shows "Atoi (Itoa (int n)) = Ok (int n)"
proof -
  have "digits n \<noteq> []"
    using digits_parse [of n] by (auto simp: parse_digits_def split: if_splits)
  then obtain c r where cr: "digits n = c # r"
    by (cases "digits n") auto
  then have "parse_digits (c # r) = Some n" "c \<noteq> CHR ''-''" "c \<noteq> CHR ''+''"
    using digits_parse [of n] by auto
  with cr assms show ?thesis
    by (simp add: Atoi_def Itoa_def MaxInt64_def)
qed

text \<open>The listings whose cursor is the position of the next entry.\<close>

definition index_page :: "int \<Rightarrow> string option \<Rightarrow> 'a list \<Rightarrow> 'a Page res" where
  "index_page limit cursor all_items =
     (case (case cursor of
              None \<Rightarrow> Ok all_items
            | Some c \<Rightarrow>
                (case Atoi c of
                   Err e \<Rightarrow> Err (Wrap ''invalid cursor'' e)
                 | Panic \<Rightarrow> Panic
                 | Ok i \<Rightarrow>
                     (if i < 0 \<or> i > int (length all_items) then Err (Errorf ''cursor out of bounds'')
                      else slice_from all_items i))) of
        Err e \<Rightarrow> Err e
      | Panic \<Rightarrow> Panic
      | Ok results \<Rightarrow>
          cut_page (\<lambda>final. Itoa ((case IndexFunc (\<lambda>x. x = final) all_items of
             None \<Rightarrow> - 1 | Some idx \<Rightarrow> int idx) + 1)) limit results)"

definition index_resumes :: "'a list \<Rightarrow> string option \<Rightarrow> nat \<Rightarrow> bool" where
  "index_resumes all_items c p \<longleftrightarrow> (case c of None \<Rightarrow> p = 0
     | Some k \<Rightarrow> p \<le> length all_items \<and> k = Itoa (int p))"

lemma index_page_serves:
  assumes "distinct all_items" and "int (length all_items) \<le> MaxInt64" and "0 < limit"
    and at: "index_resumes all_items c p"
  shows "\<exists>page n. index_page limit c all_items = Ok page \<and> Results page = take n (drop p all_items) \<and>
    (case page_Cursor page of
       None \<Rightarrow> length all_items \<le> p + n
     | Some c' \<Rightarrow> Results page \<noteq> [] \<and> index_resumes all_items (Some c') (p + length (Results page)))"
proof -
  let ?key = "\<lambda>final. Itoa ((case IndexFunc (\<lambda>x. x = final) all_items of
    None \<Rightarrow> - 1 | Some idx \<Rightarrow> int idx) + 1)"
  have key: "?key (all_items ! i) = Itoa (int (Suc i))" if "i < length all_items" for i
    using IndexFunc_key [of "\<lambda>x. x" all_items i] assms(1) that by (simp add: add.commute)
  have "index_page limit c all_items = cut_page ?key limit (drop p all_items)"
  proof (cases c)
    case None
    with at show ?thesis by (simp add: index_page_def index_resumes_def)
  next
    case (Some k)
    with at assms(2) have "p \<le> length all_items" "Atoi k = Ok (int p)"
      using Atoi_Itoa [of p] by (auto simp: index_resumes_def)
    with Some show ?thesis by (simp add: index_page_def slice_from_def)
  qed
  moreover have "key_resumes ?key all_items (Some c') q \<Longrightarrow> index_resumes all_items (Some c') q" for c' q
    using key [of "q - 1"] by (auto simp: key_resumes_def index_resumes_def Suc_le_eq)
  ultimately show ?thesis
    using cut_page_serves [OF assms(3), of ?key p all_items] by (fastforce split: option.splits)
qed

subsection \<open>Base64 without padding, URL alphabet\<close>

text \<open>
  \<^verbatim>\<open>base64.RawURLEncoding\<close>: three bytes are four characters of the alphabet, and a last group of
  one or two bytes is two or three characters. Decoding skips carriage returns and line feeds,
  refuses other characters and a last group of one character, and drops the spare bits of a
  short last group.
\<close>

definition b64_alphabet :: string where
  "b64_alphabet = ''ABCDEFGHIJKLMNOPQRSTUVWXYZabcdefghijklmnopqrstuvwxyz0123456789-_''"

definition b64_char :: "nat \<Rightarrow> char" where
  "b64_char n = b64_alphabet ! n"

definition b64_value :: "char \<Rightarrow> nat option" where
  "b64_value c = IndexFunc (\<lambda>x. x = c) b64_alphabet"

fun b64_sextets :: "nat list \<Rightarrow> nat list" where
  "b64_sextets (a # b # c # r) =
     (a div 4) # ((a mod 4) * 16 + b div 16) # ((b mod 16) * 4 + c div 64) # (c mod 64) #
       b64_sextets r"
| "b64_sextets [a, b] = [a div 4, (a mod 4) * 16 + b div 16, (b mod 16) * 4]"
| "b64_sextets [a] = [a div 4, (a mod 4) * 16]"
| "b64_sextets [] = []"

fun b64_octets :: "nat list \<Rightarrow> nat list option" where
  "b64_octets (w # x # y # z # r) =
     map_option (\<lambda>t. (w * 4 + x div 16) # ((x mod 16) * 16 + y div 4) # ((y mod 4) * 64 + z) # t)
       (b64_octets r)"
| "b64_octets [w, x, y] = Some [w * 4 + x div 16, (x mod 16) * 16 + y div 4]"
| "b64_octets [w, x] = Some [w * 4 + x div 16]"
| "b64_octets [w] = None"
| "b64_octets [] = Some []"

definition b64_encode :: "bytes \<Rightarrow> string" where
  "b64_encode b = map b64_char (b64_sextets (map of_char b))"

definition b64_decode :: "string \<Rightarrow> bytes option" where
  "b64_decode s =
     (let vs = map b64_value (filter (\<lambda>c. c \<noteq> CHR 0x0A \<and> c \<noteq> CHR 0x0D) s) in
      if None \<in> set vs then None
      else map_option (map char_of) (b64_octets (map the vs)))"

lemma pack_div: "k < m \<Longrightarrow> (x * m + k) div m = (x :: nat)"
  by simp

lemma pack_mod: "k < m \<Longrightarrow> (x * m + k) mod m = (k :: nat)"
  by simp

lemma b64_octets_sextets:
  "(\<forall>x \<in> set xs. x < 256) \<Longrightarrow> b64_octets (b64_sextets xs) = Some xs"
proof (induction xs rule: b64_sextets.induct)
  case (1 a b c r)
  then have "b div 16 < 16" and "c div 64 < 4"
    by auto
  with 1 show ?case
    by (simp add: pack_div pack_mod)
next
  case (2 a b)
  then have "b div 16 < 16"
    by auto
  then show ?case
    by (simp add: pack_div pack_mod)
qed simp_all

lemma b64_sextets_bound:
  "(\<forall>x \<in> set xs. x < 256) \<Longrightarrow> x \<in> set (b64_sextets xs) \<Longrightarrow> x < 64"
  by (induction xs rule: b64_sextets.induct) auto

lemma length_b64_alphabet: "length b64_alphabet = 64"
  by (simp add: b64_alphabet_def)

lemma distinct_b64_alphabet: "distinct b64_alphabet"
  by (simp add: b64_alphabet_def)

lemma b64_value_char: "n < 64 \<Longrightarrow> b64_value (b64_char n) = Some n"
  using IndexFunc_key [where f = "\<lambda>x. x" and xs = b64_alphabet and i = n]
  by (simp add: b64_value_def b64_char_def distinct_b64_alphabet length_b64_alphabet)

lemma b64_char_no_newline:
  assumes "n < 64" shows "b64_char n \<noteq> CHR 0x0A \<and> b64_char n \<noteq> CHR 0x0D"
proof -
  have "CHR 0x0A \<notin> set b64_alphabet" and "CHR 0x0D \<notin> set b64_alphabet"
    by (simp_all add: b64_alphabet_def)
  then show ?thesis
    using assms by (auto simp: b64_char_def length_b64_alphabet in_set_conv_nth)
qed

lemma b64_decode_encode: "b64_decode (b64_encode b) = Some b"
proof -
  let ?ns = "b64_sextets (map of_char b)"
  have bytes: "\<forall>x \<in> set (map of_char b :: nat list). x < 256"
    by auto
  have small: "\<And>n. n \<in> set ?ns \<Longrightarrow> n < 64"
    using b64_sextets_bound [OF bytes] by blast
  have filt: "filter (\<lambda>c. c \<noteq> CHR 0x0A \<and> c \<noteq> CHR 0x0D) (map b64_char ?ns) = map b64_char ?ns"
    using small b64_char_no_newline by (intro filter_all) auto
  have vals: "map b64_value (map b64_char ?ns) = map Some ?ns"
    using small b64_value_char by simp
  have "map char_of (map of_char b :: nat list) = b"
    by (simp add: map_idI)
  then show ?thesis
    using b64_octets_sextets [OF bytes]
    unfolding b64_decode_def b64_encode_def Let_def filt vals by (simp add: image_iff o_def)
qed

subsection \<open>The cursor of the diff logs\<close>

text \<open>
  \<^verbatim>\<open>EncodeCursor\<close> and \<^verbatim>\<open>DecodeCursor\<close>. The JSON form of the pair (\<^verbatim>\<open>encoding/json\<close> on the struct
  \<^verbatim>\<open>cursorPayload\<close>, with the time as RFC 3339) is a parameter; marshalling yields no bytes where it
  fails, since the code drops its error. What the code relies on is \<open>json_roundtrip\<close>: a time in
  the years RFC 3339 can write and an ASCII cause read back as they were.
\<close>

record cursor_json =
  json_Marshal :: "time \<Rightarrow> string \<Rightarrow> bytes"
  json_Unmarshal :: "bytes \<Rightarrow> (time \<times> string) res"

definition json_safe :: "time \<Rightarrow> string \<Rightarrow> bool" where
  "json_safe t c \<longleftrightarrow> -62167219200 * 10 ^ 9 \<le> t \<and> t < 253402300800 * 10 ^ 9 \<and>
     list_all (\<lambda>x. (of_char x :: nat) < 128) c"

definition json_roundtrip :: "cursor_json \<Rightarrow> bool" where
  "json_roundtrip J \<longleftrightarrow>
     (\<forall>t c. json_safe t c \<longrightarrow> json_Unmarshal J (json_Marshal J t c) = Ok (t, c))"

definition EncodeCursor :: "cursor_json \<Rightarrow> time \<Rightarrow> string \<Rightarrow> string" where
  "EncodeCursor J receiptAt cause = b64_encode (json_Marshal J receiptAt cause)"

definition DecodeCursor :: "cursor_json \<Rightarrow> string \<Rightarrow> (time \<times> string) res" where
  "DecodeCursor J cursor =
     (case b64_decode cursor of
        None \<Rightarrow> Err (Errorf ''illegal base64 data'')
      | Some b \<Rightarrow> json_Unmarshal J b)"

lemma DecodeCursor_EncodeCursor:
  "json_roundtrip J \<Longrightarrow> json_safe t c \<Longrightarrow> DecodeCursor J (EncodeCursor J t c) = Ok (t, c)"
  by (simp add: DecodeCursor_def EncodeCursor_def b64_decode_encode json_roundtrip_def)

subsection \<open>Text forms of identifiers\<close>

text \<open>
  The text forms of library values that the stores compare and use as cursors, as one parameter
  of the operations: \<^verbatim>\<open>cid.Cid.String()\<close>, \<^verbatim>\<open>multihash.Multihash.HexString()\<close> and the JSON of a
  diff cursor. \<open>formats_ok\<close> is what the code relies on: a text form names one value and is
  ASCII, and the JSON of a cursor reads back.
\<close>

record formats =
  cid_String :: "cid \<Rightarrow> string"
  HexString :: "multihash \<Rightarrow> string"
  cursorJSON :: cursor_json

definition formats_ok :: "formats \<Rightarrow> bool" where
  "formats_ok F \<longleftrightarrow> inj (cid_String F) \<and> inj (HexString F) \<and> json_roundtrip (cursorJSON F) \<and>
     (\<forall>c. list_all (\<lambda>x. (of_char x :: nat) < 128) (cid_String F c))"

lemma formats_okD:
  assumes "formats_ok F"
  shows "cid_String F a = cid_String F b \<longleftrightarrow> a = b" "HexString F x = HexString F y \<longleftrightarrow> x = y"
    "json_roundtrip (cursorJSON F)"
  using assms by (auto simp: formats_ok_def dest: injD)

text \<open>An instance of the parameter: Base64 for the text forms, a unary JSON stand-in.\<close>

definition sample_json :: cursor_json where
  "sample_json =
     \<lparr>json_Marshal = (\<lambda>t c. (if t < 0 then CHR ''-'' else CHR ''+'') #
        replicate (nat \<bar>t\<bar>) CHR ''1'' @ CHR '':'' # c),
      json_Unmarshal = (\<lambda>b. case b of [] \<Rightarrow> Err (Errorf ''unexpected end of JSON input'')
        | s # r \<Rightarrow> (let n = int (length (takeWhile (\<lambda>x. x = CHR ''1'') r)) in
            Ok (if s = CHR ''-'' then - n else n, tl (dropWhile (\<lambda>x. x = CHR ''1'') r))))\<rparr>"

definition sample_formats :: formats where
  "sample_formats = \<lparr>cid_String = b64_encode, HexString = b64_encode, cursorJSON = sample_json\<rparr>"

lemma takeWhile_replicate: "takeWhile (\<lambda>x. x = a) (replicate n a @ b # c) = replicate n a"
  if "a \<noteq> b" using that by (induction n) auto

lemma dropWhile_replicate: "dropWhile (\<lambda>x. x = a) (replicate n a @ b # c) = b # c"
  if "a \<noteq> b" using that by (induction n) auto

lemma sample_json_roundtrip: "json_roundtrip sample_json"
  by (simp add: json_roundtrip_def sample_json_def takeWhile_replicate dropWhile_replicate Let_def)

lemma b64_char_ascii: "n < 64 \<Longrightarrow> (of_char (b64_char n) :: nat) < 128"
proof -
  assume "n < 64"
  then have "b64_char n \<in> set b64_alphabet"
    by (simp add: b64_char_def length_b64_alphabet)
  then show ?thesis
    by (auto simp: b64_alphabet_def)
qed

lemma sample_formats_ok: "formats_ok sample_formats"
proof -
  have "inj b64_encode"
    by (rule inj_on_inverseI [where g = "\<lambda>s. the (b64_decode s)"]) (simp add: b64_decode_encode)
  moreover have "list_all (\<lambda>x. (of_char x :: nat) < 128) (b64_encode c)" for c
    by (auto simp: b64_encode_def list_all_iff dest!: b64_sextets_bound [rotated]
        intro!: b64_char_ascii)
  ultimately show ?thesis
    by (simp add: formats_ok_def sample_formats_def sample_json_roundtrip)
qed

end
