(* ===== verification/Ucan.thy ===== *)
theory Ucan
  imports Paging
begin

section \<open>UCAN tokens, receipts and containers\<close>

text \<open>
  The values of the UCAN library that the service passes around, as records of what its code reads
  of them: a token (an invocation or a delegation), a receipt and a container. A token's arguments
  and a receipt's result are bytes; decoding them is a parameter of the code that decodes. An
  undefined DID or CID is the empty string.
\<close>

record token =
  tok_Link :: cid
  tok_Task :: cid
  tok_Issuer :: did
  tok_Subject :: did
  tok_Audience :: did
  tok_Command :: string
  tok_Arguments :: bytes
  tok_Nonce :: bytes
  tok_Proofs :: "cid list"

datatype outcome = OutOk bytes | OutErr bytes

fun IsErr :: "outcome \<Rightarrow> bool" where
  "IsErr (OutErr x) = True"
| "IsErr (OutOk y) = False"

record receipt =
  rcpt_Link :: cid
  rcpt_Ran :: cid
  rcpt_Issuer :: did
  rcpt_Out :: outcome

record container =
  Invocations :: "token list"
  Delegations :: "token list"
  Receipts :: "receipt list"

definition defined :: "string \<Rightarrow> bool" where
  "defined x \<longleftrightarrow> x \<noteq> ''''"

text \<open>
  The operations of the container and CID libraries the stores use: building a container, its CBOR
  form, the CID of bytes, the receipt of a container for a task and its delegation under a link.
\<close>

record ucan_lib =
  container_New :: "token list \<Rightarrow> token list \<Rightarrow> receipt list \<Rightarrow> container"
  container_MarshalCBOR :: "container \<Rightarrow> bytes res"
  cid_Sum :: "bytes \<Rightarrow> cid res"
  container_Receipt :: "container \<Rightarrow> cid \<Rightarrow> receipt option"
  container_Delegation :: "container \<Rightarrow> cid \<Rightarrow> token option"

text \<open>What the code relies on: a container holds the tokens it is built from, and its receipt for a
  task is one that ran the task, and exists where there is one.\<close>

definition ucan_lib_ok :: "ucan_lib \<Rightarrow> bool" where
  "ucan_lib_ok U \<longleftrightarrow>
     (\<forall>ivs ds rs. set (Invocations (container_New U ivs ds rs)) = set ivs \<and>
        set (Delegations (container_New U ivs ds rs)) = set ds \<and>
        set (Receipts (container_New U ivs ds rs)) = set rs) \<and>
     (\<forall>ct t. case container_Receipt U ct t of
        Some r \<Rightarrow> r \<in> set (Receipts ct) \<and> rcpt_Ran r = t
      | None \<Rightarrow> \<forall>r \<in> set (Receipts ct). rcpt_Ran r \<noteq> t)"

definition sample_ucan_lib :: ucan_lib where
  "sample_ucan_lib = \<lparr>container_New = (\<lambda>ivs ds rs. \<lparr>Invocations = remdups ivs, Delegations = remdups ds,
       Receipts = remdups rs\<rparr>),
     container_MarshalCBOR = (\<lambda>ct. Ok (concat (map tok_Link (Invocations ct)) @ concat (map rcpt_Link (Receipts ct)))),
     cid_Sum = Ok,
     container_Receipt = (\<lambda>ct t. find (\<lambda>r. rcpt_Ran r = t) (Receipts ct)),
     container_Delegation = (\<lambda>ct l. find (\<lambda>d. tok_Link d = l) (Delegations ct))\<rparr>"

lemma sample_ucan_lib_ok: "ucan_lib_ok sample_ucan_lib"
  by (auto simp: ucan_lib_ok_def sample_ucan_lib_def find_None_iff split: option.split dest: find_SomeD)

end
