(* ===== verification/Accounts.thy ===== *)
theory Accounts
  imports Paging
begin

section \<open>Customers, subscriptions and consumers\<close>

text \<open>
  \<^verbatim>\<open>pkg/store/customer\<close>, \<^verbatim>\<open>pkg/store/subscription\<close> and \<^verbatim>\<open>pkg/store/consumer\<close> with their in-memory
  backends: the accounts that pay, the subscriptions an account holds with a provider, and the
  spaces a provider serves under a subscription.

  The locale \<open>keyed_table\<close> is the contract of a table that is read by key and refuses to add a key
  twice; the customer and the subscription stores interpret it. Ranging over a Go map takes the
  order Go picks as an argument.
\<close>

text \<open>A value of a \<^verbatim>\<open>map[string]any\<close>, in its encoded form.\<close>

type_synonym any_value = bytes

record customer_Record =
  cust_Customer :: did
  cust_ExternalAccount :: "string option"
  cust_Product :: did
  cust_Details :: "string \<rightharpoonup> any_value"
  cust_ReservedCapacity :: "uint64 option"
  cust_InsertedAt :: time
  cust_UpdatedAt :: time

record subscription_Record =
  sub_Provider :: did
  sub_Subscription :: string
  sub_Customer :: did
  sub_Cause :: cid
  sub_InsertedAt :: time

record consumer_Record =
  con_Provider :: did
  con_Consumer :: did
  con_Customer :: did
  con_Subscription :: string
  con_Cause :: cid

definition ErrCustomerNotFound :: gerr where
  "ErrCustomerNotFound = Named ''CustomerNotFound'' ''customer not found''"

definition ErrCustomerExists :: gerr where
  "ErrCustomerExists = Named ''CustomerExists'' ''customer already exists''"

definition ErrSubscriptionExists :: gerr where
  "ErrSubscriptionExists = Named ''SubscriptionExists'' ''subscription already exists''"

definition ErrSubscriptionNotFound :: gerr where
  "ErrSubscriptionNotFound = Named ''SubscriptionNotFound'' ''subscription not found''"

definition ErrConsumerNotFound :: gerr where
  "ErrConsumerNotFound = Named ''ConsumerNotFound'' ''consumer not found''"

definition ErrConsumerExists :: gerr where
  "ErrConsumerExists = Named ''ConsumerExists'' ''consumer already exists''"

subsection \<open>The customer store\<close>

type_synonym customer_store = "customer_Record list"

definition customer_WithListLimit :: "int \<Rightarrow> ListOption" where
  "customer_WithListLimit limit cfg = cfg\<lparr>Limit := Some limit\<rparr>"

definition customer_WithListCursor :: "string \<Rightarrow> ListOption" where
  "customer_WithListCursor cursor cfg = cfg\<lparr>Cursor := Some cursor\<rparr>"

definition customer_New :: customer_store where
  "customer_New = []"

definition customer_Get :: "customer_store \<Rightarrow> did \<Rightarrow> customer_Record res" where
  "customer_Get s customerID =
     (case find (\<lambda>c. cust_Customer c = customerID) s of
        Some c \<Rightarrow> Ok c
      | None \<Rightarrow> Err ErrCustomerNotFound)"

definition customer_List :: "customer_store \<Rightarrow> ListOption list \<Rightarrow> customer_Record Page res" where
  "customer_List s options =
     (let cfg = apply_options options \<lparr>Cursor = None, Limit = Some 1000\<rparr>;
          entries = (case Cursor cfg of
              None \<Rightarrow> s
            | Some cur \<Rightarrow>
                (case IndexFunc (\<lambda>c. cust_Customer c = cur) s of
                   None \<Rightarrow> s
                 | Some i \<Rightarrow> (if i + 1 < length s then drop (i + 1) s else s)))
      in case Limit cfg of
           None \<Rightarrow> Ok \<lparr>page_Cursor = None, Results = entries\<rparr>
         | Some limit \<Rightarrow> cut_page cust_Customer limit entries)"

definition customer_Add ::
  "did \<Rightarrow> string option \<Rightarrow> did \<Rightarrow> (string \<rightharpoonup> any_value) \<Rightarrow> uint64 option \<Rightarrow> time \<Rightarrow>
   customer_store \<Rightarrow> customer_store \<times> unit res" where
  "customer_Add customerID externalAccount product details reservedCapacity now s =
     (if \<exists>c \<in> set s. cust_Customer c = customerID then (s, Err ErrCustomerExists)
      else
        (let c = \<lparr>cust_Customer = customerID, cust_ExternalAccount = externalAccount,
                  cust_Product = product, cust_Details = details,
                  cust_ReservedCapacity = reservedCapacity, cust_InsertedAt = now,
                  cust_UpdatedAt = go_zero_time\<rparr>
         in (sort_key cust_Customer (s @ [c]), Ok ())))"

definition customer_UpdateProduct :: "did \<Rightarrow> did \<Rightarrow> time \<Rightarrow> customer_store \<Rightarrow> customer_store \<times> unit res" where
  "customer_UpdateProduct customerID product now s =
     (case IndexFunc (\<lambda>c. cust_Customer c = customerID) s of
        Some i \<Rightarrow> (s[i := (s ! i)\<lparr>cust_Product := product, cust_UpdatedAt := now\<rparr>], Ok ())
      | None \<Rightarrow> (s, Err ErrCustomerNotFound))"

subsection \<open>The subscription store\<close>

type_synonym subscription_store = "did \<rightharpoonup> (string \<rightharpoonup> subscription_Record)"

definition WithListByProviderAndCustomerLimit :: "int \<Rightarrow> ListOption" where
  "WithListByProviderAndCustomerLimit limit cfg = cfg\<lparr>Limit := Some limit\<rparr>"

definition WithListByProviderAndCustomerCursor :: "string \<Rightarrow> ListOption" where
  "WithListByProviderAndCustomerCursor cursor cfg = cfg\<lparr>Cursor := Some cursor\<rparr>"

definition subscription_New :: subscription_store where
  "subscription_New = Map.empty"

definition subscription_Add ::
  "did \<Rightarrow> string \<Rightarrow> did \<Rightarrow> cid \<Rightarrow> subscription_store \<Rightarrow> subscription_store \<times> unit res" where
  "subscription_Add provider subscriptionID customer cause s =
     (let subs = (case s provider of None \<Rightarrow> Map.empty | Some m \<Rightarrow> m);
          s = s(provider \<mapsto> subs)
      in if subs subscriptionID \<noteq> None then (s, Err ErrSubscriptionExists)
         else (s(provider \<mapsto> subs(subscriptionID \<mapsto>
                 \<lparr>sub_Provider = provider, sub_Subscription = subscriptionID,
                  sub_Customer = customer, sub_Cause = cause,
                  sub_InsertedAt = go_zero_time\<rparr>)), Ok ()))"

definition subscription_Get :: "subscription_store \<Rightarrow> did \<Rightarrow> string \<Rightarrow> subscription_Record res" where
  "subscription_Get s provider subscriptionID =
     (case s provider of
        Some subs \<Rightarrow>
          (case subs subscriptionID of
             Some sub \<Rightarrow> Ok sub
           | None \<Rightarrow> Err ErrSubscriptionNotFound)
      | None \<Rightarrow> Err ErrSubscriptionNotFound)"

text \<open>\<open>order\<close> lists the subscription IDs of the provider in the order the map is ranged over.\<close>

definition ListByProviderAndCustomer ::
  "subscription_store \<Rightarrow> string list \<Rightarrow> did \<Rightarrow> did \<Rightarrow> ListOption list \<Rightarrow> subscription_Record Page res" where
  "ListByProviderAndCustomer s order provider customer options =
     (let cfg = apply_options options \<lparr>Cursor = None, Limit = Some 1000\<rparr>;
          subs = (case s provider of None \<Rightarrow> Map.empty | Some m \<Rightarrow> m);
          found = filter (\<lambda>sub. sub_Customer sub = customer) (List.map_filter subs order);
          all_subs = sort_key sub_Subscription found
      in case Limit cfg of
           None \<Rightarrow> Panic
         | Some limit \<Rightarrow> index_page limit (Cursor cfg) all_subs)"

subsection \<open>The consumer store\<close>

type_synonym consumer_store = "did \<Rightarrow> consumer_Record list"

definition consumer_WithListLimit :: "int \<Rightarrow> ListOption" where
  "consumer_WithListLimit limit cfg = cfg\<lparr>Limit := Some limit\<rparr>"

definition consumer_WithListCursor :: "string \<Rightarrow> ListOption" where
  "consumer_WithListCursor cursor cfg = cfg\<lparr>Cursor := Some cursor\<rparr>"

definition WithListByCustomerLimit :: "int \<Rightarrow> ListOption" where
  "WithListByCustomerLimit limit cfg = cfg\<lparr>Limit := Some limit\<rparr>"

definition WithListByCustomerCursor :: "string \<Rightarrow> ListOption" where
  "WithListByCustomerCursor cursor cfg = cfg\<lparr>Cursor := Some cursor\<rparr>"

definition consumer_New :: consumer_store where
  "consumer_New = (\<lambda>_. [])"

definition consumer_Add ::
  "did \<Rightarrow> did \<Rightarrow> did \<Rightarrow> string \<Rightarrow> cid \<Rightarrow> consumer_store \<Rightarrow> consumer_store \<times> unit res" where
  "consumer_Add provider space customer subscription cause s =
     (if \<exists>c \<in> set (s space). con_Provider c = provider \<and> con_Consumer c = space \<and>
           con_Customer c = customer \<and> con_Subscription c = subscription
      then (s, Err ErrConsumerExists)
      else (s(space := s space @ [\<lparr>con_Provider = provider, con_Consumer = space,
              con_Customer = customer, con_Subscription = subscription, con_Cause = cause\<rparr>]), Ok ()))"

definition consumer_Get :: "consumer_store \<Rightarrow> did \<Rightarrow> did \<Rightarrow> consumer_Record res" where
  "consumer_Get s provider space =
     (case find (\<lambda>c. con_Provider c = provider \<and> con_Consumer c = space) (s space) of
        Some c \<Rightarrow> Ok c
      | None \<Rightarrow> Err ErrConsumerNotFound)"

definition GetBySubscription :: "consumer_store \<Rightarrow> did list \<Rightarrow> did \<Rightarrow> string \<Rightarrow> consumer_Record res" where
  "GetBySubscription s order provider subscription =
     (case find (\<lambda>r. con_Provider r = provider \<and> con_Subscription r = subscription)
             (concat (map s order)) of
        Some r \<Rightarrow> Ok r
      | None \<Rightarrow> Err ErrConsumerNotFound)"

definition consumer_List ::
  "consumer_store \<Rightarrow> did \<Rightarrow> ListOption list \<Rightarrow> consumer_Record Page res" where
  "consumer_List s space options =
     (let cfg = apply_options options \<lparr>Cursor = None, Limit = Some 1000\<rparr> in
      case Limit cfg of
        None \<Rightarrow> Panic
      | Some limit \<Rightarrow> index_page limit (Cursor cfg) (s space))"

definition ListByCustomer ::
  "consumer_store \<Rightarrow> did list \<Rightarrow> did \<Rightarrow> ListOption list \<Rightarrow> consumer_Record Page res" where
  "ListByCustomer s order customer options =
     (let cfg = apply_options options \<lparr>Cursor = None, Limit = Some 1000\<rparr>;
          allConsumers = sort_key con_Consumer
            (filter (\<lambda>r. con_Customer r = customer) (concat (map s order)))
      in case Limit cfg of
           None \<Rightarrow> Panic
         | Some limit \<Rightarrow> index_page limit (Cursor cfg) allConsumers)"

subsection \<open>Tables read by key\<close>

locale keyed_table =
  fixes invar :: "'s \<Rightarrow> bool"
    and lookup :: "'s \<Rightarrow> 'k \<rightharpoonup> 'r"
    and get :: "'s \<Rightarrow> 'k \<Rightarrow> 'r res"
    and add :: "'k \<Rightarrow> 'v \<Rightarrow> 's \<Rightarrow> 's \<times> unit res"
    and make :: "'k \<Rightarrow> 'v \<Rightarrow> 'r"
    and missing :: gerr and exists :: gerr
  assumes get_lookup: "get s k = (case lookup s k of None \<Rightarrow> Err missing | Some r \<Rightarrow> Ok r)"
    and add_held: "lookup s k \<noteq> None \<Longrightarrow> add k v s = (s, Err exists)"
    and add_new: "invar s \<Longrightarrow> lookup s k = None \<Longrightarrow>
      \<exists>s'. add k v s = (s', Ok ()) \<and> lookup s' = (lookup s)(k \<mapsto> make k v)"
    and add_invar: "invar s \<Longrightarrow> invar (fst (add k v s))"
begin

lemma add_cases:
  assumes "invar s"
  obtains (held) r where "lookup s k = Some r" "add k v s = (s, Err exists)"
  | (new) s' where "lookup s k = None" "add k v s = (s', Ok ())" "lookup s' = (lookup s)(k \<mapsto> make k v)"
  using add_held [of s k v] add_new [OF assms, of k v] by (cases "lookup s k") auto

lemma get_after_add:
  assumes "invar s" and "add k v s = (s', r)"
  shows "get s' k = (case lookup s k of None \<Rightarrow> Ok (make k v) | Some old \<Rightarrow> Ok old)"
    and "k' \<noteq> k \<Longrightarrow> get s' k' = get s k'"
    and "r = (case lookup s k of None \<Rightarrow> Ok () | Some old \<Rightarrow> Err exists)"
  using assms(2) by (cases rule: add_cases [OF assms(1), of k v]; auto simp: get_lookup)+

lemma add_twice:
  assumes "invar s" and "add k v s = (s', r)"
  shows "add k v' s' = (s', Err exists)"
  using assms(2)
  by (cases rule: add_cases [OF assms(1), of k v]) (auto intro!: add_held)

end

definition customers_ok :: "customer_store \<Rightarrow> bool" where
  "customers_ok s \<longleftrightarrow> distinct (map cust_Customer s) \<and> sorted (map cust_Customer s)"

type_synonym customer_args = "string option \<times> did \<times> (string \<rightharpoonup> any_value) \<times> uint64 option \<times> time"

definition customer_add :: "did \<Rightarrow> customer_args \<Rightarrow> customer_store \<Rightarrow> customer_store \<times> unit res" where
  "customer_add k = (\<lambda>(acc, prod, det, cap, now). customer_Add k acc prod det cap now)"

definition customer_make :: "did \<Rightarrow> customer_args \<Rightarrow> customer_Record" where
  "customer_make k = (\<lambda>(acc, prod, det, cap, now). \<lparr>cust_Customer = k, cust_ExternalAccount = acc,
     cust_Product = prod, cust_Details = det, cust_ReservedCapacity = cap, cust_InsertedAt = now,
     cust_UpdatedAt = go_zero_time\<rparr>)"

definition customer_lookup :: "customer_store \<Rightarrow> did \<rightharpoonup> customer_Record" where
  "customer_lookup s k = find (\<lambda>c. cust_Customer c = k) s"

interpretation customer_table: keyed_table customers_ok customer_lookup customer_Get customer_add
  customer_make ErrCustomerNotFound ErrCustomerExists
proof unfold_locales
  fix s k and v :: customer_args
  obtain acc prod det cap now where v: "v = (acc, prod, det, cap, now)" by (cases v)
  show "customer_Get s k = (case customer_lookup s k of None \<Rightarrow> Err ErrCustomerNotFound | Some r \<Rightarrow> Ok r)"
    by (simp add: customer_Get_def customer_lookup_def)
  show "customer_lookup s k \<noteq> None \<Longrightarrow> customer_add k v s = (s, Err ErrCustomerExists)"
    unfolding customer_lookup_def find_None_key by (auto simp: v customer_add_def customer_Add_def)
  show "customers_ok s \<Longrightarrow> customers_ok (fst (customer_add k v s))"
    by (auto simp: v customer_add_def customer_Add_def customers_ok_def Let_def)
  assume ok: "customers_ok s" and new: "customer_lookup s k = None"
  then have k: "k \<notin> cust_Customer ` set s"
    by (simp add: customer_lookup_def find_None_key)
  then have "distinct (map cust_Customer (s @ [customer_make k v]))"
    using ok by (auto simp: customers_ok_def customer_make_def v)
  then have "find (\<lambda>c. cust_Customer c = k') (sort_key cust_Customer (s @ [customer_make k v])) =
      find (\<lambda>c. cust_Customer c = k') (s @ [customer_make k v])" for k'
    by (rule find_perm_key) simp
  moreover have "cust_Customer (customer_make k v) = k"
    by (simp add: customer_make_def v)
  ultimately have "customer_lookup (sort_key cust_Customer (s @ [customer_make k v])) =
      (customer_lookup s)(k \<mapsto> customer_make k v)"
    using new find_snoc_key [of cust_Customer k s "customer_make k v"]
    by (simp add: fun_eq_iff customer_lookup_def)
  moreover have "customer_add k v s = (sort_key cust_Customer (s @ [customer_make k v]), Ok ())"
    using k by (auto simp: v customer_add_def customer_Add_def customer_make_def Let_def)
  ultimately show "\<exists>s'. customer_add k v s = (s', Ok ()) \<and>
      customer_lookup s' = (customer_lookup s)(k \<mapsto> customer_make k v)"
    by simp
qed

definition subscription_add ::
  "did \<times> string \<Rightarrow> did \<times> cid \<Rightarrow> subscription_store \<Rightarrow> subscription_store \<times> unit res" where
  "subscription_add = (\<lambda>(provider, i) (customer, cause). subscription_Add provider i customer cause)"

definition subscription_lookup :: "subscription_store \<Rightarrow> did \<times> string \<rightharpoonup> subscription_Record" where
  "subscription_lookup s = (\<lambda>(provider, i). case s provider of None \<Rightarrow> None | Some m \<Rightarrow> m i)"

definition subscription_make :: "did \<times> string \<Rightarrow> did \<times> cid \<Rightarrow> subscription_Record" where
  "subscription_make = (\<lambda>(provider, i) (customer, cause). \<lparr>sub_Provider = provider,
     sub_Subscription = i, sub_Customer = customer, sub_Cause = cause, sub_InsertedAt = go_zero_time\<rparr>)"

lemma subscription_Add_held:
  "subscription_lookup s (p, i) \<noteq> None \<Longrightarrow> subscription_Add p i c cause s = (s, Err ErrSubscriptionExists)"
  by (auto simp: subscription_lookup_def subscription_Add_def Let_def fun_upd_idem split: option.splits)

lemma subscription_Add_new:
  assumes "subscription_lookup s (p, i) = None"
  shows "snd (subscription_Add p i c cause s) = Ok ()"
    and "subscription_lookup (fst (subscription_Add p i c cause s)) =
      (subscription_lookup s)((p, i) \<mapsto> subscription_make (p, i) (c, cause))"
  using assms
  by (auto simp: subscription_lookup_def subscription_Add_def subscription_make_def Let_def fun_eq_iff
      split: option.splits)

interpretation subscription_table: keyed_table "\<lambda>s. True" subscription_lookup
  "\<lambda>s (provider, i). subscription_Get s provider i" subscription_add subscription_make
  ErrSubscriptionNotFound ErrSubscriptionExists
proof unfold_locales
  fix s and k :: "did \<times> string" and v :: "did \<times> cid"
  obtain p i c cause where kv: "k = (p, i)" "v = (c, cause)" by (cases k, cases v)
  show "(case k of (provider, i) \<Rightarrow> subscription_Get s provider i) =
      (case subscription_lookup s k of None \<Rightarrow> Err ErrSubscriptionNotFound | Some r \<Rightarrow> Ok r)"
    by (simp add: kv subscription_lookup_def subscription_Get_def split: option.split)
  show "subscription_lookup s k \<noteq> None \<Longrightarrow> subscription_add k v s = (s, Err ErrSubscriptionExists)"
    by (simp add: kv subscription_add_def subscription_Add_held)
  assume "subscription_lookup s k = None"
  with subscription_Add_new [of s p i c cause] show "\<exists>s'. subscription_add k v s = (s', Ok ()) \<and>
      subscription_lookup s' = (subscription_lookup s)(k \<mapsto> subscription_make k v)"
    unfolding kv subscription_add_def by (auto simp: prod_eq_iff)
qed

subsection \<open>Consumers\<close>

definition consumer_key :: "consumer_Record \<Rightarrow> did \<times> did \<times> string" where
  "consumer_key c = (con_Provider c, con_Customer c, con_Subscription c)"

definition consumers_ok :: "consumer_store \<Rightarrow> bool" where
  "consumers_ok s \<longleftrightarrow> (\<forall>space. (\<forall>c \<in> set (s space). con_Consumer c = space) \<and>
     distinct (map consumer_key (s space)))"

lemma consumers_ok_New [inv_intros]: "consumers_ok consumer_New"
  by (simp add: consumers_ok_def consumer_New_def)

lemma consumers_ok_Add [inv_intros]:
  "consumers_ok s \<Longrightarrow> consumers_ok (fst (consumer_Add p sp cu sub cause s))"
  by (auto simp: consumers_ok_def consumer_Add_def consumer_key_def)

lemma consumers_distinct: "consumers_ok s \<Longrightarrow> distinct (s sp)"
  by (auto simp: consumers_ok_def distinct_map)

text \<open>Reading the consumers of a space to the end.\<close>

type_synonym consumer_view = "consumer_store \<times> did"

definition consumer_list_wf :: "consumer_view \<Rightarrow> bool" where
  "consumer_list_wf = (\<lambda>(s, space). consumers_ok s \<and> int (length (s space)) \<le> MaxInt64)"

definition consumer_items :: "consumer_view \<Rightarrow> consumer_Record list" where
  "consumer_items = (\<lambda>(s, space). s space)"

definition consumer_page :: "consumer_view \<Rightarrow> string option \<Rightarrow> consumer_Record Page res" where
  "consumer_page = (\<lambda>(s, space) c. consumer_List s space
     (case c of None \<Rightarrow> [] | Some k \<Rightarrow> [consumer_WithListCursor k]))"

interpretation consumer_pages: pager consumer_list_wf consumer_items consumer_page
  "\<lambda>v. index_resumes (consumer_items v)"
proof unfold_locales
  fix v c p
  show "consumer_list_wf v \<Longrightarrow> index_resumes (consumer_items v) None 0"
    by (simp add: index_resumes_def)
  assume wf: "consumer_list_wf v" and at: "index_resumes (consumer_items v) c p"
  have "consumer_page v c = index_page 1000 c (consumer_items v)"
    by (cases v) (simp add: consumer_page_def consumer_List_def consumer_items_def
        consumer_WithListCursor_def split: option.split)
  then show "\<exists>page n. consumer_page v c = Ok page \<and> Results page = take n (drop p (consumer_items v)) \<and>
      (case page_Cursor page of None \<Rightarrow> length (consumer_items v) \<le> p + n
       | Some c' \<Rightarrow> Results page \<noteq> [] \<and> index_resumes (consumer_items v) (Some c') (p + length (Results page)))"
    using wf at index_page_serves [of "consumer_items v" 1000 c p]
    by (cases v) (simp add: consumer_list_wf_def consumer_items_def consumers_distinct)
qed

end
