(* ===== verification/Providers.thy ===== *)
theory Providers
  imports Ucan Accounts
begin

section \<open>Storage providers and routing policies\<close>

text \<open>
  \<^verbatim>\<open>pkg/store/storage_provider\<close> and \<^verbatim>\<open>pkg/store/routing_policy\<close> with their in-memory backends: the
  storage nodes with their weights and proofs, the policies that restrict a space to some of them,
  and the policy each space references. Listing the providers ranges over a Go map; \<open>order\<close> is the
  order of its keys, and sorting makes it irrelevant (\<open>provider_order\<close>).

  A Go \<^verbatim>\<open>*int\<close> is an option; the copies that keep a stored weight from being shared are the values
  themselves here.
\<close>

record provider_Record =
  sp_Provider :: did
  sp_Endpoint :: string
  sp_Weight :: int
  sp_ReplicationWeight :: "int option"
  sp_Proofs :: container
  sp_InsertedAt :: time
  sp_UpdatedAt :: time

type_synonym provider_store = "did \<rightharpoonup> provider_Record"

definition ErrStorageProviderNotFound :: gerr where
  "ErrStorageProviderNotFound = Named ''StorageProviderNotFound'' ''storage provider not found''"

definition ErrStorageProviderExists :: gerr where
  "ErrStorageProviderExists = Named ''StorageProviderExists'' ''storage provider already exists''"

definition sp_WithListLimit :: "int \<Rightarrow> ListOption" where
  "sp_WithListLimit limit cfg = cfg\<lparr>Limit := Some limit\<rparr>"

definition sp_WithListCursor :: "string \<Rightarrow> ListOption" where
  "sp_WithListCursor cursor cfg = cfg\<lparr>Cursor := Some cursor\<rparr>"

definition sp_New :: provider_store where
  "sp_New = Map.empty"

definition sp_Delete :: "did \<Rightarrow> provider_store \<Rightarrow> provider_store \<times> unit res" where
  "sp_Delete providerID s =
     (if s providerID = None then (s, Err ErrStorageProviderNotFound)
      else (s(providerID := None), Ok ()))"

definition cloneInt :: "int option \<Rightarrow> int option" where
  "cloneInt value = (case value of None \<Rightarrow> None | Some v \<Rightarrow> Some v)"

definition sp_Get :: "provider_store \<Rightarrow> did \<Rightarrow> provider_Record res" where
  "sp_Get s providerID =
     (case s providerID of
        Some sp \<Rightarrow> Ok (sp\<lparr>sp_ReplicationWeight := cloneInt (sp_ReplicationWeight sp)\<rparr>)
      | None \<Rightarrow> Err ErrStorageProviderNotFound)"

definition sp_List :: "provider_store \<Rightarrow> did list \<Rightarrow> ListOption list \<Rightarrow> provider_Record Page res" where
  "sp_List s order options =
     (let cfg = apply_options options no_options;
          limit = (case Limit cfg of Some l \<Rightarrow> l | None \<Rightarrow> 1000);
          records = map (\<lambda>r. r\<lparr>sp_ReplicationWeight := cloneInt (sp_ReplicationWeight r)\<rparr>)
            (List.map_filter s order);
          records = sort_key sp_Provider records;
          records = (case Cursor cfg of
              None \<Rightarrow> Ok records
            | Some c \<Rightarrow>
                (case IndexFunc (\<lambda>r. sp_Provider r = c) records of
                   None \<Rightarrow> Ok records
                 | Some i \<Rightarrow> slice_from records (int i + 1)))
      in case records of
           Err e \<Rightarrow> Err e
         | Panic \<Rightarrow> Panic
         | Ok records \<Rightarrow> cut_page sp_Provider limit records)"

definition sp_Add ::
  "did \<Rightarrow> string \<Rightarrow> int \<Rightarrow> int option \<Rightarrow> container option \<Rightarrow> time \<Rightarrow>
   provider_store \<Rightarrow> provider_store \<times> unit res" where
  "sp_Add i endpoint weight replicationWeight proofs now s =
     (case proofs of
        None \<Rightarrow> (s, Err (Errorf ''missing proofs''))
      | Some proofs \<Rightarrow>
          (if s i \<noteq> None then (s, Err ErrStorageProviderExists)
           else (s(i \<mapsto> \<lparr>sp_Provider = i, sp_Endpoint = endpoint, sp_Weight = weight,
                   sp_ReplicationWeight = cloneInt replicationWeight, sp_Proofs = proofs,
                   sp_InsertedAt = now, sp_UpdatedAt = now\<rparr>), Ok ())))"

definition sp_SetWeights ::
  "did \<Rightarrow> int \<Rightarrow> int option \<Rightarrow> time \<Rightarrow> provider_store \<Rightarrow> provider_store \<times> unit res" where
  "sp_SetWeights i weight replicationWeight now s =
     (case s i of
        None \<Rightarrow> (s, Err ErrStorageProviderNotFound)
      | Some sp \<Rightarrow> (s(i \<mapsto> sp\<lparr>sp_Weight := weight,
            sp_ReplicationWeight := cloneInt replicationWeight, sp_UpdatedAt := now\<rparr>), Ok ()))"

definition sp_SetProofs ::
  "did \<Rightarrow> container option \<Rightarrow> time \<Rightarrow> provider_store \<Rightarrow> provider_store \<times> unit res" where
  "sp_SetProofs i proofs now s =
     (case proofs of
        None \<Rightarrow> (s, Err (Errorf ''missing proofs''))
      | Some proofs \<Rightarrow>
          (case s i of
             None \<Rightarrow> (s, Err ErrStorageProviderNotFound)
           | Some sp \<Rightarrow> (s(i \<mapsto> sp\<lparr>sp_Proofs := proofs, sp_UpdatedAt := now\<rparr>), Ok ())))"

subsection \<open>Routing policies\<close>

record PolicyRecord =
  pol_Policy :: did
  pol_Candidates :: "did list"
  pol_Cause :: cid
  pol_InsertedAt :: time
  pol_UpdatedAt :: time

record SpaceRecord =
  spol_Space :: did
  spol_Policy :: did
  spol_Cause :: cid
  spol_InsertedAt :: time
  spol_UpdatedAt :: time

record policy_store =
  policies :: "did \<rightharpoonup> PolicyRecord"
  spaces :: "did \<rightharpoonup> SpaceRecord"

definition ErrPolicyNotFound :: gerr where
  "ErrPolicyNotFound = Named ''RoutingPolicyNotFound'' ''routing policy not found''"

definition ErrSpacePolicyNotFound :: gerr where
  "ErrSpacePolicyNotFound = Named ''SpaceRoutingPolicyNotFound'' ''space has no routing policy''"

definition policy_New :: policy_store where
  "policy_New = \<lparr>policies = Map.empty, spaces = Map.empty\<rparr>"

definition SetCandidates ::
  "did \<Rightarrow> did list \<Rightarrow> cid \<Rightarrow> time \<Rightarrow> policy_store \<Rightarrow> policy_store \<times> unit res" where
  "SetCandidates policy candidates cause now s =
     (if length candidates = 0 then (s, Err (Errorf ''missing candidates''))
      else
        (case policies s policy of
           Some rec \<Rightarrow> (s\<lparr>policies := (policies s)(policy \<mapsto> rec\<lparr>pol_Candidates := candidates,
               pol_Cause := cause, pol_UpdatedAt := now\<rparr>)\<rparr>, Ok ())
         | None \<Rightarrow> (s\<lparr>policies := (policies s)(policy \<mapsto> \<lparr>pol_Policy = policy,
               pol_Candidates = candidates, pol_Cause = cause, pol_InsertedAt = now,
               pol_UpdatedAt = now\<rparr>)\<rparr>, Ok ())))"

definition GetPolicy :: "policy_store \<Rightarrow> did \<Rightarrow> PolicyRecord res" where
  "GetPolicy s policy = (case policies s policy of None \<Rightarrow> Err ErrPolicyNotFound | Some rec \<Rightarrow> Ok rec)"

definition SetSpacePolicy ::
  "did \<Rightarrow> did \<Rightarrow> cid \<Rightarrow> time \<Rightarrow> policy_store \<Rightarrow> policy_store \<times> unit res" where
  "SetSpacePolicy space policy cause now s =
     (if policies s policy = None then (s, Err ErrPolicyNotFound)
      else
        (case spaces s space of
           Some rec \<Rightarrow> (s\<lparr>spaces := (spaces s)(space \<mapsto> rec\<lparr>spol_Policy := policy,
               spol_Cause := cause, spol_UpdatedAt := now\<rparr>)\<rparr>, Ok ())
         | None \<Rightarrow> (s\<lparr>spaces := (spaces s)(space \<mapsto> \<lparr>spol_Space = space, spol_Policy = policy,
               spol_Cause = cause, spol_InsertedAt = now, spol_UpdatedAt = now\<rparr>)\<rparr>, Ok ())))"

definition policy_ClearSpacePolicy :: "did \<Rightarrow> policy_store \<Rightarrow> policy_store \<times> unit res" where
  "policy_ClearSpacePolicy space s = (s\<lparr>spaces := (spaces s)(space := None)\<rparr>, Ok ())"

definition GetSpacePolicy :: "policy_store \<Rightarrow> did \<Rightarrow> SpaceRecord res" where
  "GetSpacePolicy s space =
     (case spaces s space of None \<Rightarrow> Err ErrSpacePolicyNotFound | Some rec \<Rightarrow> Ok rec)"

subsection \<open>The provider table\<close>

lemma cloneInt_id [simp]: "cloneInt v = v"
  by (simp add: cloneInt_def split: option.split)

definition providers_ok :: "provider_store \<Rightarrow> bool" where
  "providers_ok s \<longleftrightarrow> (\<forall>i r. s i = Some r \<longrightarrow> sp_Provider r = i)"

lemma providers_ok_ops [inv_intros]:
  assumes "providers_ok s"
  shows "providers_ok (fst (sp_Delete i s))" "providers_ok (fst (sp_Add i e w rw pf now s))"
    "providers_ok (fst (sp_SetWeights i w rw now s))" "providers_ok (fst (sp_SetProofs i pf now s))"
  using assms
  by (auto simp: providers_ok_def sp_Delete_def sp_Add_def sp_SetWeights_def sp_SetProofs_def
      split: option.splits)

type_synonym provider_args = "string \<times> int \<times> int option \<times> container \<times> time"

definition provider_add :: "did \<Rightarrow> provider_args \<Rightarrow> provider_store \<Rightarrow> provider_store \<times> unit res" where
  "provider_add i = (\<lambda>(e, w, rw, pf, now). sp_Add i e w rw (Some pf) now)"

definition provider_make :: "did \<Rightarrow> provider_args \<Rightarrow> provider_Record" where
  "provider_make i = (\<lambda>(e, w, rw, pf, now). \<lparr>sp_Provider = i, sp_Endpoint = e, sp_Weight = w,
     sp_ReplicationWeight = rw, sp_Proofs = pf, sp_InsertedAt = now, sp_UpdatedAt = now\<rparr>)"

interpretation provider_table: keyed_table providers_ok "\<lambda>s. s" sp_Get provider_add provider_make
  ErrStorageProviderNotFound ErrStorageProviderExists
proof unfold_locales
  fix s k and v :: provider_args
  obtain e w rw pf now where v: "v = (e, w, rw, pf, now)" by (cases v)
  show "sp_Get s k = (case s k of None \<Rightarrow> Err ErrStorageProviderNotFound | Some r \<Rightarrow> Ok r)"
    by (simp add: sp_Get_def split: option.split)
  show "s k \<noteq> None \<Longrightarrow> provider_add k v s = (s, Err ErrStorageProviderExists)"
    by (auto simp: v provider_add_def sp_Add_def)
  show "providers_ok s \<Longrightarrow> providers_ok (fst (provider_add k v s))"
    by (simp add: v provider_add_def inv_intros)
  show "s k = None \<Longrightarrow> \<exists>s'. provider_add k v s = (s', Ok ()) \<and> s' = s(k \<mapsto> provider_make k v)"
    by (simp add: v provider_add_def sp_Add_def provider_make_def)
qed

subsection \<open>Listing the providers\<close>

text \<open>\<open>order\<close> enumerates the keys of the map.\<close>

definition enumerates :: "'k list \<Rightarrow> ('k \<rightharpoonup> 'v) \<Rightarrow> bool" where
  "enumerates order m \<longleftrightarrow> distinct order \<and> set order = dom m"

definition provider_records :: "provider_store \<Rightarrow> did list \<Rightarrow> provider_Record list" where
  "provider_records s order = sort_key sp_Provider (List.map_filter s order)"

lemma map_filter_keys:
  assumes "providers_ok s" and "set order \<subseteq> dom s"
  shows "map sp_Provider (List.map_filter s order) = order"
  using assms
proof (induction order)
  case (Cons i order)
  then obtain r where "s i = Some r" by auto
  with Cons show ?case
    by (simp add: List.map_filter_simps providers_ok_def)
qed (simp add: List.map_filter_simps)

lemma set_map_filter: "set (List.map_filter s order) = {r. \<exists>i \<in> set order. s i = Some r}"
  by (force simp: List.map_filter_def image_iff)

lemma provider_records_spec:
  assumes "providers_ok s" and "enumerates order s"
  shows "set (provider_records s order) = ran s" and "distinct (map sp_Provider (provider_records s order))"
    and "sorted (map sp_Provider (provider_records s order))"
proof -
  show "set (provider_records s order) = ran s"
    using assms(2) by (auto simp: provider_records_def set_map_filter enumerates_def ran_def dom_def)
  show "distinct (map sp_Provider (provider_records s order))"
    using assms map_filter_keys [OF assms(1), of order]
    by (simp add: provider_records_def enumerates_def)
  show "sorted (map sp_Provider (provider_records s order))"
    by (simp add: provider_records_def)
qed

text \<open>The order the map is ranged over does not show.\<close>

lemma provider_order:
  assumes "providers_ok s" and "enumerates order s" and "enumerates order' s"
  shows "provider_records s order = provider_records s order'"
proof -
  have inj: "inj_on sp_Provider (ran s)"
    using assms(1) by (auto simp: inj_on_def ran_def providers_ok_def)
  have "map sp_Provider (provider_records s order) = map sp_Provider (provider_records s order')"
  proof (rule sorted_distinct_set_unique)
    show "set (map sp_Provider (provider_records s order)) = set (map sp_Provider (provider_records s order'))"
      using provider_records_spec(1) [OF assms(1)] assms(2,3) by simp
  qed (use provider_records_spec(2,3) [OF assms(1)] assms(2,3) in auto)
  then show ?thesis
    using provider_records_spec(1) [OF assms(1)] assms(2,3) inj
    by (intro map_inj_on [of sp_Provider]) auto
qed

type_synonym provider_view = "provider_store \<times> did list"

definition provider_list_wf :: "provider_view \<Rightarrow> bool" where
  "provider_list_wf = (\<lambda>(s, order). providers_ok s \<and> enumerates order s)"

definition provider_items :: "provider_view \<Rightarrow> provider_Record list" where
  "provider_items = (\<lambda>(s, order). provider_records s order)"

definition provider_page :: "provider_view \<Rightarrow> string option \<Rightarrow> provider_Record Page res" where
  "provider_page = (\<lambda>(s, order) c. sp_List s order (case c of None \<Rightarrow> [] | Some k \<Rightarrow> [sp_WithListCursor k]))"

interpretation provider_pages: pager provider_list_wf provider_items provider_page
  "\<lambda>v. key_resumes sp_Provider (provider_items v)"
proof unfold_locales
  fix v c p
  show "provider_list_wf v \<Longrightarrow> key_resumes sp_Provider (provider_items v) None 0"
    by simp
  assume wf: "provider_list_wf v" and at: "key_resumes sp_Provider (provider_items v) c p"
  obtain s order where v: "v = (s, order)" by (cases v)
  have dist: "distinct (map sp_Provider (provider_items v))"
    using wf v provider_records_spec(2) by (simp add: provider_list_wf_def provider_items_def)
  have "provider_page v c = cut_page sp_Provider 1000 (drop p (provider_items v))"
  proof (cases c)
    case None
    with at v show ?thesis
      by (simp add: provider_page_def sp_List_def no_options_def provider_items_def provider_records_def Let_def)
  next
    case (Some k)
    note found = IndexFunc_key_resumes [OF dist at [unfolded Some]]
    then have "int (p - 1) + 1 = int p" "p \<le> length (provider_items v)"
      by linarith+
    with found(1) Some v show ?thesis
      by (simp add: provider_page_def sp_List_def no_options_def provider_items_def provider_records_def
          sp_WithListCursor_def slice_from_def Let_def)
  qed
  then show "\<exists>page n. provider_page v c = Ok page \<and> Results page = take n (drop p (provider_items v)) \<and>
      (case page_Cursor page of None \<Rightarrow> length (provider_items v) \<le> p + n
       | Some c' \<Rightarrow> Results page \<noteq> [] \<and>
           key_resumes sp_Provider (provider_items v) (Some c') (p + length (Results page)))"
    using cut_page_serves [of 1000 sp_Provider p "provider_items v"] by simp
qed

subsection \<open>The policies and their references\<close>

definition policies_ok :: "policy_store \<Rightarrow> bool" where
  "policies_ok s \<longleftrightarrow> (\<forall>i r. policies s i = Some r \<longrightarrow> pol_Policy r = i \<and> pol_Candidates r \<noteq> []) \<and>
     (\<forall>sp r. spaces s sp = Some r \<longrightarrow> spol_Space r = sp \<and> policies s (spol_Policy r) \<noteq> None)"

lemma policies_ok_ops [inv_intros]:
  assumes "policies_ok s"
  shows "policies_ok (fst (SetCandidates i cs cause now s))" "policies_ok (fst (SetSpacePolicy sp i cause now s))"
    "policies_ok (fst (policy_ClearSpacePolicy sp s))"
  using assms
  by (auto simp: policies_ok_def SetCandidates_def SetSpacePolicy_def policy_ClearSpacePolicy_def
      split: option.splits if_splits)

lemma policies_ok_pairs:
  "policies_ok s \<Longrightarrow> SetCandidates i cs cause now s = (t, r) \<Longrightarrow> policies_ok t"
  "policies_ok s \<Longrightarrow> SetSpacePolicy sp i cause now s = (t, r') \<Longrightarrow> policies_ok t"
  by (metis fst_conv policies_ok_ops(1), metis fst_conv policies_ok_ops(2))

lemma policies_ok_New [inv_intros]: "policies_ok policy_New"
  by (simp add: policies_ok_def policy_New_def)

end
