(* ===== verification/Routing.thy ===== *)
theory Routing
  imports Providers
begin

section \<open>Routing\<close>

text \<open>
  \<^verbatim>\<open>pkg/routing/service.go\<close>: which storage provider a blob goes to. The service keeps no state of
  its own; it reads the provider store and reads and writes the policy store.

  \<^verbatim>\<open>rand.Int63n\<close> is the argument \<open>draw\<close>: \<open>draw n\<close> is the number drawn for the bound \<open>n\<close>. Weights
  are added as \<^verbatim>\<open>uint64\<close> and subtracted as \<^verbatim>\<open>int64\<close>. Reading the providers goes through the
  collecting loop, so what uses it may in principle not return.
\<close>

record routing_Service =
  storageProviderStore :: provider_store
  policyStore :: policy_store

record StorageProviderInfo =
  info_ID :: did
  info_Endpoint :: string
  info_Proofs :: container

definition ErrCandidateUnavailable :: gerr where
  "ErrCandidateUnavailable = Named ''CandidateUnavailable'' ''no storage providers available''"

definition InvalidCandidates :: "string \<Rightarrow> gerr" where
  "InvalidCandidates msg = Named ''InvalidCandidates'' msg"

definition routing_NewService :: "provider_store \<Rightarrow> policy_store \<Rightarrow> routing_Service" where
  "routing_NewService sps pols = \<lparr>storageProviderStore = sps, policyStore = pols\<rparr>"

type_synonym selectCfg = "did list"
type_synonym SelectOption = "selectCfg \<Rightarrow> selectCfg"

definition WithExclusions :: "did list \<Rightarrow> SelectOption" where
  "WithExclusions ps cfg = cfg @ ps"

text \<open>The loop of \<^verbatim>\<open>PutPolicy\<close> over the candidates.\<close>

fun check_candidates :: "provider_store \<Rightarrow> did list \<Rightarrow> unit res" where
  "check_candidates s [] = Ok ()"
| "check_candidates s (c # cs) =
     (case sp_Get s c of
        Err e \<Rightarrow>
          (if errors_Is e ErrStorageProviderNotFound
           then Err (InvalidCandidates ''candidate is not a registered storage provider'')
           else Err (Wrap ''getting storage provider'' e))
      | Panic \<Rightarrow> Panic
      | Ok _ \<Rightarrow> check_candidates s cs)"

definition PutPolicy ::
  "did \<Rightarrow> did list \<Rightarrow> cid \<Rightarrow> time \<Rightarrow>
   'z routing_Service_scheme \<Rightarrow> 'z routing_Service_scheme \<times> unit res" where
  "PutPolicy policy candidates cause now s =
     (if length candidates = 0
      then (s, Err (InvalidCandidates ''routing policy requires at least one candidate''))
      else
        (case check_candidates (storageProviderStore s) candidates of
           Err e \<Rightarrow> (s, Err e)
         | Panic \<Rightarrow> (s, Panic)
         | Ok _ \<Rightarrow>
             (let (ps, r) = SetCandidates policy candidates cause now (policyStore s);
                  s = s\<lparr>policyStore := ps\<rparr>
              in case r of
                   Err e \<Rightarrow> (s, Err (Wrap ''storing routing policy'' e))
                 | Panic \<Rightarrow> (s, Panic)
                 | Ok _ \<Rightarrow> (s, Ok ()))))"

definition UseSpacePolicy ::
  "did \<Rightarrow> did \<Rightarrow> cid \<Rightarrow> time \<Rightarrow>
   'z routing_Service_scheme \<Rightarrow> 'z routing_Service_scheme \<times> unit res" where
  "UseSpacePolicy space policy cause now s =
     (let (ps, r) = SetSpacePolicy space policy cause now (policyStore s)
      in (s\<lparr>policyStore := ps\<rparr>, r))"

definition ClearSpacePolicy ::
  "did \<Rightarrow> 'z routing_Service_scheme \<Rightarrow> 'z routing_Service_scheme \<times> unit res" where
  "ClearSpacePolicy space s =
     (let (ps, r) = policy_ClearSpacePolicy space (policyStore s) in (s\<lparr>policyStore := ps\<rparr>, r))"

definition GetProviderInfo :: "'z routing_Service_scheme \<Rightarrow> did \<Rightarrow> StorageProviderInfo res" where
  "GetProviderInfo s provider =
     (case sp_Get (storageProviderStore s) provider of
        Err e \<Rightarrow> Err e
      | Panic \<Rightarrow> Panic
      | Ok rec \<Rightarrow> Ok \<lparr>info_ID = sp_Provider rec, info_Endpoint = sp_Endpoint rec,
                     info_Proofs = sp_Proofs rec\<rparr>)"

definition resolvePolicy :: "'z routing_Service_scheme \<Rightarrow> did \<Rightarrow> PolicyRecord option res" where
  "resolvePolicy s space =
     (case GetSpacePolicy (policyStore s) space of
        Err e \<Rightarrow>
          (if errors_Is e ErrSpacePolicyNotFound then Ok None
           else Err (Wrap ''getting space routing policy'' e))
      | Panic \<Rightarrow> Panic
      | Ok ref \<Rightarrow>
          (case GetPolicy (policyStore s) (spol_Policy ref) of
             Err e \<Rightarrow>
               (if errors_Is e ErrPolicyNotFound then Err ErrCandidateUnavailable
                else Err (Wrap ''getting routing policy'' e))
           | Panic \<Rightarrow> Panic
           | Ok rec \<Rightarrow> Ok (Some rec)))"

definition filterToCandidates :: "provider_Record list \<Rightarrow> did list \<Rightarrow> provider_Record list" where
  "filterToCandidates ps candidates = filter (\<lambda>prov. sp_Provider prov \<in> set candidates) ps"

definition listProviders :: "provider_store \<Rightarrow> did list \<Rightarrow> provider_Record list res option" where
  "listProviders s order =
     store_Collect (\<lambda>options. sp_List s order
       ((case Cursor options of None \<Rightarrow> [] | Some c \<Rightarrow> [sp_WithListCursor c]) @
        (case Limit options of None \<Rightarrow> [] | Some l \<Rightarrow> [sp_WithListLimit l])))"

fun filterExcludedProviders :: "provider_Record list \<Rightarrow> did list \<Rightarrow> provider_Record list" where
  "filterExcludedProviders [] exclusions = []"
| "filterExcludedProviders (prov # ps) exclusions =
     (if sp_Weight prov \<le> 0 then filterExcludedProviders ps exclusions
      else if \<exists>ex \<in> set exclusions. sp_Provider prov = ex then filterExcludedProviders ps exclusions
      else prov # filterExcludedProviders ps exclusions)"

definition filterZeroWeightProviders :: "provider_Record list \<Rightarrow> provider_Record list" where
  "filterZeroWeightProviders ps = filter (\<lambda>prov. sp_Weight prov > 0) ps"

definition filterZeroReplicationWeightProviders :: "provider_Record list \<Rightarrow> provider_Record list" where
  "filterZeroReplicationWeightProviders ps =
     filter (\<lambda>prov. (case sp_ReplicationWeight prov of Some w \<Rightarrow> w | None \<Rightarrow> sp_Weight prov) > 0) ps"

fun pick_weight :: "nat \<Rightarrow> uint64 list \<Rightarrow> int64 \<Rightarrow> nat res" where
  "pick_weight i [] random = Panic"
| "pick_weight i (weight # ws) random =
     (let random = random - weight in
      if sint random \<le> 0 then Ok i else pick_weight (i + 1) ws random)"

text \<open>\<^verbatim>\<open>rand.Int63n\<close> panics where its bound is not positive.\<close>

definition weightedRandomInt :: "(int \<Rightarrow> int) \<Rightarrow> uint64 list \<Rightarrow> nat res" where
  "weightedRandomInt draw weights =
     (let totalWeight = sum_list weights in
      if sint totalWeight \<le> 0 then Panic
      else pick_weight 0 weights (word_of_int (draw (sint totalWeight))))"

definition weighted_pick :: "(int \<Rightarrow> int) \<Rightarrow> provider_Record list \<Rightarrow> StorageProviderInfo res" where
  "weighted_pick draw candidates =
     (case weightedRandomInt draw (map (\<lambda>c. word_of_int (sp_Weight c)) candidates) of
        Err e \<Rightarrow> Err e
      | Panic \<Rightarrow> Panic
      | Ok i \<Rightarrow>
          (case slice_at candidates (int i) of
             Err e \<Rightarrow> Err e
           | Panic \<Rightarrow> Panic
           | Ok selected \<Rightarrow> Ok \<lparr>info_ID = sp_Provider selected, info_Endpoint = sp_Endpoint selected,
                             info_Proofs = sp_Proofs selected\<rparr>))"

definition SelectStorageProvider ::
  "'z routing_Service_scheme \<Rightarrow> did list \<Rightarrow> (int \<Rightarrow> int) \<Rightarrow> did \<Rightarrow> SelectOption list \<Rightarrow>
   StorageProviderInfo res option" where
  "SelectStorageProvider s order draw space options =
     (let exclusions = fold (\<lambda>opt cfg. opt cfg) options [] in
      case listProviders (storageProviderStore s) order of
        None \<Rightarrow> None
      | Some (Err e) \<Rightarrow> Some (Err e)
      | Some Panic \<Rightarrow> Some Panic
      | Some (Ok candidates) \<Rightarrow>
          (case resolvePolicy s space of
             Err e \<Rightarrow> Some (Err e)
           | Panic \<Rightarrow> Some Panic
           | Ok policy \<Rightarrow>
               (let candidates = (case policy of
                    Some p \<Rightarrow> filterToCandidates candidates (pol_Candidates p)
                  | None \<Rightarrow> candidates);
                    candidates = filterExcludedProviders candidates exclusions;
                    candidates = filterZeroWeightProviders candidates
                in if length candidates = 0 then Some (Err ErrCandidateUnavailable)
                   else Some (weighted_pick draw candidates))))"

definition SelectReplicationProvider ::
  "'z routing_Service_scheme \<Rightarrow> did list \<Rightarrow> (int \<Rightarrow> int) \<Rightarrow> did \<Rightarrow> SelectOption list \<Rightarrow>
   StorageProviderInfo res option" where
  "SelectReplicationProvider s order draw primary options =
     (let exclusions = fold (\<lambda>opt cfg. opt cfg) options [] in
      case listProviders (storageProviderStore s) order of
        None \<Rightarrow> None
      | Some (Err e) \<Rightarrow> Some (Err e)
      | Some Panic \<Rightarrow> Some Panic
      | Some (Ok candidates) \<Rightarrow>
          (let candidates = filterExcludedProviders candidates (exclusions @ [primary]);
               candidates = filterZeroReplicationWeightProviders candidates
           in if length candidates = 0 then Some (Err ErrCandidateUnavailable)
              else Some (weighted_pick draw candidates)))"

subsection \<open>The draw\<close>

definition draw_ok :: "(int \<Rightarrow> int) \<Rightarrow> bool" where
  "draw_ok draw \<longleftrightarrow> (\<forall>n. 0 < n \<longrightarrow> 0 \<le> draw n \<and> draw n < n)"

lemma sint_word_of_int:
  assumes "- MaxInt64 \<le> x" and "x \<le> MaxInt64"
  shows "sint (word_of_int x :: 64 word) = x"
  using assms
  by (simp add: MaxInt64_def sint_uint signed_take_bit_eq_take_bit_shift take_bit_eq_mod uint_word_of_int
      mod_simps)

lemma sum_list_word_of_int: "sum_list (map word_of_int ws) = (word_of_int (sum_list ws) :: 'a::len word)"
  by (induction ws) simp_all

lemma pick_weight_spec:
  assumes "\<forall>w \<in> set ws. 0 < w" and "sum_list ws \<le> MaxInt64" and "0 \<le> r" and "r \<le> sum_list ws" and "ws \<noteq> []"
  shows "\<exists>k < length ws. pick_weight i (map word_of_int ws) (word_of_int r) = Ok (i + k) \<and>
    r \<le> sum_list (take (Suc k) ws) \<and> (k = 0 \<or> sum_list (take k ws) < r)"
  using assms
proof (induction ws arbitrary: i r)
  case (Cons w ws)
  have nonneg: "0 \<le> sum_list ws"
    using Cons.prems(1) by (intro sum_list_nonneg) (simp add: less_imp_le)
  then have w: "0 < w" "w \<le> MaxInt64"
    using Cons.prems(1,2) by auto
  have step: "sint (word_of_int r - word_of_int w :: 64 word) = r - w"
    using Cons.prems nonneg w sint_word_of_int [of "r - w"] by simp
  show ?case
  proof (cases "r \<le> w")
    case True
    with step show ?thesis
      by (intro exI [of _ 0]) (simp add: Let_def)
  next
    case False
    then have "ws \<noteq> []"
      using Cons.prems by auto
    with False Cons.prems w obtain k where k: "k < length ws"
      "pick_weight (i + 1) (map word_of_int ws) (word_of_int (r - w)) = Ok (i + 1 + k)"
      "r - w \<le> sum_list (take (Suc k) ws)" "k = 0 \<or> sum_list (take k ws) < r - w"
      using Cons.IH [of "r - w" "i + 1"] by auto
    with False step show ?thesis
      by (intro exI [of _ "Suc k"]) (auto simp: Let_def)
  qed
qed simp

text \<open>Whatever number is drawn, one of the weights is picked, and which one is fixed by the running
  sums of the weights.\<close>

lemma weightedRandomInt_cong:
  "draw (sint (sum_list ws)) = draw' (sint (sum_list ws)) \<Longrightarrow>
    weightedRandomInt draw ws = weightedRandomInt draw' ws"
  by (simp add: weightedRandomInt_def Let_def)

lemma weightedRandomInt_spec:
  assumes "\<forall>w \<in> set ws. 0 < w" and "sum_list ws \<le> MaxInt64" and "ws \<noteq> []" and "draw_ok draw"
  shows "\<exists>k < length ws. weightedRandomInt draw (map word_of_int ws) = Ok k \<and>
    draw (sum_list ws) \<le> sum_list (take (Suc k) ws) \<and>
    (k = 0 \<or> sum_list (take k ws) < draw (sum_list ws))"
proof -
  have pos: "0 < sum_list ws"
    using assms(1,3) sum_list_nonneg [of "tl ws"] by (cases ws) (auto simp: add_pos_nonneg intro!: add_pos_nonneg sum_list_nonneg)
  then have total: "sint (sum_list (map word_of_int ws) :: 64 word) = sum_list ws"
    using assms(2) by (simp add: sum_list_word_of_int sint_word_of_int MaxInt64_def)
  have "0 \<le> draw (sum_list ws)" "draw (sum_list ws) \<le> sum_list ws"
    using assms(4) pos by (auto simp: draw_ok_def intro: less_imp_le)
  from pick_weight_spec [OF assms(1,2) this assms(3), of 0] pos show ?thesis
    by (simp add: weightedRandomInt_def total Let_def)
qed

subsection \<open>The candidates\<close>

lemma filterExcluded_eq:
  "filterExcludedProviders ps ex = filter (\<lambda>p. 0 < sp_Weight p \<and> sp_Provider p \<notin> set ex) ps"
  by (induction ps) auto

lemma filterZero_excluded:
  "filterZeroWeightProviders (filterExcludedProviders ps ex) =
    filter (\<lambda>p. 0 < sp_Weight p \<and> sp_Provider p \<notin> set ex) ps"
  by (auto simp: filterZeroWeightProviders_def filterExcluded_eq intro!: filter_cong)

lemma listProviders_all:
  assumes "providers_ok s" and "enumerates order s"
  shows "listProviders s order = Some (Ok (provider_records s order))"
  using provider_pages.collect_items [of "(s, order)"] assms
  by (simp add: listProviders_def provider_list_wf_def provider_items_def provider_page_def)

definition info_of :: "provider_Record \<Rightarrow> StorageProviderInfo" where
  "info_of r = \<lparr>info_ID = sp_Provider r, info_Endpoint = sp_Endpoint r, info_Proofs = sp_Proofs r\<rparr>"

lemma weighted_pick_spec:
  assumes "\<forall>c \<in> set cs. 0 < sp_Weight c" and "sum_list (map sp_Weight cs) \<le> MaxInt64" and "cs \<noteq> []"
    and "draw_ok draw"
  shows "\<exists>c \<in> set cs. weighted_pick draw cs = Ok (info_of c)"
proof -
  obtain k where "k < length cs" "weightedRandomInt draw (map word_of_int (map sp_Weight cs)) = Ok k"
    using weightedRandomInt_spec [of "map sp_Weight cs" draw] assms by auto
  then show ?thesis
    by (intro bexI [of _ "cs ! k"]) (simp_all add: weighted_pick_def slice_at_def info_of_def o_def)
qed

text \<open>The total weight of the providers that have one, which must fit \<^verbatim>\<open>int64\<close>.\<close>

definition weights_fit :: "provider_store \<Rightarrow> did list \<Rightarrow> bool" where
  "weights_fit s order \<longleftrightarrow>
     sum_list (map sp_Weight (filter (\<lambda>p. 0 < sp_Weight p) (provider_records s order))) \<le> MaxInt64"

lemma sum_list_filter_le:
  "(\<And>x. x \<in> set xs \<Longrightarrow> P x \<Longrightarrow> Q x) \<Longrightarrow> (\<And>x. x \<in> set xs \<Longrightarrow> Q x \<Longrightarrow> (0 :: int) \<le> f x) \<Longrightarrow>
    sum_list (map f (filter P xs)) \<le> sum_list (map f (filter Q xs))"
  by (induction xs) (auto simp: add_increasing)

definition eligible :: "'z routing_Service_scheme \<Rightarrow> did \<Rightarrow> did list \<Rightarrow> provider_Record \<Rightarrow> bool" where
  "eligible s space exclusions r \<longleftrightarrow> storageProviderStore s (sp_Provider r) = Some r \<and> 0 < sp_Weight r \<and>
     sp_Provider r \<notin> set exclusions \<and>
     (case spaces (policyStore s) space of
        None \<Rightarrow> True
      | Some ref \<Rightarrow> (case policies (policyStore s) (spol_Policy ref) of
          None \<Rightarrow> False
        | Some p \<Rightarrow> sp_Provider r \<in> set (pol_Candidates p)))"

lemma resolvePolicy_eq:
  "resolvePolicy s space = (case spaces (policyStore s) space of
      None \<Rightarrow> Ok None
    | Some ref \<Rightarrow> (case policies (policyStore s) (spol_Policy ref) of
        None \<Rightarrow> Err ErrCandidateUnavailable
      | Some p \<Rightarrow> Ok (Some p)))"
  by (simp add: resolvePolicy_def GetSpacePolicy_def GetPolicy_def ErrSpacePolicyNotFound_def
      ErrPolicyNotFound_def split: option.split)

lemma eligible_candidates:
  assumes "providers_ok (storageProviderStore s)" and "enumerates order (storageProviderStore s)"
    and "resolvePolicy s space = Ok policy"
  shows "set (filterZeroWeightProviders (filterExcludedProviders (case policy of
      Some p \<Rightarrow> filterToCandidates (provider_records (storageProviderStore s) order) (pol_Candidates p)
    | None \<Rightarrow> provider_records (storageProviderStore s) order) exclusions)) =
    {r. eligible s space exclusions r}"
proof -
  have held: "r \<in> ran (storageProviderStore s) \<longleftrightarrow> storageProviderStore s (sp_Provider r) = Some r" for r
    using assms(1) by (auto simp: ran_def providers_ok_def)
  show ?thesis
    using assms(3) provider_records_spec(1) [OF assms(1,2)]
    by (auto simp: filterZero_excluded filterToCandidates_def eligible_def resolvePolicy_eq held
        split: option.splits)
qed

lemma SelectStorageProvider_cases:
  assumes "providers_ok (storageProviderStore s)" and "enumerates order (storageProviderStore s)"
    and "weights_fit (storageProviderStore s) order" and "draw_ok draw"
  shows "if \<exists>r. eligible s space exclusions r
    then \<exists>r. eligible s space exclusions r \<and>
      SelectStorageProvider s order draw space [WithExclusions exclusions] = Some (Ok (info_of r))
    else SelectStorageProvider s order draw space [WithExclusions exclusions] = Some (Err ErrCandidateUnavailable)"
proof (cases "resolvePolicy s space")
  case (Ok policy)
  let ?all = "provider_records (storageProviderStore s) order"
  let ?cs = "filterZeroWeightProviders (filterExcludedProviders (case policy of
      Some p \<Rightarrow> filterToCandidates ?all (pol_Candidates p) | None \<Rightarrow> ?all) exclusions)"
  note cs = eligible_candidates [OF assms(1,2) Ok, of exclusions]
  have sel: "SelectStorageProvider s order draw space [WithExclusions exclusions] =
      (if ?cs = [] then Some (Err ErrCandidateUnavailable) else Some (weighted_pick draw ?cs))"
    by (simp add: SelectStorageProvider_def listProviders_all [OF assms(1,2)] Ok WithExclusions_def Let_def)
  have "sum_list (map sp_Weight ?cs) \<le>
      sum_list (map sp_Weight (filter (\<lambda>p. 0 < sp_Weight p) ?all))"
    unfolding filterZero_excluded
    by (cases policy) (auto simp: filterToCandidates_def intro!: sum_list_filter_le)
  then have "sum_list (map sp_Weight ?cs) \<le> MaxInt64"
    using assms(3) by (simp add: weights_fit_def)
  moreover have "\<forall>c \<in> set ?cs. 0 < sp_Weight c"
    using cs by (auto simp: eligible_def)
  ultimately have "?cs \<noteq> [] \<Longrightarrow> \<exists>c \<in> set ?cs. weighted_pick draw ?cs = Ok (info_of c)"
    using assms(4) by (intro weighted_pick_spec)
  moreover have "?cs = [] \<longleftrightarrow> \<not> (\<exists>r. eligible s space exclusions r)"
    using cs by auto
  ultimately show ?thesis
    using cs unfolding sel by auto
next
  case (Err e)
  then show ?thesis
    using listProviders_all [OF assms(1,2)]
    by (auto simp: SelectStorageProvider_def resolvePolicy_eq eligible_def Let_def split: option.splits)
qed (simp add: resolvePolicy_eq split: option.splits)

subsection \<open>Properties\<close>

definition sample_proofs :: container where
  "sample_proofs = \<lparr>Invocations = [], Delegations = [], Receipts = []\<rparr>"

definition sample_routing :: routing_Service where
  "sample_routing = routing_NewService
     (fst (sp_Add ''did:key:n2'' ''https://n2'' 3 None (Some sample_proofs) 1
       (fst (sp_Add ''did:key:n1'' ''https://n1'' 2 (Some 0) (Some sample_proofs) 0 sp_New))))
     (fst (SetSpacePolicy ''did:key:space'' ''did:key:pol'' ''c2'' 3
       (fst (SetCandidates ''did:key:pol'' [''did:key:n2''] ''c1'' 2 policy_New))))"

lemma sample_routing_ok:
  "providers_ok (storageProviderStore sample_routing)" "policies_ok (policyStore sample_routing)"
proof -
  have "providers_ok sp_New"
    by (simp add: providers_ok_def sp_New_def)
  then show "providers_ok (storageProviderStore sample_routing)"
    by (simp add: sample_routing_def routing_NewService_def inv_intros)
  show "policies_ok (policyStore sample_routing)"
    by (simp add: sample_routing_def routing_NewService_def inv_intros)
qed

lemma sample_routing_order:
  "enumerates [''did:key:n2'', ''did:key:n1''] (storageProviderStore sample_routing)"
  "weights_fit (storageProviderStore sample_routing) [''did:key:n2'', ''did:key:n1'']"
proof -
  show "enumerates [''did:key:n2'', ''did:key:n1''] (storageProviderStore sample_routing)"
    by (auto simp: enumerates_def sample_routing_def routing_NewService_def sp_Add_def sp_New_def)
  have "sum_list (map sp_Weight (filter (\<lambda>p. 0 < sp_Weight p)
      (provider_records (storageProviderStore sample_routing) [''did:key:n2'', ''did:key:n1'']))) = 5"
    by code_simp
  then show "weights_fit (storageProviderStore sample_routing) [''did:key:n2'', ''did:key:n1'']"
    by (simp add: weights_fit_def MaxInt64_def)
qed

text \<open>
Property C34. Selecting a storage provider for a space always returns. Where some registered provider
has a positive weight, is not excluded and, if the space references a routing policy, is a candidate
of it, the selection is such a provider, with its endpoint and its proofs; where there is none it is
\<^verbatim>\<open>ErrCandidateUnavailable\<close>. It never panics while the positive weights sum to at most $2^{63}-1$.
\<close>

theorem SelectStorageProvider_sound:
  assumes "providers_ok (storageProviderStore s)" and "enumerates order (storageProviderStore s)"
    and "weights_fit (storageProviderStore s) order" and "draw_ok draw"
  shows "if \<exists>r. eligible s space exclusions r
    then \<exists>r. eligible s space exclusions r \<and>
      SelectStorageProvider s order draw space [WithExclusions exclusions] =
        Some (Ok \<lparr>info_ID = sp_Provider r, info_Endpoint = sp_Endpoint r, info_Proofs = sp_Proofs r\<rparr>)
    else SelectStorageProvider s order draw space [WithExclusions exclusions] = Some (Err ErrCandidateUnavailable)"
  using SelectStorageProvider_cases [OF assms, of space exclusions, unfolded info_of_def] .

theorem SelectStorageProvider_sound_witness:
  "\<exists>i. SelectStorageProvider sample_routing [''did:key:n2'', ''did:key:n1''] (\<lambda>n. n - 1) ''did:key:space''
     [WithExclusions []] = Some (Ok i) \<and> info_ID i = ''did:key:n2'' \<and>
   SelectStorageProvider sample_routing [''did:key:n2'', ''did:key:n1''] (\<lambda>n. n - 1) ''did:key:space''
     [WithExclusions [''did:key:n2'']] = Some (Err ErrCandidateUnavailable)"
proof -
  let ?r = "the (storageProviderStore sample_routing ''did:key:n2'')"
  have draw: "draw_ok (\<lambda>n. n - 1)"
    by (simp add: draw_ok_def)
  have pol: "(case spaces (policyStore sample_routing) ''did:key:space'' of
      Some ref \<Rightarrow> (case policies (policyStore sample_routing) (spol_Policy ref) of
        Some p \<Rightarrow> pol_Candidates p | None \<Rightarrow> []) | None \<Rightarrow> []) = [''did:key:n2'']"
    "spaces (policyStore sample_routing) ''did:key:space'' \<noteq> None"
    by code_simp+
  have n2: "sp_Provider ?r = ''did:key:n2''" "sp_Weight ?r = 3"
    by code_simp+
  have "storageProviderStore sample_routing ''did:key:n2'' \<noteq> None"
    by code_simp
  then have "eligible sample_routing ''did:key:space'' [] ?r"
    "eligible sample_routing ''did:key:space'' ex r \<Longrightarrow> sp_Provider r = ''did:key:n2'' \<and> ''did:key:n2'' \<notin> set ex" for ex r
    using pol n2 by (auto simp: eligible_def split: option.splits)
  then show ?thesis
    using SelectStorageProvider_sound [OF sample_routing_ok(1) sample_routing_order draw, of "''did:key:space''" "[]"]
      SelectStorageProvider_sound [OF sample_routing_ok(1) sample_routing_order draw, of "''did:key:space''" "[''did:key:n2'']"]
    by (fastforce split: if_splits)
qed

text \<open>How many of the numbers \<^verbatim>\<open>rand.Int63n\<close> may return select a given position.\<close>

definition selecting :: "int list \<Rightarrow> nat \<Rightarrow> int set" where
  "selecting ws k = {r. 0 \<le> r \<and> r < sum_list ws \<and> weightedRandomInt (\<lambda>_. r) (map word_of_int ws) = Ok k}"

lemma sum_take_mono:
  "\<forall>w \<in> set ws. (0 :: int) < w \<Longrightarrow> a \<le> b \<Longrightarrow> sum_list (take a ws) \<le> sum_list (take b ws)"
proof -
  assume pos: "\<forall>w \<in> set ws. 0 < w" and "a \<le> b"
  then have split: "take b ws = take a ws @ take (b - a) (drop a ws)"
    by (metis le_add_diff_inverse take_add)
  have "0 \<le> sum_list (take (b - a) (drop a ws))"
    using pos by (intro sum_list_nonneg) (meson in_set_dropD in_set_takeD less_imp_le)
  then show ?thesis unfolding split by simp
qed

lemma selecting_eq:
  assumes "\<forall>w \<in> set ws. 0 < w" and "sum_list ws \<le> MaxInt64" and "k < length ws"
  shows "selecting ws k = {(if k = 0 then 0 else sum_list (take k ws) + 1) ..
    min (sum_list (take (Suc k) ws)) (sum_list ws - 1)}"
proof -
  have ne: "ws \<noteq> []" using assms(3) by auto
  have "weightedRandomInt (\<lambda>_. r) (map word_of_int ws) = Ok k \<longleftrightarrow>
      r \<le> sum_list (take (Suc k) ws) \<and> (k = 0 \<or> sum_list (take k ws) < r)"
    if r: "0 \<le> r" "r < sum_list ws" for r
  proof -
    let ?draw = "\<lambda>n. if n = sum_list ws then r else 0"
    have "draw_ok ?draw"
      using r by (simp add: draw_ok_def)
    from weightedRandomInt_spec [OF assms(1,2) ne this] obtain j where
      j: "weightedRandomInt ?draw (map word_of_int ws) = Ok j"
      "r \<le> sum_list (take (Suc j) ws)" "j = 0 \<or> sum_list (take j ws) < r"
      by auto
    have "sint (sum_list (map word_of_int ws) :: 64 word) = sum_list ws"
      using r assms(2) by (simp add: sum_list_word_of_int sint_word_of_int MaxInt64_def)
    then have same: "weightedRandomInt (\<lambda>_. r) (map word_of_int ws) = Ok j"
      using j(1) weightedRandomInt_cong [of ?draw "map word_of_int ws" "\<lambda>_. r"] by simp
    have "r \<le> sum_list (take (Suc k) ws) \<Longrightarrow> k = 0 \<or> sum_list (take k ws) < r \<Longrightarrow> k = j"
      using j(2,3) sum_take_mono [OF assms(1), of "Suc k" j] sum_take_mono [OF assms(1), of "Suc j" k]
      by (cases j k rule: linorder_cases) auto
    with same j(2,3) show ?thesis by auto
  qed
  moreover have "0 \<le> sum_list (take k ws)"
    using sum_take_mono [OF assms(1), of 0 k] by simp
  ultimately show ?thesis
    by (auto simp: selecting_def)
qed

lemma take_Suc_sum: "k < length ws \<Longrightarrow> sum_list (take (Suc k) ws) = sum_list (take k ws) + (ws ! k :: int)"
  by (simp add: take_Suc_conv_app_nth)

text \<open>
Property C39. The weighted choice is a choice: for positive weights that sum to at most $2^{63}-1$ every
number the generator may return selects a position. The chances are the weights, but for one draw:
with several weights, the first position is selected by one number more than its weight and the last
by one number fewer, and every other position by exactly its weight many.
\<close>

theorem weightedRandomInt_chances:
  assumes "\<forall>w \<in> set ws. 0 < w" and "sum_list ws \<le> MaxInt64" and "k < length ws" and "1 < length ws"
  shows "(\<exists>j < length ws. weightedRandomInt (\<lambda>_. draw_value mod sum_list ws) (map word_of_int ws) = Ok j) \<and>
    int (card (selecting ws k)) =
      (if k = 0 then ws ! 0 + 1 else if k = length ws - 1 then ws ! k - 1 else ws ! k)"
proof
  have ne: "ws \<noteq> []" using assms(3) by auto
  have pos: "0 < sum_list ws"
    using assms(1,3) sum_take_mono [OF assms(1), of 1 "length ws"] by (cases ws) auto
  let ?draw = "\<lambda>n. if n = sum_list ws then draw_value mod sum_list ws else 0"
  have "draw_ok ?draw"
    using pos by (simp add: draw_ok_def)
  from weightedRandomInt_spec [OF assms(1,2) ne this] obtain j where
    j: "j < length ws" "weightedRandomInt ?draw (map word_of_int ws) = Ok j" by auto
  have "sint (sum_list (map word_of_int ws) :: 64 word) = sum_list ws"
    using pos assms(2) by (simp add: sum_list_word_of_int sint_word_of_int MaxInt64_def)
  with j show "\<exists>j < length ws. weightedRandomInt (\<lambda>_. draw_value mod sum_list ws) (map word_of_int ws) = Ok j"
    using weightedRandomInt_cong [of ?draw "map word_of_int ws" "\<lambda>_. draw_value mod sum_list ws"] by auto
  have wk: "0 < ws ! k"
    using assms(1,3) by simp
  have last_sum: "k = length ws - 1 \<Longrightarrow> sum_list (take (Suc k) ws) = sum_list ws"
    using assms(3) by simp
  have less: "k \<noteq> length ws - 1 \<Longrightarrow> sum_list (take (Suc k) ws) < sum_list ws"
  proof -
    assume "k \<noteq> length ws - 1"
    then have "Suc k < length ws" using assms(3) by simp
    then have "sum_list (take (Suc (Suc k)) ws) = sum_list (take (Suc k) ws) + ws ! Suc k" "0 < ws ! Suc k"
      using assms(1) by (simp_all add: take_Suc_sum)
    with sum_take_mono [OF assms(1), of "Suc (Suc k)" "length ws"] \<open>Suc k < length ws\<close> show ?thesis by simp
  qed
  show "int (card (selecting ws k)) =
      (if k = 0 then ws ! 0 + 1 else if k = length ws - 1 then ws ! k - 1 else ws ! k)"
    using wk last_sum less assms(3,4) take_Suc_sum [OF assms(3)] unfolding selecting_eq [OF assms(1,2,3)]
    by (cases "k = length ws - 1"; cases "k = 0") (auto simp: min_def)
qed

theorem weightedRandomInt_chances_witness:
  "int (card (selecting [1, 1] 0)) = 2 \<and> int (card (selecting [1, 1] 1)) = 0"
  using weightedRandomInt_chances [of "[1, 1]" 0 0] weightedRandomInt_chances [of "[1, 1]" 1 0]
  by (simp add: MaxInt64_def)

lemma check_candidates_iff:
  "check_candidates s cs = (if \<forall>c \<in> set cs. s c \<noteq> None then Ok ()
     else Err (InvalidCandidates ''candidate is not a registered storage provider''))"
  by (induction cs) (auto simp: sp_Get_def ErrStorageProviderNotFound_def split: option.split)

text \<open>
Putting a policy succeeds exactly when it names at least one candidate and every candidate
is a registered provider; then the policy holds these candidates. Using a policy for a space succeeds
exactly when the policy exists. Whatever happens, every policy keeps at least one candidate and every
space references a policy that exists, so resolving the policy of a space never fails.
\<close>

theorem routing_policies:
  assumes "policies_ok (policyStore s)" and "PutPolicy policy candidates cause now s = (t, r)"
    and "UseSpacePolicy space policy cause' now' t = (u, r')"
  shows "(r = Ok () \<longleftrightarrow> candidates \<noteq> [] \<and> (\<forall>c \<in> set candidates. storageProviderStore s c \<noteq> None)) \<and>
    (if r = Ok () then map_option pol_Candidates (policies (policyStore t) policy) = Some candidates \<and>
       r' = Ok () \<and> (\<exists>p. resolvePolicy u space = Ok (Some p) \<and> pol_Candidates p = candidates)
     else policyStore t = policyStore s) \<and>
    policies_ok (policyStore u) \<and> (\<forall>sp. is_Ok (resolvePolicy u sp))"
proof -
  have t: "policies_ok (policyStore t)"
    using assms(1,2) by (auto simp: PutPolicy_def check_candidates_iff Let_def
        split: if_splits prod.splits res.splits intro: policies_ok_pairs)
  then have u: "policies_ok (policyStore u)"
    using assms(3) by (auto simp: UseSpacePolicy_def Let_def split: prod.splits
        intro: policies_ok_pairs)
  then have "is_Ok (resolvePolicy u sp)" for sp
    by (fastforce simp: policies_ok_def resolvePolicy_eq is_Ok_iff split: option.split)
  with t u assms(2,3) show ?thesis
    by (auto simp: PutPolicy_def UseSpacePolicy_def check_candidates_iff SetCandidates_def SetSpacePolicy_def
        resolvePolicy_eq InvalidCandidates_def Let_def split: if_splits option.splits)
qed

theorem routing_policies_witness:
  "snd (PutPolicy ''did:key:p2'' [''did:key:n1''] ''c3'' 9 sample_routing) = Ok () \<and>
   is_Ok (resolvePolicy (fst (UseSpacePolicy ''did:key:s2'' ''did:key:p2'' ''c4'' 10
     (fst (PutPolicy ''did:key:p2'' [''did:key:n1''] ''c3'' 9 sample_routing)))) ''did:key:s2'')"
proof -
  have "storageProviderStore sample_routing ''did:key:n1'' \<noteq> None"
    by code_simp
  then show ?thesis
    using routing_policies [OF sample_routing_ok(2) prod.collapse [symmetric] prod.collapse [symmetric],
        where policy = "''did:key:p2''" and candidates = "[''did:key:n1'']" and cause = "''c3''" and now = 9
          and space = "''did:key:s2''" and cause' = "''c4''" and now' = 10]
    by auto
qed

end
