(* ===== verification/Diff_Logs.thy ===== *)
theory Diff_Logs
  imports Paging
begin

section \<open>The space and upload diff logs\<close>

text \<open>
  \<^verbatim>\<open>pkg/store/space_diff\<close> and \<^verbatim>\<open>pkg/store/upload_diff\<close> with their in-memory backends: per-space
  logs of signed changes, bytes in one and uploads in the other, each kept in the order of
  (receipt time, text of the cause). The two record types have the same fields and are one type
  here. The locale \<open>diff_log\<close> is the contract the blob registry and the upload store rely on when
  they record a change; both logs interpret it, and both listings interpret \<open>pager\<close>.
\<close>

record DifferenceRecord =
  Space :: did
  Cause :: cid
  Delta :: int64
  ReceiptAt :: time
  InsertedAt :: time

type_synonym uploaddiff_DifferenceRecord = DifferenceRecord

type_synonym diff_store = "did \<Rightarrow> DifferenceRecord list"

definition spacediff_WithListLimit :: "int \<Rightarrow> ListOption" where
  "spacediff_WithListLimit limit cfg = cfg\<lparr>Limit := Some limit\<rparr>"

definition spacediff_WithListCursor :: "string \<Rightarrow> ListOption" where
  "spacediff_WithListCursor cursor cfg = cfg\<lparr>Cursor := Some cursor\<rparr>"

definition uploaddiff_WithListLimit :: "int \<Rightarrow> ListOption" where
  "uploaddiff_WithListLimit limit cfg = cfg\<lparr>Limit := Some limit\<rparr>"

definition uploaddiff_WithListCursor :: "string \<Rightarrow> ListOption" where
  "uploaddiff_WithListCursor cursor cfg = cfg\<lparr>Cursor := Some cursor\<rparr>"

text \<open>The key the rows are ordered by and the cursors carry.\<close>

definition diff_key :: "formats \<Rightarrow> DifferenceRecord \<Rightarrow> time \<times> string" where
  "diff_key F d = (ReceiptAt d, cid_String F (Cause d))"

subsection \<open>The space diff log\<close>

definition spacediff_New :: diff_store where
  "spacediff_New = (\<lambda>_. [])"

definition afterKey :: "formats \<Rightarrow> DifferenceRecord \<Rightarrow> time \<Rightarrow> string \<Rightarrow> bool" where
  "afterKey F d receiptAt cause =
     (if ReceiptAt d \<noteq> receiptAt then ReceiptAt d > receiptAt
      else cid_String F (Cause d) > cause)"

text \<open>The loop of \<^verbatim>\<open>List\<close>: keep the rows that pass, and stop once one more than the limit is held.\<close>

fun spacediff_scan ::
  "(DifferenceRecord \<Rightarrow> bool) \<Rightarrow> int \<Rightarrow> DifferenceRecord list \<Rightarrow> DifferenceRecord list \<Rightarrow>
   DifferenceRecord list" where
  "spacediff_scan keep limit [] diffs = diffs"
| "spacediff_scan keep limit (d # ds) diffs =
     (if \<not> keep d then spacediff_scan keep limit ds diffs
      else if int (length (diffs @ [d])) > limit then diffs @ [d]
      else spacediff_scan keep limit ds (diffs @ [d]))"

text \<open>The cursor that resumes behind a row.\<close>

definition log_cursor :: "formats \<Rightarrow> DifferenceRecord \<Rightarrow> string" where
  "log_cursor F d = EncodeCursor (cursorJSON F) (ReceiptAt d) (cid_String F (Cause d))"

definition spacediff_List ::
  "formats \<Rightarrow> diff_store \<Rightarrow> did \<Rightarrow> time \<Rightarrow> ListOption list \<Rightarrow> DifferenceRecord Page res" where
  "spacediff_List F s space after options =
     (let cfg = apply_options options no_options;
          limit = (case Limit cfg of Some l \<Rightarrow> l | None \<Rightarrow> 1000)
      in case Cursor cfg of
           None \<Rightarrow> cut_page (log_cursor F) limit
             (spacediff_scan (\<lambda>d. ReceiptAt d > after) limit (s space) [])
         | Some c \<Rightarrow>
             (case DecodeCursor (cursorJSON F) c of
                Err e \<Rightarrow> Err (Wrap ''invalid cursor'' e)
              | Panic \<Rightarrow> Panic
              | Ok (cursorTime, cursorCause) \<Rightarrow> cut_page (log_cursor F) limit
                  (spacediff_scan (\<lambda>d. afterKey F d cursorTime cursorCause) limit (s space) [])))"

definition spacediff_Put ::
  "formats \<Rightarrow> did \<Rightarrow> cid \<Rightarrow> int64 \<Rightarrow> time \<Rightarrow> time \<Rightarrow> diff_store \<Rightarrow> diff_store \<times> unit res" where
  "spacediff_Put F space cause delta receiptAt now s =
     (let d = \<lparr>Space = space, Cause = cause, Delta = delta, ReceiptAt = receiptAt,
               InsertedAt = now\<rparr>
      in (s(space := sort_key (diff_key F) (s space @ [d])), Ok ()))"

subsection \<open>The upload diff log\<close>

text \<open>\<^verbatim>\<open>Instant\<close>: UTC, truncated to the microsecond (towards the zero time of Go, year 1).\<close>

definition Instant :: "time \<Rightarrow> time" where
  "Instant t = t - (t - go_zero_time) mod 1000"

definition uploaddiff_New :: diff_store where
  "uploaddiff_New = (\<lambda>_. [])"

definition uploaddiff_past :: "formats \<Rightarrow> time \<Rightarrow> string \<Rightarrow> DifferenceRecord \<Rightarrow> bool" where
  "uploaddiff_past F cursorAt cursorCause d =
     (if ReceiptAt d < cursorAt then False
      else if ReceiptAt d = cursorAt \<and> cid_String F (Cause d) \<le> cursorCause then False
      else True)"

definition uploaddiff_List ::
  "formats \<Rightarrow> diff_store \<Rightarrow> did \<Rightarrow> time \<Rightarrow> ListOption list \<Rightarrow> DifferenceRecord Page res" where
  "uploaddiff_List F s space after options =
     (let cfg = apply_options options no_options;
          limit = (case Limit cfg of Some l \<Rightarrow> (if l > 0 then l else 1000) | None \<Rightarrow> 1000);
          rows = s space
      in case Cursor cfg of
           None \<Rightarrow> cut_page (log_cursor F) limit (filter (\<lambda>d. ReceiptAt d > after) rows)
         | Some c \<Rightarrow>
             (case DecodeCursor (cursorJSON F) c of
                Err e \<Rightarrow> Err (Wrap ''invalid cursor'' e)
              | Panic \<Rightarrow> Panic
              | Ok (cursorAt, cursorCause) \<Rightarrow> cut_page (log_cursor F) limit
                  (filter (uploaddiff_past F cursorAt cursorCause) rows)))"

definition uploaddiff_Put ::
  "formats \<Rightarrow> did \<Rightarrow> cid \<Rightarrow> int64 \<Rightarrow> time \<Rightarrow> time \<Rightarrow> diff_store \<Rightarrow> diff_store \<times> bool res" where
  "uploaddiff_Put F space cause delta receiptAt now s =
     (let at = Instant receiptAt in
      if \<exists>d \<in> set (s space). Cause d = cause \<and> ReceiptAt d = at then (s, Ok False)
      else
        (let d = \<lparr>Space = space, Cause = cause, Delta = delta, ReceiptAt = at,
                  InsertedAt = now\<rparr>
         in (s(space := sort_key (diff_key F) (s space @ [d])), Ok True)))"

lemma Instant_le: "Instant t \<le> t" "t < Instant t + 1000"
  by (simp_all add: Instant_def)

lemma Instant_idem [simp]: "Instant (Instant t) = Instant t"
proof -
  have "Instant t - go_zero_time = (t - go_zero_time) - (t - go_zero_time) mod 1000"
    by (simp add: Instant_def)
  also have "\<dots> = 1000 * ((t - go_zero_time) div 1000)"
    by (simp add: minus_mod_eq_mult_div)
  finally have "(Instant t - go_zero_time) mod 1000 = 0"
    by simp
  then show ?thesis
    by (simp add: Instant_def [of "Instant t"])
qed

subsection \<open>What recording a change does\<close>

text \<open>
  The contract of \<^verbatim>\<open>Put\<close>: a recorded change adds exactly one row with that change to its space's
  log, a change that is not recorded leaves the log alone, and no other space's log moves.
\<close>

locale diff_log =
  fixes put :: "formats \<Rightarrow> did \<Rightarrow> cid \<Rightarrow> int64 \<Rightarrow> time \<Rightarrow> time \<Rightarrow> diff_store \<Rightarrow> diff_store \<times> bool res"
    and stamp :: "time \<Rightarrow> time"
  assumes put_total: "\<exists>b. snd (put F space cause delta at now s) = Ok b"
    and put_recorded: "put F space cause delta at now s = (s', Ok True) \<Longrightarrow>
      mset (s' space) = add_mset \<lparr>Space = space, Cause = cause, Delta = delta,
        ReceiptAt = stamp at, InsertedAt = now\<rparr> (mset (s space))"
    and put_skipped: "put F space cause delta at now s = (s', Ok False) \<Longrightarrow> s' = s"
    and put_other: "put F space cause delta at now s = (s', r) \<Longrightarrow> sp \<noteq> space \<Longrightarrow> s' sp = s sp"
    and put_sorted: "sorted (map (diff_key F) (s sp)) \<Longrightarrow>
      put F space cause delta at now s = (s', r) \<Longrightarrow> sorted (map (diff_key F) (s' sp))"
begin

lemma put_cases:
  obtains (recorded) s' where "put F space cause delta at now s = (s', Ok True)"
  | (skipped) "put F space cause delta at now s = (s, Ok False)"
  using put_total [of F space cause delta at now s] put_skipped [of F space cause delta at now s]
  by (metis (full_types) prod.collapse)

lemma put_sum:
  assumes "put F space cause delta at now s = (s', Ok True)"
  shows "sum_list (map Delta (s' sp)) =
    sum_list (map Delta (s sp)) + (if sp = space then delta else 0)"
proof (cases "sp = space")
  case True
  have "image_mset Delta (mset (s' space)) = add_mset delta (image_mset Delta (mset (s space)))"
    by (simp add: put_recorded [OF assms])
  then have "sum_mset (image_mset Delta (mset (s' space))) =
      delta + sum_mset (image_mset Delta (mset (s space)))"
    by simp
  with True show ?thesis
    by (simp add: sum_mset_sum_list [symmetric] add.commute)
next
  case False
  with put_other [OF assms] show ?thesis by simp
qed

lemma put_rows:
  assumes "put F space cause delta at now s = (s', r)" and "d \<in> set (s' sp)" and "d \<notin> set (s sp)"
  shows "sp = space \<and> d = \<lparr>Space = space, Cause = cause, Delta = delta, ReceiptAt = stamp at,
    InsertedAt = now\<rparr>"
proof (cases rule: put_cases [of F space cause delta at now s])
  case (recorded s'')
  with assms(1) have "put F space cause delta at now s = (s', Ok True)" by simp
  from put_recorded [OF this] put_other [OF assms(1)] assms(2,3) show ?thesis
    by (metis add_mset_add_single insertE set_mset_add_mset_insert set_mset_mset)
next
  case skipped
  with assms show ?thesis by simp
qed

end

text \<open>The space log answers every \<^verbatim>\<open>Put\<close> by recording it.\<close>

definition spacediff_put_recorded ::
  "formats \<Rightarrow> did \<Rightarrow> cid \<Rightarrow> int64 \<Rightarrow> time \<Rightarrow> time \<Rightarrow> diff_store \<Rightarrow> diff_store \<times> bool res" where
  "spacediff_put_recorded F space cause delta at now s =
     (fst (spacediff_Put F space cause delta at now s), Ok True)"

interpretation space_log: diff_log spacediff_put_recorded "\<lambda>t. t"
  by unfold_locales
    (auto simp: spacediff_put_recorded_def spacediff_Put_def Let_def split: if_splits)

interpretation upload_log: diff_log uploaddiff_Put Instant
  by unfold_locales (auto simp: uploaddiff_Put_def Let_def split: if_splits)

lemma spacediff_Put_Ok: "spacediff_Put F space cause delta at now s =
    (fst (spacediff_put_recorded F space cause delta at now s), Ok ())"
  by (simp add: spacediff_put_recorded_def spacediff_Put_def Let_def)

text \<open>A fresh (cause, instant) pair is always recorded.\<close>

lemma uploaddiff_Put_fresh:
  assumes "\<And>d. d \<in> set (s space) \<Longrightarrow> \<not> (Cause d = cause \<and> ReceiptAt d = Instant at)"
  shows "\<exists>s'. uploaddiff_Put F space cause delta at now s = (s', Ok True)"
  using assms by (auto simp: uploaddiff_Put_def Let_def)

text \<open>The upload log never holds a key twice.\<close>

lemma uploaddiff_Put_strict:
  assumes "formats_ok F" and "sorted_wrt (\<lambda>x y. diff_key F x < diff_key F y) (s sp)"
    and "uploaddiff_Put F space cause delta at now s = (s', r)"
  shows "sorted_wrt (\<lambda>x y. diff_key F x < diff_key F y) (s' sp)"
proof -
  have strict: "sorted_wrt (\<lambda>x y. diff_key F x < diff_key F y) xs \<longleftrightarrow>
      sorted (map (diff_key F) xs) \<and> distinct (map (diff_key F) xs)" for xs
    by (metis sorted_wrt_map strict_sorted_iff)
  have "diff_key F d \<noteq> (Instant at, cid_String F cause)"
    if "d \<in> set (s space)" "\<forall>d \<in> set (s space). \<not> (Cause d = cause \<and> ReceiptAt d = Instant at)" for d
    using that formats_okD(1) [OF assms(1)] by (auto simp: diff_key_def)
  then show ?thesis
    using assms(2,3) unfolding strict
    by (auto simp: uploaddiff_Put_def Let_def split: if_splits) (auto simp: diff_key_def)
qed

subsection \<open>Reading a log to its end\<close>

lemma spacediff_scan_eq:
  assumes "0 \<le> limit" and "int (length acc) \<le> limit"
  shows "spacediff_scan keep limit ds acc = take (Suc (nat limit)) (acc @ filter keep ds)"
  using assms(2)
proof (induction ds arbitrary: acc)
  case Nil
  then show ?case using assms(1) by simp
next
  case (Cons d ds)
  show ?case
  proof (cases "keep d \<and> int (length acc) + 1 > limit")
    case True
    then have "nat limit = length acc" using Cons.prems by simp
    with True show ?thesis by simp
  next
    case False
    show ?thesis
    proof (cases "keep d")
      case True
      with False have "Suc (nat limit) - length acc = Suc (Suc (nat limit) - length (acc @ [d]))"
        by simp
      with True False Cons.IH [of "acc @ [d]"] show ?thesis by simp
    next
      case False
      then show ?thesis using Cons by simp
    qed
  qed
qed

text \<open>A log to read, and the rows recorded after a time, which both listings page through.\<close>

type_synonym log_view = "formats \<times> diff_store \<times> did \<times> time"

definition log_wf :: "log_view \<Rightarrow> bool" where
  "log_wf = (\<lambda>(F, s, space, after). formats_ok F \<and>
     sorted_wrt (\<lambda>x y. diff_key F x < diff_key F y) (s space) \<and>
     list_all (\<lambda>d. json_safe (ReceiptAt d) (cid_String F (Cause d))) (s space))"

definition log_items :: "log_view \<Rightarrow> DifferenceRecord list" where
  "log_items = (\<lambda>(F, s, space, after). filter (\<lambda>d. ReceiptAt d > after) (s space))"

definition log_resumes :: "log_view \<Rightarrow> string option \<Rightarrow> nat \<Rightarrow> bool" where
  "log_resumes v = key_resumes (log_cursor (fst v)) (log_items v)"

lemma log_cursor_decodes:
  assumes "log_wf (F, s, space, after)" and "d \<in> set (s space)"
  shows "DecodeCursor (cursorJSON F) (log_cursor F d) = Ok (diff_key F d)"
  using assms
  by (auto simp: log_wf_def log_cursor_def diff_key_def list_all_iff formats_okD(3)
      intro!: DecodeCursor_EncodeCursor)

lemma log_suffix:
  assumes wf: "log_wf (F, s, space, after)"
    and p: "0 < p" "p \<le> length (log_items (F, s, space, after))"
  shows "filter (\<lambda>d. diff_key F (log_items (F, s, space, after) ! (p - 1)) < diff_key F d) (s space) =
    drop p (log_items (F, s, space, after))"
proof -
  let ?items = "log_items (F, s, space, after)"
  let ?z = "?items ! (p - 1)"
  have split: "?items = take (p - 1) ?items @ ?z # drop p ?items"
    using id_take_nth_drop [of "p - 1" ?items] p by simp
  have z: "after < ReceiptAt ?z"
    using p nth_mem [of "p - 1" ?items] by (auto simp: log_items_def)
  have "filter (\<lambda>d. diff_key F ?z < diff_key F d) (s space) =
      filter (\<lambda>d. diff_key F ?z < diff_key F d) ?items"
    using z by (auto simp: log_items_def diff_key_def less_prod_def intro!: filter_cong)
  also have "\<dots> = drop p ?items"
  proof -
    have "sorted_wrt (\<lambda>x y. diff_key F x < diff_key F y) ?items"
      using wf by (simp add: log_wf_def log_items_def sorted_wrt_filter)
    then show ?thesis
      using filter_sorted_suffix [of "diff_key F" "take (p - 1) ?items" ?z "drop p ?items"] split
      by metis
  qed
  finally show ?thesis .
qed

definition cursor_options :: "(string \<Rightarrow> ListOption) \<Rightarrow> string option \<Rightarrow> ListOption list" where
  "cursor_options with c = (case c of None \<Rightarrow> [] | Some c' \<Rightarrow> [with c'])"

definition spacediff_page :: "log_view \<Rightarrow> string option \<Rightarrow> DifferenceRecord Page res" where
  "spacediff_page = (\<lambda>(F, s, space, after) c.
     spacediff_List F s space after (cursor_options spacediff_WithListCursor c))"

definition uploaddiff_page :: "log_view \<Rightarrow> string option \<Rightarrow> DifferenceRecord Page res" where
  "uploaddiff_page = (\<lambda>(F, s, space, after) c.
     uploaddiff_List F s space after (cursor_options uploaddiff_WithListCursor c))"

lemma afterKey_iff: "afterKey F d t c \<longleftrightarrow> (t, c) < diff_key F d"
  by (auto simp: afterKey_def diff_key_def less_prod_def)

lemma uploaddiff_past_eq: "uploaddiff_past F t c = (\<lambda>d. (t, c) < diff_key F d)"
  by (rule ext) (auto simp: uploaddiff_past_def diff_key_def less_prod_def)

lemma log_rows_from:
  assumes "log_wf (F, s, space, after)" and "log_resumes (F, s, space, after) (Some c) p"
  obtains k where "DecodeCursor (cursorJSON F) c = Ok k"
    "filter (\<lambda>d. k < diff_key F d) (s space) = drop p (log_items (F, s, space, after))"
proof -
  let ?v = "(F, s, space, after)"
  from assms(2) have p: "0 < p" "p \<le> length (log_items ?v)" and c: "c = log_cursor F (log_items ?v ! (p - 1))"
    by (simp_all add: log_resumes_def key_resumes_def)
  then have "log_items ?v ! (p - 1) \<in> set (log_items ?v)"
    by (intro nth_mem) linarith
  then have "log_items ?v ! (p - 1) \<in> set (s space)"
    by (simp add: log_items_def)
  with that log_suffix [OF assms(1) p] log_cursor_decodes [OF assms(1)] c show thesis
    by metis
qed

lemma log_resumes_iff:
  "v = (F, s, space, after) \<Longrightarrow> log_resumes v c p = key_resumes (log_cursor F) (log_items v) c p"
  by (simp add: log_resumes_def)

interpretation space_diffs: pager log_wf log_items spacediff_page log_resumes
proof unfold_locales
  fix v :: log_view and c p
  show "log_wf v \<Longrightarrow> log_resumes v None 0"
    by (simp add: log_resumes_def)
  assume wf: "log_wf v" and at: "log_resumes v c p" and "p \<le> length (log_items v)"
  obtain F s space after where v: "v = (F, s, space, after)" by (cases v)
  have "\<exists>keep. spacediff_page v c = cut_page (log_cursor F) 1000 (spacediff_scan keep 1000 (s space) []) \<and>
      filter keep (s space) = drop p (log_items v)"
  proof (cases c)
    case None
    with at v show ?thesis
      by (auto simp: spacediff_page_def spacediff_List_def cursor_options_def no_options_def
          log_resumes_def log_items_def Let_def)
  next
    case (Some c')
    with wf at v obtain k where "DecodeCursor (cursorJSON F) c' = Ok k"
      "filter (\<lambda>d. k < diff_key F d) (s space) = drop p (log_items v)"
      by (metis log_rows_from)
    then show ?thesis
      using v Some by (auto simp: spacediff_page_def spacediff_List_def cursor_options_def
          no_options_def spacediff_WithListCursor_def afterKey_iff Let_def split: prod.splits)
  qed
  then obtain keep where page: "spacediff_page v c = cut_page (log_cursor F) 1000 (spacediff_scan keep 1000 (s space) [])"
    and rows: "filter keep (s space) = drop p (log_items v)" by blast
  have scan: "spacediff_scan keep 1000 (s space) [] = take (Suc (nat 1000)) (drop p (log_items v))"
    by (subst spacediff_scan_eq) (simp_all add: rows)
  show "\<exists>page n. spacediff_page v c = Ok page \<and> Results page = take n (drop p (log_items v)) \<and>
      (case page_Cursor page of None \<Rightarrow> length (log_items v) \<le> p + n
       | Some c' \<Rightarrow> Results page \<noteq> [] \<and> log_resumes v (Some c') (p + length (Results page)))"
    unfolding page scan log_resumes_iff [OF v] by (rule cut_page_serves_prefix) simp_all
qed

interpretation upload_diffs: pager log_wf log_items uploaddiff_page log_resumes
proof unfold_locales
  fix v :: log_view and c p
  show "log_wf v \<Longrightarrow> log_resumes v None 0"
    by (simp add: log_resumes_def)
  assume wf: "log_wf v" and at: "log_resumes v c p" and "p \<le> length (log_items v)"
  obtain F s space after where v: "v = (F, s, space, after)" by (cases v)
  have page: "uploaddiff_page v c = cut_page (log_cursor F) 1000 (drop p (log_items v))"
  proof (cases c)
    case None
    with at v show ?thesis
      by (simp add: uploaddiff_page_def uploaddiff_List_def cursor_options_def no_options_def
          log_resumes_def log_items_def Let_def)
  next
    case (Some c')
    with wf at v obtain k where "DecodeCursor (cursorJSON F) c' = Ok k"
      "filter (\<lambda>d. k < diff_key F d) (s space) = drop p (log_items v)"
      by (metis log_rows_from)
    then show ?thesis
      using v Some by (auto simp: uploaddiff_page_def uploaddiff_List_def cursor_options_def
          no_options_def uploaddiff_WithListCursor_def uploaddiff_past_eq Let_def split: prod.splits)
  qed
  show "\<exists>page n. uploaddiff_page v c = Ok page \<and> Results page = take n (drop p (log_items v)) \<and>
      (case page_Cursor page of None \<Rightarrow> length (log_items v) \<le> p + n
       | Some c' \<Rightarrow> Results page \<noteq> [] \<and> log_resumes v (Some c') (p + length (Results page)))"
    unfolding page log_resumes_iff [OF v] by (rule cut_page_serves) simp
qed

subsection \<open>Properties\<close>

definition sample_row :: "int64 \<Rightarrow> cid \<Rightarrow> time \<Rightarrow> DifferenceRecord" where
  "sample_row delta cause t = \<lparr>Space = ''space'', Cause = cause, Delta = delta, ReceiptAt = t, InsertedAt = t\<rparr>"

definition sample_log :: diff_store where
  "sample_log = spacediff_New(''space'' := [sample_row 7 ''a'' 1, sample_row 5 ''b'' 2, sample_row (- 7) ''c'' 2])"

lemma sample_log_wf: "log_wf (sample_formats, sample_log, ''space'', 1)"
proof -
  have rows: "sample_log ''space'' = [sample_row 7 ''a'' 1, sample_row 5 ''b'' 2, sample_row (- 7) ''c'' 2]"
    by (simp add: sample_log_def)
  have "sorted_wrt (\<lambda>x y. diff_key sample_formats x < diff_key sample_formats y) (sample_log ''space'')"
    "list_all (\<lambda>d. json_safe (ReceiptAt d) (cid_String sample_formats (Cause d))) (sample_log ''space'')"
    unfolding rows by code_simp+
  with sample_formats_ok show ?thesis
    by (simp add: log_wf_def)
qed

text \<open>
Reading either diff log of a space to the end, as the usage service does, returns and
gives exactly the rows recorded after the given time, once each and in order, however many pages of
the log's 1000-row page size that takes. It needs the rows to have distinct (time, cause) keys and
times that RFC 3339 can write.
\<close>

theorem diff_List_complete:
  assumes "formats_ok F"
    and "sorted_wrt (\<lambda>x y. diff_key F x < diff_key F y) (s space)"
    and "list_all (\<lambda>d. json_safe (ReceiptAt d) (cid_String F (Cause d))) (s space)"
  shows "store_Collect (\<lambda>cfg. spacediff_List F s space after
      (cursor_options spacediff_WithListCursor (Cursor cfg))) =
        Some (Ok (filter (\<lambda>d. ReceiptAt d > after) (s space))) \<and>
    store_Collect (\<lambda>cfg. uploaddiff_List F s space after
      (cursor_options uploaddiff_WithListCursor (Cursor cfg))) =
        Some (Ok (filter (\<lambda>d. ReceiptAt d > after) (s space)))"
  using space_diffs.collect_items [of "(F, s, space, after)"]
    upload_diffs.collect_items [of "(F, s, space, after)"] assms
  by (simp add: log_wf_def log_items_def spacediff_page_def uploaddiff_page_def)

theorem diff_List_complete_witness:
  "store_Collect (\<lambda>cfg. spacediff_List sample_formats sample_log ''space'' 1
      (cursor_options spacediff_WithListCursor (Cursor cfg))) =
    Some (Ok [sample_row 5 ''b'' 2, sample_row (- 7) ''c'' 2])"
proof -
  have "filter (\<lambda>d. ReceiptAt d > 1) (sample_log ''space'') = [sample_row 5 ''b'' 2, sample_row (- 7) ''c'' 2]"
    by (simp add: sample_log_def sample_row_def)
  then show ?thesis
    using diff_List_complete [of sample_formats sample_log "''space''" 1] sample_log_wf
    by (simp add: log_wf_def)
qed

end
