(* ===== verification/Metrics.thy ===== *)
theory Metrics
  imports Prelude
begin

section \<open>Running totals\<close>

text \<open>
  \<^verbatim>\<open>pkg/store/metrics\<close> with its in-memory backend: the service-wide counters and the counters of
  each space. The six counters have distinct names, built from the command names of another
  library, so a counter is a constructor here. Counters are \<^verbatim>\<open>uint64\<close> and wrap.
\<close>

datatype metric =
    BlobAddTotalMetric | BlobAddSizeTotalMetric
  | BlobRemoveTotalMetric | BlobRemoveSizeTotalMetric
  | UploadAddTotalMetric | UploadRemoveTotalMetric

type_synonym metrics = "metric \<rightharpoonup> uint64"

text \<open>Reading a Go map at a key it lacks gives zero.\<close>

definition counter :: "metrics \<Rightarrow> metric \<Rightarrow> uint64" where
  "counter m k = (case m k of None \<Rightarrow> 0 | Some v \<Rightarrow> v)"

definition metrics_New :: metrics where
  "metrics_New = Map.empty"

definition metrics_Get :: "metrics \<Rightarrow> metrics res" where
  "metrics_Get m = Ok m"

fun metrics_IncrementTotals :: "(metric \<times> uint64) list \<Rightarrow> metrics \<Rightarrow> metrics \<times> unit res" where
  "metrics_IncrementTotals [] m = (m, Ok ())"
| "metrics_IncrementTotals ((k, v) # inc) m =
     metrics_IncrementTotals inc (m(k \<mapsto> counter m k + v))"

type_synonym space_metrics = "did \<rightharpoonup> metrics"

definition NewSpaceStore :: space_metrics where
  "NewSpaceStore = Map.empty"

definition SpaceStore_Get :: "space_metrics \<Rightarrow> did \<Rightarrow> metrics res" where
  "SpaceStore_Get a space =
     (case a space of None \<Rightarrow> Ok Map.empty | Some s \<Rightarrow> metrics_Get s)"

definition SpaceStore_IncrementTotals ::
  "did \<Rightarrow> (metric \<times> uint64) list \<Rightarrow> space_metrics \<Rightarrow> space_metrics \<times> unit res" where
  "SpaceStore_IncrementTotals space inc a =
     (let s = (case a space of None \<Rightarrow> metrics_New | Some s \<Rightarrow> s);
          (s', r) = metrics_IncrementTotals inc s
      in (a(space \<mapsto> s'), r))"

text \<open>The counter of a space, zero where the space has none.\<close>

definition space_counter :: "space_metrics \<Rightarrow> did \<Rightarrow> metric \<Rightarrow> uint64" where
  "space_counter a space k = (case a space of None \<Rightarrow> 0 | Some s \<Rightarrow> counter s k)"

lemma counter_upd [simp]: "counter (m(k \<mapsto> v)) j = (if j = k then v else counter m j)"
  by (simp add: counter_def)

lemma counter_empty [simp]: "counter Map.empty k = 0"
  by (simp add: counter_def)

lemma snd_metrics_IncrementTotals [simp]: "snd (metrics_IncrementTotals inc m) = Ok ()"
  by (induction inc arbitrary: m) auto

lemma counter_IncrementTotals:
  "counter (fst (metrics_IncrementTotals inc m)) k =
     counter m k + sum_list (map snd (filter (\<lambda>p. fst p = k) inc))"
  by (induction inc arbitrary: m) (auto simp: algebra_simps)

lemma SpaceStore_IncrementTotals_eq:
  "SpaceStore_IncrementTotals space inc a =
     (a(space \<mapsto> fst (metrics_IncrementTotals inc
        (case a space of None \<Rightarrow> metrics_New | Some s \<Rightarrow> s))), Ok ())"
  by (simp add: SpaceStore_IncrementTotals_def Let_def split_beta)

lemma snd_SpaceStore_IncrementTotals [simp]: "snd (SpaceStore_IncrementTotals space inc a) = Ok ()"
  by (simp add: SpaceStore_IncrementTotals_eq)

lemma space_counter_IncrementTotals:
  "space_counter (fst (SpaceStore_IncrementTotals space inc a)) sp k =
     space_counter a sp k +
       (if sp = space then sum_list (map snd (filter (\<lambda>p. fst p = k) inc)) else 0)"
  by (auto simp: SpaceStore_IncrementTotals_eq space_counter_def counter_IncrementTotals
      metrics_New_def split: option.split)

lemma SpaceStore_Get_counter:
  "SpaceStore_Get a space = Ok t \<Longrightarrow> counter t k = space_counter a space k"
  by (auto simp: SpaceStore_Get_def space_counter_def metrics_Get_def split: option.splits)

lemma SpaceStore_Get_total: "\<exists>t. SpaceStore_Get a space = Ok t"
  by (simp add: SpaceStore_Get_def metrics_Get_def split: option.split)

text \<open>The service-wide counters are the sums of the spaces' counters.\<close>

definition totals_agree :: "space_metrics \<Rightarrow> metrics \<Rightarrow> bool" where
  "totals_agree a m \<longleftrightarrow> finite (dom a) \<and>
     (\<forall>k. counter m k = (\<Sum>sp \<in> dom a. space_counter a sp k))"

lemma totals_agree_New: "totals_agree NewSpaceStore metrics_New"
  by (simp add: totals_agree_def NewSpaceStore_def metrics_New_def)

lemma totals_agree_IncrementTotals:
  assumes "totals_agree a m"
  shows "totals_agree (fst (SpaceStore_IncrementTotals space inc a)) (fst (metrics_IncrementTotals inc m))"
proof -
  let ?a = "fst (SpaceStore_IncrementTotals space inc a)"
  have dom: "dom ?a = insert space (dom a)"
    by (simp add: SpaceStore_IncrementTotals_eq)
  have fin: "finite (dom a)"
    using assms by (simp add: totals_agree_def)
  have "(\<Sum>sp \<in> dom ?a. space_counter ?a sp k) = (\<Sum>sp \<in> dom a. space_counter a sp k) +
      sum_list (map snd (filter (\<lambda>p. fst p = k) inc))" for k
  proof -
    have "(\<Sum>sp \<in> dom ?a. space_counter ?a sp k) =
        (\<Sum>sp \<in> insert space (dom a). space_counter a sp k) +
        sum_list (map snd (filter (\<lambda>p. fst p = k) inc))"
      unfolding dom space_counter_IncrementTotals using fin
      by (simp add: sum.distrib sum.delta)
    also have "(\<Sum>sp \<in> insert space (dom a). space_counter a sp k) = (\<Sum>sp \<in> dom a. space_counter a sp k)"
      using fin by (cases "space \<in> dom a") (auto simp: insert_absorb space_counter_def dom_def)
    finally show ?thesis .
  qed
  then show ?thesis
    using assms fin by (simp add: totals_agree_def counter_IncrementTotals dom)
qed

end
