(* ===== verification/Blob_Registry.thy ===== *)
theory Blob_Registry
  imports Diff_Logs Metrics
begin

section \<open>The blob registry\<close>

text \<open>
  \<^verbatim>\<open>pkg/store/blob_registry\<close> with its in-memory backend. The registry shares the space diff log
  and the counters with the upload store; the record \<open>ledger\<close> is what they share, and the registry
  extends it with its own map. Every registration is one row of the log and one movement of the
  counters, at the space and at the service.

  The locale \<open>registry\<close> is what the blob handlers rely on: a finite map per space, with
  registration and removal that refuse duplicates and missing entries.

  \<^verbatim>\<open>time.Now()\<close> is a reading of the clock: an operation takes its readings, in order, as \<open>clk 0\<close>,
  \<open>clk 1\<close> and so on.
\<close>

type_synonym clock = "nat \<Rightarrow> time"

definition clock_after :: "nat \<Rightarrow> clock \<Rightarrow> clock" where
  "clock_after n clk = (\<lambda>i. clk (n + i))"

record Blob =
  Digest :: multihash
  Size :: uint64

record blob_Record =
  ent_Space :: did
  ent_Blob :: Blob
  ent_Cause :: cid
  ent_InsertedAt :: time

record ledger =
  spaceDiffStore :: diff_store
  uploadDiffStore :: diff_store
  spaceMetrics :: space_metrics
  adminMetrics :: metrics

record blob_store = ledger +
  blobs :: "did \<Rightarrow> blob_Record list"

abbreviation ent_Digest :: "blob_Record \<Rightarrow> multihash" where
  "ent_Digest e \<equiv> Digest (ent_Blob e)"

abbreviation ent_Size :: "blob_Record \<Rightarrow> uint64" where
  "ent_Size e \<equiv> Size (ent_Blob e)"

definition ErrEntryNotFound :: gerr where
  "ErrEntryNotFound = Named ''EntryNotFound'' ''blob not found''"

definition ErrEntryExists :: gerr where
  "ErrEntryExists = Named ''EntryExists'' ''blob already exists''"

definition blob_WithListLimit :: "int \<Rightarrow> ListOption" where
  "blob_WithListLimit limit cfg = cfg\<lparr>Limit := Some limit\<rparr>"

definition blob_WithListCursor :: "string \<Rightarrow> ListOption" where
  "blob_WithListCursor cursor cfg = cfg\<lparr>Cursor := Some cursor\<rparr>"

subsection \<open>Operations\<close>

definition blob_New :: "ledger \<Rightarrow> blob_store" where
  "blob_New l = ledger.extend l (blob_store.fields (\<lambda>_. []))"

text \<open>One change: a diff row, then the counters of the space, then those of the service.\<close>

definition blob_record_change ::
  "formats \<Rightarrow> did \<Rightarrow> cid \<Rightarrow> int64 \<Rightarrow> (metric \<times> uint64) list \<Rightarrow> time \<Rightarrow> time \<Rightarrow>
   'z ledger_scheme \<Rightarrow> 'z ledger_scheme \<times> unit res" where
  "blob_record_change F space cause delta inc receiptAt now s =
     (let (d, r) = spacediff_Put F space cause delta receiptAt now (spaceDiffStore s);
          s = s\<lparr>spaceDiffStore := d\<rparr>
      in case r of
           Panic \<Rightarrow> (s, Panic)
         | Err e \<Rightarrow> (s, Err (Wrap ''putting space diff'' e))
         | Ok _ \<Rightarrow>
             (let (m, r) = SpaceStore_IncrementTotals space inc (spaceMetrics s);
                  s = s\<lparr>spaceMetrics := m\<rparr>
              in case r of
                   Panic \<Rightarrow> (s, Panic)
                 | Err e \<Rightarrow> (s, Err (Wrap ''incrementing space metrics'' e))
                 | Ok _ \<Rightarrow>
                     (let (a, r) = metrics_IncrementTotals inc (adminMetrics s);
                          s = s\<lparr>adminMetrics := a\<rparr>
                      in case r of
                           Panic \<Rightarrow> (s, Panic)
                         | Err e \<Rightarrow> (s, Err (Wrap ''incrementing admin metrics'' e))
                         | Ok _ \<Rightarrow> (s, Ok ()))))"

fun Deregister_loop ::
  "formats \<Rightarrow> did \<Rightarrow> multihash \<Rightarrow> cid \<Rightarrow> clock \<Rightarrow> blob_Record list \<Rightarrow> blob_Record list \<Rightarrow>
   'z ledger_scheme \<Rightarrow> 'z ledger_scheme \<times> blob_Record list res" where
  "Deregister_loop F space digest cause clk [] ents s = (s, Ok ents)"
| "Deregister_loop F space digest cause clk (ent # rest) ents s =
     (if ent_Digest ent = digest then
        (let inc = [(BlobRemoveTotalMetric, 1), (BlobRemoveSizeTotalMetric, ent_Size ent)];
             (s, r) = blob_record_change F space cause (- ent_Size ent) inc (clk 0) (clk 1) s
         in case r of
              Panic \<Rightarrow> (s, Panic)
            | Err e \<Rightarrow> (s, Err e)
            | Ok _ \<Rightarrow> Deregister_loop F space digest cause (clock_after 2 clk) rest ents s)
      else Deregister_loop F space digest cause clk rest (ents @ [ent]) s)"

definition blob_Deregister ::
  "formats \<Rightarrow> did \<Rightarrow> multihash \<Rightarrow> cid \<Rightarrow> clock \<Rightarrow>
   'z blob_store_scheme \<Rightarrow> 'z blob_store_scheme \<times> unit res" where
  "blob_Deregister F space digest cause clk s =
     (let (s, r) = Deregister_loop F space digest cause clk (blobs s space) [] s
      in case r of
           Panic \<Rightarrow> (s, Panic)
         | Err e \<Rightarrow> (s, Err e)
         | Ok ents \<Rightarrow>
             (if length ents = length (blobs s space) then (s, Err ErrEntryNotFound)
              else (s\<lparr>blobs := (blobs s)(space := ents)\<rparr>, Ok ())))"

definition blob_Get :: "'z blob_store_scheme \<Rightarrow> did \<Rightarrow> multihash \<Rightarrow> blob_Record res" where
  "blob_Get s space digest =
     (case find (\<lambda>ent. ent_Digest ent = digest) (blobs s space) of
        Some ent \<Rightarrow> Ok ent
      | None \<Rightarrow> Err ErrEntryNotFound)"

definition blob_List ::
  "formats \<Rightarrow> 'z blob_store_scheme \<Rightarrow> did \<Rightarrow> ListOption list \<Rightarrow> blob_Record Page res" where
  "blob_List F s space options =
     (let cfg = apply_options options no_options;
          entries = blobs s space;
          found = (case Cursor cfg of
              None \<Rightarrow> Ok entries
            | Some c \<Rightarrow>
                (case IndexFunc (\<lambda>ent. HexString F (ent_Digest ent) = c) entries of
                   Some i \<Rightarrow> slice_from entries (int i + 1)
                 | None \<Rightarrow> Err (Errorf ''invalid cursor'')))
      in case found of
           Panic \<Rightarrow> Panic
         | Err e \<Rightarrow> Err e
         | Ok entries \<Rightarrow>
             (case Limit cfg of
                None \<Rightarrow> Ok \<lparr>page_Cursor = None, Results = entries\<rparr>
              | Some limit \<Rightarrow> cut_page (\<lambda>ent. HexString F (ent_Digest ent)) limit entries))"

definition blob_Register ::
  "formats \<Rightarrow> did \<Rightarrow> Blob \<Rightarrow> cid \<Rightarrow> clock \<Rightarrow>
   'z blob_store_scheme \<Rightarrow> 'z blob_store_scheme \<times> unit res" where
  "blob_Register F space blob cause clk s =
     (if \<exists>ent \<in> set (blobs s space). ent_Digest ent = Digest blob then (s, Err ErrEntryExists)
      else
        (let ent = \<lparr>ent_Space = space, ent_Blob = blob, ent_Cause = cause,
                    ent_InsertedAt = clk 0\<rparr>;
             s = s\<lparr>blobs := (blobs s)(space := blobs s space @ [ent])\<rparr>;
             inc = [(BlobAddTotalMetric, 1), (BlobAddSizeTotalMetric, Size blob)]
         in blob_record_change F space cause (Size blob) inc (clk 1) (clk 2) s))"

subsection \<open>What the operations do\<close>

lemma blob_record_change_eq:
  "blob_record_change F space cause delta inc at now s =
     (s\<lparr>spaceDiffStore := fst (spacediff_put_recorded F space cause delta at now (spaceDiffStore s)),
        spaceMetrics := fst (SpaceStore_IncrementTotals space inc (spaceMetrics s)),
        adminMetrics := fst (metrics_IncrementTotals inc (adminMetrics s))\<rparr>, Ok ())"
proof -
  have "snd (metrics_IncrementTotals inc (adminMetrics s)) = Ok ()"
    "snd (SpaceStore_IncrementTotals space inc (spaceMetrics s)) = Ok ()" by simp_all
  then show ?thesis
    by (simp add: blob_record_change_def spacediff_Put_Ok Let_def split_beta)
qed

lemma Deregister_loop_missing:
  "digest \<notin> ent_Digest ` set xs \<Longrightarrow>
    Deregister_loop F space digest cause clk xs ents s = (s, Ok (ents @ xs))"
  by (induction xs arbitrary: ents) (auto simp: rev_image_eqI)

lemma Deregister_loop_found:
  assumes "distinct (map ent_Digest xs)" and "find (\<lambda>e. ent_Digest e = digest) xs = Some e"
  shows "Deregister_loop F space digest cause clk xs ents s =
    (fst (blob_record_change F space cause (- ent_Size e)
       [(BlobRemoveTotalMetric, 1), (BlobRemoveSizeTotalMetric, ent_Size e)] (clk 0) (clk 1) s),
     Ok (ents @ filter (\<lambda>e. ent_Digest e \<noteq> digest) xs))"
  using assms
proof (induction xs arbitrary: ents)
  case (Cons x xs)
  show ?case
  proof (cases "ent_Digest x = digest")
    case True
    with Cons.prems have "x = e" and missing: "digest \<notin> ent_Digest ` set xs"
      by auto
    then have "filter (\<lambda>e. ent_Digest e \<noteq> digest) xs = xs"
      by (intro filter_all) auto
    with True \<open>x = e\<close> missing show ?thesis
      by (simp add: blob_record_change_eq Deregister_loop_missing)
  next
    case False
    with Cons show ?thesis by simp
  qed
qed simp

text \<open>The abstraction: what each space holds, by digest.\<close>

definition registered :: "'z blob_store_scheme \<Rightarrow> did \<Rightarrow> multihash \<rightharpoonup> blob_Record" where
  "registered s space digest = find (\<lambda>ent. ent_Digest ent = digest) (blobs s space)"

definition blobs_distinct :: "'z blob_store_scheme \<Rightarrow> bool" where
  "blobs_distinct s \<longleftrightarrow> (\<forall>sp. distinct (map ent_Digest (blobs s sp)))"

definition size_stored :: "'z blob_store_scheme \<Rightarrow> did \<Rightarrow> uint64" where
  "size_stored s sp = sum_list (map ent_Size (blobs s sp))"

lemma registered_None_iff: "registered s sp d = None \<longleftrightarrow> d \<notin> ent_Digest ` set (blobs s sp)"
  by (simp add: registered_def find_None_key)

lemma blob_Register_exists:
  "registered s sp (Digest b) \<noteq> None \<Longrightarrow> blob_Register F sp b cause clk s = (s, Err ErrEntryExists)"
  by (auto simp: blob_Register_def registered_None_iff)

lemma blob_Register_fresh:
  assumes "registered s sp (Digest b) = None"
  shows "blob_Register F sp b cause clk s =
    (fst (blob_record_change F sp cause (Size b)
       [(BlobAddTotalMetric, 1), (BlobAddSizeTotalMetric, Size b)] (clk 1) (clk 2)
       (s\<lparr>blobs := (blobs s)(sp := blobs s sp @ [\<lparr>ent_Space = sp, ent_Blob = b, ent_Cause = cause,
          ent_InsertedAt = clk 0\<rparr>])\<rparr>)), Ok ())"
  using assms
  by (auto simp: blob_Register_def registered_None_iff image_iff blob_record_change_eq Let_def)

lemma blob_Deregister_missing:
  "registered s sp d = None \<Longrightarrow> blob_Deregister F sp d cause clk s = (s, Err ErrEntryNotFound)"
  by (simp add: blob_Deregister_def registered_None_iff Deregister_loop_missing)

lemma blob_Deregister_found:
  assumes "blobs_distinct s" and "registered s sp d = Some e"
  shows "blob_Deregister F sp d cause clk s =
    ((fst (blob_record_change F sp cause (- ent_Size e)
       [(BlobRemoveTotalMetric, 1), (BlobRemoveSizeTotalMetric, ent_Size e)] (clk 0) (clk 1) s))
       \<lparr>blobs := (blobs s)(sp := filter (\<lambda>e. ent_Digest e \<noteq> d) (blobs s sp))\<rparr>, Ok ())"
proof -
  have e: "e \<in> set (blobs s sp)" "ent_Digest e = d"
    using find_SomeD [OF assms(2) [unfolded registered_def]] by simp_all
  have "length (filter (\<lambda>e. ent_Digest e \<noteq> d) (blobs s sp)) < length (blobs s sp)"
    using e by (intro length_filter_less [of e]) simp_all
  with assms show ?thesis
    by (simp add: blob_Deregister_def Deregister_loop_found blobs_distinct_def registered_def
        blob_record_change_eq)
qed

subsection \<open>The contract the handlers rely on\<close>

locale registry =
  fixes invar :: "'s \<Rightarrow> bool"
    and held :: "'s \<Rightarrow> did \<Rightarrow> multihash \<rightharpoonup> blob_Record"
    and get :: "'s \<Rightarrow> did \<Rightarrow> multihash \<Rightarrow> blob_Record res"
    and register :: "did \<Rightarrow> Blob \<Rightarrow> cid \<Rightarrow> clock \<Rightarrow> 's \<Rightarrow> 's \<times> unit res"
    and deregister :: "did \<Rightarrow> multihash \<Rightarrow> cid \<Rightarrow> clock \<Rightarrow> 's \<Rightarrow> 's \<times> unit res"
  assumes get_held: "get s sp d =
      (case held s sp d of None \<Rightarrow> Err ErrEntryNotFound | Some e \<Rightarrow> Ok e)"
    and register_held: "held s sp (Digest b) \<noteq> None \<Longrightarrow>
      register sp b cause clk s = (s, Err ErrEntryExists)"
    and register_new: "held s sp (Digest b) = None \<Longrightarrow> \<exists>s'. register sp b cause clk s = (s', Ok ()) \<and>
      held s' = (held s)(sp := (held s sp)(Digest b \<mapsto> \<lparr>ent_Space = sp, ent_Blob = b,
        ent_Cause = cause, ent_InsertedAt = clk 0\<rparr>))"
    and deregister_missing: "held s sp d = None \<Longrightarrow>
      deregister sp d cause clk s = (s, Err ErrEntryNotFound)"
    and deregister_held: "invar s \<Longrightarrow> held s sp d \<noteq> None \<Longrightarrow>
      \<exists>s'. deregister sp d cause clk s = (s', Ok ()) \<and> held s' = (held s)(sp := (held s sp)(d := None))"
    and register_invar: "invar s \<Longrightarrow> invar (fst (register sp b cause clk s))"
    and deregister_invar: "invar s \<Longrightarrow> invar (fst (deregister sp d cause clk s))"
begin

lemma get_after_register:
  assumes "held s sp (Digest b) = None" and "register sp b cause clk s = (s', r)"
  shows "r = Ok ()" and "get s' sp (Digest b) = Ok \<lparr>ent_Space = sp, ent_Blob = b,
      ent_Cause = cause, ent_InsertedAt = clk 0\<rparr>"
    and "sp' \<noteq> sp \<or> d \<noteq> Digest b \<Longrightarrow> get s' sp' d = get s sp' d"
  using register_new [OF assms(1), of cause clk] assms(2) by (auto simp: get_held)

lemma register_twice:
  assumes "held s sp (Digest b) = None" and "register sp b cause clk s = (s', r)"
    and "Digest b' = Digest b"
  shows "register sp b' cause' clk' s' = (s', Err ErrEntryExists)"
  using register_new [OF assms(1), of cause clk] assms(2,3) by (intro register_held) auto

lemma get_after_deregister:
  assumes "invar s" and "deregister sp d cause clk s = (s', Ok ())"
  shows "get s' sp d = Err ErrEntryNotFound"
    and "sp' \<noteq> sp \<or> d' \<noteq> d \<Longrightarrow> get s' sp' d' = get s sp' d'"
  using assms deregister_missing [of s sp d cause clk] deregister_held [OF assms(1), of sp d cause clk]
  by (cases "held s sp d"; auto simp: get_held)+

lemma deregister_undoes_register:
  assumes "invar s" and "held s sp (Digest b) = None"
    and "register sp b cause clk s = (s1, r1)" and "deregister sp (Digest b) cause' clk' s1 = (s2, r2)"
  shows "r1 = Ok () \<and> r2 = Ok () \<and> held s2 = held s"
proof -
  from register_new [OF assms(2), of cause clk] assms(3) have r1: "r1 = Ok ()"
    and h1: "held s1 = (held s)(sp := (held s sp)(Digest b \<mapsto> \<lparr>ent_Space = sp, ent_Blob = b,
        ent_Cause = cause, ent_InsertedAt = clk 0\<rparr>))" by auto
  have "invar s1"
    using register_invar [OF assms(1), of sp b cause clk] assms(3) by simp
  from deregister_held [OF this, of sp "Digest b" cause' clk'] h1 assms(2,4) r1 show ?thesis
    by (auto simp: fun_upd_idem)
qed

end

lemma registered_blobs_cong: "blobs s = blobs t \<Longrightarrow> registered s = registered t"
  by (simp add: registered_def fun_eq_iff)

lemma blobs_change [simp]: "blobs (fst (blob_record_change F sp cause delta inc at now s)) = blobs s"
  by (simp add: blob_record_change_eq)

lemma find_append: "find P (xs @ ys) = (case find P xs of None \<Rightarrow> find P ys | Some x \<Rightarrow> Some x)"
  by (induction xs) auto

lemma find_filter_other:
  "find (\<lambda>e. f e = d') (filter (\<lambda>e. f e \<noteq> d) xs) = (if d' = d then None else find (\<lambda>e. f e = d') xs)"
  by (induction xs) auto

interpretation blob_registry: registry "blobs_distinct :: 'z blob_store_scheme \<Rightarrow> bool" registered
  blob_Get "blob_Register F" "blob_Deregister F" for F
proof unfold_locales
  fix s :: "'z blob_store_scheme" and sp d cause clk b
  show "blob_Get s sp d = (case registered s sp d of None \<Rightarrow> Err ErrEntryNotFound | Some e \<Rightarrow> Ok e)"
    by (simp add: blob_Get_def registered_def)
  show "registered s sp (Digest b) \<noteq> None \<Longrightarrow>
      blob_Register F sp b cause clk s = (s, Err ErrEntryExists)"
    by (rule blob_Register_exists)
  show "registered s sp (Digest b) = None \<Longrightarrow> \<exists>s'. blob_Register F sp b cause clk s = (s', Ok ()) \<and>
      registered s' = (registered s)(sp := (registered s sp)(Digest b \<mapsto> \<lparr>ent_Space = sp,
        ent_Blob = b, ent_Cause = cause, ent_InsertedAt = clk 0\<rparr>))"
    by (auto simp: blob_Register_fresh registered_def fun_eq_iff find_append split: option.split)
  show "registered s sp d = None \<Longrightarrow> blob_Deregister F sp d cause clk s = (s, Err ErrEntryNotFound)"
    by (rule blob_Deregister_missing)
  show "blobs_distinct s \<Longrightarrow> registered s sp d \<noteq> None \<Longrightarrow>
      \<exists>s'. blob_Deregister F sp d cause clk s = (s', Ok ()) \<and>
        registered s' = (registered s)(sp := (registered s sp)(d := None))"
    by (auto simp: blob_Deregister_found registered_def fun_eq_iff find_filter_other)
  show "blobs_distinct s \<Longrightarrow> blobs_distinct (fst (blob_Register F sp b cause clk s))"
    by (cases "registered s sp (Digest b)")
      (auto simp: blob_Register_fresh blob_Register_exists blobs_distinct_def registered_None_iff)
  show "blobs_distinct s \<Longrightarrow> blobs_distinct (fst (blob_Deregister F sp d cause clk s))"
    by (cases "registered s sp d")
      (auto simp: blob_Deregister_found blob_Deregister_missing blobs_distinct_def
        intro!: distinct_map_filter)
qed

subsection \<open>Blobs, log and counters agree\<close>

text \<open>
  In every space the bytes held are the sum of the log and the difference of the two byte
  counters, and the blobs held the difference of the two blob counters, all modulo $2^{64}$;
  the log is ordered.
\<close>

definition blob_ledger :: "formats \<Rightarrow> 'z blob_store_scheme \<Rightarrow> bool" where
  "blob_ledger F s \<longleftrightarrow> blobs_distinct s \<and>
     (\<forall>sp. sum_list (map Delta (spaceDiffStore s sp)) = size_stored s sp \<and>
       space_counter (spaceMetrics s) sp BlobAddSizeTotalMetric =
         size_stored s sp + space_counter (spaceMetrics s) sp BlobRemoveSizeTotalMetric \<and>
       space_counter (spaceMetrics s) sp BlobAddTotalMetric =
         of_nat (length (blobs s sp)) + space_counter (spaceMetrics s) sp BlobRemoveTotalMetric \<and>
       sorted (map (diff_key F) (spaceDiffStore s sp)))"

lemma sum_recorded [simp]:
  "sum_list (map Delta (fst (spacediff_put_recorded F space cause delta at now d) sp)) =
    sum_list (map Delta (d sp)) + (if sp = space then delta else 0)"
  by (rule space_log.put_sum) (simp add: spacediff_put_recorded_def)

lemma sorted_recorded:
  "sorted (map (diff_key F) (d sp)) \<Longrightarrow>
    sorted (map (diff_key F) (fst (spacediff_put_recorded F space cause delta at now d) sp))"
  by (rule space_log.put_sorted) (auto intro: prod.collapse [symmetric])

lemma blob_ledger_New [inv_intros]:
  "spaceDiffStore l = spacediff_New \<Longrightarrow> spaceMetrics l = NewSpaceStore \<Longrightarrow> blob_ledger F (blob_New l)"
  by (simp add: blob_ledger_def blob_New_def blobs_distinct_def size_stored_def spacediff_New_def
      ledger.extend_def blob_store.fields_def NewSpaceStore_def space_counter_def)

lemma blob_ledger_Register [inv_intros]:
  assumes "blob_ledger F s"
  shows "blob_ledger F (fst (blob_Register F sp b cause clk s))"
proof (cases "registered s sp (Digest b)")
  case None
  have "blobs_distinct (fst (blob_Register F sp b cause clk s))"
    using assms by (intro blob_registry.register_invar) (simp add: blob_ledger_def)
  with assms None show ?thesis
    by (auto simp: blob_ledger_def blob_Register_fresh blob_record_change_eq size_stored_def
        space_counter_IncrementTotals algebra_simps intro!: sorted_recorded)
next
  case (Some e)
  then show ?thesis using assms by (simp add: blob_Register_exists)
qed

lemma size_stored_split:
  assumes "blobs_distinct s" and "registered s sp d = Some e"
  shows "size_stored s sp = ent_Size e + sum_list (map ent_Size (filter (\<lambda>e. ent_Digest e \<noteq> d) (blobs s sp)))"
    and "length (blobs s sp) = Suc (length (filter (\<lambda>e. ent_Digest e \<noteq> d) (blobs s sp)))"
proof -
  have one: "filter (\<lambda>e. ent_Digest e = d) (blobs s sp) = [e]"
    using assms filter_key_singleton [of ent_Digest "blobs s sp" d]
    by (simp add: blobs_distinct_def registered_def)
  then show "size_stored s sp =
      ent_Size e + sum_list (map ent_Size (filter (\<lambda>e. ent_Digest e \<noteq> d) (blobs s sp)))"
    using sum_list_partition [of ent_Size "\<lambda>e. ent_Digest e = d" "blobs s sp"]
    by (simp add: size_stored_def)
  show "length (blobs s sp) = Suc (length (filter (\<lambda>e. ent_Digest e \<noteq> d) (blobs s sp)))"
    using one sum_length_filter_compl [of "\<lambda>e. ent_Digest e = d" "blobs s sp"] by simp
qed

lemma blob_ledger_Deregister [inv_intros]:
  assumes "blob_ledger F s"
  shows "blob_ledger F (fst (blob_Deregister F sp d cause clk s))"
proof (cases "registered s sp d")
  case None
  then show ?thesis using assms by (simp add: blob_Deregister_missing)
next
  case (Some e)
  have dist: "blobs_distinct s"
    using assms by (simp add: blob_ledger_def)
  note split = size_stored_split [OF dist Some]
  have "blobs_distinct (fst (blob_Deregister F sp d cause clk s))"
    using dist by (rule blob_registry.deregister_invar)
  moreover have "size_stored (fst (blob_Deregister F sp d cause clk s)) =
      (\<lambda>sp'. size_stored s sp' - (if sp' = sp then ent_Size e else 0))"
    using split(1) by (auto simp: fun_eq_iff blob_Deregister_found [OF dist Some] size_stored_def)
  moreover have "of_nat (length (blobs (fst (blob_Deregister F sp d cause clk s)) sp')) =
      (of_nat (length (blobs s sp')) - (if sp' = sp then 1 else 0) :: uint64)" for sp'
    using split(2) by (simp add: blob_Deregister_found [OF dist Some])
  moreover have "spaceDiffStore (fst (blob_Deregister F sp d cause clk s)) =
      fst (spacediff_put_recorded F sp cause (- ent_Size e) (clk 0) (clk 1) (spaceDiffStore s))"
    "spaceMetrics (fst (blob_Deregister F sp d cause clk s)) = fst (SpaceStore_IncrementTotals sp
      [(BlobRemoveTotalMetric, 1), (BlobRemoveSizeTotalMetric, ent_Size e)] (spaceMetrics s))"
    by (simp_all add: blob_Deregister_found [OF dist Some] blob_record_change_eq)
  ultimately show ?thesis
    using assms unfolding blob_ledger_def
    by (simp add: space_counter_IncrementTotals sorted_recorded)
qed

lemma totals_Register [inv_intros]:
  "totals_agree (spaceMetrics s) (adminMetrics s) \<Longrightarrow> s' = fst (blob_Register F sp b cause clk s) \<Longrightarrow>
    totals_agree (spaceMetrics s') (adminMetrics s')"
  by (cases "registered s sp (Digest b)")
    (simp_all add: blob_Register_fresh blob_Register_exists blob_record_change_eq
      totals_agree_IncrementTotals del: metrics_IncrementTotals.simps)

lemma totals_Deregister [inv_intros]:
  "totals_agree (spaceMetrics s) (adminMetrics s) \<Longrightarrow> blobs_distinct s \<Longrightarrow>
    s' = fst (blob_Deregister F sp d cause clk s) \<Longrightarrow> totals_agree (spaceMetrics s') (adminMetrics s')"
  by (cases "registered s sp d")
    (simp_all add: blob_Deregister_found blob_Deregister_missing blob_record_change_eq
      totals_agree_IncrementTotals del: metrics_IncrementTotals.simps)

subsection \<open>Listing\<close>

type_synonym 'z blob_view = "formats \<times> 'z blob_store_scheme \<times> did \<times> int option"

definition blob_list_wf :: "'z blob_view \<Rightarrow> bool" where
  "blob_list_wf = (\<lambda>(F, s, space, limit). formats_ok F \<and> blobs_distinct s \<and>
     (case limit of None \<Rightarrow> True | Some l \<Rightarrow> 0 < l))"

definition blob_items :: "'z blob_view \<Rightarrow> blob_Record list" where
  "blob_items = (\<lambda>(F, s, space, limit). blobs s space)"

definition blob_cursor :: "formats \<Rightarrow> blob_Record \<Rightarrow> string" where
  "blob_cursor F ent = HexString F (ent_Digest ent)"

definition blob_page :: "'z blob_view \<Rightarrow> string option \<Rightarrow> blob_Record Page res" where
  "blob_page = (\<lambda>(F, s, space, limit) c. blob_List F s space
     ((case limit of None \<Rightarrow> [] | Some l \<Rightarrow> [blob_WithListLimit l]) @
      cursor_options blob_WithListCursor c))"

lemma blob_cursors_distinct:
  "formats_ok F \<Longrightarrow> blobs_distinct s \<Longrightarrow> distinct (map (blob_cursor F) (blobs s sp))"
  by (auto simp: blob_cursor_def [abs_def] blobs_distinct_def distinct_conv_nth formats_okD(2))

interpretation blob_pages: pager "blob_list_wf :: 'z blob_view \<Rightarrow> bool" blob_items blob_page
  "\<lambda>v. key_resumes (blob_cursor (fst v)) (blob_items v)"
proof unfold_locales
  fix v :: "'z blob_view" and c p
  show "blob_list_wf v \<Longrightarrow> key_resumes (blob_cursor (fst v)) (blob_items v) None 0"
    by simp
  assume wf: "blob_list_wf v" and at: "key_resumes (blob_cursor (fst v)) (blob_items v) c p"
    and p: "p \<le> length (blob_items v)"
  obtain F s space limit where v: "v = (F, s, space, limit)" by (cases v)
  let ?rest = "drop p (blobs s space)"
  have key: "(\<lambda>ent. HexString F (ent_Digest ent)) = blob_cursor F"
    by (simp add: blob_cursor_def fun_eq_iff)
  have page: "blob_page v c = (case limit of None \<Rightarrow> Ok \<lparr>page_Cursor = None, Results = ?rest\<rparr>
      | Some l \<Rightarrow> cut_page (blob_cursor F) l ?rest)"
  proof (cases c)
    case None
    with at v show ?thesis
      by (auto simp: blob_page_def blob_List_def cursor_options_def no_options_def key
          blob_WithListLimit_def blob_items_def Let_def split: option.split)
  next
    case (Some k)
    have "distinct (map (blob_cursor F) (blobs s space))"
      using wf v by (auto simp: blob_list_wf_def blob_cursors_distinct)
    moreover have "key_resumes (blob_cursor F) (blobs s space) (Some k) p"
      using at v Some by (simp add: blob_items_def)
    ultimately have "IndexFunc (\<lambda>ent. blob_cursor F ent = k) (blobs s space) = Some (p - 1)"
      "Suc (p - 1) = p" "p - 1 < length (blobs s space)"
      by (rule IndexFunc_key_resumes)+
    then show ?thesis
      using v Some by (auto simp: blob_page_def blob_List_def cursor_options_def no_options_def key
          blob_WithListLimit_def blob_WithListCursor_def slice_from_def blob_cursor_def
          nat_add_distrib Let_def split: option.split)
  qed
  have items: "blob_items v = blobs s space" "fst v = F"
    using v by (simp_all add: blob_items_def)
  show "\<exists>page n. blob_page v c = Ok page \<and> Results page = take n (drop p (blob_items v)) \<and>
      (case page_Cursor page of None \<Rightarrow> length (blob_items v) \<le> p + n
       | Some c' \<Rightarrow> Results page \<noteq> [] \<and>
           key_resumes (blob_cursor (fst v)) (blob_items v) (Some c') (p + length (Results page)))"
  proof (cases limit)
    case None
    then show ?thesis
      unfolding page items by (auto intro!: exI [of _ "length (blobs s space)"])
  next
    case (Some l)
    then have "0 < l"
      using wf v by (simp add: blob_list_wf_def)
    then show ?thesis
      unfolding page items Some option.case by (rule cut_page_serves)
  qed
qed

subsection \<open>Properties\<close>

definition empty_ledger :: ledger where
  "empty_ledger = \<lparr>spaceDiffStore = spacediff_New, uploadDiffStore = uploaddiff_New,
     spaceMetrics = NewSpaceStore, adminMetrics = metrics_New\<rparr>"

definition sample_blobs :: blob_store where
  "sample_blobs = fst (blob_Register sample_formats ''space'' \<lparr>Digest = ''d2'', Size = 5\<rparr> ''c2'' int
     (fst (blob_Register sample_formats ''space'' \<lparr>Digest = ''d1'', Size = 7\<rparr> ''c1'' int
       (blob_New empty_ledger))))"

lemma sample_blobs_distinct: "blobs_distinct sample_blobs"
proof -
  have "blobs_distinct (blob_New empty_ledger)"
    by (simp add: blobs_distinct_def blob_New_def ledger.extend_def blob_store.fields_def)
  then show ?thesis
    unfolding sample_blobs_def by (intro blob_registry.register_invar)
qed

text \<open>
Registering a blob whose digest the space holds is refused with \<^verbatim>\<open>ErrEntryExists\<close> and
changes nothing; registering any other blob succeeds, \<^verbatim>\<open>Get\<close> then returns the entry with its
cause and its time, no other lookup changes, and removing it gives every lookup back.
\<close>

theorem blob_Register_spec:
  assumes "blobs_distinct s" and "blob_Register F sp b cause clk s = (s', r)"
  shows "if is_Ok (blob_Get s sp (Digest b)) then r = Err ErrEntryExists \<and> s' = s
    else r = Ok () \<and>
      blob_Get s' sp (Digest b) = Ok \<lparr>ent_Space = sp, ent_Blob = b, ent_Cause = cause, ent_InsertedAt = clk 0\<rparr> \<and>
      (sp' \<noteq> sp \<or> d \<noteq> Digest b \<longrightarrow> blob_Get s' sp' d = blob_Get s sp' d) \<and>
      snd (blob_Deregister F sp (Digest b) cause' clk' s') = Ok () \<and>
      blob_Get (fst (blob_Deregister F sp (Digest b) cause' clk' s')) = blob_Get s"
proof (cases "registered s sp (Digest b)")
  case None
  then have "\<not> is_Ok (blob_Get s sp (Digest b))"
    by (simp add: blob_registry.get_held)
  moreover note blob_registry.get_after_register [OF None assms(2)]
    blob_registry.deregister_undoes_register [OF assms(1) None assms(2) prod.collapse [symmetric]]
  ultimately show ?thesis
    by (simp add: fun_eq_iff blob_registry.get_held)
next
  case (Some e)
  with blob_registry.register_held [of s sp b F cause clk] assms(2) show ?thesis
    by (simp add: blob_registry.get_held)
qed

theorem blob_Register_spec_witness:
  "blob_Register sample_formats ''space'' \<lparr>Digest = ''d1'', Size = 9\<rparr> ''c3'' int sample_blobs =
     (sample_blobs, Err ErrEntryExists) \<and>
   blob_Get (fst (blob_Register sample_formats ''other'' \<lparr>Digest = ''d1'', Size = 9\<rparr> ''c3'' int sample_blobs))
     ''other'' ''d1'' = Ok \<lparr>ent_Space = ''other'', ent_Blob = \<lparr>Digest = ''d1'', Size = 9\<rparr>,
       ent_Cause = ''c3'', ent_InsertedAt = 0\<rparr>"
proof -
  have held: "is_Ok (blob_Get sample_blobs ''space'' ''d1'')"
    "\<not> is_Ok (blob_Get sample_blobs ''other'' ''d1'')"
    by code_simp+
  from blob_Register_spec [OF sample_blobs_distinct prod.collapse [symmetric],
      where sp = "''space''" and b = "\<lparr>Digest = ''d1'', Size = 9\<rparr>" and F = sample_formats
        and cause = "''c3''" and clk = int]
    blob_Register_spec [OF sample_blobs_distinct prod.collapse [symmetric],
      where sp = "''other''" and b = "\<lparr>Digest = ''d1'', Size = 9\<rparr>" and F = sample_formats
        and cause = "''c3''" and clk = int]
  show ?thesis
    using held by (simp add: prod_eq_iff)
qed

text \<open>
Reading the blobs of a space to the end, page by page at any positive page size or
with none, returns and gives every blob of the space once, in the order of registration.
\<close>

theorem blob_List_complete:
  assumes "formats_ok F" and "blobs_distinct s" and "case limit of None \<Rightarrow> True | Some l \<Rightarrow> 0 < l"
  shows "store_Collect (\<lambda>cfg. blob_List F s space
      ((case limit of None \<Rightarrow> [] | Some l \<Rightarrow> [blob_WithListLimit l]) @
       cursor_options blob_WithListCursor (Cursor cfg))) = Some (Ok (blobs s space))"
  using blob_pages.collect_items [of "(F, s, space, limit)"] assms
  by (simp add: blob_list_wf_def blob_page_def blob_items_def)

theorem blob_List_complete_witness:
  "store_Collect (\<lambda>cfg. blob_List sample_formats sample_blobs ''space''
      (blob_WithListLimit 1 # cursor_options blob_WithListCursor (Cursor cfg))) =
   Some (Ok (blobs sample_blobs ''space'')) \<and> length (blobs sample_blobs ''space'') = 2"
proof -
  have "length (blobs sample_blobs ''space'') = 2"
    by code_simp
  then show ?thesis
    using blob_List_complete [OF sample_formats_ok sample_blobs_distinct, of "Some 1" "''space''"] by simp
qed

end
