(* ===== verification/Upload_Store.thy ===== *)
theory Upload_Store
  imports Blob_Registry
begin

section \<open>The upload store\<close>

text \<open>
  \<^verbatim>\<open>pkg/store/upload\<close> with its in-memory backend: per space the uploads in order of insertion, and
  per upload the sorted shards. A new root and a removed root are each one row of the upload diff
  log and one step of a counter, through \<^verbatim>\<open>recordDelta\<close>, which writes nothing where the log
  already holds the (cause, instant) pair. The store shares the ledger with the blob registry,
  whose state it extends.
\<close>

record UploadRecord =
  up_Space :: did
  up_Root :: cid
  up_Index :: "cid option"
  up_Cause :: cid
  up_InsertedAt :: time
  up_UpdatedAt :: time

record UploadInspectRecord =
  Spaces :: "did list"

record upload_store = blob_store +
  uploads :: "did \<rightharpoonup> UploadRecord list"
  shards :: "did \<rightharpoonup> (cid \<rightharpoonup> cid list)"

definition ErrUploadNotFound :: gerr where
  "ErrUploadNotFound = Named ''UploadNotFound'' ''upload not found''"

definition upload_WithListLimit :: "int \<Rightarrow> ListOption" where
  "upload_WithListLimit limit cfg = cfg\<lparr>Limit := Some limit\<rparr>"

definition upload_WithListCursor :: "string \<Rightarrow> ListOption" where
  "upload_WithListCursor cursor cfg = cfg\<lparr>Cursor := Some cursor\<rparr>"

definition WithListShardsLimit :: "int \<Rightarrow> ListOption" where
  "WithListShardsLimit limit cfg = cfg\<lparr>Limit := Some limit\<rparr>"

definition WithListShardsCursor :: "string \<Rightarrow> ListOption" where
  "WithListShardsCursor cursor cfg = cfg\<lparr>Cursor := Some cursor\<rparr>"

subsection \<open>Operations\<close>

definition upload_New :: "blob_store \<Rightarrow> upload_store" where
  "upload_New l = blob_store.extend l (upload_store.fields Map.empty Map.empty)"

definition go_slice :: "'a list option \<Rightarrow> 'a list" where
  "go_slice x = (case x of None \<Rightarrow> [] | Some l \<Rightarrow> l)"

abbreviation uploads_in :: "'z upload_store_scheme \<Rightarrow> did \<Rightarrow> UploadRecord list" where
  "uploads_in s space \<equiv> go_slice (uploads s space)"

definition upload_Exists :: "formats \<Rightarrow> 'z upload_store_scheme \<Rightarrow> did \<Rightarrow> cid \<Rightarrow> bool res" where
  "upload_Exists F s space root =
     (case uploads s space of
        None \<Rightarrow> Ok False
      | Some us \<Rightarrow> Ok (\<exists>r \<in> set us. cid_String F (up_Root r) = cid_String F root))"

definition upload_Get :: "formats \<Rightarrow> 'z upload_store_scheme \<Rightarrow> did \<Rightarrow> cid \<Rightarrow> UploadRecord res" where
  "upload_Get F s space root =
     (case find (\<lambda>r. cid_String F (up_Root r) = cid_String F root) (uploads_in s space) of
        Some r \<Rightarrow> Ok r
      | None \<Rightarrow> Err ErrUploadNotFound)"

text \<open>\<^verbatim>\<open>Inspect\<close> ranges over the map of spaces: \<open>order\<close> is the order Go picks.\<close>

definition upload_Inspect ::
  "formats \<Rightarrow> 'z upload_store_scheme \<Rightarrow> did list \<Rightarrow> cid \<Rightarrow> UploadInspectRecord res" where
  "upload_Inspect F s order root =
     Ok \<lparr>Spaces = filter (\<lambda>space. \<exists>r \<in> set (uploads_in s space).
           cid_String F (up_Root r) = cid_String F root) order\<rparr>"

text \<open>Both listings make a cursor from the last result of every page that has one.\<close>

definition last_cursor :: "('a \<Rightarrow> string) \<Rightarrow> 'a list \<Rightarrow> 'a Page res" where
  "last_cursor key entries =
     (if length entries > 0 then
        (case slice_at entries (int (length entries) - 1) of
           Ok final \<Rightarrow> Ok \<lparr>page_Cursor = Some (key final), Results = entries\<rparr>
         | Err e \<Rightarrow> Err e
         | Panic \<Rightarrow> Panic)
      else Ok \<lparr>page_Cursor = None, Results = entries\<rparr>)"

definition seek :: "('a \<Rightarrow> string) \<Rightarrow> string option \<Rightarrow> 'a list \<Rightarrow> 'a list res" where
  "seek key cursor entries =
     (case cursor of
        None \<Rightarrow> Ok entries
      | Some c \<Rightarrow>
          (case IndexFunc (\<lambda>x. key x = c) entries of
             None \<Rightarrow> Ok entries
           | Some idx \<Rightarrow> slice_from entries (int idx + 1)))"

definition upload_List ::
  "formats \<Rightarrow> 'z upload_store_scheme \<Rightarrow> did \<Rightarrow> ListOption list \<Rightarrow> UploadRecord Page res" where
  "upload_List F s space options =
     (let cfg = apply_options options \<lparr>Cursor = None, Limit = Some 1000\<rparr>;
          key = (\<lambda>r. cid_String F (up_Root r))
      in case seek key (Cursor cfg) (uploads_in s space) of
           Err e \<Rightarrow> Err e
         | Panic \<Rightarrow> Panic
         | Ok entries \<Rightarrow>
             (case Limit cfg of
                None \<Rightarrow> Panic
              | Some limit \<Rightarrow>
                  (case (if int (length entries) > limit then slice_to entries limit else Ok entries) of
                     Err e \<Rightarrow> Err e
                   | Panic \<Rightarrow> Panic
                   | Ok entries \<Rightarrow> last_cursor key entries)))"

definition upload_ListShards ::
  "formats \<Rightarrow> 'z upload_store_scheme \<Rightarrow> did \<Rightarrow> cid \<Rightarrow> ListOption list \<Rightarrow> cid Page res" where
  "upload_ListShards F s space root options =
     (let cfg = apply_options options no_options in
      case shards s space of
        None \<Rightarrow> Ok \<lparr>page_Cursor = None, Results = []\<rparr>
      | Some shardsByUpload \<Rightarrow>
          (case seek (cid_String F) (Cursor cfg) (go_slice (shardsByUpload root)) of
             Err e \<Rightarrow> Err e
           | Panic \<Rightarrow> Panic
           | Ok entries \<Rightarrow>
               (case (case Limit cfg of
                        Some limit \<Rightarrow>
                          (if int (length entries) > limit then slice_to entries limit else Ok entries)
                      | None \<Rightarrow> Ok entries) of
                  Err e \<Rightarrow> Err e
                | Panic \<Rightarrow> Panic
                | Ok entries \<Rightarrow> last_cursor (cid_String F) entries)))"

definition recordDelta ::
  "formats \<Rightarrow> did \<Rightarrow> cid \<Rightarrow> int64 \<Rightarrow> metric \<Rightarrow> clock \<Rightarrow>
   'z ledger_scheme \<Rightarrow> 'z ledger_scheme \<times> unit res" where
  "recordDelta F space cause delta metric clk s =
     (let (d, r) = uploaddiff_Put F space cause delta (clk 0) (clk 1) (uploadDiffStore s);
          s = s\<lparr>uploadDiffStore := d\<rparr>
      in case r of
           Panic \<Rightarrow> (s, Panic)
         | Err e \<Rightarrow> (s, Err (Wrap ''putting upload diff'' e))
         | Ok recorded \<Rightarrow>
             (if \<not> recorded then (s, Ok ())
              else
                (let inc = [(metric, 1)];
                     (m, r) = SpaceStore_IncrementTotals space inc (spaceMetrics s);
                     s = s\<lparr>spaceMetrics := m\<rparr>
                 in case r of
                      Panic \<Rightarrow> (s, Panic)
                    | Err e \<Rightarrow> (s, Err (Wrap ''incrementing space metrics'' e))
                    | Ok _ \<Rightarrow>
                        (let (a, r) = metrics_IncrementTotals inc (adminMetrics s);
                             s = s\<lparr>adminMetrics := a\<rparr>
                         in case r of
                              Panic \<Rightarrow> (s, Panic)
                            | Err e \<Rightarrow> (s, Err (Wrap ''incrementing admin metrics'' e))
                            | Ok _ \<Rightarrow> (s, Ok ())))))"

definition upload_Remove ::
  "formats \<Rightarrow> did \<Rightarrow> cid \<Rightarrow> cid \<Rightarrow> clock \<Rightarrow>
   'z upload_store_scheme \<Rightarrow> 'z upload_store_scheme \<times> unit res" where
  "upload_Remove F space root cause clk s =
     (case uploads s space of
        None \<Rightarrow> (s, Err ErrUploadNotFound)
      | Some us \<Rightarrow>
          (case IndexFunc (\<lambda>r. cid_String F (up_Root r) = cid_String F root) us of
             None \<Rightarrow> (s, Err ErrUploadNotFound)
           | Some idx \<Rightarrow>
               (let s = s\<lparr>uploads := (uploads s)(space \<mapsto> take idx us @ drop (idx + 1) us),
                          shards := (case shards s space of
                              None \<Rightarrow> shards s
                            | Some m \<Rightarrow> (shards s)(space \<mapsto> m(root := None)))\<rparr>
                in recordDelta F space cause (- 1) UploadRemoveTotalMetric clk s)))"

fun add_shards :: "formats \<Rightarrow> cid \<Rightarrow> cid list \<Rightarrow> (cid \<rightharpoonup> cid list) \<Rightarrow> (cid \<rightharpoonup> cid list)" where
  "add_shards F root [] m = m"
| "add_shards F root (x # xs) m =
     (if \<exists>l \<in> set (go_slice (m root)). cid_String F l = cid_String F x then add_shards F root xs m
      else add_shards F root xs (m(root \<mapsto> go_slice (m root) @ [x])))"

definition put_shards ::
  "formats \<Rightarrow> cid \<Rightarrow> cid list \<Rightarrow> (cid \<rightharpoonup> cid list) option \<Rightarrow> (cid \<rightharpoonup> cid list)" where
  "put_shards F root newShards shardsByUpload =
     (let m = (case shardsByUpload of
          None \<Rightarrow> Map.empty(root \<mapsto> newShards)
        | Some m \<Rightarrow> add_shards F root newShards m)
      in case m root of None \<Rightarrow> m | Some l \<Rightarrow> m(root \<mapsto> sort l))"

definition upload_Upsert ::
  "formats \<Rightarrow> did \<Rightarrow> cid \<Rightarrow> cid option \<Rightarrow> cid list \<Rightarrow> cid \<Rightarrow> clock \<Rightarrow>
   'z upload_store_scheme \<Rightarrow> 'z upload_store_scheme \<times> unit res" where
  "upload_Upsert F space root index newShards cause clk s =
     (let us = uploads_in s space;
          idx = IndexFunc (\<lambda>r. cid_String F (up_Root r) = cid_String F root) us;
          us' = (case idx of
              None \<Rightarrow> us @ [\<lparr>up_Space = space, up_Root = root, up_Index = index, up_Cause = cause,
                             up_InsertedAt = clk 0, up_UpdatedAt = go_zero_time\<rparr>]
            | Some i \<Rightarrow> us[i := (us ! i)\<lparr>up_UpdatedAt := clk 0, up_Cause := cause,
                                        up_Index := index\<rparr>]);
          s = s\<lparr>uploads := (uploads s)(space \<mapsto> us'),
                shards := (shards s)(space \<mapsto> put_shards F root newShards (shards s space))\<rparr>
      in if idx \<noteq> None then (s, Ok ())
         else recordDelta F space cause 1 UploadAddTotalMetric (clock_after 1 clk) s)"

subsection \<open>What the operations do\<close>

definition root_is :: "formats \<Rightarrow> cid \<Rightarrow> UploadRecord \<Rightarrow> bool" where
  "root_is F root r \<longleftrightarrow> cid_String F (up_Root r) = cid_String F root"

lemma root_is_iff: "formats_ok F \<Longrightarrow> root_is F root = (\<lambda>r. up_Root r = root)"
  by (simp add: root_is_def fun_eq_iff formats_okD(1))

text \<open>The change is fresh in the log of the space: no row has its cause and its instant.\<close>

definition fresh_change :: "'z ledger_scheme \<Rightarrow> did \<Rightarrow> cid \<Rightarrow> time \<Rightarrow> bool" where
  "fresh_change s space cause t \<longleftrightarrow>
     list_all (\<lambda>d. \<not> (Cause d = cause \<and> ReceiptAt d = Instant t)) (uploadDiffStore s space)"

lemma recordDelta_cases:
  obtains (recorded) d where
    "uploaddiff_Put F space cause delta (clk 0) (clk 1) (uploadDiffStore s) = (d, Ok True)"
    "recordDelta F space cause delta metric clk s = (s\<lparr>uploadDiffStore := d,
       spaceMetrics := fst (SpaceStore_IncrementTotals space [(metric, 1)] (spaceMetrics s)),
       adminMetrics := fst (metrics_IncrementTotals [(metric, 1)] (adminMetrics s))\<rparr>, Ok ())"
  | (skipped) "\<not> fresh_change s space cause (clk 0)"
    "recordDelta F space cause delta metric clk s = (s, Ok ())"
proof -
  have inc: "snd (metrics_IncrementTotals [(metric, 1)] (adminMetrics s)) = Ok ()"
    "snd (SpaceStore_IncrementTotals space [(metric, 1)] (spaceMetrics s)) = Ok ()"
    by (simp_all del: metrics_IncrementTotals.simps)
  show thesis
  proof (cases rule: upload_log.put_cases
      [of F space cause delta "clk 0" "clk 1" "uploadDiffStore s"])
    case (recorded d)
    with inc that(1) show thesis
      by (simp add: recordDelta_def Let_def split_beta del: metrics_IncrementTotals.simps)
  next
    case skipped
    then have "\<not> fresh_change s space cause (clk 0)"
      by (auto simp: fresh_change_def uploaddiff_Put_def list_all_iff Let_def split: if_splits)
    with skipped that(2) show thesis
      by (simp add: recordDelta_def)
  qed
qed

lemma snd_recordDelta [simp]: "snd (recordDelta F space cause delta metric clk s) = Ok ()"
  by (cases rule: recordDelta_cases [of F space cause delta clk s metric]) simp_all

lemma recordDelta_keeps [simp]:
  "uploads (fst (recordDelta F space cause delta metric clk s)) = uploads s"
  "shards (fst (recordDelta F space cause delta metric clk s)) = shards s"
  "blobs (fst (recordDelta F space cause delta metric clk s)) = blobs s"
  "spaceDiffStore (fst (recordDelta F space cause delta metric clk s)) = spaceDiffStore s"
  for s :: "'z upload_store_scheme"
  by (cases rule: recordDelta_cases [of F space cause delta clk s metric], simp, simp)+

subsection \<open>Shards\<close>

lemma add_shards_other: "r \<noteq> root \<Longrightarrow> add_shards F root xs m r = m r"
  by (induction xs arbitrary: m) auto

lemma set_add_shards:
  "formats_ok F \<Longrightarrow> set (go_slice (add_shards F root xs m root)) = set (go_slice (m root)) \<union> set xs"
  by (induction xs arbitrary: m) (auto simp: go_slice_def formats_okD(1))

lemma distinct_add_shards:
  "formats_ok F \<Longrightarrow> distinct (go_slice (m root)) \<Longrightarrow> distinct (go_slice (add_shards F root xs m root))"
  by (induction xs arbitrary: m) (auto simp: go_slice_def formats_okD(1))

lemma put_shards_root:
  "go_slice (put_shards F root new old root) =
     sort (case old of None \<Rightarrow> new | Some m \<Rightarrow> go_slice (add_shards F root new m root))"
  by (auto simp: put_shards_def go_slice_def Let_def split: option.split)

lemma put_shards_other:
  "r \<noteq> root \<Longrightarrow> go_slice (put_shards F root new old r) =
     (case old of None \<Rightarrow> [] | Some m \<Rightarrow> go_slice (m r))"
  by (auto simp: put_shards_def go_slice_def Let_def add_shards_other split: option.split)

definition shards_of :: "'z upload_store_scheme \<Rightarrow> did \<Rightarrow> cid \<Rightarrow> cid list" where
  "shards_of s space root = (case shards s space of None \<Rightarrow> [] | Some m \<Rightarrow> go_slice (m root))"

lemma shards_Upsert:
  "shards (fst (upload_Upsert F space root index new cause clk s)) =
     (shards s)(space \<mapsto> put_shards F root new (shards s space))"
  by (simp add: upload_Upsert_def Let_def)

lemma shards_of_Upsert:
  assumes "formats_ok F"
  shows "shards_of (fst (upload_Upsert F space root index new cause clk s)) sp r =
    (if sp = space \<and> r = root
     then sort (case shards s space of None \<Rightarrow> new | Some m \<Rightarrow> go_slice (add_shards F root new m root))
     else shards_of s sp r)"
  by (auto simp: shards_of_def shards_Upsert put_shards_root put_shards_other split: option.split)

lemma set_shards_of_Upsert:
  assumes "formats_ok F"
  shows "set (shards_of (fst (upload_Upsert F space root index new cause clk s)) space root) =
    set (shards_of s space root) \<union> set new"
  using assms
  by (cases "shards s space")
    (simp_all add: shards_of_Upsert shards_of_def [of s] set_add_shards)

subsection \<open>The contract of the upload index\<close>

definition uploaded :: "'z upload_store_scheme \<Rightarrow> did \<Rightarrow> cid \<rightharpoonup> UploadRecord" where
  "uploaded s space root = find (\<lambda>r. up_Root r = root) (uploads_in s space)"

definition roots_distinct :: "'z upload_store_scheme \<Rightarrow> bool" where
  "roots_distinct s \<longleftrightarrow> (\<forall>sp. distinct (map up_Root (uploads_in s sp)))"

definition upserted :: "did \<Rightarrow> cid \<Rightarrow> cid option \<Rightarrow> cid \<Rightarrow> time \<Rightarrow> UploadRecord option \<Rightarrow> UploadRecord" where
  "upserted space root index cause t old = (case old of
      None \<Rightarrow> \<lparr>up_Space = space, up_Root = root, up_Index = index, up_Cause = cause,
        up_InsertedAt = t, up_UpdatedAt = go_zero_time\<rparr>
    | Some r \<Rightarrow> r\<lparr>up_UpdatedAt := t, up_Cause := cause, up_Index := index\<rparr>)"

locale upload_index =
  fixes invar :: "'s \<Rightarrow> bool"
    and held :: "'s \<Rightarrow> did \<Rightarrow> cid \<rightharpoonup> UploadRecord"
    and get :: "'s \<Rightarrow> did \<Rightarrow> cid \<Rightarrow> UploadRecord res"
    and upsert :: "did \<Rightarrow> cid \<Rightarrow> cid option \<Rightarrow> cid list \<Rightarrow> cid \<Rightarrow> clock \<Rightarrow> 's \<Rightarrow> 's \<times> unit res"
    and remove :: "did \<Rightarrow> cid \<Rightarrow> cid \<Rightarrow> clock \<Rightarrow> 's \<Rightarrow> 's \<times> unit res"
  assumes get_held: "invar s \<Longrightarrow> get s sp r = (case held s sp r of None \<Rightarrow> Err ErrUploadNotFound | Some u \<Rightarrow> Ok u)"
    and upsert_ok: "snd (upsert sp r i sh cause clk s) = Ok ()"
    and upsert_held: "invar s \<Longrightarrow> held (fst (upsert sp r i sh cause clk s)) =
      (held s)(sp := (held s sp)(r \<mapsto> upserted sp r i cause (clk 0) (held s sp r)))"
    and remove_missing: "invar s \<Longrightarrow> held s sp r = None \<Longrightarrow>
      remove sp r cause clk s = (s, Err ErrUploadNotFound)"
    and remove_held: "invar s \<Longrightarrow> held s sp r \<noteq> None \<Longrightarrow> snd (remove sp r cause clk s) = Ok () \<and>
      held (fst (remove sp r cause clk s)) = (held s)(sp := (held s sp)(r := None))"
    and upsert_invar: "invar s \<Longrightarrow> invar (fst (upsert sp r i sh cause clk s))"
    and remove_invar: "invar s \<Longrightarrow> invar (fst (remove sp r cause clk s))"
begin

lemma get_after_upsert:
  assumes "invar s"
  shows "get (fst (upsert sp r i sh cause clk s)) sp r =
      Ok (upserted sp r i cause (clk 0) (held s sp r))"
    and "sp' \<noteq> sp \<or> r' \<noteq> r \<Longrightarrow> get (fst (upsert sp r i sh cause clk s)) sp' r' = get s sp' r'"
  using assms upsert_invar [OF assms] by (auto simp: get_held upsert_held)

lemma remove_undoes_upsert:
  assumes "invar s" and "held s sp r = None"
  shows "held (fst (remove sp r cause' clk' (fst (upsert sp r i sh cause clk s)))) = held s"
proof -
  have "held (fst (upsert sp r i sh cause clk s)) sp r \<noteq> None"
    by (simp add: upsert_held assms)
  from remove_held [OF upsert_invar [OF assms(1)] this, of cause' clk'] assms(2) show ?thesis
    by (simp add: upsert_held assms fun_upd_idem)
qed

lemma remove_twice:
  assumes "invar s" and "snd (remove sp r cause clk s) = Ok ()"
  shows "snd (remove sp r cause' clk' (fst (remove sp r cause clk s))) = Err ErrUploadNotFound"
proof -
  have "held s sp r \<noteq> None"
    using assms by (metis remove_missing res.distinct(1) snd_conv)
  with remove_held [OF assms(1)] remove_invar [OF assms(1)] show ?thesis
    by (simp add: remove_missing)
qed

end

lemma uploads_in_recordDelta [simp]:
  "uploads_in (fst (recordDelta F space cause delta metric clk s)) sp = uploads_in s sp"
  for s :: "'z upload_store_scheme"
  by simp

lemma go_slice_simps [simp]: "go_slice None = []" "go_slice (Some l) = l"
  by (simp_all add: go_slice_def)

lemma upload_Upsert_cases:
  assumes "formats_ok F"
  shows "uploads (fst (upload_Upsert F sp root i sh cause clk s)) = (uploads s)(sp \<mapsto>
    (case IndexFunc (\<lambda>r. up_Root r = root) (uploads_in s sp) of
       None \<Rightarrow> uploads_in s sp @ [upserted sp root i cause (clk 0) None]
     | Some n \<Rightarrow> (uploads_in s sp)[n := upserted sp root i cause (clk 0) (Some (uploads_in s sp ! n))]))"
  using assms
  by (simp add: upload_Upsert_def Let_def upserted_def formats_okD(1) split: option.split)

lemma snd_upload_Upsert [simp]: "snd (upload_Upsert F sp root i sh cause clk s) = Ok ()"
  by (simp add: upload_Upsert_def Let_def)

lemma drop_index_filter:
  assumes "distinct (map f xs)" and "IndexFunc (\<lambda>r. f r = k) xs = Some n"
  shows "take n xs @ drop (Suc n) xs = filter (\<lambda>r. f r \<noteq> k) xs"
  using assms
proof (induction xs arbitrary: n)
  case (Cons x xs)
  have "f x \<notin> f ` set xs \<Longrightarrow> filter (\<lambda>r. f r \<noteq> f x) xs = xs"
    by (intro filter_all) (auto simp: image_iff)
  with Cons show ?case
    by (cases n) (auto split: if_splits)
qed simp

lemma upload_Remove_missing:
  "formats_ok F \<Longrightarrow> uploaded s sp root = None \<Longrightarrow>
    upload_Remove F sp root cause clk s = (s, Err ErrUploadNotFound)"
  by (auto simp: upload_Remove_def uploaded_def IndexFunc_find formats_okD(1) split: option.split)

lemma upload_Remove_found:
  assumes "formats_ok F" and "roots_distinct s" and "uploaded s sp root = Some u"
  shows "upload_Remove F sp root cause clk s =
    recordDelta F sp cause (- 1) UploadRemoveTotalMetric clk
      (s\<lparr>uploads := (uploads s)(sp \<mapsto> filter (\<lambda>r. up_Root r \<noteq> root) (uploads_in s sp)),
         shards := (case shards s sp of None \<Rightarrow> shards s | Some m \<Rightarrow> (shards s)(sp \<mapsto> m(root := None)))\<rparr>)"
proof -
  obtain us n where us: "uploads s sp = Some us" "IndexFunc (\<lambda>r. up_Root r = root) us = Some n"
    using assms(3) by (cases "uploads s sp") (auto simp: uploaded_def IndexFunc_find)
  have "distinct (map up_Root us)"
    using assms(2) us(1) unfolding roots_distinct_def by (metis go_slice_simps(2))
  then have "take n us @ drop (Suc n) us = filter (\<lambda>r. up_Root r \<noteq> root) us"
    using us(2) by (rule drop_index_filter)
  with us assms(1) show ?thesis
    by (simp add: upload_Remove_def formats_okD(1) Let_def)
qed

lemma distinct_upsert:
  assumes "distinct (map f xs)" and "f y = k" and "\<And>x. f (g x) = f x"
  shows "distinct (map f (case IndexFunc (\<lambda>r. f r = k) xs of
      None \<Rightarrow> xs @ [y] | Some n \<Rightarrow> xs[n := g (xs ! n)]))"
proof (cases "IndexFunc (\<lambda>r. f r = k) xs")
  case None
  then have "k \<notin> f ` set xs" by (auto simp: IndexFunc_None_iff)
  with None assms show ?thesis by simp
next
  case (Some n)
  then have "map f (xs[n := g (xs ! n)]) = map f xs"
    using IndexFunc_SomeD [OF Some] assms(3) by (simp add: map_update list_update_same_conv)
  with Some assms show ?thesis by simp
qed

lemma roots_distinct_Upsert:
  assumes "formats_ok F" and "roots_distinct s"
  shows "roots_distinct (fst (upload_Upsert F sp root i sh cause clk s))"
proof -
  have "distinct (map up_Root (case IndexFunc (\<lambda>r. up_Root r = root) (uploads_in s sp) of
      None \<Rightarrow> uploads_in s sp @ [upserted sp root i cause (clk 0) None]
    | Some n \<Rightarrow> (uploads_in s sp)[n := upserted sp root i cause (clk 0) (Some (uploads_in s sp ! n))]))"
    using assms(2)
    by (intro distinct_upsert [where g = "\<lambda>u. upserted sp root i cause (clk 0) (Some u)"])
      (auto simp: roots_distinct_def upserted_def)
  with assms show ?thesis
    by (simp add: roots_distinct_def upload_Upsert_cases)
qed

definition upload_invar :: "formats \<Rightarrow> 'z upload_store_scheme \<Rightarrow> bool" where
  "upload_invar F s \<longleftrightarrow> formats_ok F \<and> roots_distinct s"

interpretation upload_map: upload_index "upload_invar F :: 'z upload_store_scheme \<Rightarrow> bool" uploaded
  "upload_Get F" "upload_Upsert F" "upload_Remove F" for F
proof unfold_locales
  fix s :: "'z upload_store_scheme" and sp r i sh cause clk
  show "snd (upload_Upsert F sp r i sh cause clk s) = Ok ()"
    by simp
  assume inv: "upload_invar F s"
  then have F: "formats_ok F" and dist: "roots_distinct s"
    by (simp_all add: upload_invar_def)
  show "upload_Get F s sp r = (case uploaded s sp r of None \<Rightarrow> Err ErrUploadNotFound | Some u \<Rightarrow> Ok u)"
    by (simp add: upload_Get_def uploaded_def formats_okD(1) [OF F] split: option.split)
  show "uploaded (fst (upload_Upsert F sp r i sh cause clk s)) =
      (uploaded s)(sp := (uploaded s sp)(r \<mapsto> upserted sp r i cause (clk 0) (uploaded s sp r)))"
  proof (cases "IndexFunc (\<lambda>u. up_Root u = r) (uploads_in s sp)")
    case None
    then have "find (\<lambda>u. up_Root u = r) (uploads_in s sp) = None"
      by (simp add: IndexFunc_find)
    with None show ?thesis
      by (auto simp: fun_eq_iff uploaded_def upload_Upsert_cases [OF F] find_append upserted_def
          split: option.split)
  next
    case (Some n)
    then have "find (\<lambda>u. up_Root u = r) (uploads_in s sp) = Some (uploads_in s sp ! n)"
      by (simp add: IndexFunc_find)
    moreover have "up_Root (upserted sp r i cause (clk 0) (Some (uploads_in s sp ! n))) = r"
      using IndexFunc_SomeD [OF Some] by (simp add: upserted_def)
    ultimately show ?thesis
      using Some find_update_key [OF Some]
      by (auto simp: fun_eq_iff uploaded_def upload_Upsert_cases [OF F])
  qed
  show "uploaded s sp r = None \<Longrightarrow> upload_Remove F sp r cause clk s = (s, Err ErrUploadNotFound)"
    using F by (rule upload_Remove_missing)
  show "uploaded s sp r \<noteq> None \<Longrightarrow> snd (upload_Remove F sp r cause clk s) = Ok () \<and>
      uploaded (fst (upload_Remove F sp r cause clk s)) = (uploaded s)(sp := (uploaded s sp)(r := None))"
    by (auto simp: upload_Remove_found [OF F dist] uploaded_def fun_eq_iff find_filter_other)
  show "upload_invar F (fst (upload_Upsert F sp r i sh cause clk s))"
    using F dist by (simp add: upload_invar_def roots_distinct_Upsert)
  show "upload_invar F (fst (upload_Remove F sp r cause clk s))"
  proof (cases "uploaded s sp r")
    case None
    with F inv show ?thesis by (simp add: upload_Remove_missing)
  next
    case (Some u)
    with F dist show ?thesis
      by (auto simp: upload_Remove_found [OF F dist] upload_invar_def roots_distinct_def
          intro!: distinct_map_filter)
  qed
qed

subsection \<open>Listing\<close>

lemma seek_resumes:
  assumes "distinct (map key all_items)" and "key_resumes key all_items c p"
  shows "seek key c all_items = Ok (drop p all_items)"
proof (cases c)
  case None
  with assms show ?thesis by (simp add: seek_def)
next
  case (Some k)
  note at = IndexFunc_key_resumes [OF assms(1) assms(2) [unfolded Some]]
  then have "int (p - 1) + 1 = int p" "p \<le> length all_items"
    by linarith+
  with at(1) Some show ?thesis
    by (simp add: seek_def slice_from_def)
qed

lemma last_cursor_eq:
  assumes "xs \<noteq> []"
  shows "last_cursor key xs = Ok \<lparr>page_Cursor = Some (key (last xs)), Results = xs\<rparr>"
proof -
  have "nat (int (length xs) - 1) = length xs - 1" by simp
  with assms show ?thesis
    by (simp add: last_cursor_def slice_at_def last_conv_nth Suc_le_eq)
qed

lemma last_cursor_serves:
  assumes "0 < n" and "p \<le> length all_items"
  shows "\<exists>page m. last_cursor key (take n (drop p all_items)) = Ok page \<and>
    Results page = take m (drop p all_items) \<and>
    (case page_Cursor page of
       None \<Rightarrow> length all_items \<le> p + m
     | Some c' \<Rightarrow> Results page \<noteq> [] \<and> key_resumes key all_items (Some c') (p + length (Results page)))"
proof (cases "p = length all_items")
  case True
  then show ?thesis by (simp add: last_cursor_def)
next
  case False
  let ?xs = "take n (drop p all_items)"
  have ne: "?xs \<noteq> []"
    using False assms by simp
  have "last ?xs = all_items ! (p + length ?xs - 1)"
    using False assms by (simp add: last_conv_nth)
  with ne False assms show ?thesis
    by (auto simp: last_cursor_eq key_resumes_def intro!: exI [of _ n])
qed

type_synonym 'z upload_view = "formats \<times> 'z upload_store_scheme \<times> did \<times> int"

definition upload_list_wf :: "'z upload_view \<Rightarrow> bool" where
  "upload_list_wf = (\<lambda>(F, s, space, limit). upload_invar F s \<and> 0 < limit)"

definition upload_items :: "'z upload_view \<Rightarrow> UploadRecord list" where
  "upload_items = (\<lambda>(F, s, space, limit). uploads_in s space)"

definition upload_page :: "'z upload_view \<Rightarrow> string option \<Rightarrow> UploadRecord Page res" where
  "upload_page = (\<lambda>(F, s, space, limit) c. upload_List F s space
     (upload_WithListLimit limit # cursor_options upload_WithListCursor c))"

definition root_text :: "formats \<Rightarrow> UploadRecord \<Rightarrow> string" where
  "root_text F r = cid_String F (up_Root r)"

interpretation upload_pages: pager "upload_list_wf :: 'z upload_view \<Rightarrow> bool" upload_items upload_page
  "\<lambda>v. key_resumes (root_text (fst v)) (upload_items v)"
proof unfold_locales
  fix v :: "'z upload_view" and c p
  show "upload_list_wf v \<Longrightarrow> key_resumes (root_text (fst v)) (upload_items v) None 0"
    by simp
  assume wf: "upload_list_wf v" and at: "key_resumes (root_text (fst v)) (upload_items v) c p"
    and p: "p \<le> length (upload_items v)"
  obtain F s space limit where v: "v = (F, s, space, limit)" by (cases v)
  have items: "upload_items v = uploads_in s space" "fst v = F"
    using v by (simp_all add: upload_items_def)
  have wf': "upload_invar F s" "0 < limit"
    using wf v by (simp_all add: upload_list_wf_def)
  have dist: "distinct (map (root_text F) (uploads_in s space))"
    using wf'(1) by (auto simp: upload_invar_def roots_distinct_def root_text_def [abs_def]
        distinct_conv_nth formats_okD(1))
  have cfg: "apply_options (upload_WithListLimit limit # cursor_options upload_WithListCursor c)
      \<lparr>Cursor = None, Limit = Some 1000\<rparr> = \<lparr>Cursor = c, Limit = Some limit\<rparr>"
    by (simp add: cursor_options_def upload_WithListLimit_def upload_WithListCursor_def split: option.split)
  have key: "(\<lambda>r. cid_String F (up_Root r)) = root_text F"
    by (simp add: root_text_def fun_eq_iff)
  have "upload_page v c = last_cursor (root_text F) (take (nat limit) (drop p (uploads_in s space)))"
    using seek_resumes [OF dist, of c p] at
    unfolding upload_page_def v prod.case upload_List_def cfg Let_def key
    using wf'(2) p by (auto simp: items [unfolded v] slice_to_def)
  then show "\<exists>page n. upload_page v c = Ok page \<and> Results page = take n (drop p (upload_items v)) \<and>
      (case page_Cursor page of None \<Rightarrow> length (upload_items v) \<le> p + n
       | Some c' \<Rightarrow> Results page \<noteq> [] \<and>
           key_resumes (root_text (fst v)) (upload_items v) (Some c') (p + length (Results page)))"
    unfolding items using wf'(2) p items by (simp only:) (rule last_cursor_serves, simp_all)
qed

type_synonym 'z shard_view = "formats \<times> 'z upload_store_scheme \<times> did \<times> cid \<times> int option"

definition shard_list_wf :: "'z shard_view \<Rightarrow> bool" where
  "shard_list_wf = (\<lambda>(F, s, space, root, limit). formats_ok F \<and> distinct (shards_of s space root) \<and>
     (case limit of None \<Rightarrow> True | Some l \<Rightarrow> 0 < l))"

definition shard_items :: "'z shard_view \<Rightarrow> cid list" where
  "shard_items = (\<lambda>(F, s, space, root, limit). shards_of s space root)"

definition shard_page :: "'z shard_view \<Rightarrow> string option \<Rightarrow> cid Page res" where
  "shard_page = (\<lambda>(F, s, space, root, limit) c. upload_ListShards F s space root
     ((case limit of None \<Rightarrow> [] | Some l \<Rightarrow> [WithListShardsLimit l]) @
      cursor_options WithListShardsCursor c))"

interpretation shard_pages: pager "shard_list_wf :: 'z shard_view \<Rightarrow> bool" shard_items shard_page
  "\<lambda>v. key_resumes (cid_String (fst v)) (shard_items v)"
proof unfold_locales
  fix v :: "'z shard_view" and c p
  show "shard_list_wf v \<Longrightarrow> key_resumes (cid_String (fst v)) (shard_items v) None 0"
    by simp
  assume wf: "shard_list_wf v" and at: "key_resumes (cid_String (fst v)) (shard_items v) c p"
    and p: "p \<le> length (shard_items v)"
  obtain F s space root limit where v: "v = (F, s, space, root, limit)" by (cases v)
  let ?n = "case limit of None \<Rightarrow> Suc (length (shards_of s space root)) | Some l \<Rightarrow> nat l"
  have items: "shard_items v = shards_of s space root" "fst v = F"
    using v by (simp_all add: shard_items_def)
  have n: "0 < ?n"
    using wf v by (simp add: shard_list_wf_def split: option.splits)
  have dist: "distinct (map (cid_String F) (shards_of s space root))"
    using wf v by (auto simp: shard_list_wf_def distinct_map formats_okD(1) intro!: inj_onI)
  have cfg: "apply_options ((case limit of None \<Rightarrow> [] | Some l \<Rightarrow> [WithListShardsLimit l]) @
      cursor_options WithListShardsCursor c) no_options = \<lparr>Cursor = c, Limit = limit\<rparr>"
    by (simp add: cursor_options_def WithListShardsLimit_def WithListShardsCursor_def no_options_def
        split: option.split)
  have lim: "(case limit of Some l \<Rightarrow> if int (length xs) > l then slice_to xs l else Ok xs
      | None \<Rightarrow> Ok xs) = Ok (take ?n xs)" if "length xs \<le> length (shards_of s space root)" for xs
    using that n by (auto simp: slice_to_def split: option.splits)
  have "shard_page v c = last_cursor (cid_String F) (take ?n (drop p (shards_of s space root)))"
  proof (cases "shards s space")
    case None
    then show ?thesis
      by (simp add: shard_page_def v upload_ListShards_def shards_of_def last_cursor_def Let_def)
  next
    case (Some m)
    then have m: "go_slice (m root) = shards_of s space root"
      by (simp add: shards_of_def)
    have "seek (cid_String F) c (shards_of s space root) = Ok (drop p (shards_of s space root))"
      using seek_resumes [OF dist, of c p] at items by simp
    then show ?thesis
      using lim [of "drop p (shards_of s space root)"]
      unfolding shard_page_def v prod.case upload_ListShards_def cfg Let_def Some option.case m
      by simp
  qed
  then show "\<exists>page n. shard_page v c = Ok page \<and> Results page = take n (drop p (shard_items v)) \<and>
      (case page_Cursor page of None \<Rightarrow> length (shard_items v) \<le> p + n
       | Some c' \<Rightarrow> Results page \<noteq> [] \<and>
           key_resumes (cid_String (fst v)) (shard_items v) (Some c') (p + length (Results page)))"
    unfolding items using n p items by (simp only:) (rule last_cursor_serves, simp_all)
qed

subsection \<open>Properties\<close>

definition empty_uploads :: upload_store where
  "empty_uploads = upload_New (blob_New empty_ledger)"

definition sample_uploads :: upload_store where
  "sample_uploads = fst (upload_Upsert sample_formats ''space'' ''r2'' None [''s3''] ''c2'' (\<lambda>n. 9000 + int n)
     (fst (upload_Upsert sample_formats ''space'' ''r1'' None [''s2'', ''s1''] ''c1'' int empty_uploads)))"

lemma sample_uploads_invar: "upload_invar sample_formats sample_uploads"
proof -
  have "upload_invar sample_formats empty_uploads"
    by (simp add: upload_invar_def sample_formats_ok roots_distinct_def empty_uploads_def upload_New_def
        blob_store.extend_def upload_store.fields_def)
  then show ?thesis
    unfolding sample_uploads_def by (intro upload_map.upsert_invar)
qed

text \<open>
Adding an upload always succeeds: \<^verbatim>\<open>Get\<close> then returns it, with the index and cause given
(and, where the root was held, its first insertion time), its shards are the shards held before
together with the new ones, in order of their bytes, and nothing else is touched. Removing a root
the space lacks reports \<^verbatim>\<open>ErrUploadNotFound\<close> and changes nothing.
\<close>

theorem upload_Upsert_spec:
  assumes "upload_invar F s"
  shows "snd (upload_Upsert F sp r i sh cause clk s) = Ok () \<and>
    upload_Get F (fst (upload_Upsert F sp r i sh cause clk s)) sp r =
      Ok (case upload_Get F s sp r of
            Ok u \<Rightarrow> u\<lparr>up_UpdatedAt := clk 0, up_Cause := cause, up_Index := i\<rparr>
          | _ \<Rightarrow> \<lparr>up_Space = sp, up_Root = r, up_Index = i, up_Cause = cause,
               up_InsertedAt = clk 0, up_UpdatedAt = go_zero_time\<rparr>) \<and>
    set (shards_of (fst (upload_Upsert F sp r i sh cause clk s)) sp r) = set (shards_of s sp r) \<union> set sh \<and>
    sorted (shards_of (fst (upload_Upsert F sp r i sh cause clk s)) sp r) \<and>
    (sp' \<noteq> sp \<or> r' \<noteq> r \<longrightarrow>
      upload_Get F (fst (upload_Upsert F sp r i sh cause clk s)) sp' r' = upload_Get F s sp' r' \<and>
      shards_of (fst (upload_Upsert F sp r i sh cause clk s)) sp' r' = shards_of s sp' r') \<and>
    (\<not> is_Ok (upload_Get F s sp r) \<longrightarrow> upload_Remove F sp r cause' clk s = (s, Err ErrUploadNotFound))"
proof -
  have F: "formats_ok F"
    using assms by (simp add: upload_invar_def)
  have get: "upload_Get F s sp r = (case uploaded s sp r of None \<Rightarrow> Err ErrUploadNotFound | Some u \<Rightarrow> Ok u)"
    using assms by (rule upload_map.get_held)
  let ?t = "fst (upload_Upsert F sp r i sh cause clk s)"
  note set_shards_of_Upsert [OF F, of sp r i sh cause clk s]
  moreover have "sorted (shards_of ?t sp r)"
    "sp' \<noteq> sp \<or> r' \<noteq> r \<longrightarrow> shards_of ?t sp' r' = shards_of s sp' r'"
    by (auto simp: shards_of_Upsert [OF F])
  moreover have "sp' \<noteq> sp \<or> r' \<noteq> r \<longrightarrow> upload_Get F ?t sp' r' = upload_Get F s sp' r'"
    using upload_map.get_after_upsert(2) [OF assms] by blast
  ultimately show ?thesis
    using upload_map.get_after_upsert(1) [OF assms, of sp r i sh cause clk]
      upload_map.remove_missing [OF assms]
    by (cases "uploaded s sp r") (simp_all add: get upserted_def)
qed

theorem upload_Upsert_spec_witness:
  "upload_Get sample_formats (fst (upload_Upsert sample_formats ''space'' ''r1'' (Some ''ix'') [''s3'', ''s1'']
      ''c9'' (\<lambda>n. 77) sample_uploads)) ''space'' ''r1'' =
     Ok \<lparr>up_Space = ''space'', up_Root = ''r1'', up_Index = Some ''ix'', up_Cause = ''c9'',
         up_InsertedAt = 0, up_UpdatedAt = 77\<rparr> \<and>
   set (shards_of (fst (upload_Upsert sample_formats ''space'' ''r1'' (Some ''ix'') [''s3'', ''s1'']
      ''c9'' (\<lambda>n. 77) sample_uploads)) ''space'' ''r1'') = {''s1'', ''s2'', ''s3''}"
proof -
  have "upload_Get sample_formats sample_uploads ''space'' ''r1'' = Ok \<lparr>up_Space = ''space'',
      up_Root = ''r1'', up_Index = None, up_Cause = ''c1'', up_InsertedAt = 0, up_UpdatedAt = go_zero_time\<rparr>"
    "shards_of sample_uploads ''space'' ''r1'' = [''s1'', ''s2'']"
    by code_simp+
  with upload_Upsert_spec [OF sample_uploads_invar, where sp = "''space''" and r = "''r1''" and i = "Some ''ix''"
      and sh = "[''s3'', ''s1'']" and cause = "''c9''" and clk = "\<lambda>n. 77"]
  show ?thesis by auto
qed

text \<open>
Reading the uploads of a space, or the shards of an upload, to the end returns and gives
each of them once, in order, at every positive page size; for the shards the stored slice must hold
no duplicate.
\<close>

theorem upload_List_complete:
  assumes "upload_invar F s" and "0 < limit" and "distinct (shards_of s space root)"
  shows "store_Collect (\<lambda>cfg. upload_List F s space
      (upload_WithListLimit limit # cursor_options upload_WithListCursor (Cursor cfg))) =
        Some (Ok (uploads_in s space)) \<and>
    store_Collect (\<lambda>cfg. upload_ListShards F s space root
      (WithListShardsLimit limit # cursor_options WithListShardsCursor (Cursor cfg))) =
        Some (Ok (shards_of s space root))"
  using upload_pages.collect_items [of "(F, s, space, limit)"]
    shard_pages.collect_items [of "(F, s, space, root, Some limit)"] assms
  by (simp add: upload_list_wf_def shard_list_wf_def upload_page_def shard_page_def upload_items_def
      shard_items_def upload_invar_def)

theorem upload_List_complete_witness:
  "store_Collect (\<lambda>cfg. upload_ListShards sample_formats sample_uploads ''space'' ''r1''
      (WithListShardsLimit 1 # cursor_options WithListShardsCursor (Cursor cfg))) =
    Some (Ok [''s1'', ''s2''])"
proof -
  have "shards_of sample_uploads ''space'' ''r1'' = [''s1'', ''s2'']"
    by code_simp
  with upload_List_complete [OF sample_uploads_invar, of 1 "''space''" "''r1''"] show ?thesis
    by simp
qed

end
