(* ===== verification/Agent_Store.thy ===== *)
theory Agent_Store
  imports Ucan Upload_Store
begin

section \<open>The agent message store\<close>

text \<open>
  \<^verbatim>\<open>pkg/store/agent\<close> with its in-memory backend: the messages (containers) the service wrote, and an
  index from a task to the messages that hold its invocation or its receipt. A message is stored
  under the CID of its encoding. The index keys \<^verbatim>\<open>/<task>/invocation/\<close> and \<^verbatim>\<open>/<task>/receipt/\<close> are
  pairs of the task's text and a tag here; the text form of a CID holds no slash.
\<close>

datatype index_kind = InvocationKey | ReceiptKey

record agent_store =
  messages :: "cid \<rightharpoonup> container"
  msg_index :: "string \<times> index_kind \<Rightarrow> cid list"

text \<open>An entry of the index: a task with its invocation, or a task with its receipt.\<close>

datatype IndexEntry = InvocationSource cid token | ReceiptSource cid receipt

definition ErrInvocationNotFound :: gerr where
  "ErrInvocationNotFound = Named ''InvocationNotFound'' ''invocation not found''"

definition ErrReceiptNotFound :: gerr where
  "ErrReceiptNotFound = Named ''ReceiptNotFound'' ''receipt not found''"

definition agent_WithListLimit :: "int \<Rightarrow> ListOption" where
  "agent_WithListLimit limit cfg = cfg\<lparr>Limit := Some limit\<rparr>"

definition agent_WithListCursor :: "string \<Rightarrow> ListOption" where
  "agent_WithListCursor cursor cfg = cfg\<lparr>Cursor := Some cursor\<rparr>"

definition agent_Index :: "container \<Rightarrow> IndexEntry list" where
  "agent_Index message =
     map (\<lambda>iv. InvocationSource (tok_Task iv) iv) (Invocations message) @
     map (\<lambda>rcpt. ReceiptSource (rcpt_Ran rcpt) rcpt) (Receipts message)"

definition agent_New :: agent_store where
  "agent_New = \<lparr>messages = Map.empty, msg_index = (\<lambda>_. [])\<rparr>"

text \<open>A missing message reads as the nil container, whose methods panic.\<close>

definition agent_invocation :: "formats \<Rightarrow> agent_store \<Rightarrow> cid \<Rightarrow> token option res" where
  "agent_invocation F s task =
     (case msg_index s (cid_String F task, InvocationKey) of
        [] \<Rightarrow> Ok None
      | l # _ \<Rightarrow>
          (case messages s l of
             None \<Rightarrow> Panic
           | Some ct \<Rightarrow> Ok (find (\<lambda>iv. tok_Task iv = task) (Invocations ct))))"

definition GetInvocation :: "formats \<Rightarrow> agent_store \<Rightarrow> cid \<Rightarrow> token res" where
  "GetInvocation F s task =
     (case agent_invocation F s task of
        Err e \<Rightarrow> Err e
      | Panic \<Rightarrow> Panic
      | Ok None \<Rightarrow> Err ErrInvocationNotFound
      | Ok (Some iv) \<Rightarrow> Ok iv)"

fun GetInvocations_loop ::
  "formats \<Rightarrow> agent_store \<Rightarrow> cid list \<Rightarrow> (cid \<rightharpoonup> token) \<Rightarrow> (cid \<rightharpoonup> token) res" where
  "GetInvocations_loop F s [] found = Ok found"
| "GetInvocations_loop F s (task # tasks) found =
     (if found task \<noteq> None then GetInvocations_loop F s tasks found
      else
        (case agent_invocation F s task of
           Err e \<Rightarrow> Err e
         | Panic \<Rightarrow> Panic
         | Ok None \<Rightarrow> GetInvocations_loop F s tasks found
         | Ok (Some iv) \<Rightarrow> GetInvocations_loop F s tasks (found(task \<mapsto> iv))))"

definition GetInvocations :: "formats \<Rightarrow> agent_store \<Rightarrow> cid list \<Rightarrow> (cid \<rightharpoonup> token) res" where
  "GetInvocations F s tasks = GetInvocations_loop F s tasks Map.empty"

definition GetReceipt :: "formats \<Rightarrow> ucan_lib \<Rightarrow> agent_store \<Rightarrow> cid \<Rightarrow> receipt res" where
  "GetReceipt F U s task =
     (case msg_index s (cid_String F task, ReceiptKey) of
        [] \<Rightarrow> Err ErrReceiptNotFound
      | l # _ \<Rightarrow>
          (case messages s l of
             None \<Rightarrow> Panic
           | Some ct \<Rightarrow>
               (case container_Receipt U ct task of
                  None \<Rightarrow> Err ErrReceiptNotFound
                | Some rcpt \<Rightarrow> Ok rcpt)))"

fun index_add :: "formats \<Rightarrow> cid \<Rightarrow> IndexEntry \<Rightarrow> (string \<times> index_kind \<Rightarrow> cid list) \<Rightarrow>
    (string \<times> index_kind \<Rightarrow> cid list)" where
  "index_add F at (InvocationSource task iv) idx =
     idx((cid_String F task, InvocationKey) := idx (cid_String F task, InvocationKey) @ [at])"
| "index_add F at (ReceiptSource task rcpt) idx =
     idx((cid_String F task, ReceiptKey) := idx (cid_String F task, ReceiptKey) @ [at])"

text \<open>Every message the service writes is the library's own container, so \<^verbatim>\<open>Write\<close> encodes it as it is
  rather than rebuilding it first.\<close>

definition agent_Write ::
  "formats \<Rightarrow> ucan_lib \<Rightarrow> container \<Rightarrow> IndexEntry list \<Rightarrow> agent_store \<Rightarrow> agent_store \<times> unit res" where
  "agent_Write F U message index s =
     (case container_MarshalCBOR U message of
        Err e \<Rightarrow> (s, Err (Wrap ''marshaling agent message to CBOR'' e))
      | Panic \<Rightarrow> (s, Panic)
      | Ok buf \<Rightarrow>
          (case cid_Sum U buf of
             Err e \<Rightarrow> (s, Err (Wrap ''hashing agent message'' e))
           | Panic \<Rightarrow> (s, Panic)
           | Ok at \<Rightarrow>
               (s\<lparr>messages := (messages s)(at \<mapsto> message),
                  msg_index := fold (index_add F at) index (msg_index s)\<rparr>, Ok ())))"

definition agent_List ::
  "formats \<Rightarrow> agent_store \<Rightarrow> cid \<Rightarrow> ListOption list \<Rightarrow> container option Page res" where
  "agent_List F s task options =
     (let cfg = apply_options options no_options;
          msgLinks = sort (msg_index s (cid_String F task, InvocationKey) @
                           msg_index s (cid_String F task, ReceiptKey));
          seeked = (case Cursor cfg of
              None \<Rightarrow> Ok msgLinks
            | Some cur \<Rightarrow>
                (case IndexFunc (\<lambda>c. cid_String F c = cur) msgLinks of
                   None \<Rightarrow> Err (Errorf ''invalid cursor'')
                 | Some i \<Rightarrow> slice_from msgLinks (int i + 1)))
      in case seeked of
           Err e \<Rightarrow> Err e
         | Panic \<Rightarrow> Panic
         | Ok resultLinks \<Rightarrow>
             (case (case Limit cfg of
                      Some l \<Rightarrow> (if int (length resultLinks) > l then slice_to resultLinks l else Ok resultLinks)
                    | None \<Rightarrow> Ok resultLinks) of
                Err e \<Rightarrow> Err e
              | Panic \<Rightarrow> Panic
              | Ok resultLinks \<Rightarrow>
                  Ok \<lparr>page_Cursor =
                        (if length resultLinks > 0 \<and> last resultLinks \<noteq> last msgLinks
                         then Some (cid_String F (last resultLinks)) else None),
                      Results = map (messages s) resultLinks\<rparr>))"

subsection \<open>What the index holds\<close>

fun entry_key :: "formats \<Rightarrow> IndexEntry \<Rightarrow> string \<times> index_kind" where
  "entry_key F (InvocationSource task iv) = (cid_String F task, InvocationKey)"
| "entry_key F (ReceiptSource task rcpt) = (cid_String F task, ReceiptKey)"

lemma fold_index_add:
  "fold (index_add F at) es idx k = idx k @ map (\<lambda>_. at) (filter (\<lambda>e. entry_key F e = k) es)"
proof (induction es arbitrary: idx)
  case (Cons e es)
  show ?case
    by (cases e) (auto simp: Cons)
qed simp

lemma entries_Index:
  assumes "formats_ok F"
  shows "filter (\<lambda>e. entry_key F e = (cid_String F t, InvocationKey)) (agent_Index m) =
      map (\<lambda>iv. InvocationSource (tok_Task iv) iv) (filter (\<lambda>iv. tok_Task iv = t) (Invocations m))"
    and "filter (\<lambda>e. entry_key F e = (cid_String F t, ReceiptKey)) (agent_Index m) =
      map (\<lambda>r. ReceiptSource (rcpt_Ran r) r) (filter (\<lambda>r. rcpt_Ran r = t) (Receipts m))"
  by (simp_all add: agent_Index_def filter_map o_def formats_okD(1) [OF assms])

text \<open>Every message an index entry names is stored, and holds what the entry says.\<close>

definition agent_ok :: "formats \<Rightarrow> agent_store \<Rightarrow> bool" where
  "agent_ok F s \<longleftrightarrow> (\<forall>t.
     (\<forall>l \<in> set (msg_index s (cid_String F t, InvocationKey)).
        \<exists>ct. messages s l = Some ct \<and> (\<exists>iv \<in> set (Invocations ct). tok_Task iv = t)) \<and>
     (\<forall>l \<in> set (msg_index s (cid_String F t, ReceiptKey)).
        \<exists>ct. messages s l = Some ct \<and> (\<exists>r \<in> set (Receipts ct). rcpt_Ran r = t)))"

definition invocation_of :: "formats \<Rightarrow> agent_store \<Rightarrow> cid \<rightharpoonup> token" where
  "invocation_of F s t = (case agent_invocation F s t of Ok x \<Rightarrow> x | _ \<Rightarrow> None)"

definition receipt_of :: "formats \<Rightarrow> ucan_lib \<Rightarrow> agent_store \<Rightarrow> cid \<rightharpoonup> receipt" where
  "receipt_of F U s t = (case GetReceipt F U s t of Ok x \<Rightarrow> Some x | _ \<Rightarrow> None)"

text \<open>Encoding and hashing the message succeed, and content addressing holds: a message already stored
  under the CID is this message.\<close>

definition writable :: "ucan_lib \<Rightarrow> agent_store \<Rightarrow> container \<Rightarrow> bool" where
  "writable U s m \<longleftrightarrow> (case container_MarshalCBOR U m of
      Ok buf \<Rightarrow> (case cid_Sum U buf of
          Ok l \<Rightarrow> (case messages s l of None \<Rightarrow> True | Some ct \<Rightarrow> ct = m)
        | _ \<Rightarrow> False)
    | _ \<Rightarrow> False)"

lemma agent_Write_eq:
  assumes "writable U s m"
  obtains l where "agent_Write F U m index s = (s\<lparr>messages := (messages s)(l \<mapsto> m),
      msg_index := fold (index_add F l) index (msg_index s)\<rparr>, Ok ())"
    and "messages s l = None \<or> messages s l = Some m"
  using assms by (auto simp: writable_def agent_Write_def split: res.splits option.splits)

lemma agent_okD:
  assumes "agent_ok F s"
  shows "l \<in> set (msg_index s (cid_String F t, InvocationKey)) \<Longrightarrow>
      \<exists>ct. messages s l = Some ct \<and> (\<exists>iv \<in> set (Invocations ct). tok_Task iv = t)"
    and "l \<in> set (msg_index s (cid_String F t, ReceiptKey)) \<Longrightarrow>
      \<exists>ct. messages s l = Some ct \<and> (\<exists>r \<in> set (Receipts ct). rcpt_Ran r = t)"
  using assms unfolding agent_ok_def by blast+

lemma agent_ok_invocation:
  assumes "agent_ok F s"
  shows "agent_invocation F s t = Ok (invocation_of F s t)"
    and "invocation_of F s t = None \<longleftrightarrow> msg_index s (cid_String F t, InvocationKey) = []"
proof -
  have "\<exists>ct. messages s l = Some ct \<and> find (\<lambda>iv. tok_Task iv = t) (Invocations ct) \<noteq> None"
    if "msg_index s (cid_String F t, InvocationKey) = l # ls" for l ls
    using assms that unfolding agent_ok_def find_None_iff by fastforce
  then show "agent_invocation F s t = Ok (invocation_of F s t)"
    "invocation_of F s t = None \<longleftrightarrow> msg_index s (cid_String F t, InvocationKey) = []"
    by (cases "msg_index s (cid_String F t, InvocationKey)";
        fastforce simp: agent_invocation_def invocation_of_def)+
qed

lemma GetInvocation_eq:
  "agent_ok F s \<Longrightarrow> GetInvocation F s t =
     (case invocation_of F s t of None \<Rightarrow> Err ErrInvocationNotFound | Some iv \<Rightarrow> Ok iv)"
  by (simp add: GetInvocation_def agent_ok_invocation(1) split: option.split)

lemma container_Receipt_cases:
  assumes "ucan_lib_ok U"
  shows "container_Receipt U ct t = Some r \<Longrightarrow> r \<in> set (Receipts ct) \<and> rcpt_Ran r = t"
    and "r \<in> set (Receipts ct) \<Longrightarrow> rcpt_Ran r = t \<Longrightarrow> container_Receipt U ct t \<noteq> None"
proof -
  have "case container_Receipt U ct t of
      Some r \<Rightarrow> r \<in> set (Receipts ct) \<and> rcpt_Ran r = t
    | None \<Rightarrow> \<forall>r \<in> set (Receipts ct). rcpt_Ran r \<noteq> t"
    using assms unfolding ucan_lib_ok_def by blast
  then show "container_Receipt U ct t = Some r \<Longrightarrow> r \<in> set (Receipts ct) \<and> rcpt_Ran r = t"
    "r \<in> set (Receipts ct) \<Longrightarrow> rcpt_Ran r = t \<Longrightarrow> container_Receipt U ct t \<noteq> None"
    by (auto split: option.splits)
qed

lemma GetReceipt_eq:
  assumes "agent_ok F s" and "ucan_lib_ok U"
  shows "GetReceipt F U s t = (case receipt_of F U s t of None \<Rightarrow> Err ErrReceiptNotFound | Some r \<Rightarrow> Ok r)"
    and "receipt_of F U s t = None \<longleftrightarrow> msg_index s (cid_String F t, ReceiptKey) = []"
proof -
  have "GetReceipt F U s t = (case receipt_of F U s t of None \<Rightarrow> Err ErrReceiptNotFound | Some r \<Rightarrow> Ok r) \<and>
    (receipt_of F U s t = None \<longleftrightarrow> msg_index s (cid_String F t, ReceiptKey) = [])"
  proof (cases "msg_index s (cid_String F t, ReceiptKey)")
    case Nil
    then show ?thesis by (simp add: receipt_of_def GetReceipt_def)
  next
    case (Cons l ls)
    then obtain ct r where ct: "messages s l = Some ct" "r \<in> set (Receipts ct)" "rcpt_Ran r = t"
      using agent_okD(2) [OF assms(1), of l t] by auto
    with container_Receipt_cases(2) [OF assms(2)] obtain r' where "container_Receipt U ct t = Some r'"
      by blast
    with ct Cons show ?thesis by (simp add: receipt_of_def GetReceipt_def)
  qed
  then show "GetReceipt F U s t = (case receipt_of F U s t of None \<Rightarrow> Err ErrReceiptNotFound | Some r \<Rightarrow> Ok r)"
    "receipt_of F U s t = None \<longleftrightarrow> msg_index s (cid_String F t, ReceiptKey) = []" by simp_all
qed

subsection \<open>The contract of the message store\<close>

locale message_store =
  fixes invar :: "'s \<Rightarrow> bool"
    and inv_at :: "'s \<Rightarrow> cid \<rightharpoonup> token" and rcpt_at :: "'s \<Rightarrow> cid \<rightharpoonup> receipt"
    and admits :: "'s \<Rightarrow> container \<Rightarrow> bool"
    and put :: "container \<Rightarrow> 's \<Rightarrow> 's \<times> unit res"
  assumes write_ok: "invar s \<Longrightarrow> admits s m \<Longrightarrow> snd (put m s) = Ok () \<and> invar (fst (put m s))"
    and inv_kept: "invar s \<Longrightarrow> admits s m \<Longrightarrow> inv_at s t = Some x \<Longrightarrow> inv_at (fst (put m s)) t = Some x"
    and rcpt_kept: "invar s \<Longrightarrow> admits s m \<Longrightarrow> rcpt_at s t = Some y \<Longrightarrow> rcpt_at (fst (put m s)) t = Some y"
    and inv_new: "invar s \<Longrightarrow> admits s m \<Longrightarrow> inv_at s t = None \<Longrightarrow>
      (case inv_at (fst (put m s)) t of
         Some x \<Rightarrow> x \<in> set (Invocations m) \<and> tok_Task x = t
       | None \<Rightarrow> \<forall>x \<in> set (Invocations m). tok_Task x \<noteq> t)"
    and rcpt_new: "invar s \<Longrightarrow> admits s m \<Longrightarrow> rcpt_at s t = None \<Longrightarrow>
      (case rcpt_at (fst (put m s)) t of
         Some y \<Rightarrow> y \<in> set (Receipts m) \<and> rcpt_Ran y = t
       | None \<Rightarrow> \<forall>y \<in> set (Receipts m). rcpt_Ran y \<noteq> t)"
begin

lemma inv_written:
  assumes "invar s" and "admits s m" and "x \<in> set (Invocations m)"
  shows "\<exists>x'. inv_at (fst (put m s)) (tok_Task x) = Some x'"
  using inv_kept [OF assms(1,2), of "tok_Task x"] inv_new [OF assms(1,2), of "tok_Task x"] assms(3)
  by (cases "inv_at s (tok_Task x)") (auto split: option.splits)

lemma rcpt_written:
  assumes "invar s" and "admits s m" and "y \<in> set (Receipts m)"
  shows "\<exists>y'. rcpt_at (fst (put m s)) (rcpt_Ran y) = Some y'"
  using rcpt_kept [OF assms(1,2), of "rcpt_Ran y"] rcpt_new [OF assms(1,2), of "rcpt_Ran y"] assms(3)
  by (cases "rcpt_at s (rcpt_Ran y)") (auto split: option.splits)

lemma inv_untouched:
  assumes "invar s" and "admits s m" and "\<forall>x \<in> set (Invocations m). tok_Task x \<noteq> t"
  shows "inv_at (fst (put m s)) t = inv_at s t"
  using inv_kept [OF assms(1,2), of t] inv_new [OF assms(1,2), of t] assms(3)
  by (cases "inv_at s t") (auto split: option.splits)

end

definition agent_invar :: "formats \<Rightarrow> ucan_lib \<Rightarrow> agent_store \<Rightarrow> bool" where
  "agent_invar F U s \<longleftrightarrow> formats_ok F \<and> ucan_lib_ok U \<and> agent_ok F s"

definition agent_put :: "formats \<Rightarrow> ucan_lib \<Rightarrow> container \<Rightarrow> agent_store \<Rightarrow> agent_store \<times> unit res" where
  "agent_put F U m s = agent_Write F U m (agent_Index m) s"

text \<open>How a write moves what the index gives for a task.\<close>

lemma agent_put_index:
  assumes "formats_ok F" and "agent_put F U m s = (s\<lparr>messages := (messages s)(l \<mapsto> m),
      msg_index := fold (index_add F l) (agent_Index m) (msg_index s)\<rparr>, Ok ())"
  shows "msg_index (fst (agent_put F U m s)) (cid_String F t, InvocationKey) =
      msg_index s (cid_String F t, InvocationKey) @ map (\<lambda>_. l) (filter (\<lambda>iv. tok_Task iv = t) (Invocations m))"
    and "msg_index (fst (agent_put F U m s)) (cid_String F t, ReceiptKey) =
      msg_index s (cid_String F t, ReceiptKey) @ map (\<lambda>_. l) (filter (\<lambda>r. rcpt_Ran r = t) (Receipts m))"
  by (simp_all add: assms(2) fold_index_add entries_Index [OF assms(1)] o_def)

lemma agent_put_ok:
  assumes inv: "agent_invar F U s" and "writable U s m"
  shows "snd (agent_put F U m s) = Ok ()" and "agent_invar F U (fst (agent_put F U m s))"
proof -
  from agent_Write_eq [OF assms(2), of F "agent_Index m"] obtain l where
    put: "agent_put F U m s = (s\<lparr>messages := (messages s)(l \<mapsto> m),
      msg_index := fold (index_add F l) (agent_Index m) (msg_index s)\<rparr>, Ok ())"
    and l: "messages s l = None \<or> messages s l = Some m"
    unfolding agent_put_def by blast
  show "snd (agent_put F U m s) = Ok ()"
    by (simp add: put)
  have F: "formats_ok F" and ok: "agent_ok F s"
    using inv by (simp_all add: agent_invar_def)
  have kept: "messages s l' = Some ct \<Longrightarrow> messages (fst (agent_put F U m s)) l' = Some ct" for l' ct
    using l by (auto simp: put)
  have new: "messages (fst (agent_put F U m s)) l = Some m"
    by (simp add: put)
  have "agent_ok F (fst (agent_put F U m s))"
    using ok kept new unfolding agent_ok_def agent_put_index [OF F put]
    by (fastforce simp: filter_empty_conv)
  then show "agent_invar F U (fst (agent_put F U m s))"
    using inv by (simp add: agent_invar_def)
qed

lemma invocation_of_put:
  assumes inv: "agent_invar F U s" and "writable U s m"
  shows "invocation_of F (fst (agent_put F U m s)) t =
    (case invocation_of F s t of
       Some x \<Rightarrow> Some x
     | None \<Rightarrow> find (\<lambda>iv. tok_Task iv = t) (Invocations m))"
proof -
  from agent_Write_eq [OF assms(2), of F "agent_Index m"] obtain l where
    put: "agent_put F U m s = (s\<lparr>messages := (messages s)(l \<mapsto> m),
      msg_index := fold (index_add F l) (agent_Index m) (msg_index s)\<rparr>, Ok ())"
    and l: "messages s l = None \<or> messages s l = Some m"
    unfolding agent_put_def by blast
  have F: "formats_ok F" and ok: "agent_ok F s"
    using inv by (simp_all add: agent_invar_def)
  note idx = agent_put_index(1) [OF F put, of t]
  have msgs: "messages (fst (agent_put F U m s)) = (messages s)(l \<mapsto> m)"
    by (simp add: put)
  show ?thesis
  proof (cases "msg_index s (cid_String F t, InvocationKey)")
    case Nil
    then have "invocation_of F s t = None"
      using agent_ok_invocation(2) [OF ok, of t] by simp
    with Nil show ?thesis
      by (cases "filter (\<lambda>iv. tok_Task iv = t) (Invocations m)")
        (auto simp: invocation_of_def agent_invocation_def idx msgs find_None_iff find_None_iff2 filter_empty_conv)
  next
    case (Cons l' ls)
    then obtain ct where ct: "messages s l' = Some ct"
      using agent_okD [OF ok, of l' t] by auto
    with l have "((messages s)(l \<mapsto> m)) l' = Some ct"
      by auto
    with Cons ct have "invocation_of F (fst (agent_put F U m s)) t = invocation_of F s t"
      by (simp add: invocation_of_def agent_invocation_def idx msgs)
    moreover have "invocation_of F s t \<noteq> None"
      using Cons agent_ok_invocation(2) [OF ok, of t] by simp
    ultimately show ?thesis by auto
  qed
qed

lemma receipt_of_put:
  assumes inv: "agent_invar F U s" and "writable U s m"
  shows "receipt_of F U (fst (agent_put F U m s)) t =
    (case receipt_of F U s t of
       Some y \<Rightarrow> Some y
     | None \<Rightarrow> container_Receipt U m t)"
proof -
  from agent_Write_eq [OF assms(2), of F "agent_Index m"] obtain l where
    put: "agent_put F U m s = (s\<lparr>messages := (messages s)(l \<mapsto> m),
      msg_index := fold (index_add F l) (agent_Index m) (msg_index s)\<rparr>, Ok ())"
    and l: "messages s l = None \<or> messages s l = Some m"
    unfolding agent_put_def by blast
  have F: "formats_ok F" and ok: "agent_ok F s" and U: "ucan_lib_ok U"
    using inv by (simp_all add: agent_invar_def)
  note idx = agent_put_index(2) [OF F put, of t]
  have msgs: "messages (fst (agent_put F U m s)) = (messages s)(l \<mapsto> m)"
    by (simp add: put)
  show ?thesis
  proof (cases "msg_index s (cid_String F t, ReceiptKey)")
    case Nil
    then have none: "receipt_of F U s t = None"
      using GetReceipt_eq(2) [OF ok U, of t] by simp
    have "filter (\<lambda>r. rcpt_Ran r = t) (Receipts m) = [] \<Longrightarrow> container_Receipt U m t = None"
      using container_Receipt_cases(1) [OF U] by (cases "container_Receipt U m t") (auto simp: filter_empty_conv)
    with Nil none show ?thesis
      by (cases "filter (\<lambda>r. rcpt_Ran r = t) (Receipts m)")
        (auto simp: receipt_of_def GetReceipt_def idx msgs split: option.split)
  next
    case (Cons l' ls)
    then obtain ct where ct: "messages s l' = Some ct"
      using agent_okD [OF ok, of l' t] by auto
    with l have "((messages s)(l \<mapsto> m)) l' = Some ct"
      by auto
    with Cons ct have "receipt_of F U (fst (agent_put F U m s)) t = receipt_of F U s t"
      by (simp add: receipt_of_def GetReceipt_def idx msgs)
    moreover have "receipt_of F U s t \<noteq> None"
      using Cons GetReceipt_eq(2) [OF ok U, of t] by simp
    ultimately show ?thesis by auto
  qed
qed

interpretation agent_messages: message_store "agent_invar F U" "invocation_of F" "receipt_of F U" "writable U"
  "agent_put F U" for F U
proof unfold_locales
  fix s m t x y
  assume a: "agent_invar F U s" "writable U s m"
  show "snd (agent_put F U m s) = Ok () \<and> agent_invar F U (fst (agent_put F U m s))"
    using agent_put_ok [OF a] by simp
  show "invocation_of F s t = Some x \<Longrightarrow> invocation_of F (fst (agent_put F U m s)) t = Some x"
    by (simp add: invocation_of_put [OF a])
  show "receipt_of F U s t = Some y \<Longrightarrow> receipt_of F U (fst (agent_put F U m s)) t = Some y"
    by (simp add: receipt_of_put [OF a])
  show "invocation_of F s t = None \<Longrightarrow> case invocation_of F (fst (agent_put F U m s)) t of
      Some x \<Rightarrow> x \<in> set (Invocations m) \<and> tok_Task x = t | None \<Rightarrow> \<forall>x \<in> set (Invocations m). tok_Task x \<noteq> t"
    by (auto simp: invocation_of_put [OF a] find_None_iff split: option.split dest: find_SomeD)
  have U: "ucan_lib_ok U" using a by (simp add: agent_invar_def)
  show "receipt_of F U s t = None \<Longrightarrow> case receipt_of F U (fst (agent_put F U m s)) t of
      Some y \<Rightarrow> y \<in> set (Receipts m) \<and> rcpt_Ran y = t | None \<Rightarrow> \<forall>y \<in> set (Receipts m). rcpt_Ran y \<noteq> t"
    by (simp add: receipt_of_put [OF a] split: option.split)
      (blast dest: container_Receipt_cases [OF U])
qed


text \<open>A run of writes of containers that carry the service's own index entries.\<close>

fun agent_puts :: "formats \<Rightarrow> ucan_lib \<Rightarrow> container list \<Rightarrow> agent_store \<Rightarrow> agent_store" where
  "agent_puts F U [] s = s"
| "agent_puts F U (m # ms) s = agent_puts F U ms (fst (agent_put F U m s))"

fun all_writable :: "formats \<Rightarrow> ucan_lib \<Rightarrow> container list \<Rightarrow> agent_store \<Rightarrow> bool" where
  "all_writable F U [] s = True"
| "all_writable F U (m # ms) s = (writable U s m \<and> all_writable F U ms (fst (agent_put F U m s)))"

lemma agent_invar_New: "formats_ok F \<Longrightarrow> ucan_lib_ok U \<Longrightarrow> agent_invar F U agent_New"
  by (simp add: agent_invar_def agent_ok_def agent_New_def)

lemma agent_puts_invar:
  "agent_invar F U s \<Longrightarrow> all_writable F U ms s \<Longrightarrow> agent_invar F U (agent_puts F U ms s)"
  by (induction ms arbitrary: s) (auto simp: agent_put_ok)

lemma invocation_of_puts:
  assumes "agent_invar F U s" and "all_writable F U ms s"
  shows "invocation_of F (agent_puts F U ms s) t =
    (case invocation_of F s t of
       Some x \<Rightarrow> Some x
     | None \<Rightarrow> find (\<lambda>iv. tok_Task iv = t) (concat (map Invocations ms)))"
  using assms
proof (induction ms arbitrary: s)
  case (Cons m ms)
  have app: "find P (xs @ ys) = (case find P xs of None \<Rightarrow> find P ys | Some x \<Rightarrow> Some x)" for P and xs ys :: "token list"
    by (induction xs) auto
  from Cons.prems have p: "agent_invar F U s" "writable U s m" and
    q: "agent_invar F U (fst (agent_put F U m s))" "all_writable F U ms (fst (agent_put F U m s))"
    by (auto simp: agent_put_ok)
  show ?case
    by (simp add: Cons.IH [OF q] invocation_of_put [OF p] app split: option.split)
qed (simp split: option.split)

lemma receipt_of_puts:
  assumes "agent_invar F U s" and "all_writable F U ms s"
  shows "case receipt_of F U (agent_puts F U ms s) t of
      None \<Rightarrow> receipt_of F U s t = None \<and> (\<forall>m \<in> set ms. \<forall>r \<in> set (Receipts m). rcpt_Ran r \<noteq> t)
    | Some y \<Rightarrow> receipt_of F U s t = Some y \<or>
        (receipt_of F U s t = None \<and> (\<exists>m \<in> set ms. y \<in> set (Receipts m) \<and> rcpt_Ran y = t))"
  using assms
proof (induction ms arbitrary: s)
  case (Cons m ms)
  from Cons.prems have p: "agent_invar F U s" "writable U s m" and
    q: "agent_invar F U (fst (agent_put F U m s))" "all_writable F U ms (fst (agent_put F U m s))"
    by (auto simp: agent_put_ok)
  have U: "ucan_lib_ok U" using p by (simp add: agent_invar_def)
  show ?case
    using Cons.IH [OF q] container_Receipt_cases(1) [OF U, of m t] container_Receipt_cases(2) [OF U, of _ m t]
    unfolding receipt_of_put [OF p] by (auto split: option.splits)
qed (simp split: option.split)

text \<open>
After any sequence of writes to a fresh message store, each message indexed by its own
invocations and receipts, GetInvocation of a task returns the invocation of that task that was
written first, and fails with ErrInvocationNotFound exactly when no written message holds one;
GetReceipt returns a written receipt of the task, and fails with ErrReceiptNotFound exactly when
there is none. The hypotheses are that CIDs have distinct text forms, that a container returns the
receipt of a task it holds, and that no two messages written share a content address.
\<close>

theorem agent_store_retrieval:
  assumes "formats_ok F" and "ucan_lib_ok U" and "all_writable F U ms agent_New"
  shows "GetInvocation F (agent_puts F U ms agent_New) t =
      (case find (\<lambda>iv. tok_Task iv = t) (concat (map Invocations ms)) of
         Some iv \<Rightarrow> Ok iv
       | None \<Rightarrow> Err ErrInvocationNotFound) \<and>
    (case GetReceipt F U (agent_puts F U ms agent_New) t of
         Ok r \<Rightarrow> (\<exists>m \<in> set ms. r \<in> set (Receipts m)) \<and> rcpt_Ran r = t
       | Err e \<Rightarrow> e = ErrReceiptNotFound \<and> (\<forall>m \<in> set ms. \<forall>r \<in> set (Receipts m). rcpt_Ran r \<noteq> t)
       | Panic \<Rightarrow> False)"
proof -
  note inv0 = agent_invar_New [OF assms(1,2)]
  note inv1 = agent_puts_invar [OF inv0 assms(3)]
  have ok: "agent_ok F (agent_puts F U ms agent_New)"
    using inv1 by (simp add: agent_invar_def)
  have none: "invocation_of F agent_New t = None" "receipt_of F U agent_New t = None"
    by (simp_all add: invocation_of_def agent_invocation_def receipt_of_def GetReceipt_def agent_New_def)
  show ?thesis
    using receipt_of_puts [OF inv0 assms(3), of t]
    by (auto simp: GetInvocation_eq [OF ok] GetReceipt_eq(1) [OF ok assms(2)] none
        invocation_of_puts [OF inv0 assms(3)] split: option.splits)
qed

definition sample_task :: token where
  "sample_task = \<lparr>tok_Link = ''l1'', tok_Task = ''t1'', tok_Issuer = ''did:key:a'', tok_Subject = ''did:key:s'',
     tok_Audience = ''did:web:up'', tok_Command = ''/blob/add'', tok_Arguments = '''', tok_Nonce = '''', tok_Proofs = []\<rparr>"

definition sample_rcpt :: receipt where
  "sample_rcpt = \<lparr>rcpt_Link = ''l2'', rcpt_Ran = ''t1'', rcpt_Issuer = ''did:web:up'', rcpt_Out = OutOk ''''\<rparr>"

definition sample_messages :: "container list" where
  "sample_messages = [\<lparr>Invocations = [sample_task], Delegations = [], Receipts = []\<rparr>,
     \<lparr>Invocations = [], Delegations = [], Receipts = [sample_rcpt]\<rparr>]"

lemma sample_messages_writable: "all_writable sample_formats sample_ucan_lib sample_messages agent_New"
  by (simp add: sample_messages_def writable_def agent_put_def agent_Write_def sample_ucan_lib_def
      sample_task_def sample_rcpt_def agent_New_def)

theorem agent_store_retrieval_witness:
  "GetInvocation sample_formats (agent_puts sample_formats sample_ucan_lib sample_messages agent_New) ''t1'' =
     Ok sample_task \<and>
   GetInvocation sample_formats (agent_puts sample_formats sample_ucan_lib sample_messages agent_New) ''t2'' =
     Err ErrInvocationNotFound \<and>
   is_Ok (GetReceipt sample_formats sample_ucan_lib
     (agent_puts sample_formats sample_ucan_lib sample_messages agent_New) ''t1'')"
  using agent_store_retrieval [OF sample_formats_ok sample_ucan_lib_ok sample_messages_writable, of "''t1''"]
    agent_store_retrieval [OF sample_formats_ok sample_ucan_lib_ok sample_messages_writable, of "''t2''"]
  by (auto simp: sample_messages_def sample_task_def sample_rcpt_def split: res.splits)

end
