(* ===== verification/Piri_Client.thy ===== *)
theory Piri_Client
  imports Routing Agent_Store
begin

section \<open>The client of the storage nodes\<close>

text \<open>
  \<^verbatim>\<open>pkg/piriclient\<close> and \<^verbatim>\<open>pkg/lib/ucan_client\<close>: how the service invokes \<^verbatim>\<open>/blob/allocate\<close>,
  \<^verbatim>\<open>/blob/accept\<close>, \<^verbatim>\<open>/blob/release\<close>, \<^verbatim>\<open>/blob/reject\<close> and \<^verbatim>\<open>/blob/replica/allocate\<close> on a storage
  node, one by one or, for accepts, many at a time in requests of bounded size.

  Two things are parameters. \<open>forge_lib\<close> holds the library functions the code calls: issuing an
  invocation of a command, resolving a proof chain in the proofs of a provider, and decoding the
  bytes of arguments and results. \<open>node\<close> is the network with the nodes behind it: a call takes the
  state of the outside world to a new one and answers, in any way it likes, or fails.
\<close>

record BlobSpec =
  spec_Digest :: "multihash option"
  spec_DigestCode :: uint64
  spec_Size :: uint64

datatype cmd = AllocateCmd | AcceptCmd | ReleaseCmd | RejectCmd | ReplicaAllocateCmd | HttpPutCmd
  | AssertLocationCmd

record AllocateArguments =
  alloc_Space :: did
  alloc_Blob :: BlobSpec
  alloc_Cause :: cid

record AcceptArguments =
  acc_Space :: did
  acc_Blob :: BlobSpec
  acc_Put :: cid

record ReleaseArguments =
  rel_Space :: did
  rel_Digest :: multihash
  rel_Cause :: cid

record RejectArguments =
  rej_Allocation :: cid

record ReplicaAllocateArguments =
  rall_Blob :: Blob
  rall_Site :: cid
  rall_Cause :: cid

record PutArguments =
  put_Body :: BlobSpec
  put_Destination :: cid

datatype cmd_args = AllocateArgs AllocateArguments | AcceptArgs AcceptArguments
  | ReleaseArgs ReleaseArguments | RejectArgs RejectArguments
  | ReplicaAllocateArgs ReplicaAllocateArguments | PutArgs PutArguments

text \<open>\<^verbatim>\<open>WithMetadata\<close> is used once, for the keys of the principal of a put.\<close>

datatype inv_option = WithAudience did | WithProofs "cid list" | WithExpiration int | WithNoNonce
  | WithKeyMetadata did

record AllocateOK =
  aok_Address :: "string option"

record AcceptOK =
  acok_Site :: cid
  acok_PDP :: cid

text \<open>The libraries: the name of a command, issuing an invocation (as an issuer, on a subject), the
  proof chain from an issuer to a subject for a command, the decoders, and the errors they name.\<close>

record forge_lib =
  Command :: "cmd \<Rightarrow> string"
  Invoke :: "did \<Rightarrow> did \<Rightarrow> cmd_args \<Rightarrow> inv_option list \<Rightarrow> token res"
  ProofChain :: "container \<Rightarrow> did \<Rightarrow> string \<Rightarrow> did \<Rightarrow> (token list \<times> cid list) res"
  ErrorModel_Unmarshal :: "bytes \<Rightarrow> gerr res"
  AllocateOK_Unmarshal :: "bytes \<Rightarrow> AllocateOK res"
  AcceptOK_Unmarshal :: "bytes \<Rightarrow> AcceptOK res"
  ReleaseOK_Unmarshal :: "bytes \<Rightarrow> unit res"
  RejectOK_Unmarshal :: "bytes \<Rightarrow> unit res"
  ReplicaAllocateOK_Unmarshal :: "bytes \<Rightarrow> cid res"
  AddOK_Unmarshal :: "bytes \<Rightarrow> cid res"
  PutOK_Unmarshal :: "bytes \<Rightarrow> multihash option res"
  AllocateArguments_Unmarshal :: "bytes \<Rightarrow> AllocateArguments res"
  AcceptArguments_Unmarshal :: "bytes \<Rightarrow> AcceptArguments res"
  PutArguments_Unmarshal :: "bytes \<Rightarrow> PutArguments res"
  LocationArguments_Unmarshal :: "bytes \<Rightarrow> multihash res"
  multihash_Decode :: "multihash \<Rightarrow> uint64 res"
  cid_Hash :: "cid \<Rightarrow> multihash"
  FromRaw :: "bytes \<Rightarrow> did res"
  IssueOK :: "did \<Rightarrow> cid \<Rightarrow> receipt res"
  ErrConclusionReceiptNotFound :: gerr
  ErrUnsupportedDigestCode :: gerr
  UnsupportedDigestCodeErrorName :: string
  InsufficientStorageErrorName :: string
  ErrMissingCause :: gerr
  MissingCauseErrorName :: string
  BlobAcceptedErrorName :: string

record exec_options =
  ex_Delegations :: "token list"
  ex_Invocations :: "token list"
  ex_Receipts :: "receipt list"

record exec_response =
  resp_Receipt :: receipt
  resp_Metadata :: "container option"

record batch_response =
  batch_Receipt :: "cid \<rightharpoonup> receipt"
  batch_Metadata :: "container option"

record Client =
  piriDID :: did
  issuer :: did
  endpoint :: string

text \<open>The outside world: sending requests, and the readings of the clock.\<close>

record 'w node =
  node_NewHTTP :: "string \<Rightarrow> unit res"
  node_Execute :: "Client \<Rightarrow> token \<Rightarrow> exec_options \<Rightarrow> 'w \<Rightarrow> 'w \<times> exec_response res"
  node_ExecuteBatch :: "Client \<Rightarrow> token list \<Rightarrow> exec_options \<Rightarrow> 'w \<Rightarrow> 'w \<times> batch_response res"
  ucan_Now :: "'w \<Rightarrow> nat \<Rightarrow> int"

definition piri_NewWithClient :: "did \<Rightarrow> did \<Rightarrow> string \<Rightarrow> Client" where
  "piri_NewWithClient i iss ep = \<lparr>piriDID = i, issuer = iss, endpoint = ep\<rparr>"

definition piri_New :: "'w node \<Rightarrow> string \<Rightarrow> did \<Rightarrow> did \<Rightarrow> Client res" where
  "piri_New N ep i iss =
     andThen (wrap ''creating HTTP client'' (node_NewHTTP N ep)) (\<lambda>_. Ok (piri_NewWithClient i iss ep))"

text \<open>\<^verbatim>\<open>PiriProvider.Client\<close>; the issuer is the identity of the service.\<close>

definition provider_Client :: "'w node \<Rightarrow> did \<Rightarrow> did \<Rightarrow> string \<Rightarrow> Client res" where
  "provider_Client N iss i ep = piri_New N ep i iss"

subsection \<open>One invocation\<close>

definition Execute ::
  "forge_lib \<Rightarrow> 'w node \<Rightarrow> Client \<Rightarrow> (bytes \<Rightarrow> 'a res) \<Rightarrow> token \<Rightarrow> exec_options \<Rightarrow> 'w \<Rightarrow>
   'w \<times> ('a \<times> receipt \<times> container option) res" where
  "Execute L N c unmarshal iv options w =
     (let (w, r) = node_Execute N c iv options w in
      andThenS (w, wrap ''executing invocation'' r) (\<lambda>resp w.
        let rcpt = resp_Receipt resp in
        (w, case rcpt_Out rcpt of
              OutErr x \<Rightarrow>
                (case ErrorModel_Unmarshal L x of
                   Err e \<Rightarrow> Err (Errorf ''executing invocation'')
                 | Panic \<Rightarrow> Panic
                 | Ok model \<Rightarrow> Err (Wrap ''executing invocation'' model))
            | OutOk b \<Rightarrow>
                andThen (wrap ''unmarshaling invocation response'' (unmarshal b))
                  (\<lambda>v. Ok (v, rcpt, resp_Metadata resp)))))"

record AllocateRequest =
  areq_Space :: did
  areq_Blob :: BlobSpec
  areq_Cause :: cid

definition AllocateInvocation ::
  "forge_lib \<Rightarrow> Client \<Rightarrow> AllocateRequest \<Rightarrow> container \<Rightarrow> inv_option list \<Rightarrow> (token \<times> token list) res" where
  "AllocateInvocation L c req proofStore options =
     andThen (wrap ''building proof chain'' (ProofChain L proofStore (issuer c) (Command L AllocateCmd) (piriDID c)))
       (\<lambda>(prfs, prfLinks).
          let options = options @ [WithAudience (piriDID c), WithProofs prfLinks] in
          andThen (wrap ''creating allocate invocation''
              (Invoke L (issuer c) (piriDID c)
                 (AllocateArgs \<lparr>alloc_Space = areq_Space req, alloc_Blob = areq_Blob req,
                                alloc_Cause = areq_Cause req\<rparr>) options))
            (\<lambda>iv. Ok (iv, prfs)))"

definition piri_Allocate ::
  "forge_lib \<Rightarrow> 'w node \<Rightarrow> Client \<Rightarrow> AllocateRequest \<Rightarrow> container \<Rightarrow> inv_option list \<Rightarrow> 'w \<Rightarrow>
   'w \<times> (AllocateOK \<times> token \<times> receipt) res" where
  "piri_Allocate L N c req proofStore options w =
     andThenS (w, wrap ''creating allocate invocation'' (AllocateInvocation L c req proofStore options))
       (\<lambda>(iv, prfs) w.
          andThenS (Execute L N c (AllocateOK_Unmarshal L) iv
              \<lparr>ex_Delegations = prfs, ex_Invocations = [], ex_Receipts = []\<rparr> w)
            (\<lambda>(allocOK, rcpt, _) w. (w, Ok (allocOK, iv, rcpt))))"

record AcceptRequest =
  creq_Space :: did
  creq_Blob :: BlobSpec
  creq_Put :: cid
  creq_PutInvocation :: "token option"
  creq_PutReceipt :: "receipt option"

fun putEvidence_loop ::
  "AcceptRequest list \<Rightarrow> token list \<Rightarrow> receipt list \<Rightarrow> (token list \<times> receipt list) res" where
  "putEvidence_loop [] invs rcpts = Ok (invs, rcpts)"
| "putEvidence_loop (req # reqs) invs rcpts =
     (if spec_Digest (creq_Blob req) = None \<and> (creq_PutInvocation req = None \<or> creq_PutReceipt req = None)
      then Err (Errorf ''accept of a blob without a digest needs its invocation and receipt'')
      else putEvidence_loop reqs
             (case creq_PutInvocation req of None \<Rightarrow> invs | Some iv \<Rightarrow> invs @ [iv])
             (case creq_PutReceipt req of None \<Rightarrow> rcpts | Some r \<Rightarrow> rcpts @ [r]))"

definition putEvidence :: "AcceptRequest list \<Rightarrow> (token list \<times> receipt list) res" where
  "putEvidence reqs = putEvidence_loop reqs [] []"

definition acceptInvocationTTL :: int where
  "acceptInvocationTTL = 5 * 60"

definition acceptProofs :: "forge_lib \<Rightarrow> Client \<Rightarrow> container \<Rightarrow> (token list \<times> cid list) res" where
  "acceptProofs L c proofStore =
     wrap ''building proof chain'' (ProofChain L proofStore (issuer c) (Command L AcceptCmd) (piriDID c))"

definition acceptInvocation ::
  "forge_lib \<Rightarrow> Client \<Rightarrow> int \<Rightarrow> AcceptRequest \<Rightarrow> inv_option list \<Rightarrow> cid list \<Rightarrow> token res" where
  "acceptInvocation L c now req options prfLinks =
     (let options = options @ [WithAudience (piriDID c), WithProofs prfLinks,
            WithExpiration (now + acceptInvocationTTL)] in
      wrap ''creating accept invocation''
        (Invoke L (issuer c) (piriDID c)
           (AcceptArgs \<lparr>acc_Space = creq_Space req, acc_Blob = creq_Blob req, acc_Put = creq_Put req\<rparr>) options))"

definition AcceptInvocation ::
  "forge_lib \<Rightarrow> Client \<Rightarrow> int \<Rightarrow> AcceptRequest \<Rightarrow> container \<Rightarrow> inv_option list \<Rightarrow> (token \<times> token list) res" where
  "AcceptInvocation L c now req proofStore options =
     andThen (acceptProofs L c proofStore) (\<lambda>(prfs, prfLinks).
       andThen (acceptInvocation L c now req options prfLinks) (\<lambda>iv. Ok (iv, prfs)))"

definition piri_Accept ::
  "forge_lib \<Rightarrow> 'w node \<Rightarrow> Client \<Rightarrow> AcceptRequest \<Rightarrow> container \<Rightarrow> inv_option list \<Rightarrow> 'w \<Rightarrow>
   'w \<times> (AcceptOK \<times> token \<times> receipt \<times> container option) res" where
  "piri_Accept L N c req proofStore options w =
     andThenS (w, putEvidence [req]) (\<lambda>(putInvs, putRcpts) w.
       andThenS (w, wrap ''creating accept invocation''
           (AcceptInvocation L c (ucan_Now N w 0) req proofStore options)) (\<lambda>(iv, prfs) w.
         andThenS (Execute L N c (AcceptOK_Unmarshal L) iv
             \<lparr>ex_Delegations = prfs, ex_Invocations = putInvs, ex_Receipts = putRcpts\<rparr> w)
           (\<lambda>(acceptOK, rcpt, meta) w. (w, Ok (acceptOK, iv, rcpt, meta)))))"

record ReleaseRequest =
  lreq_Space :: did
  lreq_Digest :: multihash
  lreq_Cause :: token
  lreq_CauseProofs :: "token list"

definition ReleaseInvocation ::
  "forge_lib \<Rightarrow> Client \<Rightarrow> ReleaseRequest \<Rightarrow> container \<Rightarrow> inv_option list \<Rightarrow> (token \<times> token list) res" where
  "ReleaseInvocation L c req proofStore options =
     andThen (wrap ''building proof chain'' (ProofChain L proofStore (issuer c) (Command L ReleaseCmd) (piriDID c)))
       (\<lambda>(prfs, prfLinks).
          let options = options @ [WithAudience (piriDID c), WithProofs prfLinks] in
          andThen (wrap ''creating release invocation''
              (Invoke L (issuer c) (piriDID c)
                 (ReleaseArgs \<lparr>rel_Space = lreq_Space req, rel_Digest = lreq_Digest req,
                               rel_Cause = tok_Task (lreq_Cause req)\<rparr>) options))
            (\<lambda>iv. Ok (iv, prfs)))"

definition piri_Release ::
  "forge_lib \<Rightarrow> 'w node \<Rightarrow> Client \<Rightarrow> ReleaseRequest \<Rightarrow> container \<Rightarrow> inv_option list \<Rightarrow> 'w \<Rightarrow>
   'w \<times> (unit \<times> token \<times> receipt) res" where
  "piri_Release L N c req proofStore options w =
     andThenS (w, wrap ''creating release invocation'' (ReleaseInvocation L c req proofStore options))
       (\<lambda>(iv, prfs) w.
          andThenS (Execute L N c (ReleaseOK_Unmarshal L) iv
              \<lparr>ex_Delegations = prfs @ lreq_CauseProofs req, ex_Invocations = [lreq_Cause req], ex_Receipts = []\<rparr> w)
            (\<lambda>(releaseOK, rcpt, _) w. (w, Ok (releaseOK, iv, rcpt))))"

definition RejectInvocation ::
  "forge_lib \<Rightarrow> Client \<Rightarrow> RejectArguments \<Rightarrow> container \<Rightarrow> inv_option list \<Rightarrow> (token \<times> token list) res" where
  "RejectInvocation L c req proofStore options =
     andThen (wrap ''building proof chain'' (ProofChain L proofStore (issuer c) (Command L RejectCmd) (piriDID c)))
       (\<lambda>(prfs, prfLinks).
          let options = options @ [WithAudience (piriDID c), WithProofs prfLinks] in
          andThen (wrap ''creating reject invocation'' (Invoke L (issuer c) (piriDID c) (RejectArgs req) options))
            (\<lambda>iv. Ok (iv, prfs)))"

definition piri_Reject ::
  "forge_lib \<Rightarrow> 'w node \<Rightarrow> Client \<Rightarrow> RejectArguments \<Rightarrow> container \<Rightarrow> inv_option list \<Rightarrow> 'w \<Rightarrow>
   'w \<times> (unit \<times> token \<times> receipt) res" where
  "piri_Reject L N c req proofStore options w =
     andThenS (w, wrap ''creating reject invocation'' (RejectInvocation L c req proofStore options))
       (\<lambda>(iv, prfs) w.
          andThenS (Execute L N c (RejectOK_Unmarshal L) iv
              \<lparr>ex_Delegations = prfs, ex_Invocations = [], ex_Receipts = []\<rparr> w)
            (\<lambda>(rejectOK, rcpt, _) w. (w, Ok (rejectOK, iv, rcpt))))"

record ReplicaAllocateRequest =
  rreq_Space :: did
  rreq_Digest :: multihash
  rreq_Size :: uint64
  rreq_Site :: token
  rreq_Cause :: cid

definition replicaAllocationTTL :: int where
  "replicaAllocationTTL = 24 * 60 * 60"

definition ReplicaAllocate ::
  "forge_lib \<Rightarrow> 'w node \<Rightarrow> Client \<Rightarrow> ReplicaAllocateRequest \<Rightarrow> container \<Rightarrow> inv_option list \<Rightarrow> 'w \<Rightarrow>
   'w \<times> (cid \<times> token \<times> receipt \<times> container option) res" where
  "ReplicaAllocate L N c req proofStore options w =
     andThenS (w, wrap ''building proof chain''
         (ProofChain L proofStore (issuer c) (Command L ReplicaAllocateCmd) (rreq_Space req)))
       (\<lambda>(prfs, prfLinks) w.
          let options = options @ [WithAudience (piriDID c), WithProofs prfLinks,
                WithExpiration (ucan_Now N w 0 + replicaAllocationTTL)] in
          andThenS (w, wrap ''creating replica allocate invocation''
              (Invoke L (issuer c) (rreq_Space req)
                 (ReplicaAllocateArgs \<lparr>rall_Blob = \<lparr>Digest = rreq_Digest req, Size = rreq_Size req\<rparr>,
                    rall_Site = tok_Link (rreq_Site req), rall_Cause = rreq_Cause req\<rparr>) options))
            (\<lambda>iv w.
               andThenS (Execute L N c (ReplicaAllocateOK_Unmarshal L) iv
                   \<lparr>ex_Delegations = prfs, ex_Invocations = [], ex_Receipts = []\<rparr> w)
                 (\<lambda>(allocOK, rcpt, meta) w. (w, Ok (allocOK, iv, rcpt, meta)))))"

subsection \<open>Many accepts\<close>

definition maxAcceptBatch :: nat where
  "maxAcceptBatch = 1000"

record AcceptResult =
  ar_Request :: "AcceptRequest option"
  ar_Invocation :: "token option"
  ar_Receipt :: "receipt option"

definition no_result :: AcceptResult where
  "no_result = \<lparr>ar_Request = None, ar_Invocation = None, ar_Receipt = None\<rparr>"

text \<open>The invocations of one chunk, each filed in its result as it is issued; \<open>now i\<close> is the clock
  when the \<open>i\<close>-th is.\<close>

fun issue_chunk ::
  "forge_lib \<Rightarrow> Client \<Rightarrow> (nat \<Rightarrow> int) \<Rightarrow> AcceptRequest list \<Rightarrow> inv_option list \<Rightarrow> cid list \<Rightarrow> nat list \<Rightarrow>
   AcceptResult list \<Rightarrow> token list \<Rightarrow> AcceptResult list \<times> token list res" where
  "issue_chunk L c now reqs options prfLinks [] results invs = (results, Ok invs)"
| "issue_chunk L c now reqs options prfLinks (i # js) results invs =
     (case acceptInvocation L c (now i) (reqs ! i) options prfLinks of
        Err e \<Rightarrow> (results, Err e)
      | Panic \<Rightarrow> (results, Panic)
      | Ok iv \<Rightarrow>
          issue_chunk L c now reqs options prfLinks js
            (results[i := \<lparr>ar_Request = Some (reqs ! i), ar_Invocation = Some iv, ar_Receipt = None\<rparr>])
            (invs @ [iv]))"

fun file_receipts :: "(cid \<rightharpoonup> receipt) \<Rightarrow> token list \<Rightarrow> nat \<Rightarrow> AcceptResult list \<Rightarrow> AcceptResult list" where
  "file_receipts receipt_for [] i results = results"
| "file_receipts receipt_for (iv # invs) i results =
     file_receipts receipt_for invs (i + 1)
       (results[i := (results ! i)\<lparr>ar_Receipt := receipt_for (tok_Task iv)\<rparr>])"

function accept_chunks ::
  "forge_lib \<Rightarrow> 'w node \<Rightarrow> Client \<Rightarrow> AcceptRequest list \<Rightarrow> inv_option list \<Rightarrow> token list \<Rightarrow> cid list \<Rightarrow> nat \<Rightarrow>
   AcceptResult list \<Rightarrow> container option list \<Rightarrow> 'w \<Rightarrow>
   'w \<times> AcceptResult list \<times> container option list \<times> unit res" where
  "accept_chunks L N c reqs options prfs prfLinks start results metas w =
     (if start < length reqs then
        (let stop = min (start + maxAcceptBatch) (length reqs) in
         case issue_chunk L c (ucan_Now N w) reqs options prfLinks [start ..< stop] results [] of
           (results, Err e) \<Rightarrow> (w, results, metas, Err e)
         | (results, Panic) \<Rightarrow> (w, results, metas, Panic)
         | (results, Ok invs) \<Rightarrow>
             (case putEvidence (take (stop - start) (drop start reqs)) of
                Err e \<Rightarrow> (w, results, metas, Err e)
              | Panic \<Rightarrow> (w, results, metas, Panic)
              | Ok (putInvs, putRcpts) \<Rightarrow>
                  (case node_ExecuteBatch N c invs
                          \<lparr>ex_Delegations = prfs, ex_Invocations = putInvs, ex_Receipts = putRcpts\<rparr> w of
                     (w, Err e) \<Rightarrow> (w, results, metas, Err (Wrap ''executing accept batch'' e))
                   | (w, Panic) \<Rightarrow> (w, results, metas, Panic)
                   | (w, Ok res) \<Rightarrow>
                       accept_chunks L N c reqs options prfs prfLinks (start + maxAcceptBatch)
                         (file_receipts (batch_Receipt res) invs start results)
                         (metas @ [batch_Metadata res]) w)))
      else (w, results, metas, Ok ()))"
  by pat_completeness auto
termination
  by (relation "measure (\<lambda>(L, N, c, reqs, options, prfs, prfLinks, start, results, metas, w).
      length reqs - start)") (auto simp: maxAcceptBatch_def)

declare accept_chunks.simps [simp del]

definition AcceptBatch ::
  "forge_lib \<Rightarrow> 'w node \<Rightarrow> Client \<Rightarrow> AcceptRequest list \<Rightarrow> container \<Rightarrow> inv_option list \<Rightarrow> 'w \<Rightarrow>
   'w \<times> AcceptResult list \<times> container option list \<times> unit res" where
  "AcceptBatch L N c reqs proofStore options w =
     (if length reqs = 0 then (w, [], [], Ok ())
      else
        (case putEvidence reqs of
           Err e \<Rightarrow> (w, [], [], Err e)
         | Panic \<Rightarrow> (w, [], [], Panic)
         | Ok _ \<Rightarrow>
             (case acceptProofs L c proofStore of
                Err e \<Rightarrow> (w, [], [], Err e)
              | Panic \<Rightarrow> (w, [], [], Panic)
              | Ok (prfs, prfLinks) \<Rightarrow>
                  accept_chunks L N c reqs options prfs prfLinks 0 (replicate (length reqs) no_result) [] w)))"

subsection \<open>What a batch gives back\<close>

text \<open>
  What a batch keeps while its chunks run. Up to \<open>k\<close>, the end of the last chunk answered, a result pairs
  the request at its position with an accept invocation issued for it and with the receipt for the
  invocation in an answer of the node to a request of bounded size that held the invocation. From \<open>k\<close> on there is no
  receipt.
\<close>

definition result_for ::
  "forge_lib \<Rightarrow> Client \<Rightarrow> inv_option list \<Rightarrow> cid list \<Rightarrow> AcceptRequest \<Rightarrow> AcceptResult \<Rightarrow> bool" where
  "result_for L c options prfLinks req r \<longleftrightarrow>
     (\<exists>iv now. ar_Request r = Some req \<and> ar_Invocation r = Some iv \<and>
        acceptInvocation L c now req options prfLinks = Ok iv)"

definition answered :: "'w node \<Rightarrow> Client \<Rightarrow> AcceptResult \<Rightarrow> bool" where
  "answered N c r \<longleftrightarrow> (\<exists>iv invs opts w w' resp. ar_Invocation r = Some iv \<and> iv \<in> set invs \<and>
     length invs \<le> maxAcceptBatch \<and> node_ExecuteBatch N c invs opts w = (w', Ok resp) \<and>
     ar_Receipt r = batch_Receipt resp (tok_Task iv))"

definition batch_state ::
  "forge_lib \<Rightarrow> 'w node \<Rightarrow> Client \<Rightarrow> AcceptRequest list \<Rightarrow> inv_option list \<Rightarrow> cid list \<Rightarrow> nat \<Rightarrow>
   AcceptResult list \<Rightarrow> bool" where
  "batch_state L N c reqs options prfLinks k results \<longleftrightarrow> length results = length reqs \<and>
     (\<forall>i < length reqs.
        (if i < k then result_for L c options prfLinks (reqs ! i) (results ! i) \<and> answered N c (results ! i)
         else ar_Receipt (results ! i) = None \<and>
           (results ! i = no_result \<or> result_for L c options prfLinks (reqs ! i) (results ! i))))"

lemma batch_state_start: "batch_state L N c reqs options prfLinks 0 (replicate (length reqs) no_result)"
  by (simp add: batch_state_def no_result_def)

text \<open>Issuing a chunk touches only the results of the chunk, and leaves in them what it issued.\<close>

lemma issue_chunk_spec:
  assumes "issue_chunk L c now reqs options prfLinks [k ..< m] results invs = (results', r)"
    and "length results = length reqs" and "m \<le> length reqs"
  shows "length results' = length reqs \<and>
    (\<forall>i. (i < k \<or> m \<le> i \<longrightarrow> results' ! i = results ! i) \<and>
      (k \<le> i \<and> i < m \<longrightarrow> results' ! i = results ! i \<or>
        (result_for L c options prfLinks (reqs ! i) (results' ! i) \<and> ar_Receipt (results' ! i) = None))) \<and>
    (\<forall>invs'. r = Ok invs' \<longrightarrow> length invs' = length invs + (m - k) \<and> take (length invs) invs' = invs \<and>
      (\<forall>i. k \<le> i \<and> i < m \<longrightarrow> result_for L c options prfLinks (reqs ! i) (results' ! i) \<and>
         ar_Receipt (results' ! i) = None \<and> ar_Invocation (results' ! i) = Some (invs' ! (length invs + (i - k)))))"
  using assms(1,2)
proof (induction "m - k" arbitrary: k results invs)
  case 0
  then show ?case by auto
next
  case (Suc n)
  then have k: "k < m" "[k ..< m] = k # [Suc k ..< m]" "k < length results"
    using assms(3) by (simp_all add: upt_conv_Cons)
  show ?case
  proof (cases "acceptInvocation L c (now k) (reqs ! k) options prfLinks")
    case (Ok iv)
    let ?r = "\<lparr>ar_Request = Some (reqs ! k), ar_Invocation = Some iv, ar_Receipt = None\<rparr>"
    let ?new = "\<lambda>i. result_for L c options prfLinks (reqs ! i) (results' ! i) \<and> ar_Receipt (results' ! i) = None"
    have rf: "result_for L c options prfLinks (reqs ! k) ?r"
      using Ok by (auto simp: result_for_def)
    have run: "issue_chunk L c now reqs options prfLinks [Suc k ..< m] (results[k := ?r]) (invs @ [iv]) = (results', r)"
      using Suc.prems(1) Ok k(2) by simp
    have n: "n = m - Suc k" and len: "length (results[k := ?r]) = length reqs"
      using Suc.hyps(2) Suc.prems(2) by auto
    note IH = Suc.hyps(1) [OF n run len]
    have at_k: "results' ! k = ?r"
      using IH k(3) by auto
    have kept: "results' ! i = results ! i" if "i < k \<or> m \<le> i" for i
    proof -
      have "i < Suc k \<or> m \<le> i" "i \<noteq> k" using that k(1) by auto
      with IH [THEN conjunct2, THEN conjunct1, THEN spec, THEN conjunct1, THEN mp, of i] show ?thesis by simp
    qed
    have mid: "results' ! i = results ! i \<or> ?new i" if "k \<le> i" "i < m" for i
    proof (cases "i = k")
      case False
      then have "Suc k \<le> i \<and> i < m" using that by simp
      with False IH [THEN conjunct2, THEN conjunct1, THEN spec, THEN conjunct2, THEN mp, of i] show ?thesis by simp
    qed (simp add: at_k rf)
    have "length invs' = length invs + (m - k) \<and> take (length invs) invs' = invs \<and>
      (\<forall>i. k \<le> i \<and> i < m \<longrightarrow> ?new i \<and> ar_Invocation (results' ! i) = Some (invs' ! (length invs + (i - k))))"
      if r: "r = res.Ok invs'" for invs'
    proof (intro conjI allI impI)
      have t: "take (length invs + 1) invs' = invs @ [iv]" and l: "length invs' = length invs + 1 + (m - Suc k)"
        using IH r by auto
      from l k(1) show "length invs' = length invs + (m - k)" by simp
      have "take (length invs) (take (length invs + 1) invs') = take (length invs) (invs @ [iv])"
        by (simp only: t)
      then show "take (length invs) invs' = invs" by (simp add: min_def)
      fix i assume i: "k \<le> i \<and> i < m"
      have "invs' ! length invs = iv"
        using arg_cong [OF t, of "\<lambda>xs. xs ! length invs"] by simp
      moreover have "?new i \<and> ar_Invocation (results' ! i) = Some (invs' ! (length (invs @ [iv]) + (i - Suc k)))"
        if "i \<noteq> k"
      proof -
        have "Suc k \<le> i \<and> i < m" using i that by linarith
        with IH [THEN conjunct2, THEN conjunct2, THEN spec, THEN mp, OF r] show ?thesis by blast
      qed
      moreover have shift: "length (invs @ [iv]) + (i - Suc k) = length invs + (i - k)" if "i \<noteq> k"
        using i that by auto
      ultimately have "?new i \<and> ar_Invocation (results' ! i) = Some (invs' ! (length invs + (i - k)))"
        using at_k rf by (cases "i = k") (simp, simp only: shift not_False_eq_True simp_thms)
      then show "result_for L c options prfLinks (reqs ! i) (results' ! i)" "ar_Receipt (results' ! i) = None"
        "ar_Invocation (results' ! i) = Some (invs' ! (length invs + (i - k)))"
        by simp_all
    qed
    with IH kept mid show ?thesis by blast
  qed (use Suc.prems k in auto)
qed

lemma file_receipts_nth:
  assumes "k + length invs \<le> length results"
  shows "length (file_receipts f invs k results) = length results \<and>
    file_receipts f invs k results ! i =
      (if k \<le> i \<and> i < k + length invs then (results ! i)\<lparr>ar_Receipt := f (tok_Task (invs ! (i - k)))\<rparr> else results ! i)"
  using assms
proof (induction invs arbitrary: k results)
  case (Cons iv invs)
  let ?rs = "results[k := (results ! k)\<lparr>ar_Receipt := f (tok_Task iv)\<rparr>]"
  have "Suc k + length invs \<le> length ?rs" using Cons.prems by simp
  note IH = Cons.IH [OF this]
  have "i - k = Suc (i - Suc k)" if "k < i" using that by simp
  then show ?case
    using IH Cons.prems by (cases "i = k") auto
qed auto

text \<open>Once a chunk is answered the state holds up to its end.\<close>

lemma answered_chunk_state:
  assumes st: "batch_state L N c reqs options prfLinks k results" and "k < m" and "m \<le> length reqs"
    and small: "m - k \<le> maxAcceptBatch"
    and issue: "issue_chunk L c now reqs options prfLinks [k ..< m] results [] = (results', Ok invs)"
    and exec: "node_ExecuteBatch N c invs opts w = (w', Ok resp)"
  shows "batch_state L N c reqs options prfLinks m (file_receipts (batch_Receipt resp) invs k results')"
proof -
  let ?rs = "file_receipts (batch_Receipt resp) invs k results'"
  have len: "length results = length reqs" using st by (simp add: batch_state_def)
  note iss = issue_chunk_spec [OF issue len assms(3)]
  then have invs: "length invs = m - k" and len': "length results' = length reqs"
    and old: "\<And>i. i < k \<or> m \<le> i \<Longrightarrow> results' ! i = results ! i"
    and new: "\<And>i. k \<le> i \<Longrightarrow> i < m \<Longrightarrow> result_for L c options prfLinks (reqs ! i) (results' ! i) \<and>
      ar_Invocation (results' ! i) = Some (invs ! (i - k))"
    by auto
  have "k + length invs \<le> length results'" using invs len' assms(2,3) by simp
  note filed = file_receipts_nth [OF this, of "batch_Receipt resp"]
  have "result_for L c options prfLinks (reqs ! i) (?rs ! i) \<and> answered N c (?rs ! i)" if "i < m" "k \<le> i" for i
  proof -
    from that have at: "?rs ! i = (results' ! i)\<lparr>ar_Receipt := batch_Receipt resp (tok_Task (invs ! (i - k)))\<rparr>"
      and mem: "invs ! (i - k) \<in> set invs"
      using filed [of i] invs by simp_all
    have "answered N c (?rs ! i)"
      unfolding answered_def
      by (rule exI [of _ "invs ! (i - k)"], rule exI [of _ invs], rule exI [of _ opts], rule exI [of _ w],
          rule exI [of _ w'], rule exI [of _ resp]) (use at mem new [OF that(2,1)] exec invs small in simp)
    with at new [OF that(2,1)] show ?thesis
      by (auto simp: result_for_def)
  qed
  moreover have "?rs ! i = results ! i" if "i < k \<or> m \<le> i" for i
    using filed [of i] old [OF that] that invs assms(2) by auto
  ultimately have "if i < m then result_for L c options prfLinks (reqs ! i) (?rs ! i) \<and> answered N c (?rs ! i)
      else ar_Receipt (?rs ! i) = None \<and>
        (?rs ! i = no_result \<or> result_for L c options prfLinks (reqs ! i) (?rs ! i))" if "i < length reqs" for i
    using st that assms(2) unfolding batch_state_def by (cases "i < k"; cases "i < m") (auto simp: not_less)
  moreover have "length ?rs = length reqs" using filed [of 0] len' by simp
  ultimately show ?thesis
    unfolding batch_state_def by blast
qed

lemma failed_chunk_state:
  assumes st: "batch_state L N c reqs options prfLinks k results" and "m \<le> length reqs"
    and issue: "issue_chunk L c now reqs options prfLinks [k ..< m] results [] = (results', r)"
  shows "batch_state L N c reqs options prfLinks k results'"
proof -
  have len: "length results = length reqs" using st by (simp add: batch_state_def)
  note iss = issue_chunk_spec [OF issue len assms(2)]
  have "results' ! i = results ! i" if "i < k" for i
    using iss that by blast
  moreover have "results' ! i = results ! i \<or>
      (result_for L c options prfLinks (reqs ! i) (results' ! i) \<and> ar_Receipt (results' ! i) = None)" for i
    using iss by (meson linorder_not_le)
  ultimately have "if i < k then result_for L c options prfLinks (reqs ! i) (results' ! i) \<and> answered N c (results' ! i)
      else ar_Receipt (results' ! i) = None \<and>
        (results' ! i = no_result \<or> result_for L c options prfLinks (reqs ! i) (results' ! i))"
    if "i < length reqs" for i
    using st that unfolding batch_state_def by (metis (no_types, lifting))
  with iss show ?thesis
    unfolding batch_state_def by blast
qed

lemma accept_chunks_spec:
  assumes "accept_chunks L N c reqs options prfs prfLinks start results metas w = (w', results', metas', r)"
    and "batch_state L N c reqs options prfLinks start results"
  shows "\<exists>k. start \<le> k \<and> (k - start) mod maxAcceptBatch = 0 \<and>
    batch_state L N c reqs options prfLinks k results' \<and>
    length metas' = length metas + (k - start) div maxAcceptBatch \<and> (r = Ok () \<longrightarrow> length reqs \<le> k)"
  using assms
proof (induction L N c reqs options prfs prfLinks start results metas w arbitrary: w' results' metas' r
    rule: accept_chunks.induct)
  case (1 L N c reqs options prfs prfLinks start results metas w)
  show ?case
  proof (cases "start < length reqs")
    case False
    with 1(2,3) show ?thesis
      by (intro exI [of _ start]) (simp add: accept_chunks.simps)
  next
    case True
    define m where "m = min (start + maxAcceptBatch) (length reqs)"
    have m: "start < m" "m \<le> length reqs" "m - start \<le> maxAcceptBatch"
      using True by (auto simp: m_def maxAcceptBatch_def)
    obtain rs ri where iss: "issue_chunk L c (ucan_Now N w) reqs options prfLinks [start ..< m] results [] = (rs, ri)"
      by (cases "issue_chunk L c (ucan_Now N w) reqs options prfLinks [start ..< m] results []")
    have stopped: "\<exists>k. start \<le> k \<and> (k - start) mod maxAcceptBatch = 0 \<and>
        batch_state L N c reqs options prfLinks k results' \<and>
        length metas' = length metas + (k - start) div maxAcceptBatch \<and> (r = Ok () \<longrightarrow> length reqs \<le> k)"
      if "results' = rs" "metas' = metas" "r \<noteq> Ok ()"
      using failed_chunk_state [OF 1(3) m(2) iss] that by (intro exI [of _ start]) simp
    show ?thesis
    proof (cases ri)
      case (Ok invs)
      show ?thesis
      proof (cases "putEvidence (take (m - start) (drop start reqs))")
        case ev: (Ok p)
        obtain pis prs where p: "p = (pis, prs)" by (cases p)
        let ?opts = "\<lparr>ex_Delegations = prfs, ex_Invocations = pis, ex_Receipts = prs\<rparr>"
        obtain w1 rx where ex: "node_ExecuteBatch N c invs ?opts w = (w1, rx)"
          by (cases "node_ExecuteBatch N c invs ?opts w")
        show ?thesis
        proof (cases rx)
          case rx: (Ok resp)
          let ?rs = "file_receipts (batch_Receipt resp) invs start rs"
          have next_run: "accept_chunks L N c reqs options prfs prfLinks (start + maxAcceptBatch) ?rs
              (metas @ [batch_Metadata resp]) w1 = (w', results', metas', r)"
            using 1(2) True iss Ok ev p ex rx
            by (subst (asm) accept_chunks.simps) (simp add: m_def [symmetric])
          have "batch_state L N c reqs options prfLinks m ?rs"
            using answered_chunk_state [OF 1(3) m iss [unfolded Ok] ex [unfolded rx]] .
          then have "batch_state L N c reqs options prfLinks (start + maxAcceptBatch) ?rs"
            by (auto simp: batch_state_def m_def)
          from 1(1) [OF True m_def iss [symmetric] Ok ev p [symmetric] ex [symmetric] rx next_run this] obtain k where k:
            "start + maxAcceptBatch \<le> k" "(k - (start + maxAcceptBatch)) mod maxAcceptBatch = 0"
            "batch_state L N c reqs options prfLinks k results'"
            "length metas' = length metas + 1 + (k - (start + maxAcceptBatch)) div maxAcceptBatch"
            "r = res.Ok () \<longrightarrow> length reqs \<le> k"
            by auto
          obtain d where "k = start + maxAcceptBatch + d"
            using k(1) le_Suc_ex by blast
          with k show ?thesis
            by (intro exI [of _ k]) (simp add: maxAcceptBatch_def add.assoc)
        qed (use 1(2) True iss Ok ev p ex stopped in \<open>((subst (asm) accept_chunks.simps, auto simp: m_def [symmetric]) [1])+\<close>)
      qed (use 1(2) True iss Ok stopped in \<open>((subst (asm) accept_chunks.simps, auto simp: m_def [symmetric]) [1])+\<close>)
    qed (use 1(2) True iss stopped in \<open>((subst (asm) accept_chunks.simps, auto simp: m_def [symmetric]) [1])+\<close>)
  qed
qed

lemma AcceptBatch_spec:
  assumes "AcceptBatch L N c reqs proofStore options w = (w', results, metas, r)"
  shows "(results = [] \<and> metas = [] \<and> w' = w \<and> (reqs = [] \<longleftrightarrow> r = Ok ())) \<or>
    (\<exists>prfs prfLinks k. acceptProofs L c proofStore = Ok (prfs, prfLinks) \<and> k mod maxAcceptBatch = 0 \<and>
       batch_state L N c reqs options prfLinks k results \<and> length metas = k div maxAcceptBatch \<and>
       (r = Ok () \<longrightarrow> length reqs \<le> k))"
proof (cases "reqs = []")
  case True
  with assms show ?thesis by (simp add: AcceptBatch_def)
next
  case False
  show ?thesis
  proof (cases "\<exists>ev prfs prfLinks. putEvidence reqs = Ok ev \<and> acceptProofs L c proofStore = Ok (prfs, prfLinks)")
    case True
    then obtain ev prfs prfLinks where ok: "putEvidence reqs = Ok ev" "acceptProofs L c proofStore = Ok (prfs, prfLinks)"
      by blast
    with assms False have "accept_chunks L N c reqs options prfs prfLinks 0 (replicate (length reqs) no_result) [] w =
        (w', results, metas, r)"
      by (simp add: AcceptBatch_def)
    from accept_chunks_spec [OF this batch_state_start] ok show ?thesis by auto
  next
    case False
    with assms \<open>reqs \<noteq> []\<close> show ?thesis
      by (auto simp: AcceptBatch_def split: res.splits)
  qed
qed

text \<open>
Property C32. A batch of accepts, whatever the node answers: either nothing was sent and there are no
results, or there is one result per request, in the order of the requests. Up to a multiple of
1000 (all of them, where no error came back) a result holds its request, an accept invocation issued
for that request, and the receipt for that invocation from the answer to a request of at most 1000
accepts that carried it; from there on no result has a receipt. One container came back per request sent.
\<close>

theorem AcceptBatch_aligned:
  assumes "AcceptBatch L N c reqs proofStore options w = (w', results, metas, r)"
  shows "(results = [] \<and> metas = [] \<and> w' = w \<and> (reqs = [] \<longleftrightarrow> r = Ok ())) \<or>
    (\<exists>prfs prfLinks k. acceptProofs L c proofStore = Ok (prfs, prfLinks) \<and> k mod maxAcceptBatch = 0 \<and>
       batch_state L N c reqs options prfLinks k results \<and> length metas = k div maxAcceptBatch \<and>
       (r = Ok () \<longrightarrow> length reqs \<le> k))"
  using AcceptBatch_spec [OF assms] .

subsection \<open>An instance of the parameters\<close>

definition sample_invoke :: "did \<Rightarrow> did \<Rightarrow> cmd_args \<Rightarrow> inv_option list \<Rightarrow> token res" where
  "sample_invoke iss subj args opts =
     (let (name, task) = (case args of
         AllocateArgs a \<Rightarrow> (''/blob/allocate'', ''t1'' @ alloc_Cause a)
       | AcceptArgs a \<Rightarrow> (''/blob/accept'', ''t2'' @ acc_Put a)
       | ReleaseArgs a \<Rightarrow> (''/blob/release'', ''t3'' @ rel_Cause a)
       | RejectArgs a \<Rightarrow> (''/blob/reject'', ''t4'' @ rej_Allocation a)
       | ReplicaAllocateArgs a \<Rightarrow> (''/blob/replica/allocate'', ''t5'' @ rall_Cause a)
       | PutArgs a \<Rightarrow> (''/http/put'', ''t6'' @ put_Destination a))
      in Ok \<lparr>tok_Link = ''l'' @ task, tok_Task = task, tok_Issuer = iss, tok_Subject = subj, tok_Audience = subj,
             tok_Command = name, tok_Arguments = task, tok_Nonce = '''', tok_Proofs = []\<rparr>)"

definition sample_spec :: BlobSpec where
  "sample_spec = \<lparr>spec_Digest = Some ''d1'', spec_DigestCode = 18, spec_Size = 7\<rparr>"

definition sample_lib :: forge_lib where
  "sample_lib = \<lparr>
     Command = (\<lambda>cm. case cm of AllocateCmd \<Rightarrow> ''/blob/allocate'' | AcceptCmd \<Rightarrow> ''/blob/accept''
       | ReleaseCmd \<Rightarrow> ''/blob/release'' | RejectCmd \<Rightarrow> ''/blob/reject''
       | ReplicaAllocateCmd \<Rightarrow> ''/blob/replica/allocate'' | HttpPutCmd \<Rightarrow> ''/http/put''
       | AssertLocationCmd \<Rightarrow> ''/assert/location''),
     Invoke = sample_invoke,
     ProofChain = (\<lambda>ct iss name subj. Ok ([], [])),
     ErrorModel_Unmarshal = (\<lambda>b. Ok (Named ''Failure'' b)),
     AllocateOK_Unmarshal = (\<lambda>b. Ok \<lparr>aok_Address = (if b = '''' then None else Some b)\<rparr>),
     AcceptOK_Unmarshal = (\<lambda>b. Ok \<lparr>acok_Site = b, acok_PDP = ''pdp'' @ b\<rparr>),
     ReleaseOK_Unmarshal = (\<lambda>b. Ok ()),
     RejectOK_Unmarshal = (\<lambda>b. Ok ()),
     ReplicaAllocateOK_Unmarshal = Ok,
     AddOK_Unmarshal = Ok,
     PutOK_Unmarshal = (\<lambda>b. Ok (if b = '''' then None else Some b)),
     AllocateArguments_Unmarshal = (\<lambda>b. Ok \<lparr>alloc_Space = ''space'', alloc_Blob = sample_spec, alloc_Cause = drop 2 b\<rparr>),
     AcceptArguments_Unmarshal = (\<lambda>b. Ok \<lparr>acc_Space = ''space'', acc_Blob = sample_spec, acc_Put = drop 2 b\<rparr>),
     PutArguments_Unmarshal = (\<lambda>b. Ok \<lparr>put_Body = sample_spec, put_Destination = drop 2 b\<rparr>),
     LocationArguments_Unmarshal = Ok,
     multihash_Decode = (\<lambda>m. Ok 18),
     cid_Hash = (\<lambda>c. replicate 32 CHR ''h'' @ c),
     FromRaw = (\<lambda>b. Ok (''did:key:'' @ b)),
     IssueOK = (\<lambda>iss t. Ok \<lparr>rcpt_Link = ''r'' @ t, rcpt_Ran = t, rcpt_Issuer = iss, rcpt_Out = OutOk ''''\<rparr>),
     ErrConclusionReceiptNotFound = Named ''ConclusionReceiptNotFound'' '''',
     ErrUnsupportedDigestCode = Named ''UnsupportedDigestCode'' '''',
     UnsupportedDigestCodeErrorName = ''UnsupportedDigestCode'',
     InsufficientStorageErrorName = ''InsufficientStorage'',
     ErrMissingCause = Named ''MissingCause'' '''',
     MissingCauseErrorName = ''MissingCause'',
     BlobAcceptedErrorName = ''BlobAccepted''\<rparr>"

text \<open>A network that counts its requests and answers each invocation with a success.\<close>

definition sample_receipt :: "token \<Rightarrow> receipt" where
  "sample_receipt iv = \<lparr>rcpt_Link = ''r'' @ tok_Task iv, rcpt_Ran = tok_Task iv, rcpt_Issuer = tok_Audience iv,
     rcpt_Out = OutOk ''site''\<rparr>"

definition sample_node :: "nat node" where
  "sample_node = \<lparr>
     node_NewHTTP = (\<lambda>e. Ok ()),
     node_Execute = (\<lambda>c iv opts n. (n + 1, Ok \<lparr>resp_Receipt = sample_receipt iv, resp_Metadata = None\<rparr>)),
     node_ExecuteBatch = (\<lambda>c invs opts n. (n + 1, Ok \<lparr>batch_Receipt =
       map_of (map (\<lambda>iv. (tok_Task iv, sample_receipt iv)) invs), batch_Metadata = None\<rparr>)),
     ucan_Now = (\<lambda>n i. 0)\<rparr>"

definition sample_request :: AcceptRequest where
  "sample_request = \<lparr>creq_Space = ''space'', creq_Blob = sample_spec, creq_Put = ''p1'', creq_PutInvocation = None,
     creq_PutReceipt = None\<rparr>"

definition sample_client :: Client where
  "sample_client = piri_NewWithClient ''did:key:n1'' ''did:web:up'' ''https://n1''"

theorem AcceptBatch_aligned_witness:
  "\<exists>results. AcceptBatch sample_lib sample_node sample_client [sample_request] sample_proofs [WithNoNonce] 0 =
      (1, results, [None], Ok ()) \<and> length results = 1 \<and> answered sample_node sample_client (results ! 0)"
proof -
  obtain w' results metas r where b:
    "AcceptBatch sample_lib sample_node sample_client [sample_request] sample_proofs [WithNoNonce] 0 =
       (w', results, metas, r)"
    by (metis prod_cases4)
  have v: "w' = 1 \<and> metas = [None] \<and> r = Ok ()"
    using b by (simp add: AcceptBatch_def putEvidence_def sample_request_def sample_spec_def acceptProofs_def
        sample_lib_def accept_chunks.simps maxAcceptBatch_def acceptInvocation_def sample_invoke_def sample_node_def)
  with AcceptBatch_aligned [OF b] b show ?thesis
    by (auto simp: batch_state_def)
qed

end
