(* ===== verification/Provisioning.thy ===== *)
theory Provisioning
  imports Accounts
begin

section \<open>Provisioning and billing\<close>

text \<open>
  \<^verbatim>\<open>pkg/provisioning/service.go\<close> over the subscription and consumer stores, and
  \<^verbatim>\<open>pkg/billing/service.go\<close> over the customer store. The subscription ID of a space is the CID of a
  small CBOR map; the CBOR and CID libraries are parameters. \<^verbatim>\<open>ListServiceProviders\<close> pages until a
  page has no cursor, which it need not reach, so its loop is a \<^theory_text>\<open>partial_function\<close>; over the
  consumer store it returns, by the contract \<open>pager\<close>.
\<close>

record provisioning_Service =
  providers :: "did list"
  consumerStore :: consumer_store
  subscriptionStore :: subscription_store

record cid_lib =
  marshal_map :: "(string \<times> string) list \<Rightarrow> bytes res"
  prefix_Sum :: "bytes \<Rightarrow> cid res"

definition ErrProviderNotAllowed :: gerr where
  "ErrProviderNotAllowed = Named ''ProviderNotAllowed'' ''provider not allowed''"

definition provisioning_NewService ::
  "did list \<Rightarrow> consumer_store \<Rightarrow> subscription_store \<Rightarrow> provisioning_Service" where
  "provisioning_NewService ps cs ss =
     \<lparr>providers = ps, consumerStore = cs, subscriptionStore = ss\<rparr>"

definition GetConsumer :: "'z provisioning_Service_scheme \<Rightarrow> did \<Rightarrow> did \<Rightarrow> consumer_Record res" where
  "GetConsumer s provider space = consumer_Get (consumerStore s) provider space"

definition GetSubscription ::
  "'z provisioning_Service_scheme \<Rightarrow> did \<Rightarrow> string \<Rightarrow> subscription_Record res" where
  "GetSubscription s provider subscription = subscription_Get (subscriptionStore s) provider subscription"

fun note_providers :: "('a \<Rightarrow> did) \<Rightarrow> 'a list \<Rightarrow> did set \<times> did list \<Rightarrow> did set \<times> did list" where
  "note_providers prov [] acc = acc"
| "note_providers prov (rec # recs) (seen, ps) =
     (if prov rec \<in> seen then note_providers prov recs (seen, ps)
      else note_providers prov recs (insert (prov rec) seen, ps @ [prov rec]))"

partial_function (option) providers_loop ::
  "(string option \<Rightarrow> 'a Page res) \<Rightarrow> ('a \<Rightarrow> did) \<Rightarrow> 'a Page \<Rightarrow> did set \<times> did list \<Rightarrow> did list res option" where
  "providers_loop getPage prov page acc =
     (let acc = note_providers prov (Results page) acc in
      case page_Cursor page of
        None \<Rightarrow> Some (Ok (snd acc))
      | Some c \<Rightarrow>
          (case getPage (Some c) of
             Err e \<Rightarrow> Some (Err e)
           | Panic \<Rightarrow> Some Panic
           | Ok page \<Rightarrow> providers_loop getPage prov page acc))"

definition ListServiceProviders :: "'z provisioning_Service_scheme \<Rightarrow> did \<Rightarrow> did list res option" where
  "ListServiceProviders s space =
     (case consumer_List (consumerStore s) space [] of
        Err e \<Rightarrow> Some (Err e)
      | Panic \<Rightarrow> Some Panic
      | Ok page \<Rightarrow>
          providers_loop (\<lambda>c. consumer_List (consumerStore s) space
             (case c of None \<Rightarrow> [] | Some k \<Rightarrow> [consumer_WithListCursor k])) con_Provider page ({}, []))"

definition NewSubscriptionID :: "formats \<Rightarrow> cid_lib \<Rightarrow> did \<Rightarrow> string res" where
  "NewSubscriptionID F L consumer =
     (case marshal_map L [(''consumer'', consumer)] of
        Err e \<Rightarrow> Err e
      | Panic \<Rightarrow> Panic
      | Ok buf \<Rightarrow>
          (case prefix_Sum L buf of
             Err e \<Rightarrow> Err e
           | Panic \<Rightarrow> Panic
           | Ok c \<Rightarrow> Ok (cid_String F c)))"

definition Provision ::
  "formats \<Rightarrow> cid_lib \<Rightarrow> did \<Rightarrow> did \<Rightarrow> did \<Rightarrow> cid \<Rightarrow>
   'z provisioning_Service_scheme \<Rightarrow> 'z provisioning_Service_scheme \<times> string res" where
  "Provision F L customer consumer provider cause s =
     (if provider \<notin> set (providers s) then (s, Err ErrProviderNotAllowed)
      else
        (case NewSubscriptionID F L consumer of
           Panic \<Rightarrow> (s, Panic)
         | Err e \<Rightarrow> (s, Err (Wrap ''creating subscription ID'' e))
         | Ok subscriptionID \<Rightarrow>
             (let (ss, r) = subscription_Add provider subscriptionID customer cause (subscriptionStore s);
                  s = s\<lparr>subscriptionStore := ss\<rparr>
              in case (case r of
                         Err e \<Rightarrow> (if \<not> errors_Is e ErrSubscriptionExists
                                  then Err (Wrap ''adding subscription'' e) else Ok ())
                       | Panic \<Rightarrow> Panic
                       | Ok _ \<Rightarrow> Ok ()) of
                   Err e \<Rightarrow> (s, Err e)
                 | Panic \<Rightarrow> (s, Panic)
                 | Ok _ \<Rightarrow>
                     (let (cs, r) = consumer_Add provider consumer customer subscriptionID cause
                                      (consumerStore s);
                          s = s\<lparr>consumerStore := cs\<rparr>
                      in case r of
                           Err e \<Rightarrow> (s, Err (Wrap ''adding consumer'' e))
                         | Panic \<Rightarrow> (s, Panic)
                         | Ok _ \<Rightarrow> (s, Ok subscriptionID)))))"

subsection \<open>Billing\<close>

definition ErrMissingPaymentPlan :: gerr where
  "ErrMissingPaymentPlan = Named ''MissingPaymentPlan'' ''account does not have a payment plan''"

definition PaymentPlan :: "customer_store \<Rightarrow> did \<Rightarrow> did res" where
  "PaymentPlan customers account =
     (case customer_Get customers account of
        Err e \<Rightarrow> (if errors_Is e ErrCustomerNotFound then Err ErrMissingPaymentPlan
                 else Err (Wrap ''getting customer'' e))
      | Panic \<Rightarrow> Panic
      | Ok r \<Rightarrow> Ok (cust_Product r))"

subsection \<open>Listing the providers of a space\<close>

lemma note_providers_append:
  "note_providers prov (xs @ ys) acc = note_providers prov ys (note_providers prov xs acc)"
  by (induction prov xs acc rule: note_providers.induct) auto

lemma note_providers_spec:
  assumes "seen = set ps" and "distinct ps"
  shows "\<exists>ps'. note_providers prov recs (seen, ps) = (set ps', ps') \<and> distinct ps' \<and>
    set ps' = set ps \<union> prov ` set recs"
  using assms
proof (induction recs arbitrary: seen ps)
  case (Cons r recs)
  show ?case
  proof (cases "prov r \<in> seen")
    case True
    with Cons.IH [OF Cons.prems] Cons.prems(1) show ?thesis by auto
  next
    case False
    with Cons.IH [of "insert (prov r) seen" "ps @ [prov r]"] Cons.prems show ?thesis by auto
  qed
qed simp

context pager
begin

lemma providers_loop_items:
  assumes "wf s" and "resumes s c p" and "p \<le> length (items s)" and "list_page s c = Ok page"
    and pages: "\<And>c. getPage c = list_page s c"
  shows "providers_loop getPage prov page (note_providers prov (take p (items s)) acc) =
    Some (Ok (snd (note_providers prov (items s) acc)))"
  using assms(2,3,4)
proof (induction "length (items s) - p" arbitrary: c p page rule: less_induct)
  case less
  from \<open>wf s\<close> less.prems(1,2) show ?case
  proof (cases rule: serves_cases)
    case (last_page page')
    then show ?thesis
      using less.prems(3)
      by (simp add: providers_loop.simps note_providers_append [symmetric])
  next
    case (more page' c' q)
    then obtain page'' where next_page: "list_page s (Some c') = Ok page''"
      using serves [OF \<open>wf s\<close>, of "Some c'" q] by auto
    have "length (items s) - q < length (items s) - p"
      using more by linarith
    from less.hyps [OF this more(7) more(5) next_page] more less.prems(3) show ?thesis
      by (subst providers_loop.simps)
        (simp add: pages next_page note_providers_append [symmetric])
  qed
qed

end

lemma ListServiceProviders_items:
  assumes "consumers_ok (consumerStore s)" and "int (length (consumerStore s space)) \<le> MaxInt64"
  shows "ListServiceProviders s space =
    Some (Ok (snd (note_providers con_Provider (consumerStore s space) ({}, []))))"
proof -
  let ?v = "(consumerStore s, space)"
  have wf: "consumer_list_wf ?v"
    using assms by (simp add: consumer_list_wf_def)
  note start = consumer_pages.resumes_start [OF wf]
  obtain page where "consumer_page ?v None = Ok page"
    using consumer_pages.serves [OF wf start] by auto
  with consumer_pages.providers_loop_items [OF wf start _ this,
      where getPage = "consumer_page ?v" and prov = con_Provider and acc = "({}, [])"]
  show ?thesis
    by (simp add: ListServiceProviders_def consumer_page_def consumer_items_def)
qed

subsection \<open>Provisioning a space\<close>

text \<open>Every consumer stands under a subscription the provider knows.\<close>

definition provisioned_ok :: "'z provisioning_Service_scheme \<Rightarrow> bool" where
  "provisioned_ok s \<longleftrightarrow> consumers_ok (consumerStore s) \<and>
     (\<forall>space. \<forall>c \<in> set (consumerStore s space).
        subscription_lookup (subscriptionStore s) (con_Provider c, con_Subscription c) \<noteq> None)"

lemma subscription_Add_lookup:
  "subscription_lookup (fst (subscription_Add p i c cause ss)) =
     (case subscription_lookup ss (p, i) of
        None \<Rightarrow> (subscription_lookup ss)((p, i) \<mapsto> subscription_make (p, i) (c, cause))
      | Some _ \<Rightarrow> subscription_lookup ss)"
  using subscription_Add_new(2) [of ss p i c cause] subscription_Add_held [of ss p i c cause]
  by (cases "subscription_lookup ss (p, i)") auto

lemma snd_subscription_Add:
  "snd (subscription_Add p i c cause ss) = (if subscription_lookup ss (p, i) = None then Ok () else Err ErrSubscriptionExists)"
  using subscription_Add_new(1) [of ss p i c cause] subscription_Add_held [of ss p i c cause] by auto

lemma subscription_Get_lookup: "subscription_Get ss provider i = (case subscription_lookup ss (provider, i) of
    None \<Rightarrow> Err ErrSubscriptionNotFound | Some r \<Rightarrow> Ok r)"
  using subscription_table.get_lookup [of ss "(provider, i)"] by simp

lemma Provision_eq:
  assumes "provider \<in> set (providers s)" and "NewSubscriptionID F L consumer = Ok i"
  shows "Provision F L customer consumer provider cause s =
    (let ss = fst (subscription_Add provider i customer cause (subscriptionStore s));
         (cs, r) = consumer_Add provider consumer customer i cause (consumerStore s)
     in (s\<lparr>subscriptionStore := ss, consumerStore := cs\<rparr>,
         case r of Ok _ \<Rightarrow> Ok i | Err e \<Rightarrow> Err (Wrap ''adding consumer'' e) | Panic \<Rightarrow> Panic))"
proof -
  obtain ss r where a: "subscription_Add provider i customer cause (subscriptionStore s) = (ss, r)"
    by fastforce
  have "r = Ok () \<or> r = Err ErrSubscriptionExists"
    using snd_subscription_Add [of provider i customer cause "subscriptionStore s"] a by (auto split: if_splits)
  moreover have "errors_Is ErrSubscriptionExists ErrSubscriptionExists"
    by (simp add: ErrSubscriptionExists_def)
  ultimately show ?thesis
    using assms a by (auto simp: Provision_def Let_def split: prod.split res.split)
qed

lemma provisioned_ok_Provision:
  assumes "provisioned_ok s"
  shows "provisioned_ok (fst (Provision F L customer consumer provider cause s))"
proof (cases "provider \<in> set (providers s) \<and> is_Ok (NewSubscriptionID F L consumer)")
  case True
  then obtain i where i: "NewSubscriptionID F L consumer = Ok i" and p: "provider \<in> set (providers s)"
    by (auto simp: is_Ok_iff)
  have "consumers_ok (fst (consumer_Add provider consumer customer i cause (consumerStore s)))"
    using assms by (auto simp: provisioned_ok_def intro: inv_intros)
  then show ?thesis
    using assms unfolding Provision_eq [OF p i] provisioned_ok_def
    by (auto simp: subscription_Add_lookup consumer_Add_def Let_def split: option.splits if_splits)
next
  case False
  then show ?thesis
    using assms by (cases "NewSubscriptionID F L consumer") (auto simp: Provision_def)
qed

text \<open>A service in motion: provisioning calls, one after the other.\<close>

inductive provision_step :: "formats \<Rightarrow> cid_lib \<Rightarrow> provisioning_Service \<Rightarrow> provisioning_Service \<Rightarrow> bool"
  for F L where
  "Provision F L customer consumer provider cause s = (t, r) \<Longrightarrow> provision_step F L s t"

inductive_cases provision_stepE: "provision_step F L s t"

interpretation provision_system: invariant_of
  "\<lambda>s. \<exists>ps. s = provisioning_NewService ps consumer_New subscription_New" "provision_step F L"
  provisioned_ok for F L
proof unfold_locales
  fix s t :: provisioning_Service
  show "\<exists>ps. s = provisioning_NewService ps consumer_New subscription_New \<Longrightarrow> provisioned_ok s"
    by (auto simp: provisioned_ok_def provisioning_NewService_def consumers_ok_def consumer_New_def)
  assume "provisioned_ok s" "provision_step F L s t"
  then show "provisioned_ok t"
    by (metis fst_conv provision_stepE provisioned_ok_Provision)
qed

subsection \<open>Properties\<close>

definition sample_cid_lib :: cid_lib where
  "sample_cid_lib = \<lparr>marshal_map = (\<lambda>m. Ok (concat (map snd m))), prefix_Sum = Ok\<rparr>"

definition sample_service :: provisioning_Service where
  "sample_service = fst (Provision sample_formats sample_cid_lib ''did:mailto:a'' ''did:key:space'' ''did:web:up'' ''c1''
     (provisioning_NewService [''did:web:up'', ''did:web:two''] consumer_New subscription_New))"

lemma sample_service_ok: "provisioned_ok sample_service"
  unfolding sample_service_def
  by (rule provisioned_ok_Provision)
    (simp add: provisioned_ok_def provisioning_NewService_def consumers_ok_def consumer_New_def)

text \<open>
Property C35. In every state a sequence of provisioning calls reaches, every consumer stands under its
own space and under a subscription its provider holds, and no space holds the same (provider,
customer, subscription) twice.
\<close>

theorem provisioning_referential:
  assumes "reachable (\<lambda>s. \<exists>ps. s = provisioning_NewService ps consumer_New subscription_New)
      (provision_step F L) s"
    and "c \<in> set (consumerStore s space)"
  shows "con_Consumer c = space \<and>
    is_Ok (subscription_Get (subscriptionStore s) (con_Provider c) (con_Subscription c)) \<and>
    distinct (map consumer_key (consumerStore s space))"
  using provision_system.reachable_inv [OF assms(1)] assms(2)
  by (fastforce simp: provisioned_ok_def consumers_ok_def subscription_Get_lookup)

lemma sample_service_reachable:
  "reachable (\<lambda>s. \<exists>ps. s = provisioning_NewService ps consumer_New subscription_New)
     (provision_step sample_formats sample_cid_lib) sample_service"
  unfolding sample_service_def
  by (rule reach_step [where step = "provision_step sample_formats sample_cid_lib", OF reach_init])
    (auto intro: provision_step.intros [OF prod.collapse [symmetric]])

theorem provisioning_referential_witness:
  "is_Ok (subscription_Get (subscriptionStore sample_service) ''did:web:up''
     (con_Subscription (hd (consumerStore sample_service ''did:key:space''))))"
proof -
  have "map con_Provider (consumerStore sample_service ''did:key:space'') = [''did:web:up'']"
    by code_simp
  then obtain c where "consumerStore sample_service ''did:key:space'' = [c]" "con_Provider c = ''did:web:up''"
    by auto
  with provisioning_referential [OF sample_service_reachable, of c "''did:key:space''"] show ?thesis
    by simp
qed

text \<open>
Property C36. Provisioning refuses a provider that is not allowed and changes nothing then. Otherwise,
where the subscription ID can be made, it refuses only the repetition by the same customer: where this customer already
provisioned the space with the provider under the ID, it reports that the consumer exists, leaving consumers as they were. In
every other case it succeeds: the consumer is recorded last in the space with the cause, and the subscription exists; an
existing subscription is kept as it was. So a second customer that provisions a space that is already provisioned
with the provider succeeds with the in-memory stores, and the subscription stays the first customer's, where the comment
on \<^verbatim>\<open>Provision\<close> says that such a consumer is refused; the Postgres store refuses it (\<open>Pg_Members\<close>).
\<close>

theorem Provision_spec:
  assumes "Provision F L customer consumer provider cause s = (t, r)"
  shows "case NewSubscriptionID F L consumer of
    Ok i \<Rightarrow>
      (if provider \<notin> set (providers s) then t = s \<and> r = Err ErrProviderNotAllowed
       else if \<exists>c \<in> set (consumerStore s consumer). con_Provider c = provider \<and> con_Consumer c = consumer \<and>
           con_Customer c = customer \<and> con_Subscription c = i
       then r = Err (Wrap ''adding consumer'' ErrConsumerExists) \<and> consumerStore t = consumerStore s
       else r = Ok i \<and>
         consumerStore t = (consumerStore s)(consumer := consumerStore s consumer @
           [\<lparr>con_Provider = provider, con_Consumer = consumer, con_Customer = customer,
             con_Subscription = i, con_Cause = cause\<rparr>]) \<and>
         subscription_Get (subscriptionStore t) provider i =
           (case subscription_Get (subscriptionStore s) provider i of
              Ok old \<Rightarrow> Ok old
            | _ \<Rightarrow> Ok \<lparr>sub_Provider = provider, sub_Subscription = i, sub_Customer = customer,
                 sub_Cause = cause, sub_InsertedAt = go_zero_time\<rparr>))
  | Err e \<Rightarrow> t = s \<and> r = Err (if provider \<in> set (providers s)
        then Wrap ''creating subscription ID'' e else ErrProviderNotAllowed)
  | Panic \<Rightarrow> t = s \<and> r = (if provider \<in> set (providers s) then Panic else Err ErrProviderNotAllowed)"
proof (cases "NewSubscriptionID F L consumer")
  case (Ok i)
  show ?thesis
  proof (cases "provider \<in> set (providers s)")
    case True
    show ?thesis
    proof (cases "\<exists>c \<in> set (consumerStore s consumer). con_Provider c = provider \<and>
        con_Consumer c = consumer \<and> con_Customer c = customer \<and> con_Subscription c = i")
      case held: True
      from Provision_eq [OF True Ok, of customer cause] assms
      have "r = Err (Wrap ''adding consumer'' ErrConsumerExists)" "consumerStore t = consumerStore s"
        unfolding consumer_Add_def if_P [OF held] by auto
      with held True Ok show ?thesis by simp
    next
      case new: False
      from Provision_eq [OF True Ok, of customer cause] assms
      have "r = Ok i" "t = s\<lparr>subscriptionStore := fst (subscription_Add provider i customer cause (subscriptionStore s)),
          consumerStore := (consumerStore s)(consumer := consumerStore s consumer @
            [\<lparr>con_Provider = provider, con_Consumer = consumer, con_Customer = customer,
              con_Subscription = i, con_Cause = cause\<rparr>])\<rparr>"
        unfolding consumer_Add_def if_not_P [OF new] by auto
      with new True Ok show ?thesis
        by (simp add: subscription_Get_lookup subscription_Add_lookup subscription_make_def split: option.split)
    qed
  next
    case False
    with assms Ok show ?thesis by (simp add: Provision_def)
  qed
qed (use assms in \<open>auto simp: Provision_def split: if_splits\<close>)

theorem Provision_spec_witness:
  "Provision sample_formats sample_cid_lib ''did:mailto:a'' ''did:key:space'' ''did:web:evil'' ''c9'' sample_service =
     (sample_service, Err ErrProviderNotAllowed) \<and>
   snd (Provision sample_formats sample_cid_lib ''did:mailto:a'' ''did:key:space'' ''did:web:up'' ''c9'' sample_service) =
     Err (Wrap ''adding consumer'' ErrConsumerExists)"
proof -
  have "NewSubscriptionID sample_formats sample_cid_lib ''did:key:space'' = Ok (b64_encode ''did:key:space'')"
    by (simp add: NewSubscriptionID_def sample_cid_lib_def sample_formats_def)
  moreover have "providers sample_service = [''did:web:up'', ''did:web:two'']"
    by code_simp
  moreover have "\<exists>c \<in> set (consumerStore sample_service ''did:key:space''). con_Provider c = ''did:web:up'' \<and>
      con_Consumer c = ''did:key:space'' \<and> con_Customer c = ''did:mailto:a'' \<and>
      con_Subscription c = b64_encode ''did:key:space''"
    by code_simp
  ultimately show ?thesis
    using Provision_spec [OF prod.collapse [symmetric], where F = sample_formats and L = sample_cid_lib
        and customer = "''did:mailto:a''" and consumer = "''did:key:space''" and provider = "''did:web:evil''"
        and cause = "''c9''" and s = sample_service]
      Provision_spec [OF prod.collapse [symmetric], where F = sample_formats and L = sample_cid_lib
        and customer = "''did:mailto:a''" and consumer = "''did:key:space''" and provider = "''did:web:up''"
        and cause = "''c9''" and s = sample_service]
    by (simp add: prod_eq_iff)
qed

lemma ListServiceProviders_all:
  assumes "provisioned_ok s" and "int (length (consumerStore s space)) \<le> MaxInt64"
  shows "\<exists>ps. ListServiceProviders s space = Some (Ok ps) \<and> distinct ps \<and>
    set ps = con_Provider ` set (consumerStore s space)"
  using ListServiceProviders_items [of s space] assms
    note_providers_spec [of "{}" "[]" con_Provider "consumerStore s space"]
  by (auto simp: provisioned_ok_def)

text \<open>
Listing the service providers of a space returns, however many pages of consumers the
space has, and names each provider that has a consumer of the space exactly once and no other.
\<close>

theorem ListServiceProviders_spec:
  assumes "provisioned_ok s" and "int (length (consumerStore s space)) \<le> MaxInt64"
  shows "\<exists>ps. ListServiceProviders s space = Some (Ok ps) \<and> distinct ps \<and>
    set ps = con_Provider ` set (consumerStore s space)"
  using ListServiceProviders_all [OF assms] .

theorem ListServiceProviders_spec_witness:
  "\<exists>ps. ListServiceProviders sample_service ''did:key:space'' = Some (Ok ps) \<and> set ps = {''did:web:up''}"
proof -
  have "map con_Provider (consumerStore sample_service ''did:key:space'') = [''did:web:up'']"
    by code_simp
  then have "int (length (consumerStore sample_service ''did:key:space'')) \<le> MaxInt64"
    "con_Provider ` set (consumerStore sample_service ''did:key:space'') = {''did:web:up''}"
    by (auto simp: MaxInt64_def)
  with ListServiceProviders_spec [OF sample_service_ok, of "''did:key:space''"] show ?thesis
    by auto
qed

text \<open>
A customer once added is found with the product it was added with or last updated to, an
account that was never added has no payment plan, adding an account again is refused without a
change, and no operation on one account touches the plan of another.
\<close>

theorem PaymentPlan_spec:
  assumes "customers_ok cs" and "customer_Add k acc prd det cap now cs = (cs', r)"
  shows "PaymentPlan cs' k = (case PaymentPlan cs k of Ok old \<Rightarrow> Ok old | _ \<Rightarrow> Ok prd) \<and>
    r = (if is_Ok (PaymentPlan cs k) then Err ErrCustomerExists else Ok ()) \<and>
    (k' \<noteq> k \<longrightarrow> PaymentPlan cs' k' = PaymentPlan cs k') \<and>
    PaymentPlan (fst (customer_UpdateProduct k prd' now' cs')) k = Ok prd' \<and>
    (k' \<noteq> k \<longrightarrow> PaymentPlan (fst (customer_UpdateProduct k prd' now' cs')) k' = PaymentPlan cs k')"
proof -
  have add: "customer_add k (acc, prd, det, cap, now) cs = (cs', r)"
    using assms(2) by (simp add: customer_add_def)
  note after = customer_table.get_after_add [OF assms(1) add]
  have plan: "PaymentPlan s x = (case customer_lookup s x of None \<Rightarrow> Err ErrMissingPaymentPlan
      | Some c \<Rightarrow> Ok (cust_Product c))" for s x
    by (simp add: PaymentPlan_def customer_table.get_lookup ErrCustomerNotFound_def split: option.split)
  obtain c where c: "customer_lookup cs' k = Some c"
    using after(1) by (auto simp: customer_table.get_lookup split: option.splits)
  then obtain i where i: "IndexFunc (\<lambda>c. cust_Customer c = k) cs' = Some i"
    by (cases "IndexFunc (\<lambda>c. cust_Customer c = k) cs'")
      (auto simp: customer_lookup_def IndexFunc_None_iff find_None_iff dest!: find_SomeD)
  let ?y = "(cs' ! i)\<lparr>cust_Product := prd', cust_UpdatedAt := now'\<rparr>"
  have "cust_Customer ?y = k"
    using IndexFunc_SomeD [OF i] by simp
  note upd = find_update_key [OF i this]
  have other: "k' \<noteq> k \<Longrightarrow> customer_lookup cs' k' = customer_lookup cs k'"
    using after(2) [of k'] by (auto simp: customer_table.get_lookup split: option.splits)
  have "PaymentPlan (fst (customer_UpdateProduct k prd' now' cs')) k = Ok prd'"
    "k' \<noteq> k \<Longrightarrow> PaymentPlan (fst (customer_UpdateProduct k prd' now' cs')) k' = PaymentPlan cs' k'"
    using upd by (simp_all add: plan customer_UpdateProduct_def i customer_lookup_def)
  with after other show ?thesis
    by (auto simp: plan customer_table.get_lookup customer_make_def split: option.splits)
qed

theorem PaymentPlan_spec_witness:
  "PaymentPlan (fst (customer_Add ''did:mailto:a'' None ''did:web:free'' Map.empty None 5 customer_New)) ''did:mailto:a'' =
     Ok ''did:web:free''"
proof -
  have "customers_ok customer_New" "PaymentPlan customer_New ''did:mailto:a'' = Err ErrMissingPaymentPlan"
    by (simp_all add: customers_ok_def customer_New_def PaymentPlan_def customer_Get_def ErrCustomerNotFound_def)
  with PaymentPlan_spec [OF _ prod.collapse [symmetric], of customer_New "''did:mailto:a''" None "''did:web:free''"
      Map.empty None 5] show ?thesis
    by simp
qed

end
