(* ===== verification/Conclude.thy ===== *)
theory Conclude
  imports Piri_Client Provisioning
begin

section \<open>Concluding puts\<close>

text \<open>
  \<^verbatim>\<open>pkg/service/handlers/ucan_conclude.go\<close> and \<^verbatim>\<open>ucan_conclude_http_put.go\<close>: a client delivers the
  receipts of its \<^verbatim>\<open>/http/put\<close> tasks, the service resolves each to the allocation it fulfils, has the
  storage nodes accept the blobs, writes what they attest to the message store and registers the
  blobs that were accepted.

  An environment \<open>env\<close> holds the parameters: text forms, the libraries, the network, the identity of
  the service, and, as functions of the outside world, the order maps are ranged over, the random
  draws and the clock. The state of the service is the record \<open>service\<close>. Logging is left out.
\<close>

record 'w env =
  env_F :: formats
  env_U :: ucan_lib
  env_L :: forge_lib
  env_N :: "'w node"
  env_id :: did
  env_order :: "'w \<Rightarrow> nat \<Rightarrow> did list"
  env_draw :: "'w \<Rightarrow> nat \<Rightarrow> int \<Rightarrow> int"
  env_clock :: "'w \<Rightarrow> nat \<Rightarrow> clock"
  containerTokenBudget :: int

record 'w service =
  net :: 'w
  agentStore :: agent_store
  blobRegistry :: blob_store
  router :: routing_Service
  provisioningSvc :: provisioning_Service

subsection \<open>Writing agent messages\<close>

definition writeAgentMessage ::
  "'w env \<Rightarrow> token list \<Rightarrow> receipt list \<Rightarrow> agent_store \<Rightarrow> agent_store \<times> unit res" where
  "writeAgentMessage E invs rcpts s =
     (let msg = container_New (env_U E) invs [] rcpts;
          idx = agent_Index msg
      in agent_Write (env_F E) (env_U E) msg idx s)"

record acceptance =
  ac_invs :: "token list"
  ac_rcpts :: "receipt list"

definition acceptance_tokens :: "acceptance \<Rightarrow> nat" where
  "acceptance_tokens a = length (ac_invs a) + length (ac_rcpts a)"

fun write_loop ::
  "'w env \<Rightarrow> acceptance list \<Rightarrow> token list \<Rightarrow> receipt list \<Rightarrow> agent_store \<Rightarrow> agent_store \<times> unit res" where
  "write_loop E [] invs rcpts s =
     (if length invs + length rcpts > 0 then writeAgentMessage E invs rcpts s else (s, Ok ()))"
| "write_loop E (a # acceptances) invs rcpts s =
     (if length invs + length rcpts > 0 \<and>
         int (length invs + length rcpts + acceptance_tokens a) > containerTokenBudget E
      then andThenS (writeAgentMessage E invs rcpts s)
             (\<lambda>_ s. write_loop E acceptances (ac_invs a) (ac_rcpts a) s)
      else write_loop E acceptances (invs @ ac_invs a) (rcpts @ ac_rcpts a) s)"

definition writeAgentMessages ::
  "'w env \<Rightarrow> acceptance list \<Rightarrow> agent_store \<Rightarrow> agent_store \<times> unit res" where
  "writeAgentMessages E acceptances s = write_loop E acceptances [] [] s"

subsection \<open>Acceptances\<close>

text \<open>\<^verbatim>\<open>Unpack\<close> of a failure gives no success bytes.\<close>

definition out_bytes :: "outcome \<Rightarrow> bytes" where
  "out_bytes r = (case r of OutOk b \<Rightarrow> b | OutErr x \<Rightarrow> [])"

definition acceptResult :: "forge_lib \<Rightarrow> receipt \<Rightarrow> AcceptOK res" where
  "acceptResult L rcpt =
     andThen (wrap ''decoding accept result'' (AcceptOK_Unmarshal L (out_bytes (rcpt_Out rcpt)))) (\<lambda>acceptOK.
       if \<not> defined (acok_Site acceptOK) then Err (Errorf ''accept result names no location commitment'')
       else if \<not> defined (acok_PDP acceptOK) then Err (Errorf ''accept result names no PDP task'')
       else Ok acceptOK)"

definition attachedLinks :: "forge_lib \<Rightarrow> receipt \<Rightarrow> cid list" where
  "attachedLinks L rcpt =
     (if IsErr (rcpt_Out rcpt) then []
      else (case acceptResult L rcpt of
              Ok acceptOK \<Rightarrow> [acok_Site acceptOK, acok_PDP acceptOK]
            | _ \<Rightarrow> []))"

text \<open>The containers a node answered with, the nil ones left out, and the maps over them; a later
  invocation replaces an earlier one with the same link or task.\<close>

definition present :: "container option list \<Rightarrow> container list" where
  "present metas = concat (map (\<lambda>m. case m of None \<Rightarrow> [] | Some ct \<Rightarrow> [ct]) metas)"

definition meta_invs :: "container option list \<Rightarrow> token list" where
  "meta_invs metas = concat (map Invocations (present metas))"

definition meta_rcpts :: "container option list \<Rightarrow> receipt list" where
  "meta_rcpts metas = concat (map Receipts (present metas))"

definition index_by :: "('a \<Rightarrow> 'k) \<Rightarrow> 'a list \<Rightarrow> 'k \<rightharpoonup> 'a" where
  "index_by key xs = fold (\<lambda>x m. m(key x \<mapsto> x)) xs Map.empty"

definition invocationsByLink :: "container option list \<Rightarrow> cid \<rightharpoonup> token" where
  "invocationsByLink metas = index_by tok_Link (meta_invs metas)"

fun claim_rcpts :: "receipt list \<Rightarrow> cid set \<Rightarrow> receipt list \<Rightarrow> cid set \<times> receipt list" where
  "claim_rcpts [] claimed acc = (claimed, acc)"
| "claim_rcpts (r # rs) claimed acc =
     (if rcpt_Link r \<in> claimed then claim_rcpts rs claimed acc
      else claim_rcpts rs (insert (rcpt_Link r) claimed) (acc @ [r]))"

text \<open>The state of the grouping loop: the links of the invocations and of the receipts claimed.\<close>

type_synonym claims = "cid set \<times> cid set"

fun claim_links ::
  "(cid \<rightharpoonup> token) \<Rightarrow> (cid \<rightharpoonup> token) \<Rightarrow> (cid \<Rightarrow> receipt list) \<Rightarrow> cid list \<Rightarrow> claims \<Rightarrow> acceptance \<Rightarrow> claims \<times> acceptance" where
  "claim_links byLink byTask byRan [] cl a = (cl, a)"
| "claim_links byLink byTask byRan (link # links) cl a =
     (case (case byLink link of Some iv \<Rightarrow> Some iv | None \<Rightarrow> byTask link) of
        None \<Rightarrow> claim_links byLink byTask byRan links cl a
      | Some iv \<Rightarrow>
          (if tok_Link iv \<in> fst cl then claim_links byLink byTask byRan links cl a
           else
             (let (claimedRcpts, rcpts) = claim_rcpts (byRan (tok_Task iv)) (snd cl) (ac_rcpts a)
              in claim_links byLink byTask byRan links (insert (tok_Link iv) (fst cl), claimedRcpts)
                   (a\<lparr>ac_invs := ac_invs a @ [iv], ac_rcpts := rcpts\<rparr>))))"

text \<open>A result with a receipt has its invocation.\<close>

fun group_results ::
  "forge_lib \<Rightarrow> (cid \<rightharpoonup> token) \<Rightarrow> (cid \<rightharpoonup> token) \<Rightarrow> (cid \<Rightarrow> receipt list) \<Rightarrow> AcceptResult list \<Rightarrow> claims \<Rightarrow>
   acceptance list \<Rightarrow> claims \<times> acceptance list" where
  "group_results L byLink byTask byRan [] cl acceptances = (cl, acceptances)"
| "group_results L byLink byTask byRan (res # results) cl acceptances =
     (case ar_Receipt res of
        None \<Rightarrow> group_results L byLink byTask byRan results cl acceptances
      | Some rcpt \<Rightarrow>
          (let a = \<lparr>ac_invs = [the (ar_Invocation res)], ac_rcpts = [rcpt]\<rparr>;
               (cl, a) = claim_links byLink byTask byRan (attachedLinks L rcpt)
                           (fst cl, insert (rcpt_Link rcpt) (snd cl)) a
           in group_results L byLink byTask byRan results cl (acceptances @ [a])))"

fun left_invs :: "token list \<Rightarrow> claims \<Rightarrow> acceptance list \<Rightarrow> claims \<times> acceptance list" where
  "left_invs [] cl acceptances = (cl, acceptances)"
| "left_invs (iv # invs) cl acceptances =
     (if tok_Link iv \<notin> fst cl
      then left_invs invs (insert (tok_Link iv) (fst cl), snd cl) (acceptances @ [\<lparr>ac_invs = [iv], ac_rcpts = []\<rparr>])
      else left_invs invs cl acceptances)"

fun left_rcpts :: "receipt list \<Rightarrow> claims \<Rightarrow> acceptance list \<Rightarrow> claims \<times> acceptance list" where
  "left_rcpts [] cl acceptances = (cl, acceptances)"
| "left_rcpts (r # rs) cl acceptances =
     (if rcpt_Link r \<notin> snd cl
      then left_rcpts rs (fst cl, insert (rcpt_Link r) (snd cl)) (acceptances @ [\<lparr>ac_invs = [], ac_rcpts = [r]\<rparr>])
      else left_rcpts rs cl acceptances)"

fun left_metas :: "container list \<Rightarrow> claims \<Rightarrow> acceptance list \<Rightarrow> claims \<times> acceptance list" where
  "left_metas [] cl acceptances = (cl, acceptances)"
| "left_metas (meta # metas) cl acceptances =
     (let (cl, acceptances) = left_invs (Invocations meta) cl acceptances;
          (cl, acceptances) = left_rcpts (Receipts meta) cl acceptances
      in left_metas metas cl acceptances)"

definition groupAcceptances :: "forge_lib \<Rightarrow> AcceptResult list \<Rightarrow> container option list \<Rightarrow> acceptance list" where
  "groupAcceptances L results metas =
     (let invsByLink = index_by tok_Link (meta_invs metas);
          invsByTask = index_by tok_Task (meta_invs metas);
          rcptsByRan = (\<lambda>t. filter (\<lambda>r. rcpt_Ran r = t) (meta_rcpts metas));
          (cl, acceptances) = group_results L invsByLink invsByTask rcptsByRan results ({}, {}) []
      in snd (left_metas (present metas) cl acceptances))"

definition checkLocationContent :: "forge_lib \<Rightarrow> token option \<Rightarrow> multihash \<Rightarrow> unit res" where
  "checkLocationContent L claim digest =
     (case claim of
        None \<Rightarrow> Err (Errorf ''location commitment not in the response'')
      | Some iv \<Rightarrow>
          (if tok_Command iv \<noteq> Command L AssertLocationCmd then Err (Errorf ''site is another invocation'')
           else
             andThen (wrap ''decoding location commitment'' (LocationArguments_Unmarshal L (tok_Arguments iv)))
               (\<lambda>content. if content \<noteq> digest then Err (Errorf ''location commitment names another digest'')
                          else Ok ())))"

subsection \<open>From a put to its allocation\<close>

record Conclusion =
  cn_Invocation :: token
  cn_Receipt :: receipt

record concludedPut =
  cp_putInv :: token
  cp_provider :: did
  cp_space :: did
  cp_blob :: Blob
  cp_cause :: cid
  cp_acceptReq :: AcceptRequest

definition putDigest :: "forge_lib \<Rightarrow> receipt \<Rightarrow> uint64 \<Rightarrow> multihash res" where
  "putDigest L rcpt code =
     andThen (wrap ''decoding put result'' (PutOK_Unmarshal L (out_bytes (rcpt_Out rcpt)))) (\<lambda>putOK.
       case putOK of
         None \<Rightarrow> Err (Errorf ''put result reports no digest'')
       | Some digest \<Rightarrow>
           andThen (wrap ''decoding reported digest'' (multihash_Decode L digest)) (\<lambda>c.
             if c \<noteq> code then Err (Errorf ''reported digest has another code'') else Ok digest))"

fun alloc_tasks :: "forge_lib \<Rightarrow> Conclusion list \<Rightarrow> cid list res" where
  "alloc_tasks L [] = Ok []"
| "alloc_tasks L (c # cs) =
     andThen (wrap ''unmarshaling HTTP PUT arguments'' (PutArguments_Unmarshal L (tok_Arguments (cn_Invocation c))))
       (\<lambda>putArgs. andThen (alloc_tasks L cs) (\<lambda>ts. Ok (put_Destination putArgs # ts)))"

fun resolve_loop :: "forge_lib \<Rightarrow> (cid \<rightharpoonup> token) \<Rightarrow> (Conclusion \<times> cid) list \<Rightarrow> concludedPut list res" where
  "resolve_loop L allocInvs [] = Ok []"
| "resolve_loop L allocInvs ((c, task) # cs) =
     (case allocInvs task of
        None \<Rightarrow> Err (Wrap ''getting allocation invocation'' ErrInvocationNotFound)
      | Some allocInv \<Rightarrow>
          andThen (wrap ''unmarshaling allocate arguments'' (AllocateArguments_Unmarshal L (tok_Arguments allocInv)))
            (\<lambda>allocArgs.
               let acceptReq = \<lparr>creq_Space = alloc_Space allocArgs, creq_Blob = alloc_Blob allocArgs,
                     creq_Put = tok_Task (cn_Invocation c), creq_PutInvocation = Some (cn_Invocation c),
                     creq_PutReceipt = Some (cn_Receipt c)\<rparr>
               in case (case spec_Digest (alloc_Blob allocArgs) of
                          Some digest \<Rightarrow> Ok digest
                        | None \<Rightarrow> putDigest L (cn_Receipt c) (spec_DigestCode (alloc_Blob allocArgs))) of
                    Err e \<Rightarrow> resolve_loop L allocInvs cs
                  | Panic \<Rightarrow> Panic
                  | Ok digest \<Rightarrow>
                      andThen (resolve_loop L allocInvs cs) (\<lambda>puts.
                        Ok (\<lparr>cp_putInv = cn_Invocation c, cp_provider = tok_Subject allocInv,
                             cp_space = alloc_Space allocArgs,
                             cp_blob = \<lparr>Digest = digest, Size = spec_Size (alloc_Blob allocArgs)\<rparr>,
                             cp_cause = alloc_Cause allocArgs, cp_acceptReq = acceptReq\<rparr> # puts))))"

definition resolveAllocations :: "'w env \<Rightarrow> agent_store \<Rightarrow> Conclusion list \<Rightarrow> concludedPut list res" where
  "resolveAllocations E s conclusions =
     andThen (alloc_tasks (env_L E) conclusions) (\<lambda>allocTasks.
       andThen (wrap ''getting allocation invocations'' (GetInvocations (env_F E) s allocTasks)) (\<lambda>allocInvs.
         resolve_loop (env_L E) allocInvs (zip conclusions allocTasks)))"

subsection \<open>Accepting on one provider\<close>

text \<open>Which results register their blob: a success receipt with a usable acceptance, whose location
  commitment names the digest where the allocation did not. The decoders it calls are the library's, which
  return an error for bytes they cannot read; a panic in one of them is not told apart from that.\<close>

definition registers :: "forge_lib \<Rightarrow> (cid \<rightharpoonup> token) \<Rightarrow> AcceptResult \<Rightarrow> concludedPut \<Rightarrow> bool" where
  "registers L claims_by_link res put \<longleftrightarrow>
     (case ar_Receipt res of
        None \<Rightarrow> False
      | Some rcpt \<Rightarrow>
          (if IsErr (rcpt_Out rcpt) then False
           else
             (case acceptResult L rcpt of
                Ok acceptOK \<Rightarrow>
                  (if spec_Digest (creq_Blob (cp_acceptReq put)) = None
                   then is_Ok (checkLocationContent L (claims_by_link (acok_Site acceptOK)) (Digest (cp_blob put)))
                   else True)
              | _ \<Rightarrow> False)))"

text \<open>The loop over the results; \<open>clks\<close> gives the clock readings of each registration. A result has no
  put to go with only where there are more results than puts, where indexing panics.\<close>

fun register_loop ::
  "'w env \<Rightarrow> (cid \<rightharpoonup> token) \<Rightarrow> AcceptResult list \<Rightarrow> concludedPut list \<Rightarrow> (nat \<Rightarrow> clock) \<Rightarrow> blob_store \<Rightarrow>
   blob_store \<times> unit res" where
  "register_loop E claims_by_link [] puts clks s = (s, Ok ())"
| "register_loop E claims_by_link (res # results) [] clks s = (s, Panic)"
| "register_loop E claims_by_link (res # results) (put # puts) clks s =
     (if registers (env_L E) claims_by_link res put then
        (case blob_Register (env_F E) (cp_space put) (cp_blob put) (cp_cause put) (clks 0) s of
           (s, Err e) \<Rightarrow>
             (if errors_Is e ErrEntryExists
              then register_loop E claims_by_link results puts (\<lambda>i. clks (Suc i)) s
              else (s, Err e))
         | (s, Panic) \<Rightarrow> (s, Panic)
         | (s, Ok _) \<Rightarrow> register_loop E claims_by_link results puts (\<lambda>i. clks (Suc i)) s)
      else register_loop E claims_by_link results puts (\<lambda>i. clks (Suc i)) s)"

definition acceptOnProvider ::
  "'w env \<Rightarrow> did \<Rightarrow> concludedPut list \<Rightarrow> 'w service \<Rightarrow>
   'w service \<times> token list \<times> receipt list \<times> unit res" where
  "acceptOnProvider E provider puts s =
     (case andThen (wrap ''getting storage provider info'' (GetProviderInfo (router s) provider)) (\<lambda>info.
             andThen (wrap ''creating client''
                 (provider_Client (env_N E) (env_id E) (info_ID info) (info_Endpoint info)))
               (\<lambda>client. Ok (info, client))) of
        Err e \<Rightarrow> (s, [], [], Err e)
      | Panic \<Rightarrow> (s, [], [], Panic)
      | Ok (info, client) \<Rightarrow>
          (let reqs = map cp_acceptReq puts;
               (w, results, metas, acceptErr) =
                 AcceptBatch (env_L E) (env_N E) client reqs (info_Proofs info) [WithNoNonce] (net s);
               acceptErr = wrap ''executing blob accept'' acceptErr;
               s = s\<lparr>net := w\<rparr>;
               acceptances = groupAcceptances (env_L E) results metas;
               accInvs = concat (map ac_invs acceptances);
               accRcpts = concat (map ac_rcpts acceptances)
           in case writeAgentMessages E acceptances (agentStore s) of
                (ag, Err e) \<Rightarrow> (s\<lparr>agentStore := ag\<rparr>, accInvs, accRcpts, Err (Wrap ''writing agent message'' e))
              | (ag, Panic) \<Rightarrow> (s\<lparr>agentStore := ag\<rparr>, accInvs, accRcpts, Panic)
              | (ag, Ok _) \<Rightarrow>
                  (let s = s\<lparr>agentStore := ag\<rparr>;
                       (reg, r) = register_loop E (invocationsByLink metas) results puts
                         (env_clock E (net s)) (blobRegistry s);
                       s = s\<lparr>blobRegistry := reg\<rparr>
                   in case r of
                        Err e \<Rightarrow> (s, accInvs, accRcpts, Err e)
                      | Panic \<Rightarrow> (s, accInvs, accRcpts, Panic)
                      | Ok _ \<Rightarrow> (s, accInvs, accRcpts, acceptErr))))"

definition concludeResponse :: "'w env \<Rightarrow> token list \<Rightarrow> receipt list \<Rightarrow> container option" where
  "concludeResponse E invs rcpts =
     (let ct = container_New (env_U E) invs [] rcpts;
          tokens = length (Invocations ct) + length (Receipts ct) + length (Delegations ct)
      in if int tokens > containerTokenBudget E then None else Some ct)"

text \<open>Grouping in the order of first appearance: the keys seen, and the items of each key in order.\<close>

fun group_by :: "('a \<Rightarrow> 'k) \<Rightarrow> 'a list \<Rightarrow> 'k list \<Rightarrow> ('k \<rightharpoonup> 'a list) \<Rightarrow> 'k list \<times> ('k \<rightharpoonup> 'a list)" where
  "group_by key [] ks by_key = (ks, by_key)"
| "group_by key (x # xs) ks by_key =
     (let ks = (if by_key (key x) = None then ks @ [key x] else ks);
          items = (case by_key (key x) of None \<Rightarrow> [] | Some ys \<Rightarrow> ys)
      in group_by key xs ks (by_key(key x \<mapsto> items @ [x])))"

fun providers_accept ::
  "'w env \<Rightarrow> (did \<rightharpoonup> concludedPut list) \<Rightarrow> did list \<Rightarrow> token list \<Rightarrow> receipt list \<Rightarrow> 'w service \<Rightarrow>
   'w service \<times> container option \<times> unit res" where
  "providers_accept E byProvider [] invocations receipts s =
     (s, concludeResponse E invocations receipts, Ok ())"
| "providers_accept E byProvider (provider # provs) invocations receipts s =
     (let (s, invs, rcpts, r) = acceptOnProvider E provider (the (byProvider provider)) s;
          invocations = invocations @ invs;
          receipts = receipts @ rcpts
      in case r of
           Err e \<Rightarrow> (s, concludeResponse E invocations receipts, Err e)
         | Panic \<Rightarrow> (s, None, Panic)
         | Ok _ \<Rightarrow> providers_accept E byProvider provs invocations receipts s)"

definition HTTPPutConcludeHandler ::
  "'w env \<Rightarrow> Conclusion list \<Rightarrow> 'w service \<Rightarrow> 'w service \<times> container option \<times> unit res" where
  "HTTPPutConcludeHandler E conclusions s =
     (if length conclusions = 0 then (s, None, Ok ())
      else
        (let delivered = filter (\<lambda>c. \<not> IsErr (rcpt_Out (cn_Receipt c))) conclusions in
         if length delivered = 0 then (s, None, Ok ())
         else
           (case resolveAllocations E (agentStore s) delivered of
              Err e \<Rightarrow> (s, None, Err e)
            | Panic \<Rightarrow> (s, None, Panic)
            | Ok puts \<Rightarrow>
                (let (provs, byProvider) = group_by cp_provider puts [] Map.empty
                 in providers_accept E byProvider provs [] [] s))))"

subsection \<open>The conclude handler\<close>

text \<open>What a handler answers with: a success or a failure receipt, and the metadata of the response.
  \<^verbatim>\<open>SetMetadata\<close> may refuse a container.\<close>

datatype 'a response = SetSuccess "container option" 'a | SetFailure gerr

type_synonym 'w conclusion_handler =
  "Conclusion list \<Rightarrow> 'w service \<Rightarrow> 'w service \<times> container option \<times> unit res"

text \<open>The loop that pairs each delivered receipt with the invocation it ran; the outer option is
  the early return for a receipt that was not sent along.\<close>

fun match_receipts ::
  "'w env \<Rightarrow> agent_store \<Rightarrow> (cid \<rightharpoonup> receipt) \<Rightarrow> (cid \<rightharpoonup> token) \<Rightarrow> cid list \<Rightarrow> Conclusion list option res" where
  "match_receipts E s rcptsByLink invsByTask [] = Ok (Some [])"
| "match_receipts E s rcptsByLink invsByTask (root # roots) =
     (case rcptsByLink root of
        None \<Rightarrow> Ok None
      | Some rcpt \<Rightarrow>
          (case (case invsByTask (rcpt_Ran rcpt) of
                   Some iv \<Rightarrow> Ok iv
                 | None \<Rightarrow> GetInvocation (env_F E) s (rcpt_Ran rcpt)) of
             Err e \<Rightarrow>
               (if errors_Is e ErrInvocationNotFound
                then match_receipts E s rcptsByLink invsByTask roots
                else Err (Wrap ''getting invocation'' e))
           | Panic \<Rightarrow> Panic
           | Ok iv \<Rightarrow>
               andThen (match_receipts E s rcptsByLink invsByTask roots) (\<lambda>rest.
                 Ok (map_option (\<lambda>cs. \<lparr>cn_Invocation = iv, cn_Receipt = rcpt\<rparr> # cs) rest))))"

fun run_handlers ::
  "(string \<rightharpoonup> 'w conclusion_handler) \<Rightarrow> (string \<rightharpoonup> Conclusion list) \<Rightarrow> string list \<Rightarrow>
   token list \<Rightarrow> receipt list \<Rightarrow> token list \<Rightarrow> 'w service \<Rightarrow>
   'w service \<times> (token list \<times> receipt list \<times> token list) res" where
  "run_handlers handlers byCommand [] invs rcpts dlgs s = (s, Ok (invs, rcpts, dlgs))"
| "run_handlers handlers byCommand (name # names) invs rcpts dlgs s =
     (case handlers name of
        None \<Rightarrow> run_handlers handlers byCommand names invs rcpts dlgs s
      | Some handler \<Rightarrow>
          (let (s, meta, r) = handler (the (byCommand name)) s;
               (invs, rcpts, dlgs) = (case meta of
                   None \<Rightarrow> (invs, rcpts, dlgs)
                 | Some ct \<Rightarrow> (invs @ Invocations ct, rcpts @ Receipts ct, dlgs @ Delegations ct))
           in case r of
                Err e \<Rightarrow> (s, Err (Wrap ''concluding'' e))
              | Panic \<Rightarrow> (s, Panic)
              | Ok _ \<Rightarrow> run_handlers handlers byCommand names invs rcpts dlgs s))"

definition UCANConcludeHandler ::
  "'w env \<Rightarrow> (container \<Rightarrow> unit res) \<Rightarrow> (string \<rightharpoonup> 'w conclusion_handler) \<Rightarrow> container option \<Rightarrow> cid list \<Rightarrow>
   'w service \<Rightarrow> 'w service \<times> unit response res" where
  "UCANConcludeHandler E setMetadata handlers metadata rcptRoots s =
     (let rcptsByLink = (case metadata of None \<Rightarrow> Map.empty | Some ct \<Rightarrow> index_by rcpt_Link (Receipts ct));
          invsByTask = (case metadata of None \<Rightarrow> Map.empty | Some ct \<Rightarrow> index_by tok_Task (Invocations ct))
      in case match_receipts E (agentStore s) rcptsByLink invsByTask rcptRoots of
           Err e \<Rightarrow> (s, Err e)
         | Panic \<Rightarrow> (s, Panic)
         | Ok None \<Rightarrow> (s, Ok (SetFailure (ErrConclusionReceiptNotFound (env_L E))))
         | Ok (Some conclusions) \<Rightarrow>
             (let (names, byCommand) = group_by (\<lambda>c. tok_Command (cn_Invocation c)) conclusions [] Map.empty
              in andThenS (run_handlers handlers byCommand names [] [] [] s) (\<lambda>(invs, rcpts, dlgs) s.
                   if length invs > 0 \<or> length rcpts > 0 \<or> length dlgs > 0
                   then (let ct = container_New (env_U E) invs dlgs rcpts
                         in andThenS (s, wrap ''setting response metadata'' (setMetadata ct))
                              (\<lambda>_ s. (s, Ok (SetSuccess (Some ct) ()))))
                   else (s, Ok (SetSuccess None ())))))"

subsection \<open>Messages of bounded size\<close>

definition group_tokens :: "acceptance list \<Rightarrow> nat" where
  "group_tokens g = sum_list (map acceptance_tokens g)"

definition merged :: "acceptance list \<Rightarrow> token list \<times> receipt list" where
  "merged g = (concat (map ac_invs g), concat (map ac_rcpts g))"

text \<open>The runs of acceptances that are written together.\<close>

fun pack :: "int \<Rightarrow> acceptance list \<Rightarrow> acceptance list \<Rightarrow> acceptance list list" where
  "pack budget [] g = (if group_tokens g > 0 then [g] else [])"
| "pack budget (a # as) g =
     (if group_tokens g > 0 \<and> int (group_tokens g + acceptance_tokens a) > budget
      then g # pack budget as [a] else pack budget as (g @ [a]))"

definition within :: "int \<Rightarrow> acceptance list \<Rightarrow> bool" where
  "within budget g \<longleftrightarrow> int (group_tokens g) \<le> budget \<or> (\<forall>a \<in> set (butlast g). acceptance_tokens a = 0)"

lemma group_tokens_merged: "length (concat (map ac_invs g)) + length (concat (map ac_rcpts g)) = group_tokens g"
  by (induction g) (simp_all add: group_tokens_def acceptance_tokens_def)

lemma pack_spec:
  assumes "within budget g"
  shows "\<exists>rest. concat (pack budget as g) @ rest = g @ as \<and> (\<forall>a \<in> set rest. acceptance_tokens a = 0) \<and>
    (\<forall>h \<in> set (pack budget as g). 0 < group_tokens h \<and> within budget h)"
  using assms
proof (induction as arbitrary: g)
  case Nil
  then show ?case
    by (cases "0 < group_tokens g") (auto simp: group_tokens_def intro!: exI [of _ g])
next
  case (Cons a as)
  have 1: "within budget [a]"
    by (simp add: within_def)
  show ?case
  proof (cases "group_tokens g > 0 \<and> int (group_tokens g + acceptance_tokens a) > budget")
    case True
    with Cons.IH [OF 1] Cons.prems show ?thesis by auto
  next
    case False
    then have "within budget (g @ [a])"
      by (auto simp: within_def group_tokens_def butlast_append)
    with Cons.IH [OF this] False show ?thesis by auto
  qed
qed

fun write_all :: "'w env \<Rightarrow> (token list \<times> receipt list) list \<Rightarrow> agent_store \<Rightarrow> agent_store \<times> unit res" where
  "write_all E [] s = (s, Ok ())"
| "write_all E ((invs, rcpts) # ms) s = andThenS (writeAgentMessage E invs rcpts s) (\<lambda>_ s. write_all E ms s)"

lemma andThenS_unit: "(\<And>s. f () s = (s, Ok ())) \<Longrightarrow> andThenS p f = p"
  by (cases "(p, f)" rule: andThenS.cases) auto

lemma write_loop_pack:
  "write_loop E as (fst (merged g)) (snd (merged g)) s =
     write_all E (map merged (pack (containerTokenBudget E) as g)) s"
proof (induction as arbitrary: g s)
  case Nil
  show ?case
    using group_tokens_merged [of g] by (simp add: merged_def andThenS_unit del: length_concat)
next
  case (Cons a as)
  have len: "length (fst (merged g)) + length (snd (merged g)) = group_tokens g"
    by (simp only: merged_def fst_conv snd_conv group_tokens_merged)
  have next_group: "write_loop E as (fst (merged g) @ ac_invs a) (snd (merged g) @ ac_rcpts a) s =
      write_all E (map merged (pack (containerTokenBudget E) as (g @ [a]))) s"
    using Cons.IH [of "g @ [a]" s] by (simp add: merged_def [of g] merged_def [of "g @ [a]"])
  have single: "write_loop E as (ac_invs a) (ac_rcpts a) =
      write_all E (map merged (pack (containerTokenBudget E) as [a]))"
    using Cons.IH [of "[a]"] by (simp add: merged_def [of "[a]"] fun_eq_iff)
  obtain invs rcpts where m: "merged g = (invs, rcpts)" by (cases "merged g")
  show ?case
  proof (cases "group_tokens g > 0 \<and> int (group_tokens g + acceptance_tokens a) > containerTokenBudget E")
    case True
    then show ?thesis
      using len single by (simp add: m)
  next
    case False
    then show ?thesis
      using len next_group by (simp only: write_loop.simps pack.simps len if_False)
  qed
qed

text \<open>Writing the packed messages to a store that takes them.\<close>

definition message_of :: "'w env \<Rightarrow> token list \<times> receipt list \<Rightarrow> container" where
  "message_of E = (\<lambda>(invs, rcpts). container_New (env_U E) invs [] rcpts)"

lemma write_all_puts:
  assumes "agent_invar (env_F E) (env_U E) s"
    and "all_writable (env_F E) (env_U E) (map (message_of E) ms) s"
  shows "write_all E ms s = (agent_puts (env_F E) (env_U E) (map (message_of E) ms) s, Ok ())"
  using assms
proof (induction ms arbitrary: s)
  case (Cons m ms)
  obtain invs rcpts where m: "m = (invs, rcpts)" by (cases m)
  have w: "writable (env_U E) s (message_of E m)"
    and rest: "all_writable (env_F E) (env_U E) (map (message_of E) ms)
      (fst (agent_put (env_F E) (env_U E) (message_of E m) s))"
    using Cons.prems(2) by simp_all
  note put = agent_put_ok [OF Cons.prems(1) w]
  have "writeAgentMessage E invs rcpts s =
      (fst (agent_put (env_F E) (env_U E) (message_of E m) s), Ok ())"
    using put(1) by (simp add: m message_of_def writeAgentMessage_def agent_put_def Let_def prod_eq_iff)
  with Cons.IH [OF put(2) rest] show ?case
    by (simp add: m)
qed simp

definition delivered_at :: "formats \<Rightarrow> agent_store \<Rightarrow> container \<Rightarrow> bool" where
  "delivered_at F s m \<longleftrightarrow> (\<exists>l. messages s l = Some m \<and>
     (\<forall>iv \<in> set (Invocations m). l \<in> set (msg_index s (cid_String F (tok_Task iv), InvocationKey))) \<and>
     (\<forall>r \<in> set (Receipts m). l \<in> set (msg_index s (cid_String F (rcpt_Ran r), ReceiptKey))))"

lemma agent_put_delivered:
  assumes "agent_invar F U s" and "writable U s m"
  shows "delivered_at F (fst (agent_put F U m s)) m"
    and "delivered_at F s m' \<Longrightarrow> delivered_at F (fst (agent_put F U m s)) m'"
proof -
  from agent_Write_eq [OF assms(2), of F "agent_Index m"] obtain l where
    put: "agent_put F U m s = (s\<lparr>messages := (messages s)(l \<mapsto> m),
      msg_index := fold (index_add F l) (agent_Index m) (msg_index s)\<rparr>, Ok ())"
    and l: "messages s l = None \<or> messages s l = Some m"
    unfolding agent_put_def by blast
  have F: "formats_ok F" using assms(1) by (simp add: agent_invar_def)
  note idx = agent_put_index [OF F put]
  have msgs: "messages (fst (agent_put F U m s)) = (messages s)(l \<mapsto> m)"
    by (simp add: put)
  show "delivered_at F (fst (agent_put F U m s)) m"
    unfolding delivered_at_def idx msgs by (intro exI [of _ l]) auto
  assume "delivered_at F s m'"
  then obtain l' where l': "messages s l' = Some m'"
    "\<forall>iv \<in> set (Invocations m'). l' \<in> set (msg_index s (cid_String F (tok_Task iv), InvocationKey))"
    "\<forall>r \<in> set (Receipts m'). l' \<in> set (msg_index s (cid_String F (rcpt_Ran r), ReceiptKey))"
    by (auto simp: delivered_at_def)
  with l show "delivered_at F (fst (agent_put F U m s)) m'"
    unfolding delivered_at_def idx msgs by (intro exI [of _ l']) auto
qed

lemma agent_puts_delivered:
  assumes "agent_invar F U s" and "all_writable F U ms s"
  shows "(\<forall>m'. delivered_at F s m' \<longrightarrow> delivered_at F (agent_puts F U ms s) m') \<and>
    (\<forall>m \<in> set ms. delivered_at F (agent_puts F U ms s) m)"
  using assms
proof (induction ms arbitrary: s)
  case (Cons m ms)
  then have w: "writable U s m" and rest: "all_writable F U ms (fst (agent_put F U m s))" by simp_all
  from Cons.IH [OF agent_put_ok(2) [OF Cons.prems(1) w] rest] agent_put_delivered [OF Cons.prems(1) w]
  show ?case by auto
qed simp

text \<open>
Property C31. Writing acceptances as agent messages, where the messages encode: the call succeeds, every
message but those of a single acceptance keeps within the token budget (acceptances with no tokens
aside), and every acceptance that has tokens lies whole in one stored message, which the index gives
for the task of each of its receipts. No acceptance is split or lost, however many there are.
\<close>

theorem writeAgentMessages_whole:
  assumes inv: "agent_invar (env_F E) (env_U E) s"
    and w: "all_writable (env_F E) (env_U E)
      (map (message_of E \<circ> merged) (pack (containerTokenBudget E) as [])) s"
    and r: "writeAgentMessages E as s = (s', r)"
  shows "r = Ok () \<and> agent_invar (env_F E) (env_U E) s' \<and>
    (\<forall>g \<in> set (pack (containerTokenBudget E) as []).
       int (group_tokens g) \<le> containerTokenBudget E \<or> (\<forall>a \<in> set (butlast g). acceptance_tokens a = 0)) \<and>
    (\<forall>a \<in> set as. 0 < acceptance_tokens a \<longrightarrow> (\<exists>l ct. messages s' l = Some ct \<and>
       set (ac_invs a) \<subseteq> set (Invocations ct) \<and> set (ac_rcpts a) \<subseteq> set (Receipts ct) \<and>
       (\<forall>rcpt \<in> set (ac_rcpts a). l \<in> set (msg_index s' (cid_String (env_F E) (rcpt_Ran rcpt), ReceiptKey)))))"
proof (intro conjI ballI impI)
  let ?gs = "pack (containerTokenBudget E) as []"
  let ?ms = "map (message_of E) (map merged ?gs)"
  have w': "all_writable (env_F E) (env_U E) ?ms s" using w by simp
  have "writeAgentMessages E as s = write_all E (map merged ?gs) s"
    using write_loop_pack [of E as "[]" s] by (simp add: writeAgentMessages_def merged_def)
  then have s': "s' = agent_puts (env_F E) (env_U E) ?ms s" and "r = Ok ()"
    using r write_all_puts [OF inv, of "map merged ?gs"] w' by simp_all
  then show "r = Ok ()" by simp
  show "agent_invar (env_F E) (env_U E) s'"
    unfolding s' by (rule agent_puts_invar [OF inv w'])
  have "within (containerTokenBudget E) []" by (simp add: within_def)
  from pack_spec [OF this, of as] obtain rest where
    packed: "concat ?gs @ rest = as" "\<forall>a \<in> set rest. acceptance_tokens a = 0"
    and fit: "\<forall>g \<in> set ?gs. within (containerTokenBudget E) g"
    by auto
  show "int (group_tokens g) \<le> containerTokenBudget E \<or> (\<forall>a \<in> set (butlast g). acceptance_tokens a = 0)"
    if "g \<in> set ?gs" for g using fit that by (simp add: within_def)
  fix a assume "a \<in> set as" "0 < acceptance_tokens a"
  with packed have "a \<in> set (concat ?gs)"
    by (metis Un_iff less_irrefl set_append)
  then obtain g where g: "g \<in> set ?gs" "a \<in> set g" by auto
  let ?m = "message_of E (merged g)"
  have "?m \<in> set ?ms" using g by simp
  then have "delivered_at (env_F E) s' ?m"
    using agent_puts_delivered [OF inv w'] unfolding s' by blast
  moreover have "set (ac_invs a) \<subseteq> set (Invocations ?m)" "set (ac_rcpts a) \<subseteq> set (Receipts ?m)"
    using inv g(2) by (auto simp: agent_invar_def ucan_lib_ok_def message_of_def merged_def)
  ultimately show "\<exists>l ct. messages s' l = Some ct \<and>
       set (ac_invs a) \<subseteq> set (Invocations ct) \<and> set (ac_rcpts a) \<subseteq> set (Receipts ct) \<and>
       (\<forall>rcpt \<in> set (ac_rcpts a). l \<in> set (msg_index s' (cid_String (env_F E) (rcpt_Ran rcpt), ReceiptKey)))"
    unfolding delivered_at_def by blast
qed

text \<open>An instance of the environment: a budget of three tokens.\<close>

definition sample_env :: "nat env" where
  "sample_env = \<lparr>env_F = sample_formats, env_U = sample_ucan_lib, env_L = sample_lib, env_N = sample_node,
     env_id = ''did:web:up'', env_order = (\<lambda>w i. [''did:key:n2'', ''did:key:n1'']), env_draw = (\<lambda>w i n. 0),
     env_clock = (\<lambda>w i. int), containerTokenBudget = 3\<rparr>"

definition sample_acceptance :: "string \<Rightarrow> acceptance" where
  "sample_acceptance t = \<lparr>ac_invs = [\<lparr>tok_Link = ''l'' @ t, tok_Task = t, tok_Issuer = ''did:web:up'',
       tok_Subject = ''did:key:n1'', tok_Audience = ''did:key:n1'', tok_Command = ''/blob/accept'',
       tok_Arguments = '''', tok_Nonce = '''', tok_Proofs = []\<rparr>],
     ac_rcpts = [\<lparr>rcpt_Link = ''r'' @ t, rcpt_Ran = t, rcpt_Issuer = ''did:key:n1'', rcpt_Out = OutOk ''''\<rparr>]\<rparr>"

lemma sample_pack: "pack 3 [sample_acceptance ''1'', sample_acceptance ''2''] [] =
    [[sample_acceptance ''1''], [sample_acceptance ''2'']]"
  by (simp add: group_tokens_def acceptance_tokens_def sample_acceptance_def)

theorem writeAgentMessages_whole_witness:
  "\<exists>s'. writeAgentMessages sample_env [sample_acceptance ''1'', sample_acceptance ''2''] agent_New = (s', Ok ()) \<and>
     (\<exists>l ct. messages s' l = Some ct \<and> set (ac_rcpts (sample_acceptance ''2'')) \<subseteq> set (Receipts ct))"
proof -
  let ?as = "[sample_acceptance ''1'', sample_acceptance ''2'']"
  have inv: "agent_invar (env_F sample_env) (env_U sample_env) agent_New"
    using agent_invar_New [OF sample_formats_ok sample_ucan_lib_ok] by (simp add: sample_env_def)
  have w: "all_writable (env_F sample_env) (env_U sample_env)
      (map (message_of sample_env \<circ> merged) (pack (containerTokenBudget sample_env) ?as [])) agent_New"
    by (simp add: sample_env_def sample_pack del: pack.simps)
      (simp add: message_of_def merged_def writable_def agent_put_def agent_Write_def sample_ucan_lib_def
        sample_acceptance_def agent_New_def)
  obtain s' r where r: "writeAgentMessages sample_env ?as agent_New = (s', r)"
    by (cases "writeAgentMessages sample_env ?as agent_New")
  from writeAgentMessages_whole [OF inv w r] r show ?thesis
    by (auto simp: acceptance_tokens_def sample_acceptance_def)
qed

subsection \<open>Every artefact in one acceptance\<close>

lemma index_by_SomeD: "index_by key xs k = Some x \<Longrightarrow> x \<in> set xs \<and> key x = k"
proof -
  have "fold (\<lambda>x m. m(key x \<mapsto> x)) xs m k = Some x \<Longrightarrow> (x \<in> set xs \<and> key x = k) \<or> m k = Some x" for m
    by (induction xs arbitrary: m) (force split: if_splits)+
  from this [of Map.empty] show "index_by key xs k = Some x \<Longrightarrow> x \<in> set xs \<and> key x = k"
    by (auto simp: index_by_def)
qed

lemma index_by_None: "index_by key xs k = None \<longleftrightarrow> k \<notin> key ` set xs"
proof -
  have "fold (\<lambda>x m. m(key x \<mapsto> x)) xs m k = None \<longleftrightarrow> k \<notin> key ` set xs \<and> m k = None" for m
    by (induction xs arbitrary: m) auto
  from this [of Map.empty] show ?thesis by (simp add: index_by_def)
qed

text \<open>A list of fresh links: distinct, none claimed before, and claimed after.\<close>

definition fresh_claim :: "cid set \<Rightarrow> cid list \<Rightarrow> cid set \<Rightarrow> bool" where
  "fresh_claim cl ls cl' \<longleftrightarrow> distinct ls \<and> set ls \<inter> cl = {} \<and> cl' = cl \<union> set ls"

lemma fresh_claim_Nil [simp]: "fresh_claim cl [] cl' \<longleftrightarrow> cl' = cl"
  by (auto simp: fresh_claim_def)

lemma fresh_claim_append:
  "fresh_claim cl ls cl' \<Longrightarrow> fresh_claim cl' ls' cl'' \<Longrightarrow> fresh_claim cl (ls @ ls') cl''"
  by (auto simp: fresh_claim_def)

lemma fresh_claim_single: "l \<notin> cl \<Longrightarrow> fresh_claim cl [l] (insert l cl)"
  by (auto simp: fresh_claim_def)

lemma claim_rcpts_spec:
  "claim_rcpts rs cl acc = (cl', acc') \<Longrightarrow> \<exists>new. acc' = acc @ new \<and> fresh_claim cl (map rcpt_Link new) cl' \<and>
    set new \<subseteq> set rs \<and> rcpt_Link ` set rs \<subseteq> cl'"
proof (induction rs arbitrary: cl acc)
  case (Cons r rs)
  show ?case
  proof (cases "rcpt_Link r \<in> cl")
    case True
    with Cons show ?thesis by (fastforce simp: fresh_claim_def)
  next
    case False
    with Cons.prems have "claim_rcpts rs (insert (rcpt_Link r) cl) (acc @ [r]) = (cl', acc')" by simp
    from Cons.IH [OF this] obtain new where "acc' = (acc @ [r]) @ new"
      "fresh_claim (insert (rcpt_Link r) cl) (map rcpt_Link new) cl'" "set new \<subseteq> set rs" "rcpt_Link ` set rs \<subseteq> cl'"
      by blast
    with False show ?thesis
      by (intro exI [of _ "r # new"]) (simp add: fresh_claim_def, blast)
  qed
qed simp

text \<open>What an acceptance claims: attached to it, and by links that are fresh.\<close>

definition attaches ::
  "token set \<Rightarrow> receipt set \<Rightarrow> claims \<Rightarrow> token list \<Rightarrow> receipt list \<Rightarrow> claims \<Rightarrow> bool" where
  "attaches ivs rs cl invs rcpts cl' \<longleftrightarrow> set invs \<subseteq> ivs \<and> set rcpts \<subseteq> rs \<and>
     fresh_claim (fst cl) (map tok_Link invs) (fst cl') \<and> fresh_claim (snd cl) (map rcpt_Link rcpts) (snd cl')"

lemma attaches_append:
  "attaches ivs rs cl invs rcpts cl' \<Longrightarrow> attaches ivs rs cl' invs' rcpts' cl'' \<Longrightarrow>
    attaches ivs rs cl (invs @ invs') (rcpts @ rcpts') cl''"
  by (auto simp: attaches_def intro: fresh_claim_append)

lemma attaches_Nil [simp]: "attaches ivs rs cl [] [] cl"
  by (simp add: attaches_def)

lemma claim_links_spec:
  assumes "claim_links byLink byTask byRan links cl a = (cl', a')"
    and look: "ran byLink \<union> ran byTask \<subseteq> ivs" and ran: "\<And>t. set (byRan t) \<subseteq> rs"
  shows "\<exists>invs rcpts. ac_invs a' = ac_invs a @ invs \<and> ac_rcpts a' = ac_rcpts a @ rcpts \<and>
    attaches ivs rs cl invs rcpts cl'"
  using assms(1)
proof (induction links arbitrary: cl a)
  case Nil
  then show ?case by (intro exI [of _ "[]"]) simp
next
  case (Cons l links)
  let ?found = "case byLink l of Some iv \<Rightarrow> Some iv | None \<Rightarrow> byTask l"
  show ?case
  proof (cases "\<exists>iv. ?found = Some iv \<and> tok_Link iv \<notin> fst cl")
    case False
    then have "claim_links byLink byTask byRan links cl a = (cl', a')"
      using Cons.prems by (auto split: option.splits)
    from Cons.IH [OF this] show ?thesis .
  next
    case True
    then obtain iv where iv: "?found = Some iv" "tok_Link iv \<notin> fst cl" by blast
    obtain cr rc where c: "claim_rcpts (byRan (tok_Task iv)) (snd cl) (ac_rcpts a) = (cr, rc)"
      by (cases "claim_rcpts (byRan (tok_Task iv)) (snd cl) (ac_rcpts a)")
    from claim_rcpts_spec [OF c] obtain new where new: "rc = ac_rcpts a @ new"
      "fresh_claim (snd cl) (map rcpt_Link new) cr" "set new \<subseteq> set (byRan (tok_Task iv))" by blast
    have run: "claim_links byLink byTask byRan links (insert (tok_Link iv) (fst cl), cr)
        (a\<lparr>ac_invs := ac_invs a @ [iv], ac_rcpts := rc\<rparr>) = (cl', a')"
      using Cons.prems iv c by simp
    have here: "attaches ivs rs cl [iv] new (insert (tok_Link iv) (fst cl), cr)"
      using iv new look ran [of "tok_Task iv"] fresh_claim_single [OF iv(2)]
      by (auto simp: attaches_def ran_def split: option.splits)
    from Cons.IH [OF run] obtain invs rcpts where
      "ac_invs a' = (ac_invs a @ [iv]) @ invs" "ac_rcpts a' = (ac_rcpts a @ new) @ rcpts"
      and rest: "attaches ivs rs (insert (tok_Link iv) (fst cl), cr) invs rcpts cl'"
      using new(1) by auto
    with attaches_append [OF here rest] show ?thesis
      by (intro exI [of _ "iv # invs"] exI [of _ "new @ rcpts"]) simp
  qed
qed

text \<open>The links an acceptance for a result claims beyond its own invocation, and all links of a leftover.\<close>

definition links_of :: "acceptance list \<Rightarrow> cid list" where
  "links_of as = map tok_Link (concat (map ac_invs as))"

definition rlinks_of :: "acceptance list \<Rightarrow> cid list" where
  "rlinks_of as = map rcpt_Link (concat (map ac_rcpts as))"

definition attached_links :: "acceptance list \<Rightarrow> cid list" where
  "attached_links as = map tok_Link (concat (map (tl \<circ> ac_invs) as))"

lemma links_Cons [simp]:
  "links_of [] = []" "links_of (a # as) = map tok_Link (ac_invs a) @ links_of as"
  "rlinks_of [] = []" "rlinks_of (a # as) = map rcpt_Link (ac_rcpts a) @ rlinks_of as"
  "attached_links [] = []" "attached_links (a # as) = map tok_Link (tl (ac_invs a)) @ attached_links as"
  by (simp_all add: links_of_def rlinks_of_def attached_links_def)

lemma links_append [simp]:
  "links_of (as @ bs) = links_of as @ links_of bs" "rlinks_of (as @ bs) = rlinks_of as @ rlinks_of bs"
  by (simp_all add: links_of_def rlinks_of_def)

definition answered_results :: "AcceptResult list \<Rightarrow> AcceptResult list" where
  "answered_results results = filter (\<lambda>r. ar_Receipt r \<noteq> None) results"

lemma group_results_spec:
  assumes "group_results L byLink byTask byRan results cl acceptances = (cl', acceptances')"
    and look: "ran byLink \<union> ran byTask \<subseteq> ivs" and ran: "\<And>t. set (byRan t) \<subseteq> rs"
  shows "\<exists>as. acceptances' = acceptances @ as \<and>
    list_all2 (\<lambda>r a. \<exists>invs rcpts. ac_invs a = the (ar_Invocation r) # invs \<and> ac_rcpts a = the (ar_Receipt r) # rcpts \<and>
      set invs \<subseteq> ivs \<and> set rcpts \<subseteq> rs) (answered_results results) as \<and>
    fresh_claim (fst cl) (attached_links as) (fst cl') \<and> snd cl' = snd cl \<union> set (rlinks_of as)"
  using assms(1)
proof (induction results arbitrary: cl acceptances)
  case Nil
  then show ?case
    by (intro exI [of _ "[]"]) (simp add: answered_results_def attached_links_def rlinks_of_def)
next
  case (Cons res results)
  show ?case
  proof (cases "ar_Receipt res")
    case None
    with Cons show ?thesis by (simp add: answered_results_def)
  next
    case (Some rcpt)
    let ?cl = "(fst cl, insert (rcpt_Link rcpt) (snd cl))"
    let ?a = "\<lparr>ac_invs = [the (ar_Invocation res)], ac_rcpts = [rcpt]\<rparr>"
    obtain cl1 a where c: "claim_links byLink byTask byRan (attachedLinks L rcpt) ?cl ?a = (cl1, a)"
      by (cases "claim_links byLink byTask byRan (attachedLinks L rcpt) ?cl ?a")
    from claim_links_spec [OF c look ran] obtain invs rcpts where a:
      "ac_invs a = the (ar_Invocation res) # invs" "ac_rcpts a = rcpt # rcpts" "attaches ivs rs ?cl invs rcpts cl1"
      by auto
    have run: "group_results L byLink byTask byRan results cl1 (acceptances @ [a]) = (cl', acceptances')"
      using Cons.prems Some c by simp
    from Cons.IH [OF run] obtain as where as: "acceptances' = (acceptances @ [a]) @ as"
      "list_all2 (\<lambda>r a. \<exists>invs rcpts. ac_invs a = the (ar_Invocation r) # invs \<and> ac_rcpts a = the (ar_Receipt r) # rcpts \<and>
        set invs \<subseteq> ivs \<and> set rcpts \<subseteq> rs) (answered_results results) as"
      "fresh_claim (fst cl1) (attached_links as) (fst cl')" "snd cl' = snd cl1 \<union> set (rlinks_of as)"
      by blast
    have "fresh_claim (fst cl) (attached_links (a # as)) (fst cl')"
      using fresh_claim_append [OF _ as(3)] a by (simp add: attaches_def attached_links_def)
    moreover have "snd cl' = snd cl \<union> set (rlinks_of (a # as))"
      using as(4) a by (auto simp: attaches_def rlinks_of_def fresh_claim_def)
    ultimately show ?thesis
      using as(1,2) a Some by (intro exI [of _ "a # as"]) (auto simp: answered_results_def attaches_def)
  qed
qed

definition adds_fresh ::
  "token set \<Rightarrow> receipt set \<Rightarrow> claims \<Rightarrow> acceptance list \<Rightarrow> claims \<times> acceptance list \<Rightarrow> bool" where
  "adds_fresh ivs rs cl acceptances = (\<lambda>(cl', acceptances'). \<exists>as. acceptances' = acceptances @ as \<and>
     fresh_claim (fst cl) (links_of as) (fst cl') \<and> fresh_claim (snd cl) (rlinks_of as) (snd cl') \<and>
     (\<forall>a \<in> set as. set (ac_invs a) \<subseteq> ivs \<and> set (ac_rcpts a) \<subseteq> rs) \<and>
     tok_Link ` ivs \<subseteq> fst cl' \<and> rcpt_Link ` rs \<subseteq> snd cl')"

lemma adds_fresh_trans:
  assumes "adds_fresh ivs rs cl acceptances (cl1, as1)" and "adds_fresh ivs' rs' cl1 as1 r"
  shows "adds_fresh (ivs \<union> ivs') (rs \<union> rs') cl acceptances r"
proof -
  obtain cl2 as2 where r: "r = (cl2, as2)" by (cases r)
  from assms obtain as as' where p: "as1 = acceptances @ as" "as2 = as1 @ as'"
    "fresh_claim (fst cl) (links_of as) (fst cl1)" "fresh_claim (fst cl1) (links_of as') (fst cl2)"
    "fresh_claim (snd cl) (rlinks_of as) (snd cl1)" "fresh_claim (snd cl1) (rlinks_of as') (snd cl2)"
    and q: "\<forall>a \<in> set as. set (ac_invs a) \<subseteq> ivs \<and> set (ac_rcpts a) \<subseteq> rs"
    "\<forall>a \<in> set as'. set (ac_invs a) \<subseteq> ivs' \<and> set (ac_rcpts a) \<subseteq> rs'"
    "tok_Link ` ivs \<subseteq> fst cl1" "rcpt_Link ` rs \<subseteq> snd cl1" "tok_Link ` ivs' \<subseteq> fst cl2" "rcpt_Link ` rs' \<subseteq> snd cl2"
    unfolding adds_fresh_def r by auto
  have "fst cl1 \<subseteq> fst cl2" "snd cl1 \<subseteq> snd cl2"
    using p(4,6) by (auto simp: fresh_claim_def)
  with p q fresh_claim_append [OF p(3,4)] fresh_claim_append [OF p(5,6)] show ?thesis
    unfolding adds_fresh_def r by (auto simp: links_of_def rlinks_of_def intro!: exI [of _ "as @ as'"])
qed

lemma left_invs_fresh: "adds_fresh (set invs) {} cl acceptances (left_invs invs cl acceptances)"
proof (induction invs arbitrary: cl acceptances)
  case Nil
  show ?case by (simp add: adds_fresh_def links_of_def rlinks_of_def)
next
  case (Cons iv invs)
  let ?new = "(insert (tok_Link iv) (fst cl), snd cl)"
  have "adds_fresh {iv} {} cl acceptances (if tok_Link iv \<in> fst cl then (cl, acceptances)
      else (?new, acceptances @ [\<lparr>ac_invs = [iv], ac_rcpts = []\<rparr>]))"
    by (auto simp: adds_fresh_def links_of_def rlinks_of_def fresh_claim_single)
  from adds_fresh_trans [of "{iv}" "{}"] this Cons.IH show ?case
    by (cases "tok_Link iv \<in> fst cl") fastforce+
qed

lemma left_rcpts_fresh: "adds_fresh {} (set rs) cl acceptances (left_rcpts rs cl acceptances)"
proof (induction rs arbitrary: cl acceptances)
  case Nil
  show ?case by (simp add: adds_fresh_def links_of_def rlinks_of_def)
next
  case (Cons r rs)
  let ?new = "(fst cl, insert (rcpt_Link r) (snd cl))"
  have "adds_fresh {} {r} cl acceptances (if rcpt_Link r \<in> snd cl then (cl, acceptances)
      else (?new, acceptances @ [\<lparr>ac_invs = [], ac_rcpts = [r]\<rparr>]))"
    by (auto simp: adds_fresh_def links_of_def rlinks_of_def fresh_claim_single)
  from adds_fresh_trans [of "{}" "{r}"] this Cons.IH show ?case
    by (cases "rcpt_Link r \<in> snd cl") fastforce+
qed

lemma left_metas_fresh:
  "adds_fresh (set (concat (map Invocations metas))) (set (concat (map Receipts metas))) cl acceptances
     (left_metas metas cl acceptances)"
proof (induction metas arbitrary: cl acceptances)
  case Nil
  show ?case by (simp add: adds_fresh_def links_of_def rlinks_of_def)
next
  case (Cons m metas)
  obtain cl1 as1 where 1: "left_invs (Invocations m) cl acceptances = (cl1, as1)"
    by (cases "left_invs (Invocations m) cl acceptances")
  obtain cl2 as2 where 2: "left_rcpts (Receipts m) cl1 as1 = (cl2, as2)"
    by (cases "left_rcpts (Receipts m) cl1 as1")
  have "adds_fresh (set (Invocations m) \<union> {}) ({} \<union> set (Receipts m)) cl acceptances (cl2, as2)"
    using adds_fresh_trans [OF left_invs_fresh [of "Invocations m" cl acceptances, unfolded 1]]
      left_rcpts_fresh [of "Receipts m" cl1 as1] 2 by metis
  then show ?case
    using adds_fresh_trans [OF _ Cons.IH, of _ _ cl acceptances cl2 as2] 1 2 by simp
qed

text \<open>
Grouping the results of a batch with the artefacts the node attached: there is one
acceptance per answered result, in order, led by the result's own invocation and receipt and
followed only by attached artefacts; the rest are left over on their own. Together the attached and the left over
invocations are exactly the invocations the node sent, each link once, and the
receipts of all acceptances are exactly those of the answered results and those the node sent.
\<close>

theorem groupAcceptances_partition:
  "\<exists>claimed rest. groupAcceptances L results metas = claimed @ rest \<and>
    list_all2 (\<lambda>r a. \<exists>invs rcpts. ac_invs a = the (ar_Invocation r) # invs \<and> ac_rcpts a = the (ar_Receipt r) # rcpts \<and>
      set invs \<subseteq> set (meta_invs metas) \<and> set rcpts \<subseteq> set (meta_rcpts metas)) (answered_results results) claimed \<and>
    distinct (attached_links claimed @ links_of rest) \<and>
    set (attached_links claimed @ links_of rest) = tok_Link ` set (meta_invs metas) \<and>
    set (rlinks_of (claimed @ rest)) =
      (rcpt_Link \<circ> the \<circ> ar_Receipt) ` set (answered_results results) \<union> rcpt_Link ` set (meta_rcpts metas)"
proof -
  let ?byLink = "index_by tok_Link (meta_invs metas)"
  let ?byTask = "index_by tok_Task (meta_invs metas)"
  let ?byRan = "\<lambda>t. filter (\<lambda>r. rcpt_Ran r = t) (meta_rcpts metas)"
  obtain cl claimed where g: "group_results L ?byLink ?byTask ?byRan results ({}, {}) [] = (cl, claimed)"
    by (cases "group_results L ?byLink ?byTask ?byRan results ({}, {}) []")
  have look: "ran ?byLink \<union> ran ?byTask \<subseteq> set (meta_invs metas)"
    by (auto simp: ran_def dest: index_by_SomeD)
  from group_results_spec [OF g look, of "set (meta_rcpts metas)"] have
    heads: "list_all2 (\<lambda>r a. \<exists>invs rcpts. ac_invs a = the (ar_Invocation r) # invs \<and>
      ac_rcpts a = the (ar_Receipt r) # rcpts \<and> set invs \<subseteq> set (meta_invs metas) \<and>
      set rcpts \<subseteq> set (meta_rcpts metas)) (answered_results results) claimed"
    and c: "fresh_claim {} (attached_links claimed) (fst cl)" "snd cl = set (rlinks_of claimed)"
    by auto
  obtain cl' all where l: "left_metas (present metas) cl claimed = (cl', all)"
    by (cases "left_metas (present metas) cl claimed")
  from left_metas_fresh [of "present metas" cl claimed] obtain rest where r: "all = claimed @ rest"
    "fresh_claim (fst cl) (links_of rest) (fst cl')" "fresh_claim (snd cl) (rlinks_of rest) (snd cl')"
    "\<forall>a \<in> set rest. set (ac_invs a) \<subseteq> set (meta_invs metas) \<and> set (ac_rcpts a) \<subseteq> set (meta_rcpts metas)"
    "tok_Link ` set (meta_invs metas) \<subseteq> fst cl'" "rcpt_Link ` set (meta_rcpts metas) \<subseteq> snd cl'"
    by (auto simp: l adds_fresh_def meta_invs_def meta_rcpts_def)
  have att: "set (attached_links claimed) \<subseteq> tok_Link ` set (meta_invs metas)"
    "set (rlinks_of claimed) \<subseteq> (rcpt_Link \<circ> the \<circ> ar_Receipt) ` set (answered_results results) \<union>
      rcpt_Link ` set (meta_rcpts metas)"
    "(rcpt_Link \<circ> the \<circ> ar_Receipt) ` set (answered_results results) \<subseteq> set (rlinks_of claimed)"
    using heads by (induction rule: list_all2_induct) auto
  note whole = fresh_claim_append [OF c(1) r(2)]
  have "set (links_of rest) \<subseteq> tok_Link ` set (meta_invs metas)" "set (rlinks_of rest) \<subseteq> rcpt_Link ` set (meta_rcpts metas)"
    using r(4) by (auto simp: links_of_def rlinks_of_def)
  then have "set (attached_links claimed @ links_of rest) = tok_Link ` set (meta_invs metas)"
    "set (rlinks_of (claimed @ rest)) =
      (rcpt_Link \<circ> the \<circ> ar_Receipt) ` set (answered_results results) \<union> rcpt_Link ` set (meta_rcpts metas)"
    using whole r(3,5,6) att c(2) by (auto simp: fresh_claim_def)
  moreover have "groupAcceptances L results metas = claimed @ rest"
    using g l r(1) by (simp add: groupAcceptances_def)
  ultimately show ?thesis
    using heads whole unfolding fresh_claim_def by blast
qed

subsection \<open>Grouping in order\<close>

lemma group_by_append:
  "group_by key (xs @ ys) ks m = (case group_by key xs ks m of (ks', m') \<Rightarrow> group_by key ys ks' m')"
  by (induction xs arbitrary: ks m) (simp_all add: Let_def)

lemma group_by_spec:
  "group_by key xs [] Map.empty = (rev (remdups (rev (map key xs))),
     \<lambda>k. if k \<in> key ` set xs then Some (filter (\<lambda>x. key x = k) xs) else None)"
proof (induction xs rule: rev_induct)
  case (snoc x xs)
  show ?case
    by (auto simp: group_by_append snoc Let_def fun_eq_iff filter_empty_conv) (metis imageI)
qed simp

lemma mset_filter_disj:
  "(\<And>x. \<not> (P x \<and> Q x)) \<Longrightarrow> mset (filter P xs) + mset (filter Q xs) = mset (filter (\<lambda>x. P x \<or> Q x) xs)"
  by (induction xs) auto

text \<open>
The grouping both conclude handlers use gives every key once, in the order in which it first
appears among the deliveries, with the items that have it in the order they were delivered; so each
item is in exactly one group.
\<close>

theorem group_by_order:
  "group_by key xs [] Map.empty = (ks, m) \<Longrightarrow>
     distinct ks \<and> set ks = key ` set xs \<and> ks = rev (remdups (rev (map key xs))) \<and>
     (\<forall>k \<in> set ks. m k = Some (filter (\<lambda>x. key x = k) xs)) \<and>
     mset (concat (map (\<lambda>k. the (m k)) ks)) = mset xs"
proof (intro conjI)
  assume g: "group_by key xs [] Map.empty = (ks, m)"
  then have ks: "ks = rev (remdups (rev (map key xs)))"
    and m: "m = (\<lambda>k. if k \<in> key ` set xs then Some (filter (\<lambda>x. key x = k) xs) else None)"
    by (simp_all add: group_by_spec)
  show d: "distinct ks" and s: "set ks = key ` set xs" and "\<forall>k \<in> set ks. m k = Some (filter (\<lambda>x. key x = k) xs)"
    using ks m by simp_all
  show "ks = rev (remdups (rev (map key xs)))" by (rule ks)
  have "mset (concat (map (\<lambda>k. filter (\<lambda>x. key x = k) xs) ks)) = mset (filter (\<lambda>x. key x \<in> set ks) xs)"
    using d
  proof (induction ks)
    case (Cons k ks)
    then show ?case
      using mset_filter_disj [of "\<lambda>x. key x = k" "\<lambda>x. key x \<in> set ks" xs] by auto
  qed simp
  moreover have "map (\<lambda>k. the (m k)) ks = map (\<lambda>k. filter (\<lambda>x. key x = k) xs) ks"
    using m s by simp
  moreover have "filter (\<lambda>x. key x \<in> set ks) xs = xs"
    using s by (simp add: filter_all)
  ultimately show "mset (concat (map (\<lambda>k. the (m k)) ks)) = mset xs"
    by (simp only:)
qed

theorem group_by_order_witness:
  "\<exists>m. group_by fst [(''/b'', 1 :: nat), (''/a'', 2), (''/b'', 3)] [] Map.empty = ([''/b'', ''/a''], m) \<and>
     m ''/b'' = Some [(''/b'', 1), (''/b'', 3)]"
proof -
  obtain ks m where g: "group_by fst [(''/b'', 1 :: nat), (''/a'', 2), (''/b'', 3)] [] Map.empty = (ks, m)"
    by (cases "group_by fst [(''/b'', 1 :: nat), (''/a'', 2), (''/b'', 3)] [] Map.empty")
  from group_by_order [OF g] g show ?thesis by simp
qed

subsection \<open>Which blobs a conclusion registers\<close>

lemma ErrEntryExists_Is [simp]: "errors_Is ErrEntryExists ErrEntryExists"
  by (simp add: ErrEntryExists_def)

lemma register_blob:
  "(\<exists>s'. blob_Register F sp b cause clk s = (s', Ok ()) \<and> registered s sp (Digest b) = None \<and>
      registered s' = (registered s)(sp := (registered s sp)(Digest b \<mapsto> \<lparr>ent_Space = sp, ent_Blob = b,
        ent_Cause = cause, ent_InsertedAt = clk 0\<rparr>))) \<or>
   (registered s sp (Digest b) \<noteq> None \<and> blob_Register F sp b cause clk s = (s, Err ErrEntryExists))"
proof (cases "registered s sp (Digest b) = None")
  case True
  with blob_registry.register_new [OF True, of F cause clk] show ?thesis by blast
next
  case False
  with blob_registry.register_held [OF False, of F cause clk] show ?thesis by blast
qed

text \<open>The puts that register their blob, and what the registry holds afterwards.\<close>

definition registering ::
  "forge_lib \<Rightarrow> (cid \<rightharpoonup> token) \<Rightarrow> AcceptResult list \<Rightarrow> concludedPut list \<Rightarrow> concludedPut list" where
  "registering L claims_by_link results puts =
     map snd (filter (\<lambda>(r, p). registers L claims_by_link r p) (zip results puts))"

text \<open>The registry \<open>s'\<close> after registering the blobs of \<open>ps\<close> in order where \<open>s\<close> does not hold them: what \<open>s\<close>
  holds stays, and the first put of a new blob gives its size and cause.\<close>

definition registry_after :: "blob_store \<Rightarrow> concludedPut list \<Rightarrow> blob_store \<Rightarrow> bool" where
  "registry_after s ps s' \<longleftrightarrow> (\<forall>sp d.
     case registered s sp d of
       Some e \<Rightarrow> registered s' sp d = Some e
     | None \<Rightarrow> (case find (\<lambda>p. cp_space p = sp \<and> Digest (cp_blob p) = d) ps of
         None \<Rightarrow> registered s' sp d = None
       | Some p \<Rightarrow> (\<exists>e. registered s' sp d = Some e \<and> ent_Blob e = cp_blob p \<and> ent_Cause e = cp_cause p)))"

lemma registry_after_Nil: "registry_after s [] s' \<longleftrightarrow> registered s' = registered s"
  by (auto simp: registry_after_def fun_eq_iff split: option.splits) (metis option.exhaust)+

lemma registry_after_held:
  assumes "registered s (cp_space p) (Digest (cp_blob p)) \<noteq> None" and "registry_after s ps s'"
  shows "registry_after s (p # ps) s'"
  unfolding registry_after_def
proof (intro allI)
  fix sp d
  show "case registered s sp d of
       Some e \<Rightarrow> registered s' sp d = Some e
     | None \<Rightarrow> (case find (\<lambda>p. cp_space p = sp \<and> Digest (cp_blob p) = d) (p # ps) of
         None \<Rightarrow> registered s' sp d = None
       | Some p \<Rightarrow> (\<exists>e. registered s' sp d = Some e \<and> ent_Blob e = cp_blob p \<and> ent_Cause e = cp_cause p))"
    using assms(2) [unfolded registry_after_def, rule_format, of sp d] assms(1)
    by (cases "registered s sp d") auto
qed

lemma registry_after_new:
  assumes "registered s (cp_space p) (Digest (cp_blob p)) = None"
    and "registered s1 = (registered s)(cp_space p := (registered s (cp_space p))(Digest (cp_blob p) \<mapsto> e))"
    and "ent_Blob e = cp_blob p" and "ent_Cause e = cp_cause p" and "registry_after s1 ps s'"
  shows "registry_after s (p # ps) s'"
  unfolding registry_after_def
proof (intro allI)
  fix sp d
  show "case registered s sp d of
       Some e \<Rightarrow> registered s' sp d = Some e
     | None \<Rightarrow> (case find (\<lambda>p. cp_space p = sp \<and> Digest (cp_blob p) = d) (p # ps) of
         None \<Rightarrow> registered s' sp d = None
       | Some p \<Rightarrow> (\<exists>e. registered s' sp d = Some e \<and> ent_Blob e = cp_blob p \<and> ent_Cause e = cp_cause p))"
    using assms(5) [unfolded registry_after_def, rule_format, of sp d] assms(1-4)
    by (cases "sp = cp_space p \<and> d = Digest (cp_blob p)") (auto split: option.splits if_splits)
qed

lemma register_loop_spec:
  assumes "length results \<le> length puts"
  shows "\<exists>s'. register_loop E cl results puts clks s = (s', Ok ()) \<and>
    (blobs_distinct s \<longrightarrow> blobs_distinct s') \<and> registry_after s (registering (env_L E) cl results puts) s'"
  using assms
proof (induction results arbitrary: puts clks s)
  case Nil
  then show ?case by (auto simp: registering_def registry_after_Nil)
next
  case (Cons r results)
  then obtain p ps where puts: "puts = p # ps" "length results \<le> length ps"
    by (cases puts) auto
  let ?clks = "\<lambda>i. clks (Suc i)"
  note IH = Cons.IH [OF puts(2), of ?clks]
  show ?case
  proof (cases "registers (env_L E) cl r p")
    case False
    then show ?thesis
      using IH [of s] by (simp add: puts registering_def)
  next
    case True
    then have reg: "registering (env_L E) cl (r # results) puts = p # registering (env_L E) cl results ps"
      by (simp add: puts registering_def)
    consider (new) s1 where
        "blob_Register (env_F E) (cp_space p) (cp_blob p) (cp_cause p) (clks 0) s = (s1, Ok ())"
        "registered s (cp_space p) (Digest (cp_blob p)) = None"
        "registered s1 = (registered s)(cp_space p := (registered s (cp_space p))(Digest (cp_blob p) \<mapsto>
          \<lparr>ent_Space = cp_space p, ent_Blob = cp_blob p, ent_Cause = cp_cause p, ent_InsertedAt = clks 0 0\<rparr>))"
      | (held) "registered s (cp_space p) (Digest (cp_blob p)) \<noteq> None"
        "blob_Register (env_F E) (cp_space p) (cp_blob p) (cp_cause p) (clks 0) s = (s, Err ErrEntryExists)"
      using register_blob [of "env_F E" "cp_space p" "cp_blob p" "cp_cause p" "clks 0" s] by blast
    then show ?thesis
    proof cases
      case new
      have "blobs_distinct s \<Longrightarrow> blobs_distinct s1"
        using blob_registry.register_invar [of s "env_F E" "cp_space p" "cp_blob p" "cp_cause p" "clks 0"] new(1)
        by simp
      with IH [of s1] registry_after_new [OF new(2,3)] True new(1) show ?thesis
        unfolding reg by (fastforce simp: puts)
    next
      case held
      with IH [of s] registry_after_held [OF held(1)] True show ?thesis
        unfolding reg by (fastforce simp: puts)
    qed
  qed
qed

text \<open>The course of one call: the batch that was sent, and the registrations its results lead to.\<close>

lemma acceptOnProvider_cases:
  assumes "acceptOnProvider E provider puts s = (s', invs, rcpts, r)"
  obtains (early) "blobRegistry s' = blobRegistry s" "r \<noteq> Ok ()"
  | (ran) info client results metas acceptErr prfLinks k where
      "GetProviderInfo (router s) provider = Ok info"
      "client = piri_NewWithClient (info_ID info) (env_id E) (info_Endpoint info)"
      "AcceptBatch (env_L E) (env_N E) client (map cp_acceptReq puts) (info_Proofs info) [WithNoNonce] (net s) =
         (net s', results, metas, acceptErr)"
      "r = wrap ''executing blob accept'' acceptErr"
      "results = [] \<or> (length results = length puts \<and>
         batch_state (env_L E) (env_N E) client (map cp_acceptReq puts) [WithNoNonce] prfLinks k results)"
      "acceptErr = Ok () \<longrightarrow> length results = length puts \<and> length puts \<le> k \<or> puts = []"
      "writeAgentMessages E (groupAcceptances (env_L E) results metas) (agentStore s) = (agentStore s', Ok ())"
      "registry_after (blobRegistry s) (registering (env_L E) (invocationsByLink metas) results puts) (blobRegistry s')"
      "blobs_distinct (blobRegistry s) \<longrightarrow> blobs_distinct (blobRegistry s')"
      "invs = concat (map ac_invs (groupAcceptances (env_L E) results metas))"
      "rcpts = concat (map ac_rcpts (groupAcceptances (env_L E) results metas))"
proof -
  consider (no) "\<And>info. GetProviderInfo (router s) provider \<noteq> Ok info"
    | (bad) info where "GetProviderInfo (router s) provider = Ok info" "node_NewHTTP (env_N E) (info_Endpoint info) \<noteq> Ok ()"
    | (go) info where "GetProviderInfo (router s) provider = Ok info" "node_NewHTTP (env_N E) (info_Endpoint info) = Ok ()"
    by (cases "GetProviderInfo (router s) provider") auto
  then show thesis
  proof cases
    case no
    with assms show thesis
      by (intro early) (cases "GetProviderInfo (router s) provider"; auto simp: acceptOnProvider_def)+
  next
    case bad
    with assms show thesis
      by (intro early) (cases "node_NewHTTP (env_N E) (info_Endpoint info)";
          auto simp: acceptOnProvider_def provider_Client_def piri_New_def)+
  next
    case (go info)
    define client where "client = piri_NewWithClient (info_ID info) (env_id E) (info_Endpoint info)"
    obtain w results metas acceptErr where b: "AcceptBatch (env_L E) (env_N E) client (map cp_acceptReq puts)
        (info_Proofs info) [WithNoNonce] (net s) = (w, results, metas, acceptErr)"
      by (metis prod_cases4)
    from AcceptBatch_spec [OF b] obtain prfLinks k where
      al: "results = [] \<or> (length results = length puts \<and>
         batch_state (env_L E) (env_N E) client (map cp_acceptReq puts) [WithNoNonce] prfLinks k results)"
      and all_ran: "acceptErr = Ok () \<longrightarrow> length results = length puts \<and> length puts \<le> k \<or> puts = []"
      by (auto simp: batch_state_def)
    then have len: "length results \<le> length puts" by auto
    obtain ag rw where wr: "writeAgentMessages E (groupAcceptances (env_L E) results metas) (agentStore s) = (ag, rw)"
      by (cases "writeAgentMessages E (groupAcceptances (env_L E) results metas) (agentStore s)")
    from register_loop_spec [OF len, of E "invocationsByLink metas" "env_clock E w" "blobRegistry s"] obtain reg where
      reg: "register_loop E (invocationsByLink metas) results puts (env_clock E w) (blobRegistry s) = (reg, Ok ())"
      "blobs_distinct (blobRegistry s) \<longrightarrow> blobs_distinct reg"
      "registry_after (blobRegistry s) (registering (env_L E) (invocationsByLink metas) results puts) reg"
      by blast
    note run = assms [unfolded acceptOnProvider_def provider_Client_def piri_New_def go(1), simplified go(2)
        andThen.simps wrap.simps client_def [symmetric] Let_def, simplified b wr prod.case res.case, simplified]
    show thesis
    proof (cases rw)
      case (Ok u)
      with run reg(1) wr have "s' = s\<lparr>net := w, agentStore := ag, blobRegistry := reg\<rparr>"
        "r = wrap ''executing blob accept'' acceptErr"
        "invs = concat (map ac_invs (groupAcceptances (env_L E) results metas))"
        "rcpts = concat (map ac_rcpts (groupAcceptances (env_L E) results metas))"
        by auto
      with go client_def b al all_ran wr Ok reg show thesis
        by (intro ran [of info client results metas acceptErr prfLinks k]) auto
    qed (use run wr early in auto)
  qed
qed

lemma set_registering:
  "p \<in> set (registering L cl results puts) \<longleftrightarrow>
    (\<exists>i < length results. i < length puts \<and> registers L cl (results ! i) (puts ! i) \<and> p = puts ! i)"
  by (force simp: registering_def set_zip)

lemma registersE:
  assumes "registers L cl r p"
  obtains rcpt acceptOK where "ar_Receipt r = Some rcpt" "\<not> IsErr (rcpt_Out rcpt)" "acceptResult L rcpt = Ok acceptOK"
    "defined (acok_Site acceptOK)" "defined (acok_PDP acceptOK)"
    "spec_Digest (creq_Blob (cp_acceptReq p)) = None \<longrightarrow>
       checkLocationContent L (cl (acok_Site acceptOK)) (Digest (cp_blob p)) = Ok ()"
proof -
  from assms obtain rcpt acceptOK where r: "ar_Receipt r = Some rcpt" "\<not> IsErr (rcpt_Out rcpt)"
    "acceptResult L rcpt = Ok acceptOK"
    "spec_Digest (creq_Blob (cp_acceptReq p)) = None \<longrightarrow>
       checkLocationContent L (cl (acok_Site acceptOK)) (Digest (cp_blob p)) = Ok ()"
    by (auto simp: registers_def is_Ok_iff split: option.splits if_splits res.splits)
  from r(3) have "defined (acok_Site acceptOK)" "defined (acok_PDP acceptOK)"
    by (auto simp: acceptResult_def split: if_splits)
  from that [OF r(1-3) this r(4)] show thesis .
qed

text \<open>
Property C2. A blob that concluding puts on a provider newly registers was accepted by that provider:
there is a put of the conclusion for that space and blob, whose cause the entry records, and a result for which an accept
invocation of that put's request was issued to the registered provider and answered in one of the node's responses with
a success receipt that names a location commitment and a PDP task; where the allocation named no
digest, the commitment sent along names the digest that is registered.
\<close>

theorem acceptOnProvider_sound:
  assumes run: "acceptOnProvider E provider puts s = (s', invs, rcpts, r)"
    and new: "registered (blobRegistry s) sp d = None" "registered (blobRegistry s') sp d = Some e"
  shows "\<exists>put \<in> set puts. \<exists>info client prfLinks results metas acceptErr res rcpt acceptOK.
    cp_space put = sp \<and> cp_blob put = ent_Blob e \<and> ent_Digest e = d \<and> cp_cause put = ent_Cause e \<and>
    GetProviderInfo (router s) provider = Ok info \<and>
    client = piri_NewWithClient (info_ID info) (env_id E) (info_Endpoint info) \<and>
    AcceptBatch (env_L E) (env_N E) client (map cp_acceptReq puts) (info_Proofs info) [WithNoNonce] (net s) =
      (net s', results, metas, acceptErr) \<and> res \<in> set results \<and>
    result_for (env_L E) client [WithNoNonce] prfLinks (cp_acceptReq put) res \<and> answered (env_N E) client res \<and>
    ar_Receipt res = Some rcpt \<and> \<not> IsErr (rcpt_Out rcpt) \<and> acceptResult (env_L E) rcpt = Ok acceptOK \<and>
    defined (acok_Site acceptOK) \<and> defined (acok_PDP acceptOK) \<and>
    (spec_Digest (creq_Blob (cp_acceptReq put)) = None \<longrightarrow>
       checkLocationContent (env_L E) (invocationsByLink metas (acok_Site acceptOK)) d = Ok ())"
  using run
proof (cases rule: acceptOnProvider_cases)
  case early
  with new show ?thesis by simp
next
  case (ran info client results metas acceptErr prfLinks k)
  let ?ps = "registering (env_L E) (invocationsByLink metas) results puts"
  from ran(8) [unfolded registry_after_def, rule_format, of sp d] new obtain p where
    p: "find (\<lambda>p. cp_space p = sp \<and> Digest (cp_blob p) = d) ?ps = Some p"
    and e: "ent_Blob e = cp_blob p" "ent_Cause e = cp_cause p"
    by (auto split: option.splits)
  from find_SomeD [OF p] obtain i where i: "i < length results" "i < length puts"
    "registers (env_L E) (invocationsByLink metas) (results ! i) (puts ! i)" "p = puts ! i"
    and sp: "cp_space p = sp" "Digest (cp_blob p) = d"
    by (auto simp: set_registering)
  from i(1) ran(5) have st: "batch_state (env_L E) (env_N E) client (map cp_acceptReq puts) [WithNoNonce] prfLinks k results"
    by auto
  from i(3) obtain rcpt acceptOK where r: "ar_Receipt (results ! i) = Some rcpt" "\<not> IsErr (rcpt_Out rcpt)"
    "acceptResult (env_L E) rcpt = Ok acceptOK" "defined (acok_Site acceptOK)" "defined (acok_PDP acceptOK)"
    "spec_Digest (creq_Blob (cp_acceptReq p)) = None \<longrightarrow>
       checkLocationContent (env_L E) (invocationsByLink metas (acok_Site acceptOK)) (Digest (cp_blob p)) = Ok ()"
    unfolding i(4) by (rule registersE)
  have "if i < k then result_for (env_L E) client [WithNoNonce] prfLinks (cp_acceptReq p) (results ! i) \<and>
      answered (env_N E) client (results ! i) else ar_Receipt (results ! i) = None"
    using st i(2,4) unfolding batch_state_def by (auto split: if_splits)
  with r(1) have "result_for (env_L E) client [WithNoNonce] prfLinks (cp_acceptReq p) (results ! i)"
    "answered (env_N E) client (results ! i)"
    by (auto split: if_splits)
  with ran(1,2,3) r e sp i(1,2,4) show ?thesis
    by (intro bexI [of _ p] exI [of _ info] exI [of _ client] exI [of _ prfLinks] exI [of _ results] exI [of _ metas]
        exI [of _ acceptErr] exI [of _ "results ! i"] exI [of _ rcpt] exI [of _ acceptOK]) auto
qed

definition sample_put :: concludedPut where
  "sample_put = \<lparr>cp_putInv = sample_task, cp_provider = ''did:key:n1'', cp_space = ''space'',
     cp_blob = \<lparr>Digest = ''d1'', Size = 7\<rparr>, cp_cause = ''c1'', cp_acceptReq = sample_request\<rparr>"

definition sample_state :: "nat service" where
  "sample_state = \<lparr>net = 0, agentStore = agent_New, blobRegistry = blob_New empty_ledger, router = sample_routing,
     provisioningSvc = sample_service\<rparr>"

lemma sample_accept:
  "is_Ok (blob_Get (blobRegistry (fst (acceptOnProvider sample_env ''did:key:n1'' [sample_put] sample_state)))
     ''space'' ''d1'')"
  "snd (snd (snd (acceptOnProvider sample_env ''did:key:n1'' [sample_put] sample_state))) = Ok ()"
  by code_simp+

theorem acceptOnProvider_sound_witness:
  "\<exists>put \<in> set [sample_put]. \<exists>info client prfLinks res rcpt.
     GetProviderInfo (router sample_state) ''did:key:n1'' = Ok info \<and>
     client = piri_NewWithClient (info_ID info) (env_id sample_env) (info_Endpoint info) \<and>
     result_for (env_L sample_env) client [WithNoNonce] prfLinks (cp_acceptReq put) res \<and>
     ar_Receipt res = Some rcpt \<and> \<not> IsErr (rcpt_Out rcpt)"
proof -
  obtain s' invs rcpts r where run: "acceptOnProvider sample_env ''did:key:n1'' [sample_put] sample_state =
      (s', invs, rcpts, r)"
    by (metis prod_cases4)
  have none: "registered (blobRegistry sample_state) ''space'' ''d1'' = None"
    by code_simp
  from sample_accept(1) run obtain e where "registered (blobRegistry s') ''space'' ''d1'' = Some e"
    by (auto simp: blob_registry.get_held split: option.splits)
  from acceptOnProvider_sound [OF run none this] show ?thesis by blast
qed

text \<open>What makes the answer to an accept usable: a success receipt whose result names a location commitment
  and a PDP task; where the allocation named no digest, the node sent the commitment along and it names the
  digest of the put.\<close>

definition usable :: "forge_lib \<Rightarrow> container option list \<Rightarrow> AcceptResult \<Rightarrow> concludedPut \<Rightarrow> bool" where
  "usable L metas res put \<longleftrightarrow> (\<exists>rcpt acceptOK. ar_Receipt res = Some rcpt \<and> \<not> IsErr (rcpt_Out rcpt) \<and>
     AcceptOK_Unmarshal L (out_bytes (rcpt_Out rcpt)) = Ok acceptOK \<and> defined (acok_Site acceptOK) \<and> defined (acok_PDP acceptOK) \<and>
     (spec_Digest (creq_Blob (cp_acceptReq put)) = None \<longrightarrow> (\<exists>claim. invocationsByLink metas (acok_Site acceptOK) = Some claim \<and>
        tok_Command claim = Command L AssertLocationCmd \<and>
        LocationArguments_Unmarshal L (tok_Arguments claim) = Ok (Digest (cp_blob put)))))"

lemma acceptResult_Ok:
  "acceptResult L rcpt = Ok acceptOK \<longleftrightarrow> AcceptOK_Unmarshal L (out_bytes (rcpt_Out rcpt)) = Ok acceptOK \<and>
     defined (acok_Site acceptOK) \<and> defined (acok_PDP acceptOK)"
  by (auto simp: acceptResult_def)

lemma checkLocationContent_Ok:
  "is_Ok (checkLocationContent L claim digest) \<longleftrightarrow> (\<exists>iv. claim = Some iv \<and> tok_Command iv = Command L AssertLocationCmd \<and>
     LocationArguments_Unmarshal L (tok_Arguments iv) = Ok digest)"
  by (auto simp: checkLocationContent_def is_Ok_iff split: option.splits)

lemma registers_usable: "registers L (invocationsByLink metas) res put \<longleftrightarrow> usable L metas res put"
proof
  assume "registers L (invocationsByLink metas) res put"
  then obtain rcpt acceptOK where "ar_Receipt res = Some rcpt" "\<not> IsErr (rcpt_Out rcpt)" "acceptResult L rcpt = Ok acceptOK"
    "spec_Digest (creq_Blob (cp_acceptReq put)) = None \<longrightarrow>
       is_Ok (checkLocationContent L (invocationsByLink metas (acok_Site acceptOK)) (Digest (cp_blob put)))"
    by (auto simp: registers_def split: option.splits if_splits res.splits)
  then show "usable L metas res put"
    unfolding usable_def acceptResult_Ok checkLocationContent_Ok
    by (intro exI [of _ rcpt] exI [of _ acceptOK]) simp
next
  assume "usable L metas res put"
  then obtain rcpt acceptOK where ok: "ar_Receipt res = Some rcpt" "\<not> IsErr (rcpt_Out rcpt)" "acceptResult L rcpt = Ok acceptOK"
    "spec_Digest (creq_Blob (cp_acceptReq put)) = None \<longrightarrow>
       is_Ok (checkLocationContent L (invocationsByLink metas (acok_Site acceptOK)) (Digest (cp_blob put)))"
    unfolding usable_def acceptResult_Ok checkLocationContent_Ok by metis
  then show "registers L (invocationsByLink metas) res put"
    by (simp add: registers_def)
qed

lemma find_map_filter: "find P (map snd (filter Q xs)) = map_option snd (find (\<lambda>x. Q x \<and> P (snd x)) xs)"
  by (induction xs) auto

lemma find_registering:
  "find P (registering L (invocationsByLink metas) results puts) =
     map_option snd (find (\<lambda>(res, put). usable L metas res put \<and> P put) (zip results puts))"
  by (simp add: registering_def find_map_filter registers_usable case_prod_unfold)

text \<open>
Property C3. What accepting puts on a provider registers. Whatever the call reports, no registration is lost or
changed. Where it reports no error, every put was answered by the node, and a blob that was not registered is
registered afterwards exactly where some put for that space and digest has a usable answer; the entry then has the
size and the cause of the first such put. So an error receipt, a result that names no commitment or no PDP task, or a
commitment for other content registers nothing.
\<close>

theorem acceptOnProvider_complete:
  assumes run: "acceptOnProvider E provider puts s = (s', invs, rcpts, r)"
  shows "(\<forall>sp d e. registered (blobRegistry s) sp d = Some e \<longrightarrow> registered (blobRegistry s') sp d = Some e) \<and>
    (r = Ok () \<longrightarrow> (\<exists>info client results metas. GetProviderInfo (router s) provider = Ok info \<and>
       client = piri_NewWithClient (info_ID info) (env_id E) (info_Endpoint info) \<and>
       AcceptBatch (env_L E) (env_N E) client (map cp_acceptReq puts) (info_Proofs info) [WithNoNonce] (net s) =
         (net s', results, metas, Ok ()) \<and> length results = length puts \<and>
       list_all (answered (env_N E) client) results \<and>
       (\<forall>sp d. registered (blobRegistry s) sp d = None \<longrightarrow>
          (case find (\<lambda>(res, put). usable (env_L E) metas res put \<and> cp_space put = sp \<and> Digest (cp_blob put) = d)
              (zip results puts) of
             None \<Rightarrow> registered (blobRegistry s') sp d = None
           | Some (_, put) \<Rightarrow> \<exists>e. registered (blobRegistry s') sp d = Some e \<and> ent_Blob e = cp_blob put \<and>
               ent_Cause e = cp_cause put))))"
  using run
proof (cases rule: acceptOnProvider_cases)
  case early
  then show ?thesis by simp
next
  case (ran info client results metas acceptErr prfLinks k)
  note after = ran(8) [unfolded registry_after_def, rule_format]
  have kept: "registered (blobRegistry s') sp d = Some e" if "registered (blobRegistry s) sp d = Some e" for sp d e
    using after [of sp d] that by simp
  have new: "case find (\<lambda>(res, put). usable (env_L E) metas res put \<and> cp_space put = sp \<and> Digest (cp_blob put) = d) (zip results puts) of
      None \<Rightarrow> registered (blobRegistry s') sp d = None
    | Some (_, put) \<Rightarrow> \<exists>e. registered (blobRegistry s') sp d = Some e \<and> ent_Blob e = cp_blob put \<and> ent_Cause e = cp_cause put"
    if "registered (blobRegistry s) sp d = None" for sp d
    using after [of sp d] that unfolding find_registering by (auto split: option.splits)
  have "length results = length puts \<and> list_all (answered (env_N E) client) results" if "r = Ok ()"
  proof (cases "puts = []")
    case True
    with ran(5) show ?thesis by auto
  next
    case False
    have "acceptErr = Ok ()" using ran(4) that by (cases acceptErr) auto
    with ran(5,6) False have "length results = length puts" "length puts \<le> k"
      "batch_state (env_L E) (env_N E) client (map cp_acceptReq puts) [WithNoNonce] prfLinks k results"
      by auto
    then show ?thesis
      by (auto simp: batch_state_def list_all_length)
  qed
  moreover have "acceptErr = Ok ()" if "r = Ok ()" using ran(4) that by (cases acceptErr) auto
  ultimately show ?thesis
    using kept new ran(1-3)
    by (intro conjI allI impI exI [of _ info] exI [of _ client] exI [of _ results] exI [of _ metas]) auto
qed

theorem acceptOnProvider_complete_witness:
  "\<exists>s' invs rcpts. acceptOnProvider sample_env ''did:key:n1'' [sample_put] sample_state = (s', invs, rcpts, Ok ()) \<and>
     (\<exists>client results. length results = 1 \<and> list_all (answered (env_N sample_env) client) results)"
proof -
  obtain s' invs rcpts r where run: "acceptOnProvider sample_env ''did:key:n1'' [sample_put] sample_state =
      (s', invs, rcpts, r)"
    by (metis prod_cases4)
  with sample_accept(2) have "r = Ok ()" by simp
  with acceptOnProvider_complete [OF run] run show ?thesis by auto
qed

end
