(* ===== verification/Blob_Add.thy ===== *)
theory Blob_Add
  imports Conclude
begin

section \<open>Adding a blob\<close>

text \<open>
  \<^verbatim>\<open>pkg/service/handlers/blob_add.go\<close>: allocate room for a blob on a storage node, excluding one
  candidate after the other as they refuse, issue the \<^verbatim>\<open>/http/put\<close> the client is to run, and, where
  the node already has the blob, accept and register it at once. An add that already ran is answered
  with its first result.

  The handler reads pages of stores and retries candidates in a loop, so it is an option: \<^const>\<open>None\<close>
  would be "does not return". A response to the client is a \<^typ>\<open>'a response\<close>; an error of the handler
  is the \<^const>\<open>Err\<close> of its result.
\<close>

definition hasErrorName :: "gerr \<Rightarrow> string \<Rightarrow> bool" where
  "hasErrorName err name =
     (case errors_As_Named err of Some e \<Rightarrow> (case e of Named n m \<Rightarrow> n = name | _ \<Rightarrow> False) | None \<Rightarrow> False)"

definition MissingNonceErrorName :: string where
  "MissingNonceErrorName = ''MissingNonce''"

subsection \<open>Allocation\<close>

type_synonym allocation = "StorageProviderInfo \<times> token \<times> receipt \<times> AllocateOK"

partial_function (option) allocate_loop ::
  "'w env \<Rightarrow> did \<Rightarrow> BlobSpec \<Rightarrow> cid \<Rightarrow> did list \<Rightarrow> bool \<Rightarrow> 'w service \<Rightarrow> ('w service \<times> allocation res) option" where
  "allocate_loop E space blob cause exclusions unsupported s =
     (case SelectStorageProvider (router s) (env_order E (net s) (length exclusions))
             (env_draw E (net s) (length exclusions)) space [WithExclusions exclusions] of
        None \<Rightarrow> None
      | Some (Err err) \<Rightarrow>
          Some (s, if unsupported \<and> errors_Is err ErrCandidateUnavailable
                   then Err (ErrUnsupportedDigestCode (env_L E)) else Err err)
      | Some Panic \<Rightarrow> Some (s, Panic)
      | Some (Ok candidate) \<Rightarrow>
          (case provider_Client (env_N E) (env_id E) (info_ID candidate) (info_Endpoint candidate) of
             Err e \<Rightarrow> Some (s, Err e)
           | Panic \<Rightarrow> Some (s, Panic)
           | Ok client \<Rightarrow>
               (case piri_Allocate (env_L E) (env_N E) client
                       \<lparr>areq_Space = space, areq_Blob = blob, areq_Cause = cause\<rparr> (info_Proofs candidate) [] (net s) of
                  (w, Err e) \<Rightarrow>
                    allocate_loop E space blob cause (exclusions @ [info_ID candidate])
                      (unsupported \<or> hasErrorName e (UnsupportedDigestCodeErrorName (env_L E))) (s\<lparr>net := w\<rparr>)
                | (w, Panic) \<Rightarrow> Some (s\<lparr>net := w\<rparr>, Panic)
                | (w, Ok (res, iv, rcpt)) \<Rightarrow>
                    (case writeAgentMessage E [iv] [rcpt] (agentStore s) of
                       (ag, Err e) \<Rightarrow>
                         allocate_loop E space blob cause (exclusions @ [info_ID candidate]) unsupported
                           (s\<lparr>net := w, agentStore := ag\<rparr>)
                     | (ag, Panic) \<Rightarrow> Some (s\<lparr>net := w, agentStore := ag\<rparr>, Panic)
                     | (ag, Ok _) \<Rightarrow> Some (s\<lparr>net := w, agentStore := ag\<rparr>, Ok (candidate, iv, rcpt, res))))))"

definition doAllocate ::
  "'w env \<Rightarrow> did \<Rightarrow> BlobSpec \<Rightarrow> cid \<Rightarrow> 'w service \<Rightarrow> ('w service \<times> allocation res) option" where
  "doAllocate E space blob cause s = allocate_loop E space blob cause [] False s"

subsection \<open>The put\<close>

definition SeedSize :: nat where
  "SeedSize = 32"

definition deriveDID :: "forge_lib \<Rightarrow> multihash \<Rightarrow> did res" where
  "deriveDID L digest =
     (if length digest < SeedSize then Err (Errorf ''expected 32 bytes'')
      else wrap ''failed to create ed25519 signer'' (FromRaw L (drop (length digest - SeedSize) digest)))"

definition genPut :: "forge_lib \<Rightarrow> BlobSpec \<Rightarrow> cid \<Rightarrow> token \<Rightarrow> AllocateOK \<Rightarrow> (token \<times> receipt option) res" where
  "genPut L blob cause allocInv allocOK =
     (let keySource = (case spec_Digest blob of Some digest \<Rightarrow> digest | None \<Rightarrow> cid_Hash L cause)
      in andThen (deriveDID L keySource) (\<lambda>blobProvider.
           andThen (wrap ''invoking /http/put''
               (Invoke L blobProvider blobProvider
                  (PutArgs \<lparr>put_Body = blob, put_Destination = tok_Task allocInv\<rparr>)
                  [WithAudience blobProvider, WithKeyMetadata blobProvider])) (\<lambda>putInv.
             if aok_Address allocOK = None
             then andThen (wrap ''issuing /http/put receipt'' (IssueOK L blobProvider (tok_Task putInv)))
                    (\<lambda>putRcpt. Ok (putInv, Some putRcpt))
             else Ok (putInv, None))))"

subsection \<open>Accepting at once\<close>

record acceptExtras =
  ext_invocations :: "token list"
  ext_receipts :: "receipt list"

definition no_extras :: acceptExtras where
  "no_extras = \<lparr>ext_invocations = [], ext_receipts = []\<rparr>"

definition accept_now ::
  "'w env \<Rightarrow> Client \<Rightarrow> container \<Rightarrow> AcceptRequest \<Rightarrow> did \<Rightarrow> multihash \<Rightarrow> uint64 \<Rightarrow> cid \<Rightarrow> 'w service \<Rightarrow>
   'w service \<times> (token \<times> receipt option \<times> acceptExtras) res" where
  "accept_now E client proofStore accReq space digest sz cause s =
     (let (w, r) = piri_Accept (env_L E) (env_N E) client accReq proofStore [WithNoNonce] (net s) in
      andThenS (s\<lparr>net := w\<rparr>, r) (\<lambda>(res, iv, rcpt, meta) s.
        let extras = (case meta of
                None \<Rightarrow> no_extras
              | Some ct \<Rightarrow> \<lparr>ext_invocations = Invocations ct, ext_receipts = Receipts ct\<rparr>);
            (ag, r) = writeAgentMessage E (iv # ext_invocations extras) (rcpt # ext_receipts extras) (agentStore s)
        in andThenS (s\<lparr>agentStore := ag\<rparr>, r) (\<lambda>_ s.
             let (reg, r) = blob_Register (env_F E) space \<lparr>Digest = digest, Size = sz\<rparr> cause
                   (env_clock E (net s) 0) (blobRegistry s)
             in andThenS (s\<lparr>blobRegistry := reg\<rparr>, r) (\<lambda>_ s. (s, Ok (iv, Some rcpt, extras))))))"

definition maybeAccept ::
  "'w env \<Rightarrow> StorageProviderInfo \<Rightarrow> did \<Rightarrow> BlobSpec \<Rightarrow> cid \<Rightarrow> token \<Rightarrow> receipt option \<Rightarrow> 'w service \<Rightarrow>
   'w service \<times> (token \<times> receipt option \<times> acceptExtras) res" where
  "maybeAccept E providerInfo space blob cause putInv putRcpt s =
     andThenS (s, provider_Client (env_N E) (env_id E) (info_ID providerInfo) (info_Endpoint providerInfo)) (\<lambda>client s.
       let proofStore = info_Proofs providerInfo;
           accReq = \<lparr>creq_Space = space, creq_Blob = blob, creq_Put = tok_Task putInv,
                     creq_PutInvocation = Some putInv, creq_PutReceipt = putRcpt\<rparr>
       in andThenS (s, AcceptInvocation (env_L E) client (ucan_Now (env_N E) (net s) 0) accReq proofStore [WithNoNonce])
            (\<lambda>(accInv, _) s.
               case (spec_Digest blob, putRcpt) of
                 (Some digest, Some rcpt) \<Rightarrow>
                   (if \<not> IsErr (rcpt_Out rcpt)
                    then accept_now E client proofStore accReq space digest (spec_Size blob) cause s
                    else (s, Ok (accInv, None, no_extras)))
               | _ \<Rightarrow> (s, Ok (accInv, None, no_extras))))"

subsection \<open>Replays\<close>

fun collect_receipts :: "'w env \<Rightarrow> agent_store \<Rightarrow> cid list \<Rightarrow> receipt list \<Rightarrow> receipt list res" where
  "collect_receipts E s [] rcpts = Ok rcpts"
| "collect_receipts E s (task # tasks) rcpts =
     (case GetReceipt (env_F E) (env_U E) s task of
        Err e \<Rightarrow>
          (if errors_Is e ErrReceiptNotFound then collect_receipts E s tasks rcpts
           else Err (Wrap ''getting receipt'' e))
      | Panic \<Rightarrow> Panic
      | Ok rcpt \<Rightarrow> collect_receipts E s tasks (rcpts @ [rcpt]))"

definition replayAdd :: "'w env \<Rightarrow> agent_store \<Rightarrow> receipt \<Rightarrow> cid response res" where
  "replayAdd E s addRcpt =
     (let L = env_L E; F = env_F E; U = env_U E in
      andThen (wrap ''unmarshaling add OK result'' (AddOK_Unmarshal L (out_bytes (rcpt_Out addRcpt)))) (\<lambda>site.
      andThen (wrap ''getting invocation for blob accept'' (GetInvocation F s site)) (\<lambda>accInv.
      andThen (wrap ''rebinding accept OK result'' (AcceptArguments_Unmarshal L (tok_Arguments accInv))) (\<lambda>accArgs.
      andThen (wrap ''getting invocation for HTTP PUT'' (GetInvocation F s (acc_Put accArgs))) (\<lambda>putInv.
      andThen (wrap ''unmarshaling HTTP PUT arguments'' (PutArguments_Unmarshal L (tok_Arguments putInv))) (\<lambda>putArgs.
      andThen (wrap ''getting receipt for allocation'' (GetReceipt F U s (put_Destination putArgs))) (\<lambda>allocRcpt.
      andThen (wrap ''getting invocation for allocation'' (GetInvocation F s (put_Destination putArgs))) (\<lambda>allocInv.
      andThen (collect_receipts E s [acc_Put accArgs, site] [allocRcpt]) (\<lambda>rcpts.
        Ok (SetSuccess (Some (container_New U [allocInv, putInv, accInv] [] rcpts)) site))))))))))"

subsection \<open>The handler\<close>

definition opt_list :: "'a option \<Rightarrow> 'a list" where
  "opt_list x = (case x of None \<Rightarrow> [] | Some y \<Rightarrow> [y])"

text \<open>What follows the checks: allocate, make the put, accept where that can be done at once.\<close>

definition add_fresh ::
  "'w env \<Rightarrow> did \<Rightarrow> BlobSpec \<Rightarrow> cid \<Rightarrow> 'w service \<Rightarrow> ('w service \<times> cid response res) option" where
  "add_fresh E space blob cause s =
     (case doAllocate E space blob cause s of
        None \<Rightarrow> None
      | Some (s, Err e) \<Rightarrow>
          Some (s, if errors_Is e ErrCandidateUnavailable then Ok (SetFailure ErrCandidateUnavailable)
                   else if errors_Is e (ErrUnsupportedDigestCode (env_L E))
                   then Ok (SetFailure (ErrUnsupportedDigestCode (env_L E)))
                   else Err (Wrap ''allocating space'' e))
      | Some (s, Panic) \<Rightarrow> Some (s, Panic)
      | Some (s, Ok (provider, allocInv, allocRcpt, allocOK)) \<Rightarrow>
          Some (andThenS (s, wrap ''generating put invocation'' (genPut (env_L E) blob cause allocInv allocOK))
            (\<lambda>(putInv, putRcpt) s.
               andThenS (maybeAccept E provider space blob cause putInv putRcpt s) (\<lambda>(accInv, accRcpt, extras) s.
                 (s, Ok (SetSuccess
                    (Some (container_New (env_U E) ([allocInv, putInv, accInv] @ ext_invocations extras) []
                       ([allocRcpt] @ opt_list putRcpt @ opt_list accRcpt @ ext_receipts extras)))
                    (tok_Task accInv)))))))"

definition BlobAddHandler ::
  "'w env \<Rightarrow> token \<Rightarrow> BlobSpec \<Rightarrow> 'w service \<Rightarrow> ('w service \<times> cid response res) option" where
  "BlobAddHandler E iv blob s =
     (let space = tok_Subject iv; cause = tok_Task iv; L = env_L E in
      case ListServiceProviders (provisioningSvc s) space of
        None \<Rightarrow> None
      | Some (Err e) \<Rightarrow> Some (s, Err (Wrap ''listing service providers'' e))
      | Some Panic \<Rightarrow> Some (s, Panic)
      | Some (Ok provs) \<Rightarrow>
          (if length provs = 0
           then Some (s, Ok (SetFailure (Named (InsufficientStorageErrorName L) ''space has no storage provider'')))
           else
             (case spec_Digest blob of
                None \<Rightarrow>
                  (if length (tok_Nonce iv) = 0
                   then Some (s, Ok (SetFailure (Named MissingNonceErrorName ''a blob add without a digest must carry a nonce'')))
                   else
                     (case GetReceipt (env_F E) (env_U E) (agentStore s) cause of
                        Ok prior \<Rightarrow>
                          Some (s, case rcpt_Out prior of
                              OutErr x \<Rightarrow>
                                andThen (wrap ''decoding replayed blob add failure'' (ErrorModel_Unmarshal L x))
                                  (\<lambda>model. Ok (SetFailure model))
                            | OutOk _ \<Rightarrow> replayAdd E (agentStore s) prior)
                      | Panic \<Rightarrow> Some (s, Panic)
                      | Err e \<Rightarrow>
                          (if \<not> errors_Is e ErrReceiptNotFound
                           then Some (s, Err (Wrap ''checking for a prior blob add'' e))
                           else add_fresh E space blob cause s)))
              | Some digest \<Rightarrow>
                  (case blob_Get (blobRegistry s) space digest of
                     Ok reg \<Rightarrow>
                       Some (s, andThen (GetReceipt (env_F E) (env_U E) (agentStore s) (ent_Cause reg)) (\<lambda>addRcpt.
                         if IsErr (rcpt_Out addRcpt) then Err (Errorf ''blob registration receipt contains failure'')
                         else replayAdd E (agentStore s) addRcpt))
                   | Panic \<Rightarrow> Some (s, Panic)
                   | Err e \<Rightarrow>
                       (if \<not> errors_Is e ErrEntryNotFound then Some (s, Err e)
                        else add_fresh E space blob cause s)))))"

subsection \<open>The allocation loop ends\<close>

text \<open>What the service relies on to route: the provider table is well formed, maps are ranged over in
  some order of their keys, the positive weights sum to an \<^verbatim>\<open>int64\<close>, and the draws are in range.\<close>

definition routing_ready :: "'w env \<Rightarrow> 'w service \<Rightarrow> bool" where
  "routing_ready E s \<longleftrightarrow> providers_ok (storageProviderStore (router s)) \<and>
     (\<forall>w n. enumerates (env_order E w n) (storageProviderStore (router s)) \<and>
        weights_fit (storageProviderStore (router s)) (env_order E w n) \<and> draw_ok (env_draw E w n))"

definition node_client :: "'w env \<Rightarrow> provider_Record \<Rightarrow> Client" where
  "node_client E rec = piri_NewWithClient (sp_Provider rec) (env_id E) (sp_Endpoint rec)"

text \<open>One attempt to allocate on a provider that failed: the node did not answer with a success, or the
  exchange could not be written.\<close>

definition refused :: "'w env \<Rightarrow> did \<Rightarrow> BlobSpec \<Rightarrow> cid \<Rightarrow> provider_Record \<Rightarrow> bool" where
  "refused E space blob cause rec \<longleftrightarrow> (\<exists>w w' r. piri_Allocate (env_L E) (env_N E) (node_client E rec)
       \<lparr>areq_Space = space, areq_Blob = blob, areq_Cause = cause\<rparr> (sp_Proofs rec) [] w = (w', r) \<and>
     (case r of
        Ok (res, iv, rcpt) \<Rightarrow> (\<exists>ag ag' e. writeAgentMessage E [iv] [rcpt] ag = (ag', Err e))
      | Err e \<Rightarrow> True
      | Panic \<Rightarrow> False))"

definition allocated :: "'w env \<Rightarrow> did \<Rightarrow> BlobSpec \<Rightarrow> cid \<Rightarrow> provider_Record \<Rightarrow> allocation \<Rightarrow> agent_store \<Rightarrow> bool" where
  "allocated E space blob cause rec = (\<lambda>(info, iv, rcpt, res) ag'. info = info_of rec \<and>
     (\<exists>w w' ag. piri_Allocate (env_L E) (env_N E) (node_client E rec)
       \<lparr>areq_Space = space, areq_Blob = blob, areq_Cause = cause\<rparr> (sp_Proofs rec) [] w = (w', Ok (res, iv, rcpt)) \<and>
       writeAgentMessage E [iv] [rcpt] ag = (ag', Ok ())))"

text \<open>Allocating touches neither the registry nor the tables.\<close>

definition same_tables :: "'w service \<Rightarrow> 'w service \<Rightarrow> bool" where
  "same_tables s s' \<longleftrightarrow> router s' = router s \<and> blobRegistry s' = blobRegistry s \<and>
     provisioningSvc s' = provisioningSvc s"

lemma same_tables_refl [simp]: "same_tables s s"
  by (simp add: same_tables_def)

lemma same_tables_trans: "same_tables s s' \<Longrightarrow> same_tables s' s'' \<Longrightarrow> same_tables s s''"
  by (simp add: same_tables_def)

lemma same_tables_upd [simp]: "same_tables s (s\<lparr>net := w\<rparr>)" "same_tables s (s\<lparr>agentStore := ag\<rparr>)"
    "same_tables s (s\<lparr>net := w, agentStore := ag\<rparr>)"
  by (simp_all add: same_tables_def)

lemma routing_ready_same: "same_tables s s' \<Longrightarrow> routing_ready E s' = routing_ready E s"
  by (simp add: same_tables_def routing_ready_def)

definition allocation_outcome ::
  "'w env \<Rightarrow> did \<Rightarrow> BlobSpec \<Rightarrow> cid \<Rightarrow> did list \<Rightarrow> 'w service \<Rightarrow> 'w service \<times> allocation res \<Rightarrow> bool" where
  "allocation_outcome E space blob cause ex s = (\<lambda>(s', r). same_tables s s' \<and>
     (case r of
        Ok al \<Rightarrow> (\<exists>rec. eligible (router s) space ex rec \<and> allocated E space blob cause rec al (agentStore s'))
      | Err e \<Rightarrow>
          (\<forall>rec. eligible (router s) space ex rec \<longrightarrow> refused E space blob cause rec) \<and>
            (e = ErrCandidateUnavailable \<or> e = ErrUnsupportedDigestCode (env_L E)) \<or>
          (\<exists>ep e'. node_NewHTTP (env_N E) ep = Err e' \<and> e = Wrap ''creating HTTP client'' e')
      | Panic \<Rightarrow> (\<exists>ep. node_NewHTTP (env_N E) ep = Panic) \<or>
          (\<exists>rec w w'. piri_Allocate (env_L E) (env_N E) (node_client E rec)
             \<lparr>areq_Space = space, areq_Blob = blob, areq_Cause = cause\<rparr> (sp_Proofs rec) [] w = (w', Panic)) \<or>
          (\<exists>iv rcpt ag ag'. writeAgentMessage E [iv] [rcpt] ag = (ag', Panic))))"

lemma eligible_snoc:
  "eligible t space (ex @ [i]) rec \<longleftrightarrow> eligible t space ex rec \<and> sp_Provider rec \<noteq> i"
  by (auto simp: eligible_def)

lemma info_of_simps [simp]:
  "info_ID (info_of rec) = sp_Provider rec" "info_Endpoint (info_of rec) = sp_Endpoint rec"
  "info_Proofs (info_of rec) = sp_Proofs rec"
  by (simp_all add: info_of_def)

lemma provider_Client_cases:
  "provider_Client (env_N E) (env_id E) (sp_Provider rec) (sp_Endpoint rec) =
     (case node_NewHTTP (env_N E) (sp_Endpoint rec) of
        Ok _ \<Rightarrow> Ok (node_client E rec) | Err e \<Rightarrow> Err (Wrap ''creating HTTP client'' e) | Panic \<Rightarrow> Panic)"
  by (cases "node_NewHTTP (env_N E) (sp_Endpoint rec)")
    (simp_all add: provider_Client_def piri_New_def node_client_def)

text \<open>Once a candidate is excluded, the outcome of the rest of the loop is an outcome of the whole.\<close>

lemma allocation_outcome_excluded:
  assumes "allocation_outcome E space blob cause (ex @ [sp_Provider rec]) s1 p" and "same_tables s s1"
    and "eligible (router s) space ex rec" and "refused E space blob cause rec"
  shows "allocation_outcome E space blob cause ex s p"
proof -
  obtain s' r where p: "p = (s', r)" by (cases p)
  have rt: "router s1 = router s" using assms(2) by (simp add: same_tables_def)
  have same: "same_tables s s'"
    using assms(1,2) by (auto simp: p allocation_outcome_def intro: same_tables_trans)
  have "eligible (router s) space ex rec' \<Longrightarrow> sp_Provider rec' = sp_Provider rec \<Longrightarrow> rec' = rec" for rec'
    using assms(3) by (auto simp: eligible_def)
  then have all: "(\<forall>rec'. eligible (router s) space (ex @ [sp_Provider rec]) rec' \<longrightarrow> refused E space blob cause rec') \<Longrightarrow>
      eligible (router s) space ex rec' \<Longrightarrow> refused E space blob cause rec'" for rec'
    using assms(4) by (auto simp: eligible_snoc)
  show ?thesis
    using assms(1) same all unfolding p allocation_outcome_def rt
    by (cases r) (auto simp: eligible_snoc)
qed

lemma allocate_loop_outcome:
  assumes "routing_ready E s"
  shows "\<exists>p. allocate_loop E space blob cause ex uns s = Some p \<and> allocation_outcome E space blob cause ex s p"
  using assms
proof (induction "card (dom (storageProviderStore (router s)) - set ex)" arbitrary: ex uns s rule: less_induct)
  case less
  let ?t = "router s"
  have fin: "finite (dom (storageProviderStore ?t))"
    using less.prems unfolding routing_ready_def enumerates_def by (metis finite_set)
  let ?sel = "SelectStorageProvider ?t (env_order E (net s) (length ex)) (env_draw E (net s) (length ex)) space
      [WithExclusions ex]"
  have sel: "if \<exists>r. eligible ?t space ex r then \<exists>r. eligible ?t space ex r \<and> ?sel = Some (Ok (info_of r))
      else ?sel = Some (Err ErrCandidateUnavailable)"
    using SelectStorageProvider_cases [of ?t "env_order E (net s) (length ex)"] less.prems
    by (simp add: routing_ready_def)
  show ?case
  proof (cases "\<exists>r. eligible ?t space ex r")
    case False
    with sel show ?thesis
      by (subst allocate_loop.simps) (simp add: allocation_outcome_def ErrCandidateUnavailable_def)
  next
    case True
    with sel obtain rec where rec: "eligible ?t space ex rec" "?sel = Some (Ok (info_of rec))" by auto
    let ?req = "\<lparr>areq_Space = space, areq_Blob = blob, areq_Cause = cause\<rparr>"
    have again: "\<exists>p. allocate_loop E space blob cause (ex @ [sp_Provider rec]) uns' s1 = Some p \<and>
        allocation_outcome E space blob cause ex s p"
      if "same_tables s s1" "refused E space blob cause rec" for s1 uns'
    proof -
      have "sp_Provider rec \<in> dom (storageProviderStore ?t) - set ex"
        using rec(1) by (auto simp: eligible_def)
      then have "card (dom (storageProviderStore (router s1)) - set (ex @ [sp_Provider rec])) <
          card (dom (storageProviderStore ?t) - set ex)"
        using fin that(1) by (intro psubset_card_mono) (auto simp: same_tables_def)
      from less.hyps [OF this] less.prems that routing_ready_same [OF that(1)] show ?thesis
        using allocation_outcome_excluded [OF _ that(1) rec(1) that(2)] by blast
    qed
    show ?thesis
    proof (cases "node_NewHTTP (env_N E) (sp_Endpoint rec)")
      case (Err e)
      with rec(2) show ?thesis
        by (subst allocate_loop.simps) (auto simp: provider_Client_cases allocation_outcome_def)
    next
      case Panic
      with rec(2) show ?thesis
        by (subst allocate_loop.simps) (auto simp: provider_Client_cases allocation_outcome_def)
    next
      case (Ok u)
      obtain w r where al: "piri_Allocate (env_L E) (env_N E) (node_client E rec) ?req (sp_Proofs rec) [] (net s) = (w, r)"
        by (cases "piri_Allocate (env_L E) (env_N E) (node_client E rec) ?req (sp_Proofs rec) [] (net s)")
      note step = allocate_loop.simps [of E space blob cause ex uns s] rec(2) provider_Client_cases Ok
      show ?thesis
      proof (cases r)
        case r: (Err e)
        have "refused E space blob cause rec"
          unfolding refused_def by (intro exI [of _ "net s"] exI [of _ w] exI [of _ r]) (simp add: al r)
        with again [of "s\<lparr>net := w\<rparr>"] show ?thesis
          by (simp add: step al r)
      next
        case r: Panic
        with al show ?thesis
          by (auto simp: step allocation_outcome_def)
      next
        case r: (Ok x)
        obtain res iv rcpt where x: "x = (res, iv, rcpt)" by (cases x)
        obtain ag rw where wr: "writeAgentMessage E [iv] [rcpt] (agentStore s) = (ag, rw)"
          by (cases "writeAgentMessage E [iv] [rcpt] (agentStore s)")
        show ?thesis
        proof (cases rw)
          case rw: (Err e)
          have "refused E space blob cause rec"
            unfolding refused_def
            by (rule exI [of _ "net s"], rule exI [of _ w], rule exI [of _ r]) (use wr rw in \<open>auto simp: al r x\<close>)
          with again [of "s\<lparr>net := w, agentStore := ag\<rparr>"] show ?thesis
            by (simp add: step al r x wr rw)
        next
          case rw: Panic
          with al r x wr show ?thesis
            by (auto simp: step allocation_outcome_def)
        next
          case rw: (Ok v)
          have "allocated E space blob cause rec (info_of rec, iv, rcpt, res) ag"
            using al r x wr rw by (auto simp: allocated_def)
          with rec(1) al r x wr rw show ?thesis
            by (auto simp: step allocation_outcome_def)
        qed
      qed
    qed
  qed
qed

text \<open>
Allocating room for a blob always returns, whatever the nodes answer: each refusing
candidate is excluded, and there are finitely many. A success names a registered provider of positive weight that
the space's routing policy admits, that answered the allocation with success, and whose exchange was written to the
message store. The answer that no candidate is available, or that none supports the digest code, is given only where
every admissible provider was asked and refused; the other failures are those of creating a client.
The registry and the tables are not touched.
\<close>

theorem doAllocate_returns:
  assumes "routing_ready E s"
  shows "\<exists>s' r. doAllocate E space blob cause s = Some (s', r) \<and> same_tables s s' \<and>
    (case r of
       Ok al \<Rightarrow> (\<exists>rec. eligible (router s) space [] rec \<and> allocated E space blob cause rec al (agentStore s'))
     | Err e \<Rightarrow>
         (\<forall>rec. eligible (router s) space [] rec \<longrightarrow> refused E space blob cause rec) \<and>
           (e = ErrCandidateUnavailable \<or> e = ErrUnsupportedDigestCode (env_L E)) \<or>
         (\<exists>ep e'. node_NewHTTP (env_N E) ep = Err e' \<and> e = Wrap ''creating HTTP client'' e')
     | Panic \<Rightarrow> (\<exists>ep. node_NewHTTP (env_N E) ep = Panic) \<or>
         (\<exists>rec w w'. piri_Allocate (env_L E) (env_N E) (node_client E rec)
            \<lparr>areq_Space = space, areq_Blob = blob, areq_Cause = cause\<rparr> (sp_Proofs rec) [] w = (w', Panic)) \<or>
         (\<exists>iv rcpt ag ag'. writeAgentMessage E [iv] [rcpt] ag = (ag', Panic)))"
  using allocate_loop_outcome [OF assms, of space blob cause "[]" False]
  unfolding doAllocate_def allocation_outcome_def by blast

lemma sample_routing_ready: "routing_ready sample_env sample_state"
  using sample_routing_ok(1) sample_routing_order
  by (simp add: routing_ready_def sample_env_def sample_state_def draw_ok_def)

theorem doAllocate_returns_witness:
  "\<exists>s' r. doAllocate sample_env ''did:key:space'' sample_spec ''c1'' sample_state = Some (s', r) \<and>
     same_tables sample_state s'"
  using doAllocate_returns [OF sample_routing_ready, of "''did:key:space''" sample_spec "''c1''"] by blast

subsection \<open>What an add registers\<close>

lemma fst_writes [simp]:
  "blobRegistry (s\<lparr>net := w\<rparr>) = blobRegistry s" "blobRegistry (s\<lparr>agentStore := ag\<rparr>) = blobRegistry s"
  by simp_all

text \<open>An accept that is run at once and reported: the node answered with success and the blob was not
  registered before.\<close>

definition accepted_now :: "'w env \<Rightarrow> Client \<Rightarrow> AcceptRequest \<Rightarrow> container \<Rightarrow> token \<Rightarrow> receipt \<Rightarrow> bool" where
  "accepted_now E client accReq proofStore iv rcpt \<longleftrightarrow> (\<exists>w w' res meta.
     piri_Accept (env_L E) (env_N E) client accReq proofStore [WithNoNonce] w = (w', Ok (res, iv, rcpt, meta)))"

lemma accept_now_cases:
  assumes "accept_now E client proofStore accReq space digest sz cause s = (s', r)"
  shows "(registered (blobRegistry s') = registered (blobRegistry s) \<and> \<not> is_Ok r) \<or>
    (\<exists>iv rcpt extras e. r = Ok (iv, Some rcpt, extras) \<and> accepted_now E client accReq proofStore iv rcpt \<and>
       registered (blobRegistry s) space digest = None \<and> ent_Cause e = cause \<and>
       ent_Blob e = \<lparr>Digest = digest, Size = sz\<rparr> \<and>
       registered (blobRegistry s') = (registered (blobRegistry s))(space := (registered (blobRegistry s) space)(digest \<mapsto> e)))"
proof -
  obtain w ra where acc: "piri_Accept (env_L E) (env_N E) client accReq proofStore [WithNoNonce] (net s) = (w, ra)"
    by (cases "piri_Accept (env_L E) (env_N E) client accReq proofStore [WithNoNonce] (net s)")
  show ?thesis
  proof (cases ra)
    case (Ok x)
    obtain res iv rcpt meta where x: "x = (res, iv, rcpt, meta)" by (cases x)
    define extras where "extras = (case meta of None \<Rightarrow> no_extras
      | Some ct \<Rightarrow> \<lparr>ext_invocations = Invocations ct, ext_receipts = Receipts ct\<rparr>)"
    obtain ag rw where wr: "writeAgentMessage E (iv # ext_invocations extras) (rcpt # ext_receipts extras) (agentStore s) = (ag, rw)"
      by (cases "writeAgentMessage E (iv # ext_invocations extras) (rcpt # ext_receipts extras) (agentStore s)")
    have here: "accepted_now E client accReq proofStore iv rcpt"
      unfolding accepted_now_def using acc Ok x by blast
    note run = assms [unfolded accept_now_def acc Ok x Let_def prod.case andThenS.simps extras_def [symmetric]]
    show ?thesis
    proof (cases rw)
      case rw: (Ok u)
      let ?b = "\<lparr>Digest = digest, Size = sz\<rparr>"
      let ?e = "\<lparr>ent_Space = space, ent_Blob = ?b, ent_Cause = cause, ent_InsertedAt = env_clock E w 0 0\<rparr>"
      obtain reg rr where reg: "blob_Register (env_F E) space ?b cause (env_clock E w 0) (blobRegistry s) = (reg, rr)"
        by (cases "blob_Register (env_F E) space ?b cause (env_clock E w 0) (blobRegistry s)")
      have "s' = s\<lparr>net := w, agentStore := ag, blobRegistry := reg\<rparr> \<and> r = andThen rr (\<lambda>_. Ok (iv, Some rcpt, extras))"
        using run wr rw reg by (cases rr) auto
      then have s': "blobRegistry s' = reg" and r: "r = andThen rr (\<lambda>_. Ok (iv, Some rcpt, extras))"
        by simp_all
      from register_blob [of "env_F E" space ?b cause "env_clock E w 0" "blobRegistry s"] reg
      have "(rr = Ok () \<and> registered (blobRegistry s) space digest = None \<and> registered reg =
          (registered (blobRegistry s))(space := (registered (blobRegistry s) space)(digest \<mapsto> ?e))) \<or>
        (rr = Err ErrEntryExists \<and> reg = blobRegistry s)"
        by auto
      then show ?thesis
        unfolding s' r using here
        by (elim disjE) (rule disjI2, intro exI [of _ iv] exI [of _ rcpt] exI [of _ extras] exI [of _ ?e], auto)
    qed (use run in \<open>auto simp: wr\<close>)
  qed (use assms in \<open>auto simp: accept_now_def acc\<close>)
qed

lemma maybeAccept_cases:
  assumes "maybeAccept E info space blob cause putInv putRcpt s = (s', r)"
  shows "(registered (blobRegistry s') = registered (blobRegistry s)) \<or>
    (\<exists>digest client accReq iv rcpt extras e. spec_Digest blob = Some digest \<and> r = Ok (iv, Some rcpt, extras) \<and>
       creq_Space accReq = space \<and> creq_Blob accReq = blob \<and> creq_Put accReq = tok_Task putInv \<and>
       client = piri_NewWithClient (info_ID info) (env_id E) (info_Endpoint info) \<and>
       accepted_now E client accReq (info_Proofs info) iv rcpt \<and>
       registered (blobRegistry s) space digest = None \<and> ent_Cause e = cause \<and>
       ent_Blob e = \<lparr>Digest = digest, Size = spec_Size blob\<rparr> \<and>
       registered (blobRegistry s') = (registered (blobRegistry s))(space := (registered (blobRegistry s) space)(digest \<mapsto> e)))"
proof -
  let ?c = "provider_Client (env_N E) (env_id E) (info_ID info) (info_Endpoint info)"
  let ?req = "\<lparr>creq_Space = space, creq_Blob = blob, creq_Put = tok_Task putInv,
                     creq_PutInvocation = Some putInv, creq_PutReceipt = putRcpt\<rparr>"
  let ?cl = "piri_NewWithClient (info_ID info) (env_id E) (info_Endpoint info)"
  show ?thesis
  proof (cases "\<exists>digest rcpt p. ?c = Ok ?cl \<and> spec_Digest blob = Some digest \<and> putRcpt = Some rcpt \<and>
      \<not> IsErr (rcpt_Out rcpt) \<and>
      AcceptInvocation (env_L E) ?cl (ucan_Now (env_N E) (net s) 0) ?req (info_Proofs info) [WithNoNonce] = Ok p")
    case True
    then obtain digest where "spec_Digest blob = Some digest"
      "accept_now E ?cl (info_Proofs info) ?req space digest (spec_Size blob) cause s = (s', r)"
      using assms by (auto simp: maybeAccept_def Let_def)
    then show ?thesis
      using accept_now_cases [of E ?cl "info_Proofs info" ?req space digest "spec_Size blob" cause s s' r] by fastforce
  next
    case False
    have "?c = Ok c \<Longrightarrow> c = ?cl" for c
      by (auto simp: provider_Client_def piri_New_def)
    with False assms have "s' = s"
      by (cases ?c; cases "AcceptInvocation (env_L E) ?cl (ucan_Now (env_N E) (net s) 0) ?req (info_Proofs info) [WithNoNonce]")
        (auto simp: maybeAccept_def Let_def split: option.splits if_splits)
    then show ?thesis by simp
  qed
qed

text \<open>How a fresh add changes the registry: not at all, or by the blob it was asked to add, which the node
  accepted and whose site is the answer.\<close>

definition added ::
  "'w env \<Rightarrow> did \<Rightarrow> BlobSpec \<Rightarrow> cid \<Rightarrow> 'w service \<Rightarrow> 'w service \<Rightarrow> cid response res \<Rightarrow> bool" where
  "added E space blob cause s s' r \<longleftrightarrow> (\<exists>digest rec client accReq iv rcpt e ct.
     spec_Digest blob = Some digest \<and> eligible (router s) space [] rec \<and> r = Ok (SetSuccess (Some ct) (tok_Task iv)) \<and>
     creq_Space accReq = space \<and> creq_Blob accReq = blob \<and>
     client = node_client E rec \<and>
     accepted_now E client accReq (sp_Proofs rec) iv rcpt \<and>
     registered (blobRegistry s) space digest = None \<and> ent_Cause e = cause \<and>
     ent_Blob e = \<lparr>Digest = digest, Size = spec_Size blob\<rparr> \<and>
     registered (blobRegistry s') = (registered (blobRegistry s))(space := (registered (blobRegistry s) space)(digest \<mapsto> e)))"

lemma add_fresh_cases:
  assumes "routing_ready E s"
  shows "\<exists>s' r. add_fresh E space blob cause s = Some (s', r) \<and>
    (registered (blobRegistry s') = registered (blobRegistry s) \<or> added E space blob cause s s' r)"
proof -
  from allocate_loop_outcome [OF assms, of space blob cause "[]" False] obtain s1 ra where
    al: "doAllocate E space blob cause s = Some (s1, ra)" and same: "same_tables s s1"
    and out: "allocation_outcome E space blob cause [] s (s1, ra)"
    by (auto simp: doAllocate_def allocation_outcome_def)
  then have reg: "blobRegistry s1 = blobRegistry s" by (simp add: same_tables_def)
  show ?thesis
  proof (cases ra)
    case (Ok x)
    obtain info allocInv allocRcpt allocOK where x: "x = (info, allocInv, allocRcpt, allocOK)" by (cases x)
    from out Ok x obtain rec where rec: "eligible (router s) space [] rec" "info = info_of rec"
      by (auto simp: allocation_outcome_def allocated_def)
    show ?thesis
    proof (cases "genPut (env_L E) blob cause allocInv allocOK")
      case put: (Ok p)
      obtain putInv putRcpt where p: "p = (putInv, putRcpt)" by (cases p)
      obtain s2 rm where m: "maybeAccept E info space blob cause putInv putRcpt s1 = (s2, rm)"
        by (cases "maybeAccept E info space blob cause putInv putRcpt s1")
      let ?ct = "\<lambda>iv rc ex. container_New (env_U E) ([allocInv, putInv, iv] @ ext_invocations ex) []
          ([allocRcpt] @ opt_list putRcpt @ opt_list rc @ ext_receipts ex)"
      have run: "add_fresh E space blob cause s =
          Some (s2, andThen rm (\<lambda>(iv, rc, ex). Ok (SetSuccess (Some (?ct iv rc ex)) (tok_Task iv))))"
        using al Ok x put p m by (cases rm) (auto simp: add_fresh_def)
      from maybeAccept_cases [OF m] show ?thesis
      proof (elim disjE)
        assume "registered (blobRegistry s2) = registered (blobRegistry s1)"
        with run reg show ?thesis by auto
      next
        assume "\<exists>digest client accReq iv rcpt extras e. spec_Digest blob = Some digest \<and> rm = Ok (iv, Some rcpt, extras) \<and>
          creq_Space accReq = space \<and> creq_Blob accReq = blob \<and> creq_Put accReq = tok_Task putInv \<and>
          client = piri_NewWithClient (info_ID info) (env_id E) (info_Endpoint info) \<and>
          accepted_now E client accReq (info_Proofs info) iv rcpt \<and>
          registered (blobRegistry s1) space digest = None \<and> ent_Cause e = cause \<and>
          ent_Blob e = \<lparr>Digest = digest, Size = spec_Size blob\<rparr> \<and>
          registered (blobRegistry s2) = (registered (blobRegistry s1))(space := (registered (blobRegistry s1) space)(digest \<mapsto> e))"
        then have "added E space blob cause s s2
            (andThen rm (\<lambda>(iv, rc, ex). Ok (SetSuccess (Some (?ct iv rc ex)) (tok_Task iv))))"
          unfolding added_def reg node_client_def using rec by fastforce
        with run show ?thesis by blast
      qed
    qed (use al Ok x reg in \<open>auto simp: add_fresh_def\<close>)
  qed (use al reg in \<open>auto simp: add_fresh_def\<close>)
qed

lemma BlobAddHandler_cases:
  assumes "routing_ready E s" and "provisioned_ok (provisioningSvc s)"
    and "int (length (consumerStore (provisioningSvc s) (tok_Subject iv))) \<le> MaxInt64"
  shows "\<exists>s' r. BlobAddHandler E iv blob s = Some (s', r) \<and>
    (s' = s \<or> BlobAddHandler E iv blob s = add_fresh E (tok_Subject iv) blob (tok_Task iv) s) \<and>
    (consumerStore (provisioningSvc s) (tok_Subject iv) = [] \<longrightarrow> s' = s \<and>
       r = Ok (SetFailure (Named (InsufficientStorageErrorName (env_L E)) ''space has no storage provider'')))"
proof -
  from ListServiceProviders_all [OF assms(2,3)] obtain ps where
    ps: "ListServiceProviders (provisioningSvc s) (tok_Subject iv) = Some (Ok ps)"
    "set ps = con_Provider ` set (consumerStore (provisioningSvc s) (tok_Subject iv))" by blast
  from add_fresh_cases [OF assms(1)] obtain s1 r1 where
    fresh: "add_fresh E (tok_Subject iv) blob (tok_Task iv) s = Some (s1, r1)" by blast
  have empty: "consumerStore (provisioningSvc s) (tok_Subject iv) = [] \<longleftrightarrow> ps = []"
    using ps(2) by (metis image_is_empty set_empty)
  show ?thesis
    unfolding BlobAddHandler_def Let_def ps(1) empty
    by (cases "ps = []"; cases "spec_Digest blob"; cases "GetReceipt (env_F E) (env_U E) (agentStore s) (tok_Task iv)")
      (auto simp: fresh split: res.split)
qed

text \<open>
Property C1. A \<^verbatim>\<open>/blob/add\<close> always gets an answer. For a space with no provider it is the failure
InsufficientStorage and nothing changes. In every case the registry stays as it is or gains one entry:
the blob that was asked for, under the space of the invocation and with the add task as its cause, which was not
registered, which an admissible provider accepted with success, and then the answer is a success that names the task of that acceptance.
\<close>

theorem BlobAdd_registers:
  assumes "routing_ready E s" and "provisioned_ok (provisioningSvc s)"
    and "int (length (consumerStore (provisioningSvc s) (tok_Subject iv))) \<le> MaxInt64"
  shows "\<exists>s' r. BlobAddHandler E iv blob s = Some (s', r) \<and>
    (consumerStore (provisioningSvc s) (tok_Subject iv) = [] \<longrightarrow> s' = s \<and>
       r = Ok (SetFailure (Named (InsufficientStorageErrorName (env_L E)) ''space has no storage provider''))) \<and>
    (registered (blobRegistry s') = registered (blobRegistry s) \<or>
     added E (tok_Subject iv) blob (tok_Task iv) s s' r)"
  using BlobAddHandler_cases [OF assms, of blob] add_fresh_cases [OF assms(1), of "tok_Subject iv" blob "tok_Task iv"]
  by fastforce

theorem BlobAdd_registers_witness:
  "\<exists>s' r. BlobAddHandler sample_env sample_task sample_spec sample_state = Some (s', r) \<and> s' = sample_state \<and>
     r = Ok (SetFailure (Named ''InsufficientStorage'' ''space has no storage provider''))"
proof -
  have e: "consumerStore (provisioningSvc sample_state) (tok_Subject sample_task) = []"
    by code_simp
  have ok: "provisioned_ok (provisioningSvc sample_state)"
    using sample_service_ok by (simp add: sample_state_def)
  from BlobAdd_registers [OF sample_routing_ready ok, of sample_task sample_spec] e show ?thesis
    by (auto simp: MaxInt64_def sample_env_def sample_lib_def)
qed

subsection \<open>Replays\<close>

text \<open>The receipt a repeated add is answered from: for a blob with a digest that of the add its registration
  names, so that the blob must be registered; for one without, that on record for the task.\<close>

definition replayable :: "'w env \<Rightarrow> token \<Rightarrow> BlobSpec \<Rightarrow> 'w service \<Rightarrow> receipt \<Rightarrow> bool" where
  "replayable E iv blob s rcpt \<longleftrightarrow>
     (case spec_Digest blob of
        None \<Rightarrow> tok_Nonce iv \<noteq> [] \<and> GetReceipt (env_F E) (env_U E) (agentStore s) (tok_Task iv) = Ok rcpt
      | Some d \<Rightarrow> (\<exists>reg. registered (blobRegistry s) (tok_Subject iv) d = Some reg \<and>
          GetReceipt (env_F E) (env_U E) (agentStore s) (ent_Cause reg) = Ok rcpt))"

lemma replayAdd_site:
  assumes "rcpt_Out rcpt = OutOk b" and "AddOK_Unmarshal (env_L E) b = Ok site"
    and "replayAdd E s rcpt = Ok resp"
  shows "\<exists>ct. resp = SetSuccess (Some ct) site"
  using assms by (auto simp: replayAdd_def out_bytes_def Let_def)

text \<open>
Property C5. Which adds are replayed. An add of a blob that is registered in the space, and an add without a digest
whose task has a receipt on record, asks no node and writes and registers nothing; an answer that is a success
names the accept task of the add on record, so the client polls for the same receipt, and a failure is answered with a
failure. An add with a digest that is not registered is never replayed, even where its receipt is on record: until the
upload is concluded, repeating it allocates again.
\<close>

theorem BlobAdd_replay:
  assumes "provisioned_ok (provisioningSvc s)"
    and "int (length (consumerStore (provisioningSvc s) (tok_Subject iv))) \<le> MaxInt64"
    and "consumerStore (provisioningSvc s) (tok_Subject iv) \<noteq> []"
  shows "(\<forall>rcpt. replayable E iv blob s rcpt \<longrightarrow> (\<exists>r. BlobAddHandler E iv blob s = Some (s, r) \<and>
      (case rcpt_Out rcpt of
         OutOk b \<Rightarrow> (\<forall>site resp. AddOK_Unmarshal (env_L E) b = Ok site \<and> r = Ok resp \<longrightarrow>
           (\<exists>ct. resp = SetSuccess (Some ct) site))
       | OutErr x \<Rightarrow> (\<forall>ct site. r \<noteq> Ok (SetSuccess ct site))))) \<and>
    (\<forall>d. spec_Digest blob = Some d \<longrightarrow>
      (if registered (blobRegistry s) (tok_Subject iv) d = None
       then BlobAddHandler E iv blob s = add_fresh E (tok_Subject iv) blob (tok_Task iv) s
       else \<exists>r. BlobAddHandler E iv blob s = Some (s, r)))"
proof (intro conjI allI impI)
  from ListServiceProviders_all [OF assms(1,2)] assms(3) obtain p ps where
    ps: "ListServiceProviders (provisioningSvc s) (tok_Subject iv) = Some (Ok (p # ps))"
    by (metis image_is_empty list.exhaust list.set(1) set_empty)
  fix rcpt assume prior: "replayable E iv blob s rcpt"
  show "\<exists>r. BlobAddHandler E iv blob s = Some (s, r) \<and>
    (case rcpt_Out rcpt of
       OutOk b \<Rightarrow> (\<forall>site resp. AddOK_Unmarshal (env_L E) b = Ok site \<and> r = Ok resp \<longrightarrow>
         (\<exists>ct. resp = SetSuccess (Some ct) site))
     | OutErr x \<Rightarrow> (\<forall>ct site. r \<noteq> Ok (SetSuccess ct site)))"
  proof (cases "spec_Digest blob")
    case None
    then show ?thesis
      using prior replayAdd_site [of rcpt _ E _ "agentStore s"]
      by (auto simp: BlobAddHandler_def ps replayable_def split: outcome.split)
  next
    case (Some d)
    with prior obtain reg where "blob_Get (blobRegistry s) (tok_Subject iv) d = Ok reg"
      "GetReceipt (env_F E) (env_U E) (agentStore s) (ent_Cause reg) = Ok rcpt"
      by (auto simp: replayable_def blob_registry.get_held)
    with Some show ?thesis
      using replayAdd_site [of rcpt _ E _ "agentStore s"]
      by (auto simp: BlobAddHandler_def ps split: outcome.split)
  qed
next
  from ListServiceProviders_all [OF assms(1,2)] assms(3) obtain p ps where
    ps: "ListServiceProviders (provisioningSvc s) (tok_Subject iv) = Some (Ok (p # ps))"
    by (metis image_is_empty list.exhaust list.set(1) set_empty)
  fix d assume "spec_Digest blob = Some d"
  then show "if registered (blobRegistry s) (tok_Subject iv) d = None
      then BlobAddHandler E iv blob s = add_fresh E (tok_Subject iv) blob (tok_Task iv) s
      else \<exists>r. BlobAddHandler E iv blob s = Some (s, r)"
    by (auto simp: BlobAddHandler_def ps blob_registry.get_held Let_def ErrEntryNotFound_def)
qed

text \<open>A state in which a failed add without a digest is on record.\<close>

definition sample_add :: token where
  "sample_add = \<lparr>tok_Link = ''l9'', tok_Task = ''t9'', tok_Issuer = ''did:key:a'', tok_Subject = ''did:key:space'',
     tok_Audience = ''did:web:up'', tok_Command = ''/blob/add'', tok_Arguments = '''', tok_Nonce = ''n'', tok_Proofs = []\<rparr>"

definition sample_failure :: receipt where
  "sample_failure = \<lparr>rcpt_Link = ''r9'', rcpt_Ran = ''t9'', rcpt_Issuer = ''did:web:up'', rcpt_Out = OutErr ''no''\<rparr>"

definition sample_replay :: "nat service" where
  "sample_replay = sample_state\<lparr>agentStore := fst (writeAgentMessage sample_env [] [sample_failure] agent_New)\<rparr>"

theorem BlobAdd_replay_witness:
  "\<exists>r. BlobAddHandler sample_env sample_add (sample_spec\<lparr>spec_Digest := None\<rparr>) sample_replay = Some (sample_replay, r) \<and>
     (\<forall>ct site. r \<noteq> Ok (SetSuccess ct site))"
proof -
  have ok: "provisioned_ok (provisioningSvc sample_replay)"
    using sample_service_ok by (simp add: sample_replay_def sample_state_def)
  have len: "length (consumerStore (provisioningSvc sample_replay) (tok_Subject sample_add)) = 1"
    by code_simp
  have "GetReceipt (env_F sample_env) (env_U sample_env) (agentStore sample_replay) (tok_Task sample_add) = Ok sample_failure"
    by code_simp
  then have prior: "replayable sample_env sample_add (sample_spec\<lparr>spec_Digest := None\<rparr>) sample_replay sample_failure"
    by (simp add: replayable_def sample_spec_def sample_add_def)
  from len have "int (length (consumerStore (provisioningSvc sample_replay) (tok_Subject sample_add))) \<le> MaxInt64"
    "consumerStore (provisioningSvc sample_replay) (tok_Subject sample_add) \<noteq> []"
    by (auto simp: MaxInt64_def)
  from BlobAdd_replay [OF ok this, of sample_env "sample_spec\<lparr>spec_Digest := None\<rparr>"] prior show ?thesis
    by (auto simp: sample_failure_def dest!: spec [of _ sample_failure])
qed

subsection \<open>The task the client polls for\<close>

text \<open>The task of an invocation is derived from its subject, command, arguments and nonce alone, not from
  its proofs or its expiration.\<close>

definition accept_task_law :: "forge_lib \<Rightarrow> bool" where
  "accept_task_law L \<longleftrightarrow> (\<forall>iss subj a opts opts' iv iv'.
     WithNoNonce \<in> set opts \<and> WithNoNonce \<in> set opts' \<and>
     Invoke L iss subj (AcceptArgs a) opts = Ok iv \<and> Invoke L iss subj (AcceptArgs a) opts' = Ok iv' \<longrightarrow>
     tok_Task iv = tok_Task iv')"

definition accept_args :: "AcceptRequest \<Rightarrow> AcceptArguments" where
  "accept_args req = \<lparr>acc_Space = creq_Space req, acc_Blob = creq_Blob req, acc_Put = creq_Put req\<rparr>"

lemma acceptInvocation_issued:
  assumes "acceptInvocation L c now req options prfLinks = Ok iv"
  shows "\<exists>opts. set options \<subseteq> set opts \<and> Invoke L (issuer c) (piriDID c) (AcceptArgs (accept_args req)) opts = Ok iv"
  unfolding accept_args_def
  by (rule exI [of _ "options @ [WithAudience (piriDID c), WithProofs prfLinks, WithExpiration (now + acceptInvocationTTL)]"])
    (use assms in \<open>auto simp: acceptInvocation_def Let_def\<close>)

lemma piri_Accept_issued:
  assumes "piri_Accept L N c req proofStore options w = (w', Ok (res, iv, rcpt, meta))"
  shows "\<exists>opts. set options \<subseteq> set opts \<and> Invoke L (issuer c) (piriDID c) (AcceptArgs (accept_args req)) opts = Ok iv"
  using assms acceptInvocation_issued
  by (fastforce simp: piri_Accept_def andThenS_eq_Ok AcceptInvocation_def split: prod.splits)

lemma maybeAccept_issued:
  assumes "maybeAccept E info space blob cause putInv putRcpt s = (s', Ok (accInv, accRcpt, ex))"
    and client: "client = piri_NewWithClient (info_ID info) (env_id E) (info_Endpoint info)"
  shows "\<exists>opts. WithNoNonce \<in> set opts \<and> Invoke (env_L E) (issuer client) (piriDID client)
    (AcceptArgs \<lparr>acc_Space = space, acc_Blob = blob, acc_Put = tok_Task putInv\<rparr>) opts = Ok accInv"
proof -
  let ?req = "\<lparr>creq_Space = space, creq_Blob = blob, creq_Put = tok_Task putInv,
                     creq_PutInvocation = Some putInv, creq_PutReceipt = putRcpt\<rparr>"
  have args: "accept_args ?req = \<lparr>acc_Space = space, acc_Blob = blob, acc_Put = tok_Task putInv\<rparr>"
    by (simp add: accept_args_def)
  have "provider_Client (env_N E) (env_id E) (info_ID info) (info_Endpoint info) = Ok c \<Longrightarrow> c = client" for c
    by (auto simp: provider_Client_def piri_New_def client)
  with assms(1) consider
      (later) now prfs where "AcceptInvocation (env_L E) client now ?req (info_Proofs info) [WithNoNonce] = Ok (accInv, prfs)"
    | (now) digest where "accept_now E client (info_Proofs info) ?req space digest (spec_Size blob) cause s =
        (s', Ok (accInv, accRcpt, ex))"
    by (fastforce simp: maybeAccept_def andThenS_eq_Ok Let_def split: option.splits if_splits prod.splits)
  then show ?thesis
  proof cases
    case later
    then obtain prfLinks where "acceptInvocation (env_L E) client now ?req [WithNoNonce] prfLinks = Ok accInv"
      by (auto simp: AcceptInvocation_def)
    from acceptInvocation_issued [OF this] show ?thesis unfolding args by auto
  next
    case now
    obtain w' r where r: "piri_Accept (env_L E) (env_N E) client ?req (info_Proofs info) [WithNoNonce] (net s) = (w', r)"
      by (cases "piri_Accept (env_L E) (env_N E) client ?req (info_Proofs info) [WithNoNonce] (net s)") simp
    with now have "\<exists>res rcpt meta. r = Ok (res, accInv, rcpt, meta)"
      by (cases r) (auto simp: accept_now_def andThenS_eq_Ok Let_def case_prod_beta)
    with r have "\<exists>res rcpt meta.
      piri_Accept (env_L E) (env_N E) client ?req (info_Proofs info) [WithNoNonce] (net s) = (w', Ok (res, accInv, rcpt, meta))"
      by simp
    then show ?thesis using piri_Accept_issued unfolding args [symmetric] by fastforce
  qed
qed

text \<open>What the conclude handler makes of the conclusions it resolves.\<close>

lemma GetInvocations_loop_Some:
  assumes "GetInvocations_loop F s tasks found = Ok found'" and "found' t = Some iv"
  shows "found t = Some iv \<or> agent_invocation F s t = Ok (Some iv)"
  using assms by (induction F s tasks found rule: GetInvocations_loop.induct)
    (auto split: if_splits res.splits option.splits)

lemma resolve_loop_put:
  assumes "resolve_loop L allocInvs cs = Ok puts" and "put \<in> set puts"
  shows "\<exists>c task allocInv args. (c, task) \<in> set cs \<and> allocInvs task = Some allocInv \<and> cp_putInv put = cn_Invocation c \<and>
    AllocateArguments_Unmarshal L (tok_Arguments allocInv) = Ok args \<and> cp_provider put = tok_Subject allocInv \<and>
    cp_space put = alloc_Space args \<and> cp_cause put = alloc_Cause args \<and> accept_args (cp_acceptReq put) =
      \<lparr>acc_Space = alloc_Space args, acc_Blob = alloc_Blob args, acc_Put = tok_Task (cn_Invocation c)\<rparr>"
  using assms
proof (induction cs arbitrary: puts)
  case (Cons p cs)
  obtain c task where p: "p = (c, task)" by (cases p)
  from Cons.prems(1) obtain allocInv args where here: "allocInvs task = Some allocInv"
    "AllocateArguments_Unmarshal L (tok_Arguments allocInv) = Ok args"
    by (auto simp: p split: option.splits)
  define digest where "digest = (case spec_Digest (alloc_Blob args) of Some digest \<Rightarrow> Ok digest
    | None \<Rightarrow> putDigest L (cn_Receipt c) (spec_DigestCode (alloc_Blob args)))"
  let ?put = "\<lambda>d. \<lparr>cp_putInv = cn_Invocation c, cp_provider = tok_Subject allocInv, cp_space = alloc_Space args,
    cp_blob = \<lparr>Digest = d, Size = spec_Size (alloc_Blob args)\<rparr>, cp_cause = alloc_Cause args,
    cp_acceptReq = \<lparr>creq_Space = alloc_Space args, creq_Blob = alloc_Blob args, creq_Put = tok_Task (cn_Invocation c),
      creq_PutInvocation = Some (cn_Invocation c), creq_PutReceipt = Some (cn_Receipt c)\<rparr>\<rparr>"
  have step: "(case digest of Err e \<Rightarrow> resolve_loop L allocInvs cs | Panic \<Rightarrow> Panic
      | Ok d \<Rightarrow> andThen (resolve_loop L allocInvs cs) (\<lambda>puts. Ok (?put d # puts))) = Ok puts"
    using Cons.prems(1) here by (simp add: p Let_def digest_def)
  consider (skipped) "resolve_loop L allocInvs cs = Ok puts"
    | (resolved) d rest where "puts = ?put d # rest" "resolve_loop L allocInvs cs = Ok rest"
    using step by (cases digest) auto
  then show ?case
  proof cases
    case skipped
    from Cons.IH [OF this Cons.prems(2)] show ?thesis by (elim ex_forward conj_forward) simp_all
  next
    case resolved
    show ?thesis
    proof (cases "put = ?put d")
      case True
      with here show ?thesis
        by (intro exI [of _ c] exI [of _ task] exI [of _ allocInv] exI [of _ args]) (simp add: p accept_args_def)
    next
      case False
      with resolved(1) Cons.prems(2) have "put \<in> set rest" by simp
      from Cons.IH [OF resolved(2) this] show ?thesis by (elim ex_forward conj_forward) simp_all
    qed
  qed
qed simp

lemma alloc_tasks_at:
  assumes "alloc_tasks L cs = Ok ts" and "(c, t) \<in> set (zip cs ts)"
  shows "\<exists>putArgs. PutArguments_Unmarshal L (tok_Arguments (cn_Invocation c)) = Ok putArgs \<and> t = put_Destination putArgs"
  using assms by (induction cs arbitrary: ts) auto

lemma resolveAllocations_put:
  assumes "resolveAllocations E ag conclusions = Ok puts" and "put \<in> set puts"
    and destination: "PutArguments_Unmarshal (env_L E) (tok_Arguments (cp_putInv put)) = Ok putArgs"
    and stored: "agent_invocation (env_F E) ag (put_Destination putArgs) = Ok (Some allocInv)"
    and alloc: "AllocateArguments_Unmarshal (env_L E) (tok_Arguments allocInv) = Ok args"
  shows "cp_provider put = tok_Subject allocInv \<and> cp_space put = alloc_Space args \<and> cp_cause put = alloc_Cause args \<and>
    accept_args (cp_acceptReq put) =
      \<lparr>acc_Space = alloc_Space args, acc_Blob = alloc_Blob args, acc_Put = tok_Task (cp_putInv put)\<rparr>"
proof -
  from assms(1) obtain ts allocInvs where ts: "alloc_tasks (env_L E) conclusions = Ok ts"
    "GetInvocations_loop (env_F E) ag ts Map.empty = Ok allocInvs"
    "resolve_loop (env_L E) allocInvs (zip conclusions ts) = Ok puts"
    by (auto simp: resolveAllocations_def GetInvocations_def)
  from resolve_loop_put [OF ts(3) assms(2)] obtain c task allocInv' args' where put:
    "(c, task) \<in> set (zip conclusions ts)" "allocInvs task = Some allocInv'" "cp_putInv put = cn_Invocation c"
    "AllocateArguments_Unmarshal (env_L E) (tok_Arguments allocInv') = Ok args'" "cp_provider put = tok_Subject allocInv'"
    "cp_space put = alloc_Space args'" "cp_cause put = alloc_Cause args'" "accept_args (cp_acceptReq put) =
      \<lparr>acc_Space = alloc_Space args', acc_Blob = alloc_Blob args', acc_Put = tok_Task (cn_Invocation c)\<rparr>"
    by blast
  from alloc_tasks_at [OF ts(1) put(1)] destination put(3) have "task = put_Destination putArgs" by auto
  with GetInvocations_loop_Some [OF ts(2) put(2)] stored have "allocInv' = allocInv" by simp
  with put alloc show ?thesis by simp
qed

text \<open>What an add issues.\<close>

lemma doAllocate_issued:
  assumes "routing_ready E s" and "doAllocate E space blob cause s = Some (s1, Ok (info, allocInv, allocRcpt, allocOK))"
  shows "\<exists>opts. Invoke (env_L E) (env_id E) (info_ID info)
    (AllocateArgs \<lparr>alloc_Space = space, alloc_Blob = blob, alloc_Cause = cause\<rparr>) opts = Ok allocInv"
proof -
  from allocate_loop_outcome [OF assms(1), of space blob cause "[]" False] assms(2)
  obtain rec ag where "allocated E space blob cause rec (info, allocInv, allocRcpt, allocOK) ag"
    by (auto simp: doAllocate_def allocation_outcome_def)
  then obtain w w' where "info = info_of rec" "piri_Allocate (env_L E) (env_N E) (node_client E rec)
      \<lparr>areq_Space = space, areq_Blob = blob, areq_Cause = cause\<rparr> (sp_Proofs rec) [] w = (w', Ok (allocOK, allocInv, allocRcpt))"
    by (auto simp: allocated_def)
  then show ?thesis
    by (auto simp: piri_Allocate_def andThenS_eq_Ok AllocateInvocation_def node_client_def piri_NewWithClient_def Let_def)
qed

lemma genPut_issued:
  assumes "genPut L blob cause allocInv allocOK = Ok (putInv, putRcpt)"
  shows "\<exists>p opts. Invoke L p p (PutArgs \<lparr>put_Body = blob, put_Destination = tok_Task allocInv\<rparr>) opts = Ok putInv"
  using assms by (auto simp: genPut_def Let_def split: if_splits)

text \<open>What the libraries are relied on for: the arguments of the allocation and of the put are read back, and the
  answer to a batch holds, for each invocation of it, a receipt of its task.\<close>

definition upload_args_law :: "forge_lib \<Rightarrow> did \<Rightarrow> BlobSpec \<Rightarrow> bool" where
  "upload_args_law L space blob \<longleftrightarrow>
     (\<forall>iss subj cause opts iv. Invoke L iss subj (AllocateArgs \<lparr>alloc_Space = space, alloc_Blob = blob, alloc_Cause = cause\<rparr>) opts = Ok iv \<longrightarrow>
        tok_Subject iv = subj \<and> AllocateArguments_Unmarshal L (tok_Arguments iv) =
          Ok \<lparr>alloc_Space = space, alloc_Blob = blob, alloc_Cause = cause\<rparr>) \<and>
     (\<forall>iss subj dest opts iv. Invoke L iss subj (PutArgs \<lparr>put_Body = blob, put_Destination = dest\<rparr>) opts = Ok iv \<longrightarrow>
        PutArguments_Unmarshal L (tok_Arguments iv) = Ok \<lparr>put_Body = blob, put_Destination = dest\<rparr>)"

definition answers_batches :: "'w node \<Rightarrow> bool" where
  "answers_batches N \<longleftrightarrow> (\<forall>c invs opts w w' resp iv. node_ExecuteBatch N c invs opts w = (w', Ok resp) \<and> iv \<in> set invs \<longrightarrow>
     (\<exists>rcpt. batch_Receipt resp (tok_Task iv) = Some rcpt \<and> rcpt_Ran rcpt = tok_Task iv))"

lemma upload_args_lawD:
  assumes "upload_args_law L space blob"
  shows "Invoke L iss subj (AllocateArgs \<lparr>alloc_Space = space, alloc_Blob = blob, alloc_Cause = cause\<rparr>) opts = Ok iv \<Longrightarrow>
      tok_Subject iv = subj \<and> AllocateArguments_Unmarshal L (tok_Arguments iv) =
        Ok \<lparr>alloc_Space = space, alloc_Blob = blob, alloc_Cause = cause\<rparr>"
    and "Invoke L iss subj (PutArgs \<lparr>put_Body = blob, put_Destination = dest\<rparr>) opts = Ok iv \<Longrightarrow>
      PutArguments_Unmarshal L (tok_Arguments iv) = Ok \<lparr>put_Body = blob, put_Destination = dest\<rparr>"
  using assms unfolding upload_args_law_def by blast+

lemma GetProviderInfo_ID:
  "providers_ok (storageProviderStore R) \<Longrightarrow> GetProviderInfo R p = Ok info \<Longrightarrow> info_ID info = p"
  by (auto simp: GetProviderInfo_def sp_Get_def providers_ok_def split: res.splits option.splits)

text \<open>Where a call on a provider reports no error, each put has an acceptance of its own, with the receipt of its task, in what
  is returned and in what is written to the message store.\<close>

lemma acceptOnProvider_accepts:
  assumes run: "acceptOnProvider E provider puts s = (s', invs, rcpts, Ok ())" and put: "put \<in> set puts"
    and N: "answers_batches (env_N E)" and ok: "providers_ok (storageProviderStore (router s))"
  shows "\<exists>iv rcpt as a opts. WithNoNonce \<in> set opts \<and>
    Invoke (env_L E) (env_id E) provider (AcceptArgs (accept_args (cp_acceptReq put))) opts = Ok iv \<and>
    rcpt_Ran rcpt = tok_Task iv \<and> iv \<in> set invs \<and> rcpt \<in> set rcpts \<and>
    writeAgentMessages E as (agentStore s) = (agentStore s', Ok ()) \<and> a \<in> set as \<and> iv \<in> set (ac_invs a) \<and> rcpt \<in> set (ac_rcpts a)"
  using run
proof (cases rule: acceptOnProvider_cases)
  case (ran info client results metas acceptErr prfLinks k)
  let ?as = "groupAcceptances (env_L E) results metas"
  have "acceptErr = Ok ()" using ran(4) by (cases acceptErr) auto
  with ran(5,6) put have st: "length results = length puts" "length puts \<le> k"
    "batch_state (env_L E) (env_N E) client (map cp_acceptReq puts) [WithNoNonce] prfLinks k results"
    by auto
  from put obtain i where i: "i < length puts" "puts ! i = put" by (auto simp: in_set_conv_nth)
  with st have res: "result_for (env_L E) client [WithNoNonce] prfLinks (cp_acceptReq put) (results ! i)"
    "answered (env_N E) client (results ! i)"
    by (auto simp: batch_state_def)
  from res(1) obtain iv now where iv: "ar_Invocation (results ! i) = Some iv"
    "acceptInvocation (env_L E) client now (cp_acceptReq put) [WithNoNonce] prfLinks = Ok iv"
    by (auto simp: result_for_def)
  from res(2) iv(1) N obtain rcpt where rcpt: "ar_Receipt (results ! i) = Some rcpt" "rcpt_Ran rcpt = tok_Task iv"
    unfolding answered_def answers_batches_def by (metis option.inject)
  from groupAcceptances_partition [of "env_L E" results metas] obtain claimed rest where
    g: "?as = claimed @ rest" "list_all2 (\<lambda>r a. \<exists>invs rcpts. ac_invs a = the (ar_Invocation r) # invs \<and>
      ac_rcpts a = the (ar_Receipt r) # rcpts \<and> set invs \<subseteq> set (meta_invs metas) \<and> set rcpts \<subseteq> set (meta_rcpts metas))
      (answered_results results) claimed"
    by blast
  have "results ! i \<in> set (answered_results results)"
    using i(1) st(1) rcpt(1) by (simp add: answered_results_def)
  with g(2) obtain a where a: "a \<in> set claimed" "iv \<in> set (ac_invs a)" "rcpt \<in> set (ac_rcpts a)"
    using iv(1) rcpt(1) unfolding list_all2_conv_all_nth in_set_conv_nth [of "results ! i"]
    by (metis list.set_intros(1) nth_mem option.sel)
  then have "iv \<in> set invs" "rcpt \<in> set rcpts" by (auto simp: ran(10,11) g(1))
  moreover have "info_ID info = provider" by (rule GetProviderInfo_ID [OF ok ran(1)])
  moreover from acceptInvocation_issued [OF iv(2)] obtain opts where "WithNoNonce \<in> set opts"
    "Invoke (env_L E) (issuer client) (piriDID client) (AcceptArgs (accept_args (cp_acceptReq put))) opts = Ok iv"
    by auto
  ultimately show ?thesis
    using a rcpt(2) ran(2,7) g(1)
    by (intro exI [of _ iv] exI [of _ rcpt] exI [of _ ?as] exI [of _ a] exI [of _ opts]) (auto simp: piri_NewWithClient_def)
qed simp


definition upload_spec :: BlobSpec where
  "upload_spec = sample_spec\<lparr>spec_Digest := Some (replicate 32 CHR ''d'')\<rparr>"

definition upload_env :: "nat env" where
  "upload_env = sample_env\<lparr>env_L := sample_lib\<lparr>
     AllocateArguments_Unmarshal := (\<lambda>b. Ok \<lparr>alloc_Space = ''space'', alloc_Blob = upload_spec, alloc_Cause = drop 2 b\<rparr>),
     PutArguments_Unmarshal := (\<lambda>b. Ok \<lparr>put_Body = upload_spec, put_Destination = drop 2 b\<rparr>)\<rparr>\<rparr>"

lemma upload_laws:
  "accept_task_law (env_L upload_env)" "upload_args_law (env_L upload_env) ''space'' upload_spec" "answers_batches (env_N upload_env)"
  "routing_ready upload_env sample_state"
proof -
  show "answers_batches (env_N upload_env)"
    unfolding answers_batches_def
  proof (intro allI impI, elim conjE)
    fix c invs opts w w' resp and iv :: token
    assume "node_ExecuteBatch (env_N upload_env) c invs opts w = (w', Ok resp)" "iv \<in> set invs"
    then have resp: "batch_Receipt resp = map_of (map (\<lambda>iv. (tok_Task iv, sample_receipt iv)) invs)"
      by (auto simp: upload_env_def sample_env_def sample_node_def)
    from \<open>iv \<in> set invs\<close> have "batch_Receipt resp (tok_Task iv) \<noteq> None"
      unfolding resp map_of_eq_None_iff by force
    then obtain rcpt where rcpt: "batch_Receipt resp (tok_Task iv) = Some rcpt" by blast
    from map_of_SomeD [OF this [unfolded resp]] have "rcpt_Ran rcpt = tok_Task iv" by (auto simp: sample_receipt_def)
    with rcpt show "\<exists>rcpt. batch_Receipt resp (tok_Task iv) = Some rcpt \<and> rcpt_Ran rcpt = tok_Task iv" by blast
  qed
  show "routing_ready upload_env sample_state"
    using sample_routing_ready by (simp add: routing_ready_def upload_env_def)
qed (auto simp: accept_task_law_def upload_args_law_def upload_env_def sample_env_def sample_lib_def sample_invoke_def)

declare Collect_from.simps [code] providers_loop.simps [code] allocate_loop.simps [code]

text \<open>An add, and the conclusion of its put with the state it left.\<close>

definition sample_upload ::
  "((nat service \<times> StorageProviderInfo \<times> token \<times> receipt \<times> AllocateOK) \<times> (token \<times> receipt option) \<times>
    (nat service \<times> token \<times> receipt option \<times> acceptExtras) \<times> concludedPut \<times>
    (nat service \<times> token list \<times> receipt list)) option" where
  "sample_upload =
     (case doAllocate upload_env ''space'' upload_spec ''c1'' sample_state of
        Some (s1, Ok (info, allocInv, allocRcpt, allocOK)) \<Rightarrow>
          (case genPut (env_L upload_env) upload_spec ''c1'' allocInv allocOK of
             Ok (putInv, putRcpt) \<Rightarrow>
               (case maybeAccept upload_env info ''space'' upload_spec ''c1'' putInv putRcpt s1 of
                  (s2, Ok (accInv, accRcpt, extras)) \<Rightarrow>
                    (case resolveAllocations upload_env (agentStore s2)
                        [\<lparr>cn_Invocation = putInv, cn_Receipt = sample_receipt putInv\<rparr>] of
                       Ok [put] \<Rightarrow>
                         (case acceptOnProvider upload_env (cp_provider put) [put] s2 of
                            (s4, invs, rcpts, Ok _) \<Rightarrow>
                              if cp_putInv put = putInv \<and>
                                agent_invocation (env_F upload_env) (agentStore s2) (tok_Task allocInv) = Ok (Some allocInv)
                              then Some ((s1, info, allocInv, allocRcpt, allocOK), (putInv, putRcpt), (s2, accInv, accRcpt, extras), put, s4, invs, rcpts)
                              else None
                          | _ \<Rightarrow> None)
                     | _ \<Rightarrow> None)
                | _ \<Rightarrow> None)
           | _ \<Rightarrow> None)
      | _ \<Rightarrow> None)"

lemma sample_upload_runs: "sample_upload \<noteq> None"
  by code_simp

lemma maybeAccept_router: "router (fst (maybeAccept E info space blob cause putInv putRcpt s)) = router s"
  by (auto simp: maybeAccept_def accept_now_def fst_andThenS Let_def case_prod_beta split: res.split option.split)


end
