(* ===== verification/Token_Stores.thy ===== *)
theory Token_Stores
  imports Ucan
begin

section \<open>Delegations, revocations and replicas\<close>

text \<open>
  \<^verbatim>\<open>pkg/store/delegation\<close>, \<^verbatim>\<open>pkg/store/revocation\<close> and \<^verbatim>\<open>pkg/store/replica\<close> with their in-memory
  backends: the tokens held for an audience, the revocations of a delegation by scope, and the
  replicas of a blob by provider.

  A Go map that is created on first use is a partial map; a \<^verbatim>\<open>ByteMap\<close> that holds nothing for a digest
  returns the empty slice for it. Times are arguments of the operations that read the clock.
\<close>

subsection \<open>The delegation store\<close>

type_synonym delegation_store = "did \<Rightarrow> token list"

definition WithListByAudienceLimit :: "int \<Rightarrow> ListOption" where
  "WithListByAudienceLimit limit cfg = cfg\<lparr>Limit := Some limit\<rparr>"

definition WithListByAudienceCursor :: "string \<Rightarrow> ListOption" where
  "WithListByAudienceCursor cursor cfg = cfg\<lparr>Cursor := Some cursor\<rparr>"

definition delegation_New :: delegation_store where
  "delegation_New = (\<lambda>_. [])"

definition ListByAudience ::
  "formats \<Rightarrow> delegation_store \<Rightarrow> did \<Rightarrow> ListOption list \<Rightarrow> token Page res" where
  "ListByAudience F s audience options =
     (let cfg = apply_options options \<lparr>Cursor = None, Limit = Some 1000\<rparr>;
          tokens = s audience;
          tokens = (case Cursor cfg of
              None \<Rightarrow> tokens
            | Some cur \<Rightarrow>
                (case IndexFunc (\<lambda>d. cid_String F (tok_Link d) = cur) tokens of
                   None \<Rightarrow> tokens
                 | Some i \<Rightarrow> (if i + 1 < length tokens then drop (i + 1) tokens else tokens)))
      in case Limit cfg of
           None \<Rightarrow> Ok \<lparr>page_Cursor = None, Results = tokens\<rparr>
         | Some limit \<Rightarrow> cut_page (\<lambda>d. cid_String F (tok_Link d)) limit tokens)"

text \<open>The audience a token is stored under: an invocation may have none, and then it is the subject.\<close>

definition audience_of :: "token \<Rightarrow> did" where
  "audience_of d = (if defined (tok_Audience d) then tok_Audience d else tok_Subject d)"

fun PutMany :: "token list \<Rightarrow> cid \<Rightarrow> delegation_store \<Rightarrow> delegation_store" where
  "PutMany [] cause s = s"
| "PutMany (d # tokens) cause s =
     (let aud = audience_of d
      in PutMany tokens cause (s(aud := sort_key tok_Link (s aud @ [d]))))"

subsection \<open>The revocation store\<close>

type_synonym revocation_store = "cid \<rightharpoonup> (did \<rightharpoonup> cid)"

definition revocation_New :: revocation_store where
  "revocation_New = Map.empty"

definition revocation_Add :: "cid \<Rightarrow> did \<Rightarrow> cid \<Rightarrow> revocation_store \<Rightarrow> revocation_store" where
  "revocation_Add delegation scope cause s =
     (let revs = (case s delegation of None \<Rightarrow> Map.empty | Some m \<Rightarrow> m);
          s = s(delegation \<mapsto> revs)
      in if revs scope \<noteq> None then s
         else s(delegation \<mapsto> revs(scope \<mapsto> cause)))"

fun Find_loop :: "revocation_store \<Rightarrow> cid list \<Rightarrow> revocation_store \<Rightarrow> revocation_store" where
  "Find_loop s [] result = result"
| "Find_loop s (delegation # delegations) result =
     (case s delegation of
        Some revocations \<Rightarrow> Find_loop s delegations (result(delegation \<mapsto> revocations))
      | None \<Rightarrow> Find_loop s delegations result)"

definition revocation_Find :: "revocation_store \<Rightarrow> cid list \<Rightarrow> revocation_store" where
  "revocation_Find s delegations = Find_loop s delegations Map.empty"

definition revocation_Reset :: "cid \<Rightarrow> did \<Rightarrow> cid \<Rightarrow> revocation_store \<Rightarrow> revocation_store" where
  "revocation_Reset delegation scope cause s = s(delegation \<mapsto> [scope \<mapsto> cause])"

subsection \<open>The replica store\<close>

text \<open>\<^verbatim>\<open>ReplicationStatus\<close> is an \<^verbatim>\<open>int\<close> with three named values.\<close>

datatype ReplicationStatus = Allocated | Transferred | Failed | OtherStatus int

fun ReplicationStatus_String :: "ReplicationStatus \<Rightarrow> string" where
  "ReplicationStatus_String Allocated = ''allocated''"
| "ReplicationStatus_String Transferred = ''transferred''"
| "ReplicationStatus_String Failed = ''failed''"
| "ReplicationStatus_String (OtherStatus n) = ''unknown''"

record replica_Record =
  rep_Space :: did
  rep_Digest :: multihash
  rep_Provider :: did
  rep_Status :: ReplicationStatus
  rep_Cause :: cid
  rep_CreatedAt :: time
  rep_UpdatedAt :: time

type_synonym replica_store = "did \<rightharpoonup> (multihash \<Rightarrow> replica_Record list)"

definition ErrReplicaExists :: gerr where
  "ErrReplicaExists = Named ''ReplicaExists'' ''replica already exists''"

definition ErrReplicaNotFound :: gerr where
  "ErrReplicaNotFound = Named ''ReplicaNotFound'' ''replica not found''"

definition replica_New :: replica_store where
  "replica_New = Map.empty"

definition replica_space :: "replica_store \<Rightarrow> did \<Rightarrow> multihash \<Rightarrow> replica_Record list" where
  "replica_space s space = (case s space of None \<Rightarrow> (\<lambda>_. []) | Some m \<Rightarrow> m)"

definition replica_is :: "did \<Rightarrow> multihash \<Rightarrow> did \<Rightarrow> replica_Record \<Rightarrow> bool" where
  "replica_is space digest provider r \<longleftrightarrow>
     rep_Space r = space \<and> rep_Digest r = digest \<and> rep_Provider r = provider"

definition replica_Add ::
  "did \<Rightarrow> multihash \<Rightarrow> did \<Rightarrow> ReplicationStatus \<Rightarrow> cid \<Rightarrow> time \<Rightarrow> replica_store \<Rightarrow>
   replica_store \<times> unit res" where
  "replica_Add space digest provider status cause now s =
     (let blobs = replica_space s space;
          s = s(space \<mapsto> blobs);
          replicas = blobs digest
      in if \<exists>r \<in> set replicas. replica_is space digest provider r then (s, Err ErrReplicaExists)
         else
           (let replicas = sort_key rep_Provider (replicas @
                  [\<lparr>rep_Space = space, rep_Digest = digest, rep_Provider = provider, rep_Status = status,
                    rep_Cause = cause, rep_CreatedAt = now, rep_UpdatedAt = go_zero_time\<rparr>])
            in (s(space \<mapsto> blobs(digest := replicas)), Ok ())))"

definition replica_List :: "replica_store \<Rightarrow> did \<Rightarrow> multihash \<Rightarrow> replica_Record list res" where
  "replica_List s space digest =
     (case s space of None \<Rightarrow> Ok [] | Some blobs \<Rightarrow> Ok (blobs digest))"

definition replica_Retry ::
  "did \<Rightarrow> multihash \<Rightarrow> did \<Rightarrow> ReplicationStatus \<Rightarrow> cid \<Rightarrow> time \<Rightarrow> replica_store \<Rightarrow>
   replica_store \<times> unit res" where
  "replica_Retry space digest provider status cause now s =
     (let blobs = replica_space s space;
          s = s(space \<mapsto> blobs);
          replicas = blobs digest
      in case IndexFunc (replica_is space digest provider) replicas of
           Some i \<Rightarrow>
             (s(space \<mapsto> blobs(digest := replicas[i := (replicas ! i)\<lparr>rep_Status := status,
                 rep_Cause := cause, rep_UpdatedAt := now\<rparr>])), Ok ())
         | None \<Rightarrow> (s, Err ErrReplicaNotFound))"

definition replica_SetStatus ::
  "did \<Rightarrow> multihash \<Rightarrow> did \<Rightarrow> ReplicationStatus \<Rightarrow> time \<Rightarrow> replica_store \<Rightarrow> replica_store \<times> unit res" where
  "replica_SetStatus space digest provider status now s =
     (let blobs = replica_space s space;
          s = s(space \<mapsto> blobs);
          replicas = blobs digest
      in case IndexFunc (replica_is space digest provider) replicas of
           Some i \<Rightarrow>
             (s(space \<mapsto> blobs(digest := replicas[i := (replicas ! i)\<lparr>rep_Status := status,
                 rep_UpdatedAt := now\<rparr>])), Ok ())
         | None \<Rightarrow> (s, Err ErrReplicaNotFound))"

subsection \<open>Tokens held for an audience\<close>

lemma PutMany_mset:
  "mset (PutMany tokens cause s a) = mset (s a) + mset (filter (\<lambda>d. audience_of d = a) tokens)"
  by (induction tokens arbitrary: s) (auto simp: Let_def)

lemma PutMany_sorted:
  assumes "\<And>a. sorted (map tok_Link (s a))"
  shows "sorted (map tok_Link (PutMany tokens cause s a))"
  using assms by (induction tokens arbitrary: s) (simp_all add: Let_def)

definition token_page :: "formats \<times> delegation_store \<times> did \<times> int \<Rightarrow> string option \<Rightarrow> token Page res" where
  "token_page = (\<lambda>(F, s, a, limit) c. ListByAudience F s a
     ((case c of None \<Rightarrow> [] | Some k \<Rightarrow> [WithListByAudienceCursor k]) @ [WithListByAudienceLimit limit]))"

definition token_list_wf :: "formats \<times> delegation_store \<times> did \<times> int \<Rightarrow> bool" where
  "token_list_wf = (\<lambda>(F, s, a, limit). formats_ok F \<and> distinct (map tok_Link (s a)) \<and> 0 < limit)"

definition token_items :: "formats \<times> delegation_store \<times> did \<times> int \<Rightarrow> token list" where
  "token_items = (\<lambda>(F, s, a, limit). s a)"

text \<open>A page is given a cursor only where entries are left, so no cursor names the last entry.\<close>

definition token_resumes :: "formats \<times> delegation_store \<times> did \<times> int \<Rightarrow> string option \<Rightarrow> nat \<Rightarrow> bool" where
  "token_resumes v c p \<longleftrightarrow> key_resumes (\<lambda>d. cid_String (fst v) (tok_Link d)) (token_items v) c p \<and>
     (c \<noteq> None \<longrightarrow> p < length (token_items v))"

interpretation token_pages: pager token_list_wf token_items token_page token_resumes
proof unfold_locales
  fix v c p
  show "token_list_wf v \<Longrightarrow> token_resumes v None 0"
    by (simp add: token_resumes_def)
  assume wf: "token_list_wf v" and at: "token_resumes v c p" and p: "p \<le> length (token_items v)"
  obtain F s a limit where v: "v = (F, s, a, limit)" by (cases v)
  let ?key = "\<lambda>d. cid_String F (tok_Link d)"
  have dist: "distinct (map ?key (s a))"
  proof -
    have "distinct (map tok_Link (s a))" and inj: "inj (cid_String F)"
      using wf by (simp_all add: v token_list_wf_def formats_ok_def)
    then have "distinct (map (cid_String F) (map tok_Link (s a)))"
      unfolding distinct_map [of "cid_String F"] by (blast intro: inj_on_subset)
    then show ?thesis by (simp add: o_def)
  qed
  have page: "token_page v c = cut_page ?key limit (drop p (s a))"
  proof (cases c)
    case None
    with at show ?thesis
      by (simp add: v token_page_def ListByAudience_def token_resumes_def WithListByAudienceLimit_def)
  next
    case (Some k)
    from at Some have r: "key_resumes ?key (s a) (Some k) p" "p < length (s a)"
      by (simp_all add: v token_resumes_def token_items_def)
    with IndexFunc_key_resumes [OF dist r(1)] Some show ?thesis
      by (simp add: v token_page_def ListByAudience_def WithListByAudienceLimit_def
          WithListByAudienceCursor_def)
  qed
  have lim: "0 < limit" using wf by (simp add: v token_list_wf_def)
  from cut_page_serves [OF lim, of ?key p "s a"] obtain pg n where
    pg: "cut_page ?key limit (drop p (s a)) = Ok pg" "Results pg = take n (drop p (s a))"
    and next_page: "case page_Cursor pg of None \<Rightarrow> length (s a) \<le> p + n
       | Some c' \<Rightarrow> Results pg \<noteq> [] \<and> key_resumes ?key (s a) (Some c') (p + length (Results pg))"
    by blast
  have "p + length (Results pg) < length (s a)" if "page_Cursor pg \<noteq> None"
    using cut_page_more [OF pg(1) lim that] by simp
  with pg next_page show "\<exists>page n. token_page v c = Ok page \<and> Results page = take n (drop p (token_items v)) \<and>
      (case page_Cursor page of None \<Rightarrow> length (token_items v) \<le> p + n
       | Some c' \<Rightarrow> Results page \<noteq> [] \<and> token_resumes v (Some c') (p + length (Results page)))"
    unfolding page by (intro exI [of _ pg] exI [of _ n])
      (simp add: v token_items_def token_resumes_def split: option.splits)
qed

text \<open>
Tokens put into an empty delegation store and read back page by page for an audience,
with any positive limit: the reading ends, and gives exactly the tokens whose audience (or subject,
where they have none) it is, each as often as it was put, ordered by link. The hypotheses are that
the text form of a CID names it and that no token of the audience is put twice.
\<close>

theorem delegation_PutMany_List:
  assumes "formats_ok F" and "0 < limit"
    and "distinct (map tok_Link (filter (\<lambda>d. audience_of d = aud) tokens))"
  shows "\<exists>ts. store_Collect (\<lambda>cfg. ListByAudience F (PutMany tokens cause delegation_New) aud
        ((case Cursor cfg of None \<Rightarrow> [] | Some k \<Rightarrow> [WithListByAudienceCursor k]) @
         [WithListByAudienceLimit limit])) = Some (Ok ts) \<and>
      mset ts = mset (filter (\<lambda>d. audience_of d = aud) tokens) \<and> sorted (map tok_Link ts)"
proof (intro exI conjI)
  let ?s = "PutMany tokens cause delegation_New"
  show content: "mset (?s aud) = mset (filter (\<lambda>d. audience_of d = aud) tokens)"
    by (simp add: PutMany_mset delegation_New_def)
  show "sorted (map tok_Link (?s aud))"
    by (rule PutMany_sorted) (simp add: delegation_New_def)
  have "distinct (map tok_Link (?s aud))"
    using assms(3) by (metis content mset_map mset_eq_imp_distinct_iff)
  then show "store_Collect (\<lambda>cfg. ListByAudience F ?s aud
        ((case Cursor cfg of None \<Rightarrow> [] | Some k \<Rightarrow> [WithListByAudienceCursor k]) @
         [WithListByAudienceLimit limit])) = Some (Ok (?s aud))"
    using token_pages.collect_items [of "(F, ?s, aud, limit)"] assms(1,2)
    by (simp add: token_list_wf_def token_items_def token_page_def)
qed

definition sample_token :: "cid \<Rightarrow> did \<Rightarrow> token" where
  "sample_token l aud = \<lparr>tok_Link = l, tok_Task = l, tok_Issuer = ''did:key:a'', tok_Subject = ''did:key:s'',
     tok_Audience = aud, tok_Command = ''/blob/add'', tok_Arguments = '''', tok_Nonce = '''', tok_Proofs = []\<rparr>"

theorem delegation_PutMany_List_witness:
  "\<exists>ts. store_Collect (\<lambda>cfg. ListByAudience sample_formats
        (PutMany [sample_token ''l2'' ''did:key:b'', sample_token ''l1'' ''did:key:b'', sample_token ''l3'' '''']
           ''cause'' delegation_New) ''did:key:b''
        ((case Cursor cfg of None \<Rightarrow> [] | Some k \<Rightarrow> [WithListByAudienceCursor k]) @
         [WithListByAudienceLimit 1])) = Some (Ok ts) \<and>
      mset ts = {#sample_token ''l2'' ''did:key:b'', sample_token ''l1'' ''did:key:b''#}"
  using delegation_PutMany_List [OF sample_formats_ok, of 1 "''did:key:b''"
      "[sample_token ''l2'' ''did:key:b'', sample_token ''l1'' ''did:key:b'', sample_token ''l3'' '''']"
      "''cause''"]
  by (auto simp: sample_token_def audience_of_def defined_def)

subsection \<open>What stays revoked\<close>

datatype rev_op = RevAdd cid did cid | RevReset cid did cid

fun rev_apply :: "rev_op \<Rightarrow> revocation_store \<Rightarrow> revocation_store" where
  "rev_apply (RevAdd d sc c) s = revocation_Add d sc c s"
| "rev_apply (RevReset d sc c) s = revocation_Reset d sc c s"

fun rev_entry :: "rev_op \<Rightarrow> cid \<times> did \<times> cid" where
  "rev_entry (RevAdd d sc c) = (d, sc, c)"
| "rev_entry (RevReset d sc c) = (d, sc, c)"

lemma Find_loop_eq:
  "Find_loop s ds result d = (if d \<in> set ds \<and> s d \<noteq> None then s d else result d)"
  by (induction ds arbitrary: result) (auto split: option.splits)

lemma revocation_Find_eq: "revocation_Find s ds d = (if d \<in> set ds then s d else None)"
  by (auto simp: revocation_Find_def Find_loop_eq)

lemma rev_apply_other: "fst (rev_entry op) \<noteq> d \<Longrightarrow> rev_apply op s d = s d"
  by (cases op) (auto simp: revocation_Add_def revocation_Reset_def Let_def)

lemma rev_apply_own:
  assumes "rev_entry op = (d, sc, c)"
  shows "\<exists>m. rev_apply op s d = Some m \<and> m sc \<noteq> None \<and>
    (\<forall>sc' c'. m sc' = Some c' \<longrightarrow> (sc', c') = (sc, c) \<or> (\<exists>m0. s d = Some m0 \<and> m0 sc' = Some c'))"
  using assms
  by (cases op) (auto simp: revocation_Add_def revocation_Reset_def Let_def split: option.splits if_splits)

lemma rev_run_spec:
  "(fold rev_apply ops revocation_New d = None \<longleftrightarrow> d \<notin> fst ` rev_entry ` set ops) \<and>
   (\<forall>m. fold rev_apply ops revocation_New d = Some m \<longrightarrow> m \<noteq> Map.empty \<and>
      (\<forall>sc c. m sc = Some c \<longrightarrow> (d, sc, c) \<in> rev_entry ` set ops))"
proof (induction ops rule: rev_induct)
  case Nil
  then show ?case by (simp add: revocation_New_def)
next
  case (snoc op ops)
  show ?case
  proof (cases "fst (rev_entry op) = d")
    case False
    then have "rev_entry op \<noteq> (d, sc, c)" for sc c by auto
    with False snoc show ?thesis
      by (auto simp: rev_apply_other)
  next
    case True
    then obtain sc c where e: "rev_entry op = (d, sc, c)"
      by (cases "rev_entry op") auto
    from rev_apply_own [OF e, of "fold rev_apply ops revocation_New"] obtain m where
      m: "rev_apply op (fold rev_apply ops revocation_New) d = Some m" "m sc \<noteq> None"
      "\<And>sc' c'. m sc' = Some c' \<Longrightarrow> (sc', c') = (sc, c) \<or>
         (\<exists>m0. fold rev_apply ops revocation_New d = Some m0 \<and> m0 sc' = Some c')"
      by blast
    have "(d, sc', c') \<in> rev_entry ` set (ops @ [op])" if "m sc' = Some c'" for sc' c'
      using m(3) [OF that] snoc e by auto
    moreover have "d \<in> fst ` rev_entry ` set (ops @ [op])"
      using True by auto
    moreover have "m \<noteq> Map.empty" using m(2) by auto
    ultimately show ?thesis using m(1) by simp
  qed
qed

text \<open>
After any sequence of revocations, added or reset, Find reports a delegation it was asked
about as revoked exactly when one of them named it (so a revocation is never lost, not even by a
reset), and every scope and cause it reports is that of a recorded revocation of the delegation.
\<close>

theorem revocation_history:
  "(revocation_Find (fold rev_apply ops revocation_New) ds d \<noteq> None \<longleftrightarrow>
      d \<in> set ds \<and> (\<exists>op \<in> set ops. fst (rev_entry op) = d)) \<and>
   (case revocation_Find (fold rev_apply ops revocation_New) ds d of
      None \<Rightarrow> True
    | Some m \<Rightarrow> m \<noteq> Map.empty \<and> {(d, sc, c) | sc c. m sc = Some c} \<subseteq> rev_entry ` set ops)"
  using rev_run_spec [of ops d]
  by (auto simp: revocation_Find_eq image_iff split: option.split)

subsection \<open>The replicas of a blob\<close>

definition replica_lookup :: "replica_store \<Rightarrow> did \<Rightarrow> multihash \<Rightarrow> did \<rightharpoonup> replica_Record" where
  "replica_lookup s space digest provider =
     find (\<lambda>r. rep_Provider r = provider) (replica_space s space digest)"

definition replicas_ok :: "replica_store \<Rightarrow> bool" where
  "replicas_ok s \<longleftrightarrow> (\<forall>space digest.
     (\<forall>r \<in> set (replica_space s space digest). rep_Space r = space \<and> rep_Digest r = digest) \<and>
     sorted (map rep_Provider (replica_space s space digest)) \<and>
     distinct (map rep_Provider (replica_space s space digest)))"

lemma replicas_ok_New: "replicas_ok replica_New"
  by (simp add: replicas_ok_def replica_space_def replica_New_def)

lemma replica_space_upd:
  "replica_space (s(space \<mapsto> (replica_space s space)(digest := rs))) space' digest' =
     (if space' = space \<and> digest' = digest then rs else replica_space s space' digest')"
  "replica_space (s(space \<mapsto> replica_space s space)) = replica_space s"
  by (auto simp: replica_space_def fun_eq_iff)

lemma replica_is_find:
  assumes "replicas_ok s"
  shows "IndexFunc (replica_is space digest provider) (replica_space s space digest) =
      IndexFunc (\<lambda>r. rep_Provider r = provider) (replica_space s space digest)"
    and "(\<exists>r \<in> set (replica_space s space digest). replica_is space digest provider r) \<longleftrightarrow>
      replica_lookup s space digest provider \<noteq> None"
proof -
  have m: "\<forall>r \<in> set (replica_space s space digest). replica_is space digest provider r = (rep_Provider r = provider)"
    using assms by (auto simp: replicas_ok_def replica_is_def)
  then show "IndexFunc (replica_is space digest provider) (replica_space s space digest) =
      IndexFunc (\<lambda>r. rep_Provider r = provider) (replica_space s space digest)"
    by (blast intro: IndexFunc_cong)
  show "(\<exists>r \<in> set (replica_space s space digest). replica_is space digest provider r) \<longleftrightarrow>
      replica_lookup s space digest provider \<noteq> None"
    using m by (auto simp: replica_lookup_def find_None_iff)
qed

text \<open>An operation that rewrites the replica of one provider, found by its index.\<close>

lemma replica_update:
  assumes ok: "replicas_ok s" and i: "IndexFunc (\<lambda>r. rep_Provider r = provider) (replica_space s space digest) = Some i"
    and r': "rep_Provider r' = provider" "rep_Space r' = space" "rep_Digest r' = digest"
    and t: "t = s(space \<mapsto> (replica_space s space)(digest := (replica_space s space digest)[i := r']))"
  shows "replicas_ok t" and "replica_lookup t = (replica_lookup s)(space := (replica_lookup s space)(digest :=
      (replica_lookup s space digest)(provider \<mapsto> r')))"
proof -
  note at = IndexFunc_SomeD [OF i]
  have "map rep_Provider ((replica_space s space digest)[i := r']) = map rep_Provider (replica_space s space digest)"
    using at r' by (simp add: map_update list_update_same_conv)
  then show "replicas_ok t"
    using ok r' at unfolding replicas_ok_def t replica_space_upd
    by (auto dest!: set_update_subset_insert [THEN subsetD])
  show "replica_lookup t = (replica_lookup s)(space := (replica_lookup s space)(digest :=
      (replica_lookup s space digest)(provider \<mapsto> r')))"
    unfolding replica_lookup_def t replica_space_upd using find_update_key [OF i r'(1)] by (auto simp: fun_eq_iff)
qed

lemma replica_Add_spec:
  assumes ok: "replicas_ok s" and "replica_lookup s space digest provider = None"
  obtains t where "replica_Add space digest provider status cause now s = (t, Ok ())" and "replicas_ok t"
    and "replica_lookup t = (replica_lookup s)(space := (replica_lookup s space)(digest :=
      (replica_lookup s space digest)(provider \<mapsto>
        \<lparr>rep_Space = space, rep_Digest = digest, rep_Provider = provider, rep_Status = status,
         rep_Cause = cause, rep_CreatedAt = now, rep_UpdatedAt = go_zero_time\<rparr>)))"
proof -
  let ?r = "\<lparr>rep_Space = space, rep_Digest = digest, rep_Provider = provider, rep_Status = status,
         rep_Cause = cause, rep_CreatedAt = now, rep_UpdatedAt = go_zero_time\<rparr>"
  let ?rs = "sort_key rep_Provider (replica_space s space digest @ [?r])"
  let ?t = "s(space \<mapsto> (replica_space s space)(digest := ?rs))"
  have new: "provider \<notin> rep_Provider ` set (replica_space s space digest)"
    using assms(2) by (simp add: replica_lookup_def find_None_key)
  have add: "replica_Add space digest provider status cause now s = (?t, Ok ())"
    using replica_is_find(2) [OF ok] assms(2) by (simp add: replica_Add_def Let_def)
  have dist: "distinct (map rep_Provider (replica_space s space digest @ [?r]))"
    using ok new by (auto simp: replicas_ok_def)
  have ok': "replicas_ok ?t"
    using ok dist unfolding replicas_ok_def replica_space_upd by auto
  have "find (\<lambda>r. rep_Provider r = p) ?rs =
      (if p = provider then Some ?r else replica_lookup s space digest p)" for p
    unfolding replica_lookup_def
    using find_sort_key_snoc [OF dist, of p] by simp
  then have "replica_lookup ?t = (replica_lookup s)(space := (replica_lookup s space)(digest :=
      (replica_lookup s space digest)(provider \<mapsto> ?r)))"
    unfolding replica_lookup_def replica_space_upd by (auto simp: fun_eq_iff)
  with add ok' that show thesis by blast
qed

text \<open>
The replica store, where every blob's replicas are filed under their own space and digest
and have distinct providers: Add of a new provider succeeds and is then found with the given status and
cause, and of a known one fails with ErrReplicaExists; Retry and SetStatus rewrite the replica of a known
provider (SetStatus keeping its cause) and fail with ErrReplicaNotFound on an unknown one; a failing call
changes no replica, a succeeding one no other replica; and List stays sorted by provider, each once.
\<close>

theorem replica_store_spec:
  assumes "replicas_ok s"
  shows "(case replica_lookup s space digest provider of
      Some r \<Rightarrow>
        (\<exists>t. replica_Add space digest provider status cause now s = (t, Err ErrReplicaExists) \<and>
           replica_lookup t = replica_lookup s \<and> replicas_ok t) \<and>
        (\<exists>t. replica_Retry space digest provider status cause now s = (t, Ok ()) \<and> replicas_ok t \<and>
           replica_lookup t = (replica_lookup s)(space := (replica_lookup s space)(digest :=
             (replica_lookup s space digest)(provider \<mapsto>
                r\<lparr>rep_Status := status, rep_Cause := cause, rep_UpdatedAt := now\<rparr>)))) \<and>
        (\<exists>t. replica_SetStatus space digest provider status now s = (t, Ok ()) \<and> replicas_ok t \<and>
           replica_lookup t = (replica_lookup s)(space := (replica_lookup s space)(digest :=
             (replica_lookup s space digest)(provider \<mapsto>
                r\<lparr>rep_Status := status, rep_UpdatedAt := now\<rparr>))))
    | None \<Rightarrow>
        (\<exists>t. replica_Add space digest provider status cause now s = (t, Ok ()) \<and> replicas_ok t \<and>
           replica_lookup t = (replica_lookup s)(space := (replica_lookup s space)(digest :=
             (replica_lookup s space digest)(provider \<mapsto>
                \<lparr>rep_Space = space, rep_Digest = digest, rep_Provider = provider, rep_Status = status,
                 rep_Cause = cause, rep_CreatedAt = now, rep_UpdatedAt = go_zero_time\<rparr>)))) \<and>
        (\<exists>t. replica_Retry space digest provider status cause now s = (t, Err ErrReplicaNotFound) \<and>
           replica_lookup t = replica_lookup s \<and> replicas_ok t) \<and>
        (\<exists>t. replica_SetStatus space digest provider status now s = (t, Err ErrReplicaNotFound) \<and>
           replica_lookup t = replica_lookup s \<and> replicas_ok t)) \<and>
    (\<exists>rs. replica_List s space digest = Ok rs \<and> sorted (map rep_Provider rs) \<and>
       distinct (map rep_Provider rs) \<and>
       (\<forall>p. replica_lookup s space digest p = find (\<lambda>r. rep_Provider r = p) rs))"
proof (rule conjI, goal_cases)
  let ?t = "s(space \<mapsto> replica_space s space)"
  have same: "replica_lookup ?t = replica_lookup s" "replicas_ok ?t"
    using assms unfolding replica_lookup_def replicas_ok_def replica_space_upd by auto
  case 1
  show ?case
  proof (cases "replica_lookup s space digest provider")
    case None
    then have "IndexFunc (replica_is space digest provider) (replica_space s space digest) = None"
      using replica_is_find(1) [OF assms] by (simp add: replica_lookup_def IndexFunc_find)
    with None show ?thesis
      using replica_Add_spec [OF assms None, of status cause now] same
      by (auto simp: replica_Retry_def replica_SetStatus_def)
  next
    case (Some r)
    then obtain i where i: "IndexFunc (\<lambda>r. rep_Provider r = provider) (replica_space s space digest) = Some i"
        "replica_space s space digest ! i = r"
      by (auto simp: replica_lookup_def IndexFunc_find)
    have r: "rep_Provider r = provider" "rep_Space r = space" "rep_Digest r = digest"
      using IndexFunc_SomeD [OF i(1)] i(2) assms unfolding replicas_ok_def by (metis nth_mem)+
    have "replica_Add space digest provider status cause now s = (?t, Err ErrReplicaExists)"
      using replica_is_find(2) [OF assms, of space digest provider] Some by (simp add: replica_Add_def)
    with Some same show ?thesis
      using replica_update [OF assms i(1) _ _ _ refl] i replica_is_find(1) [OF assms, of space digest provider] r
      by (simp add: replica_Retry_def replica_SetStatus_def Let_def)
  qed
next
  case 2
  have "replica_List s space digest = Ok (replica_space s space digest)"
    by (simp add: replica_List_def replica_space_def split: option.split)
  then show ?case
    using assms by (auto simp: replicas_ok_def replica_lookup_def)
qed

theorem replica_store_spec_witness:
  "\<exists>t. replica_SetStatus ''space'' ''d1'' ''did:p'' Transferred 9
       (fst (replica_Add ''space'' ''d1'' ''did:p'' Allocated ''c1'' 5 replica_New)) = (t, Ok ()) \<and>
     replica_lookup t ''space'' ''d1'' ''did:p'' = Some \<lparr>rep_Space = ''space'', rep_Digest = ''d1'',
       rep_Provider = ''did:p'', rep_Status = Transferred, rep_Cause = ''c1'', rep_CreatedAt = 5, rep_UpdatedAt = 9\<rparr>"
proof -
  let ?s = "fst (replica_Add ''space'' ''d1'' ''did:p'' Allocated ''c1'' 5 replica_New)"
  have look: "replica_lookup replica_New ''space'' ''d1'' ''did:p'' = None"
    by (simp add: replica_lookup_def replica_space_def replica_New_def)
  have "replicas_ok ?s"
    and l: "replica_lookup ?s ''space'' ''d1'' ''did:p'' = Some \<lparr>rep_Space = ''space'', rep_Digest = ''d1'',
       rep_Provider = ''did:p'', rep_Status = Allocated, rep_Cause = ''c1'', rep_CreatedAt = 5,
       rep_UpdatedAt = go_zero_time\<rparr>"
    using replica_store_spec [OF replicas_ok_New, of "''space''" "''d1''" "''did:p''" Allocated "''c1''" 5] look
    by auto
  from replica_store_spec [OF this(1), of "''space''" "''d1''" "''did:p''" Transferred "''c2''" 9] l
  show ?thesis by auto
qed

end
