(* ===== verification/Blob_Remove.thy ===== *)
theory Blob_Remove
  imports Blob_Add Token_Stores
begin

section \<open>Removing and aborting\<close>

text \<open>
  \<^verbatim>\<open>pkg/service/handlers/blob_remove.go\<close>, \<^verbatim>\<open>blob_abort.go\<close> and the listeners of
  \<^verbatim>\<open>pkg/lib/ucan_server/events.go\<close> that record messages. Removing a blob tells every node that holds
  it, the primary found through the receipts of the add and the replicas, and deregisters it. Aborting an
  add that was never accepted tells its node to reject the allocation. Both walk the chain of receipts
  and invocations an add leaves in the message store.

  The set of providers is a Go map, so a parameter \<open>shuffle\<close> orders its keys. The replica store
  is only read.
\<close>

subsection \<open>Removing\<close>

definition primaryProviderForBlob :: "'w env \<Rightarrow> agent_store \<Rightarrow> cid \<Rightarrow> did res" where
  "primaryProviderForBlob E s cause =
     andThen (wrap ''getting receipt for blob registration'' (GetReceipt (env_F E) (env_U E) s cause)) (\<lambda>addRcpt.
       if IsErr (rcpt_Out addRcpt) then Err (Errorf ''blob registration receipt contains failure'')
       else
         andThen (wrap ''unmarshaling add OK result'' (AddOK_Unmarshal (env_L E) (out_bytes (rcpt_Out addRcpt)))) (\<lambda>site.
         andThen (wrap ''getting invocation for blob accept'' (GetInvocation (env_F E) s site)) (\<lambda>accInv.
           Ok (tok_Subject accInv))))"

definition forwardBlobRelease ::
  "'w env \<Rightarrow> did \<Rightarrow> did \<Rightarrow> multihash \<Rightarrow> token \<Rightarrow> token list \<Rightarrow> 'w service \<Rightarrow> 'w service \<times> unit res" where
  "forwardBlobRelease E provider space digest cause causeProofs s =
     andThenS (s, wrap ''getting provider info'' (GetProviderInfo (router s) provider)) (\<lambda>info s.
     andThenS (s, wrap ''creating piri client''
         (provider_Client (env_N E) (env_id E) (info_ID info) (info_Endpoint info))) (\<lambda>client s.
       let (w, r) = piri_Release (env_L E) (env_N E) client
             \<lparr>lreq_Space = space, lreq_Digest = digest, lreq_Cause = cause, lreq_CauseProofs = causeProofs\<rparr>
             (info_Proofs info) [] (net s)
       in andThenS (s\<lparr>net := w\<rparr>, wrap ''executing release on provider'' r) (\<lambda>(_, iv, rcpt) s.
            let (ag, r) = writeAgentMessage E [iv] [rcpt] (agentStore s)
            in (s\<lparr>agentStore := ag\<rparr>, wrap ''writing agent message'' r))))"

fun containerDelegations :: "ucan_lib \<Rightarrow> container option \<Rightarrow> cid list \<Rightarrow> token list" where
  "containerDelegations U None links = []"
| "containerDelegations U (Some meta) links = List.map_filter (container_Delegation U meta) links"

text \<open>The providers found, in the order they are put into the map: the primary, where the chain gives it,
  and the replicas that have not failed. An error of either reading is logged only.\<close>

definition holders :: "did res \<Rightarrow> replica_Record list res \<Rightarrow> did list" where
  "holders primary replicas =
     remdups ((case primary of Ok p \<Rightarrow> [p] | _ \<Rightarrow> []) @
       (case replicas of Ok rs \<Rightarrow> map rep_Provider (filter (\<lambda>r. rep_Status r \<noteq> Failed) rs) | _ \<Rightarrow> []))"

text \<open>An error of a forward is logged and the loop goes on.\<close>

fun release_loop ::
  "'w env \<Rightarrow> did \<Rightarrow> multihash \<Rightarrow> token \<Rightarrow> token list \<Rightarrow> did list \<Rightarrow> 'w service \<Rightarrow> 'w service \<times> unit res" where
  "release_loop E space digest cause causeProofs [] s = (s, Ok ())"
| "release_loop E space digest cause causeProofs (provider # ps) s =
     (case forwardBlobRelease E provider space digest cause causeProofs s of
        (s, Panic) \<Rightarrow> (s, Panic)
      | (s, _) \<Rightarrow> release_loop E space digest cause causeProofs ps s)"

definition BlobRemoveHandler ::
  "'w env \<Rightarrow> replica_store \<Rightarrow> (did list \<Rightarrow> did list) \<Rightarrow> token \<Rightarrow> container option \<Rightarrow> multihash \<Rightarrow> 'w service \<Rightarrow>
   'w service \<times> unit response res" where
  "BlobRemoveHandler E replicaStore shuffle iv meta digest s =
     (let space = tok_Subject iv; cause = tok_Task iv in
      case blob_Get (blobRegistry s) space digest of
        Panic \<Rightarrow> (s, Panic)
      | Err e \<Rightarrow>
          (s, if errors_Is e ErrEntryNotFound then Ok (SetSuccess None ())
              else Err (Wrap ''getting blob registration'' e))
      | Ok reg \<Rightarrow>
          (case primaryProviderForBlob E (agentStore s) (ent_Cause reg) of
             Panic \<Rightarrow> (s, Panic)
           | primary \<Rightarrow>
               (case replica_List replicaStore space digest of
                  Panic \<Rightarrow> (s, Panic)
                | replicas \<Rightarrow>
                    (let causeProofs = containerDelegations (env_U E) meta (tok_Proofs iv)
                     in andThenS (release_loop E space digest iv causeProofs (shuffle (holders primary replicas)) s)
                          (\<lambda>_ s.
                             let (reg, r) = blob_Deregister (env_F E) space digest cause
                                   (env_clock E (net s) 0) (blobRegistry s);
                                 s = s\<lparr>blobRegistry := reg\<rparr>
                             in (s, case r of
                                      Panic \<Rightarrow> Panic
                                    | Err e \<Rightarrow> (if errors_Is e ErrEntryNotFound then Ok (SetSuccess None ())
                                              else Err (Wrap ''deregistering blob'' e))
                                    | Ok _ \<Rightarrow> Ok (SetSuccess None ())))))))"

subsection \<open>Aborting\<close>

definition errOtherSpace :: gerr where
  "errOtherSpace = Named ''OtherSpace'' ''add task belongs to another space''"

definition rejectionFor :: "'w env \<Rightarrow> agent_store \<Rightarrow> did \<Rightarrow> cid \<Rightarrow> (did \<times> RejectArguments) res" where
  "rejectionFor E s space add =
     (let L = env_L E; F = env_F E in
      andThen (wrap ''getting receipt for blob add'' (GetReceipt F (env_U E) s add)) (\<lambda>addRcpt.
      if IsErr (rcpt_Out addRcpt) then Err (Errorf ''blob add receipt contains failure'')
      else
      andThen (wrap ''unmarshaling add OK result'' (AddOK_Unmarshal L (out_bytes (rcpt_Out addRcpt)))) (\<lambda>site.
      andThen (wrap ''getting invocation for blob accept'' (GetInvocation F s site)) (\<lambda>accInv.
      andThen (wrap ''unmarshaling accept arguments'' (AcceptArguments_Unmarshal L (tok_Arguments accInv))) (\<lambda>accArgs.
      if acc_Space accArgs \<noteq> space then Err errOtherSpace
      else
      andThen (wrap ''getting invocation for HTTP PUT'' (GetInvocation F s (acc_Put accArgs))) (\<lambda>putInv.
      andThen (wrap ''unmarshaling HTTP PUT arguments'' (PutArguments_Unmarshal L (tok_Arguments putInv))) (\<lambda>putArgs.
        Ok (tok_Subject accInv, \<lparr>rej_Allocation = put_Destination putArgs\<rparr>))))))))"

definition BlobAbortHandler ::
  "'w env \<Rightarrow> token \<Rightarrow> cid \<Rightarrow> 'w service \<Rightarrow> 'w service \<times> unit response res" where
  "BlobAbortHandler E iv add s =
     (let L = env_L E; space = tok_Subject iv in
      if \<not> defined add then (s, Ok (SetFailure (ErrMissingCause L)))
      else
        (case rejectionFor E (agentStore s) space add of
           Panic \<Rightarrow> (s, Panic)
         | Err e \<Rightarrow>
             (s, if errors_Is e ErrReceiptNotFound \<or> errors_Is e ErrInvocationNotFound \<or> errors_Is e errOtherSpace
                 then Ok (SetFailure (Named (MissingCauseErrorName L) ''cause does not resolve to a known /blob/add task''))
                 else Err (Wrap ''recovering provider for parked blob'' e))
         | Ok (provider, reject) \<Rightarrow>
             andThenS (s, wrap ''getting provider info'' (GetProviderInfo (router s) provider)) (\<lambda>info s.
             andThenS (s, wrap ''creating piri client''
                 (provider_Client (env_N E) (env_id E) (info_ID info) (info_Endpoint info))) (\<lambda>client s.
               case piri_Reject L (env_N E) client reject (info_Proofs info) [] (net s) of
                 (w, Panic) \<Rightarrow> (s\<lparr>net := w\<rparr>, Panic)
               | (w, Err e) \<Rightarrow>
                   (s\<lparr>net := w\<rparr>,
                    case errors_As_Named e of
                      Some named \<Rightarrow>
                        (if err_name named = BlobAcceptedErrorName L then Ok (SetFailure named)
                         else Err (Wrap ''executing reject on provider'' e))
                    | None \<Rightarrow> Err (Wrap ''executing reject on provider'' e))
               | (w, Ok (_, iv, rcpt)) \<Rightarrow>
                   (let (ag, r) = writeAgentMessage E [iv] [rcpt] (agentStore s)
                    in andThenS (s\<lparr>net := w, agentStore := ag\<rparr>, wrap ''writing agent message'' r)
                         (\<lambda>_ s. (s, Ok (SetSuccess None ()))))))))"

subsection \<open>Recording messages\<close>

text \<open>\<^verbatim>\<open>AgentMessageLogger\<close>: a failed write of the incoming message is logged only, one of the outgoing
  message fails the request.\<close>

definition OnRequestDecode :: "formats \<Rightarrow> ucan_lib \<Rightarrow> container \<Rightarrow> agent_store \<Rightarrow> agent_store \<times> unit res" where
  "OnRequestDecode F U msg s =
     (case agent_Write F U msg (agent_Index msg) s of
        (s, Panic) \<Rightarrow> (s, Panic)
      | (s, _) \<Rightarrow> (s, Ok ()))"

definition OnResponseEncode :: "formats \<Rightarrow> ucan_lib \<Rightarrow> container \<Rightarrow> agent_store \<Rightarrow> agent_store \<times> unit res" where
  "OnResponseEncode F U msg s =
     (let (s, r) = agent_Write F U msg (agent_Index msg) s
      in (s, wrap ''writing outgoing agent message to agent store'' r))"

subsection \<open>What removing does\<close>

text \<open>No library call and no request panics.\<close>

definition quiet :: "'w env \<Rightarrow> bool" where
  "quiet E \<longleftrightarrow> (\<forall>c iv opts w. snd (node_Execute (env_N E) c iv opts w) \<noteq> Panic) \<and>
     (\<forall>url. node_NewHTTP (env_N E) url \<noteq> Panic) \<and>
     (\<forall>iss subj args opts. Invoke (env_L E) iss subj args opts \<noteq> Panic) \<and>
     (\<forall>ct iss name subj. ProofChain (env_L E) ct iss name subj \<noteq> Panic) \<and>
     (\<forall>b. ErrorModel_Unmarshal (env_L E) b \<noteq> Panic \<and> AddOK_Unmarshal (env_L E) b \<noteq> Panic \<and>
        ReleaseOK_Unmarshal (env_L E) b \<noteq> Panic) \<and>
     (\<forall>ct. container_MarshalCBOR (env_U E) ct \<noteq> Panic) \<and> (\<forall>b. cid_Sum (env_U E) b \<noteq> Panic)"

lemma quietD:
  assumes "quiet E"
  shows "snd (node_Execute (env_N E) c iv eopts w) \<noteq> Panic" "node_NewHTTP (env_N E) url \<noteq> Panic"
    "Invoke (env_L E) iss subj args opts \<noteq> Panic" "ProofChain (env_L E) ct iss name subj \<noteq> Panic"
    "ErrorModel_Unmarshal (env_L E) b \<noteq> Panic" "AddOK_Unmarshal (env_L E) b \<noteq> Panic"
    "ReleaseOK_Unmarshal (env_L E) b \<noteq> Panic" "container_MarshalCBOR (env_U E) ct \<noteq> Panic"
    "cid_Sum (env_U E) b \<noteq> Panic"
  using assms unfolding quiet_def by blast+

text \<open>A way to see in the world that a request was sent: sending shows it, and later requests keep it.\<close>

definition shows_requests :: "'w node \<Rightarrow> (Client \<Rightarrow> token \<Rightarrow> exec_options \<Rightarrow> 'w \<Rightarrow> bool) \<Rightarrow> bool" where
  "shows_requests N sent \<longleftrightarrow> (\<forall>c iv opts w. sent c iv opts (fst (node_Execute N c iv opts w))) \<and>
     (\<forall>c iv opts c' iv' opts' w. sent c iv opts w \<longrightarrow> sent c iv opts (fst (node_Execute N c' iv' opts' w)))"

lemma shows_requestsD:
  assumes "shows_requests N sent"
  shows "sent c iv opts (fst (node_Execute N c iv opts w))"
    "sent c iv opts w \<Longrightarrow> sent c iv opts (fst (node_Execute N c' iv' opts' w))"
  using assms unfolding shows_requests_def by blast+

lemma fst_Execute: "fst (Execute L N c unmarshal iv opts w) = fst (node_Execute N c iv opts w)"
  by (simp add: Execute_def fst_andThenS Let_def case_prod_beta split: res.split)

lemma Execute_quiet:
  assumes "quiet E" "\<And>b. unmarshal b \<noteq> Panic"
  shows "snd (Execute (env_L E) (env_N E) c unmarshal iv opts w) \<noteq> Panic"
  using assms by (auto simp: Execute_def snd_andThenS_Panic Let_def case_prod_beta andThen_eq_Panic quietD
      split: outcome.splits res.splits)

lemma agent_Write_quiet: "quiet E \<Longrightarrow> snd (agent_Write (env_F E) (env_U E) m idx s) \<noteq> Panic"
  by (auto simp: agent_Write_def quietD split: res.split)

lemma fst_piri_Release:
  "fst (piri_Release L N c req ct opts w) =
     (case ReleaseInvocation L c req ct opts of
        Ok (iv, prfs) \<Rightarrow> fst (node_Execute N c iv \<lparr>ex_Delegations = prfs @ lreq_CauseProofs req,
           ex_Invocations = [lreq_Cause req], ex_Receipts = []\<rparr> w)
      | _ \<Rightarrow> w)"
  by (cases "ReleaseInvocation L c req ct opts")
    (simp_all add: piri_Release_def fst_andThenS fst_Execute case_prod_beta split: res.split)

lemma piri_Release_quiet: "quiet E \<Longrightarrow> snd (piri_Release (env_L E) (env_N E) c req ct opts w) \<noteq> Panic"
  using Execute_quiet [of E "ReleaseOK_Unmarshal (env_L E)"]
  by (auto simp: piri_Release_def snd_andThenS_Panic ReleaseInvocation_def andThen_eq_Panic Let_def
      case_prod_beta quietD)

lemma GetProviderInfo_quiet: "GetProviderInfo s p \<noteq> Panic"
  by (auto simp: GetProviderInfo_def sp_Get_def split: res.splits option.splits)

lemma provider_Client_quiet: "quiet E \<Longrightarrow> provider_Client (env_N E) iss i ep \<noteq> Panic"
  by (auto simp: provider_Client_def piri_New_def andThen_eq_Panic quietD)

text \<open>A forward sends the release wherever it can be issued, and changes nothing but the world and the
  message store.\<close>

definition release_request :: "token \<Rightarrow> multihash \<Rightarrow> token list \<Rightarrow> ReleaseRequest" where
  "release_request iv digest causeProofs = \<lparr>lreq_Space = tok_Subject iv, lreq_Digest = digest, lreq_Cause = iv,
     lreq_CauseProofs = causeProofs\<rparr>"

definition told ::
  "'w env \<Rightarrow> (Client \<Rightarrow> token \<Rightarrow> exec_options \<Rightarrow> 'w \<Rightarrow> bool) \<Rightarrow> routing_Service \<Rightarrow> token \<Rightarrow> multihash \<Rightarrow> token list \<Rightarrow>
   did \<Rightarrow> 'w \<Rightarrow> bool" where
  "told E sent R iv digest causeProofs p w \<longleftrightarrow> (\<forall>info client rel prfs.
     GetProviderInfo R p = Ok info \<and>
     provider_Client (env_N E) (env_id E) (info_ID info) (info_Endpoint info) = Ok client \<and>
     ReleaseInvocation (env_L E) client (release_request iv digest causeProofs) (info_Proofs info) [] = Ok (rel, prfs) \<longrightarrow>
     sent client rel \<lparr>ex_Delegations = prfs @ causeProofs, ex_Invocations = [iv], ex_Receipts = []\<rparr> w)"

lemma forwardBlobRelease_spec:
  assumes q: "quiet E" and v: "shows_requests (env_N E) sent"
    and f: "forwardBlobRelease E p (tok_Subject iv) digest iv causeProofs s = (s', r)"
  shows "r \<noteq> Panic" "blobRegistry s' = blobRegistry s" "router s' = router s" "provisioningSvc s' = provisioningSvc s"
    "told E sent (router s) iv digest causeProofs p (net s')" "sent c' iv' opts' (net s) \<Longrightarrow> sent c' iv' opts' (net s')"
proof -
  let ?f = "forwardBlobRelease E p (tok_Subject iv) digest iv causeProofs s"
  have f': "s' = fst ?f" "r = snd ?f" using f by simp_all
  note defs = forwardBlobRelease_def Let_def case_prod_beta
  show "r \<noteq> Panic"
    using agent_Write_quiet [OF q] piri_Release_quiet [OF q] provider_Client_quiet [OF q]
    by (auto simp: f' defs snd_andThenS_Panic GetProviderInfo_quiet writeAgentMessage_def)
  show "blobRegistry s' = blobRegistry s" "router s' = router s" "provisioningSvc s' = provisioningSvc s"
    by (auto simp: f' defs fst_andThenS split: res.split)
  show "told E sent (router s) iv digest causeProofs p (net s')"
    using shows_requestsD(1) [OF v]
    by (auto simp: told_def f' defs fst_andThenS fst_piri_Release release_request_def split: res.split)
  show "sent c' iv' opts' (net s) \<Longrightarrow> sent c' iv' opts' (net s')"
    using shows_requestsD(2) [OF v]
    by (auto simp: f' defs fst_andThenS fst_piri_Release split: res.split)
qed

lemma release_loop_spec:
  assumes q: "quiet E" and v: "shows_requests (env_N E) sent"
  shows "release_loop E (tok_Subject iv) digest iv causeProofs ps s = (s', r) \<Longrightarrow>
    r = Ok () \<and> blobRegistry s' = blobRegistry s \<and> router s' = router s \<and> provisioningSvc s' = provisioningSvc s \<and>
    (\<forall>p \<in> set ps. told E sent (router s) iv digest causeProofs p (net s')) \<and>
    (\<forall>c' iv' opts'. sent c' iv' opts' (net s) \<longrightarrow> sent c' iv' opts' (net s'))"
proof (induction ps arbitrary: s)
  case Nil
  then show ?case by simp
next
  case (Cons p ps)
  obtain s1 r1 where f: "forwardBlobRelease E p (tok_Subject iv) digest iv causeProofs s = (s1, r1)"
    by (cases "forwardBlobRelease E p (tok_Subject iv) digest iv causeProofs s")
  note F = forwardBlobRelease_spec [OF q v f]
  from Cons.prems f F(1) have "release_loop E (tok_Subject iv) digest iv causeProofs ps s1 = (s', r)"
    by (cases r1) simp_all
  note IH = Cons.IH [OF this]
  from F(5) IH have "told E sent (router s) iv digest causeProofs p (net s')"
    by (auto simp: told_def)
  with IH F(2,3,4,6) show ?case by auto
qed

lemma primaryProvider_quiet:
  assumes "quiet E" and "agent_invar (env_F E) (env_U E) ag"
  shows "primaryProviderForBlob E ag cause \<noteq> Panic"
proof -
  have ok: "agent_ok (env_F E) ag" "ucan_lib_ok (env_U E)"
    using assms(2) by (simp_all add: agent_invar_def)
  show ?thesis
    using quietD(6) [OF assms(1)]
    by (auto simp: primaryProviderForBlob_def andThen_eq_Panic GetReceipt_eq(1) [OF ok] GetInvocation_eq [OF ok(1)]
        split: option.splits)
qed

lemma replica_List_Ok: "\<exists>rs. replica_List s space digest = Ok rs"
  by (simp add: replica_List_def split: option.split)

text \<open>A provider that holds the blob, as far as the service knows.\<close>

definition holds_blob :: "'w env \<Rightarrow> replica_store \<Rightarrow> agent_store \<Rightarrow> blob_Record \<Rightarrow> did \<Rightarrow> multihash \<Rightarrow> did \<Rightarrow> bool" where
  "holds_blob E replicaStore ag reg space digest p \<longleftrightarrow> primaryProviderForBlob E ag (ent_Cause reg) = Ok p \<or>
     (\<exists>rs rep. replica_List replicaStore space digest = Ok rs \<and> rep \<in> set rs \<and> rep_Provider rep = p \<and>
        rep_Status rep \<noteq> Failed)"

lemma holders_iff:
  "p \<in> set (holders (primaryProviderForBlob E ag (ent_Cause reg)) (replica_List replicaStore space digest)) \<longleftrightarrow>
     holds_blob E replicaStore ag reg space digest p"
  using replica_List_Ok [of replicaStore space digest]
  by (auto simp: holders_def holds_blob_def split: res.splits)

lemma BlobRemove_unregistered:
  "registered (blobRegistry s) (tok_Subject iv) digest = None \<Longrightarrow>
     BlobRemoveHandler E replicaStore shuffle iv meta digest s = (s, Ok (SetSuccess None ()))"
  by (simp add: BlobRemoveHandler_def blob_registry.get_held Let_def ErrEntryNotFound_def)

lemma BlobRemove_run:
  assumes q: "quiet E" and ag: "agent_invar (env_F E) (env_U E) (agentStore s)"
    and v: "shows_requests (env_N E) sent"
    and reg: "registered (blobRegistry s) (tok_Subject iv) digest = Some reg"
    and d: "blobs_distinct (blobRegistry s)"
  obtains s1 s' where
    "release_loop E (tok_Subject iv) digest iv (containerDelegations (env_U E) meta (tok_Proofs iv))
      (shuffle (holders (primaryProviderForBlob E (agentStore s) (ent_Cause reg))
        (replica_List replicaStore (tok_Subject iv) digest))) s = (s1, Ok ())"
    "BlobRemoveHandler E replicaStore shuffle iv meta digest s = (s', Ok (SetSuccess None ()))"
    "net s' = net s1" "router s' = router s1" "provisioningSvc s' = provisioningSvc s1"
    "registered (blobRegistry s') = (registered (blobRegistry s))
       (tok_Subject iv := (registered (blobRegistry s) (tok_Subject iv))(digest := None))"
proof -
  let ?prim = "primaryProviderForBlob E (agentStore s) (ent_Cause reg)"
  let ?reps = "replica_List replicaStore (tok_Subject iv) digest"
  obtain s1 r1 where loop: "release_loop E (tok_Subject iv) digest iv (containerDelegations (env_U E) meta (tok_Proofs iv))
      (shuffle (holders ?prim ?reps)) s = (s1, r1)"
    by (cases "release_loop E (tok_Subject iv) digest iv (containerDelegations (env_U E) meta (tok_Proofs iv))
      (shuffle (holders ?prim ?reps)) s")
  from release_loop_spec [OF q v loop] have r1: "r1 = Ok ()" and same: "blobRegistry s1 = blobRegistry s" by blast+
  from blob_registry.deregister_held [OF d, of "tok_Subject iv" digest "env_F E" "tok_Task iv" "env_clock E (net s1) 0"] reg
  obtain b where b: "blob_Deregister (env_F E) (tok_Subject iv) digest (tok_Task iv) (env_clock E (net s1) 0)
      (blobRegistry s) = (b, Ok ())"
    "registered b = (registered (blobRegistry s))
       (tok_Subject iv := (registered (blobRegistry s) (tok_Subject iv))(digest := None))"
    by auto
  from primaryProvider_quiet [OF q ag] replica_List_Ok [of replicaStore "tok_Subject iv" digest] reg loop r1
  have "BlobRemoveHandler E replicaStore shuffle iv meta digest s = (s1\<lparr>blobRegistry := b\<rparr>, Ok (SetSuccess None ()))"
    by (cases ?prim; cases ?reps)
      (auto simp: BlobRemoveHandler_def blob_registry.get_held Let_def b(1) same)
  with loop r1 b(2) show thesis by (intro that [of s1 "s1\<lparr>blobRegistry := b\<rparr>"]) auto
qed

lemma release_loop_registry:
  "blobRegistry (fst (release_loop E space digest cause causeProofs ps s)) = blobRegistry s"
proof (induction ps arbitrary: s)
  case (Cons p ps)
  have "blobRegistry (fst (forwardBlobRelease E p space digest cause causeProofs s)) = blobRegistry s"
    by (auto simp: forwardBlobRelease_def Let_def case_prod_beta fst_andThenS split: res.split)
  with Cons show ?case
    by (cases "forwardBlobRelease E p space digest cause causeProofs s") (auto split: res.split)
qed simp

text \<open>A removal that panics has not come to deregister.\<close>

lemma BlobRemove_panic:
  assumes d: "blobs_distinct (blobRegistry s)" and reg: "registered (blobRegistry s) (tok_Subject iv) digest = Some reg"
    and run: "BlobRemoveHandler E replicaStore shuffle iv meta digest s = (s', Panic)"
  shows "blobRegistry s' = blobRegistry s"
proof -
  let ?prim = "primaryProviderForBlob E (agentStore s) (ent_Cause reg)"
  let ?reps = "replica_List replicaStore (tok_Subject iv) digest"
  let ?loop = "release_loop E (tok_Subject iv) digest iv (containerDelegations (env_U E) meta (tok_Proofs iv)) (shuffle (holders ?prim ?reps)) s"
  obtain s1 r1 where loop: "?loop = (s1, r1)" by (cases ?loop)
  have same: "blobRegistry s1 = blobRegistry s"
    using release_loop_registry [of E "tok_Subject iv" digest iv] loop by (metis fst_conv)
  from blob_registry.deregister_held [OF d, of "tok_Subject iv" digest "env_F E" "tok_Task iv" "env_clock E (net s1) 0"] reg
  obtain b where b: "blob_Deregister (env_F E) (tok_Subject iv) digest (tok_Task iv) (env_clock E (net s1) 0)
      (blobRegistry s) = (b, Ok ())"
    by auto
  from replica_List_Ok [of replicaStore "tok_Subject iv" digest] obtain rs where reps: "?reps = Ok rs" ..
  show ?thesis
    using run reg loop same b reps
    by (cases ?prim; cases r1) (auto simp: BlobRemoveHandler_def blob_registry.get_held Let_def)
qed


definition sample_removing :: "nat service" where
  "sample_removing = sample_state\<lparr>blobRegistry := sample_blobs\<rparr>"

definition sample_replicas :: replica_store where
  "sample_replicas = fst (replica_Add ''space'' ''d1'' ''did:key:n1'' Transferred ''c1'' 5 replica_New)"

definition sample_remove :: token where
  "sample_remove = sample_task\<lparr>tok_Subject := ''space'', tok_Command := ''/blob/remove''\<rparr>"

definition sample_sent :: "Client \<Rightarrow> token \<Rightarrow> exec_options \<Rightarrow> nat \<Rightarrow> bool" where
  "sample_sent c iv opts n \<longleftrightarrow> 0 < n"

lemma sample_quiet: "quiet sample_env"
  by (auto simp: quiet_def sample_env_def sample_node_def sample_lib_def sample_invoke_def sample_ucan_lib_def
      split: cmd_args.split)

lemma sample_shows: "shows_requests sample_node sample_sent"
  by (simp add: shows_requests_def sample_sent_def sample_node_def)

lemma sample_agent_New: "agent_invar (env_F sample_env) (env_U sample_env) agent_New"
  using agent_invar_New [OF sample_formats_ok sample_ucan_lib_ok] by (simp add: sample_env_def)


subsection \<open>The chain an add leaves behind\<close>

text \<open>What the libraries are relied on for: decoding the arguments of an invocation issued for this space
  and blob gives the arguments back, and tokens with the same task agree on subject and arguments,
  which the task is derived from.\<close>

definition decodes :: "forge_lib \<Rightarrow> did \<Rightarrow> BlobSpec \<Rightarrow> bool" where
  "decodes L space blob \<longleftrightarrow>
     (\<forall>iss subj put opts iv. Invoke L iss subj (AcceptArgs \<lparr>acc_Space = space, acc_Blob = blob, acc_Put = put\<rparr>) opts = Ok iv \<longrightarrow>
        tok_Subject iv = subj \<and>
        AcceptArguments_Unmarshal L (tok_Arguments iv) = Ok \<lparr>acc_Space = space, acc_Blob = blob, acc_Put = put\<rparr>) \<and>
     (\<forall>iss subj dest opts iv. Invoke L iss subj (PutArgs \<lparr>put_Body = blob, put_Destination = dest\<rparr>) opts = Ok iv \<longrightarrow>
        PutArguments_Unmarshal L (tok_Arguments iv) = Ok \<lparr>put_Body = blob, put_Destination = dest\<rparr>)"

definition content_addressed :: "formats \<Rightarrow> agent_store \<Rightarrow> container \<Rightarrow> bool" where
  "content_addressed F ag m \<longleftrightarrow> (\<forall>x y. y \<in> set (Invocations m) \<and> tok_Task x = tok_Task y \<and>
     (x \<in> set (Invocations m) \<or> invocation_of F ag (tok_Task x) = Some x) \<longrightarrow>
     tok_Subject x = tok_Subject y \<and> tok_Arguments x = tok_Arguments y)"

lemma content_addressedD:
  assumes "content_addressed F ag m" "y \<in> set (Invocations m)" "tok_Task x = tok_Task y"
    "x \<in> set (Invocations m) \<or> invocation_of F ag (tok_Task x) = Some x"
  shows "tok_Subject x = tok_Subject y \<and> tok_Arguments x = tok_Arguments y"
  using assms unfolding content_addressed_def by blast

lemma OnResponseEncode_eq:
  assumes "agent_invar F U s" "writable U s m"
  shows "OnResponseEncode F U m s = (fst (agent_put F U m s), Ok ())"
  using agent_put_ok(1) [OF assms] by (simp add: OnResponseEncode_def agent_put_def case_prod_beta)

lemma invocation_of_task: "invocation_of F s t = Some x \<Longrightarrow> tok_Task x = t"
  by (auto simp: invocation_of_def agent_invocation_def dest: find_SomeD split: res.splits list.splits option.splits)

lemma written_invocation:
  assumes inv: "agent_invar F U s" and w: "writable U s m" and c: "content_addressed F s m"
    and y: "y \<in> set (Invocations m)"
  obtains x where "GetInvocation F (fst (agent_put F U m s)) (tok_Task y) = Ok x"
    "tok_Subject x = tok_Subject y" "tok_Arguments x = tok_Arguments y"
proof -
  have ok: "agent_ok F (fst (agent_put F U m s))"
    using agent_put_ok(2) [OF inv w] by (simp add: agent_invar_def)
  show thesis
  proof (cases "invocation_of F s (tok_Task y)")
    case None
    with y obtain x where x: "find (\<lambda>iv. tok_Task iv = tok_Task y) (Invocations m) = Some x"
      by (cases "find (\<lambda>iv. tok_Task iv = tok_Task y) (Invocations m)") (auto simp: find_None_iff)
    with None have "GetInvocation F (fst (agent_put F U m s)) (tok_Task y) = Ok x"
      by (simp add: GetInvocation_eq [OF ok] invocation_of_put [OF inv w])
    with content_addressedD [OF c y, of x] find_SomeD [OF x] show thesis by (intro that [of x]) auto
  next
    case (Some x)
    then have "GetInvocation F (fst (agent_put F U m s)) (tok_Task y) = Ok x"
      by (simp add: GetInvocation_eq [OF ok] invocation_of_put [OF inv w])
    with content_addressedD [OF c y, of x] invocation_of_task [OF Some] Some show thesis by (intro that [of x]) auto
  qed
qed

lemma written_receipt:
  assumes inv: "agent_invar F U s" and w: "writable U s m" and none: "receipt_of F U s t = None"
    and y: "y \<in> set (Receipts m)" "rcpt_Ran y = t"
  obtains x where "GetReceipt F U (fst (agent_put F U m s)) t = Ok x" "x \<in> set (Receipts m)" "rcpt_Ran x = t"
proof -
  have ok: "agent_ok F (fst (agent_put F U m s))" and U: "ucan_lib_ok U"
    using agent_put_ok(2) [OF inv w] by (simp_all add: agent_invar_def)
  from container_Receipt_cases(2) [OF U y] obtain x where x: "container_Receipt U m t = Some x" by auto
  with none have "GetReceipt F U (fst (agent_put F U m s)) t = Ok x"
    by (simp add: GetReceipt_eq(1) [OF ok U] receipt_of_put [OF inv w])
  with container_Receipt_cases(1) [OF U x] show thesis by (intro that) auto
qed

text \<open>An add that had not run before.\<close>

definition first_add :: "'w env \<Rightarrow> token \<Rightarrow> BlobSpec \<Rightarrow> 'w service \<Rightarrow> bool" where
  "first_add E iv blob s \<longleftrightarrow>
     (case spec_Digest blob of
        Some d \<Rightarrow> registered (blobRegistry s) (tok_Subject iv) d = None
      | None \<Rightarrow> GetReceipt (env_F E) (env_U E) (agentStore s) (tok_Task iv) = Err ErrReceiptNotFound)"

lemma first_add_fresh:
  assumes "first_add E iv blob s" and "BlobAddHandler E iv blob s = Some (s', Ok (SetSuccess ct site))"
  shows "add_fresh E (tok_Subject iv) blob (tok_Task iv) s = Some (s', Ok (SetSuccess ct site))"
  using assms by (auto simp: BlobAddHandler_def first_add_def Let_def blob_registry.get_held
      split: option.splits res.splits if_splits)

lemma add_fresh_success:
  assumes "add_fresh E space blob cause s = Some (s', Ok (SetSuccess (Some ct) site))"
  obtains s1 info allocInv allocRcpt allocOK putInv putRcpt accInv accRcpt extras where
    "doAllocate E space blob cause s = Some (s1, Ok (info, allocInv, allocRcpt, allocOK))"
    "genPut (env_L E) blob cause allocInv allocOK = Ok (putInv, putRcpt)"
    "maybeAccept E info space blob cause putInv putRcpt s1 = (s', Ok (accInv, accRcpt, extras))"
    "site = tok_Task accInv"
    "ct = container_New (env_U E) ([allocInv, putInv, accInv] @ ext_invocations extras) []
       ([allocRcpt] @ opt_list putRcpt @ opt_list accRcpt @ ext_receipts extras)"
proof -
  from assms obtain s1 x where al: "doAllocate E space blob cause s = Some (s1, Ok x)"
    by (cases "doAllocate E space blob cause s") (auto simp: add_fresh_def split: res.splits if_splits)
  obtain info allocInv allocRcpt allocOK where x: "x = (info, allocInv, allocRcpt, allocOK)" by (cases x)
  from assms al x obtain p where put: "genPut (env_L E) blob cause allocInv allocOK = Ok p"
    by (cases "genPut (env_L E) blob cause allocInv allocOK") (simp_all add: add_fresh_def)
  obtain putInv putRcpt where p: "p = (putInv, putRcpt)" by (cases p)
  obtain s2 r where m: "maybeAccept E info space blob cause putInv putRcpt s1 = (s2, r)"
    by (cases "maybeAccept E info space blob cause putInv putRcpt s1")
  from assms al x put p m obtain a where "r = Ok a"
    by (cases r) (simp_all add: add_fresh_def)
  with assms al x put p m that show thesis
    by (cases a) (auto simp: add_fresh_def)
qed

lemma decodesD:
  assumes "decodes L space blob"
  shows "Invoke L iss subj (AcceptArgs \<lparr>acc_Space = space, acc_Blob = blob, acc_Put = put\<rparr>) opts = Ok iv \<Longrightarrow>
      tok_Subject iv = subj \<and>
      AcceptArguments_Unmarshal L (tok_Arguments iv) = Ok \<lparr>acc_Space = space, acc_Blob = blob, acc_Put = put\<rparr>"
    "Invoke L iss subj (PutArgs \<lparr>put_Body = blob, put_Destination = dest\<rparr>) opts = Ok iv \<Longrightarrow>
      PutArguments_Unmarshal L (tok_Arguments iv) = Ok \<lparr>put_Body = blob, put_Destination = dest\<rparr>"
  using assms unfolding decodes_def by blast+

text \<open>Where the invocations and the receipt of an add are in the store, both walks find the provider.\<close>

lemma chain_found:
  assumes rcpt: "GetReceipt (env_F E) (env_U E) ag cause = Ok rcpt" "rcpt_Out rcpt = OutOk b"
    "AddOK_Unmarshal (env_L E) b = Ok site"
    and acc: "GetInvocation (env_F E) ag site = Ok accInv"
      "AcceptArguments_Unmarshal (env_L E) (tok_Arguments accInv) = Ok args"
    and put: "GetInvocation (env_F E) ag (acc_Put args) = Ok putInv"
      "PutArguments_Unmarshal (env_L E) (tok_Arguments putInv) = Ok putArgs"
  shows "primaryProviderForBlob E ag cause = Ok (tok_Subject accInv)"
    and "rejectionFor E ag space cause = (if space = acc_Space args
      then Ok (tok_Subject accInv, \<lparr>rej_Allocation = put_Destination putArgs\<rparr>) else Err errOtherSpace)"
  using assms by (simp_all add: primaryProviderForBlob_def rejectionFor_def out_bytes_def)

text \<open>The walks from an add that succeeded and was recorded: both find the provider that allocated, and the walk of
  the abort handler a rejection of the allocation made there; another space is refused.\<close>

lemma add_then_walk:
  assumes first: "first_add E iv blob s"
    and run: "BlobAddHandler E iv blob s = Some (s', Ok (SetSuccess (Some ct) site))"
    and law: "decodes (env_L E) (tok_Subject iv) blob"
    and ag: "agent_invar (env_F E) (env_U E) (agentStore s')"
    and none: "receipt_of (env_F E) (env_U E) (agentStore s') (tok_Task iv) = None"
    and m: "set (Invocations ct) \<subseteq> set (Invocations m)" "content_addressed (env_F E) (agentStore s') m"
      "writable (env_U E) (agentStore s') m"
    and rcpt: "\<exists>r \<in> set (Receipts m). rcpt_Ran r = tok_Task iv"
      "\<forall>r \<in> set (Receipts m). rcpt_Ran r = tok_Task iv \<longrightarrow> (\<exists>b. rcpt_Out r = OutOk b \<and> AddOK_Unmarshal (env_L E) b = Ok site)"
    and recorded: "OnResponseEncode (env_F E) (env_U E) m (agentStore s') = (ag', r)"
  shows "r = Ok () \<and> (\<exists>s1 info allocInv allocRcpt allocOK.
    doAllocate E (tok_Subject iv) blob (tok_Task iv) s = Some (s1, Ok (info, allocInv, allocRcpt, allocOK)) \<and>
    rejectionFor E ag' (tok_Subject iv) (tok_Task iv) = Ok (info_ID info, \<lparr>rej_Allocation = tok_Task allocInv\<rparr>) \<and>
    (\<forall>space. space \<noteq> tok_Subject iv \<longrightarrow> rejectionFor E ag' space (tok_Task iv) = Err errOtherSpace) \<and>
    primaryProviderForBlob E ag' (tok_Task iv) = Ok (info_ID info))"
proof -
  from add_fresh_success [OF first_add_fresh [OF first run]]
  obtain s1 info allocInv allocRcpt allocOK putInv putRcpt accInv accRcpt extras where
    al: "doAllocate E (tok_Subject iv) blob (tok_Task iv) s = Some (s1, Ok (info, allocInv, allocRcpt, allocOK))"
    and put: "genPut (env_L E) blob (tok_Task iv) allocInv allocOK = Ok (putInv, putRcpt)"
    and acc: "maybeAccept E info (tok_Subject iv) blob (tok_Task iv) putInv putRcpt s1 = (s', Ok (accInv, accRcpt, extras))"
    and site: "site = tok_Task accInv"
    and ct: "ct = container_New (env_U E) ([allocInv, putInv, accInv] @ ext_invocations extras) []
       ([allocRcpt] @ opt_list putRcpt @ opt_list accRcpt @ ext_receipts extras)"
    by blast
  have rec: "r = Ok ()" "ag' = fst (agent_put (env_F E) (env_U E) m (agentStore s'))"
    using recorded by (simp_all add: OnResponseEncode_eq [OF ag m(3)])
  have "set (Invocations ct) = {allocInv, putInv, accInv} \<union> set (ext_invocations extras)"
    using ag by (auto simp: ct agent_invar_def ucan_lib_ok_def)
  with m(1) have mem: "putInv \<in> set (Invocations m)" "accInv \<in> set (Invocations m)" by auto
  from maybeAccept_issued [OF acc refl] decodesD(1) [OF law] have
    args: "tok_Subject accInv = info_ID info" "AcceptArguments_Unmarshal (env_L E) (tok_Arguments accInv) =
      Ok \<lparr>acc_Space = tok_Subject iv, acc_Blob = blob, acc_Put = tok_Task putInv\<rparr>"
    by (auto simp: piri_NewWithClient_def)
  from genPut_issued [OF put] decodesD(2) [OF law] have
    putArgs: "PutArguments_Unmarshal (env_L E) (tok_Arguments putInv) =
      Ok \<lparr>put_Body = blob, put_Destination = tok_Task allocInv\<rparr>"
    by blast
  from written_invocation [OF ag m(3,2) mem(1)] obtain x where
    x: "GetInvocation (env_F E) ag' (tok_Task putInv) = Ok x" "tok_Arguments x = tok_Arguments putInv"
    unfolding rec by blast
  from written_invocation [OF ag m(3,2) mem(2)] obtain y where
    y: "GetInvocation (env_F E) ag' site = Ok y" "tok_Subject y = info_ID info" "tok_Arguments y = tok_Arguments accInv"
    unfolding rec site args(1) [symmetric] by blast
  from rcpt(1) written_receipt [OF ag m(3) none] rcpt(2) obtain z b where
    z: "GetReceipt (env_F E) (env_U E) ag' (tok_Task iv) = Ok z" "rcpt_Out z = OutOk b"
      "AddOK_Unmarshal (env_L E) b = Ok site"
    unfolding rec by metis
  note chain = chain_found [OF z y(1) args(2) [folded y(3)] _ putArgs [folded x(2)]]
  from rec(1) al x(1) y(2) chain show ?thesis by simp
qed

text \<open>What the abort handler does with the rejection it found.\<close>

lemma fst_piri_Reject:
  "fst (piri_Reject L N c req ct opts w) =
     (case RejectInvocation L c req ct opts of
        Ok (iv, prfs) \<Rightarrow> fst (node_Execute N c iv \<lparr>ex_Delegations = prfs, ex_Invocations = [], ex_Receipts = []\<rparr> w)
      | _ \<Rightarrow> w)"
  by (cases "RejectInvocation L c req ct opts")
    (simp_all add: piri_Reject_def fst_andThenS fst_Execute case_prod_beta split: res.split)

lemma piri_Reject_answer:
  assumes "RejectInvocation L c req ct opts = Ok (rej, prfs)"
    and "node_Execute N c rej \<lparr>ex_Delegations = prfs, ex_Invocations = [], ex_Receipts = []\<rparr> w = (w', Ok resp)"
  shows "rcpt_Out (resp_Receipt resp) = OutErr x \<Longrightarrow> ErrorModel_Unmarshal L x = Ok model \<Longrightarrow>
      piri_Reject L N c req ct opts w = (w', Err (Wrap ''executing invocation'' model))"
  using assms by (simp add: piri_Reject_def Execute_def)

lemma piri_Reject_success:
  assumes "piri_Reject L N c req ct opts w = (w', Ok x)"
  obtains rej prfs resp where "RejectInvocation L c req ct opts = Ok (rej, prfs)"
    "node_Execute N c rej \<lparr>ex_Delegations = prfs, ex_Invocations = [], ex_Receipts = []\<rparr> w = (w', Ok resp)"
    "\<not> IsErr (rcpt_Out (resp_Receipt resp))"
proof -
  from assms obtain rej prfs where rej: "RejectInvocation L c req ct opts = Ok (rej, prfs)"
    by (auto simp: piri_Reject_def andThenS_eq_Ok)
  let ?run = "node_Execute N c rej \<lparr>ex_Delegations = prfs, ex_Invocations = [], ex_Receipts = []\<rparr> w"
  obtain w1 q where q: "?run = (w1, q)" by (cases ?run)
  from assms rej q have "\<exists>resp. q = Ok resp \<and> w1 = w' \<and> \<not> IsErr (rcpt_Out (resp_Receipt resp))"
    by (cases q) (auto simp: piri_Reject_def Execute_def andThenS_eq_Ok Let_def split: outcome.splits res.splits)
  with that rej q show thesis by blast
qed

definition rejecting :: "'w env \<Rightarrow> routing_Service \<Rightarrow> did \<Rightarrow> cid \<Rightarrow> Client \<Rightarrow> token \<Rightarrow> exec_options \<Rightarrow> bool" where
  "rejecting E R provider allocation client rej opts \<longleftrightarrow> (\<exists>info prfs. GetProviderInfo R provider = Ok info \<and>
     provider_Client (env_N E) (env_id E) (info_ID info) (info_Endpoint info) = Ok client \<and>
     RejectInvocation (env_L E) client \<lparr>rej_Allocation = allocation\<rparr> (info_Proofs info) [] = Ok (rej, prfs) \<and>
     opts = \<lparr>ex_Delegations = prfs, ex_Invocations = [], ex_Receipts = []\<rparr>)"

lemma BlobAbort_rejects:
  assumes found: "defined add" "rejectionFor E (agentStore s) (tok_Subject iv) add = Ok (provider, \<lparr>rej_Allocation = allocation\<rparr>)"
    and run: "BlobAbortHandler E iv add s = (s', r)" and v: "shows_requests (env_N E) sent"
  shows "same_tables s s'"
    and "rejecting E (router s) provider allocation client rej opts \<Longrightarrow> sent client rej opts (net s')"
    and "rejecting E (router s) provider allocation client rej opts \<Longrightarrow>
      node_Execute (env_N E) client rej opts (net s) = (w, Ok resp) \<Longrightarrow> rcpt_Out (resp_Receipt resp) = OutErr x \<Longrightarrow>
      ErrorModel_Unmarshal (env_L E) x = Ok (Named (BlobAcceptedErrorName (env_L E)) m) \<Longrightarrow>
      r = Ok (SetFailure (Named (BlobAcceptedErrorName (env_L E)) m))"
    and "r = Ok (SetSuccess ct u) \<Longrightarrow> \<exists>client rej opts w resp. rejecting E (router s) provider allocation client rej opts \<and>
      node_Execute (env_N E) client rej opts (net s) = (w, Ok resp) \<and> \<not> IsErr (rcpt_Out (resp_Receipt resp))"
proof -
  have s': "s' = fst (BlobAbortHandler E iv add s)" "r = snd (BlobAbortHandler E iv add s)" using run by simp_all
  note defs = BlobAbortHandler_def found Let_def
  show "same_tables s s'"
    unfolding s'(1) same_tables_def
    by (auto simp: defs fst_andThenS case_prod_beta split: res.split prod.split)
  {
    assume "rejecting E (router s) provider allocation client rej opts"
    then obtain info prfs where at: "GetProviderInfo (router s) provider = Ok info"
      "provider_Client (env_N E) (env_id E) (info_ID info) (info_Endpoint info) = Ok client"
      "RejectInvocation (env_L E) client \<lparr>rej_Allocation = allocation\<rparr> (info_Proofs info) [] = Ok (rej, prfs)"
      "opts = \<lparr>ex_Delegations = prfs, ex_Invocations = [], ex_Receipts = []\<rparr>"
      unfolding rejecting_def by blast
    obtain w1 q where q: "piri_Reject (env_L E) (env_N E) client \<lparr>rej_Allocation = allocation\<rparr> (info_Proofs info) [] (net s) = (w1, q)"
      by fastforce
    have "net s' = w1"
      using at q unfolding s'(1) by (cases q) (auto simp: defs fst_andThenS case_prod_beta split: res.split)
    moreover have "w1 = fst (node_Execute (env_N E) client rej opts (net s))"
      using fst_piri_Reject [of "env_L E" "env_N E" client "\<lparr>rej_Allocation = allocation\<rparr>" "info_Proofs info" "[]" "net s"] at q by simp
    ultimately show "sent client rej opts (net s')" using shows_requestsD(1) [OF v] by simp
    assume ans: "node_Execute (env_N E) client rej opts (net s) = (w, Ok resp)" "rcpt_Out (resp_Receipt resp) = OutErr x"
      "ErrorModel_Unmarshal (env_L E) x = Ok (Named (BlobAcceptedErrorName (env_L E)) m)"
    from piri_Reject_answer [OF at(3) ans(1) [unfolded at(4)] ans(2,3)] at
    show "r = Ok (SetFailure (Named (BlobAcceptedErrorName (env_L E)) m))"
      unfolding s'(2) by (simp add: defs)
  }
  assume r: "r = Ok (SetSuccess ct u)"
  from run r obtain info client where at: "GetProviderInfo (router s) provider = Ok info"
    "provider_Client (env_N E) (env_id E) (info_ID info) (info_Endpoint info) = Ok client"
    by (auto simp: defs andThenS_eq_Ok)
  obtain w1 q where q: "piri_Reject (env_L E) (env_N E) client \<lparr>rej_Allocation = allocation\<rparr> (info_Proofs info) [] (net s) = (w1, q)"
    by fastforce
  with run r at obtain y where "q = Ok y"
    by (cases q) (auto simp: defs split: option.splits if_splits)
  from piri_Reject_success [OF q [unfolded this]] obtain rej prfs resp where
    rej: "RejectInvocation (env_L E) client \<lparr>rej_Allocation = allocation\<rparr> (info_Proofs info) [] = Ok (rej, prfs)"
    and ans: "node_Execute (env_N E) client rej \<lparr>ex_Delegations = prfs, ex_Invocations = [], ex_Receipts = []\<rparr> (net s) = (w1, Ok resp)"
      "\<not> IsErr (rcpt_Out (resp_Receipt resp))" .
  from at rej have "rejecting E (router s) provider allocation client rej \<lparr>ex_Delegations = prfs, ex_Invocations = [], ex_Receipts = []\<rparr>"
    unfolding rejecting_def by (intro exI conjI) (assumption | rule refl)+
  with ans
  show "\<exists>client rej opts w resp. rejecting E (router s) provider allocation client rej opts \<and>
      node_Execute (env_N E) client rej opts (net s) = (w, Ok resp) \<and> \<not> IsErr (rcpt_Out (resp_Receipt resp))"
    by (intro exI conjI)
qed

lemma BlobAbort_other:
  assumes "defined add" and "rejectionFor E (agentStore s) (tok_Subject iv) add = Err errOtherSpace"
  shows "BlobAbortHandler E iv add s = (s, Ok (SetFailure (Named (MissingCauseErrorName (env_L E))
    ''cause does not resolve to a known /blob/add task'')))"
  using assms by (simp add: BlobAbortHandler_def errOtherSpace_def)

text \<open>
Property C7. An add can be undone. A first add succeeded and its response, which carries the invocations of the add and its
receipt, was recorded; later, in any state with that message store, its task is aborted. From another space the abort is
refused as an unknown add and nothing changes. From the space of the add, the node that allocated is sent a rejection
of exactly the allocation made there, wherever the node is still registered and the rejection can be issued; the abort
succeeds only where the node answered that rejection with success; and where the node answers that it has accepted
the blob, that failure is the answer. The registry and the tables do not change. A removal finds the same node.
\<close>

theorem add_then_abort:
  assumes first: "first_add E iv blob s"
    and run: "BlobAddHandler E iv blob s = Some (s', Ok (SetSuccess (Some ct) site))"
    and law: "decodes (env_L E) (tok_Subject iv) blob"
    and ag: "agent_invar (env_F E) (env_U E) (agentStore s')"
    and none: "receipt_of (env_F E) (env_U E) (agentStore s') (tok_Task iv) = None"
    and m: "set (Invocations ct) \<subseteq> set (Invocations m)" "content_addressed (env_F E) (agentStore s') m"
      "writable (env_U E) (agentStore s') m"
    and rcpt: "\<exists>r \<in> set (Receipts m). rcpt_Ran r = tok_Task iv"
      "\<forall>r \<in> set (Receipts m). rcpt_Ran r = tok_Task iv \<longrightarrow> (\<exists>b. rcpt_Out r = OutOk b \<and> AddOK_Unmarshal (env_L E) b = Ok site)"
    and recorded: "OnResponseEncode (env_F E) (env_U E) m (agentStore s') = (agentStore t, r)"
    and abort: "defined (tok_Task iv)" "BlobAbortHandler E iva (tok_Task iv) t = (t', r')"
    and sent: "shows_requests (env_N E) sent"
  shows "r = Ok () \<and> same_tables t t' \<and> (\<exists>s1 info allocInv allocRcpt allocOK.
    doAllocate E (tok_Subject iv) blob (tok_Task iv) s = Some (s1, Ok (info, allocInv, allocRcpt, allocOK)) \<and>
    primaryProviderForBlob E (agentStore t) (tok_Task iv) = Ok (info_ID info) \<and>
    (if tok_Subject iva \<noteq> tok_Subject iv
     then t' = t \<and> r' = Ok (SetFailure (Named (MissingCauseErrorName (env_L E)) ''cause does not resolve to a known /blob/add task''))
     else
       (\<forall>client rej opts. rejecting E (router t) (info_ID info) (tok_Task allocInv) client rej opts \<longrightarrow>
          sent client rej opts (net t') \<and>
          (\<forall>w resp x msg. node_Execute (env_N E) client rej opts (net t) = (w, Ok resp) \<and> rcpt_Out (resp_Receipt resp) = OutErr x \<and>
             ErrorModel_Unmarshal (env_L E) x = Ok (Named (BlobAcceptedErrorName (env_L E)) msg) \<longrightarrow>
             r' = Ok (SetFailure (Named (BlobAcceptedErrorName (env_L E)) msg)))) \<and>
       (\<forall>meta u. r' = Ok (SetSuccess meta u) \<longrightarrow> (\<exists>client rej opts w resp.
          rejecting E (router t) (info_ID info) (tok_Task allocInv) client rej opts \<and>
          node_Execute (env_N E) client rej opts (net t) = (w, Ok resp) \<and> \<not> IsErr (rcpt_Out (resp_Receipt resp))))))"
proof -
  from add_then_walk [OF first run law ag none m rcpt recorded] obtain s1 info allocInv allocRcpt allocOK where
    walk: "r = Ok ()" "doAllocate E (tok_Subject iv) blob (tok_Task iv) s = Some (s1, Ok (info, allocInv, allocRcpt, allocOK))"
    "rejectionFor E (agentStore t) (tok_Subject iv) (tok_Task iv) = Ok (info_ID info, \<lparr>rej_Allocation = tok_Task allocInv\<rparr>)"
    "\<forall>space. space \<noteq> tok_Subject iv \<longrightarrow> rejectionFor E (agentStore t) space (tok_Task iv) = Err errOtherSpace"
    "primaryProviderForBlob E (agentStore t) (tok_Task iv) = Ok (info_ID info)"
    by blast
  show ?thesis
  proof (cases "tok_Subject iva = tok_Subject iv")
    case False
    with walk(4) have "rejectionFor E (agentStore t) (tok_Subject iva) (tok_Task iv) = Err errOtherSpace" by blast
    from BlobAbort_other [OF abort(1) this] abort(2) have "t' = t \<and> r' = Ok (SetFailure (Named (MissingCauseErrorName (env_L E))
        ''cause does not resolve to a known /blob/add task''))"
      by simp
    with walk(1,2,5) False show ?thesis by auto
  next
    case True
    note found = walk(3) [folded True]
    note rejects = BlobAbort_rejects [OF abort(1) found abort(2) sent]
    have "\<forall>client rej opts. rejecting E (router t) (info_ID info) (tok_Task allocInv) client rej opts \<longrightarrow>
        sent client rej opts (net t') \<and>
        (\<forall>w resp x msg. node_Execute (env_N E) client rej opts (net t) = (w, Ok resp) \<and> rcpt_Out (resp_Receipt resp) = OutErr x \<and>
           ErrorModel_Unmarshal (env_L E) x = Ok (Named (BlobAcceptedErrorName (env_L E)) msg) \<longrightarrow>
           r' = Ok (SetFailure (Named (BlobAcceptedErrorName (env_L E)) msg)))"
      using rejects(2,3) by blast
    moreover have "\<forall>meta u. r' = Ok (SetSuccess meta u) \<longrightarrow> (\<exists>client rej opts w resp.
        rejecting E (router t) (info_ID info) (tok_Task allocInv) client rej opts \<and>
        node_Execute (env_N E) client rej opts (net t) = (w, Ok resp) \<and> \<not> IsErr (rcpt_Out (resp_Receipt resp)))"
      using rejects(4) by blast
    ultimately show ?thesis
      using walk(1,2,5) rejects(1) True
      by (intro conjI exI [of _ s1] exI [of _ info] exI [of _ allocInv] exI [of _ allocRcpt] exI [of _ allocOK]) (simp_all, blast)
  qed
qed

lemma content_addressed_check:
  "content_addressed F ag m \<longleftrightarrow> (\<forall>y \<in> set (Invocations m).
     (\<forall>x \<in> set (Invocations m). tok_Task x = tok_Task y \<longrightarrow>
        tok_Subject x = tok_Subject y \<and> tok_Arguments x = tok_Arguments y) \<and>
     (case invocation_of F ag (tok_Task y) of
        None \<Rightarrow> True
      | Some x \<Rightarrow> tok_Subject x = tok_Subject y \<and> tok_Arguments x = tok_Arguments y))"
  (is "?L \<longleftrightarrow> ?R")
proof
  assume L: ?L
  show ?R
  proof (rule ballI, rule conjI, rule ballI, rule impI)
    fix y x assume "y \<in> set (Invocations m)" "x \<in> set (Invocations m)" "tok_Task x = tok_Task y"
    then show "tok_Subject x = tok_Subject y \<and> tok_Arguments x = tok_Arguments y"
      by (intro content_addressedD [OF L]) simp_all
  next
    fix y assume y: "y \<in> set (Invocations m)"
    show "case invocation_of F ag (tok_Task y) of
        None \<Rightarrow> True
      | Some x \<Rightarrow> tok_Subject x = tok_Subject y \<and> tok_Arguments x = tok_Arguments y"
    proof (cases "invocation_of F ag (tok_Task y)")
      case (Some x)
      with content_addressedD [OF L y, of x] invocation_of_task [OF Some] show ?thesis by simp
    qed simp
  qed
next
  assume R: ?R
  show ?L
    unfolding content_addressed_def
  proof (intro allI impI, elim conjE)
    fix x y assume y: "y \<in> set (Invocations m)" and t: "tok_Task x = tok_Task y"
      and x: "x \<in> set (Invocations m) \<or> invocation_of F ag (tok_Task x) = Some x"
    from bspec [OF R y] x t show "tok_Subject x = tok_Subject y \<and> tok_Arguments x = tok_Arguments y" by auto
  qed
qed

definition parked_spec :: BlobSpec where
  "parked_spec = sample_spec\<lparr>spec_Digest := None\<rparr>"

definition parked_env :: "nat env" where
  "parked_env = sample_env\<lparr>env_L := sample_lib\<lparr>
     AcceptArguments_Unmarshal := (\<lambda>b. Ok \<lparr>acc_Space = ''did:key:space'', acc_Blob = parked_spec, acc_Put = drop 2 b\<rparr>),
     PutArguments_Unmarshal := (\<lambda>b. Ok \<lparr>put_Body = parked_spec, put_Destination = drop 2 b\<rparr>)\<rparr>\<rparr>"

definition parked :: "nat service \<times> container \<times> cid" where
  "parked = (case BlobAddHandler parked_env sample_add parked_spec sample_state of
     Some (s, Ok (SetSuccess (Some ct) site)) \<Rightarrow> (s, ct, site)
   | _ \<Rightarrow> (sample_state, \<lparr>Invocations = [], Delegations = [], Receipts = []\<rparr>, ''''))"

definition parked_message :: container where
  "parked_message = (fst (snd parked))\<lparr>Receipts := [\<lparr>rcpt_Link = ''r9'', rcpt_Ran = ''t9'', rcpt_Issuer = ''did:web:up'',
     rcpt_Out = OutOk (snd (snd parked))\<rparr>]\<rparr>"

lemma parked_run: "BlobAddHandler parked_env sample_add parked_spec sample_state =
    Some (fst parked, Ok (SetSuccess (Some (fst (snd parked))) (snd (snd parked))))"
proof -
  have "case BlobAddHandler parked_env sample_add parked_spec sample_state of
     Some (s, Ok (SetSuccess (Some ct) site)) \<Rightarrow> True | _ \<Rightarrow> False"
    by code_simp
  then show ?thesis
    by (auto simp: parked_def split: option.splits prod.splits res.splits response.splits)
qed

lemma parked_decodes: "decodes (env_L parked_env) (tok_Subject sample_add) parked_spec"
  by (auto simp: decodes_def parked_env_def sample_env_def sample_lib_def sample_invoke_def sample_add_def)

lemma parked_store:
  "content_addressed (env_F parked_env) (agentStore (fst parked)) parked_message"
  "writable (env_U parked_env) (agentStore (fst parked)) parked_message"
  "receipt_of (env_F parked_env) (env_U parked_env) (agentStore (fst parked)) ''t9'' = None"
  unfolding content_addressed_check by code_simp+

lemma maybeAccept_parked: "spec_Digest blob = None \<Longrightarrow> fst (maybeAccept E info space blob cause putInv putRcpt s) = s"
  by (auto simp: maybeAccept_def fst_andThenS Let_def split: res.split)

text \<open>The first candidate takes the blob: the only message written is that of its allocation.\<close>

definition first_candidate :: "(token \<times> receipt) option" where
  "first_candidate =
     (case SelectStorageProvider (router sample_state) (env_order parked_env 0 0) (env_draw parked_env 0 0)
        (tok_Subject sample_add) [WithExclusions []] of
        Some (Ok c) \<Rightarrow>
          (case provider_Client (env_N parked_env) (env_id parked_env) (info_ID c) (info_Endpoint c) of
             Ok client \<Rightarrow>
               (case piri_Allocate (env_L parked_env) (env_N parked_env) client
                  \<lparr>areq_Space = tok_Subject sample_add, areq_Blob = parked_spec, areq_Cause = tok_Task sample_add\<rparr>
                  (info_Proofs c) [] 0 of
                  (w, Ok (res, iv, rcpt)) \<Rightarrow> Some (iv, rcpt)
                | _ \<Rightarrow> None)
           | _ \<Rightarrow> None)
      | _ \<Rightarrow> None)"

lemma first_candidate_writable:
  "case first_candidate of
     Some (iv, rcpt) \<Rightarrow> writable (env_U parked_env) agent_New (container_New (env_U parked_env) [iv] [] [rcpt])
   | None \<Rightarrow> False"
  by code_simp

lemma parked_store_eq:
  assumes "first_candidate = Some (iv, rcpt)"
    and "writable (env_U parked_env) agent_New (container_New (env_U parked_env) [iv] [] [rcpt])"
  shows "agentStore (fst parked) = fst (agent_put (env_F parked_env) (env_U parked_env)
    (container_New (env_U parked_env) [iv] [] [rcpt]) agent_New)"
proof -
  have first: "first_add parked_env sample_add parked_spec sample_state"
    by code_simp
  obtain s1 info allocInv allocRcpt allocOK putInv putRcpt accInv accRcpt extras where
    al: "doAllocate parked_env (tok_Subject sample_add) parked_spec (tok_Task sample_add) sample_state =
      Some (s1, Ok (info, allocInv, allocRcpt, allocOK))"
    and m: "maybeAccept parked_env info (tok_Subject sample_add) parked_spec (tok_Task sample_add) putInv putRcpt s1 =
      (fst parked, Ok (accInv, accRcpt, extras))"
    by (rule add_fresh_success [OF first_add_fresh [OF first parked_run]]) (rule that)
  have "spec_Digest parked_spec = None" by (simp add: parked_spec_def)
  from maybeAccept_parked [OF this, of parked_env info "tok_Subject sample_add" "tok_Task sample_add" putInv putRcpt s1] m
  have "fst parked = s1" by simp
  moreover have "agent_invar (env_F parked_env) (env_U parked_env) agent_New"
    using sample_agent_New by (simp add: parked_env_def)
  note agent_put_ok(1) [OF this assms(2)]
  with assms(1) al have "agentStore s1 = fst (agent_put (env_F parked_env) (env_U parked_env)
    (container_New (env_U parked_env) [iv] [] [rcpt]) agent_New)"
    by (auto simp: doAllocate_def allocate_loop.simps [of _ _ _ _ "[]"] first_candidate_def sample_state_def
        writeAgentMessage_def agent_put_def Let_def split: option.splits res.splits prod.splits)
  ultimately show ?thesis by simp
qed

lemma parked_invar: "agent_invar (env_F parked_env) (env_U parked_env) (agentStore (fst parked))"
proof -
  have "agent_invar (env_F parked_env) (env_U parked_env) agent_New"
    using sample_agent_New by (simp add: parked_env_def)
  then show ?thesis
    using first_candidate_writable parked_store_eq agent_put_ok(2) by (fastforce split: option.splits)
qed

definition sample_parked :: "nat service" where
  "sample_parked = (fst parked)\<lparr>agentStore := fst (OnResponseEncode (env_F parked_env) (env_U parked_env) parked_message (agentStore (fst parked)))\<rparr>"

lemma sample_aborted: "snd (BlobAbortHandler parked_env sample_add ''t9'' sample_parked) = Ok (SetSuccess None ())"
  by code_simp

theorem add_then_abort_witness:
  "\<exists>t' client rej opts w resp. BlobAbortHandler parked_env sample_add ''t9'' sample_parked = (t', Ok (SetSuccess None ())) \<and>
     sample_sent client rej opts (net t') \<and>
     node_Execute (env_N parked_env) client rej opts (net sample_parked) = (w, Ok resp) \<and> \<not> IsErr (rcpt_Out (resp_Receipt resp))"
proof -
  obtain t' where abort: "BlobAbortHandler parked_env sample_add ''t9'' sample_parked = (t', Ok (SetSuccess None ()))"
    using sample_aborted by (metis prod.collapse)
  obtain r where rec: "OnResponseEncode (env_F parked_env) (env_U parked_env) parked_message (agentStore (fst parked)) = (agentStore sample_parked, r)"
    by (cases "OnResponseEncode (env_F parked_env) (env_U parked_env) parked_message (agentStore (fst parked))") (simp add: sample_parked_def)
  have first: "first_add parked_env sample_add parked_spec sample_state"
    by code_simp
  have inv: "set (Invocations (fst (snd parked))) \<subseteq> set (Invocations parked_message)"
    by (simp add: parked_message_def)
  have rc: "\<exists>r \<in> set (Receipts parked_message). rcpt_Ran r = tok_Task sample_add"
    "\<forall>r \<in> set (Receipts parked_message). rcpt_Ran r = tok_Task sample_add \<longrightarrow>
       (\<exists>b. rcpt_Out r = OutOk b \<and> AddOK_Unmarshal (env_L parked_env) b = Ok (snd (snd parked)))"
    by (simp_all add: parked_message_def sample_add_def parked_env_def sample_lib_def)
  have none: "receipt_of (env_F parked_env) (env_U parked_env) (agentStore (fst parked)) (tok_Task sample_add) = None"
    using parked_store(3) by (simp add: sample_add_def)
  have task: "tok_Task sample_add = ''t9''" "defined (tok_Task sample_add)"
    by (simp_all add: sample_add_def defined_def)
  have sent: "shows_requests (env_N parked_env) sample_sent"
    using sample_shows by (simp add: parked_env_def sample_env_def)
  from add_then_abort [OF first parked_run parked_decodes parked_invar none inv parked_store(1,2) rc rec task(2)
      abort [folded task(1)] sent]
  have "\<exists>(info :: StorageProviderInfo) (allocInv :: token).
    (\<forall>client rej opts. rejecting parked_env (router sample_parked) (info_ID info) (tok_Task allocInv) client rej opts \<longrightarrow>
       sample_sent client rej opts (net t')) \<and>
    (\<exists>client rej opts w resp. rejecting parked_env (router sample_parked) (info_ID info) (tok_Task allocInv) client rej opts \<and>
       node_Execute (env_N parked_env) client rej opts (net sample_parked) = (w, Ok resp) \<and> \<not> IsErr (rcpt_Out (resp_Receipt resp)))"
    apply (simp only: simp_thms if_False)
    apply (elim conjE exE)
    subgoal for s1 info allocInv
      apply (rule exI [of _ info], rule exI [of _ allocInv], rule conjI)
       apply simp
      apply (drule spec [of _ None], drule spec [of _ "()"], erule mp, rule refl)
      done
    done
  with abort show ?thesis by blast
qed

end
