(* ===== verification/Ledger.thy ===== *)
theory Ledger
  imports Upload_Store
begin

section \<open>The blob registry and the upload store on one ledger\<close>

text \<open>
  The two stores write the same counters and each its own log. This theory states what the pair
  keeps of the ledger, as an invariant of the steps both stores take in any order: the bytes and
  blobs a space holds, its space diff log and its blob counters agree; its upload diff log and
  its upload counters agree; and the counters of the service are the sums over the spaces. The
  count of uploads held also agrees, as long as no two changes of a space share a cause and a
  microsecond, since the log takes such a pair for one change.
\<close>

definition upload_log_total :: "'z ledger_scheme \<Rightarrow> did \<Rightarrow> int64" where
  "upload_log_total s sp = sum_list (map Delta (uploadDiffStore s sp))"

definition upload_ledger :: "formats \<Rightarrow> 'z ledger_scheme \<Rightarrow> bool" where
  "upload_ledger F s \<longleftrightarrow>
     (\<forall>sp. space_counter (spaceMetrics s) sp UploadAddTotalMetric =
         upload_log_total s sp + space_counter (spaceMetrics s) sp UploadRemoveTotalMetric \<and>
       sorted_wrt (\<lambda>x y. diff_key F x < diff_key F y) (uploadDiffStore s sp))"

definition uploads_counted :: "'z upload_store_scheme \<Rightarrow> bool" where
  "uploads_counted s \<longleftrightarrow> (\<forall>sp. upload_log_total s sp = of_nat (length (uploads_in s sp)))"

text \<open>A step is one call of one of the four operations that write, with the readings of the
  clock it sees.\<close>

datatype ledger_op =
    RegisterOp did Blob cid
  | DeregisterOp did multihash cid
  | UpsertOp did cid "cid option" "cid list" cid
  | RemoveOp did cid cid

fun ledger_run :: "formats \<Rightarrow> clock \<Rightarrow> ledger_op \<Rightarrow> upload_store \<Rightarrow> upload_store \<times> unit res" where
  "ledger_run F clk (RegisterOp sp b cause) s = blob_Register F sp b cause clk s"
| "ledger_run F clk (DeregisterOp sp d cause) s = blob_Deregister F sp d cause clk s"
| "ledger_run F clk (UpsertOp sp r i sh cause) s = upload_Upsert F sp r i sh cause clk s"
| "ledger_run F clk (RemoveOp sp r cause) s = upload_Remove F sp r cause clk s"

text \<open>The change an upload operation would record: its space, its cause and the reading of the
  clock it is stamped with.\<close>

fun op_fresh :: "clock \<Rightarrow> ledger_op \<Rightarrow> upload_store \<Rightarrow> bool" where
  "op_fresh clk (UpsertOp sp r i sh cause) s = fresh_change s sp cause (clk 1)"
| "op_fresh clk (RemoveOp sp r cause) s = fresh_change s sp cause (clk 0)"
| "op_fresh clk _ s = True"

definition ledger_init :: upload_store where
  "ledger_init = upload_New (blob_New \<lparr>spaceDiffStore = spacediff_New, uploadDiffStore = uploaddiff_New,
     spaceMetrics = NewSpaceStore, adminMetrics = metrics_New\<rparr>)"

inductive ledger_step :: "formats \<Rightarrow> upload_store \<Rightarrow> upload_store \<Rightarrow> bool" for F where
  step: "ledger_run F clk opn s = (t, r) \<Longrightarrow> ledger_step F s t"

inductive fresh_step :: "formats \<Rightarrow> upload_store \<Rightarrow> upload_store \<Rightarrow> bool" for F where
  fresh: "ledger_run F clk opn s = (t, r) \<Longrightarrow> op_fresh clk opn s \<Longrightarrow> fresh_step F s t"

inductive_cases ledger_stepE: "ledger_step F s t"
inductive_cases fresh_stepE: "fresh_step F s t"

definition ledger_inv :: "formats \<Rightarrow> upload_store \<Rightarrow> bool" where
  "ledger_inv F s \<longleftrightarrow> blob_ledger F s \<and> upload_ledger F s \<and> roots_distinct s \<and>
     totals_agree (spaceMetrics s) (adminMetrics s)"

subsection \<open>Each operation keeps the other store's half\<close>

lemma blob_ledger_cong:
  assumes "blobs s = blobs t" and "spaceDiffStore s = spaceDiffStore t"
    and "\<And>sp k. k \<in> {BlobAddTotalMetric, BlobAddSizeTotalMetric, BlobRemoveTotalMetric,
      BlobRemoveSizeTotalMetric} \<Longrightarrow>
      space_counter (spaceMetrics s) sp k = space_counter (spaceMetrics t) sp k"
  shows "blob_ledger F s = blob_ledger F t"
  by (simp add: blob_ledger_def assms blobs_distinct_def size_stored_def)

lemma upload_ledger_cong:
  assumes "uploadDiffStore s = uploadDiffStore t"
    and "\<And>sp k. k \<in> {UploadAddTotalMetric, UploadRemoveTotalMetric} \<Longrightarrow>
      space_counter (spaceMetrics s) sp k = space_counter (spaceMetrics t) sp k"
  shows "upload_ledger F s = upload_ledger F t"
  by (simp add: upload_ledger_def assms upload_log_total_def)

lemma upload_ledger_Register [inv_intros]:
  "upload_ledger F s \<Longrightarrow> upload_ledger F (fst (blob_Register F sp b cause clk s))"
  by (cases "registered s sp (Digest b)")
    (auto simp: blob_Register_fresh blob_Register_exists blob_record_change_eq
      space_counter_IncrementTotals upload_ledger_def upload_log_total_def)

lemma upload_ledger_Deregister [inv_intros]:
  "upload_ledger F s \<Longrightarrow> blobs_distinct s \<Longrightarrow>
    upload_ledger F (fst (blob_Deregister F sp d cause clk s))"
  by (cases "registered s sp d")
    (auto simp: blob_Deregister_found blob_Deregister_missing blob_record_change_eq
      space_counter_IncrementTotals upload_ledger_def upload_log_total_def)

lemma recordDelta_blob_ledger:
  fixes s :: "'z upload_store_scheme"
  assumes "metric \<in> {UploadAddTotalMetric, UploadRemoveTotalMetric}"
  shows "blob_ledger F (fst (recordDelta F sp cause delta metric clk s)) = blob_ledger F s"
proof (cases rule: recordDelta_cases [of F sp cause delta clk s metric])
  case (recorded d)
  have "space_counter (spaceMetrics (fst (recordDelta F sp cause delta metric clk s))) sp' k =
      space_counter (spaceMetrics s) sp' k"
    if "k \<in> {BlobAddTotalMetric, BlobAddSizeTotalMetric, BlobRemoveTotalMetric,
      BlobRemoveSizeTotalMetric}" for sp' k
    using that assms unfolding recorded(2) by (auto simp: space_counter_IncrementTotals)
  then show ?thesis by (intro blob_ledger_cong) simp_all
next
  case skipped
  then show ?thesis by simp
qed

text \<open>One change of the upload log and one step of the counter that goes with its sign.\<close>

lemma recordDelta_upload_ledger:
  assumes "formats_ok F" and "upload_ledger F s"
    and "(delta, metric) \<in> {(1, UploadAddTotalMetric), (- 1, UploadRemoveTotalMetric)}"
  shows "upload_ledger F (fst (recordDelta F sp cause delta metric clk s))"
proof (cases rule: recordDelta_cases [of F sp cause delta clk s metric])
  case (recorded d)
  have "sorted_wrt (\<lambda>x y. diff_key F x < diff_key F y) (d sp')" for sp'
    using assms(1,2) recorded(1) by (auto simp: upload_ledger_def intro: uploaddiff_Put_strict)
  with assms(2,3) upload_log.put_sum [OF recorded(1)] show ?thesis
    unfolding recorded(2)
    by (auto simp: upload_ledger_def upload_log_total_def space_counter_IncrementTotals)
next
  case skipped
  with assms show ?thesis by simp
qed

lemma recordDelta_total:
  assumes "fresh_change s sp cause (clk 0)"
  shows "upload_log_total (fst (recordDelta F sp cause delta metric clk s)) sp' =
    upload_log_total s sp' + (if sp' = sp then delta else 0)"
  using assms
  by (cases rule: recordDelta_cases [of F sp cause delta clk s metric])
    (simp_all add: upload_log_total_def upload_log.put_sum)

lemma recordDelta_totals_agree:
  assumes "totals_agree (spaceMetrics s) (adminMetrics s)"
  shows "totals_agree (spaceMetrics (fst (recordDelta F sp cause delta metric clk s)))
    (adminMetrics (fst (recordDelta F sp cause delta metric clk s)))"
  using assms
  by (cases rule: recordDelta_cases [of F sp cause delta clk s metric])
    (simp_all add: totals_agree_IncrementTotals del: metrics_IncrementTotals.simps)

lemma ledger_frame [simp]:
  "blob_ledger F (s\<lparr>uploads := u, shards := sh\<rparr>) = blob_ledger F s"
  "upload_ledger F (s\<lparr>uploads := u, shards := sh\<rparr>) = upload_ledger F s"
  "upload_log_total (s\<lparr>uploads := u, shards := sh\<rparr>) = upload_log_total s"
  "fresh_change (s\<lparr>uploads := u, shards := sh\<rparr>) = fresh_change s"
  for s :: "'z upload_store_scheme"
  by (simp_all add: blob_ledger_def upload_ledger_def upload_log_total_def fun_eq_iff
      fresh_change_def blobs_distinct_def size_stored_def)

definition written :: "formats \<Rightarrow> did \<Rightarrow> cid \<Rightarrow> cid option \<Rightarrow> cid list \<Rightarrow> cid \<Rightarrow> clock \<Rightarrow>
    upload_store \<Rightarrow> upload_store" where
  "written F sp root i sh cause clk s = s\<lparr>uploads := uploads (fst (upload_Upsert F sp root i sh cause clk s)),
     shards := shards (fst (upload_Upsert F sp root i sh cause clk s))\<rparr>"

lemma upload_Upsert_new:
  assumes "formats_ok F" and "uploaded s sp root = None"
  shows "fst (upload_Upsert F sp root i sh cause clk s) =
      fst (recordDelta F sp cause 1 UploadAddTotalMetric (clock_after 1 clk) (written F sp root i sh cause clk s))"
    and "length (uploads_in (fst (upload_Upsert F sp root i sh cause clk s)) sp) =
      Suc (length (uploads_in s sp))"
  using assms
  by (auto simp: upload_Upsert_def written_def uploaded_def IndexFunc_find formats_okD(1) Let_def)

lemma upload_Upsert_again:
  assumes "formats_ok F" and "uploaded s sp root = Some u"
  shows "fst (upload_Upsert F sp root i sh cause clk s) = written F sp root i sh cause clk s"
    and "length (uploads_in (fst (upload_Upsert F sp root i sh cause clk s)) sp) =
      length (uploads_in s sp)"
  using assms
  by (auto simp: upload_Upsert_def written_def uploaded_def IndexFunc_find formats_okD(1) Let_def)

lemma uploads_in_other:
  "sp' \<noteq> sp \<Longrightarrow> uploads_in (fst (upload_Upsert F sp root i sh cause clk s)) sp' = uploads_in s sp'"
  by (simp add: upload_Upsert_def Let_def)

lemma uploads_written_other:
  "sp' \<noteq> sp \<Longrightarrow> uploads_in (written F sp root i sh cause clk s) sp' = uploads_in s sp'"
  using uploads_in_other [of sp' sp] by (simp add: written_def)

lemma metrics_written [simp]:
  "spaceMetrics (written F sp root i sh cause clk s) = spaceMetrics s"
  "adminMetrics (written F sp root i sh cause clk s) = adminMetrics s"
  by (simp_all add: written_def)

lemma ledger_written [simp]:
  "blob_ledger F (written G sp root i sh cause clk s) = blob_ledger F s"
  "upload_ledger F (written G sp root i sh cause clk s) = upload_ledger F s"
  "upload_log_total (written G sp root i sh cause clk s) = upload_log_total s"
  "fresh_change (written G sp root i sh cause clk s) = fresh_change s"
  by (simp_all add: written_def)

lemma ledger_inv_Upsert:
  assumes "formats_ok F" and "ledger_inv F s"
  shows "ledger_inv F (fst (upload_Upsert F sp root i sh cause clk s))"
proof -
  have "roots_distinct (fst (upload_Upsert F sp root i sh cause clk s))"
    using assms by (simp add: roots_distinct_Upsert ledger_inv_def)
  then show ?thesis
    using assms upload_Upsert_new(1) [OF assms(1)] upload_Upsert_again(1) [OF assms(1)]
    by (cases "uploaded s sp root")
      (simp_all add: ledger_inv_def recordDelta_blob_ledger recordDelta_upload_ledger
        recordDelta_totals_agree)
qed

lemma ledger_inv_Remove:
  assumes "formats_ok F" and "ledger_inv F s"
  shows "ledger_inv F (fst (upload_Remove F sp root cause clk s))"
proof (cases "uploaded s sp root")
  case None
  with assms show ?thesis by (simp add: upload_Remove_missing)
next
  case (Some u)
  have dist: "roots_distinct s"
    using assms(2) by (simp add: ledger_inv_def)
  have "upload_invar F (fst (upload_Remove F sp root cause clk s))"
    using assms(1) dist by (intro upload_map.remove_invar) (simp add: upload_invar_def)
  with assms show ?thesis
    by (simp add: ledger_inv_def upload_Remove_found [OF assms(1) dist Some] upload_invar_def
        recordDelta_blob_ledger recordDelta_upload_ledger recordDelta_totals_agree)
qed

lemma roots_distinct_cong: "uploads s = uploads t \<Longrightarrow> roots_distinct s = roots_distinct t"
  by (simp add: roots_distinct_def)

lemma uploads_Register [simp]: "uploads (fst (blob_Register F sp b cause clk s)) = uploads s"
  for s :: "'z upload_store_scheme"
  by (cases "registered s sp (Digest b)")
    (simp_all add: blob_Register_fresh blob_Register_exists blob_record_change_eq)

lemma uploadDiffs_Register [simp]:
  "uploadDiffStore (fst (blob_Register F sp b cause clk s)) = uploadDiffStore s"
  by (cases "registered s sp (Digest b)")
    (simp_all add: blob_Register_fresh blob_Register_exists blob_record_change_eq)

lemma uploads_Deregister [simp]:
  "blobs_distinct s \<Longrightarrow> uploads (fst (blob_Deregister F sp d cause clk s)) = uploads s"
  "blobs_distinct s \<Longrightarrow> uploadDiffStore (fst (blob_Deregister F sp d cause clk s)) = uploadDiffStore s"
  for s :: "'z upload_store_scheme"
  by (cases "registered s sp d";
      simp add: blob_Deregister_found blob_Deregister_missing blob_record_change_eq)+

lemma ledger_inv_init: "ledger_inv F ledger_init"
  by (simp add: ledger_inv_def ledger_init_def upload_New_def blob_New_def blob_ledger_def
      upload_ledger_def blobs_distinct_def roots_distinct_def size_stored_def upload_log_total_def
      spacediff_New_def uploaddiff_New_def NewSpaceStore_def space_counter_def metrics_New_def
      totals_agree_def ledger.extend_def blob_store.fields_def blob_store.extend_def
      upload_store.fields_def)

lemma ledger_inv_run:
  assumes "formats_ok F" and "ledger_inv F s"
  shows "ledger_inv F (fst (ledger_run F clk opn s))"
proof (cases opn)
  case (RegisterOp sp b cause)
  with assms show ?thesis
    by (auto simp: ledger_inv_def intro: inv_intros roots_distinct_cong [THEN iffD2])
next
  case (DeregisterOp sp d cause)
  have "blobs_distinct s"
    using assms(2) by (simp add: ledger_inv_def blob_ledger_def)
  with DeregisterOp assms show ?thesis
    by (auto simp: ledger_inv_def intro: inv_intros roots_distinct_cong [THEN iffD2])
next
  case (UpsertOp sp r i sh cause)
  with assms show ?thesis by (simp add: ledger_inv_Upsert)
next
  case (RemoveOp sp r cause)
  with assms show ?thesis by (simp add: ledger_inv_Remove)
qed

subsection \<open>Reachable states\<close>

abbreviation ledger_reachable :: "formats \<Rightarrow> upload_store \<Rightarrow> bool" where
  "ledger_reachable F \<equiv> reachable (\<lambda>s. s = ledger_init) (ledger_step F)"

abbreviation fresh_reachable :: "formats \<Rightarrow> upload_store \<Rightarrow> bool" where
  "fresh_reachable F \<equiv> reachable (\<lambda>s. s = ledger_init) (fresh_step F)"

interpretation ledger_system: invariant_of "\<lambda>s. s = ledger_init" "ledger_step F"
  "\<lambda>s. formats_ok F \<longrightarrow> ledger_inv F s" for F
proof unfold_locales
  fix s t
  show "s = ledger_init \<Longrightarrow> formats_ok F \<longrightarrow> ledger_inv F s"
    by (simp add: ledger_inv_init)
  assume "formats_ok F \<longrightarrow> ledger_inv F s" and "ledger_step F s t"
  then show "formats_ok F \<longrightarrow> ledger_inv F t"
    by (metis fst_conv ledger_inv_run ledger_stepE)
qed

lemma uploads_counted_run:
  assumes F: "formats_ok F" and inv: "ledger_inv F s" and fresh: "op_fresh clk opn s"
    and counted: "uploads_counted s"
  shows "uploads_counted (fst (ledger_run F clk opn s))"
proof (cases opn)
  case (RegisterOp sp b cause)
  with counted show ?thesis by (simp add: uploads_counted_def upload_log_total_def)
next
  case (DeregisterOp sp d cause)
  moreover have "blobs_distinct s"
    using inv by (simp add: ledger_inv_def blob_ledger_def)
  ultimately show ?thesis
    using counted by (simp add: uploads_counted_def upload_log_total_def)
next
  case (UpsertOp sp r i sh cause)
  let ?t = "fst (upload_Upsert F sp r i sh cause clk s)"
  have "upload_log_total ?t sp' = of_nat (length (uploads_in ?t sp'))" for sp'
  proof (cases "uploaded s sp r")
    case None
    have "fresh_change (written F sp r i sh cause clk s) sp cause (clock_after 1 clk 0)"
      using fresh UpsertOp by (simp add: clock_after_def)
    from recordDelta_total [where clk = "clock_after 1 clk", OF this] counted show ?thesis
      using upload_Upsert_new [OF F None, of i sh cause clk] uploads_written_other [of sp' sp]
      by (cases "sp' = sp") (simp_all add: uploads_counted_def)
  next
    case (Some u)
    with counted show ?thesis
      using upload_Upsert_again [OF F Some, of i sh cause clk] uploads_written_other [of sp' sp]
      by (cases "sp' = sp") (auto simp: uploads_counted_def)
  qed
  with UpsertOp show ?thesis by (simp add: uploads_counted_def)
next
  case (RemoveOp sp r cause)
  have dist: "roots_distinct s"
    using inv by (simp add: ledger_inv_def)
  show ?thesis
  proof (cases "uploaded s sp r")
    case None
    with RemoveOp F counted show ?thesis by (simp add: upload_Remove_missing)
  next
    case (Some u)
    have "length (filter (\<lambda>x. up_Root x = r) (uploads_in s sp)) = 1"
      using dist Some filter_key_singleton [of up_Root "uploads_in s sp" r]
      by (simp add: roots_distinct_def uploaded_def)
    then have "length (uploads_in s sp) = Suc (length (filter (\<lambda>x. up_Root x \<noteq> r) (uploads_in s sp)))"
      using sum_length_filter_compl [of "\<lambda>x. up_Root x = r" "uploads_in s sp"] by simp
    with RemoveOp fresh counted show ?thesis
      by (simp add: upload_Remove_found [OF F dist Some] uploads_counted_def recordDelta_total)
  qed
qed

interpretation counted_system: invariant_of "\<lambda>s. s = ledger_init" "fresh_step F"
  "\<lambda>s. formats_ok F \<longrightarrow> ledger_inv F s \<and> uploads_counted s" for F
proof unfold_locales
  fix s t
  have "uploads_counted ledger_init"
    by (simp add: uploads_counted_def ledger_init_def upload_log_total_def upload_New_def blob_New_def
        uploaddiff_New_def ledger.extend_def blob_store.fields_def blob_store.extend_def
        upload_store.fields_def)
  then show "s = ledger_init \<Longrightarrow> formats_ok F \<longrightarrow> ledger_inv F s \<and> uploads_counted s"
    by (simp add: ledger_inv_init)
  assume "formats_ok F \<longrightarrow> ledger_inv F s \<and> uploads_counted s" and "fresh_step F s t"
  then show "formats_ok F \<longrightarrow> ledger_inv F t \<and> uploads_counted t"
    by (metis fst_conv fresh_stepE ledger_inv_run uploads_counted_run)
qed

subsection \<open>Properties\<close>

text \<open>A run for the witnesses: two blobs come, one goes, an upload comes and is added again.\<close>

definition sample_clock :: "nat \<Rightarrow> clock" where
  "sample_clock n = (\<lambda>i. 1000 * (int n * 10 + int i))"

definition sample_ops :: "ledger_op list" where
  "sample_ops = [RegisterOp ''space'' \<lparr>Digest = ''d1'', Size = 7\<rparr> ''c1'',
     RegisterOp ''space'' \<lparr>Digest = ''d2'', Size = 5\<rparr> ''c2'',
     UpsertOp ''space'' ''root'' None [''s2'', ''s1''] ''c3'',
     DeregisterOp ''space'' ''d1'' ''c4'',
     UpsertOp ''space'' ''root'' None [''s1'', ''s3''] ''c5'']"

primrec run_ops :: "formats \<Rightarrow> nat \<Rightarrow> ledger_op list \<Rightarrow> upload_store \<Rightarrow> upload_store" where
  "run_ops F n [] s = s"
| "run_ops F n (opn # opns) s = run_ops F (Suc n) opns (fst (ledger_run F (sample_clock n) opn s))"

primrec ops_fresh :: "formats \<Rightarrow> nat \<Rightarrow> ledger_op list \<Rightarrow> upload_store \<Rightarrow> bool" where
  "ops_fresh F n [] s = True"
| "ops_fresh F n (opn # opns) s \<longleftrightarrow> op_fresh (sample_clock n) opn s \<and>
     ops_fresh F (Suc n) opns (fst (ledger_run F (sample_clock n) opn s))"

lemma ledger_step_run: "ledger_step F s (fst (ledger_run F clk opn s))"
  by (rule ledger_step.step [OF prod.collapse [symmetric]])

lemma fresh_step_run: "op_fresh clk opn s \<Longrightarrow> fresh_step F s (fst (ledger_run F clk opn s))"
  by (rule fresh_step.fresh [OF prod.collapse [symmetric]])

lemma run_ops_reachable: "ledger_reachable F s \<Longrightarrow> ledger_reachable F (run_ops F n opns s)"
  by (induction opns arbitrary: n s) (auto dest: reach_step [where step = "ledger_step F", OF _ ledger_step_run])

lemma run_ops_fresh: "fresh_reachable F s \<Longrightarrow> ops_fresh F n opns s \<Longrightarrow>
    fresh_reachable F (run_ops F n opns s)"
  by (induction opns arbitrary: n s) (auto dest: reach_step [where step = "fresh_step F", OF _ fresh_step_run])

definition sample_ledger :: upload_store where
  "sample_ledger = run_ops sample_formats 0 sample_ops ledger_init"

lemma sample_reachable: "ledger_reachable sample_formats sample_ledger"
  unfolding sample_ledger_def by (rule run_ops_reachable) (simp add: reach_init)

lemma sample_fresh_reachable: "fresh_reachable sample_formats sample_ledger"
proof -
  have "ops_fresh sample_formats 0 sample_ops ledger_init"
    by code_simp
  then show ?thesis
    unfolding sample_ledger_def by (intro run_ops_fresh) (simp_all add: reach_init)
qed

text \<open>
Property C29. In every state the blob registry and the upload store reach, whatever calls they took
in whatever order: the bytes a space holds are the sum of its space diff log, the byte counters
differ by them, the blob counters differ by the number of blobs held, and no digest is registered
twice in a space; the sums are modulo $2^{64}$, as the code's are.
\<close>

theorem blob_ledger_reachable:
  assumes "formats_ok F" and "ledger_reachable F s"
  shows "sum_list (map Delta (spaceDiffStore s sp)) = sum_list (map ent_Size (blobs s sp)) \<and>
    space_counter (spaceMetrics s) sp BlobAddSizeTotalMetric =
      sum_list (map ent_Size (blobs s sp)) + space_counter (spaceMetrics s) sp BlobRemoveSizeTotalMetric \<and>
    space_counter (spaceMetrics s) sp BlobAddTotalMetric =
      of_nat (length (blobs s sp)) + space_counter (spaceMetrics s) sp BlobRemoveTotalMetric \<and>
    distinct (map ent_Digest (blobs s sp))"
  using ledger_system.reachable_inv [OF assms(2)] assms(1)
  by (simp add: ledger_inv_def blob_ledger_def size_stored_def blobs_distinct_def)

theorem blob_ledger_reachable_witness:
  "sum_list (map Delta (spaceDiffStore sample_ledger ''space'')) = 5 \<and>
   space_counter (spaceMetrics sample_ledger) ''space'' BlobAddSizeTotalMetric =
     5 + space_counter (spaceMetrics sample_ledger) ''space'' BlobRemoveSizeTotalMetric"
proof -
  have "sum_list (map ent_Size (blobs sample_ledger ''space'')) = 5"
    by code_simp
  with blob_ledger_reachable [OF sample_formats_ok sample_reachable, of "''space''"] show ?thesis
    by simp
qed

text \<open>
Property C30. In every reachable state the upload counters of a space differ by the sum of its
upload diff log, the log is strictly ordered by (instant, cause), every counter of the service is
the sum of the spaces' counters, and no root is held twice in a space.
\<close>

theorem upload_ledger_reachable:
  assumes "formats_ok F" and "ledger_reachable F s"
  shows "space_counter (spaceMetrics s) sp UploadAddTotalMetric =
      sum_list (map Delta (uploadDiffStore s sp)) +
        space_counter (spaceMetrics s) sp UploadRemoveTotalMetric \<and>
    sorted_wrt (\<lambda>x y. diff_key F x < diff_key F y) (uploadDiffStore s sp) \<and>
    counter (adminMetrics s) k = (\<Sum>p \<in> dom (spaceMetrics s). space_counter (spaceMetrics s) p k) \<and>
    distinct (map up_Root (uploads_in s sp))"
  using ledger_system.reachable_inv [OF assms(2)] assms(1)
  by (simp add: ledger_inv_def upload_ledger_def upload_log_total_def totals_agree_def roots_distinct_def)

theorem upload_ledger_reachable_witness:
  "space_counter (spaceMetrics sample_ledger) ''space'' UploadAddTotalMetric =
     1 + space_counter (spaceMetrics sample_ledger) ''space'' UploadRemoveTotalMetric \<and>
   distinct (map up_Root (uploads_in sample_ledger ''space''))"
proof -
  have "sum_list (map Delta (uploadDiffStore sample_ledger ''space'')) = 1"
    by code_simp
  with upload_ledger_reachable [OF sample_formats_ok sample_reachable, of "''space''"] show ?thesis
    by simp
qed

text \<open>
As long as no two upload changes of a space carry the same cause at the same
microsecond, the sum of the upload diff log is the number of uploads the space holds, and so is
the difference of the upload counters: a retried add of a root leaves both where they were.
\<close>

theorem uploads_counted_reachable:
  assumes "formats_ok F" and "fresh_reachable F s"
  shows "sum_list (map Delta (uploadDiffStore s sp)) = of_nat (length (uploads_in s sp)) \<and>
    space_counter (spaceMetrics s) sp UploadAddTotalMetric -
      space_counter (spaceMetrics s) sp UploadRemoveTotalMetric = of_nat (length (uploads_in s sp))"
  using counted_system.reachable_inv [OF assms(2)] assms(1)
  by (simp add: uploads_counted_def ledger_inv_def upload_ledger_def upload_log_total_def)

theorem uploads_counted_reachable_witness:
  "sum_list (map Delta (uploadDiffStore sample_ledger ''space'')) = 1"
proof -
  have "length (uploads_in sample_ledger ''space'') = 1"
    by code_simp
  with uploads_counted_reachable [OF sample_formats_ok sample_fresh_reachable, of "''space''"]
  show ?thesis by simp
qed

end
