(* ===== verification/Usage.thy ===== *)
theory Usage
  imports Ledger
begin

section \<open>Usage series\<close>

text \<open>
  \<^verbatim>\<open>pkg/usage/usage.go\<close>: the usage service rebuilds, from the two diff logs and the counters of a
  space, what the space held at the end of each bucket of a range.

  The service reads stores that others write meanwhile. \<open>w i\<close> is the ledger its \<open>i\<close>-th store call
  sees, so a definition takes the sequence \<open>w\<close> and the index of its next call, and returns the index
  after its last one; any interleaving with writers is some \<open>w\<close>. Both paging loops end for every
  \<open>w\<close>, because a page that does not end them grows the rows towards the bound on the scan; the
  reading loop ends by its bound on attempts. The names of the errors are constants of another
  library and stand here under the names of those constants.
\<close>

definition MaxSamples :: int where
  "MaxSamples = 2048"

definition second :: duration where
  "second = 1000000000"

definition maxWindow :: duration where
  "maxWindow = 366 * 24 * 3600 * second"

definition maxScanRows :: nat where
  "maxScanRows = 500000"

definition totalsAttempts :: nat where
  "totalsAttempts = 3"

definition ErrInvalidRange :: gerr where
  "ErrInvalidRange = Named ''InvalidRange''
     ''range must be a non-empty interval between positive unix timestamps''"

definition ErrInvalidWindow :: gerr where
  "ErrInvalidWindow = Named ''InvalidWindow'' ''window must be positive and no longer than 8784h0m0s''"

definition ErrUsageUnstable :: gerr where
  "ErrUsageUnstable = Named ''UsageUnstable'' ''space usage changed throughout the read''"

definition ErrRangeTooBusy :: gerr where
  "ErrRangeTooBusy = Named ''RangeTooBusy''
     ''range holds more than 500000 recorded changes, request a shorter range''"

definition errTooManySamples :: gerr where
  "errTooManySamples = Named ''TooManySamples'' ''widen the window or shorten the range''"

record Sample =
  End :: time
  BytesStored :: uint64
  BytesIngested :: uint64
  UploadCount :: uint64

record Series =
  From :: time
  To :: time
  Window :: duration
  Samples :: "Sample list"

record reading =
  storedBytes :: int64
  uploads_held :: int64
  byteRows :: "DifferenceRecord list"
  uploadRows :: "DifferenceRecord list"

text \<open>\<^verbatim>\<open>t.Sub(u)\<close> saturates at the ends of \<^verbatim>\<open>time.Duration\<close>.\<close>

definition time_Sub :: "time \<Rightarrow> time \<Rightarrow> duration" where
  "time_Sub t u = max (- MaxInt64 - 1) (min MaxInt64 (t - u))"

lemma time_Sub_id: "0 \<le> t - u \<Longrightarrow> t - u \<le> MaxInt64 \<Longrightarrow> time_Sub t u = t - u"
  by (simp add: time_Sub_def MaxInt64_def)

definition ParseRange :: "int \<Rightarrow> int \<Rightarrow> int \<Rightarrow> (time \<times> time \<times> duration) res" where
  "ParseRange from to window =
     (if from \<le> 0 \<or> to \<le> 0 \<or> to \<le> from then Err ErrInvalidRange
      else if window \<le> 0 \<or> window > maxWindow div second then Err ErrInvalidWindow
      else Ok (from * second, to * second, window * second))"

subsection \<open>Reading the logs and the counters\<close>

function scan_loop ::
  "string \<Rightarrow> (nat \<Rightarrow> string option \<Rightarrow> 'a Page res) \<Rightarrow> nat \<Rightarrow> string option \<Rightarrow>
   'a list \<Rightarrow> 'a list res \<times> nat" where
  "scan_loop what list_at i cursor rows =
     (case list_at i cursor of
        Panic \<Rightarrow> (Panic, Suc i)
      | Err e \<Rightarrow> (Err (Wrap what e), Suc i)
      | Ok page \<Rightarrow>
          (let rows' = rows @ Results page in
           if length rows' > maxScanRows then (Err ErrRangeTooBusy, Suc i)
           else if page_Cursor page = None \<or> length (Results page) = 0 then (Ok rows', Suc i)
           else scan_loop what list_at (Suc i) (page_Cursor page) rows'))"
  by pat_completeness auto
termination
proof (relation "measure (\<lambda>(what, list_at, i, cursor, rows). Suc maxScanRows - length rows)", goal_cases)
  case (2 what list_at i cursor rows page rows')
  then have "length rows < length rows'" and "length rows' \<le> maxScanRows"
    by simp_all
  then show ?case by simp
qed simp

definition usage_scan ::
  "formats \<Rightarrow> (nat \<Rightarrow> 'z ledger_scheme) \<Rightarrow> nat \<Rightarrow> did \<Rightarrow> time \<Rightarrow> DifferenceRecord list res \<times> nat" where
  "usage_scan F w i space from =
     (let after = from - second in
      scan_loop ''listing space diffs''
        (\<lambda>i cursor. spacediff_List F (spaceDiffStore (w i)) space after
           (cursor_options spacediff_WithListCursor cursor)) i None [])"

definition usage_scanUploads ::
  "formats \<Rightarrow> (nat \<Rightarrow> 'z ledger_scheme) \<Rightarrow> nat \<Rightarrow> did \<Rightarrow> time \<Rightarrow> DifferenceRecord list res \<times> nat" where
  "usage_scanUploads F w i space from =
     (let after = from - second in
      scan_loop ''listing upload diffs''
        (\<lambda>i cursor. uploaddiff_List F (uploadDiffStore (w i)) space after
           (cursor_options uploaddiff_WithListCursor cursor)) i None [])"

definition settled :: "metrics \<Rightarrow> metrics \<Rightarrow> bool" where
  "settled before after =
     list_all (\<lambda>m. counter before m = counter after m)
       [BlobAddSizeTotalMetric, BlobRemoveSizeTotalMetric, UploadAddTotalMetric, UploadRemoveTotalMetric]"

definition usage_storedUploads :: "metrics \<Rightarrow> int64 res" where
  "usage_storedUploads totals =
     (let added = counter totals UploadAddTotalMetric;
          removed = counter totals UploadRemoveTotalMetric
      in if removed > added \<or> uint (added - removed) > MaxInt64
         then Err (Errorf ''space upload counters inconsistent'')
         else Ok (added - removed))"

definition usage_storedBytes :: "metrics \<Rightarrow> int64 res" where
  "usage_storedBytes totals =
     (let added = counter totals BlobAddSizeTotalMetric;
          removed = counter totals BlobRemoveSizeTotalMetric
      in if removed > added \<or> uint (added - removed) > MaxInt64
         then Err (Errorf ''space byte counters inconsistent'')
         else Ok (added - removed))"

function read_loop ::
  "formats \<Rightarrow> (nat \<Rightarrow> 'z ledger_scheme) \<Rightarrow> did \<Rightarrow> time \<Rightarrow> nat \<Rightarrow> metrics \<Rightarrow> nat \<Rightarrow> reading res" where
  "read_loop F w space from attempt totals i =
     (case usage_scan F w i space from of
        (Err e, _) \<Rightarrow> Err e
      | (Panic, _) \<Rightarrow> Panic
      | (Ok brows, i) \<Rightarrow>
          (case usage_scanUploads F w i space from of
             (Err e, _) \<Rightarrow> Err e
           | (Panic, _) \<Rightarrow> Panic
           | (Ok urows, i) \<Rightarrow>
               (case SpaceStore_Get (spaceMetrics (w i)) space of
                  Err e \<Rightarrow> Err (Wrap ''getting space metrics'' e)
                | Panic \<Rightarrow> Panic
                | Ok after \<Rightarrow>
                    (if settled totals after then
                       (case usage_storedBytes totals of
                          Err e \<Rightarrow> Err e
                        | Panic \<Rightarrow> Panic
                        | Ok sb \<Rightarrow>
                            (case usage_storedUploads totals of
                               Err e \<Rightarrow> Err e
                             | Panic \<Rightarrow> Panic
                             | Ok u \<Rightarrow> Ok \<lparr>storedBytes = sb, uploads_held = u,
                                          byteRows = brows, uploadRows = urows\<rparr>))
                     else if attempt \<ge> totalsAttempts then Err ErrUsageUnstable
                     else read_loop F w space from (attempt + 1) after (i + 1)))))"
  by pat_completeness auto
termination
  by (relation "measure (\<lambda>(F, w, space, start, attempt, totals, i). totalsAttempts - attempt)") auto

definition usage_read ::
  "formats \<Rightarrow> (nat \<Rightarrow> 'z ledger_scheme) \<Rightarrow> did \<Rightarrow> time \<Rightarrow> reading res" where
  "usage_read F w space from =
     (case SpaceStore_Get (spaceMetrics (w 0)) space of
        Err e \<Rightarrow> Err (Wrap ''getting space metrics'' e)
      | Panic \<Rightarrow> Panic
      | Ok totals \<Rightarrow> read_loop F w space from 1 totals 1)"

declare scan_loop.simps [simp del] read_loop.simps [simp del]

subsection \<open>Replaying the changes into buckets\<close>

record buckets =
  deltas :: "int64 list"
  ingested :: "uint64 list"
  tail :: int64

fun bucket_bytes ::
  "time \<Rightarrow> time \<Rightarrow> duration \<Rightarrow> DifferenceRecord list \<Rightarrow> buckets \<Rightarrow> buckets res" where
  "bucket_bytes from to window [] b = Ok b"
| "bucket_bytes from to window (r # rows) b =
     (if ReceiptAt r < from then bucket_bytes from to window rows b
      else if \<not> ReceiptAt r < to then bucket_bytes from to window rows (b\<lparr>tail := tail b + Delta r\<rparr>)
      else
        (let k = nat (time_Sub (ReceiptAt r) from div window) in
         if k \<ge> length (deltas b) \<or> k \<ge> length (ingested b) then Panic
         else bucket_bytes from to window rows
           (b\<lparr>deltas := (deltas b)[k := deltas b ! k + Delta r],
              ingested := (if pos64 (Delta r) then (ingested b)[k := ingested b ! k + Delta r]
                           else ingested b)\<rparr>)))"

fun bucket_uploads ::
  "time \<Rightarrow> time \<Rightarrow> duration \<Rightarrow> DifferenceRecord list \<Rightarrow> int64 list \<times> int64 \<Rightarrow>
   (int64 list \<times> int64) res" where
  "bucket_uploads from to window [] b = Ok b"
| "bucket_uploads from to window (r # rows) (ds, uploadTail) =
     (if ReceiptAt r < from then bucket_uploads from to window rows (ds, uploadTail)
      else if \<not> ReceiptAt r < to then bucket_uploads from to window rows (ds, uploadTail + Delta r)
      else
        (let k = nat (time_Sub (ReceiptAt r) from div window) in
         if k \<ge> length ds then Panic
         else bucket_uploads from to window rows (ds[k := ds ! k + Delta r], uploadTail)))"

fun bucket_ends :: "nat \<Rightarrow> time \<Rightarrow> duration \<Rightarrow> time \<Rightarrow> time list" where
  "bucket_ends 0 to window end = []"
| "bucket_ends (Suc n) to window end =
     (let end = (if end + window > to then to else end + window)
      in end # bucket_ends n to window end)"

definition held_or_zero :: "int64 \<Rightarrow> uint64" where
  "held_or_zero x = (if neg64 x then 0 else x)"

fun unwind ::
  "time list \<Rightarrow> int64 list \<Rightarrow> uint64 list \<Rightarrow> int64 list \<Rightarrow> nat \<Rightarrow> int64 \<Rightarrow> int64 \<Rightarrow> Sample list \<Rightarrow>
   Sample list" where
  "unwind ends ds ing uds 0 cur ups samples = samples"
| "unwind ends ds ing uds (Suc k) cur ups samples =
     unwind ends ds ing uds k (cur - ds ! k) (ups - uds ! k)
       (\<lparr>End = ends ! k, BytesStored = held_or_zero cur, BytesIngested = ing ! k,
         UploadCount = held_or_zero ups\<rparr> # samples)"

definition usage_run ::
  "formats \<Rightarrow> (nat \<Rightarrow> 'z ledger_scheme) \<Rightarrow> did \<Rightarrow> time \<Rightarrow> time \<Rightarrow> duration \<Rightarrow> nat \<Rightarrow> Sample list res" where
  "usage_run F w space from to window n =
     (case usage_read F w space from of
        Err e \<Rightarrow> Err e
      | Panic \<Rightarrow> Panic
      | Ok reading \<Rightarrow>
          (case bucket_bytes from to window (byteRows reading)
                  \<lparr>deltas = replicate n 0, ingested = replicate n 0, tail = 0\<rparr> of
             Err e \<Rightarrow> Err e
           | Panic \<Rightarrow> Panic
           | Ok b \<Rightarrow>
               (case bucket_uploads from to window (uploadRows reading) (replicate n 0, 0) of
                  Err e \<Rightarrow> Err e
                | Panic \<Rightarrow> Panic
                | Ok (uploadDeltas, uploadTail) \<Rightarrow>
                    Ok (unwind (bucket_ends n to window from) (deltas b) (ingested b) uploadDeltas n
                      (storedBytes reading - tail b) (uploads_held reading - uploadTail) []))))"

definition usage_Sample ::
  "formats \<Rightarrow> (nat \<Rightarrow> 'z ledger_scheme) \<Rightarrow> time \<Rightarrow> did \<Rightarrow> time \<Rightarrow> time \<Rightarrow> duration \<Rightarrow> Series res" where
  "usage_Sample F w now space from to window =
     (if from = go_zero_time \<or> \<not> to > from then Err ErrInvalidRange
      else if window \<le> 0 \<or> window > maxWindow then Err ErrInvalidWindow
      else
        (let to = (if to > now then (if now < from then from else now) else to) in
         if \<not> to > from then Ok \<lparr>From = from, To = to, Window = window, Samples = []\<rparr>
         else
           (let span = time_Sub to from in
            if span = MaxInt64 then Err ErrInvalidRange
            else
              (let n = span div window + (if span mod window \<noteq> 0 then 1 else 0) in
               if n > MaxSamples then Err errTooManySamples
               else
                 (case usage_run F w space from to window (nat n) of
                    Err e \<Rightarrow> Err e
                  | Panic \<Rightarrow> Panic
                  | Ok samples \<Rightarrow>
                      Ok \<lparr>From = from, To = to, Window = window, Samples = samples\<rparr>)))))"

subsection \<open>A scan reads the whole log or reports a busy range\<close>

context pager
begin

lemma scan_loop_items:
  assumes "wf s" and "resumes s c p" and "p \<le> length (items s)" and "p \<le> maxScanRows"
    and pages: "\<And>i c. list_at i c = list_page s c"
  shows "\<exists>j > i. scan_loop what list_at i c (take p (items s)) =
    ((if length (items s) \<le> maxScanRows then Ok (items s) else Err ErrRangeTooBusy), j)"
  using assms(2,3,4)
proof (induction "length (items s) - p" arbitrary: i c p rule: less_induct)
  case less
  from \<open>wf s\<close> less.prems(1,2) show ?case
  proof (cases rule: serves_cases)
    case (last_page page)
    then show ?thesis
      by (subst scan_loop.simps) (auto simp: pages)
  next
    case (more page c' q)
    show ?thesis
    proof (cases "q \<le> maxScanRows")
      case True
      have "length (items s) - q < length (items s) - p"
        using more by linarith
      from less.hyps [OF this more(7) more(5) True, of "Suc i"] obtain j where
        "j > Suc i" "scan_loop what list_at (Suc i) (Some c') (take q (items s)) =
          ((if length (items s) \<le> maxScanRows then Ok (items s) else Err ErrRangeTooBusy), j)"
        by blast
      with more True show ?thesis
        by (subst scan_loop.simps) (auto simp: pages intro!: exI [of _ j])
    next
      case False
      with more show ?thesis
        by (subst scan_loop.simps) (auto simp: pages)
    qed
  qed
qed

end

text \<open>The rows a scan from \<open>from\<close> fetches: the listing's bound is exclusive and a second early.\<close>

definition scanned :: "DifferenceRecord list \<Rightarrow> time \<Rightarrow> DifferenceRecord list" where
  "scanned log from = filter (\<lambda>d. ReceiptAt d > from - second) log"

definition scan_result :: "DifferenceRecord list \<Rightarrow> DifferenceRecord list res" where
  "scan_result rows = (if length rows \<le> maxScanRows then Ok rows else Err ErrRangeTooBusy)"

lemma usage_scan_still:
  assumes "log_wf (F, d, space, from - second)" and "\<And>i. spaceDiffStore (w i) = d"
  shows "\<exists>j. usage_scan F w i space from = (scan_result (scanned (d space) from), j)"
  using space_diffs.scan_loop_items [OF assms(1), of None 0 _ i "''listing space diffs''"] assms
  by (fastforce simp: usage_scan_def log_resumes_def log_items_def spacediff_page_def scanned_def
      scan_result_def Let_def)

lemma usage_scanUploads_still:
  assumes "log_wf (F, d, space, from - second)" and "\<And>i. uploadDiffStore (w i) = d"
  shows "\<exists>j. usage_scanUploads F w i space from = (scan_result (scanned (d space) from), j)"
  using upload_diffs.scan_loop_items [OF assms(1), of None 0 _ i "''listing upload diffs''"] assms
  by (fastforce simp: usage_scanUploads_def log_resumes_def log_items_def uploaddiff_page_def scanned_def
      scan_result_def Let_def)

lemma usage_read_still:
  assumes "\<And>i. w i = s" and "log_wf (F, spaceDiffStore s, space, from - second)"
    and "log_wf (F, uploadDiffStore s, space, from - second)"
    and "SpaceStore_Get (spaceMetrics s) space = Ok totals"
    and "usage_storedBytes totals = Ok sb" and "usage_storedUploads totals = Ok u"
    and "length (scanned (spaceDiffStore s space) from) \<le> maxScanRows"
    and "length (scanned (uploadDiffStore s space) from) \<le> maxScanRows"
  shows "usage_read F w space from = Ok \<lparr>storedBytes = sb, uploads_held = u,
    byteRows = scanned (spaceDiffStore s space) from, uploadRows = scanned (uploadDiffStore s space) from\<rparr>"
proof -
  obtain j where j: "usage_scan F w 1 space from = (Ok (scanned (spaceDiffStore s space) from), j)"
    using usage_scan_still [OF assms(2), of w 1] assms(1,7) by (auto simp: scan_result_def)
  obtain l where l: "usage_scanUploads F w j space from = (Ok (scanned (uploadDiffStore s space) from), l)"
    using usage_scanUploads_still [OF assms(3), of w j] assms(1,8) by (auto simp: scan_result_def)
  have "settled totals totals"
    by (simp add: settled_def)
  with j l assms show ?thesis
    by (simp add: usage_read_def read_loop.simps)
qed

subsection \<open>Sums over a log\<close>

definition log_sum :: "(DifferenceRecord \<Rightarrow> bool) \<Rightarrow> DifferenceRecord list \<Rightarrow> int64" where
  "log_sum P log = sum_list (map Delta (filter P log))"

definition held_at :: "DifferenceRecord list \<Rightarrow> time \<Rightarrow> int64" where
  "held_at log t = log_sum (\<lambda>d. ReceiptAt d < t) log"

definition added_in :: "DifferenceRecord list \<Rightarrow> time \<Rightarrow> time \<Rightarrow> uint64" where
  "added_in log a b = log_sum (\<lambda>d. a \<le> ReceiptAt d \<and> ReceiptAt d < b \<and> pos64 (Delta d)) log"

lemma log_sum_Nil [simp]: "log_sum P [] = 0"
  by (simp add: log_sum_def)

lemma log_sum_Cons [simp]: "log_sum P (d # log) = (if P d then Delta d else 0) + log_sum P log"
  by (simp add: log_sum_def)

lemma log_sum_cong: "(\<And>d. d \<in> set log \<Longrightarrow> P d = Q d) \<Longrightarrow> log_sum P log = log_sum Q log"
  by (simp add: log_sum_def cong: filter_cong)

lemma log_sum_scanned:
  "(\<And>d. P d \<Longrightarrow> from \<le> ReceiptAt d) \<Longrightarrow> log_sum P (scanned log from) = log_sum P log"
  by (induction log) (auto simp: scanned_def second_def, fastforce)

lemma log_sum_disjoint:
  assumes "finite J"
  shows "(\<Sum>j \<in> J. log_sum (\<lambda>d. Q d \<and> k d = j) log) = log_sum (\<lambda>d. Q d \<and> k d \<in> J) log"
proof (induction log)
  case (Cons d log)
  have "(\<Sum>j \<in> J. if Q d \<and> k d = j then Delta d else 0) = (if Q d \<and> k d \<in> J then Delta d else 0)"
    using assms by (cases "Q d") simp_all
  with Cons show ?case by (simp add: sum.distrib)
qed simp

subsection \<open>The buckets\<close>

definition bucket_of :: "time \<Rightarrow> duration \<Rightarrow> DifferenceRecord \<Rightarrow> nat" where
  "bucket_of from window d = nat ((ReceiptAt d - from) div window)"

definition within :: "time \<Rightarrow> time \<Rightarrow> DifferenceRecord \<Rightarrow> bool" where
  "within from to d \<longleftrightarrow> from \<le> ReceiptAt d \<and> ReceiptAt d < to"

definition covers :: "time \<Rightarrow> time \<Rightarrow> duration \<Rightarrow> nat \<Rightarrow> bool" where
  "covers from to window n \<longleftrightarrow> 0 < window \<and> from < to \<and> to - from \<le> MaxInt64 \<and>
     to \<le> from + int n * window"

lemma int_div_less_iff: "x div w < n \<longleftrightarrow> (x :: int) < n * w" if "0 < w"
proof -
  have "n * w \<le> x \<Longrightarrow> n \<le> x div w"
    using that zdiv_mono1 [of "n * w" x w] by simp
  moreover have "n \<le> x div w \<Longrightarrow> n * w \<le> x"
  proof -
    assume "n \<le> x div w"
    then have "n * w \<le> x div w * w"
      using that by (intro mult_right_mono) simp_all
    also have "\<dots> \<le> x"
      using that by (metis add_increasing2 div_mult_mod_eq order_refl pos_mod_sign)
    finally show "n * w \<le> x" .
  qed
  ultimately show ?thesis
    by (metis linorder_not_less)
qed

lemma bucket_of_less:
  assumes "covers from to window n" and "within from to d"
  shows "bucket_of from window d < n"
    and "nat (time_Sub (ReceiptAt d) from div window) = bucket_of from window d"
proof -
  have "ReceiptAt d - from < int n * window"
    using assms by (simp add: covers_def within_def)
  then have "(ReceiptAt d - from) div window < int n"
    using assms(1) by (simp add: covers_def int_div_less_iff)
  moreover have "0 \<le> (ReceiptAt d - from) div window"
    using assms by (simp add: covers_def within_def pos_imp_zdiv_nonneg_iff)
  ultimately show "bucket_of from window d < n"
    by (simp add: bucket_of_def nat_less_iff)
  have "time_Sub (ReceiptAt d) from = ReceiptAt d - from"
    using assms by (simp add: covers_def within_def time_Sub_def MaxInt64_def)
  then show "nat (time_Sub (ReceiptAt d) from div window) = bucket_of from window d"
    by (simp add: bucket_of_def)
qed

lemma bucket_bytes_spec:
  assumes "covers from to window n" and "length (deltas b) = n" and "length (ingested b) = n"
  shows "\<exists>b'. bucket_bytes from to window rows b = Ok b' \<and> length (deltas b') = n \<and> length (ingested b') = n \<and>
    tail b' = tail b + log_sum (\<lambda>d. to \<le> ReceiptAt d) rows \<and>
    (\<forall>k < n. deltas b' ! k = deltas b ! k +
      log_sum (\<lambda>d. within from to d \<and> bucket_of from window d = k) rows) \<and>
    (\<forall>k < n. ingested b' ! k = ingested b ! k +
      log_sum (\<lambda>d. within from to d \<and> bucket_of from window d = k \<and> pos64 (Delta d)) rows)"
  using assms(2,3)
proof (induction rows arbitrary: b)
  case Nil
  then show ?case by simp
next
  case (Cons r rows)
  note lt = bucket_of_less [OF assms(1), of r]
  have ord: "from < to" using assms(1) by (simp add: covers_def)
  consider (early) "ReceiptAt r < from" | (late) "to \<le> ReceiptAt r" | (inside) "within from to r"
    by (force simp: within_def)
  then show ?case
  proof cases
    case early
    with Cons.IH [OF Cons.prems] ord show ?thesis by (auto simp: within_def)
  next
    case late
    with Cons.IH [of "b\<lparr>tail := tail b + Delta r\<rparr>"] Cons.prems ord show ?thesis
      by (fastforce simp: within_def add.assoc)
  next
    case inside
    let ?k = "bucket_of from window r"
    let ?b = "b\<lparr>deltas := (deltas b)[?k := deltas b ! ?k + Delta r],
        ingested := (if pos64 (Delta r) then (ingested b)[?k := ingested b ! ?k + Delta r] else ingested b)\<rparr>"
    have "bucket_bytes from to window (r # rows) b = bucket_bytes from to window rows ?b"
      using inside lt Cons.prems by (simp add: within_def Let_def)
    with Cons.IH [of ?b] Cons.prems inside lt show ?thesis
      by (fastforce simp: nth_list_update within_def add.assoc)
  qed
qed

lemma bucket_uploads_spec:
  assumes "covers from to window n" and "length ds = n"
  shows "\<exists>ds'. bucket_uploads from to window rows (ds, t) =
      Ok (ds', t + log_sum (\<lambda>d. to \<le> ReceiptAt d) rows) \<and> length ds' = n \<and>
    (\<forall>k < n. ds' ! k = ds ! k + log_sum (\<lambda>d. within from to d \<and> bucket_of from window d = k) rows)"
  using assms(2)
proof (induction rows arbitrary: ds t)
  case Nil
  then show ?case by simp
next
  case (Cons r rows)
  note lt = bucket_of_less [OF assms(1), of r]
  have ord: "from < to" using assms(1) by (simp add: covers_def)
  consider (early) "ReceiptAt r < from" | (late) "to \<le> ReceiptAt r" | (inside) "within from to r"
    by (force simp: within_def)
  then show ?case
  proof cases
    case early
    with Cons.IH [OF Cons.prems, of t] ord show ?thesis by (auto simp: within_def)
  next
    case late
    with Cons.IH [OF Cons.prems, of "t + Delta r"] ord show ?thesis
      by (auto simp: within_def add.assoc)
  next
    case inside
    let ?ds = "ds[bucket_of from window r := ds ! bucket_of from window r + Delta r]"
    have "bucket_uploads from to window (r # rows) (ds, t) = bucket_uploads from to window rows (?ds, t)"
      using inside lt Cons.prems by (simp add: within_def Let_def)
    with Cons.IH [of ?ds t] Cons.prems inside lt show ?thesis
      by (fastforce simp: nth_list_update within_def add.assoc)
  qed
qed

lemma bucket_ends_nth:
  assumes "0 < window" and "end \<le> to" and "k < n"
  shows "bucket_ends n to window end ! k = min to (end + int (Suc k) * window)"
  using assms(2,3)
proof (induction n arbitrary: "end" k)
  case (Suc n)
  show ?case
  proof (cases k)
    case 0
    then show ?thesis by (simp add: Let_def)
  next
    case (Suc j)
    let ?e = "if end + window > to then to else end + window"
    have "bucket_ends n to window ?e ! j = min to (?e + int (Suc j) * window)"
      using Suc Suc.prems by (intro Suc.IH) auto
    also have "\<dots> = min to (end + int (Suc k) * window)"
    proof (cases "end + window > to")
      case True
      have "0 \<le> int (Suc j) * window"
        using assms(1) by simp
      moreover have "end + int (Suc k) * window = (end + window) + int (Suc j) * window"
        using Suc by (simp add: algebra_simps)
      ultimately show ?thesis
        using True by simp
    next
      case False
      with Suc show ?thesis by (simp add: algebra_simps)
    qed
    finally show ?thesis
      using Suc by (simp add: Let_def)
  qed
qed simp

lemma length_bucket_ends [simp]: "length (bucket_ends n to window end) = n"
  by (induction n to window "end" rule: bucket_ends.induct) (simp_all add: Let_def)

lemma unwind_eq:
  "unwind ends ds ing uds n cur ups acc =
     map (\<lambda>k. \<lparr>End = ends ! k, BytesStored = held_or_zero (cur - (\<Sum>j \<in> {Suc k..<n}. ds ! j)),
        BytesIngested = ing ! k, UploadCount = held_or_zero (ups - (\<Sum>j \<in> {Suc k..<n}. uds ! j))\<rparr>) [0..<n] @ acc"
proof (induction n arbitrary: cur ups acc)
  case (Suc n)
  have "x - (\<Sum>j \<in> {Suc k..<Suc n}. f j) = x - f n - (\<Sum>j \<in> {Suc k..<n}. f j)"
    if "k < n" for x :: int64 and f :: "nat \<Rightarrow> int64" and k
    using that by (simp add: algebra_simps)
  with Suc show ?case by (simp add: diff_diff_eq add.commute)
qed simp

text \<open>
  Unwinding the counters, which hold the sum of the whole log, by the changes at or after \<open>to\<close> and
  by the buckets behind bucket \<open>k\<close> leaves the changes before the end of bucket \<open>k\<close>.
\<close>

lemma unwound_sum:
  assumes "covers from to window n" and "k < n"
  shows "log_sum (\<lambda>d. True) log - log_sum (\<lambda>d. to \<le> ReceiptAt d) log -
      (\<Sum>j \<in> {Suc k..<n}. log_sum (\<lambda>d. within from to d \<and> bucket_of from window d = j) log) =
    held_at log (min to (from + int (Suc k) * window))"
proof -
  have "log_sum (\<lambda>d. True) log = log_sum (\<lambda>d. to \<le> ReceiptAt d) log +
      log_sum (\<lambda>d. within from to d \<and> bucket_of from window d \<in> {Suc k..<n}) log +
      held_at log (min to (from + int (Suc k) * window))"
  proof (induction log)
    case Nil
    then show ?case by (simp add: held_at_def)
  next
    case (Cons d log)
    have "ReceiptAt d < min to (from + int (Suc k) * window) \<longleftrightarrow>
        \<not> to \<le> ReceiptAt d \<and> \<not> (within from to d \<and> bucket_of from window d \<in> {Suc k..<n})"
    proof (cases "within from to d")
      case True
      have "bucket_of from window d < Suc k \<longleftrightarrow> ReceiptAt d - from < int (Suc k) * window"
        using assms(1) True int_div_less_iff [of window "ReceiptAt d - from" "int (Suc k)"]
        by (simp add: bucket_of_def covers_def within_def nat_less_iff pos_imp_zdiv_nonneg_iff)
      with True bucket_of_less(1) [OF assms(1) True] show ?thesis
        by (auto simp: within_def)
    next
      case False
      have "from < from + int (Suc k) * window" "from < to"
        using assms(1) by (simp_all add: covers_def)
      with False show ?thesis
        by (auto simp: within_def)
    qed
    with Cons show ?case
      using assms by (auto simp: held_at_def within_def algebra_simps)
  qed
  then show ?thesis
    by (simp add: log_sum_disjoint algebra_simps)
qed

subsection \<open>The series is the history of the space\<close>

definition bucket_sample ::
  "DifferenceRecord list \<Rightarrow> DifferenceRecord list \<Rightarrow> time \<Rightarrow> time \<Rightarrow> duration \<Rightarrow> nat \<Rightarrow> Sample" where
  "bucket_sample bytelog uploadlog from to window k =
     (let e = min to (from + int (Suc k) * window) in
      \<lparr>End = e, BytesStored = held_or_zero (held_at bytelog e),
       BytesIngested = added_in bytelog (from + int k * window) e,
       UploadCount = held_or_zero (held_at uploadlog e)\<rparr>)"

lemma bucket_ingested:
  assumes "covers from to window n"
  shows "log_sum (\<lambda>d. within from to d \<and> bucket_of from window d = k \<and> pos64 (Delta d)) log =
    added_in log (from + int k * window) (min to (from + int (Suc k) * window))"
  unfolding added_in_def
proof (rule log_sum_cong)
  fix d
  have w: "0 < window" and "0 \<le> int k * window"
    using assms by (simp_all add: covers_def)
  have "bucket_of from window d = k \<longleftrightarrow> from + int k * window \<le> ReceiptAt d \<and>
      ReceiptAt d < from + int (Suc k) * window" if "from \<le> ReceiptAt d"
    using that w int_div_less_iff [OF w, of "ReceiptAt d - from" "int (Suc k)"]
      int_div_less_iff [OF w, of "ReceiptAt d - from" "int k"]
    by (auto simp: bucket_of_def pos_imp_zdiv_nonneg_iff)
  then show "(within from to d \<and> bucket_of from window d = k \<and> pos64 (Delta d)) =
      (from + int k * window \<le> ReceiptAt d \<and> ReceiptAt d < min to (from + int (Suc k) * window) \<and>
       pos64 (Delta d))"
    using \<open>0 \<le> int k * window\<close> by (auto simp: within_def)
qed

lemma usage_run_still:
  assumes "covers from to window n"
    and read: "usage_read F w space from = Ok \<lparr>storedBytes = log_sum (\<lambda>d. True) bl,
      uploads_held = log_sum (\<lambda>d. True) ul, byteRows = scanned bl from, uploadRows = scanned ul from\<rparr>"
  shows "usage_run F w space from to window n = Ok (map (bucket_sample bl ul from to window) [0..<n])"
proof -
  have ft: "from < to" "0 < window"
    using assms(1) by (simp_all add: covers_def)
  have rows: "log_sum (\<lambda>d. to \<le> ReceiptAt d) (scanned l from) = log_sum (\<lambda>d. to \<le> ReceiptAt d) l"
    "log_sum (\<lambda>d. within from to d \<and> bucket_of from window d = k) (scanned l from) =
      log_sum (\<lambda>d. within from to d \<and> bucket_of from window d = k) l"
    "log_sum (\<lambda>d. within from to d \<and> bucket_of from window d = k \<and> pos64 (Delta d)) (scanned l from) =
      log_sum (\<lambda>d. within from to d \<and> bucket_of from window d = k \<and> pos64 (Delta d)) l" for k l
    using ft by (auto intro!: log_sum_scanned simp: within_def)
  obtain b where b: "bucket_bytes from to window (scanned bl from)
      \<lparr>deltas = replicate n 0, ingested = replicate n 0, tail = 0\<rparr> = Ok b"
    and tail: "tail b = log_sum (\<lambda>d. to \<le> ReceiptAt d) bl"
    and deltas: "\<And>k. k < n \<Longrightarrow> deltas b ! k =
      log_sum (\<lambda>d. within from to d \<and> bucket_of from window d = k) bl"
    and ingested: "\<And>k. k < n \<Longrightarrow> ingested b ! k =
      log_sum (\<lambda>d. within from to d \<and> bucket_of from window d = k \<and> pos64 (Delta d)) bl"
    using bucket_bytes_spec [OF assms(1), of "\<lparr>deltas = replicate n 0, ingested = replicate n 0, tail = 0\<rparr>"
        "scanned bl from"] by (auto simp: rows)
  obtain uds where u: "bucket_uploads from to window (scanned ul from) (replicate n 0, 0) =
      Ok (uds, log_sum (\<lambda>d. to \<le> ReceiptAt d) ul)"
    and uds: "\<And>k. k < n \<Longrightarrow> uds ! k =
      log_sum (\<lambda>d. within from to d \<and> bucket_of from window d = k) ul"
    using bucket_uploads_spec [OF assms(1), of "replicate n 0" "scanned ul from" 0]
    by (auto simp: rows)
  have "usage_run F w space from to window n =
      Ok (unwind (bucket_ends n to window from) (deltas b) (ingested b) uds n
        (log_sum (\<lambda>d. True) bl - tail b) (log_sum (\<lambda>d. True) ul - log_sum (\<lambda>d. to \<le> ReceiptAt d) ul) [])"
    by (simp add: usage_run_def read b u)
  also have "\<dots> = Ok (map (bucket_sample bl ul from to window) [0..<n])"
    using ft unwound_sum [OF assms(1)]
    by (simp add: unwind_eq bucket_sample_def bucket_ends_nth tail deltas uds ingested
        bucket_ingested [OF assms(1)] Let_def)
  finally show ?thesis .
qed

definition bucket_count :: "duration \<Rightarrow> duration \<Rightarrow> int" where
  "bucket_count span window = span div window + (if span mod window \<noteq> 0 then 1 else 0)"

lemma bucket_count_bounds:
  assumes "0 < window" and "0 < span"
  shows "0 < bucket_count span window" and "span \<le> bucket_count span window * window"
    and "(bucket_count span window - 1) * window < span"
proof -
  have split: "span = span div window * window + span mod window"
    by simp
  have m: "0 \<le> span mod window" "span mod window < window"
    using assms by simp_all
  have "0 < span div window \<or> span div window = 0 \<and> span mod window \<noteq> 0"
    using split assms pos_imp_zdiv_nonneg_iff [of window span] by fastforce
  then show "0 < bucket_count span window"
    by (auto simp: bucket_count_def)
  obtain q r where "bucket_count span window = q + (if r \<noteq> 0 then 1 else 0)"
    "span = q * window + r" "0 \<le> r" "r < window"
    using split m that [of "span div window" "span mod window"] unfolding bucket_count_def by blast
  then show "span \<le> bucket_count span window * window" "(bucket_count span window - 1) * window < span"
    using assms(1) by (auto simp: algebra_simps)
qed

text \<open>What the reconstruction needs of a log and of the counters it is anchored on.\<close>

definition log_readable :: "formats \<Rightarrow> DifferenceRecord list \<Rightarrow> time \<Rightarrow> bool" where
  "log_readable F log from \<longleftrightarrow> sorted_wrt (\<lambda>x y. diff_key F x < diff_key F y) log \<and>
     list_all (\<lambda>d. json_safe (ReceiptAt d) (cid_String F (Cause d))) log \<and>
     length (scanned log from) \<le> maxScanRows"

definition counters_sane :: "space_metrics \<Rightarrow> did \<Rightarrow> metric \<Rightarrow> metric \<Rightarrow> bool" where
  "counters_sane m space added removed \<longleftrightarrow>
     space_counter m space removed \<le> space_counter m space added \<and>
     uint (space_counter m space added - space_counter m space removed) \<le> MaxInt64"

lemma usage_totals:
  assumes "SpaceStore_Get m space = Ok totals"
  shows "counters_sane m space BlobAddSizeTotalMetric BlobRemoveSizeTotalMetric \<Longrightarrow>
      usage_storedBytes totals = Ok (space_counter m space BlobAddSizeTotalMetric -
        space_counter m space BlobRemoveSizeTotalMetric)"
    and "counters_sane m space UploadAddTotalMetric UploadRemoveTotalMetric \<Longrightarrow>
      usage_storedUploads totals = Ok (space_counter m space UploadAddTotalMetric -
        space_counter m space UploadRemoveTotalMetric)"
  using SpaceStore_Get_counter [OF assms]
  by (auto simp: usage_storedBytes_def usage_storedUploads_def counters_sane_def Let_def)

lemma log_sum_all: "log_sum (\<lambda>d. True) log = sum_list (map Delta log)"
  by (simp add: log_sum_def)

text \<open>
Property C13. Over a store nobody writes during the call, in a state the blob registry and the upload
store reached, a usage query for a valid range succeeds and every sample is the history of the space:
bucket \<open>k\<close> ends at \<open>from + (k+1) * window\<close> or at the end of the range, clamped to the present; its
stored bytes and its uploads are the sums of the logs before that instant, with a negative sum
reported as zero, and its ingested bytes the sum of the positive changes inside the bucket. The
buckets cover the range exactly. No index leaves the buckets and no bucket is lost. It asks that the
logs have distinct keys and writable times, that at most 500000 changes are scanned, and that the
counters have not wrapped.
\<close>

theorem usage_Sample_correct:
  assumes "formats_ok F" and "ledger_reachable F s"
    and "log_readable F (spaceDiffStore s space) from" and "log_readable F (uploadDiffStore s space) from"
    and "counters_sane (spaceMetrics s) space BlobAddSizeTotalMetric BlobRemoveSizeTotalMetric"
    and "counters_sane (spaceMetrics s) space UploadAddTotalMetric UploadRemoveTotalMetric"
    and "from \<noteq> go_zero_time" and "from < min to now" and "min to now - from < MaxInt64"
    and "0 < window" and "window \<le> maxWindow"
    and "bucket_count (min to now - from) window \<le> MaxSamples"
  shows "usage_Sample F (\<lambda>i. s) now space from to window =
    Ok \<lparr>From = from, To = min to now, Window = window,
      Samples = map (bucket_sample (spaceDiffStore s space) (uploadDiffStore s space) from (min to now) window)
        [0..<nat (bucket_count (min to now - from) window)]\<rparr> \<and>
    min to now \<le> from + bucket_count (min to now - from) window * window \<and>
    from + (bucket_count (min to now - from) window - 1) * window < min to now"
proof -
  let ?to = "min to now" and ?n = "bucket_count (min to now - from) window"
  note n = bucket_count_bounds [OF assms(10), of "?to - from"]
  have n0: "0 < ?n" and cover: "covers from ?to window (nat ?n)"
    using n assms by (simp_all add: covers_def)
  obtain totals where totals: "SpaceStore_Get (spaceMetrics s) space = Ok totals"
    using SpaceStore_Get_total by blast
  have "ledger_inv F s"
    using ledger_system.reachable_inv [OF assms(2)] assms(1) by simp
  then have sums: "space_counter (spaceMetrics s) space BlobAddSizeTotalMetric -
        space_counter (spaceMetrics s) space BlobRemoveSizeTotalMetric = log_sum (\<lambda>d. True) (spaceDiffStore s space)"
      "space_counter (spaceMetrics s) space UploadAddTotalMetric -
        space_counter (spaceMetrics s) space UploadRemoveTotalMetric = log_sum (\<lambda>d. True) (uploadDiffStore s space)"
    by (simp_all add: ledger_inv_def blob_ledger_def upload_ledger_def upload_log_total_def log_sum_all)
  have "usage_read F (\<lambda>i. s) space from = Ok \<lparr>storedBytes = log_sum (\<lambda>d. True) (spaceDiffStore s space),
      uploads_held = log_sum (\<lambda>d. True) (uploadDiffStore s space),
      byteRows = scanned (spaceDiffStore s space) from, uploadRows = scanned (uploadDiffStore s space) from\<rparr>"
    using assms(1,3,4) totals usage_totals [OF totals] assms(5,6) sums
    by (intro usage_read_still [where s = s]) (auto simp: log_wf_def log_readable_def)
  note run = usage_run_still [OF cover this]
  have "time_Sub ?to from = ?to - from"
    using assms(8,9) by (intro time_Sub_id) linarith+
  moreover have "(if to > now then (if now < from then from else now) else to) = ?to"
    using assms(8) by (auto simp: min_def split: if_splits)
  ultimately have "usage_Sample F (\<lambda>i. s) now space from to window =
      Ok \<lparr>From = from, To = ?to, Window = window,
        Samples = map (bucket_sample (spaceDiffStore s space) (uploadDiffStore s space) from ?to window)
          [0..<nat ?n]\<rparr>"
    using assms n0 run by (simp add: usage_Sample_def Let_def bucket_count_def [symmetric])
  moreover have "?to \<le> from + ?n * window" "from + (?n - 1) * window < ?to"
    using n(2,3) assms(8) by linarith+
  ultimately show ?thesis by blast
qed

lemma sample_ledger_logs:
  "spaceDiffStore sample_ledger ''space'' =
     [\<lparr>Space = ''space'', Cause = ''c1'', Delta = 7, ReceiptAt = 1000, InsertedAt = 2000\<rparr>,
      \<lparr>Space = ''space'', Cause = ''c2'', Delta = 5, ReceiptAt = 11000, InsertedAt = 12000\<rparr>,
      \<lparr>Space = ''space'', Cause = ''c4'', Delta = - 7, ReceiptAt = 30000, InsertedAt = 31000\<rparr>]"
  "uploadDiffStore sample_ledger ''space'' =
     [\<lparr>Space = ''space'', Cause = ''c3'', Delta = 1, ReceiptAt = 21000, InsertedAt = 22000\<rparr>]"
  by code_simp+

lemma sample_ledger_counters:
  "space_counter (spaceMetrics sample_ledger) ''space'' BlobAddSizeTotalMetric = 12"
  "space_counter (spaceMetrics sample_ledger) ''space'' BlobRemoveSizeTotalMetric = 7"
  "space_counter (spaceMetrics sample_ledger) ''space'' UploadAddTotalMetric = 1"
  "space_counter (spaceMetrics sample_ledger) ''space'' UploadRemoveTotalMetric = 0"
  by code_simp+

lemma sample_ledger_readable:
  "log_readable sample_formats (spaceDiffStore sample_ledger ''space'') 500"
  "log_readable sample_formats (uploadDiffStore sample_ledger ''space'') 500"
proof -
  have "json_safe t (cid_String sample_formats c)" if "0 \<le> t" "t < 10 ^ 9" for t c
    using that sample_formats_ok by (simp add: json_safe_def formats_ok_def)
  then show "log_readable sample_formats (spaceDiffStore sample_ledger ''space'') 500"
    "log_readable sample_formats (uploadDiffStore sample_ledger ''space'') 500"
    by (simp_all add: log_readable_def sample_ledger_logs scanned_def maxScanRows_def diff_key_def second_def)
qed

theorem usage_Sample_correct_witness:
  "usage_Sample sample_formats (\<lambda>i. sample_ledger) 100000 ''space'' 500 40000 20000 =
    Ok \<lparr>From = 500, To = 40000, Window = 20000, Samples =
      [\<lparr>End = 20500, BytesStored = 12, BytesIngested = 12, UploadCount = 0\<rparr>,
       \<lparr>End = 40000, BytesStored = 5, BytesIngested = 0, UploadCount = 1\<rparr>]\<rparr>"
proof -
  have count: "bucket_count 39500 20000 = 2"
    by (simp add: bucket_count_def)
  have "[0..<nat 2] = [0, 1]"
    by (simp add: upt_rec)
  moreover have "neg64 12 = False" "neg64 5 = False" "neg64 1 = False" "neg64 0 = False"
    "pos64 7" "pos64 5" "\<not> pos64 (- 7)"
    by code_simp+
  ultimately show ?thesis
    using usage_Sample_correct [OF sample_formats_ok sample_reachable sample_ledger_readable,
        where to = 40000 and now = 100000 and window = 20000]
    by (simp add: counters_sane_def sample_ledger_counters MaxInt64_def go_zero_time_def maxWindow_def
        second_def MaxSamples_def count bucket_sample_def held_at_def added_in_def sample_ledger_logs
        held_or_zero_def)
qed

subsection \<open>Under concurrent writers\<close>

text \<open>
  Whatever the writers do, a reading that comes back is anchored: the counters it is computed from
  are those of one call before both scans, and the call after them saw the same counters.
\<close>

definition anchored :: "formats \<Rightarrow> (nat \<Rightarrow> 'z ledger_scheme) \<Rightarrow> did \<Rightarrow> time \<Rightarrow> nat \<Rightarrow> reading \<Rightarrow> bool" where
  "anchored F w space from i rd \<longleftrightarrow> (\<exists>j l.
     usage_scan F w (Suc i) space from = (Ok (byteRows rd), j) \<and>
     usage_scanUploads F w j space from = (Ok (uploadRows rd), l) \<and>
     (\<forall>m \<in> {BlobAddSizeTotalMetric, BlobRemoveSizeTotalMetric, UploadAddTotalMetric, UploadRemoveTotalMetric}.
        space_counter (spaceMetrics (w i)) space m = space_counter (spaceMetrics (w l)) space m) \<and>
     storedBytes rd = space_counter (spaceMetrics (w i)) space BlobAddSizeTotalMetric -
       space_counter (spaceMetrics (w i)) space BlobRemoveSizeTotalMetric \<and>
     uploads_held rd = space_counter (spaceMetrics (w i)) space UploadAddTotalMetric -
       space_counter (spaceMetrics (w i)) space UploadRemoveTotalMetric)"

lemma stored_Ok:
  "usage_storedBytes t = Ok x \<Longrightarrow> x = counter t BlobAddSizeTotalMetric - counter t BlobRemoveSizeTotalMetric"
  "usage_storedUploads t = Ok x \<Longrightarrow> x = counter t UploadAddTotalMetric - counter t UploadRemoveTotalMetric"
  by (auto simp: usage_storedBytes_def usage_storedUploads_def Let_def split: if_splits)

lemma read_loop_anchored:
  assumes "SpaceStore_Get (spaceMetrics (w i)) space = Ok totals"
    and "read_loop F w space from attempt totals (Suc i) = Ok rd"
  shows "\<exists>i. anchored F w space from i rd"
  using assms
proof (induction "totalsAttempts - attempt" arbitrary: attempt totals i rule: less_induct)
  case less
  obtain br j ur l after where scans: "usage_scan F w (Suc i) space from = (Ok br, j)"
    "usage_scanUploads F w j space from = (Ok ur, l)"
    and after: "SpaceStore_Get (spaceMetrics (w l)) space = Ok after"
    using less.prems(2) by (subst (asm) read_loop.simps) (auto split: prod.splits res.splits)
  show ?case
  proof (cases "settled totals after")
    case True
    with less.prems(2) scans after have rd: "byteRows rd = br" "uploadRows rd = ur"
      "usage_storedBytes totals = Ok (storedBytes rd)" "usage_storedUploads totals = Ok (uploads_held rd)"
      by (subst (asm) read_loop.simps, auto split: res.splits)+
    have "space_counter (spaceMetrics (w i)) space m = space_counter (spaceMetrics (w l)) space m"
      if "m \<in> {BlobAddSizeTotalMetric, BlobRemoveSizeTotalMetric, UploadAddTotalMetric, UploadRemoveTotalMetric}" for m
      using that True SpaceStore_Get_counter [OF less.prems(1)] SpaceStore_Get_counter [OF after]
      by (auto simp: settled_def)
    moreover have "storedBytes rd = space_counter (spaceMetrics (w i)) space BlobAddSizeTotalMetric -
        space_counter (spaceMetrics (w i)) space BlobRemoveSizeTotalMetric"
      "uploads_held rd = space_counter (spaceMetrics (w i)) space UploadAddTotalMetric -
        space_counter (spaceMetrics (w i)) space UploadRemoveTotalMetric"
      using stored_Ok(1) [OF rd(3)] stored_Ok(2) [OF rd(4)] SpaceStore_Get_counter [OF less.prems(1)]
      by simp_all
    ultimately have "anchored F w space from i rd"
      using scans rd(1,2) unfolding anchored_def by blast
    then show ?thesis ..
  next
    case False
    with less.prems(2) scans after have "\<not> attempt \<ge> totalsAttempts"
      "read_loop F w space from (attempt + 1) after (Suc l) = Ok rd"
      by (subst (asm) read_loop.simps, auto split: if_splits)+
    with less.hyps [of "attempt + 1", OF _ after] show ?thesis by simp
  qed
qed

lemma usage_read_anchored: "usage_read F w space from = Ok rd \<Longrightarrow> \<exists>i. anchored F w space from i rd"
  using read_loop_anchored [of w 0 space _ F "from" 1 rd]
  by (auto simp: usage_read_def split: res.splits)

text \<open>The listings the scans call never panic, nor does anything behind them.\<close>

definition cursors_total :: "formats \<Rightarrow> bool" where
  "cursors_total F \<longleftrightarrow> (\<forall>b. json_Unmarshal (cursorJSON F) b \<noteq> Panic)"

lemma cut_page_total: "0 < limit \<Longrightarrow> cut_page key limit xs \<noteq> Panic"
  by (cases "int (length xs) \<le> limit") (simp_all add: cut_page_small cut_page_large)

lemma diff_List_total:
  assumes "cursors_total F"
  shows "spacediff_List F d space after (cursor_options spacediff_WithListCursor c) \<noteq> Panic"
    and "uploaddiff_List F d space after (cursor_options uploaddiff_WithListCursor c) \<noteq> Panic"
  using assms
  by (auto simp: spacediff_List_def uploaddiff_List_def cursor_options_def no_options_def cut_page_total
      spacediff_WithListCursor_def uploaddiff_WithListCursor_def DecodeCursor_def cursors_total_def Let_def
      split: option.splits res.splits)

lemma scan_loop_total:
  "(\<And>i c. list_at i c \<noteq> Panic) \<Longrightarrow> fst (scan_loop what list_at i c rows) \<noteq> Panic"
proof (induction what list_at i c rows rule: scan_loop.induct)
  case (1 what list_at i c rows)
  show ?case
    using 1 by (subst scan_loop.simps) (auto simp: Let_def split: res.split)
qed

lemma scan_total:
  assumes "cursors_total F"
  shows "fst (usage_scan F w i space from) \<noteq> Panic" "fst (usage_scanUploads F w i space from) \<noteq> Panic"
  unfolding usage_scan_def usage_scanUploads_def Let_def
  by (intro scan_loop_total diff_List_total [OF assms])+

lemma read_loop_total: "cursors_total F \<Longrightarrow> read_loop F w space from attempt totals i \<noteq> Panic"
proof (induction F w space "from" attempt totals i rule: read_loop.induct)
  case (1 F w space "from" attempt totals i)
  obtain a j where a: "usage_scan F w i space from = (a, j)" "a \<noteq> Panic"
    using scan_total(1) [OF 1(2), of w i] by (metis prod.collapse)
  obtain b l where b: "usage_scanUploads F w j space from = (b, l)" "b \<noteq> Panic"
    using scan_total(2) [OF 1(2), of w j] by (metis prod.collapse)
  obtain after where after: "SpaceStore_Get (spaceMetrics (w l)) space = Ok after"
    using SpaceStore_Get_total by blast
  have "usage_storedBytes totals \<noteq> Panic" "usage_storedUploads totals \<noteq> Panic"
    by (simp_all add: usage_storedBytes_def usage_storedUploads_def Let_def)
  with 1 a b after show ?case
    by (subst read_loop.simps) (auto split: res.split)
qed

lemma usage_read_total: "cursors_total F \<Longrightarrow> usage_read F w space from \<noteq> Panic"
  by (simp add: usage_read_def SpaceStore_Get_def metrics_Get_def read_loop_total split: option.split)

lemma usage_run_shape:
  assumes "cursors_total F" and "covers from to window n"
  shows "case usage_run F w space from to window n of
      Ok samples \<Rightarrow> map End samples = map (\<lambda>k. min to (from + int (Suc k) * window)) [0..<n]
    | Err e \<Rightarrow> True
    | Panic \<Rightarrow> False"
proof (cases "usage_read F w space from")
  case (Ok rd)
  obtain b where b: "bucket_bytes from to window (byteRows rd)
      \<lparr>deltas = replicate n 0, ingested = replicate n 0, tail = 0\<rparr> = Ok b"
    using bucket_bytes_spec [OF assms(2), of "\<lparr>deltas = replicate n 0, ingested = replicate n 0, tail = 0\<rparr>"
        "byteRows rd"] by auto
  obtain uds t where u: "bucket_uploads from to window (uploadRows rd) (replicate n 0, 0) = Ok (uds, t)"
    using bucket_uploads_spec [OF assms(2), of "replicate n 0" "uploadRows rd" 0] by auto
  show ?thesis
    using assms(2) by (simp add: usage_run_def Ok b u unwind_eq bucket_ends_nth covers_def)
qed (use usage_read_total [OF assms(1), of w space "from"] in \<open>simp_all add: usage_run_def\<close>)

text \<open>
Whatever the stores answer while writers interleave, a usage query never panics, and when
it succeeds the series has the shape promised: it starts at \<open>from\<close>, ends at the end asked for clamped
to the present (or at \<open>from\<close> for a range ahead of it), and its samples end at consecutive multiples of
the window, the last at the end of the range, with no gap. The JSON decoder must not panic.
\<close>

theorem usage_Sample_shape:
  assumes "cursors_total F"
  shows "case usage_Sample F w now space from to window of
      Ok ser \<Rightarrow> From ser = from \<and> To ser = max from (min to now) \<and> Window ser = window \<and>
        map End (Samples ser) = map (\<lambda>k. min (To ser) (from + int (Suc k) * window))
          [0..<nat (bucket_count (To ser - from) window)] \<and>
        int (length (Samples ser)) \<le> MaxSamples
    | Err e \<Rightarrow> True
    | Panic \<Rightarrow> False"
proof (cases "from \<noteq> go_zero_time \<and> from < to \<and> 0 < window \<and> window \<le> maxWindow")
  case True
  obtain T where clamp: "(if to > now then (if now < from then from else now) else to) = T"
    and T: "T = max from (min to now)"
    using True by fastforce
  have sample: "usage_Sample F w now space from to window =
     (if \<not> T > from then Ok \<lparr>From = from, To = T, Window = window, Samples = []\<rparr>
      else if time_Sub T from = MaxInt64 then Err ErrInvalidRange
      else if bucket_count (time_Sub T from) window > MaxSamples then Err errTooManySamples
      else (case usage_run F w space from T window (nat (bucket_count (time_Sub T from) window)) of
              Err e \<Rightarrow> Err e | Panic \<Rightarrow> Panic
            | Ok samples \<Rightarrow> Ok \<lparr>From = from, To = T, Window = window, Samples = samples\<rparr>))"
    using True unfolding usage_Sample_def Let_def bucket_count_def clamp by simp
  show ?thesis
  proof (cases "from < T \<and> time_Sub T from \<noteq> MaxInt64 \<and> bucket_count (time_Sub T from) window \<le> MaxSamples")
    case ok: True
    have sub: "time_Sub T from = T - from" and small: "T - from \<le> MaxInt64"
      using ok by (auto simp: time_Sub_def MaxInt64_def max_def min_def split: if_splits)
    have n: "0 < bucket_count (T - from) window" "T - from \<le> bucket_count (T - from) window * window"
      using ok True by (intro bucket_count_bounds; simp)+
    then have "covers from T window (nat (bucket_count (T - from) window))"
      using True ok small by (auto simp: covers_def)
    note shape = usage_run_shape [OF assms this, of w space]
    have run: "usage_Sample F w now space from to window =
        (case usage_run F w space from T window (nat (bucket_count (T - from) window)) of
           Err e \<Rightarrow> Err e | Panic \<Rightarrow> Panic
         | Ok samples \<Rightarrow> Ok \<lparr>From = from, To = T, Window = window, Samples = samples\<rparr>)"
      using sample ok sub by simp
    show ?thesis
    proof (cases "usage_run F w space from T window (nat (bucket_count (T - from) window))")
      case (Ok samples)
      with shape have ends: "map End samples =
          map (\<lambda>k. min T (from + int (Suc k) * window)) [0..<nat (bucket_count (T - from) window)]"
        by simp
      have "length samples = nat (bucket_count (T - from) window)"
        using arg_cong [OF ends, of length] by simp
      with ends ok n sub show ?thesis
        unfolding run Ok by (simp add: T [symmetric])
    qed (use shape in \<open>simp_all add: run\<close>)
  next
    case False
    show ?thesis
    proof (cases "from < T")
      case True
      with False have "time_Sub T from = MaxInt64 \<or> bucket_count (time_Sub T from) window > MaxSamples"
        by auto
      with True sample show ?thesis by auto
    next
      case False
      with T have "T = from" by simp
      with sample show ?thesis
        by (simp add: T [symmetric] bucket_count_def MaxSamples_def)
    qed
  qed
next
  case False
  then show ?thesis
    by (auto simp: usage_Sample_def)
qed

lemma sample_cursors_total: "cursors_total sample_formats"
  by (simp add: cursors_total_def sample_formats_def sample_json_def Let_def split: list.split)

theorem usage_Sample_shape_witness:
  "usage_Sample sample_formats (\<lambda>i. if i < 2 then ledger_init else sample_ledger) 100000 ''space'' 500 40000 20000
     \<noteq> Panic"
  using usage_Sample_shape [OF sample_cursors_total, of 500 40000 100000 20000
      "\<lambda>i. if i < 2 then ledger_init else sample_ledger" "''space''"]
  by auto

text \<open>
Property C33. Whatever the stores answer while writers interleave, a reading that comes back rests on one
call for the counters before the scans and one after them that saw the same four counters, and its
totals are the differences of exactly these counters: a change of any of them during the scans is
detected, even a change and an equal removal, since the counters are compared one by one.
\<close>

theorem usage_read_consistent:
  assumes "usage_read F w space from = Ok rd"
  shows "\<exists>i j l. usage_scan F w (Suc i) space from = (Ok (byteRows rd), j) \<and>
     usage_scanUploads F w j space from = (Ok (uploadRows rd), l) \<and>
     space_counter (spaceMetrics (w i)) space BlobAddSizeTotalMetric =
       space_counter (spaceMetrics (w l)) space BlobAddSizeTotalMetric \<and>
     space_counter (spaceMetrics (w i)) space BlobRemoveSizeTotalMetric =
       space_counter (spaceMetrics (w l)) space BlobRemoveSizeTotalMetric \<and>
     space_counter (spaceMetrics (w i)) space UploadAddTotalMetric =
       space_counter (spaceMetrics (w l)) space UploadAddTotalMetric \<and>
     space_counter (spaceMetrics (w i)) space UploadRemoveTotalMetric =
       space_counter (spaceMetrics (w l)) space UploadRemoveTotalMetric \<and>
     storedBytes rd = space_counter (spaceMetrics (w i)) space BlobAddSizeTotalMetric -
       space_counter (spaceMetrics (w i)) space BlobRemoveSizeTotalMetric \<and>
     uploads_held rd = space_counter (spaceMetrics (w i)) space UploadAddTotalMetric -
       space_counter (spaceMetrics (w i)) space UploadRemoveTotalMetric"
proof -
  obtain i where "anchored F w space from i rd"
    using usage_read_anchored [OF assms] ..
  then show ?thesis
    unfolding anchored_def by (auto intro: exI [of _ i])
qed

theorem usage_read_consistent_witness:
  "\<exists>i j l. usage_scan sample_formats (\<lambda>i. sample_ledger) (Suc i) ''space'' 500 =
     (Ok (scanned (spaceDiffStore sample_ledger ''space'') 500), j) \<and>
   usage_scanUploads sample_formats (\<lambda>i. sample_ledger) j ''space'' 500 =
     (Ok (scanned (uploadDiffStore sample_ledger ''space'') 500), l)"
proof -
  obtain totals where totals: "SpaceStore_Get (spaceMetrics sample_ledger) ''space'' = Ok totals"
    using SpaceStore_Get_total by blast
  have "usage_read sample_formats (\<lambda>i. sample_ledger) ''space'' 500 = Ok \<lparr>storedBytes = 12 - 7,
      uploads_held = 1 - 0, byteRows = scanned (spaceDiffStore sample_ledger ''space'') 500,
      uploadRows = scanned (uploadDiffStore sample_ledger ''space'') 500\<rparr>"
    using sample_ledger_readable usage_totals [OF totals] totals
    by (intro usage_read_still [where s = sample_ledger and totals = totals])
      (simp_all add: log_wf_def log_readable_def sample_formats_ok counters_sane_def
        sample_ledger_counters MaxInt64_def)
  from usage_read_consistent [OF this] show ?thesis
    by (elim exE) auto
qed

text \<open>
The arguments of a query are accepted exactly for positive timestamps in order and a
window between one second and 366 days, and an accepted query passes the checks that open
\<^verbatim>\<open>Sample\<close>: it is never refused there for its window.
\<close>

theorem ParseRange_spec:
  "case ParseRange from to window of
     Ok (f, t, w) \<Rightarrow> 0 < from \<and> from < to \<and> 0 < window \<and> window \<le> 366 * 86400 \<and>
       f = from * second \<and> t = to * second \<and> w = window * second \<and>
       f \<noteq> go_zero_time \<and> f < t \<and> 0 < w \<and> w \<le> maxWindow
   | Err e \<Rightarrow> \<not> (0 < from \<and> from < to \<and> 0 < window \<and> window \<le> 366 * 86400)
   | Panic \<Rightarrow> False"
  by (auto simp: ParseRange_def second_def maxWindow_def go_zero_time_def split: if_splits)

end
