(* ===== verification/Space_Handlers.thy ===== *)
theory Space_Handlers
  imports Blob_Remove Usage
begin

section \<open>Handlers for accounts and spaces\<close>

text \<open>
  The handlers of \<^verbatim>\<open>pkg/service/handlers\<close> that add customers, provision spaces, route them, list and
  change their uploads, list their blobs, publish their indexes and sample their usage. Each takes the stores and services it
  is built with, in the order of its constructor, the invocation and its arguments, and gives back the
  store it may change with what it answers. \<open>handler_lib\<close> holds what they use of the command
  definitions and of the DID libraries.
\<close>

record handler_lib =
  didmailto_Parse :: "did \<Rightarrow> did res"
  plc_Parse :: "did \<Rightarrow> did res"
  InvalidAccountErrorName :: string
  ErrAccountPlanMissing :: gerr
  UnknownSpaceErrorName :: string
  UnknownPolicyErrorName :: string
  ErrIndexNotFound :: gerr
  RetrieveCommand :: string
  Retrieve_Delegate :: "did \<Rightarrow> did \<Rightarrow> did \<Rightarrow> token res"
  Index_Invoke :: "did \<Rightarrow> did \<Rightarrow> cid \<Rightarrow> did \<Rightarrow> cid list \<Rightarrow> token res"
  IndexOK_Unmarshal :: "bytes \<Rightarrow> unit res"

subsection \<open>Customers and provisioning\<close>

definition InvalidCustomerSubjectErrorName :: string where
  "InvalidCustomerSubjectErrorName = ''InvalidCustomerSubject''"

definition ErrInvalidCustomerSubject :: gerr where
  "ErrInvalidCustomerSubject = Named InvalidCustomerSubjectErrorName ''invocation subject must be the service''"

record CustomerAddArguments =
  cadd_Customer :: did
  cadd_Product :: did
  cadd_ExternalAccount :: "string option"
  cadd_Details :: "string \<rightharpoonup> any_value"

text \<open>An empty map of details and the nil map it becomes read the same.\<close>

definition CustomerAddHandler ::
  "did \<Rightarrow> token \<Rightarrow> CustomerAddArguments \<Rightarrow> time \<Rightarrow> customer_store \<Rightarrow> customer_store \<times> unit response res" where
  "CustomerAddHandler ident iv args now customerStore =
     (if tok_Subject iv \<noteq> ident then (customerStore, Ok (SetFailure ErrInvalidCustomerSubject))
      else
        (case customer_Add (cadd_Customer args) (cadd_ExternalAccount args) (cadd_Product args) (cadd_Details args) None
                now customerStore of
           (cs, Panic) \<Rightarrow> (cs, Panic)
         | (cs, Err e) \<Rightarrow>
             (cs, if errors_Is e ErrCustomerExists then Ok (SetFailure e) else Err (Wrap ''adding customer'' e))
         | (cs, Ok _) \<Rightarrow> (cs, Ok (SetSuccess None ()))))"

record ProviderAddArguments =
  padd_Provider :: did
  padd_Consumer :: did

text \<open>The account: the subject read as a \<^verbatim>\<open>did:mailto\<close> or else as a \<^verbatim>\<open>did:plc\<close>.\<close>

definition parse_account :: "handler_lib \<Rightarrow> did \<Rightarrow> did res" where
  "parse_account H subject =
     (case didmailto_Parse H subject of
        Err _ \<Rightarrow> plc_Parse H subject
      | r \<Rightarrow> r)"

definition ProviderAddHandler ::
  "handler_lib \<Rightarrow> formats \<Rightarrow> cid_lib \<Rightarrow> bool \<Rightarrow> customer_store \<Rightarrow> token \<Rightarrow> ProviderAddArguments \<Rightarrow> provisioning_Service \<Rightarrow>
   provisioning_Service \<times> string response res" where
  "ProviderAddHandler H F C allowWithoutPlan customers iv args s =
     (case parse_account H (tok_Subject iv) of
        Panic \<Rightarrow> (s, Panic)
      | Err _ \<Rightarrow> (s, Ok (SetFailure (Named (InvalidAccountErrorName H) ''invalid account DID'')))
      | Ok account \<Rightarrow>
          (case (if allowWithoutPlan then Ok None
                 else (case PaymentPlan customers account of
                         Panic \<Rightarrow> Panic
                       | Err e \<Rightarrow>
                           (if errors_Is e ErrMissingPaymentPlan then Ok (Some (ErrAccountPlanMissing H))
                            else Err (Wrap ''checking payment plan'' e))
                       | Ok _ \<Rightarrow> Ok None)) of
             Panic \<Rightarrow> (s, Panic)
           | Err e \<Rightarrow> (s, Err e)
           | Ok (Some failure) \<Rightarrow> (s, Ok (SetFailure failure))
           | Ok None \<Rightarrow>
               (case Provision F C account (padd_Consumer args) (padd_Provider args) (tok_Task iv) s of
                  (s, Panic) \<Rightarrow> (s, Panic)
                | (s, Err e) \<Rightarrow>
                    (s, if errors_Is e ErrProviderNotAllowed \<or> errors_Is e ErrConsumerExists then Ok (SetFailure e)
                        else Err (Wrap ''provisioning service'' e))
                | (s, Ok sub) \<Rightarrow> (s, Ok (SetSuccess None sub)))))"

definition SpaceInfoHandler :: "handler_lib \<Rightarrow> provisioning_Service \<Rightarrow> token \<Rightarrow> did list response res option" where
  "SpaceInfoHandler H P iv =
     (if take 8 (tok_Subject iv) \<noteq> ''did:key:''
      then Some (Ok (SetFailure (Named (UnknownSpaceErrorName H) ''can only get info for did:key spaces'')))
      else
        (case ListServiceProviders P (tok_Subject iv) of
           None \<Rightarrow> None
         | Some (Err e) \<Rightarrow> Some (Err (Wrap ''listing service providers'' e))
         | Some Panic \<Rightarrow> Some Panic
         | Some (Ok ps) \<Rightarrow> Some (Ok (SetSuccess None ps))))"

subsection \<open>Uploads and blobs\<close>

text \<open>The check the handlers share: a space without a service provider is answered with \<open>failure\<close>.\<close>

definition with_provider ::
  "provisioning_Service \<Rightarrow> did \<Rightarrow> gerr \<Rightarrow> 's \<Rightarrow> ('s \<times> 'a response res) option \<Rightarrow> ('s \<times> 'a response res) option" where
  "with_provider P space failure s act =
     (case ListServiceProviders P space of
        None \<Rightarrow> None
      | Some (Err e) \<Rightarrow> Some (s, Err (Wrap ''listing service providers'' e))
      | Some Panic \<Rightarrow> Some (s, Panic)
      | Some (Ok provs) \<Rightarrow> (if length provs = 0 then Some (s, Ok (SetFailure failure)) else act))"

definition UploadAddHandler ::
  "forge_lib \<Rightarrow> formats \<Rightarrow> provisioning_Service \<Rightarrow> token \<Rightarrow> cid \<Rightarrow> cid option \<Rightarrow> cid list \<Rightarrow> clock \<Rightarrow>
   'z upload_store_scheme \<Rightarrow> ('z upload_store_scheme \<times> unit response res) option" where
  "UploadAddHandler L F P iv root index shardLinks clk s =
     with_provider P (tok_Subject iv) (Named (InsufficientStorageErrorName L) ''space has no service provider'') s
       (let (s, r) = upload_Upsert F (tok_Subject iv) root index shardLinks (tok_Task iv) clk s
        in Some (andThenS (s, wrap ''upserting upload'' r) (\<lambda>_ s. (s, Ok (SetSuccess None ())))))"

definition UploadRemoveHandler ::
  "formats \<Rightarrow> token \<Rightarrow> cid \<Rightarrow> clock \<Rightarrow> 'z upload_store_scheme \<Rightarrow> 'z upload_store_scheme \<times> unit response res" where
  "UploadRemoveHandler F iv root clk s =
     (case upload_Remove F (tok_Subject iv) root (tok_Task iv) clk s of
        (s, Panic) \<Rightarrow> (s, Panic)
      | (s, Err e) \<Rightarrow>
          (s, if errors_Is e ErrUploadNotFound then Ok (SetSuccess None ()) else Err (Wrap ''removing upload'' e))
      | (s, Ok _) \<Rightarrow> (s, Ok (SetSuccess None ())))"

text \<open>The options of a listing: \<^verbatim>\<open>int(*args.Size)\<close> reads the unsigned size as a signed integer.\<close>

definition list_options ::
  "(int \<Rightarrow> ListOption) \<Rightarrow> (string \<Rightarrow> ListOption) \<Rightarrow> uint64 option \<Rightarrow> string option \<Rightarrow> ListOption list" where
  "list_options withLimit withCursor size_arg cursor =
     (case size_arg of None \<Rightarrow> [] | Some n \<Rightarrow> [withLimit (sint n)]) @
     (case cursor of None \<Rightarrow> [] | Some c \<Rightarrow> [withCursor c])"

record 'a ListOK =
  list_Cursor :: "string option"
  list_Results :: "'a list"

definition UploadListHandler ::
  "formats \<Rightarrow> 'z upload_store_scheme \<Rightarrow> token \<Rightarrow> uint64 option \<Rightarrow> string option \<Rightarrow>
   (cid \<times> cid option) ListOK response res" where
  "UploadListHandler F s iv size_arg cursor =
     andThen (wrap ''listing uploads''
         (upload_List F s (tok_Subject iv) (list_options upload_WithListLimit upload_WithListCursor size_arg cursor)))
       (\<lambda>page. Ok (SetSuccess None \<lparr>list_Cursor = page_Cursor page,
          list_Results = map (\<lambda>r. (up_Root r, up_Index r)) (Results page)\<rparr>))"

definition UploadShardListHandler ::
  "formats \<Rightarrow> 'z upload_store_scheme \<Rightarrow> token \<Rightarrow> cid \<Rightarrow> uint64 option \<Rightarrow> string option \<Rightarrow> cid ListOK response res" where
  "UploadShardListHandler F s iv root size_arg cursor =
     andThen (wrap ''listing upload shards''
         (upload_ListShards F s (tok_Subject iv) root (list_options WithListShardsLimit WithListShardsCursor size_arg cursor)))
       (\<lambda>page. Ok (SetSuccess None \<lparr>list_Cursor = page_Cursor page, list_Results = Results page\<rparr>))"

text \<open>\<^verbatim>\<open>Unix()\<close>: whole seconds, rounded down.\<close>

definition unix_seconds :: "time \<Rightarrow> int" where
  "unix_seconds t = t div second"

definition BlobListHandler ::
  "formats \<Rightarrow> 'z blob_store_scheme \<Rightarrow> token \<Rightarrow> uint64 option \<Rightarrow> string option \<Rightarrow> (Blob \<times> int) ListOK response res" where
  "BlobListHandler F s iv size_arg cursor =
     andThen (wrap ''listing blobs''
         (blob_List F s (tok_Subject iv) (list_options blob_WithListLimit blob_WithListCursor size_arg cursor)))
       (\<lambda>page. Ok (SetSuccess None \<lparr>list_Cursor = page_Cursor page,
          list_Results = map (\<lambda>r. (ent_Blob r, unix_seconds (ent_InsertedAt r))) (Results page)\<rparr>))"

subsection \<open>Routing\<close>

text \<open>The candidates arrive as a map; \<open>candidates\<close> are its keys in the order Go ranges over them.\<close>

definition RoutingPutHandler ::
  "token \<Rightarrow> did list \<Rightarrow> time \<Rightarrow> routing_Service \<Rightarrow> routing_Service \<times> unit response res" where
  "RoutingPutHandler iv candidates now s =
     (case PutPolicy (tok_Subject iv) candidates (tok_Task iv) now s of
        (s, Panic) \<Rightarrow> (s, Panic)
      | (s, Err e) \<Rightarrow>
          (s, if hasErrorName e ''InvalidCandidates'' then Ok (SetFailure e) else Err (Wrap ''putting routing policy'' e))
      | (s, Ok _) \<Rightarrow> (s, Ok (SetSuccess None ())))"

definition RoutingUseHandler ::
  "handler_lib \<Rightarrow> forge_lib \<Rightarrow> provisioning_Service \<Rightarrow> token \<Rightarrow> did option \<Rightarrow> time \<Rightarrow> routing_Service \<Rightarrow>
   (routing_Service \<times> unit response res) option" where
  "RoutingUseHandler H L P iv policy now s =
     with_provider P (tok_Subject iv) (Named (InsufficientStorageErrorName L) ''space has no storage provider'') s
       (Some (case policy of
          None \<Rightarrow>
            (let (s, r) = ClearSpacePolicy (tok_Subject iv) s
             in andThenS (s, wrap ''clearing routing policy'' r) (\<lambda>_ s. (s, Ok (SetSuccess None ()))))
        | Some p \<Rightarrow>
            (case UseSpacePolicy (tok_Subject iv) p (tok_Task iv) now s of
               (s, Panic) \<Rightarrow> (s, Panic)
             | (s, Err e) \<Rightarrow>
                 (s, if errors_Is e ErrPolicyNotFound
                     then Ok (SetFailure (Named (UnknownPolicyErrorName H) ''routing policy not found''))
                     else Err (Wrap ''setting routing policy'' e))
             | (s, Ok _) \<Rightarrow> (s, Ok (SetSuccess None ())))))"

subsection \<open>Publishing an index\<close>

text \<open>\<^verbatim>\<open>pkg/indexerclient\<close>: the client of the indexer, an HTTP client with the DID of the indexer and the
  identity of the service as its issuer.\<close>

definition PublishIndexClaim ::
  "handler_lib \<Rightarrow> forge_lib \<Rightarrow> 'w node \<Rightarrow> Client \<Rightarrow> did \<Rightarrow> cid \<Rightarrow> container \<Rightarrow> 'w \<Rightarrow> 'w \<times> receipt res" where
  "PublishIndexClaim H L N c space index proofStore w =
     andThenS (w, wrap ''building proof chain'' (ProofChain L proofStore (issuer c) (RetrieveCommand H) space))
       (\<lambda>(prfs, prfLinks) w.
     andThenS (w, wrap ''creating indexer delegation'' (Retrieve_Delegate H (issuer c) (piriDID c) space))
       (\<lambda>indexerDelegation w.
     andThenS (w, wrap ''creating invocation''
         (Index_Invoke H (issuer c) (issuer c) index (piriDID c) (prfLinks @ [tok_Link indexerDelegation])))
       (\<lambda>iv w.
          let (w, r) = Execute L N c (IndexOK_Unmarshal H) iv
                \<lparr>ex_Delegations = prfs @ [indexerDelegation], ex_Invocations = [], ex_Receipts = []\<rparr> w
          in andThenS (w, wrap ''executing assert index invocation'' r) (\<lambda>(_, rcpt, _) w. (w, Ok rcpt)))))"

definition ErrIndexerNotConfigured :: gerr where
  "ErrIndexerNotConfigured = Named ''IndexerNotConfigured'' ''indexer is not configured''"

definition IndexAddHandler ::
  "handler_lib \<Rightarrow> forge_lib \<Rightarrow> 'w node \<Rightarrow> provisioning_Service \<Rightarrow> blob_store \<Rightarrow> Client option \<Rightarrow> token \<Rightarrow> container \<Rightarrow>
   cid \<Rightarrow> 'w \<Rightarrow> ('w \<times> unit response res) option" where
  "IndexAddHandler H L N P reg indexerClient iv meta index w =
     with_provider P (tok_Subject iv) (Named (InsufficientStorageErrorName L) ''space has no service provider'') w
       (Some (case blob_Get reg (tok_Subject iv) (cid_Hash L index) of
          Panic \<Rightarrow> (w, Panic)
        | Err e \<Rightarrow> (w, if errors_Is e ErrEntryNotFound then Ok (SetFailure (ErrIndexNotFound H)) else Err e)
        | Ok _ \<Rightarrow>
            (case indexerClient of
               None \<Rightarrow> (w, Ok (SetFailure ErrIndexerNotConfigured))
             | Some c \<Rightarrow>
                 (let (w, r) = PublishIndexClaim H L N c (tok_Subject iv) index meta w
                  in andThenS (w, wrap ''publishing index claim'' r) (\<lambda>_ w. (w, Ok (SetSuccess None ())))))))"

subsection \<open>Sampling usage\<close>

record SampleItem =
  item_Timestamp :: int
  item_BytesStored :: uint64
  item_BytesIngested :: uint64
  item_UploadCount :: uint64

record SampleOK =
  sample_From :: int
  sample_To :: int
  sample_Window :: int
  sample_Samples :: "SampleItem list"

definition MetricsSampleHandler ::
  "formats \<Rightarrow> (nat \<Rightarrow> 'z ledger_scheme) \<Rightarrow> time \<Rightarrow> token \<Rightarrow> int \<Rightarrow> int \<Rightarrow> int \<Rightarrow> SampleOK response res" where
  "MetricsSampleHandler F w now iv from to window =
     (case ParseRange from to window of
        Panic \<Rightarrow> Panic
      | Err e \<Rightarrow> Ok (SetFailure e)
      | Ok (from, to, window) \<Rightarrow>
          (case usage_Sample F w now (tok_Subject iv) from to window of
             Panic \<Rightarrow> Panic
           | Err e \<Rightarrow>
               (case errors_As_Named e of
                  Some named \<Rightarrow> Ok (SetFailure named)
                | None \<Rightarrow> Err (Wrap ''sampling space usage'' e))
           | Ok series \<Rightarrow>
               Ok (SetSuccess None \<lparr>sample_From = unix_seconds (From series), sample_To = unix_seconds (To series),
                 sample_Window = Window series div second,
                 sample_Samples = map (\<lambda>s. \<lparr>item_Timestamp = unix_seconds (End s), item_BytesStored = BytesStored s,
                    item_BytesIngested = BytesIngested s, item_UploadCount = UploadCount s\<rparr>) (Samples series)\<rparr>)))"

subsection \<open>What each handler moves\<close>

lemma PaymentPlan_customer: "is_Ok (PaymentPlan cs a) \<longleftrightarrow> a \<in> cust_Customer ` set cs"
  by (auto simp: PaymentPlan_def customer_Get_def ErrCustomerNotFound_def find_None_iff split: option.splits
      dest: find_SomeD)

lemma CustomerAdd_keeps:
  "is_Ok (PaymentPlan cs a) \<Longrightarrow> is_Ok (PaymentPlan (fst (CustomerAddHandler ident iv args now cs)) a)"
  unfolding PaymentPlan_customer
  by (auto simp: CustomerAddHandler_def customer_Add_def Let_def split: prod.splits res.splits if_splits)

lemma Provision_consumers:
  assumes "Provision F C account space prov cause s = (t, r)"
  shows "providers t = providers s \<and> (consumerStore t = consumerStore s \<or>
    (\<exists>c. con_Provider c = prov \<and> con_Customer c = account \<and> prov \<in> set (providers s) \<and>
       consumerStore t = (consumerStore s)(space := consumerStore s space @ [c])))"
proof (cases "prov \<in> set (providers s) \<and> is_Ok (NewSubscriptionID F C space)")
  case True
  then obtain i where i: "NewSubscriptionID F C space = Ok i" "prov \<in> set (providers s)"
    by (auto simp: is_Ok_iff)
  show ?thesis
    using assms unfolding Provision_eq [OF i(2,1)]
    by (auto simp: consumer_Add_def Let_def i(2) split: if_splits
        intro: exI [of _ "\<lparr>con_Provider = prov, con_Consumer = space, con_Customer = account,
          con_Subscription = i, con_Cause = cause\<rparr>"])
next
  case False
  with assms show ?thesis
    by (cases "NewSubscriptionID F C space") (auto simp: Provision_def split: if_splits)
qed

lemma ProviderAdd_cases:
  assumes "ProviderAddHandler H F C allow customers iv args s = (t, r)"
  shows "t = s \<or> (\<exists>account r'. parse_account H (tok_Subject iv) = Ok account \<and>
    (allow \<or> is_Ok (PaymentPlan customers account)) \<and>
    Provision F C account (padd_Consumer args) (padd_Provider args) (tok_Task iv) s = (t, r'))"
  using assms
  by (auto simp: ProviderAddHandler_def split: res.splits prod.splits option.splits if_splits)

lemma ListServiceProviders_none:
  assumes "provisioned_ok P" and "consumerStore P space = []"
  shows "ListServiceProviders P space = Some (Ok [])"
  using ListServiceProviders_all [OF assms(1), of space] assms(2) by (auto simp: MaxInt64_def)

lemma with_provider_Some:
  assumes "with_provider P space failure s act = Some (t, r)" and "provisioned_ok P" and "t \<noteq> s"
  shows "act = Some (t, r) \<and> consumerStore P space \<noteq> []"
  using assms ListServiceProviders_none [OF assms(2)]
  by (auto simp: with_provider_def split: option.splits res.splits if_splits)

lemma uploads_in_Upsert_other:
  "sp \<noteq> space \<Longrightarrow> uploads_in (fst (upload_Upsert F space root i sh cause clk s)) sp = uploads_in s sp"
  by (simp add: upload_Upsert_def Let_def)

lemma uploads_in_Remove:
  "uploads_in (fst (upload_Remove F space root cause clk s)) sp \<noteq> [] \<Longrightarrow> uploads_in s sp \<noteq> []"
  by (auto simp: upload_Remove_def Let_def split: option.splits if_splits)

lemma UploadAdd_uploads:
  assumes "UploadAddHandler L F P iv root index shs clk s = Some (t, r)" and "provisioned_ok P"
    and "uploads_in t sp \<noteq> []"
  shows "uploads_in s sp \<noteq> [] \<or> consumerStore P sp \<noteq> []"
proof (cases "t = s")
  case False
  from with_provider_Some [OF assms(1) [unfolded UploadAddHandler_def] assms(2) False] assms(3) show ?thesis
    using uploads_in_Upsert_other [of sp "tok_Subject iv" F root index shs "tok_Task iv" clk s]
    by (cases "sp = tok_Subject iv") (auto simp: case_prod_beta)
qed (use assms in simp)

lemma UploadRemove_uploads:
  assumes "UploadRemoveHandler F iv root clk s = (t, r)" and "uploads_in t sp \<noteq> []"
  shows "uploads_in s sp \<noteq> []"
  using assms uploads_in_Remove [of F "tok_Subject iv" root "tok_Task iv" clk s sp]
  by (auto simp: UploadRemoveHandler_def split: prod.splits res.splits)

lemma RoutingPut_spaces:
  "RoutingPutHandler iv candidates now s = (t, r) \<Longrightarrow> spaces (policyStore t) = spaces (policyStore s)"
  by (auto simp: RoutingPutHandler_def PutPolicy_def SetCandidates_def Let_def
      split: prod.splits res.splits if_splits option.splits)

lemma RoutingUse_spaces:
  assumes "RoutingUseHandler H L P iv policy now s = Some (t, r)" and "provisioned_ok P"
    and "spaces (policyStore t) sp \<noteq> None"
  shows "spaces (policyStore s) sp \<noteq> None \<or> consumerStore P sp \<noteq> []"
proof (cases "t = s")
  case False
  from with_provider_Some [OF assms(1) [unfolded RoutingUseHandler_def] assms(2) False] assms(3) show ?thesis
    by (cases "sp = tok_Subject iv")
      (auto simp: ClearSpacePolicy_def policy_ClearSpacePolicy_def UseSpacePolicy_def SetSpacePolicy_def Let_def
        split: prod.splits res.splits if_splits option.splits)
qed (use assms in simp)

subsection \<open>Only paid spaces are used\<close>

text \<open>The stores the handlers of this theory change, and one call of one of them. Provisioning without
  a payment plan is switched off.\<close>

record accounts =
  ac_customers :: customer_store
  ac_provisioning :: provisioning_Service
  ac_uploads :: upload_store
  ac_router :: routing_Service

inductive account_step ::
  "handler_lib \<Rightarrow> forge_lib \<Rightarrow> formats \<Rightarrow> cid_lib \<Rightarrow> did \<Rightarrow> accounts \<Rightarrow> accounts \<Rightarrow> bool" for H L F C ident where
  add_customer: "CustomerAddHandler ident iv args now (ac_customers s) = (cs, r) \<Longrightarrow>
    account_step H L F C ident s (s\<lparr>ac_customers := cs\<rparr>)"
| add_provider: "ProviderAddHandler H F C False (ac_customers s) iv pargs (ac_provisioning s) = (p, r') \<Longrightarrow>
    account_step H L F C ident s (s\<lparr>ac_provisioning := p\<rparr>)"
| add_upload: "UploadAddHandler L F (ac_provisioning s) iv root index shs clk (ac_uploads s) = Some (u, r) \<Longrightarrow>
    account_step H L F C ident s (s\<lparr>ac_uploads := u\<rparr>)"
| remove_upload: "UploadRemoveHandler F iv root clk (ac_uploads s) = (u, r) \<Longrightarrow>
    account_step H L F C ident s (s\<lparr>ac_uploads := u\<rparr>)"
| put_policy: "RoutingPutHandler iv candidates now (ac_router s) = (ro, r) \<Longrightarrow>
    account_step H L F C ident s (s\<lparr>ac_router := ro\<rparr>)"
| use_policy: "RoutingUseHandler H L (ac_provisioning s) iv policy now (ac_router s) = Some (ro, r) \<Longrightarrow>
    account_step H L F C ident s (s\<lparr>ac_router := ro\<rparr>)"

inductive_cases account_stepE: "account_step H L F C ident s t"

definition accounts_init :: "accounts \<Rightarrow> bool" where
  "accounts_init s \<longleftrightarrow> (\<exists>ps sps. s = \<lparr>ac_customers = customer_New,
     ac_provisioning = provisioning_NewService ps consumer_New subscription_New,
     ac_uploads = upload_New (blob_New empty_ledger), ac_router = routing_NewService sps policy_New\<rparr>)"

definition space_used :: "accounts \<Rightarrow> did \<Rightarrow> bool" where
  "space_used s space \<longleftrightarrow> uploads_in (ac_uploads s) space \<noteq> [] \<or> spaces (policyStore (ac_router s)) space \<noteq> None"

definition consumer_paid :: "accounts \<Rightarrow> consumer_Record \<Rightarrow> bool" where
  "consumer_paid s c \<longleftrightarrow> con_Provider c \<in> set (providers (ac_provisioning s)) \<and>
     is_Ok (PaymentPlan (ac_customers s) (con_Customer c))"

definition accounts_ok :: "accounts \<Rightarrow> bool" where
  "accounts_ok s \<longleftrightarrow> provisioned_ok (ac_provisioning s) \<and>
     (\<forall>space. \<forall>c \<in> set (consumerStore (ac_provisioning s) space). consumer_paid s c) \<and>
     (\<forall>space. space_used s space \<longrightarrow> consumerStore (ac_provisioning s) space \<noteq> [])"

lemma accounts_ok_init: "accounts_init s \<Longrightarrow> accounts_ok s"
  by (auto simp: accounts_init_def accounts_ok_def provisioned_ok_def provisioning_NewService_def consumers_ok_def
      consumer_New_def space_used_def routing_NewService_def policy_New_def upload_New_def blob_store.extend_def
      upload_store.fields_def)

lemma accounts_ok_provision:
  assumes ok: "accounts_ok s" and "is_Ok (PaymentPlan (ac_customers s) account)"
    and p: "Provision F C account space prov cause (ac_provisioning s) = (t, r)"
  shows "accounts_ok (s\<lparr>ac_provisioning := t\<rparr>)"
proof -
  have "provisioned_ok t"
    using ok provisioned_ok_Provision [of "ac_provisioning s" F C account space prov cause] p
    by (simp add: accounts_ok_def)
  with Provision_consumers [OF p] assms(1,2) show ?thesis
    by (auto simp: accounts_ok_def consumer_paid_def space_used_def split: if_splits)
qed

lemma accounts_ok_step:
  assumes "account_step H L F C ident s t" and ok: "accounts_ok s"
  shows "accounts_ok t"
  using assms(1)
proof (cases rule: account_step.cases)
  case (add_customer iv args now cs r)
  then have "is_Ok (PaymentPlan (ac_customers s) a) \<Longrightarrow> is_Ok (PaymentPlan cs a)" for a
    using CustomerAdd_keeps [of "ac_customers s" a ident iv args now] by simp
  with ok add_customer(1) show ?thesis
    by (auto simp: accounts_ok_def consumer_paid_def space_used_def)
next
  case (add_provider iv pargs p r')
  from ProviderAdd_cases [OF add_provider(2)] show ?thesis
    using accounts_ok_provision [OF ok] ok unfolding add_provider(1) by auto
next
  case (add_upload iv root index shs clk u r)
  with UploadAdd_uploads [OF add_upload(2)] ok show ?thesis
    by (auto simp: accounts_ok_def consumer_paid_def space_used_def)
next
  case (remove_upload iv root clk u r)
  with UploadRemove_uploads [OF remove_upload(2)] ok show ?thesis
    by (auto simp: accounts_ok_def consumer_paid_def space_used_def)
next
  case (put_policy iv candidates now ro r)
  with RoutingPut_spaces [OF put_policy(2)] ok show ?thesis
    by (auto simp: accounts_ok_def consumer_paid_def space_used_def)
next
  case (use_policy iv policy now ro r)
  have P: "provisioned_ok (ac_provisioning s)" using ok by (simp add: accounts_ok_def)
  have "space_used t sp \<Longrightarrow> consumerStore (ac_provisioning s) sp \<noteq> []" for sp
    using RoutingUse_spaces [OF use_policy(2) P, of sp] ok unfolding use_policy(1)
    by (auto simp: accounts_ok_def space_used_def)
  with ok show ?thesis
    unfolding use_policy(1) by (auto simp: accounts_ok_def consumer_paid_def)
qed

interpretation account_system: invariant_of accounts_init "account_step H L F C ident" accounts_ok for H L F C ident
  by unfold_locales (auto intro: accounts_ok_init accounts_ok_step)

text \<open>
Property C8. Only paid spaces are used. Whatever calls the customer, provider, upload and routing handlers
have served, in any order and with any arguments, a space that has an upload or references a routing policy
was provisioned by an account that has a payment plan, with a provider that is allowed.
\<close>

theorem used_spaces_paid:
  assumes "reachable accounts_init (account_step H L F C ident) s" and "space_used s space"
  shows "\<exists>c \<in> set (consumerStore (ac_provisioning s) space).
    con_Provider c \<in> set (providers (ac_provisioning s)) \<and> is_Ok (PaymentPlan (ac_customers s) (con_Customer c))"
proof -
  have ok: "accounts_ok s"
    using assms(1) by (rule account_system.reachable_inv)
  then have "consumerStore (ac_provisioning s) space \<noteq> []"
    using assms(2) by (simp add: accounts_ok_def)
  then obtain c where "c \<in> set (consumerStore (ac_provisioning s) space)"
    by (meson list.set_sel(1))
  with ok show ?thesis
    by (auto simp: accounts_ok_def consumer_paid_def)
qed

definition sample_handler_lib :: handler_lib where
  "sample_handler_lib = \<lparr>
     didmailto_Parse = (\<lambda>d. if take 11 d = ''did:mailto:'' then Ok d else Err (Errorf ''not a did:mailto'')),
     plc_Parse = (\<lambda>d. if take 8 d = ''did:plc:'' then Ok d else Err (Errorf ''not a did:plc'')),
     InvalidAccountErrorName = ''InvalidAccount'', ErrAccountPlanMissing = Named ''AccountPlanMissing'' '''',
     UnknownSpaceErrorName = ''UnknownSpace'', UnknownPolicyErrorName = ''UnknownPolicy'',
     ErrIndexNotFound = Named ''IndexNotFound'' '''', RetrieveCommand = ''/content/retrieve'',
     Retrieve_Delegate = (\<lambda>iss aud subj. Err (Errorf ''no key'')),
     Index_Invoke = (\<lambda>iss subj index aud auth. Err (Errorf ''no key'')),
     IndexOK_Unmarshal = (\<lambda>b. Ok ())\<rparr>"

definition sample_accounts :: accounts where
  "sample_accounts = \<lparr>ac_customers = customer_New,
     ac_provisioning = provisioning_NewService [''did:web:up''] consumer_New subscription_New,
     ac_uploads = upload_New (blob_New empty_ledger), ac_router = routing_NewService sp_New policy_New\<rparr>"

definition sample_account_calls :: "accounts \<Rightarrow> accounts \<times> accounts \<times> accounts" where
  "sample_account_calls s =
     (let s1 = s\<lparr>ac_customers := fst (CustomerAddHandler ''did:web:up''
            (sample_task\<lparr>tok_Subject := ''did:web:up''\<rparr>) \<lparr>cadd_Customer = ''did:mailto:a'', cadd_Product = ''did:web:free'',
              cadd_ExternalAccount = None, cadd_Details = Map.empty\<rparr> 5 (ac_customers s))\<rparr>;
          s2 = s1\<lparr>ac_provisioning := fst (ProviderAddHandler sample_handler_lib sample_formats sample_cid_lib False
            (ac_customers s1) (sample_task\<lparr>tok_Subject := ''did:mailto:a''\<rparr>)
            \<lparr>padd_Provider = ''did:web:up'', padd_Consumer = ''did:key:space''\<rparr> (ac_provisioning s1))\<rparr>;
          s3 = s2\<lparr>ac_uploads := fst (the (UploadAddHandler sample_lib sample_formats (ac_provisioning s2)
            (sample_task\<lparr>tok_Subject := ''did:key:space''\<rparr>) ''root'' None [''shard''] int (ac_uploads s2)))\<rparr>
      in (s1, s2, s3))"

lemma sample_accounts_reach:
  assumes "sample_account_calls sample_accounts = (s1, s2, s3)" and "UploadAddHandler sample_lib sample_formats
      (ac_provisioning s2) (sample_task\<lparr>tok_Subject := ''did:key:space''\<rparr>) ''root'' None [''shard''] int (ac_uploads s2) \<noteq> None"
  shows "reachable accounts_init (account_step sample_handler_lib sample_lib sample_formats sample_cid_lib ''did:web:up'') s3"
    (is "reachable _ ?step _")
proof -
  have "accounts_init sample_accounts"
    by (auto simp: accounts_init_def sample_accounts_def)
  then have "reachable accounts_init ?step sample_accounts" by (rule reach_init)
  moreover have "?step sample_accounts s1"
    using assms(1) by (auto simp: sample_account_calls_def Let_def intro!: add_customer intro: prod.collapse [symmetric])
  moreover have "?step s1 s2"
    using assms(1) by (auto simp: sample_account_calls_def Let_def intro!: add_provider intro: prod.collapse [symmetric])
  moreover have "?step s2 s3"
    using assms by (auto simp: sample_account_calls_def Let_def intro!: add_upload)
  ultimately show ?thesis by (blast intro: reach_step)
qed

theorem used_spaces_paid_witness:
  "\<exists>s. reachable accounts_init (account_step sample_handler_lib sample_lib sample_formats sample_cid_lib ''did:web:up'') s \<and>
     space_used s ''did:key:space'' \<and> (\<exists>c \<in> set (consumerStore (ac_provisioning s) ''did:key:space'').
       con_Provider c \<in> set (providers (ac_provisioning s)) \<and> is_Ok (PaymentPlan (ac_customers s) (con_Customer c)))"
proof -
  obtain s1 s2 s3 where c: "sample_account_calls sample_accounts = (s1, s2, s3)"
    by (cases "sample_account_calls sample_accounts")
  have "UploadAddHandler sample_lib sample_formats (ac_provisioning (fst (snd (sample_account_calls sample_accounts))))
      (sample_task\<lparr>tok_Subject := ''did:key:space''\<rparr>) ''root'' None [''shard''] int
      (ac_uploads (fst (snd (sample_account_calls sample_accounts)))) \<noteq> None"
    "uploads_in (ac_uploads (snd (snd (sample_account_calls sample_accounts)))) ''did:key:space'' \<noteq> []"
    by code_simp+
  with c have "space_used s3 ''did:key:space''"
    and r: "reachable accounts_init (account_step sample_handler_lib sample_lib sample_formats sample_cid_lib ''did:web:up'') s3"
    by (auto simp: space_used_def intro: sample_accounts_reach)
  with used_spaces_paid [OF r] show ?thesis by blast
qed

end
