(* ===== verification/Access_Handlers.thy ===== *)
theory Access_Handlers
  imports Space_Handlers
begin

section \<open>Handlers for access\<close>

text \<open>
  \<^verbatim>\<open>access_delegate.go\<close>, \<^verbatim>\<open>access_claim.go\<close>, \<^verbatim>\<open>access_request.go\<close> and \<^verbatim>\<open>access_confirm.go\<close> of
  \<^verbatim>\<open>pkg/service/handlers\<close>, and \<^verbatim>\<open>pkg/lib/ucan_server/email_auth.go\<close>: delegations are stored for their
  audience and claimed by it; a request for access sends the account a link that, when followed, has the
  service confirm it by issuing delegations from the account to the agent.

  \<open>access_lib\<close> holds the library functions used: what kind of token a token is, issuing a delegation or
  a confirmation, and the encodings. Metadata maps are kept as their bytes, empty for the empty map.
\<close>

record ConfirmArguments =
  conf_Issuer :: did
  conf_Audience :: did
  conf_Attenuations :: "string list"
  conf_Cause :: cid

record access_lib =
  DelegationNotFoundErrorName :: string
  InvalidAuthorizationAccountErrorName :: string
  ErrInvalidAccessConfirmSubject :: gerr
  ErrInvalidAccessConfirmIssuer :: gerr
  ConfirmCommand :: string
  command_Top :: string
  is_Delegation :: "token \<Rightarrow> bool"
  is_Invocation :: "token \<Rightarrow> bool"
  Delegate :: "did \<Rightarrow> did \<Rightarrow> did \<Rightarrow> string \<Rightarrow> cid \<times> cid \<Rightarrow> token res"
  Confirm_Invoke :: "did \<Rightarrow> did \<Rightarrow> ConfirmArguments \<Rightarrow> did \<Rightarrow> int \<Rightarrow> bytes \<Rightarrow> token res"
  ConfirmArguments_Unmarshal :: "bytes \<Rightarrow> ConfirmArguments res"
  metadata_Unmarshal :: "bytes \<Rightarrow> bytes res"
  container_Encode :: "container \<Rightarrow> string res"
  container_Decode :: "bytes \<Rightarrow> container res"
  didmailto_Email :: "did \<Rightarrow> string res"
  url_Parse :: "string \<Rightarrow> string res"

subsection \<open>Delegating\<close>

fun find_delegations :: "access_lib \<Rightarrow> (cid \<rightharpoonup> token) \<Rightarrow> cid list \<Rightarrow> token list res" where
  "find_delegations A all [] = Ok []"
| "find_delegations A all (link # links) =
     (case all link of
        None \<Rightarrow> Err (Named (DelegationNotFoundErrorName A) ''delegation not found'')
      | Some d \<Rightarrow> andThen (find_delegations A all links) (\<lambda>ds. Ok (d # ds)))"

definition extractDelegations :: "access_lib \<Rightarrow> cid list \<Rightarrow> container option \<Rightarrow> token list res" where
  "extractDelegations A links meta =
     (let all = (case meta of
          None \<Rightarrow> Map.empty
        | Some ct \<Rightarrow> index_by tok_Link (Delegations ct))
      in find_delegations A all links)"

definition AccessDelegateHandler ::
  "access_lib \<Rightarrow> forge_lib \<Rightarrow> provisioning_Service \<Rightarrow> token \<Rightarrow> cid list \<Rightarrow> container option \<Rightarrow> delegation_store \<Rightarrow>
   (delegation_store \<times> unit response res) option" where
  "AccessDelegateHandler A L P iv links meta s =
     with_provider P (tok_Subject iv) (Named (InsufficientStorageErrorName L) ''space has no storage provider'') s
       (Some (case extractDelegations A links meta of
          Panic \<Rightarrow> (s, Panic)
        | Err e \<Rightarrow> (s, Err e)
        | Ok dlgs \<Rightarrow> (PutMany dlgs (tok_Task iv) s, Ok (SetSuccess None ()))))"

subsection \<open>Claiming\<close>

text \<open>The delegations, their links, and the attestations found so far.\<close>

fun claim_tokens ::
  "access_lib \<Rightarrow> token list \<Rightarrow> token list \<times> cid list \<times> token list \<Rightarrow> token list \<times> cid list \<times> token list" where
  "claim_tokens A [] acc = acc"
| "claim_tokens A (t # ts) (dlgs, links, atts) =
     claim_tokens A ts
       (if is_Delegation A t then (dlgs @ [t], links @ [tok_Link t], atts)
        else if is_Invocation A t then (dlgs, links, atts @ [t])
        else (dlgs, links, atts))"

partial_function (option) claim_loop ::
  "access_lib \<Rightarrow> (string option \<Rightarrow> token Page res) \<Rightarrow> string option \<Rightarrow> token list \<times> cid list \<times> token list \<Rightarrow>
   (token list \<times> cid list \<times> token list) res option" where
  "claim_loop A getPage cursor acc =
     (case getPage cursor of
        Err e \<Rightarrow> Some (Err (Wrap ''listing delegations'' e))
      | Panic \<Rightarrow> Some Panic
      | Ok page \<Rightarrow>
          (let acc = claim_tokens A (Results page) acc in
           case page_Cursor page of
             None \<Rightarrow> Some (Ok acc)
           | Some c \<Rightarrow> claim_loop A getPage (Some c) acc))"

definition AccessClaimHandler ::
  "access_lib \<Rightarrow> formats \<Rightarrow> ucan_lib \<Rightarrow> delegation_store \<Rightarrow> token \<Rightarrow> cid list response res option" where
  "AccessClaimHandler A F U s iv =
     (case claim_loop A (\<lambda>cursor. ListByAudience F s (tok_Subject iv)
              (case cursor of None \<Rightarrow> [] | Some c \<Rightarrow> [WithListByAudienceCursor c])) None ([], [], []) of
        None \<Rightarrow> None
      | Some (Err e) \<Rightarrow> Some (Err e)
      | Some Panic \<Rightarrow> Some Panic
      | Some (Ok (dlgs, links, atts)) \<Rightarrow> Some (Ok (SetSuccess (Some (container_New U atts dlgs [])) links)))"

subsection \<open>Requesting\<close>

definition confirmationTTL :: duration where
  "confirmationTTL = 15 * 60 * second"

record ServerConfig =
  PublicURL :: string
  Host :: string
  Port :: nat

fun decimal :: "nat \<Rightarrow> string" where
  "decimal n = (if n < 10 then [char_of (48 + n)] else decimal (n div 10) @ [char_of (48 + n mod 10)])"

record RequestOK =
  reqok_Request :: cid
  reqok_Confirm :: cid
  reqok_Expiration :: int

text \<open>\<open>send email url w\<close> is \<^verbatim>\<open>mailer.SendValidation\<close>.\<close>

definition AccessRequestHandler ::
  "handler_lib \<Rightarrow> access_lib \<Rightarrow> ucan_lib \<Rightarrow> ServerConfig \<Rightarrow> did \<Rightarrow> (string \<Rightarrow> string \<Rightarrow> 'w \<Rightarrow> 'w \<times> unit res) \<Rightarrow> token \<Rightarrow>
   did \<Rightarrow> string list \<Rightarrow> bytes \<Rightarrow> time \<Rightarrow> 'w \<Rightarrow> 'w \<times> RequestOK response res" where
  "AccessRequestHandler H A U cfg ident send iv account_arg attenuations metaBytes now w =
     (let invalid = Named (InvalidAuthorizationAccountErrorName A) ''invalid authorization account DID'' in
      case didmailto_Parse H account_arg of
        Panic \<Rightarrow> (w, Panic)
      | Err _ \<Rightarrow> (w, Ok (SetFailure invalid))
      | Ok account \<Rightarrow>
          (case didmailto_Email A account of
             Panic \<Rightarrow> (w, Panic)
           | Err _ \<Rightarrow> (w, Ok (SetFailure invalid))
           | Ok email \<Rightarrow>
               (let exp = unix_seconds (now + confirmationTTL) in
                andThenS (w, if length metaBytes > 0
                             then wrap ''unmarshaling invocation metadata'' (metadata_Unmarshal A metaBytes) else Ok '''')
                  (\<lambda>meta w.
                andThenS (w, wrap ''creating confirmation delegation''
                     (Confirm_Invoke A ident ident \<lparr>conf_Issuer = account, conf_Audience = tok_Subject iv,
                        conf_Attenuations = attenuations, conf_Cause = tok_Task iv\<rparr> ident exp meta)) (\<lambda>confirmation w.
                andThenS (w, wrap ''formatting confirmation''
                     (container_Encode A (container_New U [confirmation] [] []))) (\<lambda>confirmationStr w.
                  let pubUrl = (if PublicURL cfg = '''' then ''http://'' @ Host cfg @ '':'' @ decimal (Port cfg)
                                else PublicURL cfg)
                  in andThenS (w, wrap ''parsing validation URL''
                         (url_Parse A (pubUrl @ ''/validate-email?ucan='' @ confirmationStr @ ''&mode=authorize''))) (\<lambda>url w.
                       let (w, r) = send email url w
                       in andThenS (w, wrap ''sending validation email'' r) (\<lambda>_ w.
                            (w, Ok (SetSuccess None \<lparr>reqok_Request = tok_Task iv, reqok_Confirm = tok_Task confirmation,
                                      reqok_Expiration = exp\<rparr>))))))))))"

subsection \<open>Confirming\<close>

fun attenuated :: "access_lib \<Rightarrow> did \<Rightarrow> did \<Rightarrow> string list \<Rightarrow> cid \<times> cid \<Rightarrow> token list res" where
  "attenuated A account agent [] meta = Ok []"
| "attenuated A account agent (c # cs) meta =
     andThen (wrap ''creating delegation'' (Delegate A account agent '''' c meta)) (\<lambda>dlg.
       andThen (attenuated A account agent cs meta) (\<lambda>dlgs. Ok (dlg # dlgs)))"

text \<open>The second result of \<^verbatim>\<open>createSessionProofs\<close> is always empty.\<close>

definition createSessionProofs ::
  "access_lib \<Rightarrow> did \<Rightarrow> did \<Rightarrow> string list \<Rightarrow> cid \<times> cid \<Rightarrow> (token list \<times> token list) res" where
  "createSessionProofs A account agent attenuations meta =
     andThen (wrap ''creating delegation'' (Delegate A account agent account (command_Top A) meta)) (\<lambda>accountDlg.
       andThen (attenuated A account agent attenuations meta) (\<lambda>dlgs. Ok (accountDlg # dlgs, [])))"

definition AccessConfirmHandler ::
  "handler_lib \<Rightarrow> access_lib \<Rightarrow> ucan_lib \<Rightarrow> did \<Rightarrow> token \<Rightarrow> ConfirmArguments \<Rightarrow> delegation_store \<Rightarrow>
   delegation_store \<times> cid list response res" where
  "AccessConfirmHandler H A U ident iv args s =
     (if tok_Subject iv \<noteq> ident then (s, Ok (SetFailure (ErrInvalidAccessConfirmSubject A)))
      else
        (case didmailto_Parse H (conf_Issuer args) of
           Panic \<Rightarrow> (s, Panic)
         | Err _ \<Rightarrow> (s, Ok (SetFailure (ErrInvalidAccessConfirmIssuer A)))
         | Ok account \<Rightarrow>
             andThenS (s, wrap ''creating session proofs''
                 (createSessionProofs A account (conf_Audience args) (conf_Attenuations args) (conf_Cause args, tok_Task iv)))
               (\<lambda>(delegations, _) s.
                  let s = PutMany delegations '''' s
                  in (s, Ok (SetSuccess (Some (container_New U [] delegations [])) (map tok_Link delegations))))))"

record AccessConfirmResult =
  acr_Email :: string
  acr_Audience :: string
  acr_UCAN :: string
  acr_Meta :: bytes

text \<open>\<open>exec\<close> is the executor, which dispatches to the handlers; \<open>metaBytes\<close> reads the metadata of the
  invocation. The result is undefined unless the receipt is a success.\<close>

definition ExecBase64urlAccessConfirm ::
  "access_lib \<Rightarrow> ucan_lib \<Rightarrow> (token \<Rightarrow> token list \<Rightarrow> receipt list \<Rightarrow> 'w \<Rightarrow> 'w \<times> (receipt \<times> container option) res) \<Rightarrow>
   (token \<Rightarrow> bytes) \<Rightarrow> bytes \<Rightarrow> 'w \<Rightarrow> 'w \<times> AccessConfirmResult res" where
  "ExecBase64urlAccessConfirm A U exec metaBytes input w =
     andThenS (w, wrap ''decoding UCAN container'' (container_Decode A input)) (\<lambda>inCt w.
       if length (Invocations inCt) \<noteq> 1 then (w, Err (Errorf ''unexpected number of invocations found in UCAN''))
       else
         (let confirmation = hd (Invocations inCt) in
          if tok_Command confirmation \<noteq> ConfirmCommand A then (w, Err (Errorf ''unexpected command in invocation''))
          else
            (let (w, r) = exec confirmation (Delegations inCt) (Receipts inCt) w
             in andThenS (w, wrap ''executing confirm task'' r) (\<lambda>(rcpt, meta) w.
                  if IsErr (rcpt_Out rcpt) then (w, Err (Errorf ''invocation failure''))
                  else
                    andThenS (w, wrap ''unmarshaling confirmation arguments''
                        (ConfirmArguments_Unmarshal A (tok_Arguments confirmation))) (\<lambda>confirmArgs w.
                    andThenS (w, wrap ''parsing account DID'' (didmailto_Email A (conf_Issuer confirmArgs))) (\<lambda>email w.
                      let outCt = (case meta of
                            None \<Rightarrow> container_New U [] [] [rcpt]
                          | Some ct \<Rightarrow> container_New U (Invocations ct) (Delegations ct) (rcpt # Receipts ct))
                      in andThenS (w, wrap ''encoding output UCAN container'' (container_Encode A outCt)) (\<lambda>output w.
                           (w, Ok \<lparr>acr_Email = email, acr_Audience = conf_Audience confirmArgs, acr_UCAN = output,
                                   acr_Meta = metaBytes confirmation\<rparr>))))))))"

subsection \<open>What is claimed\<close>

lemma claim_tokens_append: "claim_tokens A (xs @ ys) acc = claim_tokens A ys (claim_tokens A xs acc)"
  by (induction A xs acc rule: claim_tokens.induct) auto

lemma claim_tokens_all:
  assumes "\<forall>t \<in> set ts. is_Delegation A t"
  shows "claim_tokens A ts (dlgs, links, atts) = (dlgs @ ts, links @ map tok_Link ts, atts)"
  using assms by (induction ts arbitrary: dlgs links) auto

text \<open>Reading pages of tokens.\<close>

locale token_pager = pager wf items list_page resumes
  for wf :: "'s \<Rightarrow> bool" and items :: "'s \<Rightarrow> token list" and list_page and resumes
begin

lemma claim_loop_items:
  assumes "wf s" and "resumes s c p" and "p \<le> length (items s)" and pages: "\<And>c. getPage c = list_page s c"
  shows "claim_loop A getPage c (claim_tokens A (take p (items s)) acc) = Some (Ok (claim_tokens A (items s) acc))"
  using assms(2,3)
proof (induction "length (items s) - p" arbitrary: c p rule: less_induct)
  case less
  from \<open>wf s\<close> less.prems(1,2) show ?case
  proof (cases rule: serves_cases)
    case (last_page page)
    then show ?thesis
      by (simp add: claim_loop.simps pages claim_tokens_append [symmetric])
  next
    case (more page c' q)
    have "length (items s) - q < length (items s) - p"
      using more by linarith
    from less.hyps [OF this more(7) more(5)] more show ?thesis
      by (subst claim_loop.simps) (simp add: pages claim_tokens_append [symmetric])
  qed
qed

end

interpretation token_claims: token_pager token_list_wf token_items token_page token_resumes
  by unfold_locales

lemma AccessClaim_all:
  assumes F: "formats_ok F" and dist: "distinct (map tok_Link (s (tok_Subject iv)))"
    and dlg: "\<forall>t \<in> set (s (tok_Subject iv)). is_Delegation A t"
  shows "AccessClaimHandler A F U s iv = Some (Ok (SetSuccess (Some (container_New U [] (s (tok_Subject iv)) []))
    (map tok_Link (s (tok_Subject iv)))))"
proof -
  let ?v = "(F, s, tok_Subject iv, 1000 :: int)"
  have wf: "token_list_wf ?v"
    using F dist by (simp add: token_list_wf_def)
  have pages: "ListByAudience F s (tok_Subject iv) (case c of None \<Rightarrow> [] | Some k \<Rightarrow> [WithListByAudienceCursor k]) =
      token_page ?v c" for c
    by (cases c) (simp_all add: token_page_def ListByAudience_def WithListByAudienceLimit_def WithListByAudienceCursor_def)
  have start: "claim_tokens A (take 0 (token_items ?v)) ([], [], []) = ([], [], [])" by simp
  from token_claims.claim_loop_items [OF wf token_pages.resumes_start [OF wf], where getPage = "\<lambda>c. ListByAudience F s (tok_Subject iv)
      (case c of None \<Rightarrow> [] | Some k \<Rightarrow> [WithListByAudienceCursor k])" and A = A and acc = "([], [], [])"] pages
  show ?thesis
    by (simp add: AccessClaimHandler_def token_items_def claim_tokens_all [OF dlg])
qed

subsection \<open>What is delegated\<close>

lemma find_delegations_set:
  "find_delegations A all links = Ok ds \<Longrightarrow> map all links = map Some ds"
  by (induction links arbitrary: ds) (auto split: option.splits)

lemma extractDelegations_Ok:
  assumes "extractDelegations A links meta = Ok ds"
  shows "map tok_Link ds = links \<and> (\<forall>d \<in> set ds. \<exists>ct. meta = Some ct \<and> d \<in> set (Delegations ct))"
proof (cases meta)
  case None
  with find_delegations_set [of A Map.empty links ds] assms show ?thesis
    by (cases links) (auto simp: extractDelegations_def)
next
  case (Some ct)
  let ?all = "index_by tok_Link (Delegations ct)"
  have "map ?all links = map Some ds"
    using assms Some by (intro find_delegations_set [of A]) (simp add: extractDelegations_def)
  then have "map tok_Link ds = links \<and> set ds \<subseteq> set (Delegations ct)"
    using index_by_SomeD [of tok_Link "Delegations ct"]
    by (induction ds arbitrary: links) auto
  with Some show ?thesis by auto
qed

text \<open>
Property C12. Access that was delegated can be claimed. A delegation call that succeeds was for a
provisioned space and stores exactly the tokens it names, which came with the request, beside what was
stored. A claim for an audience then ends, however many pages it reads, and returns the tokens stored
for it before and the tokens delegated to it now, no others, with their links. A call for a space that is
not provisioned, or that names a token it did not send, stores nothing. The hypotheses are that links are
not repeated, and that tokens stored are delegations.
\<close>

theorem access_delegate_claim:
  assumes P: "provisioned_ok P" and F: "formats_ok F"
    and run: "AccessDelegateHandler A L P iv links meta s = Some (s', r)"
    and dist: "distinct (map tok_Link (s' (tok_Subject iv')))"
    and dlg: "\<forall>t \<in> set (s' (tok_Subject iv')). is_Delegation A t"
  shows "case r of
      Ok (SetSuccess m u) \<Rightarrow> consumerStore P (tok_Subject iv) \<noteq> [] \<and>
        (\<exists>ds. map tok_Link ds = links \<and> (\<forall>d \<in> set ds. \<exists>ct. meta = Some ct \<and> d \<in> set (Delegations ct)) \<and>
          mset (s' (tok_Subject iv')) = mset (s (tok_Subject iv')) +
            mset (filter (\<lambda>d. audience_of d = tok_Subject iv') ds) \<and>
          AccessClaimHandler A F U s' iv' = Some (Ok (SetSuccess
            (Some (container_New U [] (s' (tok_Subject iv')) [])) (map tok_Link (s' (tok_Subject iv'))))))
    | _ \<Rightarrow> s' = s"
proof -
  note claim = AccessClaim_all [where s = s' and iv = iv' and U = U, OF F dist dlg]
  show ?thesis
  proof (cases "ListServiceProviders P (tok_Subject iv)")
    case None
    with run show ?thesis by (simp add: AccessDelegateHandler_def with_provider_def)
  next
    case (Some l)
    show ?thesis
    proof (cases "\<exists>p ps. l = Ok (p # ps)")
      case True
      with Some ListServiceProviders_none [OF P, of "tok_Subject iv"] have "consumerStore P (tok_Subject iv) \<noteq> []"
        by auto
      moreover obtain p ps where l: "l = Ok (p # ps)" using True by blast
      moreover have "\<exists>ds. map tok_Link ds = links \<and> (\<forall>d \<in> set ds. \<exists>ct. meta = Some ct \<and> d \<in> set (Delegations ct)) \<and>
          mset (s' (tok_Subject iv')) = mset (s (tok_Subject iv')) + mset (filter (\<lambda>d. audience_of d = tok_Subject iv') ds)"
        if "extractDelegations A links meta = Ok ds" for ds
        using extractDelegations_Ok [OF that] run Some l that
        by (intro exI [of _ ds]) (auto simp: AccessDelegateHandler_def with_provider_def PutMany_mset)
      ultimately show ?thesis
        using Some run claim
        by (cases "extractDelegations A links meta") (auto simp: AccessDelegateHandler_def with_provider_def)
    next
      case False
      with Some run show ?thesis
        by (auto simp: AccessDelegateHandler_def with_provider_def neq_Nil_conv split: res.splits if_splits)
    qed
  qed
qed

definition sample_access_lib :: access_lib where
  "sample_access_lib = \<lparr>DelegationNotFoundErrorName = ''DelegationNotFound'',
     InvalidAuthorizationAccountErrorName = ''InvalidAuthorizationAccount'',
     ErrInvalidAccessConfirmSubject = Named ''InvalidSubject'' '''', ErrInvalidAccessConfirmIssuer = Named ''InvalidIssuer'' '''',
     ConfirmCommand = ''/access/confirm'', command_Top = ''/'', is_Delegation = (\<lambda>t. True), is_Invocation = (\<lambda>t. False),
     Delegate = (\<lambda>iss aud subj c meta. Ok \<lparr>tok_Link = iss @ aud @ c @ fst meta, tok_Task = c, tok_Issuer = iss,
       tok_Subject = subj, tok_Audience = aud, tok_Command = c, tok_Arguments = '''', tok_Nonce = '''', tok_Proofs = []\<rparr>),
     Confirm_Invoke = (\<lambda>iss subj args aud exp meta. Err (Errorf ''no key'')),
     ConfirmArguments_Unmarshal = (\<lambda>b. Err (Errorf ''no arguments'')), metadata_Unmarshal = Ok,
     container_Encode = (\<lambda>ct. Ok ''''), container_Decode = (\<lambda>b. Err (Errorf ''no container'')),
     didmailto_Email = (\<lambda>d. Ok (drop 11 d)), url_Parse = Ok\<rparr>"

definition sample_delegating :: "delegation_store \<times> unit response res" where
  "sample_delegating = the (AccessDelegateHandler sample_access_lib sample_lib sample_service
     (sample_task\<lparr>tok_Subject := ''did:key:space''\<rparr>) [''l1'', ''l2'']
     (Some \<lparr>Invocations = [], Delegations = [sample_token ''l1'' ''did:key:b'', sample_token ''l2'' ''did:key:c''], Receipts = []\<rparr>)
     delegation_New)"

theorem access_delegate_claim_witness:
  "snd sample_delegating = Ok (SetSuccess None ()) \<and>
   AccessClaimHandler sample_access_lib sample_formats sample_ucan_lib (fst sample_delegating)
     (sample_task\<lparr>tok_Subject := ''did:key:b''\<rparr>) =
     Some (Ok (SetSuccess (Some (container_New sample_ucan_lib [] [sample_token ''l1'' ''did:key:b''] [])) [''l1'']))"
proof -
  have r: "snd sample_delegating = Ok (SetSuccess None ())"
    and tokens: "fst sample_delegating ''did:key:b'' = [sample_token ''l1'' ''did:key:b'']"
    by code_simp+
  have ne: "(case AccessDelegateHandler sample_access_lib sample_lib sample_service
     (sample_task\<lparr>tok_Subject := ''did:key:space''\<rparr>) [''l1'', ''l2'']
     (Some \<lparr>Invocations = [], Delegations = [sample_token ''l1'' ''did:key:b'', sample_token ''l2'' ''did:key:c''], Receipts = []\<rparr>)
     delegation_New of None \<Rightarrow> False | Some x \<Rightarrow> True)"
    by code_simp
  then have run: "AccessDelegateHandler sample_access_lib sample_lib sample_service
     (sample_task\<lparr>tok_Subject := ''did:key:space''\<rparr>) [''l1'', ''l2'']
     (Some \<lparr>Invocations = [], Delegations = [sample_token ''l1'' ''did:key:b'', sample_token ''l2'' ''did:key:c''], Receipts = []\<rparr>)
     delegation_New = Some (fst sample_delegating, Ok (SetSuccess None ()))"
    using r by (auto simp: sample_delegating_def split: option.splits)
  have d: "distinct (map tok_Link (fst sample_delegating (tok_Subject (sample_task\<lparr>tok_Subject := ''did:key:b''\<rparr>))))"
    "\<forall>t \<in> set (fst sample_delegating (tok_Subject (sample_task\<lparr>tok_Subject := ''did:key:b''\<rparr>))). is_Delegation sample_access_lib t"
    by (simp_all add: tokens sample_access_lib_def)
  from access_delegate_claim [OF sample_service_ok sample_formats_ok run d, of sample_ucan_lib] r tokens show ?thesis
    by (auto simp: sample_token_def)
qed

subsection \<open>What is confirmed\<close>

text \<open>A delegation is issued from the issuer to the audience, for the subject and the command given.\<close>

definition delegates_ok :: "access_lib \<Rightarrow> bool" where
  "delegates_ok A \<longleftrightarrow> (\<forall>iss aud subj c meta d. Delegate A iss aud subj c meta = Ok d \<longrightarrow>
     tok_Issuer d = iss \<and> tok_Audience d = aud \<and> tok_Subject d = subj \<and> tok_Command d = c)"

lemma delegates_okD:
  assumes "delegates_ok A" and "Delegate A iss aud subj c meta = Ok d"
  shows "tok_Issuer d = iss" "tok_Audience d = aud" "tok_Subject d = subj" "tok_Command d = c"
  using assms unfolding delegates_ok_def by blast+

lemma attenuated_Ok:
  assumes "delegates_ok A" and "attenuated A account agent cs meta = Ok ds"
  shows "map tok_Command ds = cs \<and>
    (\<forall>d \<in> set ds. tok_Issuer d = account \<and> tok_Audience d = agent \<and> tok_Subject d = '''')"
  using assms(2)
proof (induction cs arbitrary: ds)
  case (Cons c cs)
  then obtain d ds' where d: "Delegate A account agent '''' c meta = Ok d" "attenuated A account agent cs meta = Ok ds'"
    "ds = d # ds'" by auto
  with Cons.IH [of ds'] delegates_okD [OF assms(1) d(1)] show ?case by simp
qed simp

lemma createSessionProofs_Ok:
  assumes "delegates_ok A" and "createSessionProofs A account agent cs meta = Ok (ds, as)"
  shows "as = [] \<and> map tok_Command ds = command_Top A # cs \<and> map tok_Subject ds = account # map (\<lambda>_. '''') cs \<and>
    (\<forall>d \<in> set ds. tok_Issuer d = account \<and> tok_Audience d = agent)"
proof -
  from assms(2) obtain a ds' where a: "Delegate A account agent account (command_Top A) meta = Ok a"
    "attenuated A account agent cs meta = Ok ds'" "ds = a # ds'" "as = []"
    by (auto simp: createSessionProofs_def)
  note at = attenuated_Ok [OF assms(1) a(2)]
  have "map tok_Subject ds' = map (\<lambda>_. '''') cs"
    using at by auto
  with a at delegates_okD [OF assms(1) a(1)] show ?thesis by simp
qed

text \<open>
Property C10. Only the service confirms access, and what it confirms can be claimed. A confirmation on another
subject, or for an account that is no mail address, is refused and stores nothing. One that succeeds issues delegations
from the account to the agent: first, always and whether asked for or not, one of every command (the top
command) on the account itself, with which the agent acts as the account; then, in order, one of each command asked for,
on any subject. It issues no others. They are stored for the agent and returned, and a claim of the agent then ends and
returns them with all it held before. The hypotheses are that the library issues what it is asked to, that links
are not repeated, and that the tokens held are delegations.
\<close>

theorem access_confirm_claim:
  assumes A: "delegates_ok A" and F: "formats_ok F" and agent: "conf_Audience args = tok_Subject iv'" "defined (tok_Subject iv')"
    and run: "AccessConfirmHandler H A U ident iv args s = (s', r)"
    and dist: "distinct (map tok_Link (s' (tok_Subject iv')))"
    and dlg: "\<forall>t \<in> set (s' (tok_Subject iv')). is_Delegation A t"
  shows "case r of
      Ok (SetSuccess m links) \<Rightarrow> tok_Subject iv = ident \<and>
        (\<exists>account ds. didmailto_Parse H (conf_Issuer args) = Ok account \<and> links = map tok_Link ds \<and>
          map tok_Command ds = command_Top A # conf_Attenuations args \<and>
          map tok_Subject ds = account # map (\<lambda>_. '''') (conf_Attenuations args) \<and>
          (\<forall>d \<in> set ds. tok_Issuer d = account \<and> tok_Audience d = tok_Subject iv') \<and>
          mset (s' (tok_Subject iv')) = mset (s (tok_Subject iv')) + mset ds \<and>
          AccessClaimHandler A F U s' iv' = Some (Ok (SetSuccess
            (Some (container_New U [] (s' (tok_Subject iv')) [])) (map tok_Link (s' (tok_Subject iv'))))))
    | _ \<Rightarrow> s' = s"
proof (cases "tok_Subject iv = ident \<and> is_Ok (didmailto_Parse H (conf_Issuer args)) \<and>
    is_Ok (createSessionProofs A (case didmailto_Parse H (conf_Issuer args) of Ok a \<Rightarrow> a) (conf_Audience args)
      (conf_Attenuations args) (conf_Cause args, tok_Task iv))")
  case True
  then obtain account ds as where ok: "tok_Subject iv = ident" "didmailto_Parse H (conf_Issuer args) = Ok account"
    "createSessionProofs A account (conf_Audience args) (conf_Attenuations args) (conf_Cause args, tok_Task iv) = Ok (ds, as)"
    by (auto simp: is_Ok_iff)
  note ds = createSessionProofs_Ok [OF A ok(3)]
  have "filter (\<lambda>d. audience_of d = tok_Subject iv') ds = ds"
    using ds agent by (intro filter_all) (auto simp: audience_of_def)
  moreover have run': "s' = PutMany ds '''' s" "r = Ok (SetSuccess (Some (container_New U [] ds [])) (map tok_Link ds))"
    using run ok by (auto simp: AccessConfirmHandler_def Let_def)
  ultimately have "mset (s' (tok_Subject iv')) = mset (s (tok_Subject iv')) + mset ds"
    by (simp add: PutMany_mset flip: mset_filter)
  with AccessClaim_all [where s = s' and iv = iv' and U = U, OF F dist dlg] ok(1,2) ds agent(1) run'(2) show ?thesis
    by (auto intro!: exI [of _ ds])
next
  case False
  with run show ?thesis
    by (cases "didmailto_Parse H (conf_Issuer args)"; cases "tok_Subject iv = ident";
        cases "createSessionProofs A (case didmailto_Parse H (conf_Issuer args) of Ok a \<Rightarrow> a) (conf_Audience args)
          (conf_Attenuations args) (conf_Cause args, tok_Task iv)")
      (auto simp: AccessConfirmHandler_def)
qed

definition sample_confirming :: "delegation_store \<times> cid list response res" where
  "sample_confirming = AccessConfirmHandler sample_handler_lib sample_access_lib sample_ucan_lib ''did:web:up''
     (sample_task\<lparr>tok_Subject := ''did:web:up''\<rparr>) \<lparr>conf_Issuer = ''did:mailto:a'', conf_Audience = ''did:key:b'',
       conf_Attenuations = [''/blob/add'', ''/upload/add''], conf_Cause = ''c1''\<rparr> delegation_New"

theorem access_confirm_claim_witness:
  "\<exists>ds. snd sample_confirming = Ok (SetSuccess (Some (container_New sample_ucan_lib [] ds [])) (map tok_Link ds)) \<and>
     map tok_Command ds = [''/'', ''/blob/add'', ''/upload/add''] \<and>
     is_Ok (the (AccessClaimHandler sample_access_lib sample_formats sample_ucan_lib (fst sample_confirming)
       (sample_task\<lparr>tok_Subject := ''did:key:b''\<rparr>)))"
proof -
  let ?args = "\<lparr>conf_Issuer = ''did:mailto:a'', conf_Audience = ''did:key:b'',
       conf_Attenuations = [''/blob/add'', ''/upload/add''], conf_Cause = ''c1''\<rparr>"
  let ?iv = "sample_task\<lparr>tok_Subject := ''did:key:b''\<rparr>"
  have A: "delegates_ok sample_access_lib"
    by (simp add: delegates_ok_def sample_access_lib_def)
  have run: "AccessConfirmHandler sample_handler_lib sample_access_lib sample_ucan_lib ''did:web:up''
     (sample_task\<lparr>tok_Subject := ''did:web:up''\<rparr>) ?args delegation_New = (fst sample_confirming, snd sample_confirming)"
    by (simp add: sample_confirming_def)
  have d: "distinct (map tok_Link (fst sample_confirming (tok_Subject ?iv)))"
    by code_simp
  have agent: "conf_Audience ?args = tok_Subject ?iv" "defined (tok_Subject ?iv)"
    by (simp_all add: defined_def)
  have dl: "\<forall>t \<in> set (fst sample_confirming (tok_Subject ?iv)). is_Delegation sample_access_lib t"
    by (simp add: sample_access_lib_def)
  have eq: "case snd sample_confirming of Ok (SetSuccess m links) \<Rightarrow>
      m = Some (container_New sample_ucan_lib [] (Delegations (the m)) []) \<and> links = map tok_Link (Delegations (the m)) \<and>
      map tok_Command (Delegations (the m)) = [''/'', ''/blob/add'', ''/upload/add''] | _ \<Rightarrow> False"
    by code_simp
  from access_confirm_claim [OF A sample_formats_ok agent run d dl] eq show ?thesis
    by (auto split: res.splits response.splits)
qed

end
