(* ===== verification/Admin_Handlers.thy ===== *)
theory Admin_Handlers
  imports Access_Handlers
begin

section \<open>Handlers for the operator\<close>

text \<open>
  The \<^verbatim>\<open>admin_provider_*.go\<close> handlers of \<^verbatim>\<open>pkg/service/handlers\<close>: the service identity registers storage
  nodes, takes them out, lists them, and replaces their weights and proofs. \<open>PDPInfo\<close> is the command of
  \<^verbatim>\<open>pdpcmds.Info\<close>, declared outside the repository; a \<^verbatim>\<open>url.URL\<close> is its string form.
\<close>

record RegisterArguments =
  reg_Provider :: did
  reg_Endpoint :: string
  reg_Proofs :: bytes

record SetArguments =
  set_Provider :: did
  set_Weight :: int64
  set_ReplicationWeight :: int64

record Provider =
  pv_Provider :: did
  pv_Endpoint :: string
  pv_Weight :: int64
  pv_ReplicationWeight :: int64

definition initialWeight :: int where
  "initialWeight = 0"

definition initialReplicationWeight :: int where
  "initialReplicationWeight = 0"

definition requiredProofs :: "forge_lib \<Rightarrow> string \<Rightarrow> string list" where
  "requiredProofs L PDPInfo =
     [Command L AllocateCmd, Command L AcceptCmd, Command L ReleaseCmd, Command L RejectCmd,
      Command L ReplicaAllocateCmd, PDPInfo]"

text \<open>The loop over the required commands; the value of the Go function is the error, if any.\<close>

fun verify_loop :: "forge_lib \<Rightarrow> did \<Rightarrow> did \<Rightarrow> container \<Rightarrow> string list \<Rightarrow> unit res" where
  "verify_loop L service provider proofs [] = Ok ()"
| "verify_loop L service provider proofs (c # cs) =
     (case ProofChain L proofs service c provider of
        Panic \<Rightarrow> Panic
      | Err _ \<Rightarrow> Err (Named ''InvalidProofs'' ''building proof chain'')
      | Ok (chain, _) \<Rightarrow>
          (if length chain = 0 then Err (Named ''InvalidProofs'' ''missing required delegation'')
           else verify_loop L service provider proofs cs))"

definition verifyProviderProofs :: "forge_lib \<Rightarrow> string \<Rightarrow> did \<Rightarrow> did \<Rightarrow> container \<Rightarrow> unit res" where
  "verifyProviderProofs L PDPInfo service provider proofs =
     verify_loop L service provider proofs (requiredProofs L PDPInfo)"

definition AdminProviderRegisterHandler ::
  "access_lib \<Rightarrow> forge_lib \<Rightarrow> string \<Rightarrow> did \<Rightarrow> token \<Rightarrow> RegisterArguments \<Rightarrow> time \<Rightarrow> provider_store \<Rightarrow>
   provider_store \<times> unit response res" where
  "AdminProviderRegisterHandler A L PDPInfo ident iv args now s =
     (if tok_Issuer iv \<noteq> ident
      then (s, Ok (SetFailure (Named ''Unauthorized'' ''only the service identity can register providers'')))
      else
        (case url_Parse A (reg_Endpoint args) of
           Panic \<Rightarrow> (s, Panic)
         | Err _ \<Rightarrow> (s, Ok (SetFailure (Named ''InvalidEndpoint'' ''parsing endpoint'')))
         | Ok url \<Rightarrow>
             (case container_Decode A (reg_Proofs args) of
                Panic \<Rightarrow> (s, Panic)
              | Err _ \<Rightarrow> (s, Ok (SetFailure (Named ''InvalidProofs'' ''decoding proofs'')))
              | Ok proofs \<Rightarrow>
                  (case verifyProviderProofs L PDPInfo ident (reg_Provider args) proofs of
                     Panic \<Rightarrow> (s, Panic)
                   | Err e \<Rightarrow> (s, Ok (SetFailure e))
                   | Ok _ \<Rightarrow>
                       (case sp_Add (reg_Provider args) url initialWeight (Some initialReplicationWeight) (Some proofs)
                               now s of
                          (s, Panic) \<Rightarrow> (s, Panic)
                        | (s, Err e) \<Rightarrow>
                            (s, if errors_Is e ErrStorageProviderExists
                                then Ok (SetFailure (Named ''ProviderAlreadyRegistered''
                                       ''a provider with this DID is already registered''))
                                else Err e)
                        | (s, Ok _) \<Rightarrow> (s, Ok (SetSuccess None ())))))))"

definition AdminProviderDeregisterHandler ::
  "did \<Rightarrow> token \<Rightarrow> did \<Rightarrow> provider_store \<Rightarrow> provider_store \<times> unit response res" where
  "AdminProviderDeregisterHandler ident iv provider s =
     (if tok_Issuer iv \<noteq> ident
      then (s, Ok (SetFailure (Named ''Unauthorized'' ''only the service identity can deregister a provider'')))
      else
        (case sp_Delete provider s of
           (s, Panic) \<Rightarrow> (s, Panic)
         | (s, Err e) \<Rightarrow> (s, if errors_Is e ErrStorageProviderNotFound then Ok (SetFailure e) else Err e)
         | (s, Ok _) \<Rightarrow> (s, Ok (SetSuccess None ()))))"

text \<open>\<open>order\<close> is the order in which the store ranges over its map.\<close>

definition list_provider :: "provider_Record \<Rightarrow> Provider" where
  "list_provider p =
     (let replicationWeight = (case sp_ReplicationWeight p of None \<Rightarrow> sp_Weight p | Some w \<Rightarrow> w)
      in \<lparr>pv_Provider = sp_Provider p, pv_Endpoint = sp_Endpoint p, pv_Weight = word_of_int (sp_Weight p),
          pv_ReplicationWeight = word_of_int replicationWeight\<rparr>)"

definition AdminProviderListHandler ::
  "did \<Rightarrow> token \<Rightarrow> did list \<Rightarrow> provider_store \<Rightarrow> Provider list response res option" where
  "AdminProviderListHandler ident iv order s =
     (if tok_Issuer iv \<noteq> ident
      then Some (Ok (SetFailure (Named ''Unauthorized'' ''only the service identity can list providers'')))
      else
        (case store_Collect (\<lambda>options. sp_List s order
                (case Cursor options of None \<Rightarrow> [] | Some c \<Rightarrow> [sp_WithListCursor c])) of
           None \<Rightarrow> None
         | Some Panic \<Rightarrow> Some Panic
         | Some (Err e) \<Rightarrow> Some (Err e)
         | Some (Ok records) \<Rightarrow> Some (Ok (SetSuccess None (map list_provider records)))))"

definition AdminProviderProofsSetHandler ::
  "access_lib \<Rightarrow> forge_lib \<Rightarrow> string \<Rightarrow> did \<Rightarrow> token \<Rightarrow> did \<Rightarrow> bytes \<Rightarrow> time \<Rightarrow> provider_store \<Rightarrow>
   provider_store \<times> unit response res" where
  "AdminProviderProofsSetHandler A L PDPInfo ident iv provider proofBytes now s =
     (if tok_Issuer iv \<noteq> ident
      then (s, Ok (SetFailure (Named ''Unauthorized'' ''only the service identity can set provider proofs'')))
      else
        (case container_Decode A proofBytes of
           Panic \<Rightarrow> (s, Panic)
         | Err _ \<Rightarrow> (s, Ok (SetFailure (Named ''InvalidProofs'' ''decoding proofs'')))
         | Ok ct \<Rightarrow>
             (case verifyProviderProofs L PDPInfo ident provider ct of
                Panic \<Rightarrow> (s, Panic)
              | Err e \<Rightarrow> (s, Ok (SetFailure e))
              | Ok _ \<Rightarrow>
                  (case sp_SetProofs provider (Some ct) now s of
                     (s, Panic) \<Rightarrow> (s, Panic)
                   | (s, Err e) \<Rightarrow>
                       (s, if errors_Is e ErrStorageProviderNotFound
                           then Ok (SetFailure (Named ''ProviderNotFound'' ''provider is not registered''))
                           else Err e)
                   | (s, Ok _) \<Rightarrow> (s, Ok (SetSuccess None ()))))))"

definition AdminProviderWeightSetHandler ::
  "did \<Rightarrow> token \<Rightarrow> SetArguments \<Rightarrow> time \<Rightarrow> provider_store \<Rightarrow> provider_store \<times> unit response res" where
  "AdminProviderWeightSetHandler ident iv args now s =
     (if tok_Issuer iv \<noteq> ident
      then (s, Ok (SetFailure (Named ''Unauthorized'' ''only the service identity can set provider weights'')))
      else
        (case sp_SetWeights (set_Provider args) (sint (set_Weight args)) (Some (sint (set_ReplicationWeight args))) now s of
           (s, Panic) \<Rightarrow> (s, Panic)
         | (s, Err e) \<Rightarrow>
             (s, if errors_Is e ErrStorageProviderNotFound
                 then Ok (SetFailure (Named ''Failed to get existing provider'' ''storage provider not found''))
                 else Err e)
         | (s, Ok _) \<Rightarrow> (s, Ok (SetSuccess None ()))))"

subsection \<open>Who is registered\<close>

text \<open>Proofs that let the service act on the provider for every required command.\<close>

definition proofs_suffice :: "forge_lib \<Rightarrow> string \<Rightarrow> did \<Rightarrow> did \<Rightarrow> container \<Rightarrow> bool" where
  "proofs_suffice L PDPInfo service provider proofs \<longleftrightarrow>
     (\<forall>c \<in> set (requiredProofs L PDPInfo). \<exists>chain links.
        ProofChain L proofs service c provider = Ok (chain, links) \<and> chain \<noteq> [])"

lemma verify_loop_Ok:
  "verify_loop L service provider proofs cs = Ok () \<longleftrightarrow>
     (\<forall>c \<in> set cs. \<exists>chain links. ProofChain L proofs service c provider = Ok (chain, links) \<and> chain \<noteq> [])"
  by (induction cs) (auto split: res.splits)

lemma verifyProviderProofs_Ok:
  "verifyProviderProofs L PDPInfo service provider proofs = Ok u \<longleftrightarrow> proofs_suffice L PDPInfo service provider proofs"
  by (simp add: verifyProviderProofs_def proofs_suffice_def verify_loop_Ok)

definition proved_ok :: "forge_lib \<Rightarrow> string \<Rightarrow> did \<Rightarrow> provider_store \<Rightarrow> bool" where
  "proved_ok L PDPInfo ident s \<longleftrightarrow> providers_ok s \<and>
     (\<forall>i r. s i = Some r \<longrightarrow> proofs_suffice L PDPInfo ident i (sp_Proofs r))"

lemma proved_ok_Add:
  assumes "proved_ok L I ident s" and "proofs_suffice L I ident i pf"
  shows "proved_ok L I ident (fst (sp_Add i e w rw (Some pf) now s))"
  using assms by (auto simp: proved_ok_def inv_intros sp_Add_def providers_ok_def)

lemma proved_ok_SetProofs:
  assumes "proved_ok L I ident s" and "proofs_suffice L I ident i pf"
  shows "proved_ok L I ident (fst (sp_SetProofs i (Some pf) now s))"
  using assms by (auto simp: proved_ok_def sp_SetProofs_def providers_ok_def split: option.splits)

lemma proved_ok_others:
  assumes "proved_ok L I ident s"
  shows "proved_ok L I ident (fst (sp_Delete i s))" "proved_ok L I ident (fst (sp_SetWeights i w rw now s))"
  using assms by (auto simp: proved_ok_def sp_Delete_def sp_SetWeights_def providers_ok_def split: option.splits)

text \<open>What each handler leaves in the store: the state it found, or that state after one store operation
  with the arguments it checked.\<close>

lemma Register_store:
  assumes "AdminProviderRegisterHandler A L I ident iv args now s = (t, r)"
  shows "t = s \<or> (\<exists>url pf. tok_Issuer iv = ident \<and> proofs_suffice L I ident (reg_Provider args) pf \<and>
    t = fst (sp_Add (reg_Provider args) url 0 (Some 0) (Some pf) now s))"
proof (cases "tok_Issuer iv = ident \<and> is_Ok (url_Parse A (reg_Endpoint args)) \<and> is_Ok (container_Decode A (reg_Proofs args))")
  case True
  then obtain url pf where ok: "tok_Issuer iv = ident" "url_Parse A (reg_Endpoint args) = Ok url"
    "container_Decode A (reg_Proofs args) = Ok pf" by (auto simp: is_Ok_iff)
  show ?thesis
  proof (cases "verifyProviderProofs L I ident (reg_Provider args) pf")
    case (Ok u)
    then have "t = fst (sp_Add (reg_Provider args) url 0 (Some 0) (Some pf) now s)"
      using assms ok by (auto simp: AdminProviderRegisterHandler_def initialWeight_def initialReplicationWeight_def
          split: res.splits prod.splits)
    with Ok ok(1) show ?thesis by (auto simp: verifyProviderProofs_Ok)
  qed (use assms ok in \<open>simp_all add: AdminProviderRegisterHandler_def\<close>)
qed (use assms in \<open>auto simp: AdminProviderRegisterHandler_def is_Ok_iff split: res.splits if_splits\<close>)

lemma Deregister_store:
  "AdminProviderDeregisterHandler ident iv i s = (t, r) \<Longrightarrow> t = s \<or> tok_Issuer iv = ident \<and> t = fst (sp_Delete i s)"
  by (auto simp: AdminProviderDeregisterHandler_def split: res.splits prod.splits if_splits)

lemma ProofsSet_store:
  assumes "AdminProviderProofsSetHandler A L I ident iv i b now s = (t, r)"
  shows "t = s \<or> (\<exists>pf. tok_Issuer iv = ident \<and> proofs_suffice L I ident i pf \<and> t = fst (sp_SetProofs i (Some pf) now s))"
proof (cases "tok_Issuer iv = ident \<and> is_Ok (container_Decode A b)")
  case True
  then obtain pf where ok: "tok_Issuer iv = ident" "container_Decode A b = Ok pf" by (auto simp: is_Ok_iff)
  show ?thesis
  proof (cases "verifyProviderProofs L I ident i pf")
    case (Ok u)
    then have "t = fst (sp_SetProofs i (Some pf) now s)"
      using assms ok by (auto simp: AdminProviderProofsSetHandler_def split: res.splits prod.splits)
    with Ok ok(1) show ?thesis by (auto simp: verifyProviderProofs_Ok)
  qed (use assms ok in \<open>simp_all add: AdminProviderProofsSetHandler_def\<close>)
qed (use assms in \<open>auto simp: AdminProviderProofsSetHandler_def is_Ok_iff split: res.splits if_splits\<close>)

lemma WeightSet_store:
  "AdminProviderWeightSetHandler ident iv args now s = (t, r) \<Longrightarrow> t = s \<or> tok_Issuer iv = ident \<and>
     t = fst (sp_SetWeights (set_Provider args) (sint (set_Weight args)) (Some (sint (set_ReplicationWeight args))) now s)"
  by (auto simp: AdminProviderWeightSetHandler_def split: res.splits prod.splits if_splits)

text \<open>One call of one of the handlers, by whom it likes.\<close>

inductive admin_step :: "access_lib \<Rightarrow> forge_lib \<Rightarrow> string \<Rightarrow> did \<Rightarrow> provider_store \<Rightarrow> provider_store \<Rightarrow> bool"
  for A L PDPInfo ident where
  admin_register: "AdminProviderRegisterHandler A L PDPInfo ident iv args now s = (t, r) \<Longrightarrow> admin_step A L PDPInfo ident s t"
| admin_deregister: "AdminProviderDeregisterHandler ident iv i s = (t, r) \<Longrightarrow> admin_step A L PDPInfo ident s t"
| admin_proofs: "AdminProviderProofsSetHandler A L PDPInfo ident iv i b now s = (t, r) \<Longrightarrow> admin_step A L PDPInfo ident s t"
| admin_weights: "AdminProviderWeightSetHandler ident iv sargs now s = (t, r) \<Longrightarrow> admin_step A L PDPInfo ident s t"

interpretation admin_system: invariant_of "\<lambda>s. s = sp_New" "admin_step A L PDPInfo ident" "proved_ok L PDPInfo ident"
  for A L PDPInfo ident
proof unfold_locales
  fix s t
  show "s = sp_New \<Longrightarrow> proved_ok L PDPInfo ident s"
    by (simp add: proved_ok_def providers_ok_def sp_New_def)
  assume ok: "proved_ok L PDPInfo ident s" and "admin_step A L PDPInfo ident s t"
  from this(2) show "proved_ok L PDPInfo ident t"
    using ok by cases (auto dest!: Register_store Deregister_store ProofsSet_store WeightSet_store
        intro: proved_ok_Add proved_ok_SetProofs proved_ok_others)
qed

subsection \<open>What the operator sees and who the operator is\<close>

lemma AdminProviderList_all:
  assumes "providers_ok s" and "enumerates order s"
  shows "AdminProviderListHandler (tok_Issuer iv) iv order s =
    Some (Ok (SetSuccess None (map list_provider (provider_records s order))))"
proof -
  have "store_Collect (\<lambda>options. sp_List s order (case Cursor options of None \<Rightarrow> [] | Some c \<Rightarrow> [sp_WithListCursor c])) =
      Some (Ok (provider_records s order))"
    using provider_pages.collect_items [of "(s, order)"] assms
    by (simp add: provider_list_wf_def provider_items_def provider_page_def)
  then show ?thesis by (simp add: AdminProviderListHandler_def)
qed

definition unauthorized :: "'a response res \<Rightarrow> bool" where
  "unauthorized r \<longleftrightarrow> (\<exists>m. r = Ok (SetFailure (Named ''Unauthorized'' m)))"

lemma admin_unauthorized:
  assumes "tok_Issuer iv \<noteq> ident"
  shows "fst (AdminProviderRegisterHandler A L I ident iv args now s) = s \<and>
      unauthorized (snd (AdminProviderRegisterHandler A L I ident iv args now s))"
    and "fst (AdminProviderDeregisterHandler ident iv i s) = s \<and>
      unauthorized (snd (AdminProviderDeregisterHandler ident iv i s))"
    and "fst (AdminProviderProofsSetHandler A L I ident iv i b now s) = s \<and>
      unauthorized (snd (AdminProviderProofsSetHandler A L I ident iv i b now s))"
    and "fst (AdminProviderWeightSetHandler ident iv sargs now s) = s \<and>
      unauthorized (snd (AdminProviderWeightSetHandler ident iv sargs now s))"
    and "\<exists>r. AdminProviderListHandler ident iv order s = Some r \<and> unauthorized r"
  using assms
  by (simp_all add: unauthorized_def AdminProviderRegisterHandler_def AdminProviderDeregisterHandler_def
      AdminProviderProofsSetHandler_def AdminProviderWeightSetHandler_def AdminProviderListHandler_def)

text \<open>A listed weight is the weight that was set, since both directions are the same 64 bits.\<close>

lemma weights_shown:
  assumes "AdminProviderWeightSetHandler ident iv args now s = (t, Ok (SetSuccess m u))"
  shows "\<exists>r. t (set_Provider args) = Some r \<and> pv_Weight (list_provider r) = set_Weight args \<and>
    pv_ReplicationWeight (list_provider r) = set_ReplicationWeight args \<and>
    (\<forall>j. j \<noteq> set_Provider args \<longrightarrow> t j = s j)"
proof (cases "s (set_Provider args)")
  case (Some r)
  with assms have "t = s(set_Provider args \<mapsto> r\<lparr>sp_Weight := sint (set_Weight args),
      sp_ReplicationWeight := Some (sint (set_ReplicationWeight args)), sp_UpdatedAt := now\<rparr>)"
    by (auto simp: AdminProviderWeightSetHandler_def sp_SetWeights_def split: if_splits)
  then show ?thesis by (simp add: list_provider_def)
qed (use assms in \<open>auto simp: AdminProviderWeightSetHandler_def sp_SetWeights_def split: if_splits\<close>)

lemma Register_new:
  assumes "AdminProviderRegisterHandler A L I ident iv args now s = (t, Ok (SetSuccess m u))"
  shows "s (reg_Provider args) = None \<and> (\<exists>r. t = s(reg_Provider args \<mapsto> r) \<and> sp_Weight r = 0)"
proof -
  from assms obtain url pf where "url_Parse A (reg_Endpoint args) = Ok url" "container_Decode A (reg_Proofs args) = Ok pf"
    "verifyProviderProofs L I ident (reg_Provider args) pf = Ok ()"
    by (auto simp: AdminProviderRegisterHandler_def split: if_splits res.splits)
  with assms show ?thesis
    by (auto simp: AdminProviderRegisterHandler_def sp_Add_def initialWeight_def split: if_splits)
qed

text \<open>
  What the proofs of a provider are for: with a client of the service for the provider, and signing that does not
  fail, an invocation is issued and carries the chain that was found for its command.
\<close>

definition issues :: "(token \<times> token list) res \<Rightarrow> bool" where
  "issues r \<longleftrightarrow> (\<exists>iv prfs. r = Ok (iv, prfs) \<and> prfs \<noteq> [])"

definition signs :: "forge_lib \<Rightarrow> bool" where
  "signs L \<longleftrightarrow> (\<forall>ident subject args options. \<exists>iv. Invoke L ident subject args options = Ok iv)"

lemma proofs_issue:
  assumes ok: "proofs_suffice L PDPInfo (issuer client) (piriDID client) proofs" and "signs L"
  shows "issues (AllocateInvocation L client areq proofs options)"
    and "issues (AcceptInvocation L client now creq proofs options)"
    and "issues (ReleaseInvocation L client lreq proofs options)"
    and "issues (RejectInvocation L client jreq proofs options)"
proof -
  have chain: "\<exists>chain links. ProofChain L proofs (issuer client) (Command L c) (piriDID client) = Ok (chain, links) \<and> chain \<noteq> []"
    if "c \<in> {AllocateCmd, AcceptCmd, ReleaseCmd, RejectCmd}" for c
    using ok that by (auto simp: proofs_suffice_def requiredProofs_def)
  have sign: "\<exists>iv. Invoke L ident subject args options = Ok iv" for ident subject args options
    using assms(2) by (simp add: signs_def)
  note defs = issues_def Let_def
  show "issues (AllocateInvocation L client areq proofs options)"
    using chain [of AllocateCmd] sign by (fastforce simp: AllocateInvocation_def defs)
  show "issues (AcceptInvocation L client now creq proofs options)"
    using chain [of AcceptCmd] sign by (fastforce simp: AcceptInvocation_def acceptProofs_def acceptInvocation_def defs)
  show "issues (ReleaseInvocation L client lreq proofs options)"
    using chain [of ReleaseCmd] sign by (fastforce simp: ReleaseInvocation_def defs)
  show "issues (RejectInvocation L client jreq proofs options)"
    using chain [of RejectCmd] sign by (fastforce simp: RejectInvocation_def defs)
qed

text \<open>
Property C9. Only the operator changes the storage providers or sees them, and every registered one has proved itself.
Whatever calls of the admin handlers were made, by anyone, every registered provider stands under its own DID
and its proofs give the service a chain on it for each of six commands: to allocate, accept, release, reject and
replicate blobs and to query for the proofs of possession. With these proofs a client of the service for the provider
can issue every allocation, acceptance, release and rejection, where signing does not fail. The operator's listing ends
and shows every provider once, in the order of their DIDs. A call of any of the five handlers by anyone but the
service is refused as unauthorized and changes nothing. A registration that succeeds adds a provider that was not
there, with weight 0, and weights that were set are the weights the listing then shows.
\<close>

theorem admin_providers_proved:
  assumes "reachable (\<lambda>s. s = sp_New) (admin_step A L PDPInfo ident) s" and "enumerates order s"
  shows "(\<forall>i r. s i = Some r \<longrightarrow> sp_Provider r = i \<and>
      (\<forall>c \<in> {Command L AllocateCmd, Command L AcceptCmd, Command L ReleaseCmd, Command L RejectCmd,
          Command L ReplicaAllocateCmd, PDPInfo}. \<exists>chain links.
         ProofChain L (sp_Proofs r) ident c i = Ok (chain, links) \<and> chain \<noteq> []) \<and>
      (\<forall>client areq creq lreq jreq options now. issuer client = ident \<and> piriDID client = i \<and> signs L \<longrightarrow>
         issues (AllocateInvocation L client areq (sp_Proofs r) options) \<and>
         issues (AcceptInvocation L client now creq (sp_Proofs r) options) \<and>
         issues (ReleaseInvocation L client lreq (sp_Proofs r) options) \<and>
         issues (RejectInvocation L client jreq (sp_Proofs r) options))) \<and>
    (\<exists>rs. set rs = ran s \<and> distinct (map sp_Provider rs) \<and> sorted (map sp_Provider rs) \<and>
      (\<forall>iv. tok_Issuer iv = ident \<longrightarrow>
         AdminProviderListHandler ident iv order s = Some (Ok (SetSuccess None (map list_provider rs))))) \<and>
    (\<forall>iv args sargs i b now. tok_Issuer iv \<noteq> ident \<longrightarrow>
      (\<forall>(t, r) \<in> {AdminProviderRegisterHandler A L PDPInfo ident iv args now s,
          AdminProviderDeregisterHandler ident iv i s, AdminProviderProofsSetHandler A L PDPInfo ident iv i b now s,
          AdminProviderWeightSetHandler ident iv sargs now s}. t = s \<and> unauthorized r) \<and>
      (\<exists>r. AdminProviderListHandler ident iv order s = Some r \<and> unauthorized r)) \<and>
    (\<forall>iv args now t m u. AdminProviderRegisterHandler A L PDPInfo ident iv args now s = (t, Ok (SetSuccess m u)) \<longrightarrow>
      s (reg_Provider args) = None \<and> (\<exists>r. t = s(reg_Provider args \<mapsto> r) \<and> sp_Weight r = 0)) \<and>
    (\<forall>iv args now t m u. AdminProviderWeightSetHandler ident iv args now s = (t, Ok (SetSuccess m u)) \<longrightarrow>
      (\<exists>r. t (set_Provider args) = Some r \<and> pv_Weight (list_provider r) = set_Weight args \<and>
         pv_ReplicationWeight (list_provider r) = set_ReplicationWeight args \<and>
         (\<forall>j. j \<noteq> set_Provider args \<longrightarrow> t j = s j)))"
proof -
  have ok: "proved_ok L PDPInfo ident s"
    using assms(1) by (rule admin_system.reachable_inv)
  then have p: "providers_ok s" by (simp add: proved_ok_def)
  show ?thesis
  proof (intro conjI allI impI)
    fix i r assume at: "s i = Some r"
    then have suff: "proofs_suffice L PDPInfo ident i (sp_Proofs r)"
      using ok by (simp add: proved_ok_def)
    show "sp_Provider r = i" using p at by (simp add: providers_ok_def)
    show "\<forall>c \<in> {Command L AllocateCmd, Command L AcceptCmd, Command L ReleaseCmd, Command L RejectCmd,
          Command L ReplicaAllocateCmd, PDPInfo}. \<exists>chain links.
         ProofChain L (sp_Proofs r) ident c i = Ok (chain, links) \<and> chain \<noteq> []"
      using suff by (simp add: proofs_suffice_def requiredProofs_def)
    fix client :: Client and areq creq lreq jreq options now assume "issuer client = ident \<and> piriDID client = i \<and> signs L"
    then have "proofs_suffice L PDPInfo (issuer client) (piriDID client) (sp_Proofs r)" "signs L" using suff by simp_all
    from proofs_issue [OF this]
    show "issues (AllocateInvocation L client areq (sp_Proofs r) options)"
      "issues (AcceptInvocation L client now creq (sp_Proofs r) options)"
      "issues (ReleaseInvocation L client lreq (sp_Proofs r) options)"
      "issues (RejectInvocation L client jreq (sp_Proofs r) options)" by simp_all
  next
    show "\<exists>rs. set rs = ran s \<and> distinct (map sp_Provider rs) \<and> sorted (map sp_Provider rs) \<and>
      (\<forall>iv. tok_Issuer iv = ident \<longrightarrow>
         AdminProviderListHandler ident iv order s = Some (Ok (SetSuccess None (map list_provider rs))))"
      using provider_records_spec [OF p assms(2)] AdminProviderList_all [OF p assms(2)]
      by (intro exI [of _ "provider_records s order"]) auto
  next
    fix iv :: token and args sargs i b now assume "tok_Issuer iv \<noteq> ident"
    note refused = admin_unauthorized [OF this]
    show "\<forall>(t, r) \<in> {AdminProviderRegisterHandler A L PDPInfo ident iv args now s,
          AdminProviderDeregisterHandler ident iv i s, AdminProviderProofsSetHandler A L PDPInfo ident iv i b now s,
          AdminProviderWeightSetHandler ident iv sargs now s}. t = s \<and> unauthorized r"
      using refused by (simp add: case_prod_beta)
    show "\<exists>r. AdminProviderListHandler ident iv order s = Some r \<and> unauthorized r" by (rule refused)
  qed (use Register_new weights_shown in \<open>blast+\<close>)
qed

definition sample_admin_lib :: access_lib where
  "sample_admin_lib = sample_access_lib\<lparr>container_Decode := (\<lambda>b. Ok \<lparr>Invocations = [], Delegations = [sample_task\<lparr>tok_Subject := b\<rparr>],
     Receipts = []\<rparr>)\<rparr>"

definition sample_chain_lib :: forge_lib where
  "sample_chain_lib = sample_lib\<lparr>ProofChain := (\<lambda>ct iss name subj.
     let ds = filter (\<lambda>d. tok_Subject d = subj) (Delegations ct) in Ok (ds, map tok_Link ds))\<rparr>"

definition sample_operator :: token where
  "sample_operator = sample_task\<lparr>tok_Issuer := ''did:web:up''\<rparr>"

definition sample_registered :: "provider_store \<Rightarrow> provider_store \<times> unit response res" where
  "sample_registered s = AdminProviderRegisterHandler sample_admin_lib sample_chain_lib ''/pdp/info'' ''did:web:up''
     sample_operator \<lparr>reg_Provider = ''did:key:n'', reg_Endpoint = ''http://n'', reg_Proofs = ''did:key:n''\<rparr> 5 s"

definition sample_weighted :: "provider_store \<Rightarrow> provider_store \<times> unit response res" where
  "sample_weighted s = AdminProviderWeightSetHandler ''did:web:up'' sample_operator
     \<lparr>set_Provider = ''did:key:n'', set_Weight = 7, set_ReplicationWeight = - 1\<rparr> 6 s"

definition sample_nodes :: provider_store where
  "sample_nodes = fst (sample_weighted (fst (sample_registered sp_New)))"

lemma sample_nodes_eq:
  "snd (sample_registered sp_New) = Ok (SetSuccess None ()) \<and>
   sample_nodes = [''did:key:n'' \<mapsto> \<lparr>sp_Provider = ''did:key:n'', sp_Endpoint = ''http://n'', sp_Weight = 7,
     sp_ReplicationWeight = Some (- 1), sp_Proofs = \<lparr>Invocations = [], Delegations = [sample_task\<lparr>tok_Subject := ''did:key:n''\<rparr>],
       Receipts = []\<rparr>, sp_InsertedAt = 5, sp_UpdatedAt = 6\<rparr>]"
  by (simp add: sample_nodes_def sample_weighted_def sample_registered_def AdminProviderRegisterHandler_def sample_operator_def
      sample_admin_lib_def sample_chain_lib_def sample_access_lib_def verifyProviderProofs_def requiredProofs_def
      AdminProviderWeightSetHandler_def sp_SetWeights_def sp_Add_def sp_New_def initialWeight_def initialReplicationWeight_def)

lemma sample_nodes_reach:
  "reachable (\<lambda>s. s = sp_New) (admin_step sample_admin_lib sample_chain_lib ''/pdp/info'' ''did:web:up'') sample_nodes"
    (is "reachable _ ?step _")
proof -
  have "?step sp_New (fst (sample_registered sp_New))"
    unfolding sample_registered_def by (rule admin_register [OF prod.collapse [symmetric]])
  moreover have "?step (fst (sample_registered sp_New)) sample_nodes"
    unfolding sample_nodes_def sample_weighted_def by (rule admin_weights [OF prod.collapse [symmetric]])
  ultimately show ?thesis
    by (blast intro: reach_init reach_step)
qed

theorem admin_providers_proved_witness:
  "AdminProviderListHandler ''did:web:up'' sample_operator [''did:key:n''] sample_nodes =
     Some (Ok (SetSuccess None [\<lparr>pv_Provider = ''did:key:n'', pv_Endpoint = ''http://n'', pv_Weight = 7,
       pv_ReplicationWeight = - 1\<rparr>])) \<and>
   (\<exists>chain links. ProofChain sample_chain_lib (sp_Proofs (the (sample_nodes ''did:key:n''))) ''did:web:up'' ''/pdp/info''
     ''did:key:n'' = Ok (chain, links) \<and> chain \<noteq> []) \<and>
   issues (RejectInvocation sample_chain_lib (piri_NewWithClient ''did:key:n'' ''did:web:up'' ''http://n'') \<lparr>rej_Allocation = ''t1''\<rparr>
     (sp_Proofs (the (sample_nodes ''did:key:n''))) [])"
proof -
  have en: "enumerates [''did:key:n''] sample_nodes"
    by (simp add: enumerates_def sample_nodes_eq)
  note proved = admin_providers_proved [OF sample_nodes_reach en]
  from proved obtain rs where rs: "set rs = ran sample_nodes" "distinct (map sp_Provider rs)"
    "AdminProviderListHandler ''did:web:up'' sample_operator [''did:key:n''] sample_nodes =
       Some (Ok (SetSuccess None (map list_provider rs)))"
    by (auto simp: sample_operator_def)
  have "rs = [the (sample_nodes ''did:key:n'')]"
    using rs(1,2) by (cases rs; cases "tl rs") (auto simp: sample_nodes_eq insert_eq_iff)
  then have listed: "map list_provider rs = [\<lparr>pv_Provider = ''did:key:n'', pv_Endpoint = ''http://n'', pv_Weight = 7,
      pv_ReplicationWeight = - 1\<rparr>]"
    by (simp add: sample_nodes_eq list_provider_def)
  have "sample_nodes ''did:key:n'' = Some (the (sample_nodes ''did:key:n''))"
    by (simp add: sample_nodes_eq)
  note held = proved [THEN conjunct1, THEN spec, THEN spec, THEN mp, OF this, THEN conjunct2]
  have "signs sample_chain_lib"
    by (auto simp: signs_def sample_chain_lib_def sample_lib_def sample_invoke_def split: cmd_args.split)
  then have issued: "issues (RejectInvocation sample_chain_lib (piri_NewWithClient ''did:key:n'' ''did:web:up'' ''http://n'')
      \<lparr>rej_Allocation = ''t1''\<rparr> (sp_Proofs (the (sample_nodes ''did:key:n''))) [])"
    using held [THEN conjunct2, THEN spec, of "piri_NewWithClient ''did:key:n'' ''did:web:up'' ''http://n''"]
    by (simp add: piri_NewWithClient_def)
  from held [THEN conjunct1, THEN bspec, of "''/pdp/info''"] have "\<exists>chain links. ProofChain sample_chain_lib (sp_Proofs (the (sample_nodes ''did:key:n''))) ''did:web:up''
      ''/pdp/info'' ''did:key:n'' = Ok (chain, links) \<and> chain \<noteq> []"
    by simp
  with rs(3) issued show ?thesis unfolding listed by blast
qed

end
