(* ===== verification/Cbor_Codecs.thy ===== *)
theory Cbor_Codecs
  imports Admin_Handlers
begin

section \<open>CBOR codecs of the operator's commands\<close>

text \<open>
  The \<^verbatim>\<open>cbor_gen.go\<close> files of \<^verbatim>\<open>pkg/commands/admin/provider\<close>, \<^verbatim>\<open>.../proofs\<close> and \<^verbatim>\<open>.../weight\<close>: how the
  arguments and results of the operator's commands are written and read. Every type is a CBOR map; unknown
  fields are skipped, and a field may be given again, in which case the last one counts.

  A writer is a byte buffer, whose writes do not fail: writing gives the bytes or the error of a check. A
  reader is the bytes that are left; reading gives a value and what is left behind it. \<open>cbor_lib\<close> holds the
  functions of \<^verbatim>\<open>cbor-gen\<close> and of the DID library that the code calls. A Go \<^verbatim>\<open>nil\<close> pointer is \<^const>\<open>None\<close>.
\<close>

type_synonym 'a reader = "bytes \<Rightarrow> ('a \<times> bytes) res"

record cbor_lib =
  WriteMajorTypeHeader :: "nat \<Rightarrow> uint64 \<Rightarrow> bytes"
  CborNull :: bytes
  ReadHeader :: "(nat \<times> uint64) reader"
  ReadFullStringIntoBuf :: "nat \<Rightarrow> nat \<Rightarrow> string option reader"
  ReadStringWithMax :: "nat \<Rightarrow> string reader"
  ScanForLinks :: "unit reader"
  MaxLength :: uint64
  did_MarshalCBOR :: "did \<Rightarrow> bytes res"
  did_UnmarshalCBOR :: "did reader"

abbreviation (input) "MajUnsignedInt \<equiv> 0 :: nat"
abbreviation (input) "MajNegativeInt \<equiv> 1 :: nat"
abbreviation (input) "MajByteString \<equiv> 2 :: nat"
abbreviation (input) "MajTextString \<equiv> 3 :: nat"
abbreviation (input) "MajArray \<equiv> 4 :: nat"
abbreviation (input) "MajMap \<equiv> 5 :: nat"

definition io_EOF :: gerr where
  "io_EOF = Errorf ''EOF''"

definition io_ErrUnexpectedEOF :: gerr where
  "io_ErrUnexpectedEOF = Errorf ''unexpected EOF''"

text \<open>\<^verbatim>\<open>io.ReadFull\<close>: exactly \<open>n\<close> bytes, or an error that tells whether there were any.\<close>

definition io_ReadFull :: "nat \<Rightarrow> bytes reader" where
  "io_ReadFull n r =
     (if n \<le> length r then Ok (take n r, drop n r)
      else if r = [] then Err io_EOF else Err io_ErrUnexpectedEOF)"

text \<open>One write after the other, up to the first check that fails.\<close>

fun writes :: "bytes res list \<Rightarrow> bytes res" where
  "writes [] = Ok []"
| "writes (p # ps) = andThen p (\<lambda>x. andThen (writes ps) (\<lambda>y. Ok (x @ y)))"

text \<open>The deferred function of every decoder.\<close>

definition eof_unexpected :: "'a res \<Rightarrow> 'a res" where
  "eof_unexpected r = (case r of Err e \<Rightarrow> Err (if e = io_EOF then io_ErrUnexpectedEOF else e) | _ \<Rightarrow> r)"

record providers_ListOK =
  lok_Providers :: "Provider list"

record DeregisterArguments =
  dereg_Provider :: did

record proofs_SetArguments =
  pset_Provider :: did
  pset_Proofs :: bytes

subsection \<open>Writing and reading single values\<close>

definition cbor_string :: "cbor_lib \<Rightarrow> string \<Rightarrow> bytes res" where
  "cbor_string C s =
     (if length s > 8192 then Err (Errorf ''Value in field was too long'')
      else Ok (WriteMajorTypeHeader C MajTextString (of_nat (length s)) @ s))"

definition cbor_int64 :: "cbor_lib \<Rightarrow> int64 \<Rightarrow> bytes res" where
  "cbor_int64 C x =
     (if \<not> neg64 x then Ok (WriteMajorTypeHeader C MajUnsignedInt x)
      else Ok (WriteMajorTypeHeader C MajNegativeInt (- x - 1)))"

definition cbor_bytes :: "cbor_lib \<Rightarrow> bytes \<Rightarrow> bytes res" where
  "cbor_bytes C b =
     (if length b > 2097152 then Err (Errorf ''Byte array in field t.Proofs was too long'')
      else Ok (WriteMajorTypeHeader C MajByteString (of_nat (length b)) @ b))"

definition read_int64 :: "cbor_lib \<Rightarrow> int64 reader" where
  "read_int64 C r =
     andThen (ReadHeader C r) (\<lambda>((maj, extra), r).
       if maj = MajUnsignedInt then
         (if neg64 extra then Err (Errorf ''int64 positive overflow'') else Ok (extra, r))
       else if maj = MajNegativeInt then
         (if neg64 extra then Err (Errorf ''int64 negative overflow'') else Ok (- 1 - extra, r))
       else Err (Errorf ''wrong type for int64 field''))"

text \<open>\<open>old\<close> is what the field holds: for an empty byte string no new slice is made, and the old one is filled.\<close>

definition read_bytes :: "cbor_lib \<Rightarrow> bytes \<Rightarrow> bytes reader" where
  "read_bytes C old r =
     andThen (ReadHeader C r) (\<lambda>((maj, extra), r).
       if extra > 2097152 then Err (Errorf ''t.Proofs: byte array too large'')
       else if maj \<noteq> MajByteString then Err (Errorf ''expected byte array'')
       else io_ReadFull (if extra > 0 then unat extra else length old) r)"

text \<open>The loop over the fields of a map, with a buffer of \<open>buf\<close> bytes for the names; \<open>field\<close> is the switch.\<close>

fun cbor_fields ::
  "cbor_lib \<Rightarrow> nat \<Rightarrow> (string \<Rightarrow> 't \<Rightarrow> 't reader) \<Rightarrow> nat \<Rightarrow> 't \<Rightarrow> 't reader" where
  "cbor_fields C buf field 0 t r = Ok (t, r)"
| "cbor_fields C buf field (Suc n) t r =
     andThen (ReadFullStringIntoBuf C buf 8192 r) (\<lambda>(name, r).
       case name of
         None \<Rightarrow> andThen (ScanForLinks C r) (\<lambda>(_, r). cbor_fields C buf field n t r)
       | Some name \<Rightarrow> andThen (field name t r) (\<lambda>(t, r). cbor_fields C buf field n t r))"

definition cbor_map :: "cbor_lib \<Rightarrow> nat \<Rightarrow> (string \<Rightarrow> 't \<Rightarrow> 't reader) \<Rightarrow> 't \<Rightarrow> 't reader" where
  "cbor_map C buf field t r =
     andThen (ReadHeader C r) (\<lambda>((maj, extra), r).
       eof_unexpected
         (if maj \<noteq> MajMap then Err (Errorf ''cbor input should be of type map'')
          else if extra > MaxLength C then Err (Errorf ''map struct too large'')
          else cbor_fields C buf field (unat extra) t r))"

text \<open>A field the type does not have.\<close>

definition skip_field :: "cbor_lib \<Rightarrow> 't \<Rightarrow> 't reader" where
  "skip_field C t r = andThen (ScanForLinks C r) (\<lambda>(_, r). Ok (t, r))"

subsection \<open>Provider\<close>

definition Provider_MarshalCBOR :: "cbor_lib \<Rightarrow> Provider option \<Rightarrow> bytes res" where
  "Provider_MarshalCBOR C t =
     (case t of
        None \<Rightarrow> Ok (CborNull C)
      | Some t \<Rightarrow> writes [Ok [char_of (164 :: nat)],
          cbor_string C ''weight'', cbor_int64 C (pv_Weight t),
          cbor_string C ''endpoint'', cbor_string C (pv_Endpoint t),
          cbor_string C ''provider'', did_MarshalCBOR C (pv_Provider t),
          cbor_string C ''replicationWeight'', cbor_int64 C (pv_ReplicationWeight t)])"

definition Provider_field :: "cbor_lib \<Rightarrow> string \<Rightarrow> Provider \<Rightarrow> Provider reader" where
  "Provider_field C name t r =
     (if name = ''weight'' then andThen (read_int64 C r) (\<lambda>(x, r). Ok (t\<lparr>pv_Weight := x\<rparr>, r))
      else if name = ''endpoint'' then
        andThen (ReadStringWithMax C 8192 r) (\<lambda>(sval, r). Ok (t\<lparr>pv_Endpoint := sval\<rparr>, r))
      else if name = ''provider'' then
        andThen (wrap ''unmarshaling t.Provider'' (did_UnmarshalCBOR C r)) (\<lambda>(d, r). Ok (t\<lparr>pv_Provider := d\<rparr>, r))
      else if name = ''replicationWeight'' then
        andThen (read_int64 C r) (\<lambda>(x, r). Ok (t\<lparr>pv_ReplicationWeight := x\<rparr>, r))
      else skip_field C t r)"

definition Provider_UnmarshalCBOR :: "cbor_lib \<Rightarrow> Provider reader" where
  "Provider_UnmarshalCBOR C =
     cbor_map C 17 (Provider_field C)
       \<lparr>pv_Provider = '''', pv_Endpoint = '''', pv_Weight = 0, pv_ReplicationWeight = 0\<rparr>"

subsection \<open>ListOK\<close>

definition ListOK_MarshalCBOR :: "cbor_lib \<Rightarrow> providers_ListOK option \<Rightarrow> bytes res" where
  "ListOK_MarshalCBOR C t =
     (case t of
        None \<Rightarrow> Ok (CborNull C)
      | Some t \<Rightarrow> writes ([Ok [char_of (161 :: nat)], cbor_string C ''providers'',
          (if length (lok_Providers t) > 8192 then Err (Errorf ''Slice value in field t.Providers was too long'')
           else Ok (WriteMajorTypeHeader C MajArray (of_nat (length (lok_Providers t)))))] @
          map (\<lambda>v. Provider_MarshalCBOR C (Some v)) (lok_Providers t)))"

fun read_providers :: "cbor_lib \<Rightarrow> nat \<Rightarrow> Provider list reader" where
  "read_providers C 0 r = Ok ([], r)"
| "read_providers C (Suc n) r =
     andThen (wrap ''unmarshaling t.Providers[i]'' (Provider_UnmarshalCBOR C r)) (\<lambda>(p, r).
       andThen (read_providers C n r) (\<lambda>(ps, r). Ok (p # ps, r)))"

definition ListOK_field :: "cbor_lib \<Rightarrow> string \<Rightarrow> providers_ListOK \<Rightarrow> providers_ListOK reader" where
  "ListOK_field C name t r =
     (if name = ''providers'' then
        andThen (ReadHeader C r) (\<lambda>((maj, extra), r).
          if extra > 8192 then Err (Errorf ''t.Providers: array too large'')
          else if maj \<noteq> MajArray then Err (Errorf ''expected cbor array'')
          else if extra > 0 then
            andThen (read_providers C (unat extra) r) (\<lambda>(ps, r). Ok (t\<lparr>lok_Providers := ps\<rparr>, r))
          else Ok (t, r))
      else skip_field C t r)"

definition ListOK_UnmarshalCBOR :: "cbor_lib \<Rightarrow> providers_ListOK reader" where
  "ListOK_UnmarshalCBOR C = cbor_map C 9 (ListOK_field C) \<lparr>lok_Providers = []\<rparr>"

subsection \<open>RegisterArguments\<close>

definition RegisterArguments_MarshalCBOR :: "cbor_lib \<Rightarrow> RegisterArguments option \<Rightarrow> bytes res" where
  "RegisterArguments_MarshalCBOR C t =
     (case t of
        None \<Rightarrow> Ok (CborNull C)
      | Some t \<Rightarrow> writes [Ok [char_of (163 :: nat)],
          cbor_string C ''proofs'', cbor_bytes C (reg_Proofs t),
          cbor_string C ''endpoint'', cbor_string C (reg_Endpoint t),
          cbor_string C ''provider'', did_MarshalCBOR C (reg_Provider t)])"

definition RegisterArguments_field :: "cbor_lib \<Rightarrow> string \<Rightarrow> RegisterArguments \<Rightarrow> RegisterArguments reader" where
  "RegisterArguments_field C name t r =
     (if name = ''proofs'' then andThen (read_bytes C (reg_Proofs t) r) (\<lambda>(b, r). Ok (t\<lparr>reg_Proofs := b\<rparr>, r))
      else if name = ''endpoint'' then
        andThen (ReadStringWithMax C 8192 r) (\<lambda>(sval, r). Ok (t\<lparr>reg_Endpoint := sval\<rparr>, r))
      else if name = ''provider'' then
        andThen (wrap ''unmarshaling t.Provider'' (did_UnmarshalCBOR C r)) (\<lambda>(d, r). Ok (t\<lparr>reg_Provider := d\<rparr>, r))
      else skip_field C t r)"

definition RegisterArguments_UnmarshalCBOR :: "cbor_lib \<Rightarrow> RegisterArguments reader" where
  "RegisterArguments_UnmarshalCBOR C =
     cbor_map C 8 (RegisterArguments_field C) \<lparr>reg_Provider = '''', reg_Endpoint = '''', reg_Proofs = ''''\<rparr>"

subsection \<open>DeregisterArguments\<close>

definition DeregisterArguments_MarshalCBOR :: "cbor_lib \<Rightarrow> DeregisterArguments option \<Rightarrow> bytes res" where
  "DeregisterArguments_MarshalCBOR C t =
     (case t of
        None \<Rightarrow> Ok (CborNull C)
      | Some t \<Rightarrow> writes [Ok [char_of (161 :: nat)],
          cbor_string C ''provider'', did_MarshalCBOR C (dereg_Provider t)])"

definition DeregisterArguments_field :: "cbor_lib \<Rightarrow> string \<Rightarrow> DeregisterArguments \<Rightarrow> DeregisterArguments reader" where
  "DeregisterArguments_field C name t r =
     (if name = ''provider'' then
        andThen (wrap ''unmarshaling t.Provider'' (did_UnmarshalCBOR C r)) (\<lambda>(d, r). Ok (t\<lparr>dereg_Provider := d\<rparr>, r))
      else skip_field C t r)"

definition DeregisterArguments_UnmarshalCBOR :: "cbor_lib \<Rightarrow> DeregisterArguments reader" where
  "DeregisterArguments_UnmarshalCBOR C = cbor_map C 8 (DeregisterArguments_field C) \<lparr>dereg_Provider = ''''\<rparr>"

subsection \<open>The arguments that set proofs\<close>

definition proofs_SetArguments_MarshalCBOR :: "cbor_lib \<Rightarrow> proofs_SetArguments option \<Rightarrow> bytes res" where
  "proofs_SetArguments_MarshalCBOR C t =
     (case t of
        None \<Rightarrow> Ok (CborNull C)
      | Some t \<Rightarrow> writes [Ok [char_of (162 :: nat)],
          cbor_string C ''proofs'', cbor_bytes C (pset_Proofs t),
          cbor_string C ''provider'', did_MarshalCBOR C (pset_Provider t)])"

definition proofs_SetArguments_field :: "cbor_lib \<Rightarrow> string \<Rightarrow> proofs_SetArguments \<Rightarrow> proofs_SetArguments reader" where
  "proofs_SetArguments_field C name t r =
     (if name = ''proofs'' then andThen (read_bytes C (pset_Proofs t) r) (\<lambda>(b, r). Ok (t\<lparr>pset_Proofs := b\<rparr>, r))
      else if name = ''provider'' then
        andThen (wrap ''unmarshaling t.Provider'' (did_UnmarshalCBOR C r)) (\<lambda>(d, r). Ok (t\<lparr>pset_Provider := d\<rparr>, r))
      else skip_field C t r)"

definition proofs_SetArguments_UnmarshalCBOR :: "cbor_lib \<Rightarrow> proofs_SetArguments reader" where
  "proofs_SetArguments_UnmarshalCBOR C =
     cbor_map C 8 (proofs_SetArguments_field C) \<lparr>pset_Provider = '''', pset_Proofs = ''''\<rparr>"

subsection \<open>The arguments that set weights\<close>

definition SetArguments_MarshalCBOR :: "cbor_lib \<Rightarrow> SetArguments option \<Rightarrow> bytes res" where
  "SetArguments_MarshalCBOR C t =
     (case t of
        None \<Rightarrow> Ok (CborNull C)
      | Some t \<Rightarrow> writes [Ok [char_of (163 :: nat)],
          cbor_string C ''weight'', cbor_int64 C (set_Weight t),
          cbor_string C ''provider'', did_MarshalCBOR C (set_Provider t),
          cbor_string C ''replicationWeight'', cbor_int64 C (set_ReplicationWeight t)])"

definition SetArguments_field :: "cbor_lib \<Rightarrow> string \<Rightarrow> SetArguments \<Rightarrow> SetArguments reader" where
  "SetArguments_field C name t r =
     (if name = ''weight'' then andThen (read_int64 C r) (\<lambda>(x, r). Ok (t\<lparr>set_Weight := x\<rparr>, r))
      else if name = ''provider'' then
        andThen (wrap ''unmarshaling t.Provider'' (did_UnmarshalCBOR C r)) (\<lambda>(d, r). Ok (t\<lparr>set_Provider := d\<rparr>, r))
      else if name = ''replicationWeight'' then
        andThen (read_int64 C r) (\<lambda>(x, r). Ok (t\<lparr>set_ReplicationWeight := x\<rparr>, r))
      else skip_field C t r)"

definition SetArguments_UnmarshalCBOR :: "cbor_lib \<Rightarrow> SetArguments reader" where
  "SetArguments_UnmarshalCBOR C =
     cbor_map C 17 (SetArguments_field C) \<lparr>set_Provider = '''', set_Weight = 0, set_ReplicationWeight = 0\<rparr>"

subsection \<open>What the library promises\<close>

text \<open>Headers, strings and DIDs are read back as they were written, and the header of a small map is one byte
  (RFC 8949). A string that is read keeps to its limit. No reader panics.\<close>

definition cbor_ok :: "cbor_lib \<Rightarrow> bool" where
  "cbor_ok C \<longleftrightarrow>
     (\<forall>m n r. m < 8 \<longrightarrow> ReadHeader C (WriteMajorTypeHeader C m n @ r) = Ok ((m, n), r)) \<and>
     (\<forall>n. n < 24 \<longrightarrow> WriteMajorTypeHeader C MajMap (of_nat n) = [char_of (160 + n)]) \<and>
     (\<forall>bound s r. length s \<le> bound \<longrightarrow> bound \<le> 8192 \<longrightarrow>
        ReadStringWithMax C bound (WriteMajorTypeHeader C MajTextString (of_nat (length s)) @ s @ r) = Ok (s, r)) \<and>
     (\<forall>buf bound s r. length s \<le> buf \<longrightarrow> length s \<le> bound \<longrightarrow> bound \<le> 8192 \<longrightarrow>
        ReadFullStringIntoBuf C buf bound (WriteMajorTypeHeader C MajTextString (of_nat (length s)) @ s @ r) = Ok (Some s, r)) \<and>
     (\<forall>d b r. did_MarshalCBOR C d = Ok b \<longrightarrow> did_UnmarshalCBOR C (b @ r) = Ok (d, r)) \<and>
     24 \<le> MaxLength C"

definition cbor_bounded :: "cbor_lib \<Rightarrow> bool" where
  "cbor_bounded C \<longleftrightarrow>
     (\<forall>bound r s r'. ReadStringWithMax C bound r = Ok (s, r') \<longrightarrow> length s \<le> bound) \<and>
     (\<forall>buf bound r. ReadHeader C r \<noteq> Panic \<and> ReadFullStringIntoBuf C buf bound r \<noteq> Panic \<and>
        ReadStringWithMax C bound r \<noteq> Panic \<and> ScanForLinks C r \<noteq> Panic \<and> did_UnmarshalCBOR C r \<noteq> Panic)"

lemma cbor_okD:
  assumes "cbor_ok C"
  shows "m < 8 \<Longrightarrow> ReadHeader C (WriteMajorTypeHeader C m n @ r) = Ok ((m, n), r)"
    and "k < 24 \<Longrightarrow> WriteMajorTypeHeader C MajMap (of_nat k) = [char_of (160 + k)]"
    and "length s \<le> bound \<Longrightarrow> bound \<le> 8192 \<Longrightarrow>
      ReadStringWithMax C bound (WriteMajorTypeHeader C MajTextString (of_nat (length s)) @ s @ r) = Ok (s, r)"
    and "length s \<le> buf \<Longrightarrow> length s \<le> bound \<Longrightarrow> bound \<le> 8192 \<Longrightarrow>
      ReadFullStringIntoBuf C buf bound (WriteMajorTypeHeader C MajTextString (of_nat (length s)) @ s @ r) = Ok (Some s, r)"
    and "did_MarshalCBOR C d = Ok b \<Longrightarrow> did_UnmarshalCBOR C (b @ r) = Ok (d, r)"
    and "24 \<le> MaxLength C"
  using assms unfolding cbor_ok_def by blast+

subsection \<open>Codecs\<close>

text \<open>The contract of an encoder and a decoder, given a library that keeps its promises, on the values that are
  valid, and what it gives: no two values share an encoding, and sequences of values are read back.\<close>

locale codec =
  fixes lawful :: "'l \<Rightarrow> bool" and valid :: "'a \<Rightarrow> bool" and enc :: "'l \<Rightarrow> 'a \<Rightarrow> bytes res" and dec :: "'l \<Rightarrow> 'a reader"
  assumes dec_enc: "lawful L \<Longrightarrow> valid x \<Longrightarrow> enc L x = Ok b \<Longrightarrow> dec L (b @ rest) = Ok (x, rest)"
begin

lemma enc_prefix_free:
  assumes "lawful L" and "valid x" "enc L x = Ok b" and "valid y" "enc L y = Ok c" and "b @ r = c @ s"
  shows "x = y \<and> r = s"
  using dec_enc [OF assms(1-3), of r] dec_enc [OF assms(1,4,5), of s] assms(6) by simp

lemma dec_enc_many:
  assumes "lawful L"
    and "step 0 = (\<lambda>r. Ok ([], r))"
    and "\<And>n r. step (Suc n) r = andThen (wrap msg (dec L r)) (\<lambda>(x, r). andThen (step n r) (\<lambda>(xs, r). Ok (x # xs, r)))"
    and "writes (map (enc L) xs) = Ok b" and "\<forall>x \<in> set xs. valid x"
  shows "step (length xs) (b @ rest) = Ok (xs, rest)"
  using assms(4,5)
proof (induction xs arbitrary: b)
  case (Cons x xs)
  then obtain c d where cd: "enc L x = Ok c" "writes (map (enc L) xs) = Ok d" "b = c @ d" by auto
  with Cons.IH [OF cd(2)] Cons.prems(2) dec_enc [OF assms(1) _ cd(1), of "d @ rest"] assms(3) show ?case
    by simp
qed (simp add: assms(2))

end

subsection \<open>Single values are read back\<close>

lemma read_int64_back:
  assumes "cbor_ok C" and "cbor_int64 C x = Ok b"
  shows "read_int64 C (b @ r) = Ok (x, r)"
proof (cases "neg64 x")
  case True
  have "- x - 1 = (word_of_int (2 ^ 64 - 1 - uint x) :: int64)" by simp
  then have "uint (- x - 1) = (2 ^ 64 - 1 - uint x) mod 2 ^ LENGTH(64)"
    by (simp only: uint_word_of_int)
  also have "\<dots> = 2 ^ 64 - 1 - uint x"
  proof -
    have "0 \<le> u \<Longrightarrow> u < 2 ^ 64 \<Longrightarrow> (2 ^ 64 - 1 - u) mod 2 ^ LENGTH(64) = 2 ^ 64 - 1 - u" for u :: int
      by (intro mod_pos_pos_trivial) simp_all
    from this [of "uint x"] show ?thesis
      using uint_lt2p [of x] by simp
  qed
  finally have "uint (- x - 1) = 2 ^ 64 - 1 - uint x" .
  with True have "\<not> neg64 (- x - 1)"
    by (simp add: neg64_iff MaxInt64_def)
  with True assms show ?thesis
    by (auto simp: cbor_int64_def read_int64_def cbor_okD(1) [OF assms(1)] simp del: andThen_eq_Ok)
qed (use assms in \<open>auto simp: cbor_int64_def read_int64_def cbor_okD(1) [OF assms(1)] simp del: andThen_eq_Ok\<close>)

lemma read_bytes_back:
  assumes "cbor_ok C" and "cbor_bytes C b = Ok e"
  shows "read_bytes C [] (e @ r) = Ok (b, r)"
proof -
  have b: "length b \<le> 2097152" "e = WriteMajorTypeHeader C MajByteString (of_nat (length b)) @ b"
    using assms(2) by (auto simp: cbor_bytes_def split: if_splits)
  then have n: "unat (of_nat (length b) :: uint64) = length b"
    by (simp add: unat_of_nat)
  have "\<not> (of_nat (length b) :: uint64) > 2097152"
    using b(1) n by (simp add: word_less_nat_alt)
  moreover have "(if (of_nat (length b) :: uint64) > 0 then length b else 0) = length b"
    using n by (cases b) (simp_all add: word_less_nat_alt)
  ultimately show ?thesis
    by (auto simp: read_bytes_def b(2) cbor_okD(1) [OF assms(1)] n io_ReadFull_def split: if_splits)
qed

lemma cbor_string_Ok:
  "cbor_string C s = Ok b \<longleftrightarrow> length s \<le> 8192 \<and> b = WriteMajorTypeHeader C MajTextString (of_nat (length s)) @ s"
  by (auto simp: cbor_string_def)

lemma read_string_back:
  "cbor_ok C \<Longrightarrow> cbor_string C s = Ok b \<Longrightarrow> ReadStringWithMax C 8192 (b @ r) = Ok (s, r)"
  by (simp add: cbor_string_Ok cbor_okD(3))

text \<open>One turn of the loop, on a name that fits.\<close>

lemma cbor_fields_name:
  assumes "cbor_ok C" and "cbor_string C name = Ok b" and "length name \<le> buf"
  shows "cbor_fields C buf field (Suc n) t (b @ r) =
    andThen (field name t r) (\<lambda>(t, r). cbor_fields C buf field n t r)"
  using assms by (simp add: cbor_string_Ok cbor_okD(4))

lemma cbor_map_small:
  assumes "cbor_ok C" and "n < 24" and "cbor_fields C buf field n t r = Ok y"
  shows "cbor_map C buf field t (char_of (160 + n) # r) = Ok y"
proof -
  have "(of_nat n :: uint64) < 24"
    using assms(2) by (simp add: word_less_nat_alt unat_of_nat)
  then have "\<not> (of_nat n :: uint64) > MaxLength C"
    using cbor_okD(6) [OF assms(1)] by simp
  moreover have "unat (of_nat n :: uint64) = n"
    using assms(2) by (simp add: unat_of_nat)
  ultimately show ?thesis
    using cbor_okD(1) [OF assms(1), of 5 "of_nat n" r] cbor_okD(2) [OF assms(1,2)] assms(3)
    by (simp add: cbor_map_def eof_unexpected_def)
qed

subsection \<open>Every type is read back\<close>

text \<open>What the pieces of a written map are, and the steps that read them.\<close>

lemma writes_Cons: "writes (p # ps) = Ok b \<longleftrightarrow> (\<exists>x y. p = Ok x \<and> writes ps = Ok y \<and> b = x @ y)"
  by auto

lemma writes_append:
  "writes (ps @ qs) = Ok b \<longleftrightarrow> (\<exists>x y. writes ps = Ok x \<and> writes qs = Ok y \<and> b = x @ y)"
proof (induction ps arbitrary: b)
  case (Cons p ps)
  show ?case
    unfolding append_Cons writes_Cons Cons.IH by (metis append.assoc)
qed simp

lemmas field_defs = Provider_field_def ListOK_field_def RegisterArguments_field_def DeregisterArguments_field_def
  proofs_SetArguments_field_def SetArguments_field_def

text \<open>The number of fields is written into the first byte.\<close>

lemma map_byte:
  "char_of (164 :: nat) = (char_of (160 + Suc (Suc (Suc (Suc 0)))) :: char)"
  "char_of (163 :: nat) = (char_of (160 + Suc (Suc (Suc 0))) :: char)"
  "char_of (162 :: nat) = (char_of (160 + Suc (Suc 0)) :: char)"
  "char_of (161 :: nat) = (char_of (160 + Suc 0) :: char)"
  by simp_all

lemma Provider_cbor:
  assumes C: "cbor_ok C" and "Provider_MarshalCBOR C (Some t) = Ok b"
  shows "Provider_UnmarshalCBOR C (b @ r) = Ok (t, r)"
proof -
  from assms(2) obtain n1 v1 n2 v2 n3 v3 n4 v4 where n: "cbor_string C ''weight'' = Ok n1" "cbor_string C ''endpoint'' = Ok n2"
      "cbor_string C ''provider'' = Ok n3" "cbor_string C ''replicationWeight'' = Ok n4"
    and v: "cbor_int64 C (pv_Weight t) = Ok v1" "cbor_string C (pv_Endpoint t) = Ok v2" "did_MarshalCBOR C (pv_Provider t) = Ok v3"
      "cbor_int64 C (pv_ReplicationWeight t) = Ok v4"
    and b: "b = char_of (164 :: nat) # n1 @ v1 @ n2 @ v2 @ n3 @ v3 @ n4 @ v4"
    by (auto simp: Provider_MarshalCBOR_def)
  show ?thesis
    unfolding Provider_UnmarshalCBOR_def b append_Cons map_byte append_assoc
    by (rule cbor_map_small [OF C])
      (simp_all add: n [THEN cbor_fields_name [OF C]] v(1,4) [THEN read_int64_back [OF C]]
        v(2) [THEN read_string_back [OF C]] v(3) [THEN cbor_okD(5) [OF C]] field_defs del: cbor_fields.simps(2))
qed

lemma RegisterArguments_cbor:
  assumes C: "cbor_ok C" and "RegisterArguments_MarshalCBOR C (Some t) = Ok b"
  shows "RegisterArguments_UnmarshalCBOR C (b @ r) = Ok (t, r)"
proof -
  from assms(2) obtain n1 v1 n2 v2 n3 v3 where n: "cbor_string C ''proofs'' = Ok n1" "cbor_string C ''endpoint'' = Ok n2"
      "cbor_string C ''provider'' = Ok n3"
    and v: "cbor_bytes C (reg_Proofs t) = Ok v1" "cbor_string C (reg_Endpoint t) = Ok v2" "did_MarshalCBOR C (reg_Provider t) = Ok v3"
    and b: "b = char_of (163 :: nat) # n1 @ v1 @ n2 @ v2 @ n3 @ v3"
    by (auto simp: RegisterArguments_MarshalCBOR_def)
  show ?thesis
    unfolding RegisterArguments_UnmarshalCBOR_def b append_Cons map_byte append_assoc
    by (rule cbor_map_small [OF C])
      (simp_all add: n [THEN cbor_fields_name [OF C]] v(1) [THEN read_bytes_back [OF C]]
        v(2) [THEN read_string_back [OF C]] v(3) [THEN cbor_okD(5) [OF C]] field_defs del: cbor_fields.simps(2))
qed

lemma DeregisterArguments_cbor:
  assumes C: "cbor_ok C" and "DeregisterArguments_MarshalCBOR C (Some t) = Ok b"
  shows "DeregisterArguments_UnmarshalCBOR C (b @ r) = Ok (t, r)"
proof -
  from assms(2) obtain n1 v1 where n: "cbor_string C ''provider'' = Ok n1" and v: "did_MarshalCBOR C (dereg_Provider t) = Ok v1"
    and b: "b = char_of (161 :: nat) # n1 @ v1"
    by (auto simp: DeregisterArguments_MarshalCBOR_def)
  show ?thesis
    unfolding DeregisterArguments_UnmarshalCBOR_def b append_Cons map_byte append_assoc
    by (rule cbor_map_small [OF C])
      (simp_all add: n [THEN cbor_fields_name [OF C]] v [THEN cbor_okD(5) [OF C]] field_defs del: cbor_fields.simps(2))
qed

lemma proofs_SetArguments_cbor:
  assumes C: "cbor_ok C" and "proofs_SetArguments_MarshalCBOR C (Some t) = Ok b"
  shows "proofs_SetArguments_UnmarshalCBOR C (b @ r) = Ok (t, r)"
proof -
  from assms(2) obtain n1 v1 n2 v2 where n: "cbor_string C ''proofs'' = Ok n1" "cbor_string C ''provider'' = Ok n2"
    and v: "cbor_bytes C (pset_Proofs t) = Ok v1" "did_MarshalCBOR C (pset_Provider t) = Ok v2"
    and b: "b = char_of (162 :: nat) # n1 @ v1 @ n2 @ v2"
    by (auto simp: proofs_SetArguments_MarshalCBOR_def)
  show ?thesis
    unfolding proofs_SetArguments_UnmarshalCBOR_def b append_Cons map_byte append_assoc
    by (rule cbor_map_small [OF C])
      (simp_all add: n [THEN cbor_fields_name [OF C]] v(1) [THEN read_bytes_back [OF C]] v(2) [THEN cbor_okD(5) [OF C]]
        field_defs del: cbor_fields.simps(2))
qed

lemma SetArguments_cbor:
  assumes C: "cbor_ok C" and "SetArguments_MarshalCBOR C (Some t) = Ok b"
  shows "SetArguments_UnmarshalCBOR C (b @ r) = Ok (t, r)"
proof -
  from assms(2) obtain n1 v1 n2 v2 n3 v3 where n: "cbor_string C ''weight'' = Ok n1" "cbor_string C ''provider'' = Ok n2"
      "cbor_string C ''replicationWeight'' = Ok n3"
    and v: "cbor_int64 C (set_Weight t) = Ok v1" "did_MarshalCBOR C (set_Provider t) = Ok v2"
      "cbor_int64 C (set_ReplicationWeight t) = Ok v3"
    and b: "b = char_of (163 :: nat) # n1 @ v1 @ n2 @ v2 @ n3 @ v3"
    by (auto simp: SetArguments_MarshalCBOR_def)
  show ?thesis
    unfolding SetArguments_UnmarshalCBOR_def b append_Cons map_byte append_assoc
    by (rule cbor_map_small [OF C])
      (simp_all add: n [THEN cbor_fields_name [OF C]] v(1,3) [THEN read_int64_back [OF C]] v(2) [THEN cbor_okD(5) [OF C]]
        field_defs del: cbor_fields.simps(2))
qed

interpretation provider_cbor: codec cbor_ok "\<lambda>_. True" "\<lambda>C t. Provider_MarshalCBOR C (Some t)" Provider_UnmarshalCBOR
  by unfold_locales (rule Provider_cbor)

interpretation register_cbor: codec cbor_ok "\<lambda>_. True" "\<lambda>C t. RegisterArguments_MarshalCBOR C (Some t)" RegisterArguments_UnmarshalCBOR
  by unfold_locales (rule RegisterArguments_cbor)

interpretation deregister_cbor: codec cbor_ok "\<lambda>_. True" "\<lambda>C t. DeregisterArguments_MarshalCBOR C (Some t)" DeregisterArguments_UnmarshalCBOR
  by unfold_locales (rule DeregisterArguments_cbor)

interpretation proofs_cbor: codec cbor_ok "\<lambda>_. True" "\<lambda>C t. proofs_SetArguments_MarshalCBOR C (Some t)" proofs_SetArguments_UnmarshalCBOR
  by unfold_locales (rule proofs_SetArguments_cbor)

interpretation weights_cbor: codec cbor_ok "\<lambda>_. True" "\<lambda>C t. SetArguments_MarshalCBOR C (Some t)" SetArguments_UnmarshalCBOR
  by unfold_locales (rule SetArguments_cbor)

lemma read_providers_back:
  assumes "cbor_ok C" and "writes (map (\<lambda>v. Provider_MarshalCBOR C (Some v)) ps) = Ok b"
  shows "read_providers C (length ps) (b @ r) = Ok (ps, r)"
  using provider_cbor.dec_enc_many [OF assms(1), of "read_providers C" "''unmarshaling t.Providers[i]''" ps b r] assms(2)
  by (simp add: fun_eq_iff)

lemma ListOK_cbor:
  assumes C: "cbor_ok C" and "ListOK_MarshalCBOR C (Some t) = Ok b"
  shows "ListOK_UnmarshalCBOR C (b @ r) = Ok (t, r)"
proof -
  let ?n = "of_nat (length (lok_Providers t)) :: uint64"
  from assms(2) obtain n1 ps where n: "cbor_string C ''providers'' = Ok n1" and len: "length (lok_Providers t) \<le> 8192"
    and ps: "writes (map (\<lambda>v. Provider_MarshalCBOR C (Some v)) (lok_Providers t)) = Ok ps"
    and b: "b = char_of (161 :: nat) # n1 @ WriteMajorTypeHeader C MajArray ?n @ ps"
    by (auto simp: ListOK_MarshalCBOR_def split: if_splits)
  have u: "unat ?n = length (lok_Providers t)"
    using len by (simp add: unat_of_nat)
  then have "\<not> ?n > 8192" and "?n > 0 \<longleftrightarrow> lok_Providers t \<noteq> []"
    using len by (auto simp: word_less_nat_alt)
  moreover have "ps = []" if "lok_Providers t = []"
    using ps that by simp
  ultimately have "ListOK_field C ''providers'' \<lparr>lok_Providers = []\<rparr> (WriteMajorTypeHeader C MajArray ?n @ ps @ r) = Ok (t, r)"
    using read_providers_back [OF C ps, of r] u by (auto simp: ListOK_field_def cbor_okD(1) [OF C])
  then show ?thesis
    unfolding ListOK_UnmarshalCBOR_def b append_Cons map_byte append_assoc
    by (intro cbor_map_small [OF C]) (simp_all add: n [THEN cbor_fields_name [OF C]] del: cbor_fields.simps(2))
qed

interpretation list_cbor: codec cbor_ok "\<lambda>_. True" "\<lambda>C t. ListOK_MarshalCBOR C (Some t)" ListOK_UnmarshalCBOR
  by unfold_locales (rule ListOK_cbor)

text \<open>
Property C37. What is written is read back. For every type of the operator's commands, bytes that the encoder
wrote, whatever follows them, are decoded to the value they were written from and leave what follows; so no two
values share an encoding. The hypothesis is that headers, strings and DIDs of the CBOR library are read back.
\<close>

theorem cbor_roundtrip:
  assumes "cbor_ok C"
  shows "(\<forall>t b r. Provider_MarshalCBOR C (Some t) = Ok b \<longrightarrow> Provider_UnmarshalCBOR C (b @ r) = Ok (t, r)) \<and>
    (\<forall>t b r. ListOK_MarshalCBOR C (Some t) = Ok b \<longrightarrow> ListOK_UnmarshalCBOR C (b @ r) = Ok (t, r)) \<and>
    (\<forall>t b r. RegisterArguments_MarshalCBOR C (Some t) = Ok b \<longrightarrow> RegisterArguments_UnmarshalCBOR C (b @ r) = Ok (t, r)) \<and>
    (\<forall>t b r. DeregisterArguments_MarshalCBOR C (Some t) = Ok b \<longrightarrow> DeregisterArguments_UnmarshalCBOR C (b @ r) = Ok (t, r)) \<and>
    (\<forall>t b r. proofs_SetArguments_MarshalCBOR C (Some t) = Ok b \<longrightarrow> proofs_SetArguments_UnmarshalCBOR C (b @ r) = Ok (t, r)) \<and>
    (\<forall>t b r. SetArguments_MarshalCBOR C (Some t) = Ok b \<longrightarrow> SetArguments_UnmarshalCBOR C (b @ r) = Ok (t, r))"
  using assms
  by (simp add: provider_cbor.dec_enc list_cbor.dec_enc register_cbor.dec_enc deregister_cbor.dec_enc proofs_cbor.dec_enc
      weights_cbor.dec_enc)

subsection \<open>What decoders accept\<close>

lemma cbor_fields_inv:
  assumes "cbor_fields C buf field n t r = Ok (t', r')" and "P t"
    and "\<And>name t r t' r'. field name t r = Ok (t', r') \<Longrightarrow> P t \<Longrightarrow> P t'"
  shows "P t'"
  using assms(1,2)
proof (induction n arbitrary: t r)
  case (Suc n)
  then show ?case
    by (auto split: option.splits) (metis assms(3))
qed simp

lemma cbor_map_inv:
  assumes "cbor_map C buf field t r = Ok (t', r')" and "P t"
    and "\<And>name t r t' r'. field name t r = Ok (t', r') \<Longrightarrow> P t \<Longrightarrow> P t'"
  shows "P t'"
proof -
  from assms(1) obtain n s where "cbor_fields C buf field n t s = Ok (t', r')"
    by (auto simp: cbor_map_def eof_unexpected_def split: if_splits res.splits)
  then show ?thesis using assms(2,3) by (rule cbor_fields_inv)
qed

lemma cbor_boundedD:
  assumes "cbor_bounded C"
  shows "ReadStringWithMax C bound r = Ok (s, r') \<Longrightarrow> length s \<le> bound" "ReadHeader C r \<noteq> Panic"
    "ReadFullStringIntoBuf C buf bound r \<noteq> Panic" "ReadStringWithMax C bound r \<noteq> Panic" "ScanForLinks C r \<noteq> Panic"
    "did_UnmarshalCBOR C r \<noteq> Panic"
  using assms unfolding cbor_bounded_def by blast+

lemma cbor_map_total:
  assumes C: "cbor_bounded C" and "\<And>name t r. field name t r \<noteq> Panic"
  shows "cbor_map C buf field t r \<noteq> Panic"
proof -
  have "cbor_fields C buf field n t r \<noteq> Panic" for n t r
  proof (induction n arbitrary: t r)
    case (Suc n)
    then show ?case
      by (auto simp: andThen_eq_Panic cbor_boundedD [OF C] assms(2) split: option.splits)
  qed simp
  then show ?thesis
    by (auto simp: cbor_map_def andThen_eq_Panic cbor_boundedD [OF C] eof_unexpected_def split: if_splits res.splits)
qed

lemma read_total:
  assumes C: "cbor_bounded C"
  shows "read_int64 C r \<noteq> Panic" "read_bytes C old r \<noteq> Panic" "skip_field C t r \<noteq> Panic"
  by (auto simp: read_int64_def read_bytes_def skip_field_def io_ReadFull_def andThen_eq_Panic cbor_boundedD [OF C]
      split: if_splits)

lemma read_bytes_bounded: "read_bytes C old r = Ok (b, r') \<Longrightarrow> length old \<le> 2097152 \<Longrightarrow> length b \<le> 2097152"
  by (auto simp: read_bytes_def io_ReadFull_def word_less_nat_alt split: if_splits)

lemma skip_field_keeps: "skip_field C t r = Ok (t', r') \<Longrightarrow> t' = t"
  by (auto simp: skip_field_def)

lemma Provider_total: "cbor_bounded C \<Longrightarrow> Provider_UnmarshalCBOR C r \<noteq> Panic"
  unfolding Provider_UnmarshalCBOR_def
  by (rule cbor_map_total) (auto simp: field_defs andThen_eq_Panic read_total cbor_boundedD split: if_splits)

lemma read_providers_total: "cbor_bounded C \<Longrightarrow> read_providers C n r \<noteq> Panic"
  by (induction n arbitrary: r) (auto simp: andThen_eq_Panic Provider_total)

lemma decoders_total:
  assumes "cbor_bounded C"
  shows "ListOK_UnmarshalCBOR C r \<noteq> Panic" "RegisterArguments_UnmarshalCBOR C r \<noteq> Panic"
    "DeregisterArguments_UnmarshalCBOR C r \<noteq> Panic" "proofs_SetArguments_UnmarshalCBOR C r \<noteq> Panic"
    "SetArguments_UnmarshalCBOR C r \<noteq> Panic"
  unfolding ListOK_UnmarshalCBOR_def RegisterArguments_UnmarshalCBOR_def DeregisterArguments_UnmarshalCBOR_def
    proofs_SetArguments_UnmarshalCBOR_def SetArguments_UnmarshalCBOR_def
  by (intro cbor_map_total [OF assms]; auto simp: field_defs andThen_eq_Panic read_total [OF assms] cbor_boundedD [OF assms]
      read_providers_total [OF assms] split: if_splits)+

lemma Provider_valid:
  assumes "cbor_bounded C" and "Provider_UnmarshalCBOR C r = Ok (t, r')"
  shows "length (pv_Endpoint t) \<le> 8192"
  using assms(2) unfolding Provider_UnmarshalCBOR_def
  by (rule cbor_map_inv) (auto simp: field_defs dest: skip_field_keeps cbor_boundedD(1) [OF assms(1)] split: if_splits)

lemma read_providers_valid:
  assumes "cbor_bounded C" and "read_providers C n r = Ok (ps, r')"
  shows "length ps = n \<and> (\<forall>p \<in> set ps. length (pv_Endpoint p) \<le> 8192)"
  using assms(2) by (induction n arbitrary: r ps) (auto dest: Provider_valid [OF assms(1)])

lemma ListOK_valid:
  assumes "cbor_bounded C" and "ListOK_UnmarshalCBOR C r = Ok (t, r')"
  shows "length (lok_Providers t) \<le> 8192 \<and> (\<forall>p \<in> set (lok_Providers t). length (pv_Endpoint p) \<le> 8192)"
  using assms(2) unfolding ListOK_UnmarshalCBOR_def
  by (rule cbor_map_inv)
    (auto simp: field_defs word_less_nat_alt not_less dest: skip_field_keeps read_providers_valid [OF assms(1)] split: if_splits)

lemma RegisterArguments_valid:
  assumes "cbor_bounded C" and "RegisterArguments_UnmarshalCBOR C r = Ok (t, r')"
  shows "length (reg_Endpoint t) \<le> 8192 \<and> length (reg_Proofs t) \<le> 2097152"
  using assms(2) unfolding RegisterArguments_UnmarshalCBOR_def
  by (rule cbor_map_inv)
    (auto simp: field_defs dest: skip_field_keeps read_bytes_bounded cbor_boundedD(1) [OF assms(1)] split: if_splits)

lemma proofs_SetArguments_valid:
  assumes "proofs_SetArguments_UnmarshalCBOR C r = Ok (t, r')"
  shows "length (pset_Proofs t) \<le> 2097152"
  using assms unfolding proofs_SetArguments_UnmarshalCBOR_def
  by (rule cbor_map_inv) (auto simp: field_defs dest: skip_field_keeps read_bytes_bounded split: if_splits)

lemma writes_is_Ok: "is_Ok (writes ps) \<longleftrightarrow> (\<forall>p \<in> set ps. is_Ok p)"
proof (induction ps)
  case (Cons p ps)
  then show ?case by (cases p; cases "writes ps") auto
qed simp

text \<open>When an encoder succeeds.\<close>

lemma values_encode:
  "is_Ok (cbor_string C s) \<longleftrightarrow> length s \<le> 8192" "is_Ok (cbor_int64 C x)" "is_Ok (cbor_bytes C b) \<longleftrightarrow> length b \<le> 2097152"
  by (auto simp: cbor_string_def cbor_int64_def cbor_bytes_def)

lemma encodes:
  "is_Ok (Provider_MarshalCBOR C (Some p)) \<longleftrightarrow> length (pv_Endpoint p) \<le> 8192 \<and> is_Ok (did_MarshalCBOR C (pv_Provider p))"
  "is_Ok (ListOK_MarshalCBOR C (Some l)) \<longleftrightarrow> length (lok_Providers l) \<le> 8192 \<and>
     (\<forall>p \<in> set (lok_Providers l). length (pv_Endpoint p) \<le> 8192 \<and> is_Ok (did_MarshalCBOR C (pv_Provider p)))"
  "is_Ok (RegisterArguments_MarshalCBOR C (Some a)) \<longleftrightarrow> length (reg_Endpoint a) \<le> 8192 \<and> length (reg_Proofs a) \<le> 2097152 \<and>
     is_Ok (did_MarshalCBOR C (reg_Provider a))"
  "is_Ok (DeregisterArguments_MarshalCBOR C (Some d)) \<longleftrightarrow> is_Ok (did_MarshalCBOR C (dereg_Provider d))"
  "is_Ok (proofs_SetArguments_MarshalCBOR C (Some s)) \<longleftrightarrow> length (pset_Proofs s) \<le> 2097152 \<and>
     is_Ok (did_MarshalCBOR C (pset_Provider s))"
  "is_Ok (SetArguments_MarshalCBOR C (Some w)) \<longleftrightarrow> is_Ok (did_MarshalCBOR C (set_Provider w))"
proof -
  show provider: "is_Ok (Provider_MarshalCBOR C (Some p)) \<longleftrightarrow> length (pv_Endpoint p) \<le> 8192 \<and>
      is_Ok (did_MarshalCBOR C (pv_Provider p))" for p
    by (auto simp: Provider_MarshalCBOR_def writes_is_Ok values_encode simp del: writes.simps)
  show "is_Ok (ListOK_MarshalCBOR C (Some l)) \<longleftrightarrow> length (lok_Providers l) \<le> 8192 \<and>
     (\<forall>p \<in> set (lok_Providers l). length (pv_Endpoint p) \<le> 8192 \<and> is_Ok (did_MarshalCBOR C (pv_Provider p)))"
    by (auto simp: ListOK_MarshalCBOR_def writes_is_Ok values_encode provider simp del: writes.simps)
qed (auto simp: RegisterArguments_MarshalCBOR_def DeregisterArguments_MarshalCBOR_def proofs_SetArguments_MarshalCBOR_def
      SetArguments_MarshalCBOR_def writes_is_Ok values_encode simp del: writes.simps)

text \<open>
Property C40. Decoders accept only values that can be written again. On any input, no decoder panics, and a value
it gives keeps to the limits of the encoder: an endpoint of at most 8192 bytes, proofs of at most 2 MiB, at
most 8192 providers. So it can be encoded exactly if its DIDs can (a field that is missing leaves the
undefined DID). The hypothesis is that strings the library reads keep to the limit it is given, and that it
does not panic.
\<close>

theorem cbor_decoded_valid:
  assumes "cbor_bounded C"
  shows "(\<forall>r. Provider_UnmarshalCBOR C r \<noteq> Panic \<and> (\<forall>t r'. Provider_UnmarshalCBOR C r = Ok (t, r') \<longrightarrow>
      is_Ok (Provider_MarshalCBOR C (Some t)) = is_Ok (did_MarshalCBOR C (pv_Provider t)))) \<and>
    (\<forall>r. ListOK_UnmarshalCBOR C r \<noteq> Panic \<and> (\<forall>t r'. ListOK_UnmarshalCBOR C r = Ok (t, r') \<longrightarrow>
      is_Ok (ListOK_MarshalCBOR C (Some t)) = (\<forall>p \<in> set (lok_Providers t). is_Ok (did_MarshalCBOR C (pv_Provider p))))) \<and>
    (\<forall>r. RegisterArguments_UnmarshalCBOR C r \<noteq> Panic \<and> (\<forall>t r'. RegisterArguments_UnmarshalCBOR C r = Ok (t, r') \<longrightarrow>
      is_Ok (RegisterArguments_MarshalCBOR C (Some t)) = is_Ok (did_MarshalCBOR C (reg_Provider t)))) \<and>
    (\<forall>r. DeregisterArguments_UnmarshalCBOR C r \<noteq> Panic \<and> (\<forall>t r'. DeregisterArguments_UnmarshalCBOR C r = Ok (t, r') \<longrightarrow>
      is_Ok (DeregisterArguments_MarshalCBOR C (Some t)) = is_Ok (did_MarshalCBOR C (dereg_Provider t)))) \<and>
    (\<forall>r. proofs_SetArguments_UnmarshalCBOR C r \<noteq> Panic \<and> (\<forall>t r'. proofs_SetArguments_UnmarshalCBOR C r = Ok (t, r') \<longrightarrow>
      is_Ok (proofs_SetArguments_MarshalCBOR C (Some t)) = is_Ok (did_MarshalCBOR C (pset_Provider t)))) \<and>
    (\<forall>r. SetArguments_UnmarshalCBOR C r \<noteq> Panic \<and> (\<forall>t r'. SetArguments_UnmarshalCBOR C r = Ok (t, r') \<longrightarrow>
      is_Ok (SetArguments_MarshalCBOR C (Some t)) = is_Ok (did_MarshalCBOR C (set_Provider t))))"
  using Provider_total [OF assms] decoders_total [OF assms] Provider_valid [OF assms] ListOK_valid [OF assms]
    RegisterArguments_valid [OF assms] proofs_SetArguments_valid [of C]
  by (auto simp: encodes)

subsection \<open>A library that keeps its promises\<close>

text \<open>Headers as in RFC 8949, with arguments below 24 in the first byte and others in eight more.\<close>

fun big_endian :: "nat \<Rightarrow> nat \<Rightarrow> bytes" where
  "big_endian 0 n = []"
| "big_endian (Suc k) n = big_endian k (n div 256) @ [char_of (n mod 256)]"

definition from_big_endian :: "bytes \<Rightarrow> nat" where
  "from_big_endian b = foldl (\<lambda>a c. 256 * a + of_char c) 0 b"

lemma from_big_endian_back: "n < 256 ^ k \<Longrightarrow> from_big_endian (big_endian k n) = n"
proof (induction k arbitrary: n)
  case (Suc k)
  then have "n div 256 < 256 ^ k"
    by (simp add: less_mult_imp_div_less mult.commute)
  from Suc.IH [OF this] show ?case
    by (simp add: from_big_endian_def)
qed (simp add: from_big_endian_def)

lemma length_big_endian [simp]: "length (big_endian k n) = k"
  by (induction k arbitrary: n) simp_all

definition sample_header :: "nat \<Rightarrow> uint64 \<Rightarrow> bytes" where
  "sample_header m n = (if n < 24 then [char_of (32 * m + unat n)] else char_of (32 * m + 27) # big_endian 8 (unat n))"

definition sample_ReadHeader :: "(nat \<times> uint64) reader" where
  "sample_ReadHeader r =
     (case r of
        [] \<Rightarrow> Err io_EOF
      | c # r \<Rightarrow>
          (let m = of_char c div 32; ai = of_char c mod 32 in
           if ai < 24 then Ok ((m, of_nat ai), r)
           else if ai = 27 \<and> 8 \<le> length r then Ok ((m, of_nat (from_big_endian (take 8 r))), drop 8 r)
           else Err io_ErrUnexpectedEOF))"

definition sample_text :: "nat \<Rightarrow> string reader" where
  "sample_text bound r =
     andThen (sample_ReadHeader r) (\<lambda>((m, n), r).
       if m \<noteq> 3 then Err (Errorf ''got tag while reading string value'')
       else if bound < unat n then Err (Errorf ''string in input was too long'')
       else io_ReadFull (unat n) r)"

definition sample_cbor :: cbor_lib where
  "sample_cbor = \<lparr>WriteMajorTypeHeader = sample_header, CborNull = [char_of (246 :: nat)], ReadHeader = sample_ReadHeader,
     ReadFullStringIntoBuf = (\<lambda>buf bound r. andThen (sample_text bound r)
       (\<lambda>(s, r). Ok (if buf < length s then None else Some s, r))),
     ReadStringWithMax = sample_text,
     ScanForLinks = (\<lambda>r. andThen (sample_ReadHeader r) (\<lambda>((m, n), r).
       if m = 2 \<or> m = 3 then andThen (io_ReadFull (unat n) r) (\<lambda>(_, r). Ok ((), r)) else Ok ((), r))),
     MaxLength = 8192,
     did_MarshalCBOR = (\<lambda>d. if d = [] \<or> 8192 < length d then Err (Errorf ''undefined DID'')
       else Ok (sample_header 3 (of_nat (length d)) @ d)),
     did_UnmarshalCBOR = sample_text 8192\<rparr>"

lemma sample_header_back:
  assumes "m < 8"
  shows "sample_ReadHeader (sample_header m n @ r) = Ok ((m, n), r)"
proof (cases "n < 24")
  case True
  then have n: "unat n < 24" by (simp add: word_less_nat_alt)
  have "(of_char (char_of (32 * m + unat n) :: char) :: nat) = 32 * m + unat n"
    using assms n by (simp add: take_bit_eq_mod)
  with n True show ?thesis
    by (simp add: sample_header_def sample_ReadHeader_def Let_def)
next
  case False
  have "(of_char (char_of (32 * m + 27 :: nat) :: char) :: nat) = 32 * m + 27"
    using assms by (simp add: take_bit_eq_mod)
  moreover have "unat n < 256 ^ 8"
    using unsigned_less [of n, where ?'a = nat] by simp
  ultimately show ?thesis
    using False from_big_endian_back [of "unat n" 8] by (simp add: sample_header_def sample_ReadHeader_def Let_def)
qed

lemma sample_text_back:
  assumes "length s \<le> bound" and "bound \<le> 8192"
  shows "sample_text bound (sample_header 3 (of_nat (length s)) @ s @ r) = Ok (s, r)"
proof -
  have "unat (of_nat (length s) :: uint64) = length s"
    using assms by (simp add: unat_of_nat)
  then show ?thesis
    using assms(1) sample_header_back [of 3 "of_nat (length s)" "s @ r"]
    by (simp add: sample_text_def io_ReadFull_def del: andThen_eq_Ok)
qed

lemma sample_cbor_ok: "cbor_ok sample_cbor"
proof -
  have "sample_header 5 (of_nat n) = [char_of (160 + n)]" if "n < 24" for n
  proof -
    have "unat (of_nat n :: uint64) = n" using that by (simp add: unat_of_nat)
    with that show ?thesis by (simp add: sample_header_def word_less_nat_alt)
  qed
  then show ?thesis
    unfolding cbor_ok_def by (auto simp: sample_cbor_def sample_header_back sample_text_back split: if_splits
        simp del: andThen_eq_Ok)
qed

lemma sample_text_bounded: "sample_text bound r = Ok (s, r') \<Longrightarrow> length s \<le> bound"
  by (auto simp: sample_text_def io_ReadFull_def split: if_splits)

lemma sample_readers_total: "sample_ReadHeader r \<noteq> Panic" "sample_text bound r \<noteq> Panic" "io_ReadFull n r \<noteq> Panic"
  by (auto simp: sample_ReadHeader_def sample_text_def io_ReadFull_def Let_def andThen_eq_Panic split: list.splits)

lemma sample_cbor_bounded: "cbor_bounded sample_cbor"
  unfolding cbor_bounded_def
  by (auto simp: sample_cbor_def sample_readers_total andThen_eq_Panic dest: sample_text_bounded split: if_splits)

definition sample_provider :: Provider where
  "sample_provider = \<lparr>pv_Provider = ''did:key:n'', pv_Endpoint = ''http://n'', pv_Weight = 7, pv_ReplicationWeight = - 300\<rparr>"

definition sample_weights :: SetArguments where
  "sample_weights = \<lparr>set_Provider = ''did:key:n'', set_Weight = 2 ^ 63 - 1, set_ReplicationWeight = 2 ^ 63\<rparr>"

theorem cbor_roundtrip_witness:
  "(\<exists>b. ListOK_MarshalCBOR sample_cbor (Some \<lparr>lok_Providers = [sample_provider, sample_provider]\<rparr>) = Ok b \<and>
     ListOK_UnmarshalCBOR sample_cbor (b @ ''rest'') = Ok (\<lparr>lok_Providers = [sample_provider, sample_provider]\<rparr>, ''rest'')) \<and>
   (\<exists>b. SetArguments_MarshalCBOR sample_cbor (Some sample_weights) = Ok b \<and>
     SetArguments_UnmarshalCBOR sample_cbor b = Ok (sample_weights, []))"
proof -
  have "is_Ok (ListOK_MarshalCBOR sample_cbor (Some \<lparr>lok_Providers = [sample_provider, sample_provider]\<rparr>))"
    "is_Ok (SetArguments_MarshalCBOR sample_cbor (Some sample_weights))"
    by (simp_all add: encodes sample_provider_def sample_weights_def sample_cbor_def)
  then obtain b c where b: "ListOK_MarshalCBOR sample_cbor (Some \<lparr>lok_Providers = [sample_provider, sample_provider]\<rparr>) = Ok b"
    "SetArguments_MarshalCBOR sample_cbor (Some sample_weights) = Ok c"
    unfolding is_Ok_iff by blast
  from cbor_roundtrip [OF sample_cbor_ok] have
    "ListOK_UnmarshalCBOR sample_cbor (b @ ''rest'') = Ok (\<lparr>lok_Providers = [sample_provider, sample_provider]\<rparr>, ''rest'')"
    "SetArguments_UnmarshalCBOR sample_cbor (c @ []) = Ok (sample_weights, [])"
    using b by blast+
  with b show ?thesis by simp
qed

theorem cbor_decoded_valid_witness:
  "\<exists>t. Provider_UnmarshalCBOR sample_cbor (char_of (161 :: nat) # sample_header 3 6 @ ''weight'' @ [char_of (5 :: nat)]) = Ok (t, []) \<and>
     pv_Weight t = 5 \<and> \<not> is_Ok (Provider_MarshalCBOR sample_cbor (Some t))"
proof -
  let ?t = "\<lparr>pv_Provider = [], pv_Endpoint = [], pv_Weight = 5, pv_ReplicationWeight = 0\<rparr>"
  have r: "Provider_UnmarshalCBOR sample_cbor (char_of (161 :: nat) # sample_header 3 6 @ ''weight'' @ [char_of (5 :: nat)]) =
      Ok (?t, [])"
    by code_simp
  moreover have "\<not> is_Ok (did_MarshalCBOR sample_cbor (pv_Provider ?t))"
    by (simp add: sample_cbor_def)
  ultimately have "\<not> is_Ok (Provider_MarshalCBOR sample_cbor (Some ?t))"
    using cbor_decoded_valid [OF sample_cbor_bounded] by blast
  with r show ?thesis by (intro exI [of _ ?t]) simp
qed

end
