(* ===== verification/Json_Codecs.thy ===== *)
theory Json_Codecs
  imports Cbor_Codecs
begin

section \<open>DAG-JSON codecs of the operator's commands\<close>

text \<open>
  The \<^verbatim>\<open>json_gen.go\<close> files of \<^verbatim>\<open>pkg/commands/admin/provider\<close>, \<^verbatim>\<open>.../proofs\<close> and \<^verbatim>\<open>.../weight\<close>. Readers and
  writers are those of the CBOR codecs; \<open>json_lib\<close> holds the functions of \<^verbatim>\<open>dag-json-gen\<close> and of the DID library.
  Every type is a JSON object whose fields are written in alphabetical order and read in any.
\<close>

record json_lib =
  WriteNull :: bytes
  WriteObjectOpen :: bytes
  WriteObjectClose :: bytes
  WriteObjectColon :: bytes
  WriteComma :: bytes
  WriteArrayOpen :: bytes
  WriteArrayClose :: bytes
  WriteString :: "string \<Rightarrow> bytes"
  WriteInt64 :: "int64 \<Rightarrow> bytes"
  WriteBytes :: "bytes \<Rightarrow> bytes"
  did_MarshalDagJSON :: "did \<Rightarrow> bytes res"
  ErrLimitExceeded :: gerr
  ReadObjectOpen :: "unit reader"
  PeekObjectClose :: "bytes \<Rightarrow> bool res"
  ReadObjectClose :: "unit reader"
  ReadObjectColon :: "unit reader"
  ReadObjectCloseOrComma :: "bool reader"
  ReadArrayOpen :: "unit reader"
  PeekArrayClose :: "bytes \<Rightarrow> bool res"
  ReadArrayClose :: "unit reader"
  ReadArrayCloseOrComma :: "bool reader"
  ReadString :: "nat \<Rightarrow> string reader"
  ReadBytes :: "nat \<Rightarrow> bytes reader"
  ReadNumberAsInt64 :: "int64 reader"
  DiscardType :: "unit reader"
  did_UnmarshalDagJSON :: "did reader"

subsection \<open>Writing and reading single values\<close>

definition json_string :: "json_lib \<Rightarrow> string \<Rightarrow> bytes res" where
  "json_string J s = (if length s > 8192 then Err (Errorf ''string in field was too long'') else Ok (WriteString J s))"

definition json_bytes :: "json_lib \<Rightarrow> bytes \<Rightarrow> bytes res" where
  "json_bytes J b =
     (if length b > 2097152 then Err (Errorf ''byte array in field t.Proofs was too long'') else Ok (WriteBytes J b))"

text \<open>A name and the colon behind it.\<close>

definition json_name :: "json_lib \<Rightarrow> string \<Rightarrow> bytes res" where
  "json_name J name = writes [json_string J name, Ok (WriteObjectColon J)]"

text \<open>A read that was over its limit is reported as such, another error is wrapped.\<close>

definition limited :: "json_lib \<Rightarrow> string \<Rightarrow> 'a res \<Rightarrow> 'a res" where
  "limited J msg r =
     (case r of
        Err e \<Rightarrow> Err (if errors_Is e (ErrLimitExceeded J) then Errorf (msg @ '': too large'') else Wrap msg e)
      | _ \<Rightarrow> r)"

text \<open>The loop over the fields of an object, \<open>n\<close> turns of it; \<open>field\<close> is the switch.\<close>

fun json_fields :: "json_lib \<Rightarrow> (string \<Rightarrow> 't \<Rightarrow> 't reader) \<Rightarrow> nat \<Rightarrow> 't \<Rightarrow> 't reader" where
  "json_fields J field 0 t r = Ok (t, r)"
| "json_fields J field (Suc n) t r =
     andThen (limited J ''reading string for field'' (ReadString J 8192 r)) (\<lambda>(name, r).
     andThen (wrap ''reading object colon for field'' (ReadObjectColon J r)) (\<lambda>(_, r).
     andThen (field name t r) (\<lambda>(t, r).
     andThen (wrap ''reading object close or comma for field'' (ReadObjectCloseOrComma J r)) (\<lambda>(closed, r).
       if closed then Ok (t, r)
       else if n = 0 then Err (Errorf ''map too large'')
       else json_fields J field n t r))))"

definition json_object :: "json_lib \<Rightarrow> (string \<Rightarrow> 't \<Rightarrow> 't reader) \<Rightarrow> 't \<Rightarrow> 't reader" where
  "json_object J field t r =
     eof_unexpected
       (andThen (wrap ''reading object open'' (ReadObjectOpen J r)) (\<lambda>(_, r).
        andThen (wrap ''peeking object close'' (PeekObjectClose J r)) (\<lambda>closed.
          if closed then andThen (wrap ''reading object close'' (ReadObjectClose J r)) (\<lambda>(_, r). Ok (t, r))
          else json_fields J field 8192 t r)))"

text \<open>A field the type does not have, and the fields the types share.\<close>

definition json_skip :: "json_lib \<Rightarrow> 't \<Rightarrow> 't reader" where
  "json_skip J t r = andThen (wrap ''ignoring field'' (DiscardType J r)) (\<lambda>(_, r). Ok (t, r))"

definition json_did :: "json_lib \<Rightarrow> did reader" where
  "json_did J r = wrap ''unmarshaling t.Provider'' (did_UnmarshalDagJSON J r)"

definition json_number :: "json_lib \<Rightarrow> int64 reader" where
  "json_number J r = wrap ''reading int64 for field'' (ReadNumberAsInt64 J r)"

definition json_endpoint :: "json_lib \<Rightarrow> string reader" where
  "json_endpoint J r = limited J ''reading string for field t.Endpoint'' (ReadString J 8192 r)"

text \<open>Empty bytes leave the field as it was.\<close>

definition json_proofs :: "json_lib \<Rightarrow> bytes \<Rightarrow> bytes reader" where
  "json_proofs J old r =
     andThen (limited J ''reading bytes for field t.Proofs'' (ReadBytes J 2097152 r)) (\<lambda>(bval, r).
       Ok (if length bval > 0 then bval else old, r))"

subsection \<open>Provider\<close>

definition Provider_MarshalDagJSON :: "json_lib \<Rightarrow> Provider option \<Rightarrow> bytes res" where
  "Provider_MarshalDagJSON J t =
     (case t of
        None \<Rightarrow> Ok (WriteNull J)
      | Some t \<Rightarrow> writes [Ok (WriteObjectOpen J),
          json_name J ''endpoint'', json_string J (pv_Endpoint t), Ok (WriteComma J),
          json_name J ''provider'', wrap ''marshaling field t.Provider'' (did_MarshalDagJSON J (pv_Provider t)), Ok (WriteComma J),
          json_name J ''replicationWeight'', Ok (WriteInt64 J (pv_ReplicationWeight t)), Ok (WriteComma J),
          json_name J ''weight'', Ok (WriteInt64 J (pv_Weight t)), Ok (WriteObjectClose J)])"

definition Provider_json :: "json_lib \<Rightarrow> string \<Rightarrow> Provider \<Rightarrow> Provider reader" where
  "Provider_json J name t r =
     (if name = ''endpoint'' then andThen (json_endpoint J r) (\<lambda>(sval, r). Ok (t\<lparr>pv_Endpoint := sval\<rparr>, r))
      else if name = ''provider'' then andThen (json_did J r) (\<lambda>(d, r). Ok (t\<lparr>pv_Provider := d\<rparr>, r))
      else if name = ''replicationWeight'' then
        andThen (json_number J r) (\<lambda>(x, r). Ok (t\<lparr>pv_ReplicationWeight := x\<rparr>, r))
      else if name = ''weight'' then andThen (json_number J r) (\<lambda>(x, r). Ok (t\<lparr>pv_Weight := x\<rparr>, r))
      else json_skip J t r)"

definition Provider_UnmarshalDagJSON :: "json_lib \<Rightarrow> Provider reader" where
  "Provider_UnmarshalDagJSON J =
     json_object J (Provider_json J) \<lparr>pv_Provider = [], pv_Endpoint = [], pv_Weight = 0, pv_ReplicationWeight = 0\<rparr>"

subsection \<open>ListOK\<close>

fun json_items :: "json_lib \<Rightarrow> Provider list \<Rightarrow> bytes res list" where
  "json_items J [] = []"
| "json_items J (v # vs) =
     wrap ''marshaling field v'' (Provider_MarshalDagJSON J (Some v)) #
     concat (map (\<lambda>v. [Ok (WriteComma J), wrap ''marshaling field v'' (Provider_MarshalDagJSON J (Some v))]) vs)"

definition ListOK_MarshalDagJSON :: "json_lib \<Rightarrow> providers_ListOK option \<Rightarrow> bytes res" where
  "ListOK_MarshalDagJSON J t =
     (case t of
        None \<Rightarrow> Ok (WriteNull J)
      | Some t \<Rightarrow> writes ([Ok (WriteObjectOpen J), json_name J ''providers'',
          (if length (lok_Providers t) > 8192 then Err (Errorf ''slice value in field t.Providers was too long'')
           else Ok (WriteArrayOpen J))] @
          json_items J (lok_Providers t) @ [Ok (WriteArrayClose J), Ok (WriteObjectClose J)]))"

text \<open>The loop over the array, \<open>n\<close> turns of it; what is read is appended to what the field holds.\<close>

fun json_array :: "json_lib \<Rightarrow> nat \<Rightarrow> Provider list \<Rightarrow> Provider list reader" where
  "json_array J 0 ps r = Ok (ps, r)"
| "json_array J (Suc n) ps r =
     andThen (wrap ''unmarshaling item[0]'' (Provider_UnmarshalDagJSON J r)) (\<lambda>(item, r).
     andThen (wrap ''reading array close or comma for field t.Providers'' (ReadArrayCloseOrComma J r)) (\<lambda>(closed, r).
       if closed then Ok (ps @ [item], r)
       else if n = 0 then Err (Errorf ''reading array for field t.Providers: slice too large'')
       else json_array J n (ps @ [item]) r))"

definition ListOK_json :: "json_lib \<Rightarrow> string \<Rightarrow> providers_ListOK \<Rightarrow> providers_ListOK reader" where
  "ListOK_json J name t r =
     (if name = ''providers'' then
        andThen (wrap ''reading array open for field t.Providers'' (ReadArrayOpen J r)) (\<lambda>(_, r).
        andThen (wrap ''peeking array close for field t.Providers'' (PeekArrayClose J r)) (\<lambda>closed.
          if closed then
            andThen (wrap ''reading array close for field t.Providers'' (ReadArrayClose J r)) (\<lambda>(_, r). Ok (t, r))
          else andThen (json_array J 8192 (lok_Providers t) r) (\<lambda>(ps, r). Ok (t\<lparr>lok_Providers := ps\<rparr>, r))))
      else json_skip J t r)"

definition ListOK_UnmarshalDagJSON :: "json_lib \<Rightarrow> providers_ListOK reader" where
  "ListOK_UnmarshalDagJSON J = json_object J (ListOK_json J) \<lparr>lok_Providers = []\<rparr>"

subsection \<open>RegisterArguments\<close>

definition RegisterArguments_MarshalDagJSON :: "json_lib \<Rightarrow> RegisterArguments option \<Rightarrow> bytes res" where
  "RegisterArguments_MarshalDagJSON J t =
     (case t of
        None \<Rightarrow> Ok (WriteNull J)
      | Some t \<Rightarrow> writes [Ok (WriteObjectOpen J),
          json_name J ''endpoint'', json_string J (reg_Endpoint t), Ok (WriteComma J),
          json_name J ''proofs'', json_bytes J (reg_Proofs t), Ok (WriteComma J),
          json_name J ''provider'', wrap ''marshaling field t.Provider'' (did_MarshalDagJSON J (reg_Provider t)),
          Ok (WriteObjectClose J)])"

definition RegisterArguments_json :: "json_lib \<Rightarrow> string \<Rightarrow> RegisterArguments \<Rightarrow> RegisterArguments reader" where
  "RegisterArguments_json J name t r =
     (if name = ''endpoint'' then andThen (json_endpoint J r) (\<lambda>(sval, r). Ok (t\<lparr>reg_Endpoint := sval\<rparr>, r))
      else if name = ''proofs'' then andThen (json_proofs J (reg_Proofs t) r) (\<lambda>(b, r). Ok (t\<lparr>reg_Proofs := b\<rparr>, r))
      else if name = ''provider'' then andThen (json_did J r) (\<lambda>(d, r). Ok (t\<lparr>reg_Provider := d\<rparr>, r))
      else json_skip J t r)"

definition RegisterArguments_UnmarshalDagJSON :: "json_lib \<Rightarrow> RegisterArguments reader" where
  "RegisterArguments_UnmarshalDagJSON J =
     json_object J (RegisterArguments_json J) \<lparr>reg_Provider = [], reg_Endpoint = [], reg_Proofs = []\<rparr>"

subsection \<open>DeregisterArguments\<close>

definition DeregisterArguments_MarshalDagJSON :: "json_lib \<Rightarrow> DeregisterArguments option \<Rightarrow> bytes res" where
  "DeregisterArguments_MarshalDagJSON J t =
     (case t of
        None \<Rightarrow> Ok (WriteNull J)
      | Some t \<Rightarrow> writes [Ok (WriteObjectOpen J),
          json_name J ''provider'', wrap ''marshaling field t.Provider'' (did_MarshalDagJSON J (dereg_Provider t)),
          Ok (WriteObjectClose J)])"

definition DeregisterArguments_json :: "json_lib \<Rightarrow> string \<Rightarrow> DeregisterArguments \<Rightarrow> DeregisterArguments reader" where
  "DeregisterArguments_json J name t r =
     (if name = ''provider'' then andThen (json_did J r) (\<lambda>(d, r). Ok (t\<lparr>dereg_Provider := d\<rparr>, r))
      else json_skip J t r)"

definition DeregisterArguments_UnmarshalDagJSON :: "json_lib \<Rightarrow> DeregisterArguments reader" where
  "DeregisterArguments_UnmarshalDagJSON J = json_object J (DeregisterArguments_json J) \<lparr>dereg_Provider = []\<rparr>"

subsection \<open>The arguments that set proofs\<close>

definition proofs_SetArguments_MarshalDagJSON :: "json_lib \<Rightarrow> proofs_SetArguments option \<Rightarrow> bytes res" where
  "proofs_SetArguments_MarshalDagJSON J t =
     (case t of
        None \<Rightarrow> Ok (WriteNull J)
      | Some t \<Rightarrow> writes [Ok (WriteObjectOpen J),
          json_name J ''proofs'', json_bytes J (pset_Proofs t), Ok (WriteComma J),
          json_name J ''provider'', wrap ''marshaling field t.Provider'' (did_MarshalDagJSON J (pset_Provider t)),
          Ok (WriteObjectClose J)])"

definition proofs_SetArguments_json :: "json_lib \<Rightarrow> string \<Rightarrow> proofs_SetArguments \<Rightarrow> proofs_SetArguments reader" where
  "proofs_SetArguments_json J name t r =
     (if name = ''proofs'' then andThen (json_proofs J (pset_Proofs t) r) (\<lambda>(b, r). Ok (t\<lparr>pset_Proofs := b\<rparr>, r))
      else if name = ''provider'' then andThen (json_did J r) (\<lambda>(d, r). Ok (t\<lparr>pset_Provider := d\<rparr>, r))
      else json_skip J t r)"

definition proofs_SetArguments_UnmarshalDagJSON :: "json_lib \<Rightarrow> proofs_SetArguments reader" where
  "proofs_SetArguments_UnmarshalDagJSON J =
     json_object J (proofs_SetArguments_json J) \<lparr>pset_Provider = [], pset_Proofs = []\<rparr>"

subsection \<open>The arguments that set weights\<close>

definition SetArguments_MarshalDagJSON :: "json_lib \<Rightarrow> SetArguments option \<Rightarrow> bytes res" where
  "SetArguments_MarshalDagJSON J t =
     (case t of
        None \<Rightarrow> Ok (WriteNull J)
      | Some t \<Rightarrow> writes [Ok (WriteObjectOpen J),
          json_name J ''provider'', wrap ''marshaling field t.Provider'' (did_MarshalDagJSON J (set_Provider t)), Ok (WriteComma J),
          json_name J ''replicationWeight'', Ok (WriteInt64 J (set_ReplicationWeight t)), Ok (WriteComma J),
          json_name J ''weight'', Ok (WriteInt64 J (set_Weight t)), Ok (WriteObjectClose J)])"

definition SetArguments_json :: "json_lib \<Rightarrow> string \<Rightarrow> SetArguments \<Rightarrow> SetArguments reader" where
  "SetArguments_json J name t r =
     (if name = ''provider'' then andThen (json_did J r) (\<lambda>(d, r). Ok (t\<lparr>set_Provider := d\<rparr>, r))
      else if name = ''replicationWeight'' then
        andThen (json_number J r) (\<lambda>(x, r). Ok (t\<lparr>set_ReplicationWeight := x\<rparr>, r))
      else if name = ''weight'' then andThen (json_number J r) (\<lambda>(x, r). Ok (t\<lparr>set_Weight := x\<rparr>, r))
      else json_skip J t r)"

definition SetArguments_UnmarshalDagJSON :: "json_lib \<Rightarrow> SetArguments reader" where
  "SetArguments_UnmarshalDagJSON J =
     json_object J (SetArguments_json J) \<lparr>set_Provider = [], set_Weight = 0, set_ReplicationWeight = 0\<rparr>"

subsection \<open>What the library promises\<close>

text \<open>What is written is read back: ASCII strings within the limit, bytes within the limit, DIDs, numbers that are
  followed by a comma or the end of the object, and the punctuation; looking ahead tells an array's end from an object
  and an object's end from a name.\<close>

definition ascii :: "string \<Rightarrow> bool" where
  "ascii s \<longleftrightarrow> (\<forall>c \<in> set s. (of_char c :: nat) < 128)"

definition json_ok :: "json_lib \<Rightarrow> bool" where
  "json_ok J \<longleftrightarrow>
     (\<forall>r. ReadObjectOpen J (WriteObjectOpen J @ r) = Ok ((), r) \<and> ReadObjectColon J (WriteObjectColon J @ r) = Ok ((), r) \<and>
        ReadObjectCloseOrComma J (WriteComma J @ r) = Ok (False, r) \<and> ReadObjectCloseOrComma J (WriteObjectClose J @ r) = Ok (True, r) \<and>
        ReadArrayOpen J (WriteArrayOpen J @ r) = Ok ((), r) \<and> ReadArrayClose J (WriteArrayClose J @ r) = Ok ((), r) \<and>
        ReadArrayCloseOrComma J (WriteComma J @ r) = Ok (False, r) \<and> ReadArrayCloseOrComma J (WriteArrayClose J @ r) = Ok (True, r) \<and>
        PeekArrayClose J (WriteArrayClose J @ r) = Ok True \<and> PeekArrayClose J (WriteObjectOpen J @ r) = Ok False) \<and>
     (\<forall>bound s r. ascii s \<longrightarrow> length s \<le> bound \<longrightarrow> ReadString J bound (WriteString J s @ r) = Ok (s, r) \<and>
        PeekObjectClose J (WriteString J s @ r) = Ok False) \<and>
     (\<forall>bound b r. length b \<le> bound \<longrightarrow> ReadBytes J bound (WriteBytes J b @ r) = Ok (b, r)) \<and>
     (\<forall>x r. ReadNumberAsInt64 J (WriteInt64 J x @ WriteComma J @ r) = Ok (x, WriteComma J @ r) \<and>
        ReadNumberAsInt64 J (WriteInt64 J x @ WriteObjectClose J @ r) = Ok (x, WriteObjectClose J @ r)) \<and>
     (\<forall>d b r. did_MarshalDagJSON J d = Ok b \<longrightarrow> did_UnmarshalDagJSON J (b @ r) = Ok (d, r))"

lemma json_okD:
  assumes "json_ok J"
  shows "ReadObjectOpen J (WriteObjectOpen J @ r) = Ok ((), r)" "ReadObjectColon J (WriteObjectColon J @ r) = Ok ((), r)"
    "ReadObjectCloseOrComma J (WriteComma J @ r) = Ok (False, r)" "ReadObjectCloseOrComma J (WriteObjectClose J @ r) = Ok (True, r)"
    "ReadArrayOpen J (WriteArrayOpen J @ r) = Ok ((), r)" "ReadArrayClose J (WriteArrayClose J @ r) = Ok ((), r)"
    "ReadArrayCloseOrComma J (WriteComma J @ r) = Ok (False, r)" "ReadArrayCloseOrComma J (WriteArrayClose J @ r) = Ok (True, r)"
    "PeekArrayClose J (WriteArrayClose J @ r) = Ok True" "PeekArrayClose J (WriteObjectOpen J @ r) = Ok False"
    "ascii s \<Longrightarrow> length s \<le> bound \<Longrightarrow> ReadString J bound (WriteString J s @ r) = Ok (s, r)"
    "ascii s \<Longrightarrow> PeekObjectClose J (WriteString J s @ r) = Ok False"
    "length b \<le> bound \<Longrightarrow> ReadBytes J bound (WriteBytes J b @ r) = Ok (b, r)"
    "json_number J (WriteInt64 J x @ WriteComma J @ r) = Ok (x, WriteComma J @ r)"
    "json_number J (WriteInt64 J x @ WriteObjectClose J @ r) = Ok (x, WriteObjectClose J @ r)"
    "did_MarshalDagJSON J d = Ok b \<Longrightarrow> json_did J (b @ r) = Ok (d, r)"
proof -
  have peek: "ascii s \<Longrightarrow> length s \<le> length s \<Longrightarrow> PeekObjectClose J (WriteString J s @ r) = Ok False"
    using assms unfolding json_ok_def by blast
  have numbers: "ReadNumberAsInt64 J (WriteInt64 J x @ WriteComma J @ r) = Ok (x, WriteComma J @ r)"
      "ReadNumberAsInt64 J (WriteInt64 J x @ WriteObjectClose J @ r) = Ok (x, WriteObjectClose J @ r)"
    and dids: "did_MarshalDagJSON J d = Ok b \<Longrightarrow> did_UnmarshalDagJSON J (b @ r) = Ok (d, r)"
    using assms unfolding json_ok_def by blast+
  show "ascii s \<Longrightarrow> PeekObjectClose J (WriteString J s @ r) = Ok False"
    by (rule peek) simp_all
  show "json_number J (WriteInt64 J x @ WriteComma J @ r) = Ok (x, WriteComma J @ r)"
    "json_number J (WriteInt64 J x @ WriteObjectClose J @ r) = Ok (x, WriteObjectClose J @ r)"
    by (simp_all add: json_number_def numbers)
  show "did_MarshalDagJSON J d = Ok b \<Longrightarrow> json_did J (b @ r) = Ok (d, r)"
    by (simp add: json_did_def dids)
qed (use assms in \<open>unfold json_ok_def, blast+\<close>)

lemma json_string_Ok: "json_string J s = Ok b \<longleftrightarrow> length s \<le> 8192 \<and> b = WriteString J s"
  by (auto simp: json_string_def)

lemma json_endpoint_back:
  "json_ok J \<Longrightarrow> ascii s \<Longrightarrow> json_string J s = Ok b \<Longrightarrow> json_endpoint J (b @ r) = Ok (s, r)"
  by (simp add: json_endpoint_def json_string_Ok json_okD(11) limited_def)

lemma json_proofs_back:
  assumes "json_ok J" and "json_bytes J b = Ok e"
  shows "json_proofs J [] (e @ r) = Ok (b, r)"
proof -
  have "length b \<le> 2097152" and e: "e = WriteBytes J b"
    using assms(2) by (auto simp: json_bytes_def split: if_splits)
  then have "ReadBytes J 2097152 (e @ r) = Ok (b, r)"
    unfolding e by (intro json_okD(13) [OF assms(1)])
  then show ?thesis
    by (auto simp: json_proofs_def limited_def)
qed

lemma json_name_Ok:
  "json_name J name = Ok b \<longleftrightarrow> length name \<le> 8192 \<and> b = WriteString J name @ WriteObjectColon J"
  by (auto simp: json_name_def json_string_Ok)

text \<open>One turn of the loop, and its start.\<close>

lemma json_fields_name:
  assumes "json_ok J" and "json_name J name = Ok b" and "ascii name"
  shows "json_fields J field (Suc n) t (b @ r) =
     andThen (field name t r) (\<lambda>(t, r).
     andThen (wrap ''reading object close or comma for field'' (ReadObjectCloseOrComma J r)) (\<lambda>(closed, r).
       if closed then Ok (t, r)
       else if n = 0 then Err (Errorf ''map too large'')
       else json_fields J field n t r))"
  using assms by (simp add: json_name_Ok json_okD limited_def)

lemma json_object_first:
  assumes "json_ok J" and "json_name J name = Ok b" and "ascii name"
    and "\<And>n. json_fields J field (Suc (Suc (Suc (Suc n)))) t (b @ r) = Ok y"
  shows "json_object J field t (WriteObjectOpen J @ b @ r) = Ok y"
proof -
  have "json_fields J field 8192 t (b @ r) = Ok y"
    using assms(4) [of 8188] by (simp del: json_fields.simps)
  with assms(1-3) show ?thesis
    by (simp add: json_name_Ok json_object_def json_okD(1,12) eof_unexpected_def del: json_fields.simps)
qed

lemma ascii_names:
  "ascii ''endpoint''" "ascii ''provider''" "ascii ''replicationWeight''" "ascii ''weight''" "ascii ''proofs''" "ascii ''providers''"
  by (simp_all add: ascii_def)



lemmas json_defs = Provider_json_def ListOK_json_def RegisterArguments_json_def DeregisterArguments_json_def
  proofs_SetArguments_json_def SetArguments_json_def

subsection \<open>Every type is read back\<close>

lemma Provider_json_back:
  assumes J: "json_ok J" and url: "ascii (pv_Endpoint t)" and "Provider_MarshalDagJSON J (Some t) = Ok b"
  shows "Provider_UnmarshalDagJSON J (b @ r) = Ok (t, r)"
proof -
  from assms(3) obtain n1 v1 n2 v2 n3 n4 where n: "json_name J ''endpoint'' = Ok n1" "json_name J ''provider'' = Ok n2"
      "json_name J ''replicationWeight'' = Ok n3" "json_name J ''weight'' = Ok n4"
    and v: "json_string J (pv_Endpoint t) = Ok v1" "did_MarshalDagJSON J (pv_Provider t) = Ok v2"
    and b: "b = WriteObjectOpen J @ n1 @ v1 @ WriteComma J @ n2 @ v2 @ WriteComma J @
      n3 @ WriteInt64 J (pv_ReplicationWeight t) @ WriteComma J @ n4 @ WriteInt64 J (pv_Weight t) @ WriteObjectClose J"
    by (auto simp: Provider_MarshalDagJSON_def)
  note names = n [THEN json_fields_name [OF J]]
  show ?thesis
    unfolding Provider_UnmarshalDagJSON_def b append_assoc
    by (rule json_object_first [OF J n(1)])
      (simp_all add: names ascii_names json_okD [OF J] v(1) [THEN json_endpoint_back [OF J url]]
        v(2) [THEN json_okD(16) [OF J]] json_defs del: json_fields.simps(2))
qed

lemma RegisterArguments_json_back:
  assumes J: "json_ok J" and url: "ascii (reg_Endpoint t)" and "RegisterArguments_MarshalDagJSON J (Some t) = Ok b"
  shows "RegisterArguments_UnmarshalDagJSON J (b @ r) = Ok (t, r)"
proof -
  from assms(3) obtain n1 v1 n2 v2 n3 v3 where n: "json_name J ''endpoint'' = Ok n1" "json_name J ''proofs'' = Ok n2"
      "json_name J ''provider'' = Ok n3"
    and v: "json_string J (reg_Endpoint t) = Ok v1" "json_bytes J (reg_Proofs t) = Ok v2" "did_MarshalDagJSON J (reg_Provider t) = Ok v3"
    and b: "b = WriteObjectOpen J @ n1 @ v1 @ WriteComma J @ n2 @ v2 @ WriteComma J @ n3 @ v3 @ WriteObjectClose J"
    by (auto simp: RegisterArguments_MarshalDagJSON_def)
  show ?thesis
    unfolding RegisterArguments_UnmarshalDagJSON_def b append_assoc
    by (rule json_object_first [OF J n(1)])
      (simp_all add: n [THEN json_fields_name [OF J]] ascii_names json_okD [OF J] v(1) [THEN json_endpoint_back [OF J url]]
        v(2) [THEN json_proofs_back [OF J]] v(3) [THEN json_okD(16) [OF J]] json_defs del: json_fields.simps(2))
qed

lemma DeregisterArguments_json_back:
  assumes J: "json_ok J" and "DeregisterArguments_MarshalDagJSON J (Some t) = Ok b"
  shows "DeregisterArguments_UnmarshalDagJSON J (b @ r) = Ok (t, r)"
proof -
  from assms(2) obtain n1 v1 where n: "json_name J ''provider'' = Ok n1" and v: "did_MarshalDagJSON J (dereg_Provider t) = Ok v1"
    and b: "b = WriteObjectOpen J @ n1 @ v1 @ WriteObjectClose J"
    by (auto simp: DeregisterArguments_MarshalDagJSON_def)
  show ?thesis
    unfolding DeregisterArguments_UnmarshalDagJSON_def b append_assoc
    by (rule json_object_first [OF J n])
      (simp_all add: n [THEN json_fields_name [OF J]] ascii_names json_okD [OF J] v [THEN json_okD(16) [OF J]] json_defs
        del: json_fields.simps(2))
qed

lemma proofs_SetArguments_json_back:
  assumes J: "json_ok J" and "proofs_SetArguments_MarshalDagJSON J (Some t) = Ok b"
  shows "proofs_SetArguments_UnmarshalDagJSON J (b @ r) = Ok (t, r)"
proof -
  from assms(2) obtain n1 v1 n2 v2 where n: "json_name J ''proofs'' = Ok n1" "json_name J ''provider'' = Ok n2"
    and v: "json_bytes J (pset_Proofs t) = Ok v1" "did_MarshalDagJSON J (pset_Provider t) = Ok v2"
    and b: "b = WriteObjectOpen J @ n1 @ v1 @ WriteComma J @ n2 @ v2 @ WriteObjectClose J"
    by (auto simp: proofs_SetArguments_MarshalDagJSON_def)
  show ?thesis
    unfolding proofs_SetArguments_UnmarshalDagJSON_def b append_assoc
    by (rule json_object_first [OF J n(1)])
      (simp_all add: n [THEN json_fields_name [OF J]] ascii_names json_okD [OF J] v(1) [THEN json_proofs_back [OF J]]
        v(2) [THEN json_okD(16) [OF J]] json_defs del: json_fields.simps(2))
qed

lemma SetArguments_json_back:
  assumes J: "json_ok J" and "SetArguments_MarshalDagJSON J (Some t) = Ok b"
  shows "SetArguments_UnmarshalDagJSON J (b @ r) = Ok (t, r)"
proof -
  from assms(2) obtain n1 v1 n2 n3 where n: "json_name J ''provider'' = Ok n1" "json_name J ''replicationWeight'' = Ok n2"
      "json_name J ''weight'' = Ok n3"
    and v: "did_MarshalDagJSON J (set_Provider t) = Ok v1"
    and b: "b = WriteObjectOpen J @ n1 @ v1 @ WriteComma J @ n2 @ WriteInt64 J (set_ReplicationWeight t) @ WriteComma J @
      n3 @ WriteInt64 J (set_Weight t) @ WriteObjectClose J"
    by (auto simp: SetArguments_MarshalDagJSON_def)
  show ?thesis
    unfolding SetArguments_UnmarshalDagJSON_def b append_assoc
    by (rule json_object_first [OF J n(1)])
      (simp_all add: n [THEN json_fields_name [OF J]] ascii_names json_okD [OF J] v [THEN json_okD(16) [OF J]] json_defs
        del: json_fields.simps(2))
qed

lemma json_items_Cons:
  "writes (json_items J (p # q # qs)) = Ok b \<longleftrightarrow>
     (\<exists>c d. Provider_MarshalDagJSON J (Some p) = Ok c \<and> writes (json_items J (q # qs)) = Ok d \<and> b = c @ WriteComma J @ d)"
  by (auto simp: writes_append)

lemma json_array_back:
  assumes J: "json_ok J" and "writes (json_items J (p # ps)) = Ok b" and "length ps \<le> n"
    and "\<forall>q \<in> set (p # ps). ascii (pv_Endpoint q)"
  shows "json_array J (Suc n) acc (b @ WriteArrayClose J @ r) = Ok (acc @ p # ps, r)"
  using assms(2-4)
proof (induction ps arbitrary: p acc n b)
  case Nil
  then have "Provider_MarshalDagJSON J (Some p) = Ok b" by simp
  with Nil Provider_json_back [OF J _ this] show ?case
    by (simp add: json_okD [OF J])
next
  case (Cons q qs)
  then obtain c d where cd: "Provider_MarshalDagJSON J (Some p) = Ok c" "writes (json_items J (q # qs)) = Ok d"
    "b = c @ WriteComma J @ d"
    unfolding json_items_Cons by blast
  obtain m where m: "n = Suc m" "length qs \<le> m"
    using Cons.prems(2) by (cases n) auto
  have "json_array J (Suc m) (acc @ [p]) (d @ WriteArrayClose J @ r) = Ok ((acc @ [p]) @ q # qs, r)"
    using Cons.prems(3) m by (intro Cons.IH [OF cd(2)]) auto
  with Cons.prems(3) Provider_json_back [OF J _ cd(1)] m show ?case
    by (simp add: cd(3) json_okD [OF J] del: andThen_eq_Ok)
qed

lemma ListOK_json_back:
  assumes J: "json_ok J" and urls: "\<forall>p \<in> set (lok_Providers t). ascii (pv_Endpoint p)"
    and "ListOK_MarshalDagJSON J (Some t) = Ok b"
  shows "ListOK_UnmarshalDagJSON J (b @ r) = Ok (t, r)"
proof -
  from assms(3) obtain n1 ps where n: "json_name J ''providers'' = Ok n1" and len: "length (lok_Providers t) \<le> 8192"
    and ps: "writes (json_items J (lok_Providers t)) = Ok ps"
    and b: "b = WriteObjectOpen J @ n1 @ WriteArrayOpen J @ ps @ WriteArrayClose J @ WriteObjectClose J"
    by (auto simp: ListOK_MarshalDagJSON_def writes_append split: if_splits)
  have "ListOK_json J ''providers'' \<lparr>lok_Providers = []\<rparr> (WriteArrayOpen J @ ps @ WriteArrayClose J @ WriteObjectClose J @ r) =
      Ok (t, WriteObjectClose J @ r)"
  proof (cases "lok_Providers t")
    case Nil
    with ps show ?thesis by (simp add: ListOK_json_def json_okD [OF J])
  next
    case (Cons p qs)
    then obtain c where "ps = WriteObjectOpen J @ c"
      using ps by (auto simp: Provider_MarshalDagJSON_def)
    moreover have "json_array J 8192 [] (ps @ WriteArrayClose J @ WriteObjectClose J @ r) = Ok (p # qs, WriteObjectClose J @ r)"
      using json_array_back [OF J ps [unfolded Cons], of 8191 "[]" "WriteObjectClose J @ r"] len urls Cons
      by (simp del: json_array.simps)
    ultimately show ?thesis
      using Cons by (simp add: ListOK_json_def json_okD [OF J] del: json_array.simps)
  qed
  then show ?thesis
    unfolding ListOK_UnmarshalDagJSON_def b append_assoc
    by (intro json_object_first [OF J n])
      (simp_all add: n [THEN json_fields_name [OF J]] ascii_names json_okD [OF J] del: json_fields.simps(2))
qed

interpretation provider_json: codec json_ok "\<lambda>t. ascii (pv_Endpoint t)" "\<lambda>J t. Provider_MarshalDagJSON J (Some t)"
  Provider_UnmarshalDagJSON
  by unfold_locales (rule Provider_json_back)

interpretation list_json: codec json_ok "\<lambda>t. \<forall>p \<in> set (lok_Providers t). ascii (pv_Endpoint p)"
  "\<lambda>J t. ListOK_MarshalDagJSON J (Some t)" ListOK_UnmarshalDagJSON
  by unfold_locales (rule ListOK_json_back)

interpretation register_json: codec json_ok "\<lambda>t. ascii (reg_Endpoint t)" "\<lambda>J t. RegisterArguments_MarshalDagJSON J (Some t)"
  RegisterArguments_UnmarshalDagJSON
  by unfold_locales (rule RegisterArguments_json_back)

interpretation deregister_json: codec json_ok "\<lambda>_. True" "\<lambda>J t. DeregisterArguments_MarshalDagJSON J (Some t)"
  DeregisterArguments_UnmarshalDagJSON
  by unfold_locales (rule DeregisterArguments_json_back)

interpretation proofs_json: codec json_ok "\<lambda>_. True" "\<lambda>J t. proofs_SetArguments_MarshalDagJSON J (Some t)"
  proofs_SetArguments_UnmarshalDagJSON
  by unfold_locales (rule proofs_SetArguments_json_back)

interpretation weights_json: codec json_ok "\<lambda>_. True" "\<lambda>J t. SetArguments_MarshalDagJSON J (Some t)" SetArguments_UnmarshalDagJSON
  by unfold_locales (rule SetArguments_json_back)

text \<open>
Property C38. The DAG-JSON forms are read back. For every type of the operator's commands, bytes that the encoder
wrote, whatever follows them, are decoded to the value they were written from and leave what follows, for endpoints
in ASCII, as URLs are. The hypothesis is that the JSON library reads back the single values and the punctuation.
\<close>

theorem dagjson_roundtrip:
  assumes "json_ok J"
  shows "(\<forall>t b r. Provider_MarshalDagJSON J (Some t) = Ok b \<longrightarrow> ascii (pv_Endpoint t) \<longrightarrow>
      Provider_UnmarshalDagJSON J (b @ r) = Ok (t, r)) \<and>
    (\<forall>t b r. ListOK_MarshalDagJSON J (Some t) = Ok b \<longrightarrow> (\<forall>p \<in> set (lok_Providers t). ascii (pv_Endpoint p)) \<longrightarrow>
      ListOK_UnmarshalDagJSON J (b @ r) = Ok (t, r)) \<and>
    (\<forall>t b r. RegisterArguments_MarshalDagJSON J (Some t) = Ok b \<longrightarrow> ascii (reg_Endpoint t) \<longrightarrow>
      RegisterArguments_UnmarshalDagJSON J (b @ r) = Ok (t, r)) \<and>
    (\<forall>t b r. DeregisterArguments_MarshalDagJSON J (Some t) = Ok b \<longrightarrow> DeregisterArguments_UnmarshalDagJSON J (b @ r) = Ok (t, r)) \<and>
    (\<forall>t b r. proofs_SetArguments_MarshalDagJSON J (Some t) = Ok b \<longrightarrow> proofs_SetArguments_UnmarshalDagJSON J (b @ r) = Ok (t, r)) \<and>
    (\<forall>t b r. SetArguments_MarshalDagJSON J (Some t) = Ok b \<longrightarrow> SetArguments_UnmarshalDagJSON J (b @ r) = Ok (t, r))"
  using assms
  by (simp add: provider_json.dec_enc list_json.dec_enc register_json.dec_enc deregister_json.dec_enc proofs_json.dec_enc
      weights_json.dec_enc)

subsection \<open>A library that keeps its promises\<close>

text \<open>Strings between quotes, with quotes and backslashes escaped, and decimal numbers.\<close>

fun quoted :: "string \<Rightarrow> bytes" where
  "quoted [] = [CHR 0x22]"
| "quoted (c # s) = (if c = CHR 0x22 \<or> c = CHR 0x5C then [CHR 0x5C, c] else [c]) @ quoted s"

fun unquote :: "string reader" where
  "unquote [] = Err io_ErrUnexpectedEOF"
| "unquote (c # r) =
     (if c = CHR 0x22 then Ok ([], r)
      else if c = CHR 0x5C then
        (case r of [] \<Rightarrow> Err io_ErrUnexpectedEOF | d # r \<Rightarrow> andThen (unquote r) (\<lambda>(s, r). Ok (d # s, r)))
      else andThen (unquote r) (\<lambda>(s, r). Ok (c # s, r)))"

lemma unquote_quoted: "unquote (quoted s @ r) = Ok (s, r)"
  by (induction s) auto

fun token_reader :: "char \<Rightarrow> unit reader" where
  "token_reader c [] = Err io_EOF"
| "token_reader c (d # r) = (if d = c then Ok ((), r) else Err (Errorf ''unexpected token''))"

fun close_or_comma :: "char \<Rightarrow> bool reader" where
  "close_or_comma c [] = Err io_EOF"
| "close_or_comma c (d # r) = (if d = c then Ok (True, r) else if d = CHR '','' then Ok (False, r) else Err (Errorf ''unexpected token''))"

fun peek_token :: "char \<Rightarrow> bytes \<Rightarrow> bool res" where
  "peek_token c [] = Err io_EOF"
| "peek_token c (d # r) = Ok (d = c)"

definition string_reader :: "gerr \<Rightarrow> nat \<Rightarrow> string reader" where
  "string_reader limit bound r =
     andThen (token_reader (CHR 0x22) r) (\<lambda>(_, r). andThen (unquote r) (\<lambda>(s, r).
       if bound < length s then Err limit else Ok (s, r)))"

definition unsigned_reader :: "nat reader" where
  "unsigned_reader r =
     (let s = takeWhile (\<lambda>c. digit_value c \<noteq> None) r in
      case parse_digits s of
        None \<Rightarrow> Err (Errorf ''invalid number'')
      | Some n \<Rightarrow> Ok (n, drop (length s) r))"

fun number_reader :: "int64 reader" where
  "number_reader [] = Err io_EOF"
| "number_reader (c # r) =
     (if c = CHR ''-'' then andThen (unsigned_reader r) (\<lambda>(n, r). Ok (- of_nat n, r))
      else andThen (unsigned_reader (c # r)) (\<lambda>(n, r). Ok (of_nat n, r)))"

definition sample_json_lib :: json_lib where
  "sample_json_lib = \<lparr>WriteNull = ''null'', WriteObjectOpen = [CHR 0x7B], WriteObjectClose = [CHR 0x7D], WriteObjectColon = '':'',
     WriteComma = '','', WriteArrayOpen = ''['', WriteArrayClose = '']'', WriteString = (\<lambda>s. CHR 0x22 # quoted s),
     WriteInt64 = (\<lambda>x. Itoa (sint x)), WriteBytes = (\<lambda>b. CHR 0x22 # quoted b),
     did_MarshalDagJSON = (\<lambda>d. if d = [] \<or> 8192 < length d then Err (Errorf ''undefined DID'') else Ok (CHR 0x22 # quoted d)),
     ErrLimitExceeded = Errorf ''limit exceeded'', ReadObjectOpen = token_reader (CHR 0x7B), PeekObjectClose = peek_token (CHR 0x7D),
     ReadObjectClose = token_reader (CHR 0x7D), ReadObjectColon = token_reader (CHR '':''),
     ReadObjectCloseOrComma = close_or_comma (CHR 0x7D), ReadArrayOpen = token_reader (CHR ''[''),
     PeekArrayClose = peek_token (CHR '']''), ReadArrayClose = token_reader (CHR '']''),
     ReadArrayCloseOrComma = close_or_comma (CHR '']''), ReadString = string_reader (Errorf ''limit exceeded''),
     ReadBytes = string_reader (Errorf ''limit exceeded''), ReadNumberAsInt64 = number_reader,
     DiscardType = (\<lambda>r. andThen (string_reader (Errorf ''limit exceeded'') 8192 r) (\<lambda>(_, r). Ok ((), r))),
     did_UnmarshalDagJSON = string_reader (Errorf ''limit exceeded'') 8192\<rparr>"

lemma unsigned_back:
  assumes "digit_value c = None"
  shows "unsigned_reader (digits n @ c # r) = Ok (n, c # r)"
proof -
  have "\<forall>d \<in> set (digits n). digit_value d \<noteq> None"
  proof -
    have "None \<notin> digit_value ` set (digits n)"
      using conjunct1 [OF digits_parse [of n]] by (simp add: parse_digits_def split: if_splits)
    then show ?thesis by force
  qed
  then have "takeWhile (\<lambda>c. digit_value c \<noteq> None) (digits n @ c # r) = digits n"
    using assms by (simp add: takeWhile_append2)
  then show ?thesis
    using digits_parse [of n] by (simp add: unsigned_reader_def Let_def)
qed

lemma number_back:
  assumes "digit_value c = None"
  shows "number_reader (Itoa (sint x) @ c # r) = Ok (x, c # r)"
proof (cases "sint x < 0")
  case True
  then have "(- of_nat (nat (- sint x)) :: int64) = of_int (sint x)"
    by (simp add: of_nat_nat)
  also have "\<dots> = x" by simp
  finally show ?thesis
    using True unsigned_back [OF assms, of "nat (- sint x)" r] by (simp add: Itoa_def del: andThen_eq_Ok)
next
  case False
  then have "(of_nat (nat (sint x)) :: int64) = of_int (sint x)"
    by (simp add: of_nat_nat)
  also have "\<dots> = x" by simp
  finally have x: "(of_nat (nat (sint x)) :: int64) = x" .
  obtain d ds where d: "digits (nat (sint x)) = d # ds"
    using digits_parse [of "nat (sint x)"] by (cases "digits (nat (sint x))") (auto simp: parse_digits_def)
  then have "d \<noteq> CHR ''-''"
    using digits_parse [of "nat (sint x)"] by auto
  then show ?thesis
    using False d x unsigned_back [OF assms, of "nat (sint x)" r] by (simp add: Itoa_def del: andThen_eq_Ok)
qed

lemma sample_json_ok: "json_ok sample_json_lib"
proof -
  have "digit_value CHR '','' = None" "digit_value (CHR 0x7D) = None"
    by (simp_all add: digit_value_def)
  from this [THEN number_back] show ?thesis
    unfolding json_ok_def
    by (auto simp: sample_json_lib_def string_reader_def unquote_quoted split: if_splits)
qed

theorem dagjson_roundtrip_witness:
  "(\<exists>b. ListOK_MarshalDagJSON sample_json_lib (Some \<lparr>lok_Providers = [sample_provider, sample_provider]\<rparr>) = Ok b \<and>
     ListOK_UnmarshalDagJSON sample_json_lib (b @ ''rest'') = Ok (\<lparr>lok_Providers = [sample_provider, sample_provider]\<rparr>, ''rest'')) \<and>
   (\<exists>b. SetArguments_MarshalDagJSON sample_json_lib (Some sample_weights) = Ok b \<and>
     SetArguments_UnmarshalDagJSON sample_json_lib b = Ok (sample_weights, []))"
proof -
  have "is_Ok (ListOK_MarshalDagJSON sample_json_lib (Some \<lparr>lok_Providers = [sample_provider, sample_provider]\<rparr>))"
    "is_Ok (SetArguments_MarshalDagJSON sample_json_lib (Some sample_weights))"
    by (simp_all add: ListOK_MarshalDagJSON_def Provider_MarshalDagJSON_def SetArguments_MarshalDagJSON_def json_name_def
        json_string_def sample_json_lib_def sample_provider_def sample_weights_def)
  then obtain b c where b: "ListOK_MarshalDagJSON sample_json_lib (Some \<lparr>lok_Providers = [sample_provider, sample_provider]\<rparr>) = Ok b"
    "SetArguments_MarshalDagJSON sample_json_lib (Some sample_weights) = Ok c"
    unfolding is_Ok_iff by blast
  have "\<forall>p \<in> set (lok_Providers \<lparr>lok_Providers = [sample_provider, sample_provider]\<rparr>). ascii (pv_Endpoint p)"
    by (simp add: ascii_def sample_provider_def)
  with dagjson_roundtrip [OF sample_json_ok] b have
    "ListOK_UnmarshalDagJSON sample_json_lib (b @ ''rest'') = Ok (\<lparr>lok_Providers = [sample_provider, sample_provider]\<rparr>, ''rest'')"
    "SetArguments_UnmarshalDagJSON sample_json_lib (c @ []) = Ok (sample_weights, [])"
    by blast+
  with b show ?thesis by simp
qed

end
