(* ===== verification/Sql.thy ===== *)
theory Sql
  imports Diff_Logs Metrics
begin

section \<open>The database behind the Postgres stores\<close>

text \<open>
  The Postgres backends of the stores talk to one database through a connection pool. This theory has
  the tables (\<^verbatim>\<open>internal/migrations/sql\<close>, as the last migration leaves them), what the SQL statements of the
  stores do to a table, and the two ways a statement is run: by itself on the pool, or inside a
  transaction.

  A table is the list of its rows. A statement is a function of the transaction time (\<^verbatim>\<open>NOW()\<close>) and the
  database; it either changes the database and answers, or fails and changes nothing. The statements are
  those of SQL as PostgreSQL documents it: a primary key refuses a second row (\<^verbatim>\<open>23505\<close>), a foreign key a
  missing one (\<^verbatim>\<open>23503\<close>), \<^verbatim>\<open>BIGINT\<close> arithmetic fails outside 64 bits (\<^verbatim>\<open>22003\<close>), and a query without
  \<^verbatim>\<open>ORDER BY\<close> gives its rows in any order. \<^verbatim>\<open>TEXT\<close> is compared through the collation of the database, which is
  a parameter: a key whose byte order is the order of the collation. Beside the tables stand the objects of
  the S3 buckets, under the bucket's name and the object's key; a request to S3 is one of the numbered requests.

  What a caller cannot rule out is the environment \<open>pg_env\<close>, numbered by the requests sent: a request may be
  lost before it has an effect, or its answer may be lost after it had one; other sessions may commit
  between two requests; the clock of the server; the order of unordered rows; and the slices that fit in memory. A transaction sees the
  database as its \<^verbatim>\<open>BEGIN\<close> finds it: other sessions' commits fall before its beginning or after its end, since
  its statements touch rows they lock until it ends, and its counters move by relative amounts.
\<close>

subsection \<open>Tables\<close>

record blob_row =
  br_space :: string
  br_digest :: string
  br_size :: int
  br_cause :: string
  br_inserted_at :: time

record diff_row =
  dr_space :: string
  dr_receipt_at :: time
  dr_cause :: string
  dr_delta :: int
  dr_inserted_at :: time

record upload_row =
  ur_space :: string
  ur_root :: string
  ur_index :: "string option"
  ur_cause :: string
  ur_inserted_at :: time
  ur_updated_at :: time

record shard_row =
  sh_space :: string
  sh_root :: string
  sh_shard :: string

record customer_row =
  cr_customer :: string
  cr_external_account :: "string option"
  cr_product :: string
  cr_details :: "bytes option"
  cr_reserved_capacity :: "int option"
  cr_inserted_at :: time
  cr_updated_at :: "time option"

record subscription_row =
  sr_subscription :: string
  sr_provider :: string
  sr_customer :: string
  sr_cause :: string
  sr_inserted_at :: time

record consumer_row =
  cn_subscription :: string
  cn_provider :: string
  cn_consumer :: string
  cn_customer :: string
  cn_cause :: string
  cn_inserted_at :: time

record provider_row =
  pr_provider :: string
  pr_endpoint :: string
  pr_weight :: int
  pr_replication_weight :: "int option"
  pr_proofs :: "bytes option"
  pr_inserted_at :: time
  pr_updated_at :: time

record policy_row =
  po_policy :: string
  po_candidates :: "string list"
  po_cause :: string
  po_inserted_at :: time
  po_updated_at :: time

record space_routing_row =
  so_space :: string
  so_policy :: string
  so_cause :: string
  so_inserted_at :: time
  so_updated_at :: time

record replica_row =
  rr_space :: string
  rr_digest :: string
  rr_provider :: string
  rr_status :: string
  rr_cause :: string
  rr_inserted_at :: time
  rr_updated_at :: time

record revocation_row =
  rv_revoke :: string
  rv_scope :: string
  rv_cause :: string
  rv_inserted_at :: time

record delegation_row =
  dl_link :: string
  dl_audience :: string
  dl_issuer :: string
  dl_cause :: "string option"
  dl_expiration :: "int option"
  dl_inserted_at :: time
  dl_updated_at :: time

record agent_row =
  ag_task :: string
  ag_kind :: string
  ag_token :: string
  ag_message :: string
  ag_inserted_at :: time

record database =
  t_blob_registry :: "blob_row list"
  t_space_diff :: "diff_row list"
  t_upload_diff :: "diff_row list"
  t_admin_metrics :: "(metric \<times> int) list"
  t_space_metrics :: "((string \<times> metric) \<times> int) list"
  t_upload :: "upload_row list"
  t_upload_shard :: "shard_row list"
  t_customer :: "customer_row list"
  t_subscription :: "subscription_row list"
  t_consumer :: "consumer_row list"
  t_storage_provider :: "provider_row list"
  t_routing_policy :: "policy_row list"
  t_space_routing :: "space_routing_row list"
  t_replica :: "replica_row list"
  t_revocation :: "revocation_row list"
  t_delegation :: "delegation_row list"
  t_agent_index :: "agent_row list"
  t_bucket :: "string \<times> string \<rightharpoonup> bytes"

definition empty_database :: database where
  "empty_database = \<lparr>t_blob_registry = [], t_space_diff = [], t_upload_diff = [], t_admin_metrics = [],
     t_space_metrics = [], t_upload = [], t_upload_shard = [], t_customer = [], t_subscription = [],
     t_consumer = [], t_storage_provider = [], t_routing_policy = [], t_space_routing = [], t_replica = [],
     t_revocation = [], t_delegation = [], t_agent_index = [], t_bucket = Map.empty\<rparr>"

subsection \<open>Statements\<close>

text \<open>A failure of a statement: an error of the server with its code, no row where one is scanned, a
  request that was lost, or an answer that was lost.\<close>

datatype sql_error = PgError string | ErrNoRows | ConnError string | AnswerLost string

datatype 'a sql = Done 'a | Fail sql_error

type_synonym 'a stmt = "time \<Rightarrow> database \<Rightarrow> (database \<times> 'a) sql"

definition uniqueViolation :: string where
  "uniqueViolation = ''23505''"

definition foreignKeyViolation :: string where
  "foreignKeyViolation = ''23503''"

fun sql_gerr :: "sql_error \<Rightarrow> gerr" where
  "sql_gerr (PgError code) = Errorf code"
| "sql_gerr ErrNoRows = Errorf ''no rows in result set''"
| "sql_gerr (ConnError m) = Errorf m"
| "sql_gerr (AnswerLost m) = Errorf m"

text \<open>\<^verbatim>\<open>INSERT\<close>, \<^verbatim>\<open>INSERT ... ON CONFLICT (key) DO NOTHING\<close>, \<^verbatim>\<open>INSERT ... ON CONFLICT (key) DO UPDATE\<close> (which also
  says whether it inserted), \<^verbatim>\<open>UPDATE\<close> and \<^verbatim>\<open>DELETE\<close>, with the number of rows affected.\<close>

definition sql_insert :: "('r \<Rightarrow> 'k) \<Rightarrow> 'r \<Rightarrow> 'r list \<Rightarrow> ('r list \<times> nat) sql" where
  "sql_insert key row t =
     (if key row \<in> key ` set t then Fail (PgError uniqueViolation) else Done (t @ [row], 1))"

definition sql_insert_nothing :: "('r \<Rightarrow> 'k) \<Rightarrow> 'r \<Rightarrow> 'r list \<Rightarrow> ('r list \<times> nat) sql" where
  "sql_insert_nothing key row t =
     (if key row \<in> key ` set t then Done (t, 0) else Done (t @ [row], 1))"

definition sql_upsert :: "('r \<Rightarrow> 'k) \<Rightarrow> ('r \<Rightarrow> 'r sql) \<Rightarrow> 'r \<Rightarrow> 'r list \<Rightarrow> ('r list \<times> bool) sql" where
  "sql_upsert key upd row t =
     (case find (\<lambda>r. key r = key row) t of
        None \<Rightarrow> Done (t @ [row], True)
      | Some old \<Rightarrow>
          (case upd old of
             Fail e \<Rightarrow> Fail e
           | Done new \<Rightarrow> Done (map (\<lambda>r. if key r = key row then new else r) t, False)))"

definition sql_update :: "('r \<Rightarrow> bool) \<Rightarrow> ('r \<Rightarrow> 'r) \<Rightarrow> 'r list \<Rightarrow> ('r list \<times> nat) sql" where
  "sql_update cond upd t = Done (map (\<lambda>r. if cond r then upd r else r) t, length (filter cond t))"

definition sql_delete :: "('r \<Rightarrow> bool) \<Rightarrow> 'r list \<Rightarrow> ('r list \<times> nat) sql" where
  "sql_delete cond t = Done (filter (\<lambda>r. \<not> cond r) t, length (filter cond t))"

text \<open>A \<^verbatim>\<open>BIGINT\<close> or \<^verbatim>\<open>INTEGER\<close> value that the column can hold.\<close>

definition bigint :: "int \<Rightarrow> int sql" where
  "bigint i = (if - (2 ^ 63) \<le> i \<and> i < 2 ^ 63 then Done i else Fail (PgError ''22003''))"

definition integer4 :: "int \<Rightarrow> int sql" where
  "integer4 i = (if - (2 ^ 31) \<le> i \<and> i < 2 ^ 31 then Done i else Fail (ConnError ''unable to encode int4''))"

fun sql_bind :: "'a sql \<Rightarrow> ('a \<Rightarrow> 'b sql) \<Rightarrow> 'b sql" where
  "sql_bind (Done x) f = f x"
| "sql_bind (Fail e) f = Fail e"

text \<open>A statement on one table of the database.\<close>

fun on_table :: "('t \<Rightarrow> database) \<Rightarrow> ('t \<times> 'a) sql \<Rightarrow> (database \<times> 'a) sql" where
  "on_table put (Done (t, x)) = Done (put t, x)"
| "on_table put (Fail e) = Fail e"

lemma sql_bind_Done [simp]: "sql_bind r f = Done y \<longleftrightarrow> (\<exists>x. r = Done x \<and> f x = Done y)"
  by (cases r) auto

lemma on_table_Done [simp]: "on_table put r = Done (d, x) \<longleftrightarrow> (\<exists>t. r = Done (t, x) \<and> d = put t)"
  by (cases "(put, r)" rule: on_table.cases) auto

lemma on_table_Fail [simp]: "on_table put r = Fail e \<longleftrightarrow> r = Fail e"
  by (cases "(put, r)" rule: on_table.cases) auto

lemma bigint_Done [simp]: "bigint i = Done j \<longleftrightarrow> j = i \<and> - (2 ^ 63) \<le> i \<and> i < 2 ^ 63"
  by (auto simp: bigint_def)

lemma sql_insert_cases:
  "sql_insert key row t = Done (t', n) \<longleftrightarrow> key row \<notin> key ` set t \<and> t' = t @ [row] \<and> n = 1"
  "sql_insert key row t = Fail e \<longleftrightarrow> key row \<in> key ` set t \<and> e = PgError uniqueViolation"
  by (auto simp: sql_insert_def)

text \<open>What a statement does to a table that is read by key.\<close>

lemma find_append_key:
  "find (\<lambda>r. key r = k) (t @ [row]) = (case find (\<lambda>r. key r = k) t of
     Some r \<Rightarrow> Some r | None \<Rightarrow> (if key row = k then Some row else None))"
  by (induction t) auto

lemma find_map_key:
  assumes "\<And>r. key r = k \<Longrightarrow> key (f r) = k"
  shows "find (\<lambda>r. key r = k') (map (\<lambda>r. if key r = k then f r else r) t) =
    (if k' = k then map_option f (find (\<lambda>r. key r = k) t) else find (\<lambda>r. key r = k') t)"
  using assms by (induction t) auto

lemma sql_upsert_Done:
  assumes "sql_upsert key upd row t = Done (t', ins)"
    and "\<forall>r r'. key r = key row \<longrightarrow> upd r = Done r' \<longrightarrow> key r' = key row"
  shows "ins \<longleftrightarrow> find (\<lambda>r. key r = key row) t = None"
    and "map key t' = map key t @ (if ins then [key row] else [])"
    and "find (\<lambda>r. key r = key row) t = None \<Longrightarrow>
      find (\<lambda>r. key r = k) t' = (if k = key row then Some row else find (\<lambda>r. key r = k) t)"
    and "find (\<lambda>r. key r = key row) t = Some old \<Longrightarrow>
      \<exists>new. upd old = Done new \<and> find (\<lambda>r. key r = k) t' = (if k = key row then Some new else find (\<lambda>r. key r = k) t)"
    and "set t' \<subseteq> insert row (set t \<union> {new. \<exists>old \<in> set t. key old = key row \<and> upd old = Done new})"
proof -
  have "(ins \<longleftrightarrow> find (\<lambda>r. key r = key row) t = None) \<and> map key t' = map key t @ (if ins then [key row] else []) \<and>
    (find (\<lambda>r. key r = key row) t = None \<longrightarrow>
      find (\<lambda>r. key r = k) t' = (if k = key row then Some row else find (\<lambda>r. key r = k) t)) \<and>
    (\<forall>old. find (\<lambda>r. key r = key row) t = Some old \<longrightarrow>
      (\<exists>new. upd old = Done new \<and>
        find (\<lambda>r. key r = k) t' = (if k = key row then Some new else find (\<lambda>r. key r = k) t))) \<and>
    set t' \<subseteq> insert row (set t \<union> {new. \<exists>old \<in> set t. key old = key row \<and> upd old = Done new})"
  proof (cases "find (\<lambda>r. key r = key row) t")
    case None
    with assms(1) show ?thesis
      by (auto simp: sql_upsert_def find_append_key split: option.splits)
  next
    case (Some old)
    with assms(1) obtain new where new: "upd old = Done new" "ins = False"
      and t': "t' = map (\<lambda>r. if key r = key row then new else r) t"
      by (auto simp: sql_upsert_def split: sql.splits)
    have old: "old \<in> set t" "key old = key row"
      using find_SomeD [OF Some] by auto
    with assms(2) new(1) have "key new = key row" by blast
    with Some new t' old find_map_key [of key "key row" "\<lambda>_. new" k t] show ?thesis
      by auto
  qed
  then show "ins \<longleftrightarrow> find (\<lambda>r. key r = key row) t = None"
    "map key t' = map key t @ (if ins then [key row] else [])"
    "find (\<lambda>r. key r = key row) t = None \<Longrightarrow>
      find (\<lambda>r. key r = k) t' = (if k = key row then Some row else find (\<lambda>r. key r = k) t)"
    "find (\<lambda>r. key r = key row) t = Some old \<Longrightarrow>
      \<exists>new. upd old = Done new \<and> find (\<lambda>r. key r = k) t' = (if k = key row then Some new else find (\<lambda>r. key r = k) t)"
    "set t' \<subseteq> insert row (set t \<union> {new. \<exists>old \<in> set t. key old = key row \<and> upd old = Done new})"
    by blast+
qed

text \<open>Rows of a query with no \<^verbatim>\<open>ORDER BY\<close>: in the order of the ranks that the environment gives their
  positions. The first row of such a query, for \<^verbatim>\<open>QueryRow\<close>.\<close>

definition sql_unordered :: "(nat \<Rightarrow> nat) \<Rightarrow> 'r list \<Rightarrow> 'r list" where
  "sql_unordered rank rows = map snd (sort_key (\<lambda>p. rank (fst p)) (zip [0..<length rows] rows))"

definition sql_row :: "(nat \<Rightarrow> nat) \<Rightarrow> 'r list \<Rightarrow> 'r option" where
  "sql_row rank rows = (case sql_unordered rank rows of [] \<Rightarrow> None | r # _ \<Rightarrow> Some r)"

text \<open>\<^verbatim>\<open>WHERE key > after ORDER BY key LIMIT limit + 1\<close>.\<close>

definition keyset :: "('r \<Rightarrow> 'k::linorder) \<Rightarrow> 'k option \<Rightarrow> int \<Rightarrow> 'r list \<Rightarrow> 'r list" where
  "keyset key after limit rows =
     take (nat (limit + 1)) (sort_key key
       (filter (\<lambda>r. case after of None \<Rightarrow> True | Some k \<Rightarrow> k < key r) rows))"

lemma mset_sql_unordered [simp]: "mset (sql_unordered rank rows) = mset rows"
proof -
  have "mset (map snd (sort_key (\<lambda>p. rank (fst p)) (zip [0..<length rows] rows))) =
      mset (map snd (zip [0..<length rows] rows))"
    by (simp only: mset_map mset_sort)
  also have "map snd (zip [0..<length rows] rows) = rows"
    by simp
  finally show ?thesis
    by (simp only: sql_unordered_def)
qed

lemma set_sql_unordered [simp]: "set (sql_unordered rank rows) = set rows"
  by (metis mset_sql_unordered set_mset_mset)

lemma sql_unordered_Nil [simp]: "sql_unordered rank rows = [] \<longleftrightarrow> rows = []"
  by (metis mset_sql_unordered mset_zero_iff)

lemma sql_row_None [simp]: "sql_row rank rows = None \<longleftrightarrow> rows = []"
proof -
  have "sql_row rank rows = None \<longleftrightarrow> sql_unordered rank rows = []"
    by (cases "sql_unordered rank rows") (simp_all add: sql_row_def del: sql_unordered_Nil)
  then show ?thesis by simp
qed

lemma sql_row_Some: "sql_row rank rows = Some r \<Longrightarrow> r \<in> set rows"
proof -
  assume "sql_row rank rows = Some r"
  then have "r \<in> set (sql_unordered rank rows)"
    by (cases "sql_unordered rank rows") (simp_all add: sql_row_def del: set_sql_unordered)
  then show ?thesis by simp
qed

text \<open>Where the condition fixes the key, the row is the one with that key.\<close>

lemma sql_row_key:
  assumes "distinct (map key t)"
  shows "sql_row rank (filter (\<lambda>r. key r = k) t) = find (\<lambda>r. key r = k) t"
proof (cases "find (\<lambda>r. key r = k) t")
  case None
  with filter_key_singleton [OF assms, of k] show ?thesis by simp
next
  case (Some r)
  with filter_key_singleton [OF assms, of k] have "filter (\<lambda>r. key r = k) t = [r]" by simp
  with sql_row_Some [of rank "[r]"] sql_row_None [of rank "[r]"] Some show ?thesis
    by (cases "sql_row rank [r]") (auto simp del: sql_row_None)
qed

subsection \<open>The pool and transactions\<close>

datatype fault = Lost string | Unanswered string

fun fault_error :: "fault \<Rightarrow> sql_error" where
  "fault_error (Lost m) = ConnError m"
| "fault_error (Unanswered m) = AnswerLost m"

record pg_env =
  pg_fault :: "nat \<Rightarrow> fault option"
  pg_now :: "nat \<Rightarrow> time"
  pg_others :: "nat \<Rightarrow> database \<Rightarrow> database"
  pg_rank :: "nat \<Rightarrow> nat \<Rightarrow> nat"
  pg_alloc :: "int \<Rightarrow> bool"

text \<open>What a client holds of the database: its content and the number of requests sent so far. The
  content as the next request finds it is \<open>pg_seen\<close>.\<close>

record pg =
  pg_db :: database
  pg_sent :: nat

definition pg_seen :: "pg_env \<Rightarrow> pg \<Rightarrow> database" where
  "pg_seen E s = pg_others E (pg_sent s) (pg_db s)"

text \<open>\<^verbatim>\<open>pool.Exec\<close> (and \<^verbatim>\<open>QueryRow\<close> on a statement that writes), and \<^verbatim>\<open>pool.Query\<close>.\<close>

definition pool_Exec :: "pg_env \<Rightarrow> 'a stmt \<Rightarrow> pg \<Rightarrow> pg \<times> 'a sql" where
  "pool_Exec E st s =
     (let n = pg_sent s; d = pg_seen E s; s = \<lparr>pg_db = d, pg_sent = Suc n\<rparr>
      in case pg_fault E n of
           Some (Lost m) \<Rightarrow> (s, Fail (ConnError m))
         | f \<Rightarrow>
             (case st (pg_now E n) d of
                Fail e \<Rightarrow> (s, Fail (case f of None \<Rightarrow> e | Some x \<Rightarrow> fault_error x))
              | Done (d', x) \<Rightarrow>
                  (s\<lparr>pg_db := d'\<rparr>, (case f of None \<Rightarrow> Done x | Some y \<Rightarrow> Fail (fault_error y)))))"

definition pool_Query :: "pg_env \<Rightarrow> ((nat \<Rightarrow> nat) \<Rightarrow> database \<Rightarrow> 'a) \<Rightarrow> pg \<Rightarrow> pg \<times> 'a sql" where
  "pool_Query E q s =
     (let n = pg_sent s; d = pg_seen E s; s = \<lparr>pg_db = d, pg_sent = Suc n\<rparr>
      in case pg_fault E n of
           Some f \<Rightarrow> (s, Fail (fault_error f))
         | None \<Rightarrow> (s, Done (q (pg_rank E n) d)))"

text \<open>A transaction: the database it has built up, its time, whether a statement of it has failed (the
  server then refuses every other), and the number of requests sent.\<close>

record pg_tx =
  tx_db :: database
  tx_now :: time
  tx_aborted :: bool
  tx_sent :: nat

definition pool_Begin :: "pg_env \<Rightarrow> pg \<Rightarrow> pg \<times> pg_tx sql" where
  "pool_Begin E s =
     (let n = pg_sent s; d = pg_seen E s; s = \<lparr>pg_db = d, pg_sent = Suc n\<rparr>
      in case pg_fault E n of
           Some f \<Rightarrow> (s, Fail (fault_error f))
         | None \<Rightarrow> (s, Done \<lparr>tx_db = d, tx_now = pg_now E n, tx_aborted = False, tx_sent = Suc n\<rparr>))"

definition tx_Exec :: "pg_env \<Rightarrow> 'a stmt \<Rightarrow> pg_tx \<Rightarrow> pg_tx \<times> 'a sql" where
  "tx_Exec E st tx =
     (let n = tx_sent tx; tx = tx\<lparr>tx_sent := Suc n\<rparr>
      in if tx_aborted tx then (tx, Fail (PgError ''25P02''))
         else case pg_fault E n of
           Some f \<Rightarrow> (tx\<lparr>tx_aborted := True\<rparr>, Fail (fault_error f))
         | None \<Rightarrow>
             (case st (tx_now tx) (tx_db tx) of
                Fail e \<Rightarrow> (tx\<lparr>tx_aborted := True\<rparr>, Fail e)
              | Done (d, x) \<Rightarrow> (tx\<lparr>tx_db := d\<rparr>, Done x)))"

definition tx_Commit :: "pg_env \<Rightarrow> pg_tx \<Rightarrow> pg \<Rightarrow> pg \<times> unit sql" where
  "tx_Commit E tx s =
     (let n = tx_sent tx; s = s\<lparr>pg_sent := Suc n\<rparr>
      in if tx_aborted tx then (s, Fail (ConnError ''commit unexpectedly resulted in rollback''))
         else case pg_fault E n of
           None \<Rightarrow> (s\<lparr>pg_db := tx_db tx\<rparr>, Done ())
         | Some (Lost m) \<Rightarrow> (s, Fail (ConnError m))
         | Some (Unanswered m) \<Rightarrow> (s\<lparr>pg_db := tx_db tx\<rparr>, Fail (AnswerLost m)))"

definition tx_Rollback :: "pg_tx \<Rightarrow> pg \<Rightarrow> pg" where
  "tx_Rollback tx s = s\<lparr>pg_sent := Suc (tx_sent tx)\<rparr>"

text \<open>The frame every transaction of the stores has: begin, roll back on every return that has not
  committed, commit at the end.\<close>

definition with_tx :: "pg_env \<Rightarrow> string \<Rightarrow> (pg_tx \<Rightarrow> pg_tx \<times> 'a res) \<Rightarrow> pg \<Rightarrow> pg \<times> 'a res" where
  "with_tx E commit_msg body s =
     (case pool_Begin E s of
        (s, Fail e) \<Rightarrow> (s, Err (Wrap ''beginning transaction'' (sql_gerr e)))
      | (s, Done tx) \<Rightarrow>
          (case body tx of
             (tx, Err e) \<Rightarrow> (tx_Rollback tx s, Err e)
           | (tx, Panic) \<Rightarrow> (tx_Rollback tx s, Panic)
           | (tx, Ok x) \<Rightarrow>
               (case tx_Commit E tx s of
                  (s, Fail e) \<Rightarrow> (s, Err (Wrap commit_msg (sql_gerr e)))
                | (s, Done _) \<Rightarrow> (s, Ok x))))"

text \<open>How the stores turn a failure into an error: wrapped, or replaced where it has a given code.\<close>

fun sql_res :: "string \<Rightarrow> 's \<times> 'a sql \<Rightarrow> 's \<times> 'a res" where
  "sql_res msg (s, Done x) = (s, Ok x)"
| "sql_res msg (s, Fail e) = (s, Err (Wrap msg (sql_gerr e)))"

fun code_res :: "string \<Rightarrow> gerr \<Rightarrow> string \<Rightarrow> 's \<times> 'a sql \<Rightarrow> 's \<times> 'a res" where
  "code_res code err msg (s, Done x) = (s, Ok x)"
| "code_res code err msg (s, Fail e) =
     (s, if e = PgError code then Err err else Err (Wrap msg (sql_gerr e)))"

text \<open>The rows of a query, where \<^verbatim>\<open>rows.Err()\<close> reports an answer that broke off.\<close>

fun rows_res :: "string \<Rightarrow> string \<Rightarrow> 's \<times> 'a sql \<Rightarrow> 's \<times> 'a res" where
  "rows_res msg iter_msg (s, Done x) = (s, Ok x)"
| "rows_res msg iter_msg (s, Fail (AnswerLost m)) = (s, Err (Wrap iter_msg (Errorf m)))"
| "rows_res msg iter_msg (s, Fail e) = (s, Err (Wrap msg (sql_gerr e)))"

lemma sql_res_eq_Ok [simp]: "sql_res msg p = (s, Ok x) \<longleftrightarrow> p = (s, Done x)"
  by (cases "(msg, p)" rule: sql_res.cases) auto

lemma code_res_eq_Ok [simp]: "code_res code err msg p = (s, Ok x) \<longleftrightarrow> p = (s, Done x)"
  by (cases "(code, err, msg, p)" rule: code_res.cases) auto

lemma rows_res_eq_Ok [simp]: "rows_res msg iter_msg p = (s, Ok x) \<longleftrightarrow> p = (s, Done x)"
  by (cases "(msg, iter_msg, p)" rule: rows_res.cases) auto

text \<open>A call whose only errors are wrapped ones, and which does not panic.\<close>

definition plain :: "'a res \<Rightarrow> bool" where
  "plain r \<longleftrightarrow> is_Ok r \<or> (\<exists>msg e. r = Err (Wrap msg e))"

named_theorems plain_intros \<open>a call has only wrapped errors\<close>

lemma plain_simps [simp]: "plain (Ok x)" "plain (Err (Wrap msg e))" "\<not> plain Panic" "\<not> plain (Err (Named n m))"
  by (simp_all add: plain_def)

lemma plain_andThenS [plain_intros]:
  "plain (snd p) \<Longrightarrow> (\<And>x s. plain (snd (f x s))) \<Longrightarrow> plain (snd (andThenS p f))"
  by (cases "(p, f)" rule: andThenS.cases) (auto simp: plain_def)

lemma plain_sql_res [plain_intros]: "plain (snd (sql_res msg p))"
  by (cases "(msg, p)" rule: sql_res.cases) simp_all

lemma plain_rows_res [plain_intros]: "plain (snd (rows_res msg iter_msg p))"
  by (cases "(msg, iter_msg, p)" rule: rows_res.cases) simp_all

fun scan_rows :: "('r \<Rightarrow> 'a res) \<Rightarrow> 'r list \<Rightarrow> 'a list res" where
  "scan_rows scan [] = Ok []"
| "scan_rows scan (r # rs) = andThen (scan r) (\<lambda>x. andThen (scan_rows scan rs) (\<lambda>xs. Ok (x # xs)))"

lemma scan_rows_map: "(\<And>r. r \<in> set rows \<Longrightarrow> scan r = Ok (f r)) \<Longrightarrow> scan_rows scan rows = Ok (map f rows)"
  by (induction rows) simp_all

subsection \<open>What a transaction leaves behind\<close>

text \<open>A statement of a transaction that succeeds had no fault, and the transaction goes on with its effect.\<close>

lemma tx_Exec_Done [simp]:
  "tx_Exec E st tx = (tx', Done x) \<longleftrightarrow> \<not> tx_aborted tx \<and> pg_fault E (tx_sent tx) = None \<and>
     (\<exists>d. st (tx_now tx) (tx_db tx) = Done (d, x) \<and> tx' = tx\<lparr>tx_sent := Suc (tx_sent tx), tx_db := d\<rparr>)"
  by (auto simp: tx_Exec_def Let_def split: option.splits sql.splits)

lemma tx_Exec_PgError:
  assumes "tx_Exec E st tx = (tx', Fail (PgError code))" and "\<not> tx_aborted tx"
  shows "st (tx_now tx) (tx_db tx) = Fail (PgError code)"
proof -
  have "fault_error f \<noteq> PgError code" for f
    by (cases f) simp_all
  with assms show ?thesis
    by (auto simp: tx_Exec_def Let_def split: option.splits sql.splits)
qed

definition fault_free :: "pg_env \<Rightarrow> bool" where
  "fault_free E \<longleftrightarrow> pg_fault E = (\<lambda>_. None)"

definition tx_start :: "pg_env \<Rightarrow> pg \<Rightarrow> pg_tx" where
  "tx_start E s = \<lparr>tx_db = pg_seen E s, tx_now = pg_now E (pg_sent s), tx_aborted = False,
     tx_sent = Suc (pg_sent s)\<rparr>"

lemma tx_start_simps [simp]:
  "tx_db (tx_start E s) = pg_seen E s" "tx_now (tx_start E s) = pg_now E (pg_sent s)"
  "\<not> tx_aborted (tx_start E s)"
  by (simp_all add: tx_start_def)

text \<open>A transaction is all or nothing: either the database is as the transaction found it, because a request
  to begin or commit was refused or lost or because the body failed, or the body ran to its end and the
  database is what it built. It reports success only in the last case, and an error in that case only where
  the answer to the commit was lost.\<close>

lemma with_tx_cases:
  assumes "with_tx E msg body s = (s', r)"
  obtains (refused) msg' e where "pg_db s' = pg_seen E s" "r = Err (Wrap msg' e)"
  | (failed) tx where "pg_db s' = pg_seen E s" "body (tx_start E s) = (tx, r)" "\<not> is_Ok r"
  | (whole) tx x where "body (tx_start E s) = (tx, Ok x)" "pg_db s' = tx_db tx"
      "r = Ok x \<or> (\<exists>m. r = Err (Wrap msg (Errorf m)) \<and> pg_fault E (tx_sent tx) = Some (Unanswered m))"
  using assms unfolding tx_start_def
  by (fastforce simp: with_tx_def pool_Begin_def tx_Commit_def tx_Rollback_def Let_def
      split: option.splits prod.splits res.splits if_splits fault.splits)

text \<open>Without faults a transaction whose body succeeds commits.\<close>

lemma with_tx_runs:
  assumes "fault_free E"
  shows "body (tx_start E s) = (tx, Ok x) \<Longrightarrow> \<not> tx_aborted tx \<Longrightarrow>
      with_tx E msg body s = (\<lparr>pg_db = tx_db tx, pg_sent = Suc (tx_sent tx)\<rparr>, Ok x)"
    and "body (tx_start E s) = (tx, Err e) \<Longrightarrow>
      with_tx E msg body s = (\<lparr>pg_db = pg_seen E s, pg_sent = Suc (tx_sent tx)\<rparr>, Err e)"
  using assms
  by (simp_all add: with_tx_def pool_Begin_def tx_start_def fault_free_def tx_Commit_def tx_Rollback_def Let_def)

lemma fault_free_tx_Exec:
  assumes "fault_free E" and "\<not> tx_aborted tx"
  shows "tx_Exec E st tx = (case st (tx_now tx) (tx_db tx) of
      Done (d, x) \<Rightarrow> (tx\<lparr>tx_sent := Suc (tx_sent tx), tx_db := d\<rparr>, Done x)
    | Fail e \<Rightarrow> (tx\<lparr>tx_sent := Suc (tx_sent tx), tx_aborted := True\<rparr>, Fail e))"
  using assms by (simp add: tx_Exec_def fault_free_def Let_def split: sql.split)

text \<open>A statement on the pool is all or nothing too.\<close>

lemma pool_Exec_cases:
  assumes "pool_Exec E st s = (s', r)"
  obtains (unchanged) e where "pg_db s' = pg_seen E s" "r = Fail e"
      "(\<exists>m. e = ConnError m \<or> e = AnswerLost m) \<or>
       st (pg_now E (pg_sent s)) (pg_seen E s) = Fail e"
  | (whole) d x where "st (pg_now E (pg_sent s)) (pg_seen E s) = Done (d, x)" "pg_db s' = d"
      "r = Done x \<or> (\<exists>m. r = Fail (AnswerLost m) \<and> pg_fault E (pg_sent s) = Some (Unanswered m))"
  using assms
  by (auto simp: pool_Exec_def Let_def split: option.splits fault.splits sql.splits)

lemma fault_free_pool_Exec:
  assumes "fault_free E"
  shows "pool_Exec E st s = (case st (pg_now E (pg_sent s)) (pg_seen E s) of
      Done (d, x) \<Rightarrow> (\<lparr>pg_db = d, pg_sent = Suc (pg_sent s)\<rparr>, Done x)
    | Fail e \<Rightarrow> (\<lparr>pg_db = pg_seen E s, pg_sent = Suc (pg_sent s)\<rparr>, Fail e))"
  using assms by (simp add: pool_Exec_def fault_free_def Let_def split: sql.split)

lemma fault_free_pool_Query:
  "fault_free E \<Longrightarrow> pool_Query E q s =
     (\<lparr>pg_db = pg_seen E s, pg_sent = Suc (pg_sent s)\<rparr>, Done (q (pg_rank E (pg_sent s)) (pg_seen E s)))"
  by (simp add: pool_Query_def fault_free_def Let_def)

lemma pool_Query_db [simp]: "pg_db (fst (pool_Query E q s)) = pg_seen E s"
  by (simp add: pool_Query_def Let_def split: option.split)

subsection \<open>What the pool and a transaction have in common\<close>

text \<open>
  \<^verbatim>\<open>pgxExec\<close>, the surface that the helpers of the counters and the logs take: something that runs one statement.
  \<open>before\<close> is the database the statement finds and \<open>after\<close> the one it leaves.
\<close>

locale querier =
  fixes exec :: "nat stmt \<Rightarrow> 's \<Rightarrow> 's \<times> nat sql"
    and before :: "'s \<Rightarrow> database" and after :: "'s \<Rightarrow> database" and now :: "'s \<Rightarrow> time"
  assumes exec_Done: "exec st q = (q', Done n) \<Longrightarrow> st (now q) (before q) = Done (after q', n)"
    and exec_Fail: "exec st q = (q', Fail e) \<Longrightarrow>
      after q' = before q \<or> (\<exists>n. st (now q) (before q) = Done (after q', n))"
begin

lemma sql_res_Ok:
  "sql_res msg (exec st q) = (q', Ok n) \<Longrightarrow> st (now q) (before q) = Done (after q', n)"
  by (cases "(msg, exec st q)" rule: sql_res.cases) (auto intro: exec_Done)

lemma sql_res_changes:
  assumes "sql_res msg (exec st q) = (q', r)" and "after q' \<noteq> before q"
  shows "\<exists>n. st (now q) (before q) = Done (after q', n)"
  using assms
  by (cases "(msg, exec st q)" rule: sql_res.cases) (auto dest: exec_Done exec_Fail)

end

interpretation pool_querier: querier "pool_Exec E" "pg_seen E" pg_db "\<lambda>s. pg_now E (pg_sent s)" for E
proof unfold_locales
  fix st :: "nat stmt" and q q' n e
  show "pool_Exec E st q = (q', Done n) \<Longrightarrow> st (pg_now E (pg_sent q)) (pg_seen E q) = Done (pg_db q', n)"
    by (erule pool_Exec_cases) auto
  show "pool_Exec E st q = (q', Fail e) \<Longrightarrow> pg_db q' = pg_seen E q \<or>
      (\<exists>n. st (pg_now E (pg_sent q)) (pg_seen E q) = Done (pg_db q', n))"
    by (erule pool_Exec_cases) auto
qed

interpretation tx_querier: querier "tx_Exec E" tx_db tx_db tx_now for E
proof unfold_locales
  fix st :: "nat stmt" and q q' n e
  show "tx_Exec E st q = (q', Done n) \<Longrightarrow> st (tx_now q) (tx_db q) = Done (tx_db q', n)"
    by auto
  show "tx_Exec E st q = (q', Fail e) \<Longrightarrow> tx_db q' = tx_db q \<or>
      (\<exists>n. st (tx_now q) (tx_db q) = Done (tx_db q', n))"
    by (auto simp: tx_Exec_def Let_def split: option.splits sql.splits if_splits)
qed

subsection \<open>Listings\<close>

text \<open>
  The listings of the stores: one query for the rows behind the cursor, one more than the limit, which are
  scanned in order; where there is one too many, the page is cut and its cursor made from its last entry.
  \<^verbatim>\<open>make([]T, 0, limit)\<close> panics where the capacity cannot be had. \<^verbatim>\<open>limit+1\<close> wraps at the largest \<^verbatim>\<open>int\<close>, and the
  server refuses a negative limit.
\<close>

definition page_limit :: "PaginationConfig \<Rightarrow> int" where
  "page_limit cfg = (case Limit cfg of Some l \<Rightarrow> (if l > 0 then l else 1000) | None \<Rightarrow> 1000)"

definition pg_select ::
  "pg_env \<Rightarrow> string \<Rightarrow> string \<Rightarrow> (database \<Rightarrow> 'r list) \<Rightarrow> ('r \<Rightarrow> 'k::linorder) \<Rightarrow> ('r \<Rightarrow> 'a res) \<Rightarrow>
   int \<Rightarrow> 'k option \<Rightarrow> pg \<Rightarrow> pg \<times> 'a list res" where
  "pg_select E msg iter_msg rows key scan limit after s =
     (let (s, r) = pool_Query E (\<lambda>_ d. keyset key after limit (rows d)) s;
          r = sql_bind r (\<lambda>x. if limit \<ge> MaxInt64 then Fail (PgError ''2201W'') else Done x)
      in andThenS (rows_res msg iter_msg (s, r))
           (\<lambda>found s. (s, if pg_alloc E limit then scan_rows scan found else Panic)))"

definition pg_List ::
  "pg_env \<Rightarrow> string \<Rightarrow> string \<Rightarrow> (database \<Rightarrow> 'r list) \<Rightarrow> ('r \<Rightarrow> 'k::linorder) \<Rightarrow> (string \<Rightarrow> 'k res) \<Rightarrow>
   ('r \<Rightarrow> 'a res) \<Rightarrow> ('a \<Rightarrow> string) \<Rightarrow> int \<Rightarrow> string option \<Rightarrow> pg \<Rightarrow> pg \<times> 'a Page res" where
  "pg_List E msg iter_msg rows key decode scan cursor limit cur s =
     (case (case cur of None \<Rightarrow> Ok None | Some c \<Rightarrow> wrap ''invalid cursor'' (andThen (decode c) (\<lambda>k. Ok (Some k)))) of
        Err e \<Rightarrow> (s, Err e)
      | Panic \<Rightarrow> (s, Panic)
      | Ok after \<Rightarrow>
          andThenS (pg_select E msg iter_msg rows key scan limit after s)
            (\<lambda>records s. (s, cut_page cursor limit records)))"

text \<open>Rows with distinct keys: the query behind the key of position \<open>p - 1\<close> gives the rows from \<open>p\<close> on.\<close>

lemma keyset_drop:
  assumes dist: "distinct (map key rows)" and "0 \<le> limit"
    and at: "case after of None \<Rightarrow> p = 0
      | Some k \<Rightarrow> 0 < p \<and> p \<le> length rows \<and> k = key (sort_key key rows ! (p - 1))"
  shows "keyset key after limit rows = take (Suc (nat limit)) (drop p (sort_key key rows))"
proof -
  let ?items = "sort_key key rows"
  have n: "nat (limit + 1) = Suc (nat limit)"
    using assms(2) by simp
  show ?thesis
  proof (cases after)
    case None
    with at n show ?thesis by (simp add: keyset_def)
  next
    case (Some k)
    with at have p: "0 < p" "p \<le> length ?items" and k: "k = key (?items ! (p - 1))"
      by simp_all
    have split: "?items = take (p - 1) ?items @ ?items ! (p - 1) # drop p ?items"
      using id_take_nth_drop [of "p - 1" ?items] p by simp
    have "sorted (map key ?items)" "distinct (map key ?items)"
      using dist by simp_all
    then have "sorted_wrt (\<lambda>x y. key x < key y) ?items"
      by (metis sorted_wrt_map strict_sorted_iff)
    then have "filter (\<lambda>r. key (?items ! (p - 1)) < key r)
        (take (p - 1) ?items @ ?items ! (p - 1) # drop p ?items) = drop p ?items"
      by (intro filter_sorted_suffix) (simp only: split [symmetric])
    then have "filter (\<lambda>r. k < key r) ?items = drop p ?items"
      by (simp only: split [symmetric] k)
    with Some n show ?thesis
      by (simp add: keyset_def filter_sort [symmetric])
  qed
qed

text \<open>Nobody else is at work and nothing is lost.\<close>

definition alone :: "pg_env \<Rightarrow> bool" where
  "alone E \<longleftrightarrow> fault_free E \<and> pg_others E = (\<lambda>_ d. d)"

lemma alone_seen [simp]: "alone E \<Longrightarrow> pg_seen E s = pg_db s"
  by (simp add: alone_def pg_seen_def)

lemma alone_fault_free [simp]: "alone E \<Longrightarrow> fault_free E"
  by (simp add: alone_def)

text \<open>The contract of a listing over a table: its rows have distinct keys, scan to what they stand for, and
  the cursor made from one reads back as its key. Every listing of the stores interprets it.\<close>

locale keyset_store =
  fixes wf :: "database \<Rightarrow> bool" and rows :: "database \<Rightarrow> 'r list" and key :: "'r \<Rightarrow> 'k::linorder"
    and decode :: "string \<Rightarrow> 'k res" and scan :: "'r \<Rightarrow> 'a res" and view :: "'r \<Rightarrow> 'a"
    and cursor :: "'a \<Rightarrow> string"
  assumes keys: "wf d \<Longrightarrow> distinct (map key (rows d))"
    and scans: "wf d \<Longrightarrow> r \<in> set (rows d) \<Longrightarrow> scan r = Ok (view r)"
    and decodes: "wf d \<Longrightarrow> r \<in> set (rows d) \<Longrightarrow> decode (cursor (view r)) = Ok (key r)"
begin

lemma selects:
  assumes "alone E" and "wf (pg_db s)" and "0 < limit" and "limit < MaxInt64" and "pg_alloc E limit"
    and "case after of None \<Rightarrow> p = 0 | Some k \<Rightarrow> 0 < p \<and> p \<le> length (rows (pg_db s)) \<and>
      k = key (sort_key key (rows (pg_db s)) ! (p - 1))"
  shows "snd (pg_select E msg iter_msg rows key scan limit after s) =
    Ok (take (Suc (nat limit)) (drop p (map view (sort_key key (rows (pg_db s))))))"
proof -
  have "keyset key after limit (rows (pg_db s)) =
      take (Suc (nat limit)) (drop p (sort_key key (rows (pg_db s))))"
    using assms(3,6) by (intro keyset_drop keys assms(2)) simp_all
  moreover have "scan_rows scan (take n (drop p (sort_key key (rows (pg_db s))))) =
      Ok (map view (take n (drop p (sort_key key (rows (pg_db s))))))" for n
    using scans [OF assms(2)] by (intro scan_rows_map) (auto dest!: in_set_takeD in_set_dropD)
  ultimately show ?thesis
    using assms by (simp add: pg_select_def fault_free_pool_Query take_map drop_map Let_def)
qed

lemma pages:
  assumes "alone E" and "wf (pg_db s)" and "0 < limit" and "limit < MaxInt64" and "pg_alloc E limit"
    and at: "key_resumes cursor (map view (sort_key key (rows (pg_db s)))) c p"
  shows "\<exists>page n. snd (pg_List E msg iter_msg rows key decode scan cursor limit c s) = Ok page \<and>
    Results page = take n (drop p (map view (sort_key key (rows (pg_db s))))) \<and>
    (case page_Cursor page of
       None \<Rightarrow> length (map view (sort_key key (rows (pg_db s)))) \<le> p + n
     | Some c' \<Rightarrow> Results page \<noteq> [] \<and>
         key_resumes cursor (map view (sort_key key (rows (pg_db s)))) (Some c') (p + length (Results page)))"
proof -
  let ?sorted = "sort_key key (rows (pg_db s))"
  let ?items = "map view ?sorted"
  let ?after = "case c of None \<Rightarrow> None | Some k \<Rightarrow> Some (key (?sorted ! (p - 1)))"
  have decoded: "(case c of None \<Rightarrow> Ok None
      | Some c \<Rightarrow> wrap ''invalid cursor'' (andThen (decode c) (\<lambda>k. Ok (Some k)))) = Ok ?after"
  proof (cases c)
    case (Some k)
    with at have "0 < p" "p \<le> length ?sorted" and k: "k = cursor (?items ! (p - 1))"
      by (simp_all add: key_resumes_def)
    then have "p - 1 < length ?sorted" by linarith
    then have "?sorted ! (p - 1) \<in> set (rows (pg_db s))"
      using nth_mem [of "p - 1" ?sorted] by simp
    with decodes [OF assms(2) this] Some k \<open>p - 1 < length ?sorted\<close> show ?thesis by simp
  qed simp
  have "snd (pg_select E msg iter_msg rows key scan limit ?after s) =
      Ok (take (Suc (nat limit)) (drop p ?items))"
    using assms at by (intro selects) (auto simp: key_resumes_def split: option.splits)
  then have "snd (pg_List E msg iter_msg rows key decode scan cursor limit c s) =
      cut_page cursor limit (take (Suc (nat limit)) (drop p ?items))"
    unfolding pg_List_def decoded
    by (cases "pg_select E msg iter_msg rows key scan limit ?after s") simp
  then show ?thesis
    using cut_page_serves_prefix [of limit "take (Suc (nat limit)) (drop p ?items)" p ?items cursor]
      assms(3) by simp
qed

lemma collects:
  assumes "alone E" and "wf (pg_db s)" and "0 < limit" and "limit < MaxInt64" and "pg_alloc E limit"
    and getPage: "\<And>c p. key_resumes cursor (map view (sort_key key (rows (pg_db s)))) c p \<Longrightarrow>
      getPage \<lparr>Cursor = c, Limit = None\<rparr> = snd (pg_List E msg iter_msg rows key decode scan cursor limit c s)"
  shows "store_Collect getPage = Some (Ok (map view (sort_key key (rows (pg_db s)))))"
proof (rule pager.collect_items [where wf = "\<lambda>_. True" and s = "()"
      and items = "\<lambda>_. map view (sort_key key (rows (pg_db s)))"
      and resumes = "\<lambda>_. key_resumes cursor (map view (sort_key key (rows (pg_db s))))"
      and list_page = "\<lambda>_ c. getPage \<lparr>Cursor = c, Limit = None\<rparr>"])
  show "pager (\<lambda>_. True) (\<lambda>_. map view (sort_key key (rows (pg_db s)))) (\<lambda>_ c. getPage \<lparr>Cursor = c, Limit = None\<rparr>)
      (\<lambda>_. key_resumes cursor (map view (sort_key key (rows (pg_db s)))))"
    using pages [OF assms(1-5)] by unfold_locales (simp_all add: getPage)
qed simp_all

end

subsection \<open>Text forms of stored values\<close>

text \<open>
  What the stores use to write and read values, beyond \<open>formats\<close>: parsing CIDs, digests and DIDs, the time a
  \<^verbatim>\<open>TIMESTAMPTZ\<close> column keeps of a time, the sort key of the collation, and the names of the counters. What they
  rely on: text forms read back, parsing does not panic, no two texts collate equal, a stored time stays as it
  is, and so does a time of whole microseconds.
\<close>

record pg_formats = formats +
  cid_Parse :: "string \<Rightarrow> cid res"
  digest_Format :: "multihash \<Rightarrow> string"
  digest_Parse :: "string \<Rightarrow> multihash res"
  did_Parse :: "string \<Rightarrow> did res"
  timestamptz :: "time \<Rightarrow> time"
  collate :: "string \<Rightarrow> string"
  metric_name :: "metric \<Rightarrow> string"

definition pg_formats_ok :: "pg_formats \<Rightarrow> bool" where
  "pg_formats_ok P \<longleftrightarrow> formats_ok (formats.truncate P) \<and> inj (collate P) \<and>
     (\<forall>c. cid_Parse P (cid_String P c) = Ok c) \<and> (\<forall>h. digest_Parse P (digest_Format P h) = Ok h) \<and>
     (\<forall>t. timestamptz P (timestamptz P t) = timestamptz P t) \<and> (\<forall>t. timestamptz P (Instant t) = Instant t) \<and>
     (\<forall>x. cid_Parse P x \<noteq> Panic \<and> digest_Parse P x \<noteq> Panic \<and> did_Parse P x \<noteq> Panic)"

text \<open>A DID that reads back from its text.\<close>

definition did_ok :: "pg_formats \<Rightarrow> did \<Rightarrow> bool" where
  "did_ok P d \<longleftrightarrow> did_Parse P d = Ok d"

lemma pg_formats_okD:
  assumes "pg_formats_ok P"
  shows "formats_ok (formats.truncate P)" "cid_Parse P (cid_String P c) = Ok c"
    "digest_Parse P (digest_Format P h) = Ok h" "cid_String P a = cid_String P b \<longleftrightarrow> a = b"
    "digest_Format P x = digest_Format P y \<longleftrightarrow> x = y" "collate P u = collate P v \<longleftrightarrow> u = v"
    "timestamptz P (timestamptz P t) = timestamptz P t" "timestamptz P (Instant t) = Instant t"
    "cid_Parse P z \<noteq> Panic" "digest_Parse P z \<noteq> Panic" "did_Parse P z \<noteq> Panic"
proof -
  have parse: "cid_Parse P (cid_String P c) = Ok c" "digest_Parse P (digest_Format P h) = Ok h" for c h
    using assms by (simp_all add: pg_formats_ok_def)
  show "cid_String P a = cid_String P b \<longleftrightarrow> a = b" "digest_Format P x = digest_Format P y \<longleftrightarrow> x = y"
    using parse by (metis res.inject(1))+
qed (use assms in \<open>auto simp: pg_formats_ok_def inj_eq\<close>)

lemma truncate_formats [simp]:
  "cid_String (formats.truncate P) = cid_String P" "HexString (formats.truncate P) = HexString P"
  "cursorJSON (formats.truncate P) = cursorJSON P"
  by (simp_all add: formats.truncate_def)

definition sample_pg_formats :: pg_formats where
  "sample_pg_formats = formats.extend sample_formats (pg_formats.fields
     (\<lambda>s. case b64_decode s of Some c \<Rightarrow> Ok c | None \<Rightarrow> Err (Errorf ''invalid cid'')) b64_encode
     (\<lambda>s. case b64_decode s of Some h \<Rightarrow> Ok h | None \<Rightarrow> Err (Errorf ''invalid digest''))
     (\<lambda>s. if s = [] then Err (Errorf ''invalid DID'') else Ok s) Instant (\<lambda>s. s)
     (\<lambda>m. case m of BlobAddTotalMetric \<Rightarrow> ''/blob/add-total'' | BlobAddSizeTotalMetric \<Rightarrow> ''/blob/add-size-total''
        | BlobRemoveTotalMetric \<Rightarrow> ''/blob/remove-total'' | BlobRemoveSizeTotalMetric \<Rightarrow> ''/blob/remove-size-total''
        | UploadAddTotalMetric \<Rightarrow> ''/upload/add-total'' | UploadRemoveTotalMetric \<Rightarrow> ''/upload/remove-total''))"

lemma sample_pg_formats_simps [simp]:
  "cid_String sample_pg_formats = b64_encode" "HexString sample_pg_formats = b64_encode"
  "cursorJSON sample_pg_formats = sample_json" "digest_Format sample_pg_formats = b64_encode"
  "timestamptz sample_pg_formats = Instant" "collate sample_pg_formats = (\<lambda>s. s)"
  "did_Parse sample_pg_formats = (\<lambda>s. if s = [] then Err (Errorf ''invalid DID'') else Ok s)"
  by (simp_all add: sample_pg_formats_def formats.extend_def pg_formats.fields_def sample_formats_def)

lemma sample_pg_formats_ok: "pg_formats_ok sample_pg_formats"
proof -
  have "formats.truncate sample_pg_formats = sample_formats"
    by (simp add: formats.truncate_def sample_formats_def)
  moreover have "cid_Parse sample_pg_formats (b64_encode c) = Ok c"
    "digest_Parse sample_pg_formats (b64_encode c) = Ok c" for c
    by (simp_all add: sample_pg_formats_def formats.extend_def pg_formats.fields_def b64_decode_encode)
  moreover have "cid_Parse sample_pg_formats x \<noteq> Panic" "digest_Parse sample_pg_formats x \<noteq> Panic" for x
    by (simp_all add: sample_pg_formats_def formats.extend_def pg_formats.fields_def split: option.split)
  ultimately show ?thesis
    by (simp add: pg_formats_ok_def sample_formats_ok)
qed

end
