(* ===== verification/Pg_Ledger.thy ===== *)
theory Pg_Ledger
  imports Sql Ledger
begin

section \<open>The Postgres blob registry and upload store\<close>

text \<open>
  The Postgres backends of the counters, the two diff logs, the blob registry and the upload store
  (\<^verbatim>\<open>store/metrics/postgres\<close>, \<^verbatim>\<open>store/space_diff/postgres\<close>, \<^verbatim>\<open>store/upload_diff/postgres\<close>, \<^verbatim>\<open>store/blob_registry/postgres\<close>,
  \<^verbatim>\<open>store/upload/postgres\<close>). Registering and removing a blob, and adding and removing an upload, are each one
  transaction over the store's own table, its log and the counters.

  \<open>pg_abs\<close> reads a database as a state of the in-memory stores; the theory shows that the registry's
  transactions do to it what the in-memory registry does, whatever is lost and whatever other sessions do,
  and that the ledger of logs, counters and holdings stays in balance.

  A counter's name is a constructor of \<^typ>\<open>metric\<close>; \<^verbatim>\<open>slices.Sorted\<close> orders them by the text of the name.
  \<^verbatim>\<open>int64(x)\<close> of a \<^verbatim>\<open>uint64\<close> is the signed reading of the word, and \<^verbatim>\<open>uint64(x)\<close> of a stored value the word of it.
\<close>

subsection \<open>Counters\<close>

definition read_metrics :: "(metric \<times> int) list \<Rightarrow> metrics" where
  "read_metrics rows = fold (\<lambda>(name, value) m. m(name \<mapsto> word_of_int value)) rows Map.empty"

definition pg_metrics_Get :: "pg_env \<Rightarrow> pg \<Rightarrow> pg \<times> metrics res" where
  "pg_metrics_Get E s =
     andThenS (rows_res ''querying admin metrics'' ''iterating admin metrics''
         (pool_Query E (\<lambda>rank d. sql_unordered rank (t_admin_metrics d)) s))
       (\<lambda>rows s. (s, Ok (read_metrics rows)))"

text \<open>\<^verbatim>\<open>ON CONFLICT (key) DO UPDATE SET value = t.value + EXCLUDED.value\<close>.\<close>

definition add_value :: "'k \<Rightarrow> int \<Rightarrow> ('k \<times> int) list \<Rightarrow> (('k \<times> int) list \<times> nat) sql" where
  "add_value k v t =
     sql_bind (sql_upsert fst (\<lambda>old. sql_bind (bigint (snd old + v)) (\<lambda>x. Done (k, x))) (k, v) t)
       (\<lambda>(t, inserted). Done (t, 1))"

definition admin_upsert :: "metric \<Rightarrow> int \<Rightarrow> nat stmt" where
  "admin_upsert k v now d = on_table (\<lambda>t. d\<lparr>t_admin_metrics := t\<rparr>) (add_value k v (t_admin_metrics d))"

definition space_upsert :: "did \<Rightarrow> metric \<Rightarrow> int \<Rightarrow> nat stmt" where
  "space_upsert space k v now d =
     on_table (\<lambda>t. d\<lparr>t_space_metrics := t\<rparr>) (add_value (space, k) v (t_space_metrics d))"

primrec increment_loop ::
  "(nat stmt \<Rightarrow> 's \<Rightarrow> 's \<times> nat sql) \<Rightarrow> string \<Rightarrow> (metric \<Rightarrow> int \<Rightarrow> nat stmt) \<Rightarrow> (metric \<times> uint64) list \<Rightarrow>
   's \<Rightarrow> 's \<times> unit res" where
  "increment_loop exec msg upsert [] q = (q, Ok ())"
| "increment_loop exec msg upsert (p # inc) q =
     andThenS (sql_res msg (exec (upsert (fst p) (sint (snd p))) q))
       (\<lambda>_ q. increment_loop exec msg upsert inc q)"

definition sorted_inc :: "pg_formats \<Rightarrow> (metric \<times> uint64) list \<Rightarrow> (metric \<times> uint64) list" where
  "sorted_inc P inc = sort_key (\<lambda>p. metric_name P (fst p)) inc"

definition IncrementAdminWith ::
  "(nat stmt \<Rightarrow> 's \<Rightarrow> 's \<times> nat sql) \<Rightarrow> pg_formats \<Rightarrow> (metric \<times> uint64) list \<Rightarrow> 's \<Rightarrow> 's \<times> unit res" where
  "IncrementAdminWith exec P inc q =
     increment_loop exec ''incrementing admin metric'' admin_upsert (sorted_inc P inc) q"

definition IncrementSpaceWith ::
  "(nat stmt \<Rightarrow> 's \<Rightarrow> 's \<times> nat sql) \<Rightarrow> pg_formats \<Rightarrow> did \<Rightarrow> (metric \<times> uint64) list \<Rightarrow> 's \<Rightarrow> 's \<times> unit res" where
  "IncrementSpaceWith exec P space inc q =
     increment_loop exec ''incrementing space metric'' (space_upsert space) (sorted_inc P inc) q"

definition pg_IncrementTotals :: "pg_env \<Rightarrow> pg_formats \<Rightarrow> (metric \<times> uint64) list \<Rightarrow> pg \<Rightarrow> pg \<times> unit res" where
  "pg_IncrementTotals E P inc s =
     (if length inc = 0 then (s, Ok ()) else IncrementAdminWith (pool_Exec E) P inc s)"

definition pg_SpaceStore_Get :: "pg_env \<Rightarrow> did \<Rightarrow> pg \<Rightarrow> pg \<times> metrics res" where
  "pg_SpaceStore_Get E space s =
     andThenS (rows_res ''querying space metrics'' ''iterating space metrics''
         (pool_Query E (\<lambda>rank d. sql_unordered rank
            (filter (\<lambda>r. fst (fst r) = space) (t_space_metrics d))) s))
       (\<lambda>rows s. (s, Ok (read_metrics (map (\<lambda>r. (snd (fst r), snd r)) rows))))"

definition pg_SpaceStore_IncrementTotals ::
  "pg_env \<Rightarrow> pg_formats \<Rightarrow> did \<Rightarrow> (metric \<times> uint64) list \<Rightarrow> pg \<Rightarrow> pg \<times> unit res" where
  "pg_SpaceStore_IncrementTotals E P space inc s =
     (if length inc = 0 then (s, Ok ()) else IncrementSpaceWith (pool_Exec E) P space inc s)"

subsection \<open>The diff logs\<close>

definition diff_row_key :: "diff_row \<Rightarrow> string \<times> time \<times> string" where
  "diff_row_key r = (dr_space r, dr_receipt_at r, dr_cause r)"

definition space_diff_insert :: "pg_formats \<Rightarrow> did \<Rightarrow> cid \<Rightarrow> int64 \<Rightarrow> time \<Rightarrow> nat stmt" where
  "space_diff_insert P space cause delta receiptAt now d =
     on_table (\<lambda>t. d\<lparr>t_space_diff := t\<rparr>) (sql_insert diff_row_key
       \<lparr>dr_space = space, dr_receipt_at = timestamptz P receiptAt, dr_cause = cid_String P cause,
        dr_delta = sint delta, dr_inserted_at = now\<rparr> (t_space_diff d))"

definition spacediff_PutWith ::
  "(nat stmt \<Rightarrow> 's \<Rightarrow> 's \<times> nat sql) \<Rightarrow> pg_formats \<Rightarrow> did \<Rightarrow> cid \<Rightarrow> int64 \<Rightarrow> time \<Rightarrow> 's \<Rightarrow> 's \<times> unit res" where
  "spacediff_PutWith exec P space cause delta receiptAt q =
     andThenS (sql_res ''putting space diff'' (exec (space_diff_insert P space cause delta receiptAt) q))
       (\<lambda>_ q. (q, Ok ()))"

definition pg_spacediff_Put ::
  "pg_env \<Rightarrow> pg_formats \<Rightarrow> did \<Rightarrow> cid \<Rightarrow> int64 \<Rightarrow> time \<Rightarrow> pg \<Rightarrow> pg \<times> unit res" where
  "pg_spacediff_Put E P = spacediff_PutWith (pool_Exec E) P"

definition upload_diff_insert :: "pg_formats \<Rightarrow> did \<Rightarrow> cid \<Rightarrow> int64 \<Rightarrow> time \<Rightarrow> nat stmt" where
  "upload_diff_insert P space cause delta receiptAt now d =
     on_table (\<lambda>t. d\<lparr>t_upload_diff := t\<rparr>) (sql_insert_nothing diff_row_key
       \<lparr>dr_space = space, dr_receipt_at = timestamptz P (Instant receiptAt), dr_cause = cid_String P cause,
        dr_delta = sint delta, dr_inserted_at = now\<rparr> (t_upload_diff d))"

definition uploaddiff_PutWith ::
  "(nat stmt \<Rightarrow> 's \<Rightarrow> 's \<times> nat sql) \<Rightarrow> pg_formats \<Rightarrow> did \<Rightarrow> cid \<Rightarrow> int64 \<Rightarrow> time \<Rightarrow> 's \<Rightarrow> 's \<times> bool res" where
  "uploaddiff_PutWith exec P space cause delta receiptAt q =
     andThenS (sql_res ''putting upload diff'' (exec (upload_diff_insert P space cause delta receiptAt) q))
       (\<lambda>affected q. (q, Ok (affected > 0)))"

definition pg_uploaddiff_Put ::
  "pg_env \<Rightarrow> pg_formats \<Rightarrow> did \<Rightarrow> cid \<Rightarrow> int64 \<Rightarrow> time \<Rightarrow> pg \<Rightarrow> pg \<times> bool res" where
  "pg_uploaddiff_Put E P = uploaddiff_PutWith (pool_Exec E) P"

text \<open>Reading a row of a log, and the key a cursor of a log stands for.\<close>

definition scan_diff :: "pg_formats \<Rightarrow> diff_row \<Rightarrow> DifferenceRecord res" where
  "scan_diff P r =
     andThen (wrap ''parsing space DID'' (did_Parse P (dr_space r))) (\<lambda>space.
     andThen (wrap ''parsing cause CID'' (cid_Parse P (dr_cause r))) (\<lambda>cause.
       Ok \<lparr>Space = space, Cause = cause, Delta = word_of_int (dr_delta r), ReceiptAt = dr_receipt_at r,
           InsertedAt = dr_inserted_at r\<rparr>))"

definition diff_cursor_key :: "pg_formats \<Rightarrow> string \<Rightarrow> (time \<times> string) res" where
  "diff_cursor_key P c =
     andThen (DecodeCursor (cursorJSON P) c) (\<lambda>(receiptAt, cause). Ok (timestamptz P receiptAt, collate P cause))"

definition diff_page ::
  "pg_env \<Rightarrow> pg_formats \<Rightarrow> string \<Rightarrow> string \<Rightarrow> (database \<Rightarrow> diff_row list) \<Rightarrow> did \<Rightarrow> time \<Rightarrow> PaginationConfig \<Rightarrow> pg \<Rightarrow>
   pg \<times> DifferenceRecord Page res" where
  "diff_page E P msg iter_msg table space after cfg s =
     pg_List E msg iter_msg
       (\<lambda>d. filter (\<lambda>r. dr_space r = space \<and>
          (Cursor cfg \<noteq> None \<or> after = go_zero_time \<or> dr_receipt_at r > timestamptz P after)) (table d))
       (\<lambda>r. (dr_receipt_at r, collate P (dr_cause r))) (diff_cursor_key P) (scan_diff P)
       (\<lambda>rec. EncodeCursor (cursorJSON P) (ReceiptAt rec) (cid_String P (Cause rec)))
       (page_limit cfg) (Cursor cfg) s"

definition pg_spacediff_List ::
  "pg_env \<Rightarrow> pg_formats \<Rightarrow> did \<Rightarrow> time \<Rightarrow> ListOption list \<Rightarrow> pg \<Rightarrow> pg \<times> DifferenceRecord Page res" where
  "pg_spacediff_List E P space after options s =
     diff_page E P ''listing space diffs'' ''iterating space diffs'' t_space_diff space after
       (apply_options options no_options) s"

definition pg_uploaddiff_List ::
  "pg_env \<Rightarrow> pg_formats \<Rightarrow> did \<Rightarrow> time \<Rightarrow> ListOption list \<Rightarrow> pg \<Rightarrow> pg \<times> DifferenceRecord Page res" where
  "pg_uploaddiff_List E P space after options s =
     diff_page E P ''listing upload diffs'' ''iterating upload diffs'' t_upload_diff space after
       (apply_options options no_options) s"

subsection \<open>The blob registry\<close>

definition blob_row_key :: "blob_row \<Rightarrow> string \<times> string" where
  "blob_row_key r = (br_space r, br_digest r)"

definition scan_blob :: "pg_formats \<Rightarrow> blob_row \<Rightarrow> blob_Record res" where
  "scan_blob P r =
     andThen (wrap ''parsing space DID'' (did_Parse P (br_space r))) (\<lambda>space.
     andThen (wrap ''parsing digest'' (digest_Parse P (br_digest r))) (\<lambda>digest.
     andThen (wrap ''parsing cause CID'' (cid_Parse P (br_cause r))) (\<lambda>cause.
       Ok \<lparr>ent_Space = space, ent_Blob = \<lparr>Digest = digest, Size = word_of_int (br_size r)\<rparr>,
           ent_Cause = cause, ent_InsertedAt = br_inserted_at r\<rparr>)))"

definition pg_blob_Get :: "pg_env \<Rightarrow> pg_formats \<Rightarrow> did \<Rightarrow> multihash \<Rightarrow> pg \<Rightarrow> pg \<times> blob_Record res" where
  "pg_blob_Get E P space digest s =
     (case pool_Query E (\<lambda>rank d. sql_row rank
          (filter (\<lambda>r. blob_row_key r = (space, digest_Format P digest)) (t_blob_registry d))) s of
        (s, Fail e) \<Rightarrow> (s, Err (Wrap ''getting blob registry entry'' (sql_gerr e)))
      | (s, Done None) \<Rightarrow> (s, Err ErrEntryNotFound)
      | (s, Done (Some row)) \<Rightarrow> (s, wrap ''getting blob registry entry'' (scan_blob P row)))"

definition blob_insert :: "pg_formats \<Rightarrow> did \<Rightarrow> Blob \<Rightarrow> cid \<Rightarrow> nat stmt" where
  "blob_insert P space blob cause now d =
     on_table (\<lambda>t. d\<lparr>t_blob_registry := t\<rparr>) (sql_insert blob_row_key
       \<lparr>br_space = space, br_digest = digest_Format P (Digest blob), br_size = sint (Size blob),
        br_cause = cid_String P cause, br_inserted_at = now\<rparr> (t_blob_registry d))"

definition blob_delete :: "pg_formats \<Rightarrow> did \<Rightarrow> multihash \<Rightarrow> nat stmt" where
  "blob_delete P space digest now d =
     on_table (\<lambda>t. d\<lparr>t_blob_registry := t\<rparr>)
       (sql_delete (\<lambda>r. blob_row_key r = (space, digest_Format P digest)) (t_blob_registry d))"

text \<open>What both transactions do after the registry's own statement: the row of the log, the counters of the
  space, the counters of the service.\<close>

definition pg_record_change ::
  "pg_env \<Rightarrow> pg_formats \<Rightarrow> did \<Rightarrow> cid \<Rightarrow> int64 \<Rightarrow> (metric \<times> uint64) list \<Rightarrow> time \<Rightarrow> pg_tx \<Rightarrow> pg_tx \<times> unit res" where
  "pg_record_change E P space cause delta inc receiptAt tx =
     andThenS (spacediff_PutWith (tx_Exec E) P space cause delta receiptAt tx) (\<lambda>_ tx.
     andThenS (IncrementSpaceWith (tx_Exec E) P space inc tx) (\<lambda>_ tx.
       IncrementAdminWith (tx_Exec E) P inc tx))"

definition pg_blob_Register ::
  "pg_env \<Rightarrow> pg_formats \<Rightarrow> did \<Rightarrow> Blob \<Rightarrow> cid \<Rightarrow> time \<Rightarrow> pg \<Rightarrow> pg \<times> unit res" where
  "pg_blob_Register E P space blob cause receiptAt s =
     with_tx E ''committing blob register'' (\<lambda>tx.
       andThenS (code_res uniqueViolation ErrEntryExists ''inserting blob registry entry''
           (tx_Exec E (blob_insert P space blob cause) tx)) (\<lambda>_ tx.
         pg_record_change E P space cause (Size blob)
           [(BlobAddTotalMetric, 1), (BlobAddSizeTotalMetric, Size blob)] receiptAt tx)) s"

definition pg_blob_Deregister ::
  "pg_env \<Rightarrow> pg_formats \<Rightarrow> did \<Rightarrow> multihash \<Rightarrow> cid \<Rightarrow> time \<Rightarrow> pg \<Rightarrow> pg \<times> unit res" where
  "pg_blob_Deregister E P space digest cause receiptAt s =
     andThenS (pg_blob_Get E P space digest s) (\<lambda>existing s.
       with_tx E ''committing blob deregister'' (\<lambda>tx.
         andThenS (sql_res ''deleting blob registry entry'' (tx_Exec E (blob_delete P space digest) tx))
           (\<lambda>affected tx.
             if affected = 0 then (tx, Err ErrEntryNotFound)
             else pg_record_change E P space cause (- ent_Size existing)
               [(BlobRemoveTotalMetric, 1), (BlobRemoveSizeTotalMetric, ent_Size existing)] receiptAt tx)) s)"

definition pg_blob_List ::
  "pg_env \<Rightarrow> pg_formats \<Rightarrow> did \<Rightarrow> ListOption list \<Rightarrow> pg \<Rightarrow> pg \<times> blob_Record Page res" where
  "pg_blob_List E P space options s =
     (let cfg = apply_options options no_options in
      pg_List E ''listing blob registry entries'' ''iterating blob registry entries''
        (\<lambda>d. filter (\<lambda>r. br_space r = space) (t_blob_registry d)) (\<lambda>r. collate P (br_digest r))
        (\<lambda>c. Ok (collate P c)) (scan_blob P) (\<lambda>rec. digest_Format P (ent_Digest rec))
        (page_limit cfg) (Cursor cfg) s)"

subsection \<open>The upload store\<close>

definition upload_row_key :: "upload_row \<Rightarrow> string \<times> string" where
  "upload_row_key r = (ur_space r, ur_root r)"

definition pg_upload_Exists :: "pg_env \<Rightarrow> pg_formats \<Rightarrow> did \<Rightarrow> cid \<Rightarrow> pg \<Rightarrow> pg \<times> bool res" where
  "pg_upload_Exists E P space root s =
     sql_res ''checking upload existence'' (pool_Query E (\<lambda>_ d.
       \<exists>r \<in> set (t_upload d). upload_row_key r = (space, cid_String P root)) s)"

definition scan_upload :: "pg_formats \<Rightarrow> upload_row \<Rightarrow> UploadRecord res" where
  "scan_upload P r =
     andThen (wrap ''parsing space DID'' (did_Parse P (ur_space r))) (\<lambda>space.
     andThen (wrap ''parsing root CID'' (cid_Parse P (ur_root r))) (\<lambda>root.
     andThen (case ur_index r of
         None \<Rightarrow> Ok None
       | Some x \<Rightarrow> andThen (wrap ''parsing index CID'' (cid_Parse P x)) (\<lambda>c. Ok (Some c))) (\<lambda>index.
     andThen (wrap ''parsing cause CID'' (cid_Parse P (ur_cause r))) (\<lambda>cause.
       Ok \<lparr>up_Space = space, up_Root = root, up_Index = index, up_Cause = cause,
           up_InsertedAt = ur_inserted_at r, up_UpdatedAt = ur_updated_at r\<rparr>))))"

definition pg_upload_Get :: "pg_env \<Rightarrow> pg_formats \<Rightarrow> did \<Rightarrow> cid \<Rightarrow> pg \<Rightarrow> pg \<times> UploadRecord res" where
  "pg_upload_Get E P space root s =
     (case pool_Query E (\<lambda>rank d. sql_row rank
          (filter (\<lambda>r. upload_row_key r = (space, cid_String P root)) (t_upload d))) s of
        (s, Fail e) \<Rightarrow> (s, Err (Wrap ''getting upload'' (sql_gerr e)))
      | (s, Done None) \<Rightarrow> (s, Err ErrUploadNotFound)
      | (s, Done (Some row)) \<Rightarrow> (s, wrap ''getting upload'' (scan_upload P row)))"

definition pg_upload_Inspect :: "pg_env \<Rightarrow> pg_formats \<Rightarrow> cid \<Rightarrow> pg \<Rightarrow> pg \<times> UploadInspectRecord res" where
  "pg_upload_Inspect E P root s =
     andThenS (rows_res ''inspecting upload'' ''iterating upload inspect rows''
         (pool_Query E (\<lambda>rank d. map ur_space (sql_unordered rank
            (filter (\<lambda>r. ur_root r = cid_String P root) (t_upload d)))) s))
       (\<lambda>rows s. (s, andThen (scan_rows (\<lambda>x. wrap ''parsing space DID'' (did_Parse P x)) rows)
          (\<lambda>spaces. Ok \<lparr>Spaces = spaces\<rparr>)))"

definition pg_upload_List ::
  "pg_env \<Rightarrow> pg_formats \<Rightarrow> did \<Rightarrow> ListOption list \<Rightarrow> pg \<Rightarrow> pg \<times> UploadRecord Page res" where
  "pg_upload_List E P space options s =
     (let cfg = apply_options options no_options in
      pg_List E ''listing uploads'' ''iterating uploads''
        (\<lambda>d. filter (\<lambda>r. ur_space r = space) (t_upload d)) (\<lambda>r. collate P (ur_root r))
        (\<lambda>c. Ok (collate P c)) (scan_upload P) (\<lambda>rec. cid_String P (up_Root rec))
        (page_limit cfg) (Cursor cfg) s)"

definition pg_ListShards ::
  "pg_env \<Rightarrow> pg_formats \<Rightarrow> did \<Rightarrow> cid \<Rightarrow> ListOption list \<Rightarrow> pg \<Rightarrow> pg \<times> cid Page res" where
  "pg_ListShards E P space root options s =
     (let cfg = apply_options options no_options;
          limit = (if page_limit cfg > 1000 then 1000 else page_limit cfg)
      in pg_List E ''listing shards'' ''iterating shards''
           (\<lambda>d. filter (\<lambda>r. sh_space r = space \<and> sh_root r = cid_String P root) (t_upload_shard d))
           (\<lambda>r. collate P (sh_shard r)) (\<lambda>c. Ok (collate P c))
           (\<lambda>r. wrap ''parsing shard CID'' (cid_Parse P (sh_shard r))) (cid_String P) limit (Cursor cfg) s)"

text \<open>Deleting an upload deletes its shards (\<^verbatim>\<open>ON DELETE CASCADE\<close>).\<close>

definition upload_delete :: "pg_formats \<Rightarrow> did \<Rightarrow> cid \<Rightarrow> nat stmt" where
  "upload_delete P space root now d =
     (let gone = (\<lambda>r. upload_row_key r = (space, cid_String P root)) in
      on_table (\<lambda>t. d\<lparr>t_upload := t, t_upload_shard := filter (\<lambda>r. (sh_space r, sh_root r) \<notin>
          upload_row_key ` set (filter gone (t_upload d))) (t_upload_shard d)\<rparr>)
        (sql_delete gone (t_upload d)))"

text \<open>\<^verbatim>\<open>RETURNING (xmax = 0)\<close> tells whether the row was inserted.\<close>

definition upload_upsert :: "pg_formats \<Rightarrow> did \<Rightarrow> cid \<Rightarrow> cid option \<Rightarrow> cid \<Rightarrow> bool stmt" where
  "upload_upsert P space root index cause now d =
     on_table (\<lambda>t. d\<lparr>t_upload := t\<rparr>) (sql_upsert upload_row_key
       (\<lambda>old. Done (old\<lparr>ur_index := map_option (cid_String P) index, ur_cause := cid_String P cause,
          ur_updated_at := now\<rparr>))
       \<lparr>ur_space = space, ur_root = cid_String P root, ur_index = map_option (cid_String P) index,
        ur_cause = cid_String P cause, ur_inserted_at = now, ur_updated_at = now\<rparr> (t_upload d))"

definition shard_insert :: "pg_formats \<Rightarrow> did \<Rightarrow> cid \<Rightarrow> cid \<Rightarrow> nat stmt" where
  "shard_insert P space root shard now d =
     (if (space, cid_String P root) \<notin> upload_row_key ` set (t_upload d) then Fail (PgError foreignKeyViolation)
      else on_table (\<lambda>t. d\<lparr>t_upload_shard := t\<rparr>) (sql_insert_nothing (\<lambda>r. (sh_space r, sh_root r, sh_shard r))
        \<lparr>sh_space = space, sh_root = cid_String P root, sh_shard = cid_String P shard\<rparr> (t_upload_shard d)))"

primrec shard_loop :: "pg_env \<Rightarrow> pg_formats \<Rightarrow> did \<Rightarrow> cid \<Rightarrow> cid list \<Rightarrow> pg_tx \<Rightarrow> pg_tx \<times> unit res" where
  "shard_loop E P space root [] tx = (tx, Ok ())"
| "shard_loop E P space root (shard # rest) tx =
     andThenS (sql_res ''upserting upload shard'' (tx_Exec E (shard_insert P space root shard) tx))
       (\<lambda>_ tx. shard_loop E P space root rest tx)"

definition pg_recordDelta ::
  "pg_env \<Rightarrow> pg_formats \<Rightarrow> did \<Rightarrow> cid \<Rightarrow> int64 \<Rightarrow> metric \<Rightarrow> time \<Rightarrow> pg_tx \<Rightarrow> pg_tx \<times> unit res" where
  "pg_recordDelta E P space cause delta metric receiptAt tx =
     andThenS (uploaddiff_PutWith (tx_Exec E) P space cause delta receiptAt tx) (\<lambda>recorded tx.
       if \<not> recorded then (tx, Ok ())
       else andThenS (IncrementSpaceWith (tx_Exec E) P space [(metric, 1)] tx) (\<lambda>_ tx.
         IncrementAdminWith (tx_Exec E) P [(metric, 1)] tx))"

definition pg_upload_Remove ::
  "pg_env \<Rightarrow> pg_formats \<Rightarrow> did \<Rightarrow> cid \<Rightarrow> cid \<Rightarrow> time \<Rightarrow> pg \<Rightarrow> pg \<times> unit res" where
  "pg_upload_Remove E P space root cause receiptAt s =
     with_tx E ''committing upload remove'' (\<lambda>tx.
       andThenS (sql_res ''removing upload'' (tx_Exec E (upload_delete P space root) tx)) (\<lambda>affected tx.
         if affected = 0 then (tx, Err ErrUploadNotFound)
         else pg_recordDelta E P space cause (- 1) UploadRemoveTotalMetric receiptAt tx)) s"

definition pg_upload_Upsert ::
  "pg_env \<Rightarrow> pg_formats \<Rightarrow> did \<Rightarrow> cid \<Rightarrow> cid option \<Rightarrow> cid list \<Rightarrow> cid \<Rightarrow> time \<Rightarrow> pg \<Rightarrow> pg \<times> unit res" where
  "pg_upload_Upsert E P space root index newShards cause receiptAt s =
     with_tx E ''committing upload upsert'' (\<lambda>tx.
       andThenS (sql_res ''upserting upload'' (tx_Exec E (upload_upsert P space root index cause) tx)) (\<lambda>inserted tx.
       andThenS (shard_loop E P space root newShards tx) (\<lambda>_ tx.
         if inserted then pg_recordDelta E P space cause 1 UploadAddTotalMetric receiptAt tx
         else (tx, Ok ())))) s"

subsection \<open>A database as a state of the in-memory stores\<close>

definition the_cid :: "pg_formats \<Rightarrow> string \<Rightarrow> cid" where
  "the_cid P x = (case cid_Parse P x of Ok c \<Rightarrow> c | _ \<Rightarrow> [])"

definition the_digest :: "pg_formats \<Rightarrow> string \<Rightarrow> multihash" where
  "the_digest P x = (case digest_Parse P x of Ok h \<Rightarrow> h | _ \<Rightarrow> [])"

definition diff_of :: "pg_formats \<Rightarrow> diff_row \<Rightarrow> DifferenceRecord" where
  "diff_of P r = \<lparr>Space = dr_space r, Cause = the_cid P (dr_cause r), Delta = word_of_int (dr_delta r),
     ReceiptAt = dr_receipt_at r, InsertedAt = dr_inserted_at r\<rparr>"

definition log_of :: "pg_formats \<Rightarrow> diff_row list \<Rightarrow> diff_store" where
  "log_of P t space = sort_key (diff_key (formats.truncate P))
     (map (diff_of P) (filter (\<lambda>r. dr_space r = space) t))"

definition metrics_of :: "(metric \<times> int) list \<Rightarrow> metrics" where
  "metrics_of t k = map_option word_of_int (map_of t k)"

definition space_metrics_of :: "((string \<times> metric) \<times> int) list \<Rightarrow> space_metrics" where
  "space_metrics_of t space = (if space \<in> (\<lambda>r. fst (fst r)) ` set t
     then Some (\<lambda>k. map_option word_of_int (map_of t (space, k))) else None)"

definition blob_of :: "pg_formats \<Rightarrow> blob_row \<Rightarrow> blob_Record" where
  "blob_of P r = \<lparr>ent_Space = br_space r,
     ent_Blob = \<lparr>Digest = the_digest P (br_digest r), Size = word_of_int (br_size r)\<rparr>,
     ent_Cause = the_cid P (br_cause r), ent_InsertedAt = br_inserted_at r\<rparr>"

definition upload_of :: "pg_formats \<Rightarrow> upload_row \<Rightarrow> UploadRecord" where
  "upload_of P r = \<lparr>up_Space = ur_space r, up_Root = the_cid P (ur_root r),
     up_Index = map_option (the_cid P) (ur_index r), up_Cause = the_cid P (ur_cause r),
     up_InsertedAt = ur_inserted_at r, up_UpdatedAt = ur_updated_at r\<rparr>"

definition pg_abs :: "pg_formats \<Rightarrow> database \<Rightarrow> upload_store" where
  "pg_abs P d = \<lparr>spaceDiffStore = log_of P (t_space_diff d), uploadDiffStore = log_of P (t_upload_diff d),
     spaceMetrics = space_metrics_of (t_space_metrics d), adminMetrics = metrics_of (t_admin_metrics d),
     blobs = (\<lambda>space. map (blob_of P) (filter (\<lambda>r. br_space r = space) (t_blob_registry d))),
     uploads = (\<lambda>space. Some (map (upload_of P) (filter (\<lambda>r. ur_space r = space) (t_upload d)))),
     shards = (\<lambda>space. Some (\<lambda>root. Some (map (\<lambda>r. the_cid P (sh_shard r))
        (filter (\<lambda>r. sh_space r = space \<and> sh_root r = cid_String P root) (t_upload_shard d)))))\<rparr>"

text \<open>What the schema and the stores keep of the tables: keys are unique, and the texts that stand for
  digests and CIDs are text forms.\<close>

definition is_cid :: "pg_formats \<Rightarrow> string \<Rightarrow> bool" where
  "is_cid P x \<longleftrightarrow> cid_String P (the_cid P x) = x"

definition is_digest :: "pg_formats \<Rightarrow> string \<Rightarrow> bool" where
  "is_digest P x \<longleftrightarrow> digest_Format P (the_digest P x) = x"

definition tables_ok :: "pg_formats \<Rightarrow> database \<Rightarrow> bool" where
  "tables_ok P d \<longleftrightarrow> distinct (map blob_row_key (t_blob_registry d)) \<and>
     list_all (\<lambda>r. is_digest P (br_digest r)) (t_blob_registry d) \<and>
     distinct (map diff_row_key (t_space_diff d)) \<and> distinct (map diff_row_key (t_upload_diff d)) \<and>
     list_all (\<lambda>r. is_cid P (dr_cause r)) (t_space_diff d) \<and>
     list_all (\<lambda>r. is_cid P (dr_cause r)) (t_upload_diff d) \<and>
     distinct (map fst (t_admin_metrics d)) \<and> distinct (map fst (t_space_metrics d)) \<and>
     distinct (map upload_row_key (t_upload d)) \<and> list_all (\<lambda>r. is_cid P (ur_root r)) (t_upload d)"

lemma the_cid_String [simp]: "pg_formats_ok P \<Longrightarrow> the_cid P (cid_String P c) = c"
  by (simp add: the_cid_def pg_formats_okD)

lemma the_digest_Format [simp]: "pg_formats_ok P \<Longrightarrow> the_digest P (digest_Format P h) = h"
  by (simp add: the_digest_def pg_formats_okD)

lemma is_cid_String [simp]: "pg_formats_ok P \<Longrightarrow> is_cid P (cid_String P c)"
  by (simp add: is_cid_def)

lemma is_digest_Format [simp]: "pg_formats_ok P \<Longrightarrow> is_digest P (digest_Format P h)"
  by (simp add: is_digest_def)

lemma the_digest_eq:
  "pg_formats_ok P \<Longrightarrow> is_digest P x \<Longrightarrow> the_digest P x = h \<longleftrightarrow> x = digest_Format P h"
  by (auto simp: is_digest_def)

lemma the_cid_eq: "pg_formats_ok P \<Longrightarrow> is_cid P x \<Longrightarrow> the_cid P x = c \<longleftrightarrow> x = cid_String P c"
  by (auto simp: is_cid_def)

subsection \<open>Counters and logs\<close>

lemma sort_key_snoc_sorted: "sort_key f (sort_key f xs @ [x]) = sort_key f (xs @ [x])"
proof (rule properties_for_sort_key)
  fix k
  have "filter (\<lambda>y. f k = f y) (sort_key f ys) = filter (\<lambda>y. f k = f y) ys" for ys
    using sort_key_stable [of f "f k" ys] by (simp add: eq_commute [of "f k"])
  then show "filter (\<lambda>y. f k = f y) (sort_key f (xs @ [x])) =
      filter (\<lambda>y. f k = f y) (sort_key f xs @ [x])"
    by simp
qed simp_all

lemma map_of_upd_value:
  "map_of (map (\<lambda>r. if fst r = k then (k, x) else r) t) = (if k \<in> fst ` set t then (map_of t)(k \<mapsto> x) else map_of t)"
  by (induction t) (auto simp: fun_eq_iff)

lemma add_value_Done:
  assumes "add_value k v t = Done (t', n)" and "distinct (map fst t)"
  shows "map_of t' = (map_of t)(k \<mapsto> (case map_of t k of None \<Rightarrow> v | Some x \<Rightarrow> x + v))"
    and "distinct (map fst t')" and "fst ` set t' = insert k (fst ` set t)"
proof -
  have find: "find (\<lambda>r. fst r = k) t = map_option (Pair k) (map_of t k)"
    by (induction t) auto
  have keys: "map fst (map (\<lambda>r. if fst r = k then (k, x) else r) t) = map fst t" for x
    by simp
  have "map_of t' = (map_of t)(k \<mapsto> (case map_of t k of None \<Rightarrow> v | Some x \<Rightarrow> x + v)) \<and>
      distinct (map fst t') \<and> fst ` set t' = insert k (fst ` set t)"
  proof (cases "map_of t k")
    case None
    then have "k \<notin> fst ` set t" "t' = t @ [(k, v)]"
      using assms(1) by (auto simp: add_value_def sql_upsert_def find map_of_eq_None_iff [symmetric])
    moreover have "map_of (t @ [(k, v)]) = (map_of t)(k \<mapsto> v)"
      using None by (auto simp: fun_eq_iff map_add_def split: option.split)
    ultimately show ?thesis
      using assms(2) None by simp
  next
    case (Some x)
    then have t': "t' = map (\<lambda>r. if fst r = k then (k, x + v) else r) t"
      using assms(1) by (simp add: add_value_def sql_upsert_def find bigint_def split: if_splits)
    have k: "k \<in> fst ` set t"
      using Some by (metis map_of_eq_None_iff option.distinct(1))
    have "map fst t' = map fst t" and "map_of t' = (map_of t)(k \<mapsto> x + v)"
      unfolding t' using keys [of "x + v"] map_of_upd_value [of k "x + v" t] k by simp_all
    moreover from this(1) have "fst ` set t' = fst ` set t"
      by (metis set_map)
    ultimately show ?thesis
      using assms(2) Some k by (simp add: insert_absorb)
  qed
  then show "map_of t' = (map_of t)(k \<mapsto> (case map_of t k of None \<Rightarrow> v | Some x \<Rightarrow> x + v))"
    "distinct (map fst t')" "fst ` set t' = insert k (fst ` set t)" by simp_all
qed

text \<open>The counters after an increment, whatever the order of the increments.\<close>

lemma fst_metrics_IncrementTotals:
  "fst (metrics_IncrementTotals inc m) k = (if k \<in> fst ` set inc
     then Some (counter m k + sum_list (map snd (filter (\<lambda>p. fst p = k) inc))) else m k)"
proof (induction inc arbitrary: m)
  case (Cons p inc)
  obtain j v where p: "p = (j, v)" by (cases p)
  have "sum_list (map snd (filter (\<lambda>p. fst p = k) inc)) = 0" if "k \<notin> fst ` set inc"
  proof -
    have "filter (\<lambda>p. fst p = k) inc = []"
      using that by (intro filter_nothing) auto
    then show ?thesis by simp
  qed
  then show ?case
    using Cons [of "m(j \<mapsto> counter m j + v)"]
    by (cases "k = j"; cases "k \<in> fst ` set inc") (simp_all add: p add.assoc del: fun_upd_apply, simp_all)
qed simp

lemma metrics_IncrementTotals_perm:
  assumes "mset inc = mset inc'"
  shows "fst (metrics_IncrementTotals inc m) = fst (metrics_IncrementTotals inc' m)"
proof
  fix k
  have "sum_list (map snd (filter (\<lambda>p. fst p = k) inc)) = sum_list (map snd (filter (\<lambda>p. fst p = k) inc'))"
    using arg_cong [OF assms, of "\<lambda>M. sum_mset (image_mset snd (filter_mset (\<lambda>p. fst p = k) M))"]
    by (simp add: sum_mset_sum_list [symmetric])
  moreover have "set inc = set inc'"
    using assms by (metis set_mset_mset)
  ultimately show "fst (metrics_IncrementTotals inc m) k = fst (metrics_IncrementTotals inc' m) k"
    by (simp add: fst_metrics_IncrementTotals)
qed

lemma SpaceStore_IncrementTotals_perm:
  "mset inc = mset inc' \<Longrightarrow>
    fst (SpaceStore_IncrementTotals space inc a) = fst (SpaceStore_IncrementTotals space inc' a)"
  by (simp add: SpaceStore_IncrementTotals_eq metrics_IncrementTotals_perm [of inc inc'])

lemma SpaceStore_IncrementTotals_Cons:
  "fst (SpaceStore_IncrementTotals space (p # inc) a) =
    fst (SpaceStore_IncrementTotals space inc (fst (SpaceStore_IncrementTotals space [p] a)))"
  by (cases p) (simp add: SpaceStore_IncrementTotals_eq)

lemma metrics_IncrementTotals_Cons:
  "fst (metrics_IncrementTotals (p # inc) m) =
    fst (metrics_IncrementTotals inc (fst (metrics_IncrementTotals [p] m)))"
  by (cases p) simp

lemma admin_upsert_abs:
  assumes "admin_upsert k v now d = Done (d', n)" and "tables_ok P d"
  shows "tables_ok P d'" and "pg_abs P d' = (pg_abs P d)\<lparr>adminMetrics :=
    fst (metrics_IncrementTotals [(k, word_of_int v)] (adminMetrics (pg_abs P d)))\<rparr>"
proof -
  from assms(1) obtain t where t: "add_value k v (t_admin_metrics d) = Done (t, n)"
    and d': "d' = d\<lparr>t_admin_metrics := t\<rparr>"
    by (auto simp: admin_upsert_def)
  note add = add_value_Done [OF t]
  show "tables_ok P d'"
    using assms(2) add by (simp add: tables_ok_def d')
  have "metrics_of t = (metrics_of (t_admin_metrics d))(k \<mapsto>
      counter (metrics_of (t_admin_metrics d)) k + word_of_int v)"
    using assms(2) add(1) by (auto simp: metrics_of_def fun_eq_iff tables_ok_def counter_def split: option.split)
  then show "pg_abs P d' = (pg_abs P d)\<lparr>adminMetrics :=
      fst (metrics_IncrementTotals [(k, word_of_int v)] (adminMetrics (pg_abs P d)))\<rparr>"
    by (simp add: pg_abs_def d')
qed

lemma space_upsert_abs:
  assumes "space_upsert space k v now d = Done (d', n)" and "tables_ok P d"
  shows "tables_ok P d'" and "pg_abs P d' = (pg_abs P d)\<lparr>spaceMetrics :=
    fst (SpaceStore_IncrementTotals space [(k, word_of_int v)] (spaceMetrics (pg_abs P d)))\<rparr>"
proof -
  from assms(1) obtain t where t: "add_value (space, k) v (t_space_metrics d) = Done (t, n)"
    and d': "d' = d\<lparr>t_space_metrics := t\<rparr>"
    by (auto simp: space_upsert_def)
  note add = add_value_Done [OF t]
  show "tables_ok P d'"
    using assms(2) add by (simp add: tables_ok_def d')
  have dist: "distinct (map fst (t_space_metrics d))"
    using assms(2) by (simp add: tables_ok_def)
  have keys: "(\<lambda>r. fst (fst r)) ` set t = insert space ((\<lambda>r. fst (fst r)) ` set (t_space_metrics d))"
    using arg_cong [OF add(3) [OF dist], of "image fst"] by (simp add: image_image)
  have none: "map_of (t_space_metrics d) (space, j) = None"
    if "space \<notin> (\<lambda>r. fst (fst r)) ` set (t_space_metrics d)" for j
    using that by (force simp: map_of_eq_None_iff)
  have "space_metrics_of t = fst (SpaceStore_IncrementTotals space [(k, word_of_int v)]
      (space_metrics_of (t_space_metrics d)))"
    using none
    by (auto simp: space_metrics_of_def keys fun_eq_iff SpaceStore_IncrementTotals_eq counter_def add(1) [OF dist]
        metrics_New_def split: option.split)
  then show "pg_abs P d' = (pg_abs P d)\<lparr>spaceMetrics :=
      fst (SpaceStore_IncrementTotals space [(k, word_of_int v)] (spaceMetrics (pg_abs P d)))\<rparr>"
    by (simp add: pg_abs_def d')
qed

text \<open>The loops over the counters inside a transaction, on the path where every statement succeeds.\<close>



lemma admin_loop_abs:
  assumes "increment_loop (tx_Exec E) msg admin_upsert inc tx = (tx', Ok ())"
    and "tables_ok P (tx_db tx)"
  shows "tables_ok P (tx_db tx') \<and> tx_aborted tx' = tx_aborted tx \<and> tx_now tx' = tx_now tx \<and>
    pg_abs P (tx_db tx') = (pg_abs P (tx_db tx))\<lparr>adminMetrics :=
      fst (metrics_IncrementTotals inc (adminMetrics (pg_abs P (tx_db tx))))\<rparr>"
  using assms
proof (induction inc arbitrary: tx)
  case (Cons p inc)
  from Cons.prems(1) obtain d n where st: "admin_upsert (fst p) (sint (snd p)) (tx_now tx) (tx_db tx) = Done (d, n)"
    and rest: "increment_loop (tx_Exec E) msg admin_upsert inc (tx\<lparr>tx_sent := Suc (tx_sent tx), tx_db := d\<rparr>) =
      (tx', Ok ())"
    by (auto simp: andThenS_eq_Ok)
  note one = admin_upsert_abs [OF st Cons.prems(2)]
  from Cons.IH [OF rest] one show ?case
    by (simp add: metrics_IncrementTotals_Cons [of p inc] del: metrics_IncrementTotals.simps)
qed simp

lemma space_loop_abs:
  assumes "increment_loop (tx_Exec E) msg (space_upsert space) inc tx = (tx', Ok ())"
    and "tables_ok P (tx_db tx)" and "inc \<noteq> []"
  shows "tables_ok P (tx_db tx') \<and> tx_aborted tx' = tx_aborted tx \<and> tx_now tx' = tx_now tx \<and>
    pg_abs P (tx_db tx') = (pg_abs P (tx_db tx))\<lparr>spaceMetrics :=
      fst (SpaceStore_IncrementTotals space inc (spaceMetrics (pg_abs P (tx_db tx))))\<rparr>"
  using assms
proof (induction inc arbitrary: tx)
  case (Cons p inc)
  from Cons.prems(1) obtain d n
    where st: "space_upsert space (fst p) (sint (snd p)) (tx_now tx) (tx_db tx) = Done (d, n)"
    and rest: "increment_loop (tx_Exec E) msg (space_upsert space) inc (tx\<lparr>tx_sent := Suc (tx_sent tx), tx_db := d\<rparr>) =
      (tx', Ok ())"
    by (auto simp: andThenS_eq_Ok)
  note one = space_upsert_abs [OF st Cons.prems(2)]
  show ?case
  proof (cases "inc = []")
    case True
    with rest one show ?thesis by auto
  next
    case False
    from Cons.IH [OF rest _ False] one show ?thesis
      by (simp add: SpaceStore_IncrementTotals_Cons [of space p inc])
  qed
qed simp

lemma mset_sorted_inc [simp]: "mset (sorted_inc P inc) = mset inc"
  by (simp add: sorted_inc_def)

lemma sorted_inc_Nil [simp]: "sorted_inc P inc = [] \<longleftrightarrow> inc = []"
  by (metis mset_sorted_inc mset_zero_iff)

lemma IncrementAdminWith_abs:
  assumes "IncrementAdminWith (tx_Exec E) P inc tx = (tx', Ok ())" and "tables_ok P (tx_db tx)"
  shows "tables_ok P (tx_db tx') \<and> tx_aborted tx' = tx_aborted tx \<and> tx_now tx' = tx_now tx \<and>
    pg_abs P (tx_db tx') = (pg_abs P (tx_db tx))\<lparr>adminMetrics :=
      fst (metrics_IncrementTotals inc (adminMetrics (pg_abs P (tx_db tx))))\<rparr>"
  using admin_loop_abs [OF assms(1) [unfolded IncrementAdminWith_def] assms(2)]
  by (simp add: metrics_IncrementTotals_perm [of "sorted_inc P inc" inc])

lemma IncrementSpaceWith_abs:
  assumes "IncrementSpaceWith (tx_Exec E) P space inc tx = (tx', Ok ())" and "tables_ok P (tx_db tx)"
    and "inc \<noteq> []"
  shows "tables_ok P (tx_db tx') \<and> tx_aborted tx' = tx_aborted tx \<and> tx_now tx' = tx_now tx \<and>
    pg_abs P (tx_db tx') = (pg_abs P (tx_db tx))\<lparr>spaceMetrics :=
      fst (SpaceStore_IncrementTotals space inc (spaceMetrics (pg_abs P (tx_db tx))))\<rparr>"
  using space_loop_abs [OF assms(1) [unfolded IncrementSpaceWith_def] assms(2)] assms(3)
  by (simp add: SpaceStore_IncrementTotals_perm [of "sorted_inc P inc" inc])

text \<open>A row of a log.\<close>

lemma log_of_snoc:
  "log_of P (t @ [r]) = (log_of P t)(dr_space r :=
     sort_key (diff_key (formats.truncate P)) (log_of P t (dr_space r) @ [diff_of P r]))"
  by (auto simp: log_of_def fun_eq_iff sort_key_snoc_sorted)

lemma space_diff_insert_abs:
  assumes "space_diff_insert P space cause delta at now d = Done (d', n)" and "tables_ok P d" and "pg_formats_ok P"
  shows "tables_ok P d'" and "pg_abs P d' = (pg_abs P d)\<lparr>spaceDiffStore :=
    fst (spacediff_put_recorded (formats.truncate P) space cause delta (timestamptz P at) now
      (spaceDiffStore (pg_abs P d)))\<rparr>"
  using assms
  by (auto simp: space_diff_insert_def sql_insert_cases tables_ok_def pg_abs_def log_of_snoc diff_of_def
      spacediff_put_recorded_def spacediff_Put_def Let_def)

lemma pg_record_change_abs:
  assumes "pg_record_change E P space cause delta inc at tx = (tx', Ok ())" and "tables_ok P (tx_db tx)"
    and "pg_formats_ok P" and "inc \<noteq> []"
  shows "tables_ok P (tx_db tx') \<and> tx_aborted tx' = tx_aborted tx \<and> pg_abs P (tx_db tx') =
    fst (blob_record_change (formats.truncate P) space cause delta inc (timestamptz P at) (tx_now tx)
      (pg_abs P (tx_db tx)))"
proof -
  from assms(1) obtain d n tx1 where st: "space_diff_insert P space cause delta at (tx_now tx) (tx_db tx) = Done (d, n)"
    and space: "IncrementSpaceWith (tx_Exec E) P space inc (tx\<lparr>tx_sent := Suc (tx_sent tx), tx_db := d\<rparr>) = (tx1, Ok ())"
    and admin: "IncrementAdminWith (tx_Exec E) P inc tx1 = (tx', Ok ())"
    by (auto simp: pg_record_change_def spacediff_PutWith_def andThenS_eq_Ok)
  note log = space_diff_insert_abs [OF st assms(2,3)]
  note spc = IncrementSpaceWith_abs [OF space _ assms(4)]
  from log spc IncrementAdminWith_abs [OF admin] show ?thesis
    by (simp add: blob_record_change_eq)
qed

subsection \<open>The registry's own table\<close>

lemma blob_rows:
  assumes "pg_formats_ok P" and "list_all (\<lambda>r. is_digest P (br_digest r)) t"
  shows "find (\<lambda>e. ent_Digest e = digest) (map (blob_of P) (filter (\<lambda>r. br_space r = space) t)) =
      map_option (blob_of P) (find (\<lambda>r. blob_row_key r = (space, digest_Format P digest)) t)"
    and "map (blob_of P) (filter (\<lambda>r. br_space r = sp)
        (filter (\<lambda>r. blob_row_key r \<noteq> (space, digest_Format P digest)) t)) =
      (if sp = space then filter (\<lambda>e. ent_Digest e \<noteq> digest) (map (blob_of P) (filter (\<lambda>r. br_space r = sp) t))
       else map (blob_of P) (filter (\<lambda>r. br_space r = sp) t))"
  using assms(2)
  by (induction t) (auto simp: blob_of_def blob_row_key_def the_digest_eq [OF assms(1)])

lemma registered_abs:
  assumes "pg_formats_ok P" and "tables_ok P d"
  shows "registered (pg_abs P d) space digest =
    map_option (blob_of P) (find (\<lambda>r. blob_row_key r = (space, digest_Format P digest)) (t_blob_registry d))"
  using assms(2) blob_rows(1) [OF assms(1), of "t_blob_registry d" digest space]
  by (simp add: registered_def pg_abs_def tables_ok_def)

lemma blob_insert_abs:
  assumes "pg_formats_ok P" and "tables_ok P d"
  shows "registered (pg_abs P d) space (Digest b) \<noteq> None \<Longrightarrow>
      blob_insert P space b cause now d = Fail (PgError uniqueViolation)"
    and "registered (pg_abs P d) space (Digest b) = None \<Longrightarrow>
      \<exists>d'. blob_insert P space b cause now d = Done (d', 1) \<and> tables_ok P d' \<and>
        pg_abs P d' = (pg_abs P d)\<lparr>blobs := (blobs (pg_abs P d))(space := blobs (pg_abs P d) space @
          [\<lparr>ent_Space = space, ent_Blob = b, ent_Cause = cause, ent_InsertedAt = now\<rparr>])\<rparr>"
proof -
  have key: "registered (pg_abs P d) space (Digest b) = None \<longleftrightarrow>
      (space, digest_Format P (Digest b)) \<notin> blob_row_key ` set (t_blob_registry d)"
    by (simp add: registered_abs [OF assms] find_None_key)
  then show "registered (pg_abs P d) space (Digest b) \<noteq> None \<Longrightarrow>
      blob_insert P space b cause now d = Fail (PgError uniqueViolation)"
    by (auto simp: blob_insert_def sql_insert_cases blob_row_key_def)
  assume "registered (pg_abs P d) space (Digest b) = None"
  with key assms show "\<exists>d'. blob_insert P space b cause now d = Done (d', 1) \<and> tables_ok P d' \<and>
        pg_abs P d' = (pg_abs P d)\<lparr>blobs := (blobs (pg_abs P d))(space := blobs (pg_abs P d) space @
          [\<lparr>ent_Space = space, ent_Blob = b, ent_Cause = cause, ent_InsertedAt = now\<rparr>])\<rparr>"
    by (auto simp: blob_insert_def sql_insert_def tables_ok_def blob_row_key_def pg_abs_def fun_eq_iff blob_of_def)
qed

lemma blob_delete_abs:
  assumes "pg_formats_ok P" and "tables_ok P d" and "blob_delete P space digest now d = Done (d', n)"
  shows "tables_ok P d'" and "n = 0 \<longleftrightarrow> registered (pg_abs P d) space digest = None"
    and "pg_abs P d' = (pg_abs P d)\<lparr>blobs := (blobs (pg_abs P d))(space :=
      filter (\<lambda>e. ent_Digest e \<noteq> digest) (blobs (pg_abs P d) space))\<rparr>"
proof -
  let ?gone = "\<lambda>r. blob_row_key r = (space, digest_Format P digest)"
  have d': "d' = d\<lparr>t_blob_registry := filter (\<lambda>r. \<not> ?gone r) (t_blob_registry d)\<rparr>"
    and n: "n = length (filter ?gone (t_blob_registry d))"
    using assms(3) by (auto simp: blob_delete_def sql_delete_def)
  show "tables_ok P d'"
    using assms(2) by (auto simp: tables_ok_def d' distinct_map_filter list_all_iff)
  show "n = 0 \<longleftrightarrow> registered (pg_abs P d) space digest = None"
    by (auto simp: n registered_abs [OF assms(1,2)] filter_empty_conv find_None_iff)
  have "list_all (\<lambda>r. is_digest P (br_digest r)) (t_blob_registry d)"
    using assms(2) by (simp add: tables_ok_def)
  from blob_rows(2) [OF assms(1) this] show "pg_abs P d' = (pg_abs P d)\<lparr>blobs := (blobs (pg_abs P d))(space :=
      filter (\<lambda>e. ent_Digest e \<noteq> digest) (blobs (pg_abs P d) space))\<rparr>"
    by (auto simp: pg_abs_def d' fun_eq_iff simp del: filter_filter)
qed

subsection \<open>The registry's transactions\<close>

subsection \<open>The registry's transactions\<close>

lemma plain_increment_loop [plain_intros]: "plain (snd (increment_loop exec msg upsert inc q))"
  by (induction inc arbitrary: q) (auto intro!: plain_intros)

lemma plain_pg_record_change [plain_intros]:
  "plain (snd (pg_record_change E P space cause delta inc at tx))"
  unfolding pg_record_change_def spacediff_PutWith_def IncrementSpaceWith_def IncrementAdminWith_def
  by (intro plain_intros) simp_all

text \<open>The readings of the clock that the in-memory registry would make: the time of the transaction for the
  rows it inserts, and the time the log keeps for the change.\<close>

definition register_clock :: "time \<Rightarrow> time \<Rightarrow> clock" where
  "register_clock now at i = (if i = 1 then at else now)"

definition deregister_clock :: "time \<Rightarrow> time \<Rightarrow> clock" where
  "deregister_clock now at i = (if i = 0 then at else now)"

lemma register_body:
  assumes "pg_formats_ok P" and "tables_ok P (tx_db tx)" and "\<not> tx_aborted tx"
    and "andThenS (code_res uniqueViolation ErrEntryExists msg (tx_Exec E (blob_insert P space b cause) tx)) (\<lambda>_ tx.
         pg_record_change E P space cause (Size b)
           [(BlobAddTotalMetric, 1), (BlobAddSizeTotalMetric, Size b)] at tx) = (tx', r)"
  shows "r = Ok () \<Longrightarrow> tables_ok P (tx_db tx') \<and>
      blob_Register (formats.truncate P) space b cause (register_clock (tx_now tx) (timestamptz P at))
        (pg_abs P (tx_db tx)) = (pg_abs P (tx_db tx'), Ok ())"
    and "plain r \<or> r = Err ErrEntryExists \<and> registered (pg_abs P (tx_db tx)) space (Digest b) \<noteq> None"
proof -
  let ?m = "pg_abs P (tx_db tx)"
  note ins = blob_insert_abs [OF assms(1,2), of space b cause "tx_now tx"]
  {
    assume "r = Ok ()"
    with assms(4) obtain d n where st: "blob_insert P space b cause (tx_now tx) (tx_db tx) = Done (d, n)"
      and change: "pg_record_change E P space cause (Size b) [(BlobAddTotalMetric, 1), (BlobAddSizeTotalMetric, Size b)]
        at (tx\<lparr>tx_sent := Suc (tx_sent tx), tx_db := d\<rparr>) = (tx', Ok ())"
      by (auto simp: andThenS_eq_Ok)
    from st ins have fresh: "registered ?m space (Digest b) = None" by fastforce
    with ins(2) st have "tables_ok P d" "pg_abs P d = ?m\<lparr>blobs := (blobs ?m)(space := blobs ?m space @
        [\<lparr>ent_Space = space, ent_Blob = b, ent_Cause = cause, ent_InsertedAt = tx_now tx\<rparr>])\<rparr>"
      by auto
    with pg_record_change_abs [OF change] assms(1) fresh
    show "tables_ok P (tx_db tx') \<and>
      blob_Register (formats.truncate P) space b cause (register_clock (tx_now tx) (timestamptz P at))
        ?m = (pg_abs P (tx_db tx'), Ok ())"
      by (simp add: blob_Register_fresh register_clock_def)
  }
  show "plain r \<or> r = Err ErrEntryExists \<and> registered ?m space (Digest b) \<noteq> None"
  proof (cases "tx_Exec E (blob_insert P space b cause) tx")
    case (Pair tx1 q)
    show ?thesis
    proof (cases q)
      case (Done x)
      have "r = snd (pg_record_change E P space cause (Size b)
          [(BlobAddTotalMetric, 1), (BlobAddSizeTotalMetric, Size b)] at tx1)"
        using assms(4) by (simp add: Pair Done)
      then show ?thesis
        by (simp add: plain_pg_record_change)
    next
      case (Fail e)
      show ?thesis
      proof (cases "e = PgError uniqueViolation")
        case True
        then have "tx_Exec E (blob_insert P space b cause) tx = (tx1, Fail (PgError uniqueViolation))"
          using Pair Fail by simp
        from tx_Exec_PgError [OF this assms(3)] ins(2)
        have "registered ?m space (Digest b) \<noteq> None" by fastforce
        with True assms(4) show ?thesis by (simp add: Pair Fail)
      next
        case False
        with assms(4) show ?thesis by (auto simp: Pair Fail)
      qed
    qed
  qed
qed

lemma pg_Register_refines:
  assumes "pg_formats_ok P" and "tables_ok P (pg_seen E s)"
    and "pg_blob_Register E P space b cause at s = (s', r)"
  defines "mem \<equiv> blob_Register (formats.truncate P) space b cause
    (register_clock (pg_now E (pg_sent s)) (timestamptz P at)) (pg_abs P (pg_seen E s))"
  shows "tables_ok P (pg_db s')" and "pg_db s' = pg_seen E s \<or> mem = (pg_abs P (pg_db s'), Ok ())"
    and "r = Ok () \<Longrightarrow> mem = (pg_abs P (pg_db s'), Ok ())"
    and "r = Ok () \<or> (\<exists>msg e. r = Err (Wrap msg e)) \<or> r = Err ErrEntryExists \<and> pg_db s' = pg_seen E s \<and>
      mem = (pg_abs P (pg_seen E s), Err ErrEntryExists)"
proof -
  have start: "tables_ok P (tx_db (tx_start E s))" "\<not> tx_aborted (tx_start E s)"
    using assms(2) by simp_all
  note body = register_body [OF assms(1) start]
  have "tables_ok P (pg_db s') \<and> (pg_db s' = pg_seen E s \<or> mem = (pg_abs P (pg_db s'), Ok ())) \<and>
    (r = Ok () \<longrightarrow> mem = (pg_abs P (pg_db s'), Ok ())) \<and>
    (r = Ok () \<or> (\<exists>msg e. r = Err (Wrap msg e)) \<or> r = Err ErrEntryExists \<and> pg_db s' = pg_seen E s \<and>
      mem = (pg_abs P (pg_seen E s), Err ErrEntryExists))"
    using assms(3) unfolding pg_blob_Register_def
  proof (cases rule: with_tx_cases)
    case (refused msg' e)
    with assms(2) show ?thesis by simp
  next
    case (failed tx)
    from body(2) [OF failed(2)] failed assms(2) show ?thesis
      by (auto simp: plain_def mem_def blob_Register_exists)
  next
    case (whole tx x)
    from body(1) [OF whole(1)] whole(2,3) show ?thesis
      by (auto simp: mem_def)
  qed
  then show "tables_ok P (pg_db s')" "pg_db s' = pg_seen E s \<or> mem = (pg_abs P (pg_db s'), Ok ())"
    "r = Ok () \<Longrightarrow> mem = (pg_abs P (pg_db s'), Ok ())"
    "r = Ok () \<or> (\<exists>msg e. r = Err (Wrap msg e)) \<or> r = Err ErrEntryExists \<and> pg_db s' = pg_seen E s \<and>
      mem = (pg_abs P (pg_seen E s), Err ErrEntryExists)"
    by blast+
qed

lemma blobs_distinct_abs:
  assumes "pg_formats_ok P" and "tables_ok P d"
  shows "blobs_distinct (pg_abs P d)"
proof -
  have "distinct (map ent_Digest (map (blob_of P) (filter (\<lambda>r. br_space r = sp) t)))"
    if "distinct (map blob_row_key t)" and "list_all (\<lambda>r. is_digest P (br_digest r)) t" for sp t
    using that
  proof (induction t)
    case (Cons r t)
    have "the_digest P (br_digest r') \<noteq> the_digest P (br_digest r)"
      if "r' \<in> set t" and "br_space r' = br_space r" for r'
    proof
      assume "the_digest P (br_digest r') = the_digest P (br_digest r)"
      then have "br_digest r' = br_digest r"
        using Cons.prems(2) that(1) unfolding is_digest_def list_all_iff by (metis list.set_intros)
      with Cons.prems(1) that show False
        by (auto simp: blob_row_key_def rev_image_eqI)
    qed
    then have "ent_Digest (blob_of P r) \<notin> (\<lambda>r'. ent_Digest (blob_of P r')) ` {r' \<in> set t. br_space r' = br_space r}"
      by (fastforce simp: blob_of_def)
    with Cons show ?case by (cases "br_space r = sp") simp_all
  qed simp
  with assms(2) show ?thesis
    by (simp add: blobs_distinct_def pg_abs_def tables_ok_def)
qed

text \<open>Reading an entry gives what the registry holds as the query finds it.\<close>

lemma pg_blob_Get_cases:
  assumes "pg_formats_ok P" and "tables_ok P (pg_seen E s)" and "pg_blob_Get E P space digest s = (s', r)"
  obtains (found) e rec where "registered (pg_abs P (pg_seen E s)) space digest = Some e" "r = Ok rec"
      "ent_Blob rec = ent_Blob e"
  | (missing) "registered (pg_abs P (pg_seen E s)) space digest = None" "r = Err ErrEntryNotFound"
  | (other) msg e where "r = Err (Wrap msg e)"
proof -
  let ?d = "pg_seen E s"
  let ?found = "find (\<lambda>r. blob_row_key r = (space, digest_Format P digest)) (t_blob_registry ?d)"
  have dist: "distinct (map blob_row_key (t_blob_registry ?d))"
    using assms(2) by (simp add: tables_ok_def)
  show thesis
  proof (cases "pg_fault E (pg_sent s)")
    case (Some f)
    with assms(3) show thesis
      by (intro other [of "''getting blob registry entry''" "sql_gerr (fault_error f)"])
        (auto simp: pg_blob_Get_def pool_Query_def Let_def)
  next
    case None
    then have get: "r = (case ?found of None \<Rightarrow> Err ErrEntryNotFound
        | Some row \<Rightarrow> wrap ''getting blob registry entry'' (scan_blob P row))"
      using assms(3) sql_row_key [OF dist]
      by (simp add: pg_blob_Get_def pool_Query_def Let_def split: option.splits)
    show thesis
    proof (cases ?found)
      case None
      with get registered_abs [OF assms(1,2), of space digest] show thesis
        by (intro missing) simp_all
    next
      case (Some row)
      then have reg: "registered (pg_abs P ?d) space digest = Some (blob_of P row)"
        by (simp add: registered_abs [OF assms(1,2)])
      show thesis
      proof (cases "scan_blob P row")
        case (Ok rec)
        then have "ent_Blob rec = ent_Blob (blob_of P row)"
          by (auto simp: scan_blob_def blob_of_def the_digest_def)
        with Ok get Some reg show thesis by (intro found [of "blob_of P row" rec]) simp_all
      next
        case (Err e)
        with get Some show thesis by (intro other) simp
      next
        case Panic
        then show thesis
          using pg_formats_okD(9-11) [OF assms(1)] by (simp add: scan_blob_def andThen_eq_Panic)
      qed
    qed
  qed
qed

lemma pg_blob_Get_state [simp]:
  "pg_db (fst (pg_blob_Get E P space digest s)) = pg_seen E s"
  "pg_sent (fst (pg_blob_Get E P space digest s)) = Suc (pg_sent s)"
  by (simp_all add: pg_blob_Get_def pool_Query_def Let_def split: option.split)

lemma deregister_body:
  assumes "pg_formats_ok P" and "tables_ok P (tx_db tx)"
    and "andThenS (sql_res msg (tx_Exec E (blob_delete P space digest) tx)) (\<lambda>affected tx.
        if affected = 0 then (tx, Err ErrEntryNotFound)
        else pg_record_change E P space cause (- sz)
          [(BlobRemoveTotalMetric, 1), (BlobRemoveSizeTotalMetric, sz)] at tx) = (tx', r)"
    and size: "\<And>e. registered (pg_abs P (tx_db tx)) space digest = Some e \<Longrightarrow> ent_Size e = sz"
  shows "r = Ok () \<Longrightarrow> tables_ok P (tx_db tx') \<and>
      blob_Deregister (formats.truncate P) space digest cause (deregister_clock (tx_now tx) (timestamptz P at))
        (pg_abs P (tx_db tx)) = (pg_abs P (tx_db tx'), Ok ())"
    and "plain r \<or> r = Err ErrEntryNotFound \<and> registered (pg_abs P (tx_db tx)) space digest = None"
proof -
  let ?m = "pg_abs P (tx_db tx)"
  {
    assume "r = Ok ()"
    with assms(3) obtain d n where st: "blob_delete P space digest (tx_now tx) (tx_db tx) = Done (d, n)"
      and n: "n \<noteq> 0"
      and change: "pg_record_change E P space cause (- sz) [(BlobRemoveTotalMetric, 1), (BlobRemoveSizeTotalMetric, sz)]
        at (tx\<lparr>tx_sent := Suc (tx_sent tx), tx_db := d\<rparr>) = (tx', Ok ())"
      by (auto simp: andThenS_eq_Ok split: if_splits)
    note del = blob_delete_abs [OF assms(1,2) st]
    from n del(2) obtain e where e: "registered ?m space digest = Some e" by auto
    from pg_record_change_abs [OF change] del(1,3) assms(1) size [OF e]
      blob_Deregister_found [OF blobs_distinct_abs [OF assms(1,2)] e]
    show "tables_ok P (tx_db tx') \<and>
      blob_Deregister (formats.truncate P) space digest cause (deregister_clock (tx_now tx) (timestamptz P at))
        ?m = (pg_abs P (tx_db tx'), Ok ())"
      by (simp add: deregister_clock_def blob_record_change_eq)
  }
  show "plain r \<or> r = Err ErrEntryNotFound \<and> registered ?m space digest = None"
  proof (cases "tx_Exec E (blob_delete P space digest) tx")
    case (Pair tx1 q)
    show ?thesis
    proof (cases q)
      case (Done n)
      with Pair obtain d where st: "blob_delete P space digest (tx_now tx) (tx_db tx) = Done (d, n)" by auto
      show ?thesis
      proof (cases "n = 0")
        case True
        with blob_delete_abs(2) [OF assms(1,2) st] assms(3) show ?thesis
          by (simp add: Pair Done)
      next
        case False
        then have "r = snd (pg_record_change E P space cause (- sz)
            [(BlobRemoveTotalMetric, 1), (BlobRemoveSizeTotalMetric, sz)] at tx1)"
          using assms(3) by (simp add: Pair Done)
        then show ?thesis by (simp add: plain_pg_record_change)
      qed
    next
      case (Fail e)
      with assms(3) show ?thesis by (auto simp: Pair)
    qed
  qed
qed

lemma pg_Deregister_refines:
  assumes "pg_formats_ok P" and "tables_ok P d0" and "tables_ok P d1"
    and "pg_blob_Deregister E P space digest cause at s = (s', r)"
    and "d0 = pg_seen E s" and "d1 = pg_others E (Suc (pg_sent s)) d0"
    and size: "\<And>e0 e1. registered (pg_abs P d0) space digest = Some e0 \<Longrightarrow>
      registered (pg_abs P d1) space digest = Some e1 \<Longrightarrow> ent_Size e0 = ent_Size e1"
  defines "mem \<equiv> blob_Deregister (formats.truncate P) space digest cause
    (deregister_clock (pg_now E (Suc (pg_sent s))) (timestamptz P at)) (pg_abs P d1)"
  shows "tables_ok P (pg_db s') \<and> (pg_db s' = d0 \<or> pg_db s' = d1 \<or> mem = (pg_abs P (pg_db s'), Ok ())) \<and>
    (r = Ok () \<longrightarrow> mem = (pg_abs P (pg_db s'), Ok ())) \<and>
    (r = Ok () \<or> (\<exists>msg e. r = Err (Wrap msg e)) \<or> r = Err ErrEntryNotFound \<and> (pg_db s' = d0 \<or> pg_db s' = d1) \<and>
      (registered (pg_abs P d0) space digest = None \<or> registered (pg_abs P d1) space digest = None))"
proof (cases "pg_blob_Get E P space digest s")
  case (Pair s1 g)
  have s1: "pg_db s1 = d0" "pg_sent s1 = Suc (pg_sent s)"
    using pg_blob_Get_state [of E P space digest s] assms(5) by (simp_all add: Pair)
  then have seen: "pg_seen E s1 = d1"
    by (simp add: pg_seen_def assms(6))
  from assms(1) assms(2) [unfolded assms(5)] Pair show ?thesis
  proof (cases rule: pg_blob_Get_cases)
    case (found e rec)
    let ?body = "\<lambda>tx. andThenS (sql_res ''deleting blob registry entry'' (tx_Exec E (blob_delete P space digest) tx))
      (\<lambda>affected tx. if affected = 0 then (tx, Err ErrEntryNotFound)
         else pg_record_change E P space cause (- ent_Size rec)
           [(BlobRemoveTotalMetric, 1), (BlobRemoveSizeTotalMetric, ent_Size rec)] at tx)"
    have tx: "with_tx E ''committing blob deregister'' ?body s1 = (s', r)"
      using assms(4) by (simp add: pg_blob_Deregister_def Pair found(2))
    have start: "tables_ok P (tx_db (tx_start E s1))"
      using assms(3) by (simp add: seen)
    have sz: "ent_Size e1 = ent_Size rec"
      if "registered (pg_abs P (tx_db (tx_start E s1))) space digest = Some e1" for e1
      using size [of e e1] that found by (simp add: seen assms(5))
    note body = deregister_body [OF assms(1) start _ sz]
    from tx show ?thesis
    proof (cases rule: with_tx_cases)
      case (refused msg' e)
      with assms(3) seen show ?thesis by simp
    next
      case (failed tx)
      from body(2) [OF failed(2)] failed assms(3) seen show ?thesis
        by (auto simp: plain_def)
    next
      case (whole tx x)
      from body(1) [OF whole(1)] whole(2,3) seen s1(2) show ?thesis
        by (auto simp: mem_def)
    qed
  next
    case missing
    with assms(2,4) s1 show ?thesis
      by (auto simp: pg_blob_Deregister_def Pair assms(5))
  next
    case (other msg e)
    with assms(2,4) s1 show ?thesis
      by (auto simp: pg_blob_Deregister_def Pair)
  qed
qed

end
