(* ===== verification/Pg_Uploads.thy ===== *)
theory Pg_Uploads
  imports Pg_Ledger
begin

section \<open>Uploads and the balance of the Postgres ledger\<close>

text \<open>
  What the transactions of the Postgres upload store do to the tables, read as a state of the in-memory
  stores, and that the operations of both stores keep logs, counters and holdings in balance.
\<close>

subsection \<open>The upload store's tables\<close>

lemma log_of_has:
  assumes "pg_formats_ok P" and "list_all (\<lambda>r. is_cid P (dr_cause r)) t"
  shows "(\<exists>x \<in> set (log_of P t space). Cause x = cause \<and> ReceiptAt x = at) \<longleftrightarrow>
    (space, at, cid_String P cause) \<in> diff_row_key ` set t"
proof -
  have "(\<exists>x \<in> set (log_of P t space). Cause x = cause \<and> ReceiptAt x = at) \<longleftrightarrow>
      (\<exists>r \<in> set t. dr_space r = space \<and> the_cid P (dr_cause r) = cause \<and> dr_receipt_at r = at)"
    by (auto simp: log_of_def diff_of_def)
  also have "\<dots> \<longleftrightarrow> (\<exists>r \<in> set t. dr_space r = space \<and> dr_cause r = cid_String P cause \<and> dr_receipt_at r = at)"
    using assms(2) by (intro bex_cong refl) (simp add: the_cid_eq [OF assms(1)] list_all_iff)
  finally show ?thesis
    by (auto simp: diff_row_key_def image_iff)
qed

lemma upload_diff_insert_abs:
  assumes "upload_diff_insert P space cause delta at now d = Done (d', n)" and "tables_ok P d" and "pg_formats_ok P"
  shows "tables_ok P d'"
    and "uploaddiff_Put (formats.truncate P) space cause delta at now (uploadDiffStore (pg_abs P d)) =
      (uploadDiffStore (pg_abs P d'), Ok (n > 0))"
    and "pg_abs P d' = (pg_abs P d)\<lparr>uploadDiffStore := uploadDiffStore (pg_abs P d')\<rparr>"
proof -
  have cids: "list_all (\<lambda>r. is_cid P (dr_cause r)) (t_upload_diff d)"
    using assms(2) by (simp add: tables_ok_def)
  note has = log_of_has [OF assms(3) cids, of space cause "Instant at"]
  have at: "timestamptz P (Instant at) = Instant at"
    by (rule pg_formats_okD(8) [OF assms(3)])
  have "tables_ok P d' \<and> uploaddiff_Put (formats.truncate P) space cause delta at now (uploadDiffStore (pg_abs P d)) =
      (uploadDiffStore (pg_abs P d'), Ok (n > 0)) \<and>
      pg_abs P d' = (pg_abs P d)\<lparr>uploadDiffStore := uploadDiffStore (pg_abs P d')\<rparr>"
  proof (cases "(space, Instant at, cid_String P cause) \<in> diff_row_key ` set (t_upload_diff d)")
    case True
    then have "d' = d" "n = 0"
      using assms(1) by (auto simp: upload_diff_insert_def sql_insert_nothing_def diff_row_key_def at)
    with True has assms(2) show ?thesis
      by (simp add: uploaddiff_Put_def pg_abs_def)
  next
    case False
    let ?r = "\<lparr>dr_space = space, dr_receipt_at = Instant at, dr_cause = cid_String P cause,
      dr_delta = sint delta, dr_inserted_at = now\<rparr>"
    have d': "d' = d\<lparr>t_upload_diff := t_upload_diff d @ [?r]\<rparr>" "n = 1"
      using False assms(1) by (auto simp: upload_diff_insert_def sql_insert_nothing_def diff_row_key_def at)
    with False has assms show ?thesis
      by (auto simp: uploaddiff_Put_def pg_abs_def log_of_snoc diff_of_def tables_ok_def diff_row_key_def Let_def)
  qed
  then show "tables_ok P d'"
    "uploaddiff_Put (formats.truncate P) space cause delta at now (uploadDiffStore (pg_abs P d)) =
      (uploadDiffStore (pg_abs P d'), Ok (n > 0))"
    "pg_abs P d' = (pg_abs P d)\<lparr>uploadDiffStore := uploadDiffStore (pg_abs P d')\<rparr>"
    by blast+
qed

lemma pg_recordDelta_abs:
  assumes "pg_recordDelta E P space cause delta metric at tx = (tx', Ok ())" and "tables_ok P (tx_db tx)"
    and "pg_formats_ok P"
  shows "tables_ok P (tx_db tx') \<and> pg_abs P (tx_db tx') =
    fst (recordDelta (formats.truncate P) space cause delta metric (deregister_clock (tx_now tx) at) (pg_abs P (tx_db tx)))"
proof -
  let ?tx = "\<lambda>d. tx\<lparr>tx_sent := Suc (tx_sent tx), tx_db := d\<rparr>"
  from assms(1) obtain d n where st: "upload_diff_insert P space cause delta at (tx_now tx) (tx_db tx) = Done (d, n)"
    and rest: "(if \<not> n > 0 then (?tx d, Ok ()) else andThenS (IncrementSpaceWith (tx_Exec E) P space [(metric, 1)] (?tx d))
      (\<lambda>_ tx. IncrementAdminWith (tx_Exec E) P [(metric, 1)] tx)) = (tx', Ok ())"
    by (auto simp: pg_recordDelta_def uploaddiff_PutWith_def andThenS_eq_Ok)
  note log = upload_diff_insert_abs [OF st assms(2,3)]
  have put: "uploaddiff_Put (formats.truncate P) space cause delta at (tx_now tx) (uploadDiffStore (pg_abs P (tx_db tx))) =
      (uploadDiffStore (pg_abs P d), Ok (n > 0))"
    by (rule log(2))
  show ?thesis
  proof (cases "n > 0")
    case False
    then have "uploadDiffStore (pg_abs P d) = uploadDiffStore (pg_abs P (tx_db tx))"
      using upload_log.put_skipped [OF put [unfolded False [THEN Eq_FalseI]]] by simp
    with False rest put log(1,3) show ?thesis
      by (auto simp: recordDelta_def deregister_clock_def)
  next
    case True
    with rest obtain tx1 where space: "IncrementSpaceWith (tx_Exec E) P space [(metric, 1)] (?tx d) = (tx1, Ok ())"
      and admin: "IncrementAdminWith (tx_Exec E) P [(metric, 1)] tx1 = (tx', Ok ())"
      by (auto simp: andThenS_eq_Ok)
    have "recordDelta (formats.truncate P) space cause delta metric (deregister_clock (tx_now tx) at) (pg_abs P (tx_db tx)) =
      ((pg_abs P (tx_db tx))\<lparr>uploadDiffStore := uploadDiffStore (pg_abs P d),
        spaceMetrics := fst (SpaceStore_IncrementTotals space [(metric, 1)] (spaceMetrics (pg_abs P (tx_db tx)))),
        adminMetrics := fst (metrics_IncrementTotals [(metric, 1)] (adminMetrics (pg_abs P (tx_db tx))))\<rparr>, Ok ())"
      using put True
      by (simp add: recordDelta_def deregister_clock_def Let_def split_beta SpaceStore_IncrementTotals_eq)
    moreover have "pg_abs P (tx_db tx') = (pg_abs P d)\<lparr>
        spaceMetrics := fst (SpaceStore_IncrementTotals space [(metric, 1)] (spaceMetrics (pg_abs P d))),
        adminMetrics := fst (metrics_IncrementTotals [(metric, 1)] (adminMetrics (pg_abs P d)))\<rparr>"
      "tables_ok P (tx_db tx')"
      using IncrementSpaceWith_abs [OF space] IncrementAdminWith_abs [OF admin] log(1)
      by (simp_all del: metrics_IncrementTotals.simps)
    ultimately show ?thesis
      using log(3) by (metis (no_types, lifting) fst_conv ledger.select_convs ledger.surjective ledger.update_convs)
  qed
qed

lemma upload_rows:
  assumes "pg_formats_ok P" and "list_all (\<lambda>r. is_cid P (ur_root r)) t"
  shows "find (\<lambda>u. up_Root u = root) (map (upload_of P) (filter (\<lambda>r. ur_space r = space) t)) =
      map_option (upload_of P) (find (\<lambda>r. upload_row_key r = (space, cid_String P root)) t)"
    and "distinct (map upload_row_key t) \<Longrightarrow>
      distinct (map up_Root (map (upload_of P) (filter (\<lambda>r. ur_space r = space) t)))"
proof -
  show "find (\<lambda>u. up_Root u = root) (map (upload_of P) (filter (\<lambda>r. ur_space r = space) t)) =
      map_option (upload_of P) (find (\<lambda>r. upload_row_key r = (space, cid_String P root)) t)"
    using assms(2) by (induction t) (auto simp: upload_of_def upload_row_key_def the_cid_eq [OF assms(1)])
  assume "distinct (map upload_row_key t)"
  with assms(2) show "distinct (map up_Root (map (upload_of P) (filter (\<lambda>r. ur_space r = space) t)))"
  proof (induction t)
    case (Cons r t)
    have "the_cid P (ur_root r') \<noteq> the_cid P (ur_root r)"
      if "r' \<in> set t" and "ur_space r' = ur_space r" for r'
    proof
      assume "the_cid P (ur_root r') = the_cid P (ur_root r)"
      then have "ur_root r' = ur_root r"
        using Cons.prems(1) that(1) unfolding is_cid_def list_all_iff by (metis list.set_intros)
      with Cons.prems(2) that show False
        by (auto simp: upload_row_key_def rev_image_eqI)
    qed
    then have "up_Root (upload_of P r) \<notin> (\<lambda>r'. up_Root (upload_of P r')) ` {r' \<in> set t. ur_space r' = ur_space r}"
      by (fastforce simp: upload_of_def)
    with Cons show ?case by (cases "ur_space r = space") simp_all
  qed simp
qed

lemma uploaded_abs:
  assumes "pg_formats_ok P" and "tables_ok P d"
  shows "uploaded (pg_abs P d) space root =
    map_option (upload_of P) (find (\<lambda>r. upload_row_key r = (space, cid_String P root)) (t_upload d))"
  using assms(2) upload_rows(1) [OF assms(1), of "t_upload d" root space]
  by (simp add: uploaded_def pg_abs_def tables_ok_def go_slice_def)

lemma roots_distinct_abs:
  assumes "pg_formats_ok P" and "tables_ok P d"
  shows "roots_distinct (pg_abs P d)"
  using assms(2) upload_rows(2) [OF assms(1), of "t_upload d"]
  by (simp add: roots_distinct_def pg_abs_def tables_ok_def go_slice_def)

text \<open>An upload as the upsert leaves it: unlike the in-memory store, a new one has its time of insertion as
  its time of update.\<close>

definition pg_upserted :: "did \<Rightarrow> cid \<Rightarrow> cid option \<Rightarrow> cid \<Rightarrow> time \<Rightarrow> UploadRecord option \<Rightarrow> UploadRecord" where
  "pg_upserted space root index cause now old = (case old of
      None \<Rightarrow> \<lparr>up_Space = space, up_Root = root, up_Index = index, up_Cause = cause,
        up_InsertedAt = now, up_UpdatedAt = now\<rparr>
    | Some r \<Rightarrow> r\<lparr>up_UpdatedAt := now, up_Cause := cause, up_Index := index\<rparr>)"

lemma upload_upsert_abs:
  assumes "pg_formats_ok P" and "tables_ok P d" and "upload_upsert P space root index cause now d = Done (d', ins)"
  shows "tables_ok P d'" and "ins \<longleftrightarrow> uploaded (pg_abs P d) space root = None"
    and "uploaded (pg_abs P d') = (uploaded (pg_abs P d))(space := (uploaded (pg_abs P d) space)(root \<mapsto>
      pg_upserted space root index cause now (uploaded (pg_abs P d) space root)))"
    and "pg_abs P d' = (pg_abs P d)\<lparr>uploads := uploads (pg_abs P d')\<rparr>"
    and "t_upload_shard d' = t_upload_shard d"
proof -
  let ?row = "\<lparr>ur_space = space, ur_root = cid_String P root, ur_index = map_option (cid_String P) index,
    ur_cause = cid_String P cause, ur_inserted_at = now, ur_updated_at = now\<rparr>"
  let ?upd = "\<lambda>old. Done (old\<lparr>ur_index := map_option (cid_String P) index, ur_cause := cid_String P cause,
    ur_updated_at := now\<rparr>)"
  let ?find = "\<lambda>sp rt. find (\<lambda>r. upload_row_key r = (sp, cid_String P rt)) (t_upload d)"
  from assms(3) obtain t where t: "sql_upsert upload_row_key ?upd ?row (t_upload d) = Done (t, ins)"
    and d': "d' = d\<lparr>t_upload := t\<rparr>"
    by (auto simp: upload_upsert_def)
  have key: "upload_row_key ?row = (space, cid_String P root)"
    by (simp add: upload_row_key_def)
  have keeps: "\<forall>r r'. upload_row_key r = upload_row_key ?row \<longrightarrow> ?upd r = Done r' \<longrightarrow>
      upload_row_key r' = upload_row_key ?row"
    by (auto simp: upload_row_key_def)
  note up = sql_upsert_Done [OF t keeps]
  have "distinct (map upload_row_key t)"
    using assms(2) up(1,2) by (auto simp: tables_ok_def find_None_key)
  moreover have "is_cid P (ur_root r)" if "r \<in> set t" for r
  proof -
    from that up(5) consider "r = ?row" | "r \<in> set (t_upload d)"
      | old where "old \<in> set (t_upload d)" "ur_root r = ur_root old"
      by auto
    then show ?thesis
      using assms(1,2) by cases (simp_all add: tables_ok_def list_all_iff)
  qed
  ultimately show ok: "tables_ok P d'"
    using assms(2) by (simp add: tables_ok_def d' list_all_iff)
  show "ins \<longleftrightarrow> uploaded (pg_abs P d) space root = None"
    using up(1) by (simp add: uploaded_abs [OF assms(1,2)] key)
  have after: "uploaded (pg_abs P d') sp rt =
      map_option (upload_of P) (find (\<lambda>r. upload_row_key r = (sp, cid_String P rt)) t)" for sp rt
    using uploaded_abs [OF assms(1) ok, of sp rt] by (simp add: d')
  have id: "map_option (the_cid P) (map_option (cid_String P) index) = index"
    using assms(1) by (cases index) simp_all
  show "uploaded (pg_abs P d') = (uploaded (pg_abs P d))(space := (uploaded (pg_abs P d) space)(root \<mapsto>
      pg_upserted space root index cause now (uploaded (pg_abs P d) space root)))"
  proof (intro ext)
    fix sp rt
    have same: "(sp, cid_String P rt) = (space, cid_String P root) \<longleftrightarrow> sp = space \<and> rt = root"
      by (simp add: pg_formats_okD(4) [OF assms(1)])
    show "uploaded (pg_abs P d') sp rt = ((uploaded (pg_abs P d))(space := (uploaded (pg_abs P d) space)(root \<mapsto>
      pg_upserted space root index cause now (uploaded (pg_abs P d) space root)))) sp rt"
    proof (cases "?find space root")
      case None
      with up(3) [of "(sp, cid_String P rt)"] show ?thesis
        using assms(1) same id
        by (simp add: after uploaded_abs [OF assms(1,2)] key pg_upserted_def upload_of_def)
    next
      case (Some old)
      from find_SomeD [OF Some] have "upload_row_key old = (space, cid_String P root)" by simp
      with Some up(4) [of old "(sp, cid_String P rt)"] show ?thesis
        using assms(1) same id
        by (simp add: after uploaded_abs [OF assms(1,2)] key pg_upserted_def upload_of_def)
    qed
  qed
  show "pg_abs P d' = (pg_abs P d)\<lparr>uploads := uploads (pg_abs P d')\<rparr>" "t_upload_shard d' = t_upload_shard d"
    by (simp_all add: pg_abs_def d')
qed

lemma upload_delete_abs:
  assumes "pg_formats_ok P" and "tables_ok P d" and "upload_delete P space root now d = Done (d', n)"
  shows "tables_ok P d'" and "n = 0 \<longleftrightarrow> uploaded (pg_abs P d) space root = None"
    and "uploaded (pg_abs P d') = (uploaded (pg_abs P d))(space := (uploaded (pg_abs P d) space)(root := None))"
    and "pg_abs P d' = (pg_abs P d)\<lparr>uploads := uploads (pg_abs P d'), shards := shards (pg_abs P d')\<rparr>"
proof -
  let ?gone = "\<lambda>r. upload_row_key r = (space, cid_String P root)"
  from assms(3) have t: "t_upload d' = filter (\<lambda>r. \<not> ?gone r) (t_upload d)" and n: "n = length (filter ?gone (t_upload d))"
    and d': "d' = d\<lparr>t_upload := t_upload d', t_upload_shard := t_upload_shard d'\<rparr>"
    by (auto simp: upload_delete_def sql_delete_def Let_def)
  have "tables_ok P (d\<lparr>t_upload := t_upload d', t_upload_shard := t_upload_shard d'\<rparr>)"
    using assms(2) by (auto simp: tables_ok_def t distinct_map_filter list_all_iff)
  with d' show ok: "tables_ok P d'" by metis
  show "n = 0 \<longleftrightarrow> uploaded (pg_abs P d) space root = None"
    by (auto simp: n uploaded_abs [OF assms(1,2)] filter_empty_conv find_None_iff)
  show "uploaded (pg_abs P d') = (uploaded (pg_abs P d))(space := (uploaded (pg_abs P d) space)(root := None))"
    by (auto simp: fun_eq_iff uploaded_abs [OF assms(1) ok] uploaded_abs [OF assms(1,2)] t find_filter_other
        pg_formats_okD(4) [OF assms(1)])
  show "pg_abs P d' = (pg_abs P d)\<lparr>uploads := uploads (pg_abs P d'), shards := shards (pg_abs P d')\<rparr>"
    by (subst (1) d') (simp add: pg_abs_def)
qed

text \<open>The shards of an upload, as texts.\<close>

definition shard_texts :: "database \<Rightarrow> did \<Rightarrow> string \<Rightarrow> string set" where
  "shard_texts d space root = sh_shard ` {r \<in> set (t_upload_shard d). sh_space r = space \<and> sh_root r = root}"

lemma shard_insert_Done:
  assumes "shard_insert P space root shard now d = Done (d', n)"
  shows "d' = d\<lparr>t_upload_shard := t_upload_shard d'\<rparr>"
    and "shard_texts d' sp rt = (if sp = space \<and> rt = cid_String P root
      then insert (cid_String P shard) (shard_texts d sp rt) else shard_texts d sp rt)"
proof -
  let ?r = "\<lparr>sh_space = space, sh_root = cid_String P root, sh_shard = cid_String P shard\<rparr>"
  have "?r \<in> set (t_upload_shard d)"
    if "(space, cid_String P root, cid_String P shard) \<in> (\<lambda>r. (sh_space r, sh_root r, sh_shard r)) ` set (t_upload_shard d)"
  proof -
    from that obtain r where "r \<in> set (t_upload_shard d)" "?r = r" by (auto intro: shard_row.equality)
    then show ?thesis by simp
  qed
  then have set: "set (t_upload_shard d') = insert ?r (set (t_upload_shard d))"
    and d': "d' = d\<lparr>t_upload_shard := t_upload_shard d'\<rparr>"
    using assms by (auto simp: shard_insert_def sql_insert_nothing_def split: if_splits)
  from d' show "d' = d\<lparr>t_upload_shard := t_upload_shard d'\<rparr>" .
  have "{r \<in> set (t_upload_shard d'). sh_space r = sp \<and> sh_root r = rt} =
      (if sp = space \<and> rt = cid_String P root then insert ?r {r \<in> set (t_upload_shard d). sh_space r = sp \<and> sh_root r = rt}
       else {r \<in> set (t_upload_shard d). sh_space r = sp \<and> sh_root r = rt})"
    unfolding set by auto
  then show "shard_texts d' sp rt = (if sp = space \<and> rt = cid_String P root
      then insert (cid_String P shard) (shard_texts d sp rt) else shard_texts d sp rt)"
    by (simp add: shard_texts_def)
qed

lemma shard_loop_Ok:
  assumes "shard_loop E P space root xs tx = (tx', Ok ())"
  shows "tx_db tx' = (tx_db tx)\<lparr>t_upload_shard := t_upload_shard (tx_db tx')\<rparr> \<and> tx_now tx' = tx_now tx \<and>
    shard_texts (tx_db tx') sp rt = shard_texts (tx_db tx) sp rt \<union>
      (if sp = space \<and> rt = cid_String P root then cid_String P ` set xs else {})"
  using assms
proof (induction xs arbitrary: tx)
  case (Cons x xs)
  from Cons.prems obtain d n where st: "shard_insert P space root x (tx_now tx) (tx_db tx) = Done (d, n)"
    and rest: "shard_loop E P space root xs (tx\<lparr>tx_sent := Suc (tx_sent tx), tx_db := d\<rparr>) = (tx', Ok ())"
    by (auto simp: andThenS_eq_Ok)
  note ins = shard_insert_Done [OF st]
  have "tx_db tx' = d\<lparr>t_upload_shard := t_upload_shard (tx_db tx')\<rparr>"
    using Cons.IH [OF rest] by simp
  also have "\<dots> = (tx_db tx)\<lparr>t_upload_shard := t_upload_shard (tx_db tx')\<rparr>"
    by (subst ins(1)) simp
  finally show ?case
    using Cons.IH [OF rest] ins(2) [of sp rt] by auto
qed simp

subsection \<open>The upload store's transactions\<close>

lemma ledger_inv_frame:
  fixes m :: upload_store
  assumes "ledger_inv F m" and "roots_distinct (m\<lparr>uploads := u, shards := sh\<rparr>)"
  shows "ledger_inv F (m\<lparr>uploads := u, shards := sh\<rparr>)"
  using assms by (simp add: ledger_inv_def)

lemma ledger_inv_recordDelta:
  fixes m :: upload_store
  assumes "formats_ok F" and "ledger_inv F m"
    and "(delta, metric) \<in> {(1, UploadAddTotalMetric), (- 1, UploadRemoveTotalMetric)}"
  shows "ledger_inv F (fst (recordDelta F space cause delta metric clk m))"
proof -
  have "metric \<in> {UploadAddTotalMetric, UploadRemoveTotalMetric}"
    using assms(3) by auto
  moreover have "roots_distinct (fst (recordDelta F space cause delta metric clk m)) = roots_distinct m"
    by (rule roots_distinct_cong) simp
  ultimately show ?thesis
    using assms(1,2) recordDelta_upload_ledger [where s = m, OF assms(1) _ assms(3)]
    by (simp add: ledger_inv_def recordDelta_blob_ledger recordDelta_totals_agree)
qed

lemma uploaded_recordDelta [simp]:
  "uploaded (fst (recordDelta F space cause delta metric clk m)) = uploaded m"
  for m :: upload_store
  by (simp add: uploaded_def fun_eq_iff)

text \<open>What a database is left with by a change of the uploads alone, and by one that is also recorded.\<close>

lemma upload_change:
  assumes "pg_formats_ok P" and "tables_ok P d'" and "ledger_inv (formats.truncate P) (pg_abs P d)"
    and "pg_abs P d' = (pg_abs P d)\<lparr>uploads := uploads (pg_abs P d'), shards := shards (pg_abs P d')\<rparr>"
  shows "ledger_inv (formats.truncate P) (pg_abs P d')" and "blobs (pg_abs P d') = blobs (pg_abs P d)"
proof -
  have "roots_distinct ((pg_abs P d)\<lparr>uploads := uploads (pg_abs P d'), shards := shards (pg_abs P d')\<rparr>)"
    using roots_distinct_abs [OF assms(1,2)] by (simp only: assms(4) [symmetric])
  from ledger_inv_frame [OF assms(3) this] show "ledger_inv (formats.truncate P) (pg_abs P d')"
    by (simp only: assms(4) [symmetric])
  show "blobs (pg_abs P d') = blobs (pg_abs P d)"
    by (subst assms(4)) simp
qed

lemma abs_shards:
  "d' = d\<lparr>t_upload_shard := t\<rparr> \<Longrightarrow> tables_ok P d' = tables_ok P d \<and> uploaded (pg_abs P d') = uploaded (pg_abs P d) \<and>
    pg_abs P d' = (pg_abs P d)\<lparr>shards := shards (pg_abs P d')\<rparr>"
  by (simp add: tables_ok_def pg_abs_def uploaded_def fun_eq_iff)

text \<open>A committed upsert: the upload is there with the new index and cause, the new shards are added to those
  it had, no other upload changes, and the change is recorded exactly where the upload is new.\<close>

definition upsert_effect ::
  "pg_formats \<Rightarrow> did \<Rightarrow> cid \<Rightarrow> cid option \<Rightarrow> cid list \<Rightarrow> cid \<Rightarrow> time \<Rightarrow> time \<Rightarrow> database \<Rightarrow> database \<Rightarrow> bool" where
  "upsert_effect P space root index newShards cause at now d d' \<longleftrightarrow>
     uploaded (pg_abs P d') = (uploaded (pg_abs P d))(space := (uploaded (pg_abs P d) space)(root \<mapsto>
       pg_upserted space root index cause now (uploaded (pg_abs P d) space root))) \<and>
     (\<forall>sp rt. shard_texts d' sp rt = shard_texts d sp rt \<union>
       (if sp = space \<and> rt = cid_String P root then cid_String P ` set newShards else {})) \<and>
     ledger.truncate (pg_abs P d') = ledger.truncate
       (if uploaded (pg_abs P d) space root = None
        then fst (recordDelta (formats.truncate P) space cause 1 UploadAddTotalMetric (deregister_clock now at) (pg_abs P d))
        else pg_abs P d)"

definition remove_effect :: "pg_formats \<Rightarrow> did \<Rightarrow> cid \<Rightarrow> cid \<Rightarrow> time \<Rightarrow> time \<Rightarrow> database \<Rightarrow> database \<Rightarrow> bool" where
  "remove_effect P space root cause at now d d' \<longleftrightarrow> uploaded (pg_abs P d) space root \<noteq> None \<and>
     uploaded (pg_abs P d') = (uploaded (pg_abs P d))(space := (uploaded (pg_abs P d) space)(root := None)) \<and>
     ledger.truncate (pg_abs P d') = ledger.truncate
       (fst (recordDelta (formats.truncate P) space cause (- 1) UploadRemoveTotalMetric (deregister_clock now at) (pg_abs P d)))"

lemma recordDelta_frame:
  fixes m :: upload_store
  shows "ledger.truncate (fst (recordDelta F space cause delta metric clk (m\<lparr>uploads := u, shards := sh\<rparr>))) =
    ledger.truncate (fst (recordDelta F space cause delta metric clk m))"
proof (cases "uploaddiff_Put F space cause delta (clk 0) (clk 1) (uploadDiffStore m)")
  case (Pair d r)
  then show ?thesis
    by (cases r) (simp_all add: recordDelta_def ledger.truncate_def SpaceStore_IncrementTotals_eq Let_def)
qed

text \<open>Recording a change does not touch the shards.\<close>

lemma increment_loop_shards:
  assumes "increment_loop (tx_Exec E) msg upsert inc tx = (tx', Ok ())"
    and "\<And>k v now d d' n. upsert k v now d = Done (d', n) \<Longrightarrow> t_upload_shard d' = t_upload_shard d"
  shows "t_upload_shard (tx_db tx') = t_upload_shard (tx_db tx)"
  using assms(1)
proof (induction inc arbitrary: tx)
  case (Cons p inc)
  from Cons.prems obtain d n where "upsert (fst p) (sint (snd p)) (tx_now tx) (tx_db tx) = Done (d, n)"
    and "increment_loop (tx_Exec E) msg upsert inc (tx\<lparr>tx_sent := Suc (tx_sent tx), tx_db := d\<rparr>) = (tx', Ok ())"
    by (auto simp: andThenS_eq_Ok)
  with Cons.IH assms(2) show ?case by fastforce
qed simp

lemma pg_recordDelta_shards:
  assumes "pg_recordDelta E P space cause delta metric at tx = (tx', Ok ())"
  shows "t_upload_shard (tx_db tx') = t_upload_shard (tx_db tx)"
proof -
  from assms obtain d n where st: "upload_diff_insert P space cause delta at (tx_now tx) (tx_db tx) = Done (d, n)"
    and rest: "(if \<not> n > 0 then (tx\<lparr>tx_sent := Suc (tx_sent tx), tx_db := d\<rparr>, Ok ())
      else andThenS (IncrementSpaceWith (tx_Exec E) P space [(metric, 1)] (tx\<lparr>tx_sent := Suc (tx_sent tx), tx_db := d\<rparr>))
      (\<lambda>_ tx. IncrementAdminWith (tx_Exec E) P [(metric, 1)] tx)) = (tx', Ok ())"
    by (auto simp: pg_recordDelta_def uploaddiff_PutWith_def andThenS_eq_Ok)
  have "t_upload_shard d = t_upload_shard (tx_db tx)"
    using st by (auto simp: upload_diff_insert_def)
  moreover have "t_upload_shard (tx_db tx') = t_upload_shard d"
  proof (cases "n > 0")
    case True
    with rest obtain tx1 where
      "IncrementSpaceWith (tx_Exec E) P space [(metric, 1)] (tx\<lparr>tx_sent := Suc (tx_sent tx), tx_db := d\<rparr>) = (tx1, Ok ())"
      "IncrementAdminWith (tx_Exec E) P [(metric, 1)] tx1 = (tx', Ok ())"
      by (auto simp: andThenS_eq_Ok)
    then have "t_upload_shard (tx_db tx1) = t_upload_shard d" "t_upload_shard (tx_db tx') = t_upload_shard (tx_db tx1)"
      unfolding IncrementSpaceWith_def IncrementAdminWith_def
      by (auto dest!: increment_loop_shards simp: space_upsert_def admin_upsert_def)
    then show ?thesis by simp
  next
    case False
    with rest show ?thesis by auto
  qed
  ultimately show ?thesis by simp
qed

lemma upsert_body:
  assumes P: "pg_formats_ok P" and ok: "tables_ok P (tx_db tx)"
    and "andThenS (sql_res msg (tx_Exec E (upload_upsert P space root index cause) tx)) (\<lambda>inserted tx.
       andThenS (shard_loop E P space root newShards tx) (\<lambda>_ tx.
         if inserted then pg_recordDelta E P space cause 1 UploadAddTotalMetric at tx
         else (tx, Ok ()))) = (tx', Ok ())"
  shows "tables_ok P (tx_db tx')" and "blobs (pg_abs P (tx_db tx')) = blobs (pg_abs P (tx_db tx))"
    and "upsert_effect P space root index newShards cause at (tx_now tx) (tx_db tx) (tx_db tx')"
    and "ledger_inv (formats.truncate P) (pg_abs P (tx_db tx)) \<Longrightarrow> ledger_inv (formats.truncate P) (pg_abs P (tx_db tx'))"
proof -
  let ?m = "pg_abs P (tx_db tx)"
  from assms(3) obtain d ins tx1
    where st: "upload_upsert P space root index cause (tx_now tx) (tx_db tx) = Done (d, ins)"
    and loop: "shard_loop E P space root newShards (tx\<lparr>tx_sent := Suc (tx_sent tx), tx_db := d\<rparr>) = (tx1, Ok ())"
    and rest: "(if ins then pg_recordDelta E P space cause 1 UploadAddTotalMetric at tx1 else (tx1, Ok ())) = (tx', Ok ())"
    by (auto simp: andThenS_eq_Ok)
  note up = upload_upsert_abs [OF P ok st]
  note sh = shard_loop_Ok [OF loop]
  have "tx_db tx1 = d\<lparr>t_upload_shard := t_upload_shard (tx_db tx1)\<rparr>" and now: "tx_now tx1 = tx_now tx"
    using sh by simp_all
  note mid = abs_shards [OF this(1), of P]
  have ok1: "tables_ok P (tx_db tx1)"
    using mid up(1) by simp
  have abs1: "pg_abs P (tx_db tx1) = ?m\<lparr>uploads := uploads (pg_abs P d), shards := shards (pg_abs P (tx_db tx1))\<rparr>"
    using mid by (subst (asm) (2) up(4)) simp
  have abs1': "pg_abs P (tx_db tx1) = ?m\<lparr>uploads := uploads (pg_abs P (tx_db tx1)), shards := shards (pg_abs P (tx_db tx1))\<rparr>"
    by (subst abs1, subst (2) abs1) simp
  have texts: "shard_texts d sp rt = shard_texts (tx_db tx) sp rt" for sp rt
    using up(5) by (simp add: shard_texts_def)
  have same: "ledger.truncate (pg_abs P (tx_db tx1)) = ledger.truncate ?m"
    by (subst abs1) (simp add: ledger.truncate_def)
  note change1 = upload_change [OF P ok1 _ abs1']
  have "tables_ok P (tx_db tx') \<and> blobs (pg_abs P (tx_db tx')) = blobs (pg_abs P (tx_db tx1)) \<and>
      uploaded (pg_abs P (tx_db tx')) = uploaded (pg_abs P (tx_db tx1)) \<and>
      t_upload_shard (tx_db tx') = t_upload_shard (tx_db tx1) \<and>
      ledger.truncate (pg_abs P (tx_db tx')) = ledger.truncate (if uploaded ?m space root = None
        then fst (recordDelta (formats.truncate P) space cause 1 UploadAddTotalMetric (deregister_clock (tx_now tx) at) ?m)
        else ?m) \<and>
      (ledger_inv (formats.truncate P) (pg_abs P (tx_db tx1)) \<longrightarrow> ledger_inv (formats.truncate P) (pg_abs P (tx_db tx')))"
  proof (cases ins)
    case True
    with rest have delta: "pg_recordDelta E P space cause 1 UploadAddTotalMetric at tx1 = (tx', Ok ())" by simp
    note rec = pg_recordDelta_abs [OF delta ok1 P]
    have "ledger.truncate (fst (recordDelta (formats.truncate P) space cause 1
        UploadAddTotalMetric (deregister_clock (tx_now tx) at) (pg_abs P (tx_db tx1)))) =
      ledger.truncate (fst (recordDelta (formats.truncate P) space cause 1
        UploadAddTotalMetric (deregister_clock (tx_now tx) at) ?m))"
      by (subst abs1) (rule recordDelta_frame)
    then have "ledger.truncate (pg_abs P (tx_db tx')) = ledger.truncate (fst (recordDelta (formats.truncate P) space cause 1
        UploadAddTotalMetric (deregister_clock (tx_now tx) at) ?m))"
      using rec now by simp
    moreover have "t_upload_shard (tx_db tx') = t_upload_shard (tx_db tx1)"
      using delta by (rule pg_recordDelta_shards)
    ultimately show ?thesis
      using rec True up(2) ledger_inv_recordDelta [OF pg_formats_okD(1) [OF P]]
      by simp
  next
    case False
    with rest have "tx' = tx1" by simp
    with False ok1 up(2) same show ?thesis by auto
  qed
  note fin = this
  have "blobs (pg_abs P (tx_db tx1)) = blobs ?m"
    by (subst abs1) simp
  with fin show "tables_ok P (tx_db tx')" "blobs (pg_abs P (tx_db tx')) = blobs ?m" by simp_all
  have "shard_texts (tx_db tx') sp rt = shard_texts (tx_db tx1) sp rt" for sp rt
    using fin by (simp add: shard_texts_def)
  with fin mid up(3) sh texts
  show "upsert_effect P space root index newShards cause at (tx_now tx) (tx_db tx) (tx_db tx')"
    by (simp add: upsert_effect_def)
  show "ledger_inv (formats.truncate P) ?m \<Longrightarrow> ledger_inv (formats.truncate P) (pg_abs P (tx_db tx'))"
    using fin change1(1) by simp
qed

lemma remove_body:
  assumes P: "pg_formats_ok P" and ok: "tables_ok P (tx_db tx)"
    and "andThenS (sql_res msg (tx_Exec E (upload_delete P space root) tx)) (\<lambda>affected tx.
         if affected = 0 then (tx, Err ErrUploadNotFound)
         else pg_recordDelta E P space cause (- 1) UploadRemoveTotalMetric at tx) = (tx', Ok ())"
  shows "tables_ok P (tx_db tx')" and "blobs (pg_abs P (tx_db tx')) = blobs (pg_abs P (tx_db tx))"
    and "remove_effect P space root cause at (tx_now tx) (tx_db tx) (tx_db tx')"
    and "ledger_inv (formats.truncate P) (pg_abs P (tx_db tx)) \<Longrightarrow> ledger_inv (formats.truncate P) (pg_abs P (tx_db tx'))"
proof -
  let ?m = "pg_abs P (tx_db tx)"
  from assms(3) obtain d n
    where st: "upload_delete P space root (tx_now tx) (tx_db tx) = Done (d, n)" and n: "n \<noteq> 0"
    and delta: "pg_recordDelta E P space cause (- 1) UploadRemoveTotalMetric at
      (tx\<lparr>tx_sent := Suc (tx_sent tx), tx_db := d\<rparr>) = (tx', Ok ())"
    by (auto simp: andThenS_eq_Ok split: if_splits)
  note del = upload_delete_abs [OF P ok st]
  have rec: "tables_ok P (tx_db tx') \<and> pg_abs P (tx_db tx') =
      fst (recordDelta (formats.truncate P) space cause (- 1) UploadRemoveTotalMetric (deregister_clock (tx_now tx) at) (pg_abs P d))"
    using pg_recordDelta_abs [OF delta _ P] del(1) by simp
  have "ledger.truncate (pg_abs P (tx_db tx')) = ledger.truncate
      (fst (recordDelta (formats.truncate P) space cause (- 1) UploadRemoveTotalMetric (deregister_clock (tx_now tx) at) ?m))"
    using rec by (subst (asm) del(4)) (simp only: recordDelta_frame)
  then show "remove_effect P space root cause at (tx_now tx) (tx_db tx) (tx_db tx')"
    using rec del(2,3) n by (simp add: remove_effect_def)
  show "tables_ok P (tx_db tx')" "blobs (pg_abs P (tx_db tx')) = blobs ?m"
    using rec upload_change(2) [OF P del(1) _ del(4)] by (simp_all, subst del(4), simp)
  show "ledger_inv (formats.truncate P) ?m \<Longrightarrow> ledger_inv (formats.truncate P) (pg_abs P (tx_db tx'))"
    using rec upload_change(1) [OF P del(1) _ del(4)] ledger_inv_recordDelta [OF pg_formats_okD(1) [OF P]] by simp
qed

subsection \<open>The ledger stays in balance\<close>

text \<open>The four operations that write the ledger, and what they keep: the schema's invariants, the balance of
  the in-memory ledger read off the tables, and that a digest has one size.\<close>

fun pg_ledger_run :: "pg_env \<Rightarrow> pg_formats \<Rightarrow> time \<Rightarrow> ledger_op \<Rightarrow> pg \<Rightarrow> pg \<times> unit res" where
  "pg_ledger_run E P at (RegisterOp sp b cause) s = pg_blob_Register E P sp b cause at s"
| "pg_ledger_run E P at (DeregisterOp sp h cause) s = pg_blob_Deregister E P sp h cause at s"
| "pg_ledger_run E P at (UpsertOp sp r i sh cause) s = pg_upload_Upsert E P sp r i sh cause at s"
| "pg_ledger_run E P at (RemoveOp sp r cause) s = pg_upload_Remove E P sp r cause at s"

fun op_sized :: "(multihash \<Rightarrow> uint64) \<Rightarrow> ledger_op \<Rightarrow> bool" where
  "op_sized sz (RegisterOp sp b cause) \<longleftrightarrow> Size b = sz (Digest b)"
| "op_sized sz _ \<longleftrightarrow> True"

definition pg_ledger :: "pg_formats \<Rightarrow> (multihash \<Rightarrow> uint64) \<Rightarrow> database \<Rightarrow> bool" where
  "pg_ledger P sz d \<longleftrightarrow> tables_ok P d \<and> ledger_inv (formats.truncate P) (pg_abs P d) \<and>
     (\<forall>sp. \<forall>e \<in> set (blobs (pg_abs P d) sp). ent_Size e = sz (ent_Digest e))"

lemma blobs_after_Register:
  assumes "blob_Register F space b cause clk m = (m', Ok ())" and "e \<in> set (blobs m' sp)"
  shows "e \<in> set (blobs m sp) \<or> ent_Blob e = b"
proof (cases "registered m space (Digest b)")
  case None
  with assms blob_Register_fresh [OF None, of F cause clk] show ?thesis
    by (auto split: if_splits)
next
  case (Some x)
  with assms show ?thesis by (simp add: blob_Register_exists)
qed

lemma blobs_after_Deregister:
  assumes "blob_Deregister F space digest cause clk m = (m', Ok ())" and "blobs_distinct m" and "e \<in> set (blobs m' sp)"
  shows "e \<in> set (blobs m sp)"
proof (cases "registered m space digest")
  case None
  with assms show ?thesis by (simp add: blob_Deregister_missing)
next
  case (Some x)
  with assms(1,3) blob_Deregister_found [OF assms(2) Some, of F cause clk] show ?thesis
    by (auto split: if_splits)
qed

lemma pg_ledger_blob:
  assumes P: "pg_formats_ok P" and inv: "pg_ledger P sz d" and "tables_ok P d'"
    and run: "ledger_run (formats.truncate P) clk opn (pg_abs P d) = (pg_abs P d', r)"
    and kept: "\<And>sp e. e \<in> set (blobs (pg_abs P d') sp) \<Longrightarrow> e \<in> set (blobs (pg_abs P d) sp) \<or> ent_Size e = sz (ent_Digest e)"
  shows "pg_ledger P sz d'"
  using assms ledger_inv_run [OF pg_formats_okD(1) [OF P], of "pg_abs P d" clk opn]
  by (auto simp: pg_ledger_def run)

lemma pg_ledger_Register:
  assumes P: "pg_formats_ok P" and inv: "pg_ledger P sz (pg_seen E s)" and sized: "Size b = sz (Digest b)"
  shows "pg_ledger P sz (pg_db (fst (pg_blob_Register E P sp b cause at s)))"
proof (cases "pg_blob_Register E P sp b cause at s")
  case (Pair s' r)
  have "tables_ok P (pg_seen E s)"
    using inv by (simp add: pg_ledger_def)
  note ref = pg_Register_refines [OF P this Pair]
  from ref(2) show ?thesis
  proof
    assume "pg_db s' = pg_seen E s"
    with inv Pair show ?thesis by simp
  next
    assume mem: "blob_Register (formats.truncate P) sp b cause (register_clock (pg_now E (pg_sent s)) (timestamptz P at))
      (pg_abs P (pg_seen E s)) = (pg_abs P (pg_db s'), Ok ())"
    have "pg_ledger P sz (pg_db s')"
      using blobs_after_Register [OF mem] sized
      by (intro pg_ledger_blob [OF P inv ref(1), of _ "RegisterOp sp b cause"]) (use mem in fastforce)+
    with Pair show ?thesis by simp
  qed
qed

lemma pg_ledger_Deregister:
  assumes P: "pg_formats_ok P" and inv: "pg_ledger P sz (pg_seen E s)"
    and inv1: "pg_ledger P sz (pg_others E (Suc (pg_sent s)) (pg_seen E s))"
  shows "pg_ledger P sz (pg_db (fst (pg_blob_Deregister E P sp h cause at s)))"
proof (cases "pg_blob_Deregister E P sp h cause at s")
  case (Pair s' r)
  let ?d1 = "pg_others E (Suc (pg_sent s)) (pg_seen E s)"
  have ok: "tables_ok P (pg_seen E s)" "tables_ok P ?d1"
    using inv inv1 by (simp_all add: pg_ledger_def)
  have "ent_Size e = sz h" if "pg_ledger P sz d" and "registered (pg_abs P d) sp h = Some e" for d e
    using that(1) find_SomeD [OF that(2) [unfolded registered_def]] by (auto simp: pg_ledger_def)
  then have "registered (pg_abs P (pg_seen E s)) sp h = Some e0 \<Longrightarrow> registered (pg_abs P ?d1) sp h = Some e1 \<Longrightarrow>
      ent_Size e0 = ent_Size e1" for e0 e1
    using inv inv1 by metis
  note ref = pg_Deregister_refines [OF P ok Pair refl refl this]
  show ?thesis
  proof (cases "pg_db s' = pg_seen E s \<or> pg_db s' = ?d1")
    case True
    with inv inv1 Pair show ?thesis by auto
  next
    case False
    with ref have mem: "blob_Deregister (formats.truncate P) sp h cause
      (deregister_clock (pg_now E (Suc (pg_sent s))) (timestamptz P at)) (pg_abs P ?d1) = (pg_abs P (pg_db s'), Ok ())"
      and ok': "tables_ok P (pg_db s')" by blast+
    have "pg_ledger P sz (pg_db s')"
      using blobs_after_Deregister [OF mem blobs_distinct_abs [OF P ok(2)]]
      by (intro pg_ledger_blob [OF P inv1 ok', of _ "DeregisterOp sp h cause"]) (use mem in fastforce)+
    with Pair show ?thesis by simp
  qed
qed

lemma plain_shard_loop [plain_intros]: "plain (snd (shard_loop E P space root xs tx))"
  by (induction xs arbitrary: tx) (auto intro!: plain_intros)

lemma plain_pg_recordDelta [plain_intros]: "plain (snd (pg_recordDelta E P space cause delta metric at tx))"
  unfolding pg_recordDelta_def uploaddiff_PutWith_def IncrementSpaceWith_def IncrementAdminWith_def
  by (intro plain_intros) (auto intro!: plain_intros)

lemma pg_Upsert_cases:
  assumes P: "pg_formats_ok P" and ok: "tables_ok P (pg_seen E s)"
    and "pg_upload_Upsert E P space root index newShards cause at s = (s', r)"
  shows "plain r" and "pg_db s' = pg_seen E s \<and> r \<noteq> Ok () \<or>
    tables_ok P (pg_db s') \<and> blobs (pg_abs P (pg_db s')) = blobs (pg_abs P (pg_seen E s)) \<and>
    upsert_effect P space root index newShards cause at (pg_now E (pg_sent s)) (pg_seen E s) (pg_db s') \<and>
    (ledger_inv (formats.truncate P) (pg_abs P (pg_seen E s)) \<longrightarrow> ledger_inv (formats.truncate P) (pg_abs P (pg_db s')))"
proof -
  let ?body = "\<lambda>tx. andThenS (sql_res ''upserting upload'' (tx_Exec E (upload_upsert P space root index cause) tx)) (\<lambda>inserted tx.
       andThenS (shard_loop E P space root newShards tx) (\<lambda>_ tx.
         if inserted then pg_recordDelta E P space cause 1 UploadAddTotalMetric at tx
         else (tx, Ok ())))"
  have plain: "plain (snd (?body tx))" for tx
    by (intro plain_intros) (simp add: plain_intros)
  have start: "tables_ok P (tx_db (tx_start E s))"
    using ok by simp
  note body = upsert_body [OF P start]
  from assms(3) have tx: "with_tx E ''committing upload upsert'' ?body s = (s', r)"
    by (simp add: pg_upload_Upsert_def)
  from tx have "plain r \<and> (pg_db s' = pg_seen E s \<and> r \<noteq> Ok () \<or>
    tables_ok P (pg_db s') \<and> blobs (pg_abs P (pg_db s')) = blobs (pg_abs P (pg_seen E s)) \<and>
    upsert_effect P space root index newShards cause at (pg_now E (pg_sent s)) (pg_seen E s) (pg_db s') \<and>
    (ledger_inv (formats.truncate P) (pg_abs P (pg_seen E s)) \<longrightarrow> ledger_inv (formats.truncate P) (pg_abs P (pg_db s'))))"
  proof (cases rule: with_tx_cases)
    case (refused msg' e)
    then show ?thesis by simp
  next
    case (failed tx)
    with plain [of "tx_start E s"] show ?thesis by (auto simp: is_Ok_iff)
  next
    case (whole tx x)
    note ef = body [OF whole(1) [unfolded unit_eq [of x]]]
    from whole(3) have "plain r" by auto
    moreover from ef whole(2) have "tables_ok P (pg_db s')" "blobs (pg_abs P (pg_db s')) = blobs (pg_abs P (pg_seen E s))"
      "upsert_effect P space root index newShards cause at (pg_now E (pg_sent s)) (pg_seen E s) (pg_db s')"
      "ledger_inv (formats.truncate P) (pg_abs P (pg_seen E s)) \<Longrightarrow> ledger_inv (formats.truncate P) (pg_abs P (pg_db s'))"
      by simp_all
    ultimately show ?thesis by blast
  qed
  then show "plain r" "pg_db s' = pg_seen E s \<and> r \<noteq> Ok () \<or>
    tables_ok P (pg_db s') \<and> blobs (pg_abs P (pg_db s')) = blobs (pg_abs P (pg_seen E s)) \<and>
    upsert_effect P space root index newShards cause at (pg_now E (pg_sent s)) (pg_seen E s) (pg_db s') \<and>
    (ledger_inv (formats.truncate P) (pg_abs P (pg_seen E s)) \<longrightarrow> ledger_inv (formats.truncate P) (pg_abs P (pg_db s')))"
    by blast+
qed

lemma pg_Remove_cases:
  assumes P: "pg_formats_ok P" and ok: "tables_ok P (pg_seen E s)"
    and "pg_upload_Remove E P space root cause at s = (s', r)"
  shows "plain r \<or> r = Err ErrUploadNotFound \<and> uploaded (pg_abs P (pg_seen E s)) space root = None"
    and "pg_db s' = pg_seen E s \<and> r \<noteq> Ok () \<or>
    tables_ok P (pg_db s') \<and> blobs (pg_abs P (pg_db s')) = blobs (pg_abs P (pg_seen E s)) \<and> plain r \<and>
    remove_effect P space root cause at (pg_now E (pg_sent s)) (pg_seen E s) (pg_db s') \<and>
    (ledger_inv (formats.truncate P) (pg_abs P (pg_seen E s)) \<longrightarrow> ledger_inv (formats.truncate P) (pg_abs P (pg_db s')))"
proof -
  let ?body = "\<lambda>tx. andThenS (sql_res ''removing upload'' (tx_Exec E (upload_delete P space root) tx)) (\<lambda>affected tx.
         if affected = 0 then (tx, Err ErrUploadNotFound)
         else pg_recordDelta E P space cause (- 1) UploadRemoveTotalMetric at tx)"
  have start: "tables_ok P (tx_db (tx_start E s))"
    using ok by simp
  have res: "plain q \<or> q = Err ErrUploadNotFound \<and> uploaded (pg_abs P (pg_seen E s)) space root = None"
    if "?body (tx_start E s) = (tx', q)" for tx' q
  proof (cases "tx_Exec E (upload_delete P space root) (tx_start E s)")
    case (Pair tx1 w)
    show ?thesis
    proof (cases w)
      case (Done n)
      with Pair obtain d where "upload_delete P space root (pg_now E (pg_sent s)) (pg_seen E s) = Done (d, n)" by auto
      note del = upload_delete_abs(2) [OF P ok this]
      show ?thesis
      proof (cases "n = 0")
        case False
        then have "q = snd (pg_recordDelta E P space cause (- 1) UploadRemoveTotalMetric at tx1)"
          using that Pair Done by simp
        then show ?thesis by (simp add: plain_pg_recordDelta)
      qed (use that del Pair Done in auto)
    qed (use that Pair in auto)
  qed
  note body = remove_body [OF P start]
  from assms(3) have tx: "with_tx E ''committing upload remove'' ?body s = (s', r)"
    by (simp add: pg_upload_Remove_def)
  from tx have "(plain r \<or> r = Err ErrUploadNotFound \<and> uploaded (pg_abs P (pg_seen E s)) space root = None) \<and>
    (pg_db s' = pg_seen E s \<and> r \<noteq> Ok () \<or>
    tables_ok P (pg_db s') \<and> blobs (pg_abs P (pg_db s')) = blobs (pg_abs P (pg_seen E s)) \<and> plain r \<and>
    remove_effect P space root cause at (pg_now E (pg_sent s)) (pg_seen E s) (pg_db s') \<and>
    (ledger_inv (formats.truncate P) (pg_abs P (pg_seen E s)) \<longrightarrow> ledger_inv (formats.truncate P) (pg_abs P (pg_db s'))))"
  proof (cases rule: with_tx_cases)
    case (refused msg' e)
    then show ?thesis by simp
  next
    case (failed tx)
    with res [OF failed(2)] show ?thesis by (auto simp: is_Ok_iff)
  next
    case (whole tx x)
    note ef = body [OF whole(1) [unfolded unit_eq [of x]]]
    from whole(3) have "plain r" by auto
    moreover from ef whole(2) have "tables_ok P (pg_db s')" "blobs (pg_abs P (pg_db s')) = blobs (pg_abs P (pg_seen E s))"
      "remove_effect P space root cause at (pg_now E (pg_sent s)) (pg_seen E s) (pg_db s')"
      "ledger_inv (formats.truncate P) (pg_abs P (pg_seen E s)) \<Longrightarrow> ledger_inv (formats.truncate P) (pg_abs P (pg_db s'))"
      by simp_all
    ultimately show ?thesis by blast
  qed
  then show "plain r \<or> r = Err ErrUploadNotFound \<and> uploaded (pg_abs P (pg_seen E s)) space root = None"
    "pg_db s' = pg_seen E s \<and> r \<noteq> Ok () \<or>
    tables_ok P (pg_db s') \<and> blobs (pg_abs P (pg_db s')) = blobs (pg_abs P (pg_seen E s)) \<and> plain r \<and>
    remove_effect P space root cause at (pg_now E (pg_sent s)) (pg_seen E s) (pg_db s') \<and>
    (ledger_inv (formats.truncate P) (pg_abs P (pg_seen E s)) \<longrightarrow> ledger_inv (formats.truncate P) (pg_abs P (pg_db s')))"
    by blast+
qed

text \<open>Every operation keeps the balance if the other sessions do.\<close>

lemma pg_ledger_run_kept:
  assumes P: "pg_formats_ok P" and inv: "pg_ledger P sz (pg_db s)" and sized: "op_sized sz opn"
    and rely: "\<And>n d. pg_ledger P sz d \<Longrightarrow> pg_ledger P sz (pg_others E n d)"
  shows "pg_ledger P sz (pg_db (fst (pg_ledger_run E P at opn s)))"
proof -
  have seen: "pg_ledger P sz (pg_seen E s)"
    using rely [OF inv] by (simp add: pg_seen_def)
  then have ok: "tables_ok P (pg_seen E s)"
    by (simp add: pg_ledger_def)
  show ?thesis
  proof (cases opn)
    case (RegisterOp sp b cause)
    with pg_ledger_Register [OF P seen] sized show ?thesis by simp
  next
    case (DeregisterOp sp h cause)
    with pg_ledger_Deregister [OF P seen rely [OF seen]] show ?thesis by simp
  next
    case (UpsertOp sp r i sh cause)
    show ?thesis
    proof (cases "pg_upload_Upsert E P sp r i sh cause at s")
      case (Pair s' q)
      from pg_Upsert_cases(2) [OF P ok Pair] seen have "pg_ledger P sz (pg_db s')"
        by (auto simp: pg_ledger_def)
      with Pair UpsertOp show ?thesis by simp
    qed
  next
    case (RemoveOp sp r cause)
    show ?thesis
    proof (cases "pg_upload_Remove E P sp r cause at s")
      case (Pair s' q)
      from pg_Remove_cases(2) [OF P ok Pair] seen have "pg_ledger P sz (pg_db s')"
        by (auto simp: pg_ledger_def)
      with Pair RemoveOp show ?thesis by simp
    qed
  qed
qed

end
