(* ===== verification/Pg_Balance.thy ===== *)
theory Pg_Balance
  imports Pg_Uploads
begin

section \<open>What the Postgres ledger promises\<close>

text \<open>
  The properties of the Postgres blob registry and upload store: what each transaction does whatever is lost,
  that nothing stands in its way but a used key or a full counter, that the ledger stays in balance while
  sessions interleave, and that the listings are complete.
\<close>

subsection \<open>Transactions that meet no obstacle\<close>

text \<open>The value a counter's row holds, and that an amount still fits.\<close>

definition stored_value :: "('k \<times> int) list \<Rightarrow> 'k \<Rightarrow> int" where
  "stored_value t k = (case map_of t k of None \<Rightarrow> 0 | Some x \<Rightarrow> x)"

definition fits :: "('k \<times> int) list \<Rightarrow> 'k \<Rightarrow> int \<Rightarrow> bool" where
  "fits t k v \<longleftrightarrow> - (2 ^ 63) \<le> stored_value t k + v \<and> stored_value t k + v < 2 ^ 63"

lemma find_map_of: "find (\<lambda>r. fst r = k) t = map_option (Pair k) (map_of t k)"
  by (induction t) auto

lemma add_value_fits:
  assumes "fits t k v" and "distinct (map fst t)"
  obtains t' where "add_value k v t = Done (t', 1)" and "distinct (map fst t')"
    and "\<And>j w. j \<noteq> k \<Longrightarrow> fits t' j w = fits t j w"
proof -
  have "\<exists>t'. add_value k v t = Done (t', 1)"
    using assms(1)
    by (cases "map_of t k")
      (simp_all add: add_value_def sql_upsert_def find_map_of fits_def stored_value_def bigint_def)
  then obtain t' where t': "add_value k v t = Done (t', 1)" by blast
  note add = add_value_Done [OF t' assms(2)]
  show thesis
    using t' add(2) by (rule that) (simp add: fits_def stored_value_def add(1))
qed

text \<open>A loop over counters of one table, reached through \<open>get\<close> and \<open>put\<close>.\<close>

lemma increment_loop_runs:
  assumes "fault_free E" and "\<not> tx_aborted tx"
    and upsert: "\<And>k v now d. upsert k v now d = on_table (put d) (add_value (name k) v (get d))"
    and lens: "\<And>d t. get (put d t) = t" "\<And>d t u. put (put d t) u = put d u" "\<And>d. put d (get d) = d" and "inj name"
    and "distinct (map fst inc)" and "distinct (map fst (get (tx_db tx)))"
    and "\<forall>p \<in> set inc. fits (get (tx_db tx)) (name (fst p)) (sint (snd p))"
  shows "\<exists>tx'. increment_loop (tx_Exec E) msg upsert inc tx = (tx', Ok ()) \<and> \<not> tx_aborted tx' \<and>
    (\<exists>t. tx_db tx' = put (tx_db tx) t) \<and> tx_now tx' = tx_now tx"
  using assms(2,8-10)
proof (induction inc arbitrary: tx)
  case Nil
  then show ?case using lens(3) by (auto intro: exI [of _ "get (tx_db tx)"])
next
  case (Cons p inc)
  from Cons.prems have "fits (get (tx_db tx)) (name (fst p)) (sint (snd p))" by simp
  then obtain t where t: "add_value (name (fst p)) (sint (snd p)) (get (tx_db tx)) = Done (t, 1)"
    and dist: "distinct (map fst t)" and others: "\<And>j w. j \<noteq> name (fst p) \<Longrightarrow> fits t j w = fits (get (tx_db tx)) j w"
    using Cons.prems(3) by (rule add_value_fits) blast
  let ?tx = "tx\<lparr>tx_sent := Suc (tx_sent tx), tx_db := put (tx_db tx) t\<rparr>"
  have "upsert (fst p) (sint (snd p)) (tx_now tx) (tx_db tx) = Done (put (tx_db tx) t, 1)"
    unfolding upsert t by simp
  then have step: "tx_Exec E (upsert (fst p) (sint (snd p))) tx = (?tx, Done 1)"
    using assms(1) Cons.prems(1) by (simp add: fault_free_tx_Exec del: tx_Exec_Done)
  have "\<forall>q \<in> set inc. fits (get (tx_db ?tx)) (name (fst q)) (sint (snd q))"
  proof
    fix q assume q: "q \<in> set inc"
    with Cons.prems(2) have "fst q \<noteq> fst p" by (auto simp: rev_image_eqI)
    then have "name (fst q) \<noteq> name (fst p)" using \<open>inj name\<close> by (simp add: inj_eq)
    with others [of "name (fst q)"] Cons.prems(4) q
    show "fits (get (tx_db ?tx)) (name (fst q)) (sint (snd q))" by (simp add: lens(1))
  qed
  with Cons.IH [of ?tx] Cons.prems dist obtain tx' t' where "increment_loop (tx_Exec E) msg upsert inc ?tx = (tx', Ok ())"
    "\<not> tx_aborted tx'" "tx_db tx' = put (tx_db ?tx) t'" "tx_now tx' = tx_now tx"
    by (auto simp: lens)
  with step show ?case by (auto simp: lens(2) simp del: tx_Exec_Done)
qed

text \<open>Nothing stands in the way of recording a change: its key is new to the log, and the counters have
  room.\<close>

definition change_fits :: "pg_formats \<Rightarrow> database \<Rightarrow> did \<Rightarrow> cid \<Rightarrow> (metric \<times> uint64) list \<Rightarrow> time \<Rightarrow> bool" where
  "change_fits P d space cause inc at \<longleftrightarrow>
     (space, timestamptz P at, cid_String P cause) \<notin> diff_row_key ` set (t_space_diff d) \<and>
     (\<forall>p \<in> set inc. fits (t_space_metrics d) (space, fst p) (sint (snd p)) \<and>
        fits (t_admin_metrics d) (fst p) (sint (snd p)))"

lemma distinct_sorted_inc [simp]: "distinct (map fst (sorted_inc P inc)) = distinct (map fst inc)"
  by (simp add: sorted_inc_def)

lemma set_sorted_inc [simp]: "set (sorted_inc P inc) = set inc"
  by (simp add: sorted_inc_def)

lemma pg_record_change_runs:
  assumes "fault_free E" and "\<not> tx_aborted tx" and "tables_ok P (tx_db tx)" and "distinct (map fst inc)"
    and fits: "change_fits P (tx_db tx) space cause inc at"
  shows "\<exists>tx'. pg_record_change E P space cause delta inc at tx = (tx', Ok ()) \<and> \<not> tx_aborted tx'"
proof -
  let ?row = "\<lparr>dr_space = space, dr_receipt_at = timestamptz P at, dr_cause = cid_String P cause,
    dr_delta = sint delta, dr_inserted_at = tx_now tx\<rparr>"
  let ?tx1 = "tx\<lparr>tx_sent := Suc (tx_sent tx), tx_db := (tx_db tx)\<lparr>t_space_diff := t_space_diff (tx_db tx) @ [?row]\<rparr>\<rparr>"
  have put: "spacediff_PutWith (tx_Exec E) P space cause delta at tx = (?tx1, Ok ())"
    using assms(1,2) fits
    by (simp add: spacediff_PutWith_def fault_free_tx_Exec space_diff_insert_def sql_insert_def change_fits_def
        diff_row_key_def)
  have ok1: "distinct (map fst (t_space_metrics (tx_db ?tx1)))" "distinct (map fst (t_admin_metrics (tx_db ?tx1)))"
    using assms(3) by (simp_all add: tables_ok_def)
  have "\<exists>tx'. IncrementSpaceWith (tx_Exec E) P space inc ?tx1 = (tx', Ok ()) \<and> \<not> tx_aborted tx' \<and>
      (\<exists>t. tx_db tx' = (tx_db ?tx1)\<lparr>t_space_metrics := t\<rparr>) \<and> tx_now tx' = tx_now ?tx1"
    unfolding IncrementSpaceWith_def
    by (rule increment_loop_runs [where get = t_space_metrics and name = "\<lambda>k. (space, k)"])
      (use assms ok1 fits in \<open>auto simp: space_upsert_def [abs_def] change_fits_def inj_def\<close>)
  then obtain tx2 t where space: "IncrementSpaceWith (tx_Exec E) P space inc ?tx1 = (tx2, Ok ())" "\<not> tx_aborted tx2"
    "tx_db tx2 = (tx_db ?tx1)\<lparr>t_space_metrics := t\<rparr>" by blast
  have "\<exists>tx'. IncrementAdminWith (tx_Exec E) P inc tx2 = (tx', Ok ()) \<and> \<not> tx_aborted tx' \<and>
      (\<exists>t. tx_db tx' = (tx_db tx2)\<lparr>t_admin_metrics := t\<rparr>) \<and> tx_now tx' = tx_now tx2"
    unfolding IncrementAdminWith_def
    by (rule increment_loop_runs [where get = t_admin_metrics and name = "\<lambda>k. k"])
      (use assms ok1 fits space in \<open>auto simp: admin_upsert_def [abs_def] change_fits_def inj_def\<close>)
  with put space(1) show ?thesis
    by (auto simp: pg_record_change_def)
qed

lemma pg_Register_runs:
  assumes P: "pg_formats_ok P" and free: "fault_free E" and ok: "tables_ok P (pg_seen E s)"
  shows "registered (pg_abs P (pg_seen E s)) space (Digest b) \<noteq> None \<Longrightarrow>
      snd (pg_blob_Register E P space b cause at s) = Err ErrEntryExists"
    and "registered (pg_abs P (pg_seen E s)) space (Digest b) = None \<Longrightarrow>
      change_fits P (pg_seen E s) space cause [(BlobAddTotalMetric, 1), (BlobAddSizeTotalMetric, Size b)] at \<Longrightarrow>
      snd (pg_blob_Register E P space b cause at s) = Ok ()"
proof -
  note ins = blob_insert_abs [OF P ok, of space b cause "pg_now E (pg_sent s)"]
  show "snd (pg_blob_Register E P space b cause at s) = Err ErrEntryExists"
    if "registered (pg_abs P (pg_seen E s)) space (Digest b) \<noteq> None"
    unfolding pg_blob_Register_def using ins(1) [OF that]
    by (subst with_tx_runs(2) [OF free]) (simp_all add: fault_free_tx_Exec [OF free])
  assume "registered (pg_abs P (pg_seen E s)) space (Digest b) = None"
    and fits: "change_fits P (pg_seen E s) space cause [(BlobAddTotalMetric, 1), (BlobAddSizeTotalMetric, Size b)] at"
  with ins(2) obtain d where st: "blob_insert P space b cause (pg_now E (pg_sent s)) (pg_seen E s) = Done (d, 1)"
    and d: "tables_ok P d" by auto
  let ?tx = "(tx_start E s)\<lparr>tx_sent := Suc (tx_sent (tx_start E s)), tx_db := d\<rparr>"
  have "change_fits P d space cause [(BlobAddTotalMetric, 1), (BlobAddSizeTotalMetric, Size b)] at"
    using st fits by (auto simp: blob_insert_def change_fits_def)
  then obtain tx' where body: "pg_record_change E P space cause (Size b)
      [(BlobAddTotalMetric, 1), (BlobAddSizeTotalMetric, Size b)] at ?tx = (tx', Ok ())" "\<not> tx_aborted tx'"
    using pg_record_change_runs [OF free, of ?tx P "[(BlobAddTotalMetric, 1), (BlobAddSizeTotalMetric, Size b)]"
      space cause at "Size b"] d
    by auto
  have "tx_Exec E (blob_insert P space b cause) (tx_start E s) = (?tx, Done 1)"
    using st by (simp add: fault_free_tx_Exec [OF free] del: tx_Exec_Done)
  with body show "snd (pg_blob_Register E P space b cause at s) = Ok ()"
    unfolding pg_blob_Register_def by (subst with_tx_runs(1) [OF free]) (auto simp del: tx_Exec_Done)
qed

subsection \<open>Samples\<close>

text \<open>A quiet environment; one whose third request is lost, or its answer; and a database with a blob and an
  upload.\<close>

definition quiet :: pg_env where
  "quiet = \<lparr>pg_fault = (\<lambda>_. None), pg_now = (\<lambda>n. 1000 * int n), pg_others = (\<lambda>_ d. d), pg_rank = (\<lambda>_ i. i),
     pg_alloc = (\<lambda>n. n < 2 ^ 20)\<rparr>"

definition faulty :: "nat \<Rightarrow> fault \<Rightarrow> pg_env" where
  "faulty n f = quiet\<lparr>pg_fault := (\<lambda>i. if i = n then Some f else None)\<rparr>"

definition blob7 :: Blob where
  "blob7 = \<lparr>Digest = ''d1'', Size = 7\<rparr>"

definition sample_pg :: pg where
  "sample_pg = fst (pg_upload_Upsert quiet sample_pg_formats ''sp'' ''r1'' None [''s1'', ''s2''] ''c2'' 2000
     (fst (pg_blob_Register quiet sample_pg_formats ''sp'' blob7 ''c1'' 1000 \<lparr>pg_db = empty_database, pg_sent = 0\<rparr>)))"

lemma quiet_simps [simp]: "fault_free quiet" "alone quiet" "pg_seen quiet s = pg_db s" "pg_seen (faulty n f) s = pg_db s"
  by (simp_all add: quiet_def fault_free_def alone_def pg_seen_def faulty_def)

definition one_size :: "multihash \<Rightarrow> uint64" where
  "one_size h = 7"

lemma empty_database_ledger: "pg_ledger P sz empty_database"
  by (auto simp: pg_ledger_def tables_ok_def empty_database_def pg_abs_def ledger_inv_def blob_ledger_def
      upload_ledger_def blobs_distinct_def roots_distinct_def size_stored_def upload_log_total_def log_of_def
      space_metrics_of_def metrics_of_def space_counter_def totals_agree_def counter_def go_slice_def dom_def)

lemma sample_pg_ledger: "pg_ledger sample_pg_formats one_size (pg_db sample_pg)"
proof -
  have "pg_ledger sample_pg_formats one_size (pg_db (fst (pg_ledger_run quiet sample_pg_formats 1000
      (RegisterOp ''sp'' blob7 ''c1'') \<lparr>pg_db = empty_database, pg_sent = 0\<rparr>)))"
    by (rule pg_ledger_run_kept) (simp_all add: sample_pg_formats_ok empty_database_ledger one_size_def blob7_def quiet_def)
  then have "pg_ledger sample_pg_formats one_size (pg_db (fst (pg_ledger_run quiet sample_pg_formats 2000
      (UpsertOp ''sp'' ''r1'' None [''s1'', ''s2''] ''c2'') (fst (pg_ledger_run quiet sample_pg_formats 1000
      (RegisterOp ''sp'' blob7 ''c1'') \<lparr>pg_db = empty_database, pg_sent = 0\<rparr>)))))"
    by (rule pg_ledger_run_kept [OF sample_pg_formats_ok]) (simp_all add: quiet_def)
  then show ?thesis by (simp add: sample_pg_def)
qed

lemma sample_tables: "tables_ok sample_pg_formats (pg_db sample_pg)"
  using sample_pg_ledger by (simp add: pg_ledger_def)

subsection \<open>The registry\<close>

lemma with_tx_unanswered:
  assumes "with_tx E msg body s = (s', r)" and "\<not> is_Ok r" and "pg_db s' \<noteq> pg_seen E s"
  shows "\<exists>n m. pg_fault E n = Some (Unanswered m)"
  using assms(1) by (cases rule: with_tx_cases) (use assms(2,3) in auto)

text \<open>
Property C14. Registering a blob in Postgres is one atomic step of the in-memory registry, whatever
requests or answers are lost and whatever other sessions did before: success means that the database,
read as a state of the in-memory stores, has made exactly the step the in-memory registry makes (entry,
row of the log, counters of the space and of the service); \<^verbatim>\<open>ErrEntryExists\<close> means that the blob was
registered, and nothing changed; any other error leaves the database as it was, or, only where an answer
was lost, with the whole step made. Without faults a registered blob is refused and a new one registered,
unless the log has a change of the same cause at the same microsecond or a counter is full.
\<close>

theorem pg_blob_Register_spec:
  assumes "pg_formats_ok P" and "tables_ok P (pg_seen E s)"
    and "pg_blob_Register E P space b cause at s = (s', r)"
  shows "tables_ok P (pg_db s') \<and>
    (case r of
       Ok _ \<Rightarrow> blob_Register (formats.truncate P) space b cause
           (register_clock (pg_now E (pg_sent s)) (timestamptz P at)) (pg_abs P (pg_seen E s)) =
         (pg_abs P (pg_db s'), Ok ())
     | Err e \<Rightarrow>
         if e = ErrEntryExists
         then pg_db s' = pg_seen E s \<and> registered (pg_abs P (pg_seen E s)) space (Digest b) \<noteq> None
         else pg_db s' = pg_seen E s \<or>
           (\<exists>n m. pg_fault E n = Some (Unanswered m)) \<and>
           blob_Register (formats.truncate P) space b cause
             (register_clock (pg_now E (pg_sent s)) (timestamptz P at)) (pg_abs P (pg_seen E s)) =
           (pg_abs P (pg_db s'), Ok ())
     | Panic \<Rightarrow> False) \<and>
    (fault_free E \<longrightarrow> registered (pg_abs P (pg_seen E s)) space (Digest b) \<noteq> None \<longrightarrow> r = Err ErrEntryExists) \<and>
    (fault_free E \<longrightarrow> registered (pg_abs P (pg_seen E s)) space (Digest b) = None \<longrightarrow>
      change_fits P (pg_seen E s) space cause [(BlobAddTotalMetric, 1), (BlobAddSizeTotalMetric, Size b)] at \<longrightarrow>
      r = Ok ())"
proof -
  note ref = pg_Register_refines [OF assms]
  have lost: "\<exists>n m. pg_fault E n = Some (Unanswered m)" if "r \<noteq> Ok ()" "pg_db s' \<noteq> pg_seen E s"
    using with_tx_unanswered [OF assms(3) [unfolded pg_blob_Register_def]] that by (auto simp: is_Ok_iff)
  have exists: "registered (pg_abs P (pg_seen E s)) space (Digest b) \<noteq> None"
    if "blob_Register (formats.truncate P) space b cause clk (pg_abs P (pg_seen E s)) = (m, Err ErrEntryExists)" for clk m
    using that by (cases "registered (pg_abs P (pg_seen E s)) space (Digest b)") (simp_all add: blob_Register_fresh)
  have distinct: "Wrap msg e \<noteq> ErrEntryExists" for msg e
    by (simp add: ErrEntryExists_def)
  have runs: "fault_free E \<longrightarrow> registered (pg_abs P (pg_seen E s)) space (Digest b) \<noteq> None \<longrightarrow> r = Err ErrEntryExists"
    "fault_free E \<longrightarrow> registered (pg_abs P (pg_seen E s)) space (Digest b) = None \<longrightarrow>
      change_fits P (pg_seen E s) space cause [(BlobAddTotalMetric, 1), (BlobAddSizeTotalMetric, Size b)] at \<longrightarrow> r = Ok ()"
    using pg_Register_runs [OF assms(1) _ assms(2), of space b cause at] assms(3) by auto
  from ref(4) show ?thesis
  proof (elim disjE exE conjE)
    assume r: "r = Ok ()"
    from ref(1) ref(3) [OF r] runs show ?thesis unfolding r by simp
  next
    fix msg e assume r: "r = Err (Wrap msg e)"
    from ref(1,2) lost runs show ?thesis unfolding r by (auto simp: distinct)
  next
    assume r: "r = Err ErrEntryExists" and same: "pg_db s' = pg_seen E s"
      and "blob_Register (formats.truncate P) space b cause (register_clock (pg_now E (pg_sent s)) (timestamptz P at))
        (pg_abs P (pg_seen E s)) = (pg_abs P (pg_seen E s), Err ErrEntryExists)"
    from ref(1) exists [OF this(3)] runs show ?thesis unfolding r by (simp add: same)
  qed
qed

theorem pg_blob_Register_spec_witness:
  "\<exists>s'. pg_blob_Register quiet sample_pg_formats ''sp'' \<lparr>Digest = ''d2'', Size = 5\<rparr> ''c3'' 3000 sample_pg = (s', Ok ()) \<and>
     blob_Register (formats.truncate sample_pg_formats) ''sp'' \<lparr>Digest = ''d2'', Size = 5\<rparr> ''c3''
       (register_clock (pg_now quiet (pg_sent sample_pg)) 3000) (pg_abs sample_pg_formats (pg_db sample_pg)) =
     (pg_abs sample_pg_formats (pg_db s'), Ok ())"
proof (cases "pg_blob_Register quiet sample_pg_formats ''sp'' \<lparr>Digest = ''d2'', Size = 5\<rparr> ''c3'' 3000 sample_pg")
  case (Pair s' r)
  have "registered (pg_abs sample_pg_formats (pg_db sample_pg)) ''sp'' ''d2'' = None"
    by code_simp
  moreover have "change_fits sample_pg_formats (pg_db sample_pg) ''sp'' ''c3''
      [(BlobAddTotalMetric, 1), (BlobAddSizeTotalMetric, 5)] 3000"
    by code_simp
  moreover have "Instant 3000 = 3000"
    by (simp add: Instant_def go_zero_time_def)
  ultimately have "r = Ok ()"
    using pg_blob_Register_spec [OF sample_pg_formats_ok _ Pair] sample_tables by simp
  with pg_blob_Register_spec [OF sample_pg_formats_ok _ Pair] sample_tables Pair \<open>Instant 3000 = 3000\<close>
  show ?thesis by auto
qed

lemma pg_Deregister_unanswered:
  assumes "pg_blob_Deregister E P space digest cause at s = (s', r)" and "r \<noteq> Ok ()"
    and "pg_db s' \<noteq> pg_seen E s" and "pg_db s' \<noteq> pg_others E (Suc (pg_sent s)) (pg_seen E s)"
  shows "\<exists>n m. pg_fault E n = Some (Unanswered m)"
proof (cases "pg_blob_Get E P space digest s")
  case (Pair s1 g)
  have s1: "pg_db s1 = pg_seen E s" "pg_sent s1 = Suc (pg_sent s)"
    using pg_blob_Get_state [of E P space digest s] by (simp_all add: Pair)
  have "\<not> is_Ok r"
    using assms(2) by (auto simp: is_Ok_iff)
  show ?thesis
  proof (cases g)
    case (Ok rec)
    with assms(1) Pair obtain body where "with_tx E ''committing blob deregister'' body s1 = (s', r)"
      by (auto simp: pg_blob_Deregister_def)
    from with_tx_unanswered [OF this \<open>\<not> is_Ok r\<close>] assms(4) s1 show ?thesis
      by (simp add: pg_seen_def)
  qed (use assms(1,3) Pair s1 in \<open>auto simp: pg_blob_Deregister_def\<close>)
qed

text \<open>
Property C15. Removing a blob from the Postgres registry is one atomic step of the in-memory registry, on the
database as the transaction finds it, provided that no session replaced the blob by one of another size
between the read and the transaction: success means exactly the in-memory step; \<^verbatim>\<open>ErrEntryNotFound\<close> means
that the blob was not registered when it was read or when it was to be deleted, and nothing changed; any
other error leaves the database as the read or the transaction found it, or, only where an answer was lost,
with the whole step made.
\<close>

theorem pg_blob_Deregister_spec:
  assumes "pg_formats_ok P" and "tables_ok P (pg_seen E s)"
    and "tables_ok P (pg_others E (Suc (pg_sent s)) (pg_seen E s))"
    and "\<forall>e0 e1. registered (pg_abs P (pg_seen E s)) space digest = Some e0 \<longrightarrow>
      registered (pg_abs P (pg_others E (Suc (pg_sent s)) (pg_seen E s))) space digest = Some e1 \<longrightarrow>
      ent_Size e0 = ent_Size e1"
    and "pg_blob_Deregister E P space digest cause at s = (s', r)"
  shows "tables_ok P (pg_db s') \<and>
    (let d0 = pg_seen E s; d1 = pg_others E (Suc (pg_sent s)) d0;
         mem = blob_Deregister (formats.truncate P) space digest cause
           (deregister_clock (pg_now E (Suc (pg_sent s))) (timestamptz P at)) (pg_abs P d1) in
     case r of
       Ok _ \<Rightarrow> mem = (pg_abs P (pg_db s'), Ok ())
     | Err e \<Rightarrow>
         if e = ErrEntryNotFound
         then (pg_db s' = d0 \<or> pg_db s' = d1) \<and>
           (registered (pg_abs P d0) space digest = None \<or> registered (pg_abs P d1) space digest = None)
         else pg_db s' = d0 \<or> pg_db s' = d1 \<or>
           (\<exists>n m. pg_fault E n = Some (Unanswered m)) \<and> mem = (pg_abs P (pg_db s'), Ok ())
     | Panic \<Rightarrow> False)"
proof -
  let ?d0 = "pg_seen E s" and ?d1 = "pg_others E (Suc (pg_sent s)) (pg_seen E s)"
  have same: "registered (pg_abs P ?d0) space digest = Some e0 \<Longrightarrow> registered (pg_abs P ?d1) space digest = Some e1 \<Longrightarrow>
      ent_Size e0 = ent_Size e1" for e0 e1
    using assms(4) by blast
  note ref = pg_Deregister_refines [OF assms(1-3,5) refl refl same]
  have distinct: "Wrap msg e \<noteq> ErrEntryNotFound" for msg e
    by (simp add: ErrEntryNotFound_def)
  have lost: "\<exists>n m. pg_fault E n = Some (Unanswered m)" if "r \<noteq> Ok ()" "pg_db s' \<noteq> ?d0" "pg_db s' \<noteq> ?d1"
    by (rule pg_Deregister_unanswered [OF assms(5) that])
  from ref consider "r = Ok ()" | msg e where "r = Err (Wrap msg e)" | "r = Err ErrEntryNotFound"
    by blast
  then show ?thesis
  proof cases
    case 1
    with ref show ?thesis by (simp add: Let_def)
  next
    case (2 msg e)
    with ref lost show ?thesis by (auto simp: Let_def distinct)
  next
    case 3
    with ref distinct [THEN not_sym] show ?thesis by (simp add: Let_def)
  qed
qed

theorem pg_blob_Deregister_spec_witness:
  "\<exists>s'. pg_blob_Deregister quiet sample_pg_formats ''sp'' ''d1'' ''c3'' 3000 sample_pg = (s', Ok ()) \<and>
     blob_Deregister (formats.truncate sample_pg_formats) ''sp'' ''d1'' ''c3''
       (deregister_clock (pg_now quiet (Suc (pg_sent sample_pg))) 3000) (pg_abs sample_pg_formats (pg_db sample_pg)) =
     (pg_abs sample_pg_formats (pg_db s'), Ok ())"
proof (cases "pg_blob_Deregister quiet sample_pg_formats ''sp'' ''d1'' ''c3'' 3000 sample_pg")
  case (Pair s' r)
  have "snd (pg_blob_Deregister quiet sample_pg_formats ''sp'' ''d1'' ''c3'' 3000 sample_pg) = Ok ()"
    by code_simp
  then have r: "r = Ok ()"
    by (simp add: Pair)
  have "Instant 3000 = 3000"
    by (simp add: Instant_def go_zero_time_def)
  moreover have "pg_others quiet n d = d" for n d
    by (simp add: quiet_def)
  ultimately show ?thesis
    using pg_blob_Deregister_spec [OF sample_pg_formats_ok _ _ _ Pair] sample_tables Pair r
    by (simp add: Let_def)
qed

text \<open>The read is not part of the transaction. Where another session replaces the blob by one of another size
  in between, the removal logs and counts the size it read and not the size it deleted, and the log no longer
  sums to what the space holds.\<close>

definition swapped :: "database \<Rightarrow> database" where
  "swapped d = pg_db (fst (pg_blob_Register quiet sample_pg_formats ''sp'' \<lparr>Digest = ''d1'', Size = 9\<rparr> ''c4'' 2600
     (fst (pg_blob_Deregister quiet sample_pg_formats ''sp'' ''d1'' ''c5'' 2500 \<lparr>pg_db = d, pg_sent = 0\<rparr>))))"

definition swapping :: pg_env where
  "swapping = quiet\<lparr>pg_others := (\<lambda>i d. if i = 1 then swapped d else d)\<rparr>"

definition before_swap :: pg where
  "before_swap = fst (pg_blob_Register quiet sample_pg_formats ''sp'' blob7 ''c1'' 1000 \<lparr>pg_db = empty_database, pg_sent = 0\<rparr>)"

lemma pg_Deregister_swapped:
  "(case pg_blob_Deregister swapping sample_pg_formats ''sp'' ''d1'' ''c3'' 3000 (before_swap\<lparr>pg_sent := 0\<rparr>) of
      (s, r) \<Rightarrow> (t_blob_registry (pg_db s), map dr_delta (t_space_diff (pg_db s)), r)) = ([], [7, - 7, 9, - 7], Ok ())"
  by code_simp

subsection \<open>The balance\<close>

definition pg_ledger_runs :: "pg_env \<Rightarrow> pg_formats \<Rightarrow> (time \<times> ledger_op) list \<Rightarrow> pg \<Rightarrow> pg" where
  "pg_ledger_runs E P ops s = fold (\<lambda>(at, opn) s. fst (pg_ledger_run E P at opn s)) ops s"

lemma pg_ledger_runs_kept:
  assumes "pg_formats_ok P" and "\<And>n d. pg_ledger P sz d \<Longrightarrow> pg_ledger P sz (pg_others E n d)"
  shows "pg_ledger P sz (pg_db s) \<Longrightarrow> list_all (\<lambda>p. op_sized sz (snd p)) ops \<Longrightarrow>
    pg_ledger P sz (pg_db (pg_ledger_runs E P ops s))"
  by (induction ops arbitrary: s)
    (auto simp: pg_ledger_runs_def split_beta intro!: pg_ledger_run_kept [OF assms(1) _ _ assms(2)])

text \<open>
Property C16. The Postgres ledger stays in balance, whatever calls are made from the empty database in whatever
order, whatever requests and answers are lost, and whatever other sessions do in between that keeps the
balance too, as long as a digest always comes with the same size: the bytes a space holds are the sum of its
log, the counters of bytes and blobs differ by what it holds, its counters of uploads differ by the sum of
its upload log, and every counter of the service is the sum of the spaces' counters; no digest or root is
held twice.
\<close>

theorem pg_ledger_balanced:
  assumes "pg_formats_ok P" and "pg_db s = empty_database" and "list_all (\<lambda>p. op_sized sz (snd p)) ops"
    and "\<forall>n d. pg_ledger P sz d \<longrightarrow> pg_ledger P sz (pg_others E n d)"
    and "m = pg_abs P (pg_db (pg_ledger_runs E P ops s))"
  shows "sum_list (map Delta (spaceDiffStore m sp)) = sum_list (map ent_Size (blobs m sp)) \<and>
    space_counter (spaceMetrics m) sp BlobAddSizeTotalMetric =
      sum_list (map ent_Size (blobs m sp)) + space_counter (spaceMetrics m) sp BlobRemoveSizeTotalMetric \<and>
    space_counter (spaceMetrics m) sp BlobAddTotalMetric =
      of_nat (length (blobs m sp)) + space_counter (spaceMetrics m) sp BlobRemoveTotalMetric \<and>
    space_counter (spaceMetrics m) sp UploadAddTotalMetric =
      sum_list (map Delta (uploadDiffStore m sp)) + space_counter (spaceMetrics m) sp UploadRemoveTotalMetric \<and>
    counter (adminMetrics m) k = (\<Sum>p \<in> dom (spaceMetrics m). space_counter (spaceMetrics m) p k) \<and>
    distinct (map ent_Digest (blobs m sp)) \<and> distinct (map up_Root (uploads_in m sp))"
proof -
  have "pg_ledger P sz (pg_db (pg_ledger_runs E P ops s))"
    using assms(2-4) by (intro pg_ledger_runs_kept assms(1)) (simp_all add: empty_database_ledger)
  then show ?thesis
    by (simp add: pg_ledger_def ledger_inv_def blob_ledger_def upload_ledger_def upload_log_total_def totals_agree_def
        roots_distinct_def size_stored_def blobs_distinct_def assms(5))
qed

theorem pg_ledger_balanced_witness:
  "sum_list (map Delta (spaceDiffStore (pg_abs sample_pg_formats (pg_db (pg_ledger_runs quiet sample_pg_formats
      [(1000, RegisterOp ''sp'' blob7 ''c1''), (2000, UpsertOp ''sp'' ''r1'' None [''s1''] ''c2'')]
      \<lparr>pg_db = empty_database, pg_sent = 0\<rparr>))) ''sp'')) = 7"
proof -
  have "sum_list (map ent_Size (blobs (pg_abs sample_pg_formats (pg_db (pg_ledger_runs quiet sample_pg_formats
      [(1000, RegisterOp ''sp'' blob7 ''c1''), (2000, UpsertOp ''sp'' ''r1'' None [''s1''] ''c2'')]
      \<lparr>pg_db = empty_database, pg_sent = 0\<rparr>))) ''sp'')) = 7"
    by code_simp
  then show ?thesis
    using pg_ledger_balanced [OF sample_pg_formats_ok, where sz = one_size and E = quiet and sp = "''sp''",
        OF _ _ _ refl, of "\<lparr>pg_db = empty_database, pg_sent = 0\<rparr>"
          "[(1000, RegisterOp ''sp'' blob7 ''c1''), (2000, UpsertOp ''sp'' ''r1'' None [''s1''] ''c2'')]"]
    by (simp add: one_size_def blob7_def quiet_def)
qed

subsection \<open>Uploads\<close>

lemma insert_nothing_Done: "\<exists>t' n. sql_insert_nothing key row t = Done (t', n)"
  by (simp add: sql_insert_nothing_def)

lemma shard_loop_runs:
  assumes "fault_free E" and "\<not> tx_aborted tx" and "(space, cid_String P root) \<in> upload_row_key ` set (t_upload (tx_db tx))"
  shows "\<exists>tx'. shard_loop E P space root xs tx = (tx', Ok ()) \<and> \<not> tx_aborted tx' \<and>
    (\<exists>t. tx_db tx' = (tx_db tx)\<lparr>t_upload_shard := t\<rparr>)"
  using assms(2,3)
proof (induction xs arbitrary: tx)
  case Nil
  then show ?case by (auto intro: exI [of _ "t_upload_shard (tx_db tx)"])
next
  case (Cons x xs)
  then obtain t n where "shard_insert P space root x (tx_now tx) (tx_db tx) = Done ((tx_db tx)\<lparr>t_upload_shard := t\<rparr>, n)"
    using insert_nothing_Done by (fastforce simp: shard_insert_def)
  then have step: "tx_Exec E (shard_insert P space root x) tx =
      (tx\<lparr>tx_sent := Suc (tx_sent tx), tx_db := (tx_db tx)\<lparr>t_upload_shard := t\<rparr>\<rparr>, Done n)"
    using assms(1) Cons.prems(1) by (simp add: fault_free_tx_Exec del: tx_Exec_Done)
  with Cons.IH [of "tx\<lparr>tx_sent := Suc (tx_sent tx), tx_db := (tx_db tx)\<lparr>t_upload_shard := t\<rparr>\<rparr>"] Cons.prems
  show ?case by (auto simp del: tx_Exec_Done)
qed

lemma pg_recordDelta_runs:
  assumes "fault_free E" and "\<not> tx_aborted tx"
    and "distinct (map fst (t_space_metrics (tx_db tx)))" "distinct (map fst (t_admin_metrics (tx_db tx)))"
    and "fits (t_space_metrics (tx_db tx)) (space, metric) 1" "fits (t_admin_metrics (tx_db tx)) metric 1"
  shows "\<exists>tx'. pg_recordDelta E P space cause delta metric at tx = (tx', Ok ()) \<and> \<not> tx_aborted tx'"
proof -
  obtain t n where "upload_diff_insert P space cause delta at (tx_now tx) (tx_db tx) = Done ((tx_db tx)\<lparr>t_upload_diff := t\<rparr>, n)"
    using insert_nothing_Done by (fastforce simp: upload_diff_insert_def)
  then have log: "uploaddiff_PutWith (tx_Exec E) P space cause delta at tx =
      (tx\<lparr>tx_sent := Suc (tx_sent tx), tx_db := (tx_db tx)\<lparr>t_upload_diff := t\<rparr>\<rparr>, Ok (n > 0))" (is "_ = (?tx, _)")
    using assms(1,2) by (simp add: uploaddiff_PutWith_def fault_free_tx_Exec del: tx_Exec_Done)
  have one: "sorted_inc P [(metric, 1)] = [(metric, 1)]"
    by (simp add: sorted_inc_def)
  have "\<exists>tx'. IncrementSpaceWith (tx_Exec E) P space [(metric, 1)] ?tx = (tx', Ok ()) \<and> \<not> tx_aborted tx' \<and>
      (\<exists>u. tx_db tx' = (tx_db ?tx)\<lparr>t_space_metrics := u\<rparr>) \<and> tx_now tx' = tx_now ?tx"
    unfolding IncrementSpaceWith_def one
    by (rule increment_loop_runs [where get = t_space_metrics and name = "\<lambda>k. (space, k)"])
      (use assms in \<open>auto simp: space_upsert_def [abs_def] inj_def\<close>)
  then obtain tx2 u where space: "IncrementSpaceWith (tx_Exec E) P space [(metric, 1)] ?tx = (tx2, Ok ())" "\<not> tx_aborted tx2"
    "tx_db tx2 = (tx_db ?tx)\<lparr>t_space_metrics := u\<rparr>" by blast
  have "\<exists>tx'. IncrementAdminWith (tx_Exec E) P [(metric, 1)] tx2 = (tx', Ok ()) \<and> \<not> tx_aborted tx' \<and>
      (\<exists>u. tx_db tx' = (tx_db tx2)\<lparr>t_admin_metrics := u\<rparr>) \<and> tx_now tx' = tx_now tx2"
    unfolding IncrementAdminWith_def one
    by (rule increment_loop_runs [where get = t_admin_metrics and name = "\<lambda>k. k"])
      (use assms space in \<open>auto simp: admin_upsert_def [abs_def] inj_def\<close>)
  with log space(1) assms(2) show ?thesis
    by (auto simp: pg_recordDelta_def)
qed

lemma pg_Upsert_runs:
  assumes P: "pg_formats_ok P" and free: "fault_free E" and ok: "tables_ok P (pg_seen E s)"
    and fits: "fits (t_space_metrics (pg_seen E s)) (space, UploadAddTotalMetric) 1"
      "fits (t_admin_metrics (pg_seen E s)) UploadAddTotalMetric 1"
  shows "snd (pg_upload_Upsert E P space root index newShards cause at s) = Ok ()"
proof -
  let ?row = "\<lparr>ur_space = space, ur_root = cid_String P root, ur_index = map_option (cid_String P) index,
    ur_cause = cid_String P cause, ur_inserted_at = pg_now E (pg_sent s), ur_updated_at = pg_now E (pg_sent s)\<rparr>"
  obtain t ins where st: "upload_upsert P space root index cause (pg_now E (pg_sent s)) (pg_seen E s) =
      Done ((pg_seen E s)\<lparr>t_upload := t\<rparr>, ins)"
    by (fastforce simp: upload_upsert_def sql_upsert_def split: option.splits)
  let ?tx = "(tx_start E s)\<lparr>tx_sent := Suc (tx_sent (tx_start E s)), tx_db := (pg_seen E s)\<lparr>t_upload := t\<rparr>\<rparr>"
  have first: "tx_Exec E (upload_upsert P space root index cause) (tx_start E s) = (?tx, Done ins)"
    using st by (simp add: fault_free_tx_Exec [OF free] del: tx_Exec_Done)
  have "uploaded (pg_abs P ((pg_seen E s)\<lparr>t_upload := t\<rparr>)) space root \<noteq> None"
    by (simp add: upload_upsert_abs(3) [OF P ok st])
  then have "(space, cid_String P root) \<in> upload_row_key ` set (t_upload (tx_db ?tx))"
    by (auto simp: uploaded_abs [OF P upload_upsert_abs(1) [OF P ok st]] find_None_key)
  with shard_loop_runs [OF free, of ?tx] obtain tx2 u where
    shards: "shard_loop E P space root newShards ?tx = (tx2, Ok ())" "\<not> tx_aborted tx2"
      "tx_db tx2 = (tx_db ?tx)\<lparr>t_upload_shard := u\<rparr>"
    by fastforce
  have "\<exists>tx'. pg_recordDelta E P space cause 1 UploadAddTotalMetric at tx2 = (tx', Ok ()) \<and> \<not> tx_aborted tx'"
    using fits ok shards by (intro pg_recordDelta_runs [OF free]) (simp_all add: tables_ok_def)
  then obtain tx3 where "pg_recordDelta E P space cause 1 UploadAddTotalMetric at tx2 = (tx3, Ok ())" "\<not> tx_aborted tx3"
    by blast
  with first shards show ?thesis
    unfolding pg_upload_Upsert_def
    by (subst with_tx_runs(1) [OF free, where tx = "if ins then tx3 else tx2" and x = "()"])
      (simp_all add: if_distrib del: tx_Exec_Done)
qed

text \<open>
Property C18. Adding an upload to the Postgres store is all or nothing. Success means that the upload is held
with the index and cause given and keeps the time of its first insertion, that its shards are those it had
and those given, that no other upload or shard changed, and that the log and the counters of the space and of
the service moved by one where the upload is new and not at all where it was held. An error leaves the
database as it was, or, only where an answer was lost, with the whole change made; without faults, and where
the counters have room, there is none.
\<close>

theorem pg_upload_Upsert_atomic:
  assumes "pg_formats_ok P" and "tables_ok P (pg_seen E s)"
    and "pg_upload_Upsert E P space root index newShards cause at s = (s', r)"
  shows "tables_ok P (pg_db s') \<and>
    (let d = pg_seen E s; d' = pg_db s'; now = pg_now E (pg_sent s); old = uploaded (pg_abs P d) space root;
         made = (uploaded (pg_abs P d') = (uploaded (pg_abs P d))(space := (uploaded (pg_abs P d) space)(root \<mapsto>
             \<lparr>up_Space = (case old of None \<Rightarrow> space | Some u \<Rightarrow> up_Space u),
              up_Root = (case old of None \<Rightarrow> root | Some u \<Rightarrow> up_Root u), up_Index = index, up_Cause = cause,
              up_InsertedAt = (case old of None \<Rightarrow> now | Some u \<Rightarrow> up_InsertedAt u), up_UpdatedAt = now\<rparr>)) \<and>
           (\<forall>sp rt. shard_texts d' sp rt = shard_texts d sp rt \<union>
             (if sp = space \<and> rt = cid_String P root then cid_String P ` set newShards else {})) \<and>
           ledger.truncate (pg_abs P d') = ledger.truncate
             (if old = None
              then fst (recordDelta (formats.truncate P) space cause 1 UploadAddTotalMetric (deregister_clock now at) (pg_abs P d))
              else pg_abs P d)) in
     case r of
       Ok _ \<Rightarrow> made
     | Err e \<Rightarrow> d' = d \<or> (\<exists>n m. pg_fault E n = Some (Unanswered m)) \<and> made
     | Panic \<Rightarrow> False) \<and>
    (fault_free E \<longrightarrow> fits (t_space_metrics (pg_seen E s)) (space, UploadAddTotalMetric) 1 \<longrightarrow>
      fits (t_admin_metrics (pg_seen E s)) UploadAddTotalMetric 1 \<longrightarrow> r = Ok ())"
proof -
  note cs = pg_Upsert_cases [OF assms]
  have lost: "\<exists>n m. pg_fault E n = Some (Unanswered m)" if "r \<noteq> Ok ()" "pg_db s' \<noteq> pg_seen E s"
    using with_tx_unanswered [OF assms(3) [unfolded pg_upload_Upsert_def]] that by (auto simp: is_Ok_iff)
  have upserted: "pg_upserted space root index cause now old =
      \<lparr>up_Space = (case old of None \<Rightarrow> space | Some u \<Rightarrow> up_Space u),
       up_Root = (case old of None \<Rightarrow> root | Some u \<Rightarrow> up_Root u), up_Index = index, up_Cause = cause,
       up_InsertedAt = (case old of None \<Rightarrow> now | Some u \<Rightarrow> up_InsertedAt u), up_UpdatedAt = now\<rparr>" for now old
    by (cases old) (simp_all add: pg_upserted_def)
  have "r = Ok ()" if "fault_free E" "fits (t_space_metrics (pg_seen E s)) (space, UploadAddTotalMetric) 1"
    "fits (t_admin_metrics (pg_seen E s)) UploadAddTotalMetric 1"
    using pg_Upsert_runs [OF assms(1) that(1) assms(2) that(2,3), of root index newShards cause at] assms(3) by simp
  moreover have "tables_ok P (pg_db s')" using cs(2) assms(2) by auto
  ultimately have rest: "tables_ok P (pg_db s') \<and> (fault_free E \<longrightarrow>
      fits (t_space_metrics (pg_seen E s)) (space, UploadAddTotalMetric) 1 \<longrightarrow>
      fits (t_admin_metrics (pg_seen E s)) UploadAddTotalMetric 1 \<longrightarrow> r = Ok ())"
    by blast
  show ?thesis
  proof (cases r)
    case (Ok x)
    with cs(2) rest show ?thesis
      unfolding upsert_effect_def upserted Let_def by simp
  next
    case (Err e)
    with cs(2) rest lost show ?thesis
      unfolding upsert_effect_def upserted Let_def by auto
  next
    case Panic
    with cs(1) show ?thesis by simp
  qed
qed

theorem pg_upload_Upsert_atomic_witness:
  "\<exists>s'. pg_upload_Upsert (faulty 1 (Lost ''reset'')) sample_pg_formats ''sp'' ''r1'' None [''s3''] ''c3'' 3000
      (sample_pg\<lparr>pg_sent := 0\<rparr>) = (s', Err (Wrap ''upserting upload'' (Errorf ''reset''))) \<and> pg_db s' = pg_db sample_pg"
proof (cases "pg_upload_Upsert (faulty 1 (Lost ''reset'')) sample_pg_formats ''sp'' ''r1'' None [''s3''] ''c3'' 3000
    (sample_pg\<lparr>pg_sent := 0\<rparr>)")
  case (Pair s' r)
  have "snd (pg_upload_Upsert (faulty 1 (Lost ''reset'')) sample_pg_formats ''sp'' ''r1'' None [''s3''] ''c3'' 3000
    (sample_pg\<lparr>pg_sent := 0\<rparr>)) = Err (Wrap ''upserting upload'' (Errorf ''reset''))"
    by code_simp
  then have "r = Err (Wrap ''upserting upload'' (Errorf ''reset''))"
    by (simp only: Pair snd_conv)
  moreover have "pg_fault (faulty 1 (Lost ''reset'')) n \<noteq> Some (Unanswered m)" for n m
    by (simp add: faulty_def)
  ultimately show ?thesis
    using pg_upload_Upsert_atomic [OF sample_pg_formats_ok _ Pair] sample_tables Pair
    by (simp add: Let_def)
qed

subsection \<open>Trying again\<close>

text \<open>Attempts to register a blob, each in an environment of its own and at a time of its own.\<close>

definition pg_attempts :: "pg_formats \<Rightarrow> did \<Rightarrow> Blob \<Rightarrow> cid \<Rightarrow> (pg_env \<times> time) list \<Rightarrow> pg \<Rightarrow> pg" where
  "pg_attempts P space b cause tries s = fold (\<lambda>(E, at) s. fst (pg_blob_Register E P space b cause at s)) tries s"

text \<open>The database as before, or with the one step made.\<close>

definition registered_once :: "pg_formats \<Rightarrow> did \<Rightarrow> Blob \<Rightarrow> cid \<Rightarrow> database \<Rightarrow> database \<Rightarrow> bool" where
  "registered_once P space b cause d d' \<longleftrightarrow> tables_ok P d' \<and>
     (\<exists>now at. blob_Register (formats.truncate P) space b cause (register_clock now (timestamptz P at)) (pg_abs P d) =
        (pg_abs P d', Ok ()))"

lemma registered_once_held:
  assumes "registered_once P space b cause d d'"
  shows "registered (pg_abs P d') space (Digest b) \<noteq> None"
proof -
  from assms obtain now at where
    step: "blob_Register (formats.truncate P) space b cause (register_clock now (timestamptz P at)) (pg_abs P d) = (pg_abs P d', Ok ())"
    by (auto simp: registered_once_def)
  then have "registered (pg_abs P d) space (Digest b) = None"
    by (cases "registered (pg_abs P d) space (Digest b)") (simp_all add: blob_Register_exists)
  from blob_Register_fresh [OF this] step show ?thesis
    by (auto simp: registered_None_iff prod_eq_iff dest!: sym [of _ "pg_abs P d'"])
qed

lemma pg_attempt_once:
  assumes P: "pg_formats_ok P" and ok: "tables_ok P d" and alone: "pg_others E = (\<lambda>_ d. d)"
    and "pg_db s = d \<or> registered_once P space b cause d (pg_db s)"
    and run: "pg_blob_Register E P space b cause at s = (s', r)"
  shows "pg_db s' = d \<or> registered_once P space b cause d (pg_db s')"
proof -
  have seen: "pg_seen E s = pg_db s"
    using alone by (simp add: pg_seen_def)
  have "tables_ok P (pg_seen E s)"
    using assms(4) ok seen by (auto simp: registered_once_def)
  note ref = pg_Register_refines [OF P this run]
  from assms(4) show ?thesis
  proof
    assume "pg_db s = d"
    with ref(1,2) seen show ?thesis by (auto simp: registered_once_def)
  next
    assume once: "registered_once P space b cause d (pg_db s)"
    with registered_once_held [OF this] ref(2) seen have "pg_db s' = pg_db s"
      by (auto simp: blob_Register_exists)
    with once show ?thesis by simp
  qed
qed

lemma pg_attempts_once:
  assumes "pg_formats_ok P" and "tables_ok P d" and "\<forall>p \<in> set tries. pg_others (fst p) = (\<lambda>_ d. d)"
    and "pg_db s = d \<or> registered_once P space b cause d (pg_db s)"
  shows "pg_db (pg_attempts P space b cause tries s) = d \<or>
    registered_once P space b cause d (pg_db (pg_attempts P space b cause tries s))"
  using assms(3,4)
proof (induction tries arbitrary: s)
  case (Cons p tries)
  from pg_attempt_once [OF assms(1,2) _ Cons.prems(2) prod.collapse [symmetric], of "fst p" "snd p"] Cons.prems
    Cons.IH [of "fst (pg_blob_Register (fst p) P space b cause (snd p) s)"]
  show ?case by (simp add: pg_attempts_def split_beta)
qed (simp add: pg_attempts_def)

text \<open>
Property C17. A blob that is registered again and again until an attempt meets no fault ends up registered, and
once: however many attempts went before, and whatever requests and answers they lost, the last one answers
with success or that the blob is registered, and the database has then made the step of the in-memory
registry exactly once. The key of the last change has to be new to the log, the counters have room, and
nobody else writes.
\<close>

theorem pg_Register_retried:
  assumes "pg_formats_ok P" and "tables_ok P (pg_db s)"
    and "\<forall>p \<in> set tries. pg_others (fst p) = (\<lambda>_ d. d)" and "alone E"
    and "registered (pg_abs P (pg_db s)) space (Digest b) = None"
    and "change_fits P (pg_db s) space cause [(BlobAddTotalMetric, 1), (BlobAddSizeTotalMetric, Size b)] at"
    and "pg_blob_Register E P space b cause at (pg_attempts P space b cause tries s) = (s', r)"
  shows "(r = Ok () \<or> r = Err ErrEntryExists) \<and>
    (\<exists>now at. blob_Register (formats.truncate P) space b cause (register_clock now (timestamptz P at)) (pg_abs P (pg_db s)) =
      (pg_abs P (pg_db s'), Ok ()))"
proof -
  let ?s = "pg_attempts P space b cause tries s"
  have before: "pg_db ?s = pg_db s \<or> registered_once P space b cause (pg_db s) (pg_db ?s)"
    using assms(3) by (intro pg_attempts_once assms(1,2)) simp_all
  have ok: "tables_ok P (pg_seen E ?s)"
    using before assms(2,4) by (auto simp: registered_once_def)
  note runs = pg_Register_runs [OF assms(1) alone_fault_free [OF assms(4)] ok, of space b cause at]
  note ref = pg_Register_refines [OF assms(1) ok assms(7)]
  have seen: "pg_seen E ?s = pg_db ?s"
    using assms(4) by simp
  from before have "(r = Ok () \<or> r = Err ErrEntryExists) \<and> registered_once P space b cause (pg_db s) (pg_db s')"
  proof
    assume same: "pg_db ?s = pg_db s"
    then have "r = Ok ()"
      using runs(2) assms(5-7) by (simp add: seen)
    with ref(1,3) same show ?thesis
      by (auto simp: registered_once_def seen)
  next
    assume once: "registered_once P space b cause (pg_db s) (pg_db ?s)"
    note held = registered_once_held [OF once]
    have "r = Err ErrEntryExists"
      using runs(1) held assms(7) by (simp add: seen)
    moreover have "pg_db s' = pg_db ?s"
      using ref(2) blob_Register_exists [OF held] by (simp add: seen)
    ultimately show ?thesis using once by simp
  qed
  then show ?thesis
    by (auto simp: registered_once_def)
qed

theorem pg_Register_retried_witness:
  "\<exists>s' now at. pg_blob_Register quiet sample_pg_formats ''sp'' \<lparr>Digest = ''d2'', Size = 5\<rparr> ''c3'' 4000
      (pg_attempts sample_pg_formats ''sp'' \<lparr>Digest = ''d2'', Size = 5\<rparr> ''c3'' [(faulty 7 (Unanswered ''reset''), 3000)]
        (sample_pg\<lparr>pg_sent := 0\<rparr>)) = (s', Err ErrEntryExists) \<and>
     blob_Register (formats.truncate sample_pg_formats) ''sp'' \<lparr>Digest = ''d2'', Size = 5\<rparr> ''c3''
       (register_clock now (timestamptz sample_pg_formats at)) (pg_abs sample_pg_formats (pg_db sample_pg)) =
     (pg_abs sample_pg_formats (pg_db s'), Ok ())"
proof (cases "pg_blob_Register quiet sample_pg_formats ''sp'' \<lparr>Digest = ''d2'', Size = 5\<rparr> ''c3'' 4000
    (pg_attempts sample_pg_formats ''sp'' \<lparr>Digest = ''d2'', Size = 5\<rparr> ''c3'' [(faulty 7 (Unanswered ''reset''), 3000)]
      (sample_pg\<lparr>pg_sent := 0\<rparr>))")
  case (Pair s' r)
  have "snd (pg_blob_Register quiet sample_pg_formats ''sp'' \<lparr>Digest = ''d2'', Size = 5\<rparr> ''c3'' 4000
    (pg_attempts sample_pg_formats ''sp'' \<lparr>Digest = ''d2'', Size = 5\<rparr> ''c3'' [(faulty 7 (Unanswered ''reset''), 3000)]
      (sample_pg\<lparr>pg_sent := 0\<rparr>))) = Err ErrEntryExists"
    by code_simp
  then have "r = Err ErrEntryExists"
    by (simp only: Pair snd_conv)
  moreover have "registered (pg_abs sample_pg_formats (pg_db sample_pg)) ''sp'' ''d2'' = None"
    "change_fits sample_pg_formats (pg_db sample_pg) ''sp'' ''c3'' [(BlobAddTotalMetric, 1), (BlobAddSizeTotalMetric, 5)] 4000"
    by code_simp+
  moreover have "pg_others (faulty 7 (Unanswered ''reset'')) = (\<lambda>_ d. d)"
    by (simp add: faulty_def quiet_def)
  ultimately show ?thesis
    using pg_Register_retried [OF sample_pg_formats_ok _ _ _ _ _ Pair] sample_tables Pair by auto
qed

end
