(* ===== verification/Pg_Lists.thy ===== *)
theory Pg_Lists
  imports Pg_Balance
begin

section \<open>Reading the Postgres listings to the end\<close>

text \<open>
  The listings of the Postgres blob registry, upload store and diff logs, read page by page: each interprets
  \<open>keyset_store\<close>, so that every row is read once, in the order of its key. The listings of a log start behind an
  instant and go on behind a cursor; the two conditions agree on the pages after the first.
\<close>

subsection \<open>Rows that can be read\<close>

text \<open>The texts of the rows read back: DIDs and CIDs, and for the logs a time that the column and the cursor
  keep.\<close>

definition log_row_ok :: "pg_formats \<Rightarrow> diff_row \<Rightarrow> bool" where
  "log_row_ok P r \<longleftrightarrow> did_ok P (dr_space r) \<and> timestamptz P (dr_receipt_at r) = dr_receipt_at r \<and>
     json_safe (dr_receipt_at r) (dr_cause r)"

definition texts_ok :: "pg_formats \<Rightarrow> database \<Rightarrow> bool" where
  "texts_ok P d \<longleftrightarrow>
     list_all (\<lambda>r. did_ok P (br_space r) \<and> is_cid P (br_cause r)) (t_blob_registry d) \<and>
     list_all (\<lambda>r. did_ok P (ur_space r) \<and> is_cid P (ur_cause r) \<and>
       (case ur_index r of None \<Rightarrow> True | Some x \<Rightarrow> is_cid P x)) (t_upload d) \<and>
     list_all (log_row_ok P) (t_space_diff d) \<and> list_all (log_row_ok P) (t_upload_diff d) \<and>
     list_all (\<lambda>r. is_cid P (sh_shard r)) (t_upload_shard d) \<and>
     distinct (map (\<lambda>r. (sh_space r, sh_root r, sh_shard r)) (t_upload_shard d))"

definition readable :: "pg_formats \<Rightarrow> database \<Rightarrow> bool" where
  "readable P d \<longleftrightarrow> pg_formats_ok P \<and> tables_ok P d \<and> texts_ok P d"

lemma cid_Parse_is_cid: "pg_formats_ok P \<Longrightarrow> is_cid P x \<Longrightarrow> cid_Parse P x = Ok (the_cid P x)"
  by (metis is_cid_def pg_formats_okD(2))

lemma digest_Parse_is_digest: "pg_formats_ok P \<Longrightarrow> is_digest P x \<Longrightarrow> digest_Parse P x = Ok (the_digest P x)"
  by (metis is_digest_def pg_formats_okD(3))

lemma distinct_filter_key:
  assumes "distinct (map key t)" and "\<And>r r'. r \<in> set t \<Longrightarrow> r' \<in> set t \<Longrightarrow> Q r \<Longrightarrow> Q r' \<Longrightarrow> f r = f r' \<Longrightarrow> key r = key r'"
  shows "distinct (map f (filter Q t))"
proof -
  have "inj_on key (set t)" "distinct t"
    using assms(1) by (simp_all add: distinct_map)
  then show ?thesis
    by (auto simp: distinct_map inj_on_def dest: assms(2))
qed

interpretation blob_rows: keyset_store "readable P" "\<lambda>d. filter (\<lambda>r. br_space r = space) (t_blob_registry d)"
  "\<lambda>r. collate P (br_digest r)" "\<lambda>c. Ok (collate P c)" "scan_blob P" "blob_of P" "\<lambda>rec. digest_Format P (ent_Digest rec)"
  for P space
proof
  fix d assume "readable P d"
  then have P: "pg_formats_ok P" and ok: "tables_ok P d" "texts_ok P d"
    by (simp_all add: readable_def)
  show "distinct (map (\<lambda>r. collate P (br_digest r)) (filter (\<lambda>r. br_space r = space) (t_blob_registry d)))"
    using ok(1) by (intro distinct_filter_key [of blob_row_key])
      (auto simp: tables_ok_def blob_row_key_def pg_formats_okD(6) [OF P])
  fix r assume r: "r \<in> set (filter (\<lambda>r. br_space r = space) (t_blob_registry d))"
  then show "scan_blob P r = Ok (blob_of P r)"
    using ok by (auto simp: tables_ok_def texts_ok_def list_all_iff scan_blob_def blob_of_def did_ok_def
        cid_Parse_is_cid [OF P] digest_Parse_is_digest [OF P])
  show "Ok (collate P (digest_Format P (ent_Digest (blob_of P r)))) = Ok (collate P (br_digest r))"
    using ok r by (auto simp: tables_ok_def list_all_iff blob_of_def is_digest_def)
qed

interpretation upload_rows: keyset_store "readable P" "\<lambda>d. filter (\<lambda>r. ur_space r = space) (t_upload d)"
  "\<lambda>r. collate P (ur_root r)" "\<lambda>c. Ok (collate P c)" "scan_upload P" "upload_of P" "\<lambda>rec. cid_String P (up_Root rec)"
  for P space
proof
  fix d assume "readable P d"
  then have P: "pg_formats_ok P" and ok: "tables_ok P d" "texts_ok P d"
    by (simp_all add: readable_def)
  show "distinct (map (\<lambda>r. collate P (ur_root r)) (filter (\<lambda>r. ur_space r = space) (t_upload d)))"
    using ok(1) by (intro distinct_filter_key [of upload_row_key])
      (auto simp: tables_ok_def upload_row_key_def pg_formats_okD(6) [OF P])
  fix r assume r: "r \<in> set (filter (\<lambda>r. ur_space r = space) (t_upload d))"
  then show "scan_upload P r = Ok (upload_of P r)"
    using ok by (cases "ur_index r") (auto simp: tables_ok_def texts_ok_def list_all_iff scan_upload_def upload_of_def
        did_ok_def cid_Parse_is_cid [OF P])
  show "Ok (collate P (cid_String P (up_Root (upload_of P r)))) = Ok (collate P (ur_root r))"
    using ok r by (auto simp: tables_ok_def list_all_iff upload_of_def is_cid_def)
qed

interpretation shard_rows: keyset_store "readable P"
  "\<lambda>d. filter (\<lambda>r. sh_space r = space \<and> sh_root r = cid_String P root) (t_upload_shard d)"
  "\<lambda>r. collate P (sh_shard r)" "\<lambda>c. Ok (collate P c)" "\<lambda>r. wrap ''parsing shard CID'' (cid_Parse P (sh_shard r))"
  "\<lambda>r. the_cid P (sh_shard r)" "cid_String P" for P space root
proof
  fix d assume "readable P d"
  then have P: "pg_formats_ok P" and ok: "texts_ok P d"
    by (simp_all add: readable_def)
  show "distinct (map (\<lambda>r. collate P (sh_shard r))
      (filter (\<lambda>r. sh_space r = space \<and> sh_root r = cid_String P root) (t_upload_shard d)))"
    using ok by (intro distinct_filter_key [of "\<lambda>r. (sh_space r, sh_root r, sh_shard r)"])
      (auto simp: texts_ok_def pg_formats_okD(6) [OF P])
  fix r assume r: "r \<in> set (filter (\<lambda>r. sh_space r = space \<and> sh_root r = cid_String P root) (t_upload_shard d))"
  then show "wrap ''parsing shard CID'' (cid_Parse P (sh_shard r)) = Ok (the_cid P (sh_shard r))"
    "Ok (collate P (cid_String P (the_cid P (sh_shard r)))) = Ok (collate P (sh_shard r))"
    using ok by (auto simp: texts_ok_def list_all_iff cid_Parse_is_cid [OF P] is_cid_def)
qed

text \<open>The two logs share their rows and their listing.\<close>

definition log_readable :: "pg_formats \<Rightarrow> (database \<Rightarrow> diff_row list) \<Rightarrow> database \<Rightarrow> bool" where
  "log_readable P table d \<longleftrightarrow> pg_formats_ok P \<and> distinct (map diff_row_key (table d)) \<and>
     list_all (\<lambda>r. is_cid P (dr_cause r) \<and> log_row_ok P r) (table d)"

definition log_rows_after :: "pg_formats \<Rightarrow> (database \<Rightarrow> diff_row list) \<Rightarrow> did \<Rightarrow> time \<Rightarrow> database \<Rightarrow> diff_row list" where
  "log_rows_after P table space after d = filter (\<lambda>r. dr_space r = space \<and>
     (after = go_zero_time \<or> dr_receipt_at r > timestamptz P after)) (table d)"

lemma readable_logs: "readable P d \<Longrightarrow> log_readable P t_space_diff d" "readable P d \<Longrightarrow> log_readable P t_upload_diff d"
  by (simp_all add: readable_def log_readable_def tables_ok_def texts_ok_def list_all_iff)

interpretation log_rows: keyset_store "log_readable P table" "log_rows_after P table space after"
  "\<lambda>r. (dr_receipt_at r, collate P (dr_cause r))" "diff_cursor_key P" "scan_diff P" "diff_of P"
  "\<lambda>rec. EncodeCursor (cursorJSON P) (ReceiptAt rec) (cid_String P (Cause rec))" for P table space after
proof
  fix d assume "log_readable P table d"
  then have P: "pg_formats_ok P" and dist: "distinct (map diff_row_key (table d))"
    and ok: "\<And>r. r \<in> set (table d) \<Longrightarrow> is_cid P (dr_cause r) \<and> log_row_ok P r"
    by (auto simp: log_readable_def list_all_iff)
  show "distinct (map (\<lambda>r. (dr_receipt_at r, collate P (dr_cause r))) (log_rows_after P table space after d))"
    unfolding log_rows_after_def using dist
    by (intro distinct_filter_key [of diff_row_key]) (auto simp: diff_row_key_def pg_formats_okD(6) [OF P])
  fix r assume "r \<in> set (log_rows_after P table space after d)"
  then have r: "r \<in> set (table d)" by (simp add: log_rows_after_def)
  then show "scan_diff P r = Ok (diff_of P r)"
    using ok [OF r] by (simp add: scan_diff_def diff_of_def log_row_ok_def did_ok_def cid_Parse_is_cid [OF P])
  have "json_roundtrip (cursorJSON P)"
    using formats_okD(3) [OF pg_formats_okD(1) [OF P]] by simp
  with ok [OF r] show "diff_cursor_key P (EncodeCursor (cursorJSON P) (ReceiptAt (diff_of P r)) (cid_String P (Cause (diff_of P r)))) =
      Ok (dr_receipt_at r, collate P (dr_cause r))"
    by (simp add: diff_cursor_key_def diff_of_def is_cid_def log_row_ok_def DecodeCursor_EncodeCursor)
qed

text \<open>Behind a cursor the listing drops the condition on the instant: the rows behind a row that meets it meet
  it too.\<close>

lemma diff_page_resumes:
  assumes ok: "log_readable P table (pg_db s)" and "alone E"
    and at: "key_resumes (\<lambda>rec. EncodeCursor (cursorJSON P) (ReceiptAt rec) (cid_String P (Cause rec)))
      (map (diff_of P) (sort_key (\<lambda>r. (dr_receipt_at r, collate P (dr_cause r))) (log_rows_after P table space after (pg_db s)))) c p"
  shows "diff_page E P msg iter_msg table space after \<lparr>Cursor = c, Limit = l\<rparr> s =
    pg_List E msg iter_msg (log_rows_after P table space after) (\<lambda>r. (dr_receipt_at r, collate P (dr_cause r)))
      (diff_cursor_key P) (scan_diff P) (\<lambda>rec. EncodeCursor (cursorJSON P) (ReceiptAt rec) (cid_String P (Cause rec)))
      (page_limit \<lparr>Cursor = c, Limit = l\<rparr>) c s"
proof (cases c)
  case None
  then show ?thesis
    by (simp add: diff_page_def log_rows_after_def [abs_def])
next
  case (Some k)
  let ?rows = "sort_key (\<lambda>r. (dr_receipt_at r, collate P (dr_cause r))) (log_rows_after P table space after (pg_db s))"
  from at Some have p: "p - 1 < length ?rows"
    and k: "k = EncodeCursor (cursorJSON P) (ReceiptAt (diff_of P (?rows ! (p - 1)))) (cid_String P (Cause (diff_of P (?rows ! (p - 1)))))"
    by (auto simp: key_resumes_def)
  define row where "row = ?rows ! (p - 1)"
  have row: "row \<in> set (log_rows_after P table space after (pg_db s))"
    using nth_mem [OF p] by (simp add: row_def)
  have key: "diff_cursor_key P k = Ok (dr_receipt_at row, collate P (dr_cause row))"
    unfolding k row_def [symmetric] using log_rows.decodes [OF ok row] by simp
  have "keyset (\<lambda>r. (dr_receipt_at r, collate P (dr_cause r))) (Some (dr_receipt_at row, collate P (dr_cause row))) limit
      (filter (\<lambda>r. dr_space r = space) (table (pg_db s))) =
    keyset (\<lambda>r. (dr_receipt_at r, collate P (dr_cause r))) (Some (dr_receipt_at row, collate P (dr_cause row))) limit
      (log_rows_after P table space after (pg_db s))" for limit
    using row by (auto simp: keyset_def log_rows_after_def intro!: arg_cong [where f = "take _"] arg_cong [where f = "sort_key _"]
        filter_cong)
  with Some key assms(2) show ?thesis
    by (simp add: diff_page_def pg_List_def pg_select_def fault_free_pool_Query)
qed

lemma pg_log_collects:
  assumes "log_readable P table (pg_db s)" and "alone E"
    and "page_limit \<lparr>Cursor = None, Limit = l\<rparr> < MaxInt64" and "pg_alloc E (page_limit \<lparr>Cursor = None, Limit = l\<rparr>)"
    and "\<And>c. getPage \<lparr>Cursor = c, Limit = None\<rparr> = snd (diff_page E P msg iter_msg table space after \<lparr>Cursor = c, Limit = l\<rparr> s)"
  shows "store_Collect getPage = Some (Ok (map (diff_of P)
    (sort_key (\<lambda>r. (dr_receipt_at r, collate P (dr_cause r))) (log_rows_after P table space after (pg_db s)))))"
  using diff_page_resumes [OF assms(1,2)] assms
  by (intro log_rows.collects [where limit = "page_limit \<lparr>Cursor = None, Limit = l\<rparr>" and msg = msg and iter_msg = iter_msg])
    (auto simp: page_limit_def split: option.splits)

lemma alloc_quiet [simp]: "pg_alloc quiet n \<longleftrightarrow> n < 2 ^ 20"
  by (simp add: quiet_def)

lemma sample_readable: "readable sample_pg_formats (pg_db sample_pg)"
proof -
  have "texts_ok sample_pg_formats (pg_db sample_pg)"
    by code_simp
  then show ?thesis
    by (simp add: readable_def sample_pg_formats_ok sample_tables)
qed

text \<open>The options of a listing: a limit where one is given, and the cursor of the page before.\<close>

definition list_options :: "(int \<Rightarrow> ListOption) \<Rightarrow> (string \<Rightarrow> ListOption) \<Rightarrow> int option \<Rightarrow> string option \<Rightarrow> ListOption list" where
  "list_options withLimit withCursor limit c = (case limit of None \<Rightarrow> [] | Some l \<Rightarrow> [withLimit l]) @ cursor_options withCursor c"

lemma list_options_cfg:
  assumes "\<And>l cfg. withLimit l cfg = cfg\<lparr>Limit := Some l\<rparr>" and "\<And>c cfg. withCursor c cfg = cfg\<lparr>Cursor := Some c\<rparr>"
  shows "apply_options (list_options withLimit withCursor limit c) no_options = \<lparr>Cursor = c, Limit = limit\<rparr>"
  by (cases limit; cases c) (simp_all add: list_options_def cursor_options_def no_options_def assms)

lemmas list_cfgs = list_options_cfg [OF blob_WithListLimit_def blob_WithListCursor_def]
  list_options_cfg [OF upload_WithListLimit_def upload_WithListCursor_def]
  list_options_cfg [OF WithListShardsLimit_def WithListShardsCursor_def]
  list_options_cfg [OF spacediff_WithListLimit_def spacediff_WithListCursor_def]
  list_options_cfg [OF uploaddiff_WithListLimit_def uploaddiff_WithListCursor_def]

lemma page_limit_pos: "0 < page_limit cfg"
  by (simp add: page_limit_def split: option.split)



lemma page_limit_any: "page_limit \<lparr>Cursor = c, Limit = l\<rparr> = page_limit \<lparr>Cursor = None, Limit = l\<rparr>"
  by (simp add: page_limit_def)

text \<open>
Property C28. Reading a Postgres listing to the end, page by page, returns and gives every row once, in the order
of the collation: the blobs of a space by digest, its uploads by root, and the shards of an upload. This is
for any limit given (one that is not positive counts as none, and the limit is then 1000) for which the
slice of a page can be had, where nothing is lost and nobody else writes.
\<close>

theorem pg_listings_complete:
  assumes "readable P (pg_db s)" and "alone E" and "page_limit \<lparr>Cursor = None, Limit = limit\<rparr> < MaxInt64"
    and "\<forall>n. 0 < n \<and> n \<le> page_limit \<lparr>Cursor = None, Limit = limit\<rparr> \<longrightarrow> pg_alloc E n"
  shows "store_Collect (\<lambda>cfg. snd (pg_blob_List E P space
        (list_options blob_WithListLimit blob_WithListCursor limit (Cursor cfg)) s)) =
      Some (Ok (map (blob_of P) (sort_key (\<lambda>r. collate P (br_digest r))
        (filter (\<lambda>r. br_space r = space) (t_blob_registry (pg_db s)))))) \<and>
    store_Collect (\<lambda>cfg. snd (pg_upload_List E P space
        (list_options upload_WithListLimit upload_WithListCursor limit (Cursor cfg)) s)) =
      Some (Ok (map (upload_of P) (sort_key (\<lambda>r. collate P (ur_root r))
        (filter (\<lambda>r. ur_space r = space) (t_upload (pg_db s)))))) \<and>
    store_Collect (\<lambda>cfg. snd (pg_ListShards E P space root
        (list_options WithListShardsLimit WithListShardsCursor limit (Cursor cfg)) s)) =
      Some (Ok (map (\<lambda>r. the_cid P (sh_shard r)) (sort_key (\<lambda>r. collate P (sh_shard r))
        (filter (\<lambda>r. sh_space r = space \<and> sh_root r = cid_String P root) (t_upload_shard (pg_db s))))))"
proof -
  let ?l = "page_limit \<lparr>Cursor = None, Limit = limit\<rparr>"
  have l: "?l < MaxInt64" "pg_alloc E ?l" "0 < ?l"
    using assms(3,4) page_limit_pos by auto
  then have l': "0 < min ?l 1000" "min ?l 1000 < MaxInt64" "pg_alloc E (min ?l 1000)"
    using assms(4) by auto
  have shards: "(let limit = (if page_limit \<lparr>Cursor = c, Limit = limit\<rparr> > 1000 then 1000 else page_limit \<lparr>Cursor = c, Limit = limit\<rparr>) in f limit) =
      f (min ?l 1000)" for c and f :: "int \<Rightarrow> pg \<times> cid Page res"
    by (simp add: page_limit_any [of c] min_def)
  note blob = blob_rows.collects [OF assms(2,1) l(3,1,2), where msg = "''listing blob registry entries''"
      and iter_msg = "''iterating blob registry entries''"]
  note upload = upload_rows.collects [OF assms(2,1) l(3,1,2), where msg = "''listing uploads''" and iter_msg = "''iterating uploads''"]
  note shard = shard_rows.collects [OF assms(2,1) l', where msg = "''listing shards''" and iter_msg = "''iterating shards''"]
  show ?thesis
    unfolding pg_blob_List_def pg_upload_List_def pg_ListShards_def list_cfgs
    by (intro conjI blob upload shard) (simp_all add: page_limit_def shards)
qed

theorem pg_listings_complete_witness:
  "store_Collect (\<lambda>cfg. snd (pg_ListShards quiet sample_pg_formats ''sp'' ''r1''
     (list_options WithListShardsLimit WithListShardsCursor (Some 1) (Cursor cfg)) sample_pg)) = Some (Ok [''s1'', ''s2''])"
proof -
  have "map (\<lambda>r. the_cid sample_pg_formats (sh_shard r)) (sort_key (\<lambda>r. sh_shard r)
      (filter (\<lambda>r. sh_space r = ''sp'' \<and> sh_root r = cid_String sample_pg_formats ''r1'') (t_upload_shard (pg_db sample_pg)))) =
    [''s1'', ''s2'']"
    by code_simp
  with pg_listings_complete [OF sample_readable, of quiet "Some 1" "''sp''" "''r1''"] show ?thesis
    by (simp add: MaxInt64_def page_limit_def)
qed

text \<open>
Reading a Postgres diff log from an instant to the end, page by page, returns and gives every
change of the space behind the instant once, ordered by instant and cause, though only the first page is
asked for by the instant and the others by a cursor. This holds of both logs, for any limit for which the
slice of a page can be had, where nothing is lost and nobody else writes.
\<close>

theorem pg_logs_complete:
  assumes "readable P (pg_db s)" and "alone E"
    and "page_limit \<lparr>Cursor = None, Limit = limit\<rparr> < MaxInt64" and "pg_alloc E (page_limit \<lparr>Cursor = None, Limit = limit\<rparr>)"
    and "after \<noteq> go_zero_time"
  shows "store_Collect (\<lambda>cfg. snd (pg_spacediff_List E P space after
        (list_options spacediff_WithListLimit spacediff_WithListCursor limit (Cursor cfg)) s)) =
      Some (Ok (map (diff_of P) (sort_key (\<lambda>r. (dr_receipt_at r, collate P (dr_cause r)))
        (filter (\<lambda>r. dr_space r = space \<and> dr_receipt_at r > timestamptz P after) (t_space_diff (pg_db s)))))) \<and>
    store_Collect (\<lambda>cfg. snd (pg_uploaddiff_List E P space after
        (list_options uploaddiff_WithListLimit uploaddiff_WithListCursor limit (Cursor cfg)) s)) =
      Some (Ok (map (diff_of P) (sort_key (\<lambda>r. (dr_receipt_at r, collate P (dr_cause r)))
        (filter (\<lambda>r. dr_space r = space \<and> dr_receipt_at r > timestamptz P after) (t_upload_diff (pg_db s))))))"
proof -
  note logs = readable_logs [OF assms(1)]
  have "log_rows_after P table space after d = filter (\<lambda>r. dr_space r = space \<and> dr_receipt_at r > timestamptz P after) (table d)"
    for table d using assms(5) by (simp add: log_rows_after_def)
  with pg_log_collects [OF logs(1) assms(2-4), where space = space and after = after
      and msg = "''listing space diffs''" and iter_msg = "''iterating space diffs''"]
    pg_log_collects [OF logs(2) assms(2-4), where space = space and after = after
      and msg = "''listing upload diffs''" and iter_msg = "''iterating upload diffs''"]
  show ?thesis
    by (simp add: pg_spacediff_List_def pg_uploaddiff_List_def list_cfgs)
qed

theorem pg_logs_complete_witness:
  "store_Collect (\<lambda>cfg. snd (pg_spacediff_List quiet sample_pg_formats ''sp'' 5
     (list_options spacediff_WithListLimit spacediff_WithListCursor (Some 1) (Cursor cfg)) sample_pg)) =
   Some (Ok [\<lparr>Space = ''sp'', Cause = ''c1'', Delta = 7, ReceiptAt = 1000, InsertedAt = 0\<rparr>])"
proof -
  have "map (diff_of sample_pg_formats) (sort_key (\<lambda>r. (dr_receipt_at r, dr_cause r))
      (filter (\<lambda>r. dr_space r = ''sp'' \<and> dr_receipt_at r > timestamptz sample_pg_formats 5) (t_space_diff (pg_db sample_pg)))) =
    [\<lparr>Space = ''sp'', Cause = ''c1'', Delta = 7, ReceiptAt = 1000, InsertedAt = 0\<rparr>]"
    by code_simp
  with pg_logs_complete [OF sample_readable, of quiet "Some 1" 5 "''sp''"] show ?thesis
    by (simp add: page_limit_def MaxInt64_def go_zero_time_def)
qed

end
