(* ===== verification/Pg_Accounts.thy ===== *)
theory Pg_Accounts
  imports Pg_Lists Providers Token_Stores
begin

section \<open>Postgres stores of accounts, providers, policies, revocations and replicas\<close>

text \<open>
  The Postgres backends of the stores that keep one table each, or two: \<^verbatim>\<open>store/customer/postgres\<close>,
  \<^verbatim>\<open>store/subscription/postgres\<close>, \<^verbatim>\<open>store/consumer/postgres\<close>, \<^verbatim>\<open>store/storage_provider/postgres\<close>,
  \<^verbatim>\<open>store/routing_policy/postgres\<close>, \<^verbatim>\<open>store/revocation/postgres\<close> and \<^verbatim>\<open>store/replica/postgres\<close>. Every call is one
  statement, but for resetting a revocation, which is a transaction of two.

  Code outside the repository that only these stores use is \<open>acct_lib\<close>: the JSON form of a customer's details
  (and what a \<^verbatim>\<open>JSONB\<close> column keeps of it), parsing a URL, and the bytes of a container. A row without proofs reads
  as the nil container, which is the empty one here.
\<close>

record acct_lib =
  details_Marshal :: "(string \<rightharpoonup> any_value) \<Rightarrow> bytes res"
  details_Unmarshal :: "bytes \<Rightarrow> (string \<rightharpoonup> any_value) res"
  jsonb :: "bytes \<Rightarrow> bytes"
  url_Parse :: "string \<Rightarrow> string res"
  container_Encode :: "container \<Rightarrow> bytes res"
  container_Decode :: "bytes \<Rightarrow> container res"

text \<open>The row of a query for one, and a statement that has to find its row.\<close>

definition pg_QueryRow :: "pg_env \<Rightarrow> (database \<Rightarrow> 'r list) \<Rightarrow> gerr \<Rightarrow> string \<Rightarrow> pg \<Rightarrow> pg \<times> 'r res" where
  "pg_QueryRow E rows missing msg s =
     (case pool_Query E (\<lambda>rank d. sql_row rank (rows d)) s of
        (s, Fail e) \<Rightarrow> (s, Err (Wrap msg (sql_gerr e)))
      | (s, Done None) \<Rightarrow> (s, Err missing)
      | (s, Done (Some row)) \<Rightarrow> (s, Ok row))"

definition pg_ExecFound :: "pg_env \<Rightarrow> nat stmt \<Rightarrow> gerr \<Rightarrow> string \<Rightarrow> pg \<Rightarrow> pg \<times> unit res" where
  "pg_ExecFound E st missing msg s =
     andThenS (sql_res msg (pool_Exec E st s)) (\<lambda>affected s. (s, if affected = 0 then Err missing else Ok ()))"

subsection \<open>Customers\<close>

definition scan_customer :: "pg_formats \<Rightarrow> acct_lib \<Rightarrow> customer_row \<Rightarrow> customer_Record res" where
  "scan_customer P L r =
     andThen (wrap ''parsing customer DID'' (did_Parse P (cr_customer r))) (\<lambda>customerID.
     andThen (wrap ''parsing product DID'' (did_Parse P (cr_product r))) (\<lambda>product.
     andThen (case cr_details r of
         None \<Rightarrow> Ok Map.empty
       | Some b \<Rightarrow> (if length b > 0 then wrap ''unmarshalling details'' (details_Unmarshal L b) else Ok Map.empty)) (\<lambda>details.
       Ok \<lparr>cust_Customer = customerID, cust_ExternalAccount = cr_external_account r, cust_Product = product,
           cust_Details = details, cust_ReservedCapacity = map_option word_of_int (cr_reserved_capacity r),
           cust_InsertedAt = cr_inserted_at r,
           cust_UpdatedAt = (case cr_updated_at r of None \<Rightarrow> go_zero_time | Some t \<Rightarrow> t)\<rparr>)))"

definition pg_customer_Get :: "pg_env \<Rightarrow> pg_formats \<Rightarrow> acct_lib \<Rightarrow> did \<Rightarrow> pg \<Rightarrow> pg \<times> customer_Record res" where
  "pg_customer_Get E P L customerID s =
     andThenS (pg_QueryRow E (\<lambda>d. filter (\<lambda>r. cr_customer r = customerID) (t_customer d))
         ErrCustomerNotFound ''getting customer'' s)
       (\<lambda>row s. (s, wrap ''getting customer'' (scan_customer P L row)))"

definition customer_insert ::
  "acct_lib \<Rightarrow> did \<Rightarrow> string option \<Rightarrow> did \<Rightarrow> bytes option \<Rightarrow> int option \<Rightarrow> nat stmt" where
  "customer_insert L customerID externalAccount product detailsJSON capacity now d =
     on_table (\<lambda>t. d\<lparr>t_customer := t\<rparr>) (sql_insert cr_customer
       \<lparr>cr_customer = customerID, cr_external_account = externalAccount, cr_product = product,
        cr_details = map_option (jsonb L) detailsJSON, cr_reserved_capacity = capacity, cr_inserted_at = now,
        cr_updated_at = None\<rparr> (t_customer d))"

definition pg_customer_Add ::
  "pg_env \<Rightarrow> acct_lib \<Rightarrow> did \<Rightarrow> string option \<Rightarrow> did \<Rightarrow> (string \<rightharpoonup> any_value) \<Rightarrow> uint64 option \<Rightarrow> pg \<Rightarrow> pg \<times> unit res" where
  "pg_customer_Add E L customerID externalAccount product details reservedCapacity s =
     andThenS (s, if details \<noteq> Map.empty
         then andThen (wrap ''marshalling details'' (details_Marshal L details)) (\<lambda>b. Ok (Some b)) else Ok None)
       (\<lambda>detailsJSON s.
         andThenS (code_res uniqueViolation ErrCustomerExists ''adding customer''
             (pool_Exec E (customer_insert L customerID externalAccount product detailsJSON
                (map_option sint reservedCapacity)) s))
           (\<lambda>_ s. (s, Ok ())))"

definition pg_customer_List ::
  "pg_env \<Rightarrow> pg_formats \<Rightarrow> acct_lib \<Rightarrow> ListOption list \<Rightarrow> pg \<Rightarrow> pg \<times> customer_Record Page res" where
  "pg_customer_List E P L options s =
     (let cfg = apply_options options no_options in
      pg_List E ''listing customers'' ''listing customers'' t_customer (\<lambda>r. collate P (cr_customer r))
        (\<lambda>c. Ok (collate P c)) (scan_customer P L) cust_Customer (page_limit cfg) (Cursor cfg) s)"

definition customer_update :: "did \<Rightarrow> did \<Rightarrow> nat stmt" where
  "customer_update customerID product now d =
     on_table (\<lambda>t. d\<lparr>t_customer := t\<rparr>) (sql_update (\<lambda>r. cr_customer r = customerID)
       (\<lambda>r. r\<lparr>cr_product := product, cr_updated_at := Some now\<rparr>) (t_customer d))"

definition pg_customer_UpdateProduct :: "pg_env \<Rightarrow> did \<Rightarrow> did \<Rightarrow> pg \<Rightarrow> pg \<times> unit res" where
  "pg_customer_UpdateProduct E customerID product s =
     pg_ExecFound E (customer_update customerID product) ErrCustomerNotFound ''updating customer product'' s"

subsection \<open>Subscriptions\<close>

definition scan_subscription :: "pg_formats \<Rightarrow> subscription_row \<Rightarrow> subscription_Record res" where
  "scan_subscription P r =
     andThen (wrap ''parsing provider DID'' (did_Parse P (sr_provider r))) (\<lambda>provider.
     andThen (wrap ''parsing customer DID'' (did_Parse P (sr_customer r))) (\<lambda>customer.
     andThen (wrap ''parsing cause CID'' (cid_Parse P (sr_cause r))) (\<lambda>cause.
       Ok \<lparr>sub_Provider = provider, sub_Subscription = sr_subscription r, sub_Customer = customer, sub_Cause = cause,
           sub_InsertedAt = sr_inserted_at r\<rparr>)))"

definition subscription_key :: "subscription_row \<Rightarrow> string \<times> string" where
  "subscription_key r = (sr_subscription r, sr_provider r)"

definition subscription_insert :: "pg_formats \<Rightarrow> did \<Rightarrow> string \<Rightarrow> did \<Rightarrow> cid \<Rightarrow> nat stmt" where
  "subscription_insert P provider subscriptionID customer cause now d =
     on_table (\<lambda>t. d\<lparr>t_subscription := t\<rparr>) (sql_insert subscription_key
       \<lparr>sr_subscription = subscriptionID, sr_provider = provider, sr_customer = customer,
        sr_cause = cid_String P cause, sr_inserted_at = now\<rparr> (t_subscription d))"

definition pg_subscription_Add ::
  "pg_env \<Rightarrow> pg_formats \<Rightarrow> did \<Rightarrow> string \<Rightarrow> did \<Rightarrow> cid \<Rightarrow> pg \<Rightarrow> pg \<times> unit res" where
  "pg_subscription_Add E P provider subscriptionID customer cause s =
     andThenS (code_res uniqueViolation ErrSubscriptionExists ''adding subscription''
         (pool_Exec E (subscription_insert P provider subscriptionID customer cause) s))
       (\<lambda>_ s. (s, Ok ()))"

definition pg_subscription_Get :: "pg_env \<Rightarrow> pg_formats \<Rightarrow> did \<Rightarrow> string \<Rightarrow> pg \<Rightarrow> pg \<times> subscription_Record res" where
  "pg_subscription_Get E P provider subscriptionID s =
     andThenS (pg_QueryRow E (\<lambda>d. filter (\<lambda>r. subscription_key r = (subscriptionID, provider)) (t_subscription d))
         ErrSubscriptionNotFound ''getting subscription'' s)
       (\<lambda>row s. (s, wrap ''getting subscription'' (scan_subscription P row)))"

definition pg_ListByProviderAndCustomer ::
  "pg_env \<Rightarrow> pg_formats \<Rightarrow> did \<Rightarrow> did \<Rightarrow> ListOption list \<Rightarrow> pg \<Rightarrow> pg \<times> subscription_Record Page res" where
  "pg_ListByProviderAndCustomer E P provider customer options s =
     (let cfg = apply_options options no_options in
      pg_List E ''listing subscriptions'' ''listing subscriptions''
        (\<lambda>d. filter (\<lambda>r. sr_customer r = customer \<and> sr_provider r = provider) (t_subscription d))
        (\<lambda>r. collate P (sr_subscription r)) (\<lambda>c. Ok (collate P c)) (scan_subscription P) sub_Subscription
        (page_limit cfg) (Cursor cfg) s)"

subsection \<open>Consumers\<close>

definition scan_consumer :: "pg_formats \<Rightarrow> consumer_row \<Rightarrow> consumer_Record res" where
  "scan_consumer P r =
     andThen (wrap ''parsing provider DID'' (did_Parse P (cn_provider r))) (\<lambda>provider.
     andThen (wrap ''parsing consumer DID'' (did_Parse P (cn_consumer r))) (\<lambda>space.
     andThen (wrap ''parsing customer DID'' (did_Parse P (cn_customer r))) (\<lambda>customer.
     andThen (wrap ''parsing cause CID'' (cid_Parse P (cn_cause r))) (\<lambda>cause.
       Ok \<lparr>con_Provider = provider, con_Consumer = space, con_Customer = customer,
           con_Subscription = cn_subscription r, con_Cause = cause\<rparr>))))"

definition consumer_row_key :: "consumer_row \<Rightarrow> string \<times> string" where
  "consumer_row_key r = (cn_subscription r, cn_provider r)"

definition consumer_insert :: "pg_formats \<Rightarrow> did \<Rightarrow> did \<Rightarrow> did \<Rightarrow> string \<Rightarrow> cid \<Rightarrow> nat stmt" where
  "consumer_insert P provider space customer subscription cause now d =
     on_table (\<lambda>t. d\<lparr>t_consumer := t\<rparr>) (sql_insert consumer_row_key
       \<lparr>cn_subscription = subscription, cn_provider = provider, cn_consumer = space, cn_customer = customer,
        cn_cause = cid_String P cause, cn_inserted_at = now\<rparr> (t_consumer d))"

definition pg_consumer_Add ::
  "pg_env \<Rightarrow> pg_formats \<Rightarrow> did \<Rightarrow> did \<Rightarrow> did \<Rightarrow> string \<Rightarrow> cid \<Rightarrow> pg \<Rightarrow> pg \<times> unit res" where
  "pg_consumer_Add E P provider space customer subscription cause s =
     andThenS (code_res uniqueViolation ErrConsumerExists ''adding consumer''
         (pool_Exec E (consumer_insert P provider space customer subscription cause) s))
       (\<lambda>_ s. (s, Ok ()))"

definition pg_consumer_Get :: "pg_env \<Rightarrow> pg_formats \<Rightarrow> did \<Rightarrow> did \<Rightarrow> pg \<Rightarrow> pg \<times> consumer_Record res" where
  "pg_consumer_Get E P provider space s =
     andThenS (pg_QueryRow E (\<lambda>d. filter (\<lambda>r. cn_consumer r = space \<and> cn_provider r = provider) (t_consumer d))
         ErrConsumerNotFound ''getting consumer'' s)
       (\<lambda>row s. (s, wrap ''getting consumer'' (scan_consumer P row)))"

definition pg_GetBySubscription :: "pg_env \<Rightarrow> pg_formats \<Rightarrow> did \<Rightarrow> string \<Rightarrow> pg \<Rightarrow> pg \<times> consumer_Record res" where
  "pg_GetBySubscription E P provider subscription s =
     andThenS (pg_QueryRow E (\<lambda>d. filter (\<lambda>r. consumer_row_key r = (subscription, provider)) (t_consumer d))
         ErrConsumerNotFound ''getting consumer by subscription'' s)
       (\<lambda>row s. (s, wrap ''getting consumer by subscription'' (scan_consumer P row)))"

definition joinCursor :: "string \<Rightarrow> string \<Rightarrow> string" where
  "joinCursor provider subscription = provider @ ''|'' @ subscription"

text \<open>\<^verbatim>\<open>strings.SplitN(cursor, "|", 2)\<close>.\<close>

definition splitCursor :: "string \<Rightarrow> (string \<times> string) res" where
  "splitCursor cursor =
     (case dropWhile (\<lambda>x. x \<noteq> CHR ''|'') cursor of
        [] \<Rightarrow> Err (Errorf ''malformed cursor'')
      | _ # rest \<Rightarrow> Ok (takeWhile (\<lambda>x. x \<noteq> CHR ''|'') cursor, rest))"

definition listByColumn ::
  "pg_env \<Rightarrow> pg_formats \<Rightarrow> (consumer_row \<Rightarrow> string) \<Rightarrow> string \<Rightarrow> PaginationConfig \<Rightarrow> pg \<Rightarrow> pg \<times> consumer_Record Page res" where
  "listByColumn E P column v cfg s =
     pg_List E ''listing consumers'' ''listing consumers'' (\<lambda>d. filter (\<lambda>r. column r = v) (t_consumer d))
       (\<lambda>r. (collate P (cn_provider r), collate P (cn_subscription r)))
       (\<lambda>c. andThen (splitCursor c) (\<lambda>(provider, subscription). Ok (collate P provider, collate P subscription)))
       (scan_consumer P) (\<lambda>rec. joinCursor (con_Provider rec) (con_Subscription rec)) (page_limit cfg) (Cursor cfg) s"

definition pg_consumer_List ::
  "pg_env \<Rightarrow> pg_formats \<Rightarrow> did \<Rightarrow> ListOption list \<Rightarrow> pg \<Rightarrow> pg \<times> consumer_Record Page res" where
  "pg_consumer_List E P space options s = listByColumn E P cn_consumer space (apply_options options no_options) s"

definition pg_ListByCustomer ::
  "pg_env \<Rightarrow> pg_formats \<Rightarrow> did \<Rightarrow> ListOption list \<Rightarrow> pg \<Rightarrow> pg \<times> consumer_Record Page res" where
  "pg_ListByCustomer E P customer options s = listByColumn E P cn_customer customer (apply_options options no_options) s"

subsection \<open>Storage providers\<close>

definition nil_container :: container where
  "nil_container = \<lparr>Invocations = [], Delegations = [], Receipts = []\<rparr>"

definition scan_provider :: "pg_formats \<Rightarrow> acct_lib \<Rightarrow> provider_row \<Rightarrow> provider_Record res" where
  "scan_provider P L r =
     andThen (wrap ''parsing provider DID'' (did_Parse P (pr_provider r))) (\<lambda>provider.
     andThen (wrap ''parsing endpoint URL'' (url_Parse L (pr_endpoint r))) (\<lambda>endpoint.
     andThen (case pr_proofs r of
         None \<Rightarrow> Ok nil_container
       | Some b \<Rightarrow> (if length b > 0 then wrap ''decoding proofs'' (container_Decode L b) else Ok nil_container)) (\<lambda>proofs.
       Ok \<lparr>sp_Provider = provider, sp_Endpoint = endpoint, sp_Weight = pr_weight r,
           sp_ReplicationWeight = pr_replication_weight r, sp_Proofs = proofs, sp_InsertedAt = pr_inserted_at r,
           sp_UpdatedAt = pr_updated_at r\<rparr>)))"

text \<open>The two weights are encoded as 32-bit integers, which fails before the statement is sent.\<close>

definition int4_weights :: "int \<Rightarrow> int option \<Rightarrow> (int \<times> int option) sql" where
  "int4_weights w rw = sql_bind (integer4 w) (\<lambda>w.
     case rw of None \<Rightarrow> Done (w, None) | Some x \<Rightarrow> sql_bind (integer4 x) (\<lambda>x. Done (w, Some x)))"

definition provider_insert :: "did \<Rightarrow> string \<Rightarrow> int \<Rightarrow> int option \<Rightarrow> bytes \<Rightarrow> nat stmt" where
  "provider_insert i endpoint weight replicationWeight proofBytes now d =
     sql_bind (int4_weights weight replicationWeight) (\<lambda>(w, rw).
       on_table (\<lambda>t. d\<lparr>t_storage_provider := t\<rparr>) (sql_insert_nothing pr_provider
         \<lparr>pr_provider = i, pr_endpoint = endpoint, pr_weight = w, pr_replication_weight = rw,
          pr_proofs = Some proofBytes, pr_inserted_at = now, pr_updated_at = now\<rparr> (t_storage_provider d)))"

definition pg_sp_Add ::
  "pg_env \<Rightarrow> acct_lib \<Rightarrow> did \<Rightarrow> string \<Rightarrow> int \<Rightarrow> int option \<Rightarrow> container option \<Rightarrow> pg \<Rightarrow> pg \<times> unit res" where
  "pg_sp_Add E L i endpoint weight replicationWeight proofs s =
     (case proofs of
        None \<Rightarrow> (s, Err (Errorf ''missing proofs''))
      | Some proofs \<Rightarrow>
          andThenS (s, wrap ''encoding proofs'' (container_Encode L proofs)) (\<lambda>proofBytes s.
            pg_ExecFound E (provider_insert i endpoint weight replicationWeight proofBytes)
              ErrStorageProviderExists ''adding storage provider'' s))"

definition provider_update :: "did \<Rightarrow> (time \<Rightarrow> provider_row \<Rightarrow> provider_row) \<Rightarrow> nat stmt" where
  "provider_update i upd now d =
     on_table (\<lambda>t. d\<lparr>t_storage_provider := t\<rparr>)
       (sql_update (\<lambda>r. pr_provider r = i) (\<lambda>r. (upd now r)\<lparr>pr_updated_at := now\<rparr>) (t_storage_provider d))"

definition weights_update :: "did \<Rightarrow> int \<Rightarrow> int option \<Rightarrow> nat stmt" where
  "weights_update i weight replicationWeight now d =
     sql_bind (int4_weights weight replicationWeight) (\<lambda>(w, rw).
       provider_update i (\<lambda>_ r. r\<lparr>pr_weight := w, pr_replication_weight := rw\<rparr>) now d)"

definition pg_sp_SetWeights :: "pg_env \<Rightarrow> did \<Rightarrow> int \<Rightarrow> int option \<Rightarrow> pg \<Rightarrow> pg \<times> unit res" where
  "pg_sp_SetWeights E i weight replicationWeight s =
     pg_ExecFound E (weights_update i weight replicationWeight) ErrStorageProviderNotFound
       ''setting storage provider weights'' s"

definition pg_sp_SetProofs :: "pg_env \<Rightarrow> acct_lib \<Rightarrow> did \<Rightarrow> container option \<Rightarrow> pg \<Rightarrow> pg \<times> unit res" where
  "pg_sp_SetProofs E L i proofs s =
     (case proofs of
        None \<Rightarrow> (s, Err (Errorf ''missing proofs''))
      | Some proofs \<Rightarrow>
          andThenS (s, wrap ''encoding proofs'' (container_Encode L proofs)) (\<lambda>proofBytes s.
            pg_ExecFound E (provider_update i (\<lambda>_ r. r\<lparr>pr_proofs := Some proofBytes\<rparr>)) ErrStorageProviderNotFound
              ''setting storage provider proofs'' s))"

definition pg_sp_Get :: "pg_env \<Rightarrow> pg_formats \<Rightarrow> acct_lib \<Rightarrow> did \<Rightarrow> pg \<Rightarrow> pg \<times> provider_Record res" where
  "pg_sp_Get E P L providerID s =
     andThenS (pg_QueryRow E (\<lambda>d. filter (\<lambda>r. pr_provider r = providerID) (t_storage_provider d))
         ErrStorageProviderNotFound ''getting storage provider'' s)
       (\<lambda>row s. (s, wrap ''getting storage provider'' (scan_provider P L row)))"

definition provider_delete :: "did \<Rightarrow> nat stmt" where
  "provider_delete providerID now d =
     on_table (\<lambda>t. d\<lparr>t_storage_provider := t\<rparr>) (sql_delete (\<lambda>r. pr_provider r = providerID) (t_storage_provider d))"

definition pg_sp_Delete :: "pg_env \<Rightarrow> did \<Rightarrow> pg \<Rightarrow> pg \<times> unit res" where
  "pg_sp_Delete E providerID s =
     pg_ExecFound E (provider_delete providerID) ErrStorageProviderNotFound ''deleting storage provider'' s"

definition pg_sp_List ::
  "pg_env \<Rightarrow> pg_formats \<Rightarrow> acct_lib \<Rightarrow> ListOption list \<Rightarrow> pg \<Rightarrow> pg \<times> provider_Record Page res" where
  "pg_sp_List E P L options s =
     (let cfg = apply_options options no_options in
      pg_List E ''listing storage providers'' ''listing storage providers'' t_storage_provider
        (\<lambda>r. collate P (pr_provider r)) (\<lambda>c. Ok (collate P c)) (scan_provider P L) sp_Provider
        (page_limit cfg) (Cursor cfg) s)"

subsection \<open>Routing policies\<close>

definition policy_upsert :: "pg_formats \<Rightarrow> did \<Rightarrow> did list \<Rightarrow> cid \<Rightarrow> nat stmt" where
  "policy_upsert P policy strs cause now d =
     on_table (\<lambda>t. d\<lparr>t_routing_policy := t\<rparr>) (sql_bind (sql_upsert po_policy
         (\<lambda>old. Done (old\<lparr>po_candidates := strs, po_cause := cid_String P cause, po_updated_at := now\<rparr>))
         \<lparr>po_policy = policy, po_candidates = strs, po_cause = cid_String P cause, po_inserted_at = now,
          po_updated_at = now\<rparr> (t_routing_policy d))
       (\<lambda>(t, _). Done (t, 1)))"

definition pg_SetCandidates :: "pg_env \<Rightarrow> pg_formats \<Rightarrow> did \<Rightarrow> did list \<Rightarrow> cid \<Rightarrow> pg \<Rightarrow> pg \<times> unit res" where
  "pg_SetCandidates E P policy candidates cause s =
     (if length candidates = 0 then (s, Err (Errorf ''missing candidates''))
      else andThenS (sql_res ''storing routing policy'' (pool_Exec E (policy_upsert P policy candidates cause) s))
        (\<lambda>_ s. (s, Ok ())))"

definition scan_policy :: "pg_formats \<Rightarrow> policy_row \<Rightarrow> PolicyRecord res" where
  "scan_policy P r =
     andThen (wrap ''parsing policy DID'' (did_Parse P (po_policy r))) (\<lambda>policy.
     andThen (scan_rows (\<lambda>c. wrap ''parsing candidate DID'' (did_Parse P c)) (po_candidates r)) (\<lambda>dids.
     andThen (wrap ''parsing cause CID'' (cid_Parse P (po_cause r))) (\<lambda>cause.
       Ok \<lparr>pol_Policy = policy, pol_Candidates = dids, pol_Cause = cause, pol_InsertedAt = po_inserted_at r,
           pol_UpdatedAt = po_updated_at r\<rparr>)))"

definition pg_GetPolicy :: "pg_env \<Rightarrow> pg_formats \<Rightarrow> did \<Rightarrow> pg \<Rightarrow> pg \<times> PolicyRecord res" where
  "pg_GetPolicy E P policy s =
     andThenS (pg_QueryRow E (\<lambda>d. filter (\<lambda>r. po_policy r = policy) (t_routing_policy d))
         ErrPolicyNotFound ''getting routing policy'' s)
       (\<lambda>row s. (s, scan_policy P row))"

text \<open>The policy a space refers to has to exist (\<^verbatim>\<open>REFERENCES routing_policy\<close>).\<close>

definition space_routing_upsert :: "pg_formats \<Rightarrow> did \<Rightarrow> did \<Rightarrow> cid \<Rightarrow> nat stmt" where
  "space_routing_upsert P space policy cause now d =
     (if policy \<notin> po_policy ` set (t_routing_policy d) then Fail (PgError foreignKeyViolation)
      else on_table (\<lambda>t. d\<lparr>t_space_routing := t\<rparr>) (sql_bind (sql_upsert so_space
          (\<lambda>old. Done (old\<lparr>so_policy := policy, so_cause := cid_String P cause, so_updated_at := now\<rparr>))
          \<lparr>so_space = space, so_policy = policy, so_cause = cid_String P cause, so_inserted_at = now,
           so_updated_at = now\<rparr> (t_space_routing d))
        (\<lambda>(t, _). Done (t, 1))))"

definition pg_SetSpacePolicy :: "pg_env \<Rightarrow> pg_formats \<Rightarrow> did \<Rightarrow> did \<Rightarrow> cid \<Rightarrow> pg \<Rightarrow> pg \<times> unit res" where
  "pg_SetSpacePolicy E P space policy cause s =
     andThenS (code_res foreignKeyViolation ErrPolicyNotFound ''storing space routing policy''
         (pool_Exec E (space_routing_upsert P space policy cause) s))
       (\<lambda>_ s. (s, Ok ()))"

definition space_routing_delete :: "did \<Rightarrow> nat stmt" where
  "space_routing_delete space now d =
     on_table (\<lambda>t. d\<lparr>t_space_routing := t\<rparr>) (sql_delete (\<lambda>r. so_space r = space) (t_space_routing d))"

definition pg_ClearSpacePolicy :: "pg_env \<Rightarrow> did \<Rightarrow> pg \<Rightarrow> pg \<times> unit res" where
  "pg_ClearSpacePolicy E space s =
     andThenS (sql_res ''clearing space routing policy'' (pool_Exec E (space_routing_delete space) s)) (\<lambda>_ s. (s, Ok ()))"

definition scan_space_policy :: "pg_formats \<Rightarrow> space_routing_row \<Rightarrow> SpaceRecord res" where
  "scan_space_policy P r =
     andThen (wrap ''parsing space DID'' (did_Parse P (so_space r))) (\<lambda>space.
     andThen (wrap ''parsing policy DID'' (did_Parse P (so_policy r))) (\<lambda>policy.
     andThen (wrap ''parsing cause CID'' (cid_Parse P (so_cause r))) (\<lambda>cause.
       Ok \<lparr>spol_Space = space, spol_Policy = policy, spol_Cause = cause, spol_InsertedAt = so_inserted_at r,
           spol_UpdatedAt = so_updated_at r\<rparr>)))"

definition pg_GetSpacePolicy :: "pg_env \<Rightarrow> pg_formats \<Rightarrow> did \<Rightarrow> pg \<Rightarrow> pg \<times> SpaceRecord res" where
  "pg_GetSpacePolicy E P space s =
     andThenS (pg_QueryRow E (\<lambda>d. filter (\<lambda>r. so_space r = space) (t_space_routing d))
         ErrSpacePolicyNotFound ''getting space routing policy'' s)
       (\<lambda>row s. (s, scan_space_policy P row))"

subsection \<open>Revocations\<close>

definition revocation_key :: "revocation_row \<Rightarrow> string \<times> string" where
  "revocation_key r = (rv_revoke r, rv_scope r)"

definition revocation_row_of :: "pg_formats \<Rightarrow> cid \<Rightarrow> did \<Rightarrow> cid \<Rightarrow> time \<Rightarrow> revocation_row" where
  "revocation_row_of P delegation scope cause now = \<lparr>rv_revoke = cid_String P delegation, rv_scope = scope,
     rv_cause = cid_String P cause, rv_inserted_at = now\<rparr>"

definition revocation_add :: "pg_formats \<Rightarrow> cid \<Rightarrow> did \<Rightarrow> cid \<Rightarrow> nat stmt" where
  "revocation_add P delegation scope cause now d =
     on_table (\<lambda>t. d\<lparr>t_revocation := t\<rparr>)
       (sql_insert_nothing revocation_key (revocation_row_of P delegation scope cause now) (t_revocation d))"

definition pg_revocation_Add :: "pg_env \<Rightarrow> pg_formats \<Rightarrow> cid \<Rightarrow> did \<Rightarrow> cid \<Rightarrow> pg \<Rightarrow> pg \<times> unit res" where
  "pg_revocation_Add E P delegation scope cause s =
     andThenS (sql_res ''adding revocation'' (pool_Exec E (revocation_add P delegation scope cause) s)) (\<lambda>_ s. (s, Ok ()))"

definition revocation_clear :: "pg_formats \<Rightarrow> cid \<Rightarrow> nat stmt" where
  "revocation_clear P delegation now d =
     on_table (\<lambda>t. d\<lparr>t_revocation := t\<rparr>) (sql_delete (\<lambda>r. rv_revoke r = cid_String P delegation) (t_revocation d))"

definition revocation_insert :: "pg_formats \<Rightarrow> cid \<Rightarrow> did \<Rightarrow> cid \<Rightarrow> nat stmt" where
  "revocation_insert P delegation scope cause now d =
     on_table (\<lambda>t. d\<lparr>t_revocation := t\<rparr>)
       (sql_insert revocation_key (revocation_row_of P delegation scope cause now) (t_revocation d))"

definition pg_revocation_Reset :: "pg_env \<Rightarrow> pg_formats \<Rightarrow> cid \<Rightarrow> did \<Rightarrow> cid \<Rightarrow> pg \<Rightarrow> pg \<times> unit res" where
  "pg_revocation_Reset E P delegation scope cause s =
     with_tx E ''committing revocation reset'' (\<lambda>tx.
       andThenS (sql_res ''clearing revocation'' (tx_Exec E (revocation_clear P delegation) tx)) (\<lambda>_ tx.
       andThenS (sql_res ''inserting revocation'' (tx_Exec E (revocation_insert P delegation scope cause) tx)) (\<lambda>_ tx.
         (tx, Ok ())))) s"

primrec note_revocations :: "pg_formats \<Rightarrow> revocation_row list \<Rightarrow> revocation_store \<Rightarrow> revocation_store res" where
  "note_revocations P [] result = Ok result"
| "note_revocations P (r # rows) result =
     andThen (wrap ''parsing delegation CID'' (cid_Parse P (rv_revoke r))) (\<lambda>dlg.
     andThen (wrap ''parsing scope DID'' (did_Parse P (rv_scope r))) (\<lambda>scope.
     andThen (wrap ''parsing cause CID'' (cid_Parse P (rv_cause r))) (\<lambda>cause.
       note_revocations P rows (result(dlg \<mapsto>
         (case result dlg of None \<Rightarrow> Map.empty | Some scopes \<Rightarrow> scopes)(scope \<mapsto> cause))))))"

definition pg_revocation_Find :: "pg_env \<Rightarrow> pg_formats \<Rightarrow> cid list \<Rightarrow> pg \<Rightarrow> pg \<times> revocation_store res" where
  "pg_revocation_Find E P delegations s =
     (if length delegations = 0 then (s, Ok Map.empty)
      else
        andThenS (rows_res ''finding revocations'' ''iterating revocations''
            (pool_Query E (\<lambda>rank d. sql_unordered rank
               (filter (\<lambda>r. rv_revoke r \<in> cid_String P ` set delegations) (t_revocation d))) s))
          (\<lambda>rows s. (s, note_revocations P rows Map.empty)))"

subsection \<open>Replicas\<close>

definition replica_key :: "replica_row \<Rightarrow> string \<times> string \<times> string" where
  "replica_key r = (rr_space r, rr_digest r, rr_provider r)"

definition replica_insert ::
  "pg_formats \<Rightarrow> did \<Rightarrow> multihash \<Rightarrow> did \<Rightarrow> ReplicationStatus \<Rightarrow> cid \<Rightarrow> nat stmt" where
  "replica_insert P space digest provider status cause now d =
     on_table (\<lambda>t. d\<lparr>t_replica := t\<rparr>) (sql_insert replica_key
       \<lparr>rr_space = space, rr_digest = digest_Format P digest, rr_provider = provider,
        rr_status = ReplicationStatus_String status, rr_cause = cid_String P cause, rr_inserted_at = now,
        rr_updated_at = now\<rparr> (t_replica d))"

definition pg_replica_Add ::
  "pg_env \<Rightarrow> pg_formats \<Rightarrow> did \<Rightarrow> multihash \<Rightarrow> did \<Rightarrow> ReplicationStatus \<Rightarrow> cid \<Rightarrow> pg \<Rightarrow> pg \<times> unit res" where
  "pg_replica_Add E P space digest provider status cause s =
     andThenS (code_res uniqueViolation ErrReplicaExists ''adding replica''
         (pool_Exec E (replica_insert P space digest provider status cause) s))
       (\<lambda>_ s. (s, Ok ()))"

definition parseStatus :: "string \<Rightarrow> ReplicationStatus res" where
  "parseStatus x =
     (if x = ReplicationStatus_String Allocated then Ok Allocated
      else if x = ReplicationStatus_String Transferred then Ok Transferred
      else if x = ReplicationStatus_String Failed then Ok Failed
      else Err (Errorf ''unknown replication status''))"

definition scan_replica :: "pg_formats \<Rightarrow> replica_row \<Rightarrow> replica_Record res" where
  "scan_replica P r =
     andThen (wrap ''parsing space DID'' (did_Parse P (rr_space r))) (\<lambda>space.
     andThen (wrap ''parsing digest'' (digest_Parse P (rr_digest r))) (\<lambda>digest.
     andThen (wrap ''parsing provider DID'' (did_Parse P (rr_provider r))) (\<lambda>provider.
     andThen (parseStatus (rr_status r)) (\<lambda>status.
     andThen (wrap ''parsing cause CID'' (cid_Parse P (rr_cause r))) (\<lambda>cause.
       Ok \<lparr>rep_Space = space, rep_Digest = digest, rep_Provider = provider, rep_Status = status, rep_Cause = cause,
           rep_CreatedAt = rr_inserted_at r, rep_UpdatedAt = rr_updated_at r\<rparr>)))))"

definition pg_replica_List :: "pg_env \<Rightarrow> pg_formats \<Rightarrow> did \<Rightarrow> multihash \<Rightarrow> pg \<Rightarrow> pg \<times> replica_Record list res" where
  "pg_replica_List E P space digest s =
     andThenS (rows_res ''listing replicas'' ''iterating replicas''
         (pool_Query E (\<lambda>_ d. sort_key (\<lambda>r. collate P (rr_provider r))
            (filter (\<lambda>r. rr_space r = space \<and> rr_digest r = digest_Format P digest) (t_replica d))) s))
       (\<lambda>rows s. (s, scan_rows (scan_replica P) rows))"

definition replica_update ::
  "pg_formats \<Rightarrow> did \<Rightarrow> multihash \<Rightarrow> did \<Rightarrow> (replica_row \<Rightarrow> replica_row) \<Rightarrow> nat stmt" where
  "replica_update P space digest provider upd now d =
     on_table (\<lambda>t. d\<lparr>t_replica := t\<rparr>) (sql_update (\<lambda>r. replica_key r = (space, digest_Format P digest, provider))
       (\<lambda>r. (upd r)\<lparr>rr_updated_at := now\<rparr>) (t_replica d))"

definition pg_replica_Retry ::
  "pg_env \<Rightarrow> pg_formats \<Rightarrow> did \<Rightarrow> multihash \<Rightarrow> did \<Rightarrow> ReplicationStatus \<Rightarrow> cid \<Rightarrow> pg \<Rightarrow> pg \<times> unit res" where
  "pg_replica_Retry E P space digest provider status cause s =
     pg_ExecFound E (replica_update P space digest provider
         (\<lambda>r. r\<lparr>rr_status := ReplicationStatus_String status, rr_cause := cid_String P cause\<rparr>))
       ErrReplicaNotFound ''retrying replica'' s"

definition pg_replica_SetStatus ::
  "pg_env \<Rightarrow> pg_formats \<Rightarrow> did \<Rightarrow> multihash \<Rightarrow> did \<Rightarrow> ReplicationStatus \<Rightarrow> pg \<Rightarrow> pg \<times> unit res" where
  "pg_replica_SetStatus E P space digest provider status s =
     pg_ExecFound E (replica_update P space digest provider (\<lambda>r. r\<lparr>rr_status := ReplicationStatus_String status\<rparr>))
       ErrReplicaNotFound ''setting replica status'' s"

end
