(* ===== verification/Pg_Stores.thy ===== *)
theory Pg_Stores
  imports Pg_Accounts
begin

section \<open>The Postgres account stores implement the in-memory ones\<close>

text \<open>
  Each write of the stores in \<open>Pg_Accounts\<close> is a step of its in-memory counterpart. A relation ties a database to
  a store in memory: the view of a table is the map from keys to the records that the code reads from its rows.
  \<open>simulates\<close> says of a call what is left of it where requests and answers are lost: it is the whole step or none
  of it, success is reported only where the step was made and succeeded, and where nothing is lost the call is
  the step, errors included.
\<close>

subsection \<open>Views of tables\<close>

definition ok_of :: "'a res \<Rightarrow> 'a option" where
  "ok_of r = (case r of Ok x \<Rightarrow> Some x | _ \<Rightarrow> None)"

lemma ok_of_simps [simp]: "ok_of (Ok x) = Some x" "ok_of (Err e) = None" "ok_of Panic = None"
  by (simp_all add: ok_of_def)

definition table_view :: "('r \<Rightarrow> 'k) \<Rightarrow> ('r \<Rightarrow> 'a res) \<Rightarrow> 'r list \<Rightarrow> 'k \<rightharpoonup> 'a" where
  "table_view key scan t k = Option.bind (find (\<lambda>r. key r = k) t) (\<lambda>r. ok_of (scan r))"

definition table_ok :: "('r \<Rightarrow> 'k) \<Rightarrow> ('r \<Rightarrow> 'a res) \<Rightarrow> 'r list \<Rightarrow> bool" where
  "table_ok key scan t \<longleftrightarrow> distinct (map key t) \<and> list_all (\<lambda>r. is_Ok (scan r)) t"

lemma table_ok_Nil [simp]: "table_ok key scan []"
  by (simp add: table_ok_def)

lemma table_ok_find:
  assumes "table_ok key scan t" and "find (\<lambda>r. key r = k) t = Some r"
  obtains x where "scan r = Ok x" and "table_view key scan t k = Some x"
proof -
  have "r \<in> set t" using find_SomeD [OF assms(2)] by simp
  with assms(1) have "is_Ok (scan r)" by (simp add: table_ok_def list_all_iff)
  then show thesis using that assms(2) by (cases "scan r") (simp_all add: table_view_def)
qed

lemma table_view_None:
  assumes "table_ok key scan t"
  shows "table_view key scan t k = None \<longleftrightarrow> k \<notin> key ` set t"
proof (cases "find (\<lambda>r. key r = k) t")
  case None
  moreover from None have "k \<notin> key ` set t" by (simp add: find_None_key)
  ultimately show ?thesis by (simp add: table_view_def)
next
  case (Some r)
  with find_SomeD [OF Some] show ?thesis
    by (elim table_ok_find [OF assms]) auto
qed

lemma table_insert:
  assumes "table_ok key scan t" and "key row \<notin> key ` set t" and "scan row = Ok x"
  shows "table_ok key scan (t @ [row])" and "table_view key scan (t @ [row]) = (table_view key scan t)(key row \<mapsto> x)"
proof -
  show "table_ok key scan (t @ [row])"
    using assms by (auto simp: table_ok_def)
  have "find (\<lambda>r. key r = key row) t = None"
    using assms(2) by (simp add: find_None_key)
  with assms(3) show "table_view key scan (t @ [row]) = (table_view key scan t)(key row \<mapsto> x)"
    by (auto simp: table_view_def find_append_key fun_eq_iff split: option.split)
qed

lemma table_update:
  assumes "table_ok key scan t" and keep: "\<And>r. key (upd r) = key r"
    and scan: "\<And>r x. scan r = Ok x \<Longrightarrow> scan (upd r) = Ok (f x)"
  shows "table_ok key scan (map (\<lambda>r. if key r = k then upd r else r) t)"
    and "table_view key scan (map (\<lambda>r. if key r = k then upd r else r) t) =
      (table_view key scan t)(k := map_option f (table_view key scan t k))"
proof -
  have "map key (map (\<lambda>r. if key r = k then upd r else r) t) = map key t"
    by (simp add: keep)
  moreover have "is_Ok (scan (upd r))" if "is_Ok (scan r)" for r
    using that scan [of r] by (cases "scan r") auto
  ultimately show "table_ok key scan (map (\<lambda>r. if key r = k then upd r else r) t)"
    using assms(1) by (auto simp: table_ok_def list_all_iff simp del: map_map map_eq_conv)
  have at: "find (\<lambda>r. key r = k') (map (\<lambda>r. if key r = k then upd r else r) t) =
      (if k' = k then map_option upd (find (\<lambda>r. key r = k) t) else find (\<lambda>r. key r = k') t)" for k'
    by (rule find_map_key) (simp add: keep)
  have "table_view key scan (map (\<lambda>r. if key r = k then upd r else r) t) k' =
      ((table_view key scan t)(k := map_option f (table_view key scan t k))) k'" for k'
  proof (cases "find (\<lambda>r. key r = k) t")
    case None
    then show ?thesis by (simp add: table_view_def at)
  next
    case (Some r)
    then obtain x where "scan r = Ok x" by (rule table_ok_find [OF assms(1)])
    with Some show ?thesis by (simp add: table_view_def at scan)
  qed
  then show "table_view key scan (map (\<lambda>r. if key r = k then upd r else r) t) =
      (table_view key scan t)(k := map_option f (table_view key scan t k))" ..
qed

lemma table_delete:
  assumes "table_ok key scan t"
  shows "table_ok key scan (filter (\<lambda>r. key r \<noteq> k) t)"
    and "table_view key scan (filter (\<lambda>r. key r \<noteq> k) t) = (table_view key scan t)(k := None)"
proof -
  show "table_ok key scan (filter (\<lambda>r. key r \<noteq> k) t)"
    using assms by (simp add: table_ok_def distinct_map_filter list_all_iff)
  have "find (\<lambda>r. key r = k') (filter (\<lambda>r. key r \<noteq> k) t) = (if k' = k then None else find (\<lambda>r. key r = k') t)" for k'
    by (induction t) auto
  then show "table_view key scan (filter (\<lambda>r. key r \<noteq> k) t) = (table_view key scan t)(k := None)"
    by (simp add: table_view_def fun_eq_iff)
qed

text \<open>An upsert that changes what it finds: the update of a row that is there, an insertion otherwise.\<close>

lemma table_upsert:
  assumes ok: "table_ok key scan t" and up: "sql_upsert key (\<lambda>r. Done (upd r)) row t = Done (t', ins)"
    and keep: "\<And>r. key (upd r) = key r" and row: "scan row = Ok x" and scan: "\<And>r x. scan r = Ok x \<Longrightarrow> scan (upd r) = Ok (f x)"
  shows "table_ok key scan t'" and "table_view key scan t' = (table_view key scan t)(key row \<mapsto>
      (case table_view key scan t (key row) of None \<Rightarrow> x | Some old \<Rightarrow> f old))"
    and "key ` set t' = insert (key row) (key ` set t)"
proof -
  have "table_ok key scan t' \<and> table_view key scan t' = (table_view key scan t)(key row \<mapsto>
      (case table_view key scan t (key row) of None \<Rightarrow> x | Some old \<Rightarrow> f old)) \<and> key ` set t' = insert (key row) (key ` set t)"
  proof (cases "find (\<lambda>r. key r = key row) t")
    case None
    then have new: "key row \<notin> key ` set t" by (simp add: find_None_key)
    with table_view_None [OF ok] have "table_view key scan t (key row) = None" by simp
    with None up table_insert [OF ok new row] show ?thesis
      by (auto simp: sql_upsert_def)
  next
    case (Some old)
    obtain y where y: "scan old = Ok y" "table_view key scan t (key row) = Some y"
      by (rule table_ok_find [OF ok Some])
    have "r = old" if "r \<in> set t" "key r = key row" for r
      using that ok find_SomeD [OF Some] by (auto simp: table_ok_def distinct_map inj_on_def)
    then have t': "t' = map (\<lambda>r. if key r = key row then upd r else r) t"
      using Some up by (auto simp: sql_upsert_def)
    then have "map key t' = map key t"
      by (simp add: keep)
    then have "key ` set t' = key ` set t"
      by (metis list.set_map)
    moreover have "key row \<in> key ` set t"
      using find_SomeD [OF Some] by (auto intro: rev_image_eqI)
    moreover note table_update [OF ok, of upd f "key row", OF keep scan, folded t']
    ultimately show ?thesis
      using y(2) by (simp add: insert_absorb)
  qed
  then show "table_ok key scan t'" "table_view key scan t' = (table_view key scan t)(key row \<mapsto>
      (case table_view key scan t (key row) of None \<Rightarrow> x | Some old \<Rightarrow> f old))"
    "key ` set t' = insert (key row) (key ` set t)"
    by blast+
qed

subsection \<open>Calls that are steps\<close>

definition simulates ::
  "(database \<Rightarrow> 'm \<Rightarrow> bool) \<Rightarrow> (time \<Rightarrow> 'm \<Rightarrow> 'm \<times> unit res) \<Rightarrow> pg_env \<Rightarrow> (pg \<Rightarrow> pg \<times> unit res) \<Rightarrow> pg \<Rightarrow> bool" where
  "simulates R step E call s \<longleftrightarrow> (\<forall>m. R (pg_seen E s) m \<longrightarrow>
     (case (call s, step (pg_now E (pg_sent s)) m) of ((s', r), (m', r')) \<Rightarrow>
        (R (pg_db s') m \<and> r \<noteq> Ok () \<or> R (pg_db s') m') \<and> (r = Ok () \<longrightarrow> R (pg_db s') m' \<and> r' = Ok ()) \<and>
        (fault_free E \<longrightarrow> R (pg_db s') m' \<and> r = r')))"

text \<open>What the calls make of the answer to their statement.\<close>

definition plain_answer :: "string \<Rightarrow> nat sql \<Rightarrow> unit res" where
  "plain_answer msg q = (case q of Done _ \<Rightarrow> Ok () | Fail e \<Rightarrow> Err (Wrap msg (sql_gerr e)))"

definition code_answer :: "string \<Rightarrow> gerr \<Rightarrow> string \<Rightarrow> nat sql \<Rightarrow> unit res" where
  "code_answer code err msg q = (case q of Done _ \<Rightarrow> Ok ()
     | Fail e \<Rightarrow> (if e = PgError code then Err err else Err (Wrap msg (sql_gerr e))))"

definition found_answer :: "gerr \<Rightarrow> string \<Rightarrow> nat sql \<Rightarrow> unit res" where
  "found_answer missing msg q = (case q of Done n \<Rightarrow> (if n = 0 then Err missing else Ok ())
     | Fail e \<Rightarrow> Err (Wrap msg (sql_gerr e)))"

lemmas answer_defs = plain_answer_def code_answer_def found_answer_def

lemma calls_answer:
  "andThenS (sql_res msg (pool_Exec E st s)) (\<lambda>_ s. (s, Ok ())) = map_prod id (plain_answer msg) (pool_Exec E st s)"
  "andThenS (code_res code err msg (pool_Exec E st s)) (\<lambda>_ s. (s, Ok ())) =
     map_prod id (code_answer code err msg) (pool_Exec E st s)"
  "pg_ExecFound E st missing msg s = map_prod id (found_answer missing msg) (pool_Exec E st s)"
  by (cases "pool_Exec E st s"; cases "snd (pool_Exec E st s)"; auto simp: pg_ExecFound_def answer_defs)+

text \<open>The contract of a statement: carried out, it is the step; refused by the server, the step is refused
  likewise. Every write of one statement interprets it.\<close>

locale pg_write =
  fixes R :: "database \<Rightarrow> 'm \<Rightarrow> bool" and st :: "nat stmt" and step :: "time \<Rightarrow> 'm \<Rightarrow> 'm \<times> unit res"
    and answer :: "nat sql \<Rightarrow> unit res"
  assumes performs: "R d m \<Longrightarrow> st now d = Done (d', n) \<Longrightarrow> step now m = (m', r) \<Longrightarrow> R d' m' \<and> r = answer (Done n)"
    and refuses: "R d m \<Longrightarrow> st now d = Fail e \<Longrightarrow> step now m = (m', r) \<Longrightarrow> R d m' \<and> r = answer (Fail e)"
    and fails: "answer (Fail e) \<noteq> Ok ()"
begin

lemma simulates:
  assumes call: "call s = map_prod id answer (pool_Exec E st s)"
  shows "simulates R step E call s"
proof -
  obtain s' q where exec: "pool_Exec E st s = (s', q)" by fastforce
  let ?now = "pg_now E (pg_sent s)" and ?d = "pg_seen E s"
  have "(R (pg_db s') m \<and> answer q \<noteq> Ok () \<or> R (pg_db s') m') \<and> (answer q = Ok () \<longrightarrow> R (pg_db s') m' \<and> r' = Ok ()) \<and>
      (fault_free E \<longrightarrow> R (pg_db s') m' \<and> answer q = r')"
    if R: "R ?d m" and step: "step ?now m = (m', r')" for m m' r'
  proof (cases "st ?now ?d")
    case (Done p)
    obtain d' n where p: "p = (d', n)" by (cases p)
    note made = performs [OF R Done [unfolded p] step]
    from exec show ?thesis
    proof (cases rule: pool_Exec_cases)
      case (unchanged e)
      with R exec Done p show ?thesis by (auto simp: fails fault_free_pool_Exec)
    next
      case (whole d x)
      with made Done p exec show ?thesis by (auto simp: fails fault_free_pool_Exec)
    qed
  next
    case (Fail e)
    note refused = refuses [OF R Fail step]
    from exec show ?thesis
    proof (cases rule: pool_Exec_cases)
      case (unchanged e')
      with R refused Fail exec show ?thesis by (auto simp: fails fault_free_pool_Exec)
    qed (simp add: Fail)
  qed
  then show ?thesis
    by (auto simp: simulates_def call exec split: prod.split)
qed

end

lemma simulates_under: "simulates (\<lambda>d m. R d m \<and> C) step E call s \<Longrightarrow> C \<Longrightarrow> simulates R step E call s"
  by (simp add: simulates_def)

text \<open>Reading one row by its key.\<close>

lemma pg_QueryRow_view:
  assumes "table_ok key scan (table (pg_seen E s))" and "fault_free E" and "\<And>x. final (Ok x) = Ok x"
  shows "andThenS (pg_QueryRow E (\<lambda>d. filter (\<lambda>r. key r = k) (table d)) missing msg s) (\<lambda>row s. (s, final (scan row))) =
    (\<lparr>pg_db = pg_seen E s, pg_sent = Suc (pg_sent s)\<rparr>,
     case table_view key scan (table (pg_seen E s)) k of None \<Rightarrow> Err missing | Some x \<Rightarrow> Ok x)"
proof -
  have row: "sql_row rank (filter (\<lambda>r. key r = k) (table (pg_seen E s))) = find (\<lambda>r. key r = k) (table (pg_seen E s))" for rank
    using assms(1) by (intro sql_row_key) (simp add: table_ok_def)
  show ?thesis
  proof (cases "find (\<lambda>r. key r = k) (table (pg_seen E s))")
    case None
    with assms(2) row show ?thesis
      by (simp add: pg_QueryRow_def fault_free_pool_Query table_view_def del: sql_row_None)
  next
    case (Some r)
    obtain x where "scan r = Ok x" "table_view key scan (table (pg_seen E s)) k = Some x"
      by (rule table_ok_find [OF assms(1) Some])
    with assms(2,3) row Some show ?thesis
      by (simp add: pg_QueryRow_def fault_free_pool_Query)
  qed
qed

subsection \<open>Routing policies\<close>

definition policies_rel :: "pg_formats \<Rightarrow> database \<Rightarrow> policy_store \<Rightarrow> bool" where
  "policies_rel P d m \<longleftrightarrow>
     table_ok po_policy (scan_policy P) (t_routing_policy d) \<and> table_ok so_space (scan_space_policy P) (t_space_routing d) \<and>
     so_policy ` set (t_space_routing d) \<subseteq> po_policy ` set (t_routing_policy d) \<and>
     policies m = table_view po_policy (scan_policy P) (t_routing_policy d) \<and>
     spaces m = table_view so_space (scan_space_policy P) (t_space_routing d)"

lemma scan_dids: "list_all (did_ok P) ds \<Longrightarrow> scan_rows (\<lambda>c. wrap msg (did_Parse P c)) ds = Ok ds"
  by (induction ds) (simp_all add: did_ok_def)

lemma policy_upsert_Done:
  assumes R: "policies_rel P d m" and P: "pg_formats_ok P" and dids: "did_ok P policy" "list_all (did_ok P) candidates"
    and st: "policy_upsert P policy candidates cause now d = Done (d', n)" and "candidates \<noteq> []"
  shows "\<exists>m'. SetCandidates policy candidates cause now m = (m', Ok ()) \<and> policies_rel P d' m'"
proof -
  let ?row = "\<lparr>po_policy = policy, po_candidates = candidates, po_cause = cid_String P cause, po_inserted_at = now,
    po_updated_at = now\<rparr>"
  let ?upd = "\<lambda>old. old\<lparr>po_candidates := candidates, po_cause := cid_String P cause, po_updated_at := now\<rparr>"
  let ?new = "\<lparr>pol_Policy = policy, pol_Candidates = candidates, pol_Cause = cause, pol_InsertedAt = now, pol_UpdatedAt = now\<rparr>"
  let ?f = "\<lambda>rec. rec\<lparr>pol_Candidates := candidates, pol_Cause := cause, pol_UpdatedAt := now\<rparr>"
  have ok: "table_ok po_policy (scan_policy P) (t_routing_policy d)"
    using R by (simp add: policies_rel_def)
  obtain t ins where up: "sql_upsert po_policy (\<lambda>r. Done (?upd r)) ?row (t_routing_policy d) = Done (t, ins)"
    and d': "d' = d\<lparr>t_routing_policy := t\<rparr>"
    using st by (auto simp: policy_upsert_def)
  have scans: "scan_policy P ?row = Ok ?new" "\<And>r x. scan_policy P r = Ok x \<Longrightarrow> scan_policy P (?upd r) = Ok (?f x)"
    using P dids by (auto simp: scan_policy_def scan_dids did_ok_def pg_formats_okD(2) [OF P])
  note made = table_upsert [OF ok up _ scans(1), of ?f, OF _ scans(2)]
  show ?thesis
    using R made \<open>candidates \<noteq> []\<close> unfolding policies_rel_def d' SetCandidates_def
    by (cases "policies m policy") auto
qed

lemma space_routing_upsert_Done:
  assumes R: "policies_rel P d m" and P: "pg_formats_ok P" and dids: "did_ok P space" "did_ok P policy"
    and st: "space_routing_upsert P space policy cause now d = Done (d', n)"
  shows "\<exists>m'. SetSpacePolicy space policy cause now m = (m', Ok ()) \<and> policies_rel P d' m'"
proof -
  let ?row = "\<lparr>so_space = space, so_policy = policy, so_cause = cid_String P cause, so_inserted_at = now, so_updated_at = now\<rparr>"
  let ?upd = "\<lambda>old. old\<lparr>so_policy := policy, so_cause := cid_String P cause, so_updated_at := now\<rparr>"
  let ?new = "\<lparr>spol_Space = space, spol_Policy = policy, spol_Cause = cause, spol_InsertedAt = now, spol_UpdatedAt = now\<rparr>"
  let ?f = "\<lambda>rec. rec\<lparr>spol_Policy := policy, spol_Cause := cause, spol_UpdatedAt := now\<rparr>"
  have ok: "table_ok so_space (scan_space_policy P) (t_space_routing d)"
    and pol: "table_ok po_policy (scan_policy P) (t_routing_policy d)"
    using R by (simp_all add: policies_rel_def)
  obtain t ins where up: "sql_upsert so_space (\<lambda>r. Done (?upd r)) ?row (t_space_routing d) = Done (t, ins)"
    and d': "d' = d\<lparr>t_space_routing := t\<rparr>" and known: "policy \<in> po_policy ` set (t_routing_policy d)"
    using st by (auto simp: space_routing_upsert_def split: if_splits)
  have scans: "scan_space_policy P ?row = Ok ?new"
    "\<And>r x. scan_space_policy P r = Ok x \<Longrightarrow> scan_space_policy P (?upd r) = Ok (?f x)"
    using P dids by (auto simp: scan_space_policy_def did_ok_def pg_formats_okD(2) [OF P])
  note made = table_upsert [OF ok up _ scans(1), of ?f, OF _ scans(2)]
  have "so_policy ` set t \<subseteq> insert policy (so_policy ` set (t_space_routing d))"
    using sql_upsert_Done(5) [OF up] by auto
  with R known have "so_policy ` set t \<subseteq> po_policy ` set (t_routing_policy d)"
    by (auto simp: policies_rel_def)
  moreover have "policies m policy \<noteq> None"
    using R known table_view_None [OF pol] by (simp add: policies_rel_def)
  ultimately show ?thesis
    using R made unfolding policies_rel_def d' SetSpacePolicy_def
    by (cases "spaces m space") auto
qed

interpretation policy_write: pg_write
  "\<lambda>d m. policies_rel P d m \<and> pg_formats_ok P \<and> did_ok P policy \<and> list_all (did_ok P) candidates \<and> candidates \<noteq> []"
  "policy_upsert P policy candidates cause" "SetCandidates policy candidates cause"
  "plain_answer ''storing routing policy''" for P policy candidates cause
proof
  fix d m now d' n m' r e
  assume R: "policies_rel P d m \<and> pg_formats_ok P \<and> did_ok P policy \<and> list_all (did_ok P) candidates \<and> candidates \<noteq> []"
    and step: "SetCandidates policy candidates cause now m = (m', r)"
  show "(policies_rel P d' m' \<and> pg_formats_ok P \<and> did_ok P policy \<and> list_all (did_ok P) candidates \<and> candidates \<noteq> []) \<and>
      r = plain_answer ''storing routing policy'' (Done n)" if "policy_upsert P policy candidates cause now d = Done (d', n)"
    using policy_upsert_Done [OF _ _ _ _ that, of m] R step by (auto simp: answer_defs)
  have False if "policy_upsert P policy candidates cause now d = Fail e"
    using that by (auto simp: policy_upsert_def sql_upsert_def split: option.splits)
  then show "(policies_rel P d m' \<and> pg_formats_ok P \<and> did_ok P policy \<and> list_all (did_ok P) candidates \<and> candidates \<noteq> []) \<and>
      r = plain_answer ''storing routing policy'' (Fail e)" if "policy_upsert P policy candidates cause now d = Fail e"
    using that by blast
qed (simp add: answer_defs)

lemma space_routing_upsert_Fail:
  assumes "space_routing_upsert P space policy cause now d = Fail e"
  shows "policy \<notin> po_policy ` set (t_routing_policy d) \<and> e = PgError foreignKeyViolation"
  using assms by (auto simp: space_routing_upsert_def sql_upsert_def split: if_splits option.splits)

interpretation space_policy_write: pg_write
  "\<lambda>d m. policies_rel P d m \<and> pg_formats_ok P \<and> did_ok P space \<and> did_ok P policy"
  "space_routing_upsert P space policy cause" "SetSpacePolicy space policy cause"
  "code_answer foreignKeyViolation ErrPolicyNotFound ''storing space routing policy''" for P space policy cause
proof
  fix d m now d' n m' r e
  assume R: "policies_rel P d m \<and> pg_formats_ok P \<and> did_ok P space \<and> did_ok P policy"
    and step: "SetSpacePolicy space policy cause now m = (m', r)"
  show "(policies_rel P d' m' \<and> pg_formats_ok P \<and> did_ok P space \<and> did_ok P policy) \<and>
      r = code_answer foreignKeyViolation ErrPolicyNotFound ''storing space routing policy'' (Done n)"
    if "space_routing_upsert P space policy cause now d = Done (d', n)"
    using space_routing_upsert_Done [OF _ _ _ _ that, of m] R step by (auto simp: answer_defs)
  show "(policies_rel P d m' \<and> pg_formats_ok P \<and> did_ok P space \<and> did_ok P policy) \<and>
      r = code_answer foreignKeyViolation ErrPolicyNotFound ''storing space routing policy'' (Fail e)"
    if "space_routing_upsert P space policy cause now d = Fail e"
    using space_routing_upsert_Fail [OF that] R step table_view_None [of po_policy "scan_policy P" "t_routing_policy d" policy]
    by (auto simp: answer_defs SetSpacePolicy_def policies_rel_def)
qed (simp add: answer_defs ErrPolicyNotFound_def)

interpretation space_policy_clear: pg_write "policies_rel P" "space_routing_delete space"
  "\<lambda>_. policy_ClearSpacePolicy space" "plain_answer ''clearing space routing policy''" for P space
proof
  fix d m now d' n m' r e
  assume R: "policies_rel P d m" and step: "policy_ClearSpacePolicy space m = (m', r)"
  have ok: "table_ok so_space (scan_space_policy P) (t_space_routing d)"
    using R by (simp add: policies_rel_def)
  show "policies_rel P d' m' \<and> r = plain_answer ''clearing space routing policy'' (Done n)"
    if "space_routing_delete space now d = Done (d', n)"
  proof -
    from that have d': "d' = d\<lparr>t_space_routing := filter (\<lambda>r. so_space r \<noteq> space) (t_space_routing d)\<rparr>"
      by (simp add: space_routing_delete_def sql_delete_def)
    have "so_policy ` set (filter (\<lambda>r. so_space r \<noteq> space) (t_space_routing d)) \<subseteq> so_policy ` set (t_space_routing d)"
      by (rule image_mono) simp
    with R have "so_policy ` set (t_space_routing d') \<subseteq> po_policy ` set (t_routing_policy d')"
      unfolding policies_rel_def d' by (auto simp del: set_filter)
    with R step table_delete [OF ok, of space] show ?thesis
      by (auto simp: answer_defs policy_ClearSpacePolicy_def policies_rel_def d')
  qed
  show "policies_rel P d m' \<and> r = plain_answer ''clearing space routing policy'' (Fail e)"
    if "space_routing_delete space now d = Fail e"
    using that by (simp add: space_routing_delete_def sql_delete_def)
qed (simp add: answer_defs)

text \<open>
Property C23. The routing policies in Postgres implement those in memory. Setting the candidates of a policy
(the call refuses an empty list and sends nothing), having a space use a policy and clearing it are each one
step of the in-memory store, the whole of it or nothing, whatever requests and answers are lost; success
means that the step was made, and without faults the call is the step, with its error where the policy does
not exist. Every policy a space uses exists throughout. Reads without faults give what the in-memory store gives.
\<close>

theorem pg_policies_refine:
  assumes "pg_formats_ok P" and "did_ok P policy" and "did_ok P space" and "list_all (did_ok P) candidates"
  shows "(candidates \<noteq> [] \<longrightarrow> simulates (policies_rel P) (SetCandidates policy candidates cause) E
        (pg_SetCandidates E P policy candidates cause) s) \<and>
    pg_SetCandidates E P policy [] cause s = (s, Err (Errorf ''missing candidates'')) \<and>
    simulates (policies_rel P) (SetSpacePolicy space policy cause) E (pg_SetSpacePolicy E P space policy cause) s \<and>
    simulates (policies_rel P) (\<lambda>_. policy_ClearSpacePolicy space) E (pg_ClearSpacePolicy E space) s \<and>
    (policies_rel P (pg_seen E s) m \<longrightarrow> fault_free E \<longrightarrow>
      snd (pg_GetPolicy E P policy s) = GetPolicy m policy \<and> snd (pg_GetSpacePolicy E P space s) = GetSpacePolicy m space)"
proof (intro conjI impI)
  show "simulates (policies_rel P) (SetCandidates policy candidates cause) E (pg_SetCandidates E P policy candidates cause) s"
    if "candidates \<noteq> []"
    using assms that by (intro simulates_under [OF policy_write.simulates]) (simp_all add: pg_SetCandidates_def calls_answer)
  show "simulates (policies_rel P) (SetSpacePolicy space policy cause) E (pg_SetSpacePolicy E P space policy cause) s"
    using assms by (intro simulates_under [OF space_policy_write.simulates]) (simp_all add: pg_SetSpacePolicy_def calls_answer)
  show "simulates (policies_rel P) (\<lambda>_. policy_ClearSpacePolicy space) E (pg_ClearSpacePolicy E space) s"
    by (rule space_policy_clear.simulates) (simp add: pg_ClearSpacePolicy_def calls_answer)
  assume "policies_rel P (pg_seen E s) m" and "fault_free E"
  then show "snd (pg_GetPolicy E P policy s) = GetPolicy m policy" "snd (pg_GetSpacePolicy E P space s) = GetSpacePolicy m space"
    using pg_QueryRow_view [of po_policy "scan_policy P" t_routing_policy E s "\<lambda>r. r" policy]
      pg_QueryRow_view [of so_space "scan_space_policy P" t_space_routing E s "\<lambda>r. r" space]
    by (simp_all add: policies_rel_def pg_GetPolicy_def pg_GetSpacePolicy_def GetPolicy_def GetSpacePolicy_def)
qed (simp add: pg_SetCandidates_def)

lemma quiet_now [simp]: "pg_now quiet n = 1000 * int n"
  by (simp add: quiet_def)

lemma simulates_quiet:
  assumes "simulates R step quiet call s" and "R (pg_db s) m"
  shows "R (pg_db (fst (call s))) (fst (step (1000 * int (pg_sent s)) m))"
    and "snd (call s) = snd (step (1000 * int (pg_sent s)) m)"
  using assms by (auto simp: simulates_def split_beta)

definition empty_pg :: pg where
  "empty_pg = \<lparr>pg_db = empty_database, pg_sent = 0\<rparr>"

lemma empty_pg_simps [simp]: "pg_db empty_pg = empty_database" "pg_sent empty_pg = 0"
  by (simp_all add: empty_pg_def)

theorem pg_policies_refine_witness:
  "snd (pg_GetPolicy quiet sample_pg_formats ''did:policy''
     (fst (pg_SetCandidates quiet sample_pg_formats ''did:policy'' [''did:a'', ''did:b''] ''c1'' empty_pg))) =
   Ok \<lparr>pol_Policy = ''did:policy'', pol_Candidates = [''did:a'', ''did:b''], pol_Cause = ''c1'', pol_InsertedAt = 0,
     pol_UpdatedAt = 0\<rparr>"
proof -
  let ?s = "fst (pg_SetCandidates quiet sample_pg_formats ''did:policy'' [''did:a'', ''did:b''] ''c1'' empty_pg)"
  have new: "policies_rel sample_pg_formats (pg_db empty_pg) policy_New"
    by (simp add: policies_rel_def empty_database_def policy_New_def table_view_def fun_eq_iff)
  note refines = pg_policies_refine [OF sample_pg_formats_ok, of "''did:policy''" "''did:space''" "[''did:a'', ''did:b'']" "''c1''" quiet]
  have "simulates (policies_rel sample_pg_formats) (SetCandidates ''did:policy'' [''did:a'', ''did:b''] ''c1'') quiet
      (pg_SetCandidates quiet sample_pg_formats ''did:policy'' [''did:a'', ''did:b''] ''c1'') empty_pg"
    using refines [of empty_pg policy_New] by (simp add: did_ok_def)
  note made = simulates_quiet(1) [OF this new]
  show ?thesis
    using refines [of ?s] made
    by (auto simp: did_ok_def GetPolicy_def SetCandidates_def policy_New_def)
qed

subsection \<open>Storage providers\<close>

definition providers_rel :: "pg_formats \<Rightarrow> acct_lib \<Rightarrow> database \<Rightarrow> provider_store \<Rightarrow> bool" where
  "providers_rel P L d m \<longleftrightarrow> table_ok pr_provider (scan_provider P L) (t_storage_provider d) \<and>
     m = table_view pr_provider (scan_provider P L) (t_storage_provider d)"

text \<open>Weights that the columns hold, and proofs that are read back from their bytes.\<close>

definition int4_fit :: "int \<Rightarrow> int option \<Rightarrow> bool" where
  "int4_fit w rw \<longleftrightarrow> - (2 ^ 31) \<le> w \<and> w < 2 ^ 31 \<and> (case rw of None \<Rightarrow> True | Some x \<Rightarrow> - (2 ^ 31) \<le> x \<and> x < 2 ^ 31)"

definition proofs_kept :: "acct_lib \<Rightarrow> container \<Rightarrow> bytes \<Rightarrow> bool" where
  "proofs_kept L proofs b \<longleftrightarrow> container_Encode L proofs = Ok b \<and> b \<noteq> [] \<and> container_Decode L b = Ok proofs"

lemma int4_weights_eq:
  "int4_weights w rw = (if int4_fit w rw then Done (w, rw) else Fail (ConnError ''unable to encode int4''))"
  by (auto simp: int4_weights_def integer4_def int4_fit_def split: option.split)

interpretation provider_add_write: pg_write
  "\<lambda>d m. providers_rel P L d m \<and> did_ok P i \<and> url_Parse L endpoint = Ok endpoint \<and> int4_fit w rw \<and> proofs_kept L proofs b"
  "provider_insert i endpoint w rw b" "sp_Add i endpoint w rw (Some proofs)"
  "found_answer ErrStorageProviderExists ''adding storage provider''" for P L i endpoint w rw proofs b
proof
  fix d m now d' n m' r e
  let ?row = "\<lparr>pr_provider = i, pr_endpoint = endpoint, pr_weight = w, pr_replication_weight = rw, pr_proofs = Some b,
    pr_inserted_at = now, pr_updated_at = now\<rparr>"
  let ?new = "\<lparr>sp_Provider = i, sp_Endpoint = endpoint, sp_Weight = w, sp_ReplicationWeight = rw, sp_Proofs = proofs,
    sp_InsertedAt = now, sp_UpdatedAt = now\<rparr>"
  assume R: "providers_rel P L d m \<and> did_ok P i \<and> url_Parse L endpoint = Ok endpoint \<and> int4_fit w rw \<and> proofs_kept L proofs b"
    and step: "sp_Add i endpoint w rw (Some proofs) now m = (m', r)"
  then have ok: "table_ok pr_provider (scan_provider P L) (t_storage_provider d)"
    and scan: "scan_provider P L ?row = Ok ?new"
    by (simp_all add: providers_rel_def scan_provider_def did_ok_def proofs_kept_def)
  show "(providers_rel P L d' m' \<and> did_ok P i \<and> url_Parse L endpoint = Ok endpoint \<and> int4_fit w rw \<and> proofs_kept L proofs b) \<and>
      r = found_answer ErrStorageProviderExists ''adding storage provider'' (Done n)"
    if "provider_insert i endpoint w rw b now d = Done (d', n)"
    using that R step table_insert [OF ok _ scan] table_view_None [OF ok, of i]
    by (auto simp: provider_insert_def int4_weights_eq sql_insert_nothing_def providers_rel_def sp_Add_def answer_defs
        split: if_splits)
  show "(providers_rel P L d m' \<and> did_ok P i \<and> url_Parse L endpoint = Ok endpoint \<and> int4_fit w rw \<and> proofs_kept L proofs b) \<and>
      r = found_answer ErrStorageProviderExists ''adding storage provider'' (Fail e)"
    if "provider_insert i endpoint w rw b now d = Fail e"
    using that R by (auto simp: provider_insert_def int4_weights_eq sql_insert_nothing_def split: if_splits)
qed (simp add: answer_defs)

text \<open>The three calls that change or delete one row, which has to be there.\<close>

lemma filter_key_length: "length (filter (\<lambda>r. key r = k) t) = 0 \<longleftrightarrow> k \<notin> key ` set t"
  by (auto simp: filter_empty_conv image_iff)

lemma providers_update:
  assumes R: "providers_rel P L d m" and st: "provider_update i upd now d = Done (d', n)"
    and keep: "\<And>r. pr_provider (upd now r) = pr_provider r"
    and scan: "\<And>r x. scan_provider P L r = Ok x \<Longrightarrow> scan_provider P L ((upd now r)\<lparr>pr_updated_at := now\<rparr>) = Ok (f x)"
  shows "providers_rel P L d' (m(i := map_option f (m i)))" and "n = 0 \<longleftrightarrow> m i = None"
proof -
  let ?t = "map (\<lambda>r. if pr_provider r = i then (upd now r)\<lparr>pr_updated_at := now\<rparr> else r) (t_storage_provider d)"
  have ok: "table_ok pr_provider (scan_provider P L) (t_storage_provider d)"
    and m: "m = table_view pr_provider (scan_provider P L) (t_storage_provider d)"
    using R by (simp_all add: providers_rel_def)
  have d': "d' = d\<lparr>t_storage_provider := ?t\<rparr>" "n = length (filter (\<lambda>r. pr_provider r = i) (t_storage_provider d))"
    using st by (auto simp: provider_update_def sql_update_def)
  show "providers_rel P L d' (m(i := map_option f (m i)))"
    using table_update [OF ok, of "\<lambda>r. (upd now r)\<lparr>pr_updated_at := now\<rparr>" f i, OF _ scan] keep
    by (simp add: providers_rel_def d' m)
  show "n = 0 \<longleftrightarrow> m i = None"
    using filter_key_length [of pr_provider i] table_view_None [OF ok, of i] by (simp add: d' m)
qed

interpretation provider_weights_write: pg_write "\<lambda>d m. providers_rel P L d m \<and> int4_fit w rw"
  "weights_update i w rw" "sp_SetWeights i w rw" "found_answer ErrStorageProviderNotFound ''setting storage provider weights''"
  for P L i w rw
proof
  fix d m now d' n m' r e
  let ?upd = "\<lambda>_ r. r\<lparr>pr_weight := w, pr_replication_weight := rw\<rparr>"
  let ?f = "\<lambda>x. x\<lparr>sp_Weight := w, sp_ReplicationWeight := rw, sp_UpdatedAt := now\<rparr>"
  assume R: "providers_rel P L d m \<and> int4_fit w rw" and step: "sp_SetWeights i w rw now m = (m', r)"
  have scan: "scan_provider P L ((?upd now r)\<lparr>pr_updated_at := now\<rparr>) = Ok (?f x)" if "scan_provider P L r = Ok x" for r x
    using that by (auto simp: scan_provider_def)
  show "(providers_rel P L d' m' \<and> int4_fit w rw) \<and> r = found_answer ErrStorageProviderNotFound ''setting storage provider weights'' (Done n)"
    if "weights_update i w rw now d = Done (d', n)"
  proof -
    from that have st: "provider_update i ?upd now d = Done (d', n)"
      by (auto simp: weights_update_def int4_weights_eq split: if_splits)
    note providers_update [OF conjunct1 [OF R] st _ scan]
    then have "providers_rel P L d' (m(i := map_option ?f (m i)))" "n = 0 \<longleftrightarrow> m i = None"
      by simp_all
    with R step show ?thesis
      by (cases "m i") (auto simp: sp_SetWeights_def answer_defs fun_upd_idem)
  qed
  show "(providers_rel P L d m' \<and> int4_fit w rw) \<and> r = found_answer ErrStorageProviderNotFound ''setting storage provider weights'' (Fail e)"
    if "weights_update i w rw now d = Fail e"
    using that R by (auto simp: weights_update_def int4_weights_eq provider_update_def sql_update_def)
qed (simp add: answer_defs)

interpretation provider_proofs_write: pg_write "\<lambda>d m. providers_rel P L d m \<and> proofs_kept L proofs b"
  "provider_update i (\<lambda>_ r. r\<lparr>pr_proofs := Some b\<rparr>)" "sp_SetProofs i (Some proofs)"
  "found_answer ErrStorageProviderNotFound ''setting storage provider proofs''" for P L i proofs b
proof
  fix d m now d' n m' r e
  let ?upd = "\<lambda>_ r. r\<lparr>pr_proofs := Some b\<rparr>"
  let ?f = "\<lambda>x. x\<lparr>sp_Proofs := proofs, sp_UpdatedAt := now\<rparr>"
  assume R: "providers_rel P L d m \<and> proofs_kept L proofs b" and step: "sp_SetProofs i (Some proofs) now m = (m', r)"
  have scan: "scan_provider P L ((?upd now r)\<lparr>pr_updated_at := now\<rparr>) = Ok (?f x)" if "scan_provider P L r = Ok x" for r x
    using that R by (auto simp: scan_provider_def proofs_kept_def)
  show "(providers_rel P L d' m' \<and> proofs_kept L proofs b) \<and>
      r = found_answer ErrStorageProviderNotFound ''setting storage provider proofs'' (Done n)"
    if "provider_update i ?upd now d = Done (d', n)"
  proof -
    note providers_update [OF conjunct1 [OF R] that _ scan]
    then have "providers_rel P L d' (m(i := map_option ?f (m i)))" "n = 0 \<longleftrightarrow> m i = None"
      by simp_all
    with R step show ?thesis
      by (cases "m i") (auto simp: sp_SetProofs_def answer_defs fun_upd_idem)
  qed
  show "(providers_rel P L d m' \<and> proofs_kept L proofs b) \<and>
      r = found_answer ErrStorageProviderNotFound ''setting storage provider proofs'' (Fail e)"
    if "provider_update i ?upd now d = Fail e"
    using that by (simp add: provider_update_def sql_update_def)
qed (simp add: answer_defs)

interpretation provider_delete_write: pg_write "providers_rel P L" "provider_delete i" "\<lambda>_. sp_Delete i"
  "found_answer ErrStorageProviderNotFound ''deleting storage provider''" for P L i
proof
  fix d m now d' n m' r e
  assume R: "providers_rel P L d m" and step: "sp_Delete i m = (m', r)"
  have ok: "table_ok pr_provider (scan_provider P L) (t_storage_provider d)"
    using R by (simp add: providers_rel_def)
  show "providers_rel P L d' m' \<and> r = found_answer ErrStorageProviderNotFound ''deleting storage provider'' (Done n)"
    if "provider_delete i now d = Done (d', n)"
    using that R step table_delete [OF ok, of i] table_view_None [OF ok, of i] filter_key_length [of pr_provider i "t_storage_provider d"]
    by (auto simp: provider_delete_def sql_delete_def providers_rel_def sp_Delete_def answer_defs fun_upd_idem split: if_splits)
  show "providers_rel P L d m' \<and> r = found_answer ErrStorageProviderNotFound ''deleting storage provider'' (Fail e)"
    if "provider_delete i now d = Fail e"
    using that by (simp add: provider_delete_def sql_delete_def)
qed (simp add: answer_defs)

text \<open>
Property C24. The storage providers in Postgres implement those in memory. Adding a provider, setting its weights
or its proofs and deleting it are each one step of the in-memory store, the whole of it or nothing, whatever
requests and answers are lost; without faults the call is the step, with its error where the provider is there
already or is missing. This is so for weights that the 32-bit columns hold; others are refused, with nothing
changed. Reading a provider without faults gives what the in-memory store gives.
\<close>

theorem pg_providers_refine:
  assumes "did_ok P i" and "url_Parse L endpoint = Ok endpoint" and "proofs_kept L proofs b"
  shows "(int4_fit w rw \<longrightarrow>
      simulates (providers_rel P L) (sp_Add i endpoint w rw (Some proofs)) E (pg_sp_Add E L i endpoint w rw (Some proofs)) s \<and>
      simulates (providers_rel P L) (sp_SetWeights i w rw) E (pg_sp_SetWeights E i w rw) s) \<and>
    (\<not> int4_fit w rw \<longrightarrow>
      (\<forall>call \<in> {pg_sp_Add E L i endpoint w rw (Some proofs), pg_sp_SetWeights E i w rw}.
         \<exists>s' e. call s = (s', Err e) \<and> pg_db s' = pg_seen E s)) \<and>
    simulates (providers_rel P L) (sp_SetProofs i (Some proofs)) E (pg_sp_SetProofs E L i (Some proofs)) s \<and>
    simulates (providers_rel P L) (\<lambda>_. sp_Delete i) E (pg_sp_Delete E i) s \<and>
    (providers_rel P L (pg_seen E s) m \<longrightarrow> fault_free E \<longrightarrow> snd (pg_sp_Get E P L i s) = sp_Get m i)"
proof (intro conjI impI)
  have enc: "container_Encode L proofs = Ok b"
    using assms(3) by (simp add: proofs_kept_def)
  show "simulates (providers_rel P L) (sp_Add i endpoint w rw (Some proofs)) E (pg_sp_Add E L i endpoint w rw (Some proofs)) s"
    if "int4_fit w rw"
    using assms that enc by (intro simulates_under [OF provider_add_write.simulates [where b = b]])
      (simp_all add: pg_sp_Add_def calls_answer)
  show "simulates (providers_rel P L) (sp_SetWeights i w rw) E (pg_sp_SetWeights E i w rw) s" if "int4_fit w rw"
    using that by (intro simulates_under [OF provider_weights_write.simulates]) (simp_all add: pg_sp_SetWeights_def calls_answer)
  show "\<forall>call \<in> {pg_sp_Add E L i endpoint w rw (Some proofs), pg_sp_SetWeights E i w rw}.
      \<exists>s' e. call s = (s', Err e) \<and> pg_db s' = pg_seen E s" if "\<not> int4_fit w rw"
    using that enc by (auto simp: pg_sp_Add_def pg_sp_SetWeights_def pg_ExecFound_def provider_insert_def weights_update_def
        int4_weights_eq pool_Exec_def Let_def split: option.split fault.split)
  show "simulates (providers_rel P L) (sp_SetProofs i (Some proofs)) E (pg_sp_SetProofs E L i (Some proofs)) s"
    using assms enc by (intro simulates_under [OF provider_proofs_write.simulates [where b = b]])
      (simp_all add: pg_sp_SetProofs_def calls_answer)
  show "simulates (providers_rel P L) (\<lambda>_. sp_Delete i) E (pg_sp_Delete E i) s"
    by (rule provider_delete_write.simulates) (simp add: pg_sp_Delete_def calls_answer)
  show "snd (pg_sp_Get E P L i s) = sp_Get m i" if "providers_rel P L (pg_seen E s) m" "fault_free E"
    using that pg_QueryRow_view [of pr_provider "scan_provider P L" t_storage_provider E s "wrap ''getting storage provider''" i]
    by (simp add: providers_rel_def pg_sp_Get_def sp_Get_def split: option.split)
qed

definition sample_acct_lib :: acct_lib where
  "sample_acct_lib = \<lparr>details_Marshal = (\<lambda>_. Ok ''{}''), details_Unmarshal = (\<lambda>_. Ok [''plan'' \<mapsto> ''free'']), jsonb = (\<lambda>b. b), url_Parse = Ok,
     container_Encode = (\<lambda>_. Ok ''ct''), container_Decode = (\<lambda>_. Ok nil_container)\<rparr>"

theorem pg_providers_refine_witness:
  "snd (pg_sp_Get quiet sample_pg_formats sample_acct_lib ''did:a'' (fst (pg_sp_Add quiet sample_acct_lib ''did:a'' ''https://a'' 10 None
     (Some nil_container) empty_pg))) =
   Ok \<lparr>sp_Provider = ''did:a'', sp_Endpoint = ''https://a'', sp_Weight = 10, sp_ReplicationWeight = None, sp_Proofs = nil_container,
     sp_InsertedAt = 0, sp_UpdatedAt = 0\<rparr>"
proof -
  let ?s = "fst (pg_sp_Add quiet sample_acct_lib ''did:a'' ''https://a'' 10 None (Some nil_container) empty_pg)"
  have new: "providers_rel sample_pg_formats sample_acct_lib (pg_db empty_pg) sp_New"
    by (simp add: providers_rel_def empty_database_def sp_New_def table_view_def fun_eq_iff)
  note refines = pg_providers_refine [of sample_pg_formats "''did:a''" sample_acct_lib "''https://a''" nil_container "''ct''" 10 None quiet]
  have "simulates (providers_rel sample_pg_formats sample_acct_lib) (sp_Add ''did:a'' ''https://a'' 10 None (Some nil_container)) quiet
      (pg_sp_Add quiet sample_acct_lib ''did:a'' ''https://a'' 10 None (Some nil_container)) empty_pg"
    using refines [of empty_pg sp_New] by (simp add: did_ok_def proofs_kept_def sample_acct_lib_def int4_fit_def)
  from simulates_quiet(1) [where m = sp_New, OF this] new have made: "providers_rel sample_pg_formats sample_acct_lib (pg_db ?s)
      (fst (sp_Add ''did:a'' ''https://a'' 10 None (Some nil_container) 0 sp_New))" by simp
  have "snd (pg_sp_Get quiet sample_pg_formats sample_acct_lib ''did:a'' ?s) =
      sp_Get (fst (sp_Add ''did:a'' ''https://a'' 10 None (Some nil_container) 0 sp_New)) ''did:a''"
    using refines [of ?s] made by (simp add: did_ok_def proofs_kept_def sample_acct_lib_def)
  then show ?thesis
    by (simp add: sp_Get_def sp_Add_def sp_New_def)
qed

end
