(* ===== verification/Pg_Revocations.thy ===== *)
theory Pg_Revocations
  imports Pg_Stores
begin

section \<open>Postgres stores of revocations and replicas\<close>

text \<open>
  Revocations in Postgres are rows of a delegation, a scope and a cause. Adding one is a statement, resetting a
  delegation a transaction that deletes its rows and inserts one; between the two a delegation would be without
  any revocation, which nobody else sees and no fault leaves behind. Replicas are rows of a space, a digest and
  a provider.
\<close>

subsection \<open>Revocations\<close>

definition scope_cause :: "revocation_store \<Rightarrow> cid \<Rightarrow> did \<Rightarrow> cid option" where
  "scope_cause m delegation scope = Option.bind (m delegation) (\<lambda>scopes. scopes scope)"

definition no_empty_scopes :: "revocation_store \<Rightarrow> bool" where
  "no_empty_scopes m \<longleftrightarrow> (\<forall>delegation scopes. m delegation = Some scopes \<longrightarrow> scopes \<noteq> Map.empty)"

lemma revocation_store_eqI:
  assumes "no_empty_scopes m" and "no_empty_scopes m'" and "\<And>dl sc. scope_cause m dl sc = scope_cause m' dl sc"
  shows "m = m'"
proof
  fix dl
  have "(case m dl of None \<Rightarrow> Map.empty | Some f \<Rightarrow> f) = (case m' dl of None \<Rightarrow> Map.empty | Some f \<Rightarrow> f)"
    using assms(3) [of dl] by (auto simp: scope_cause_def fun_eq_iff split: option.splits)
  with assms(1,2) show "m dl = m' dl"
    by (auto simp: no_empty_scopes_def split: option.splits)
qed

definition revocations_rel :: "pg_formats \<Rightarrow> database \<Rightarrow> revocation_store \<Rightarrow> bool" where
  "revocations_rel P d m \<longleftrightarrow> table_ok revocation_key (\<lambda>r. cid_Parse P (rv_cause r)) (t_revocation d) \<and>
     list_all (\<lambda>r. is_cid P (rv_revoke r) \<and> did_ok P (rv_scope r)) (t_revocation d) \<and> no_empty_scopes m \<and>
     (\<forall>dl sc. scope_cause m dl sc = table_view revocation_key (\<lambda>r. cid_Parse P (rv_cause r)) (t_revocation d) (cid_String P dl, sc))"

lemma revocation_steps:
  assumes "no_empty_scopes m"
  shows "no_empty_scopes (revocation_Add dl sc c m)" and "no_empty_scopes (revocation_Reset dl sc c m)"
    and "scope_cause (revocation_Add dl sc c m) dl' sc' =
      (if dl' = dl \<and> sc' = sc \<and> scope_cause m dl sc = None then Some c else scope_cause m dl' sc')"
    and "scope_cause (revocation_Reset dl sc c m) dl' sc' =
      (if dl' = dl then (if sc' = sc then Some c else None) else scope_cause m dl' sc')"
  using assms
  by (auto simp: no_empty_scopes_def revocation_Add_def revocation_Reset_def scope_cause_def Let_def split: option.splits if_splits)

lemma revocation_row_scan:
  assumes "pg_formats_ok P"
  shows "cid_Parse P (rv_cause (revocation_row_of P dl sc c now)) = Ok c"
    "revocation_key (revocation_row_of P dl sc c now) = (cid_String P dl, sc)"
    "rv_revoke (revocation_row_of P dl sc c now) = cid_String P dl" "rv_scope (revocation_row_of P dl sc c now) = sc"
  by (simp_all add: revocation_row_of_def revocation_key_def pg_formats_okD(2) [OF assms])

interpretation revocation_write: pg_write "\<lambda>d m. revocations_rel P d m \<and> pg_formats_ok P \<and> did_ok P sc"
  "revocation_add P dl sc c" "\<lambda>_ m. (revocation_Add dl sc c m, Ok ())" "plain_answer ''adding revocation''" for P dl sc c
proof
  fix d m now d' n m' r e
  assume R: "revocations_rel P d m \<and> pg_formats_ok P \<and> did_ok P sc" and step: "(revocation_Add dl sc c m, Ok ()) = (m', r)"
  then have P: "pg_formats_ok P" and ok: "table_ok revocation_key (\<lambda>r. cid_Parse P (rv_cause r)) (t_revocation d)"
    and m: "no_empty_scopes m"
    and view: "\<And>dl sc. scope_cause m dl sc = table_view revocation_key (\<lambda>r. cid_Parse P (rv_cause r)) (t_revocation d) (cid_String P dl, sc)"
    by (simp_all add: revocations_rel_def)
  note row = revocation_row_scan [OF P, of dl sc c now]
  show "(revocations_rel P d' m' \<and> pg_formats_ok P \<and> did_ok P sc) \<and> r = plain_answer ''adding revocation'' (Done n)"
    if st: "revocation_add P dl sc c now d = Done (d', n)"
  proof (cases "scope_cause m dl sc")
    case None
    then have new: "(cid_String P dl, sc) \<notin> revocation_key ` set (t_revocation d)"
      using table_view_None [OF ok] by (simp add: view)
    with st have "d' = d\<lparr>t_revocation := t_revocation d @ [revocation_row_of P dl sc c now]\<rparr>"
      by (auto simp: revocation_add_def sql_insert_nothing_def row)
    with R step None table_insert [OF ok _ row(1), unfolded row(2), OF new] revocation_steps [OF m, of dl sc c] show ?thesis
      by (auto simp: revocations_rel_def answer_defs row pg_formats_okD(4) [OF P])
  next
    case (Some c')
    then have "(cid_String P dl, sc) \<in> revocation_key ` set (t_revocation d)"
      using table_view_None [OF ok, of "(cid_String P dl, sc)"] by (auto simp: view)
    with st have "d' = d"
      by (simp add: revocation_add_def sql_insert_nothing_def row)
    with R step Some revocation_steps [OF m, of dl sc c] show ?thesis
      by (auto simp: revocations_rel_def answer_defs)
  qed
  show "(revocations_rel P d m' \<and> pg_formats_ok P \<and> did_ok P sc) \<and> r = plain_answer ''adding revocation'' (Fail e)"
    if "revocation_add P dl sc c now d = Fail e"
    using that by (auto simp: revocation_add_def sql_insert_nothing_def split: if_splits)
qed (simp add: answer_defs)

text \<open>The two statements of a reset: the first leaves no row of the delegation, so the second does not fail.\<close>

lemma revocation_reset_Done:
  assumes P: "pg_formats_ok P" and "did_ok P sc" and R: "revocations_rel P d m"
  obtains d1 n1 d2 n2 where "revocation_clear P dl now d = Done (d1, n1)" "revocation_insert P dl sc c now d1 = Done (d2, n2)"
    "revocations_rel P d2 (revocation_Reset dl sc c m)"
proof -
  let ?scan = "\<lambda>r. cid_Parse P (rv_cause r)"
  let ?t = "filter (\<lambda>r. rv_revoke r \<noteq> cid_String P dl) (t_revocation d)"
  let ?row = "revocation_row_of P dl sc c now"
  let ?d2 = "d\<lparr>t_revocation := ?t @ [?row]\<rparr>"
  note row = revocation_row_scan [OF P, of dl sc c now]
  have ok: "table_ok revocation_key ?scan (t_revocation d)" and m: "no_empty_scopes m"
    and view: "\<And>dl sc. scope_cause m dl sc = table_view revocation_key ?scan (t_revocation d) (cid_String P dl, sc)"
    using R by (simp_all add: revocations_rel_def)
  have cleared: "table_ok revocation_key ?scan ?t"
    using ok by (simp add: table_ok_def distinct_map_filter list_all_iff)
  have new: "(cid_String P dl, sc) \<notin> revocation_key ` set ?t"
    by (auto simp: revocation_key_def)
  have find: "find (\<lambda>r. revocation_key r = (k, sc')) (filter (\<lambda>r. rv_revoke r \<noteq> cid_String P dl) t) =
      (if k = cid_String P dl then None else find (\<lambda>r. revocation_key r = (k, sc')) t)" for k sc' t
    by (induction t) (auto simp: revocation_key_def)
  note made = table_insert [OF cleared _ row(1), unfolded row(2), OF new]
  have "revocations_rel P ?d2 (revocation_Reset dl sc c m)"
    using R made revocation_steps(2,4) [OF m, of dl sc c] assms(2)
    by (auto simp: revocations_rel_def row list_all_iff is_cid_String [OF P] pg_formats_okD(4) [OF P] view table_view_def find)
  moreover have "revocation_clear P dl now d = Done (d\<lparr>t_revocation := ?t\<rparr>, length (filter (\<lambda>r. rv_revoke r = cid_String P dl) (t_revocation d)))"
    by (simp add: revocation_clear_def sql_delete_def)
  moreover have "revocation_insert P dl sc c now (d\<lparr>t_revocation := ?t\<rparr>) = Done (?d2, 1)"
    using new by (simp add: revocation_insert_def sql_insert_def row)
  ultimately show thesis using that by blast
qed

lemma pg_revocation_Reset_simulates:
  assumes P: "pg_formats_ok P" and "did_ok P sc"
  shows "simulates (revocations_rel P) (\<lambda>_ m. (revocation_Reset dl sc c m, Ok ())) E (pg_revocation_Reset E P dl sc c) s"
proof -
  let ?body = "\<lambda>tx. andThenS (sql_res ''clearing revocation'' (tx_Exec E (revocation_clear P dl) tx)) (\<lambda>_ tx.
    andThenS (sql_res ''inserting revocation'' (tx_Exec E (revocation_insert P dl sc c) tx)) (\<lambda>_ tx. (tx, Ok ())))"
  obtain s' r where run: "with_tx E ''committing revocation reset'' ?body s = (s', r)" by fastforce
  have "(revocations_rel P (pg_db s') m \<and> r \<noteq> Ok () \<or> revocations_rel P (pg_db s') (revocation_Reset dl sc c m)) \<and>
      (r = Ok () \<longrightarrow> revocations_rel P (pg_db s') (revocation_Reset dl sc c m)) \<and>
      (fault_free E \<longrightarrow> revocations_rel P (pg_db s') (revocation_Reset dl sc c m) \<and> r = Ok ())"
    if R: "revocations_rel P (pg_seen E s) m" for m
  proof -
    obtain d1 n1 d2 n2 where made: "revocation_clear P dl (pg_now E (pg_sent s)) (pg_seen E s) = Done (d1, n1)"
      "revocation_insert P dl sc c (pg_now E (pg_sent s)) d1 = Done (d2, n2)" "revocations_rel P d2 (revocation_Reset dl sc c m)"
      by (rule revocation_reset_Done [OF assms R])
    have committed: "revocations_rel P (tx_db tx) (revocation_Reset dl sc c m)" if "?body (tx_start E s) = (tx, Ok x)" for tx x
      using that made by (auto simp: andThenS_eq_Ok)
    have free: "pg_db s' = d2 \<and> r = Ok ()" if "fault_free E"
    proof -
      have "?body (tx_start E s) = (\<lparr>tx_db = d2, tx_now = pg_now E (pg_sent s), tx_aborted = False,
          tx_sent = Suc (Suc (Suc (pg_sent s)))\<rparr>, Ok ())"
        using that made by (simp add: fault_free_tx_Exec tx_start_def del: tx_Exec_Done)
      with with_tx_runs(1) [OF that, of ?body s] run show ?thesis by auto
    qed
    from run show ?thesis
    proof (cases rule: with_tx_cases)
      case (failed tx)
      with R free made show ?thesis by auto
    qed (use R committed free made in auto)
  qed
  then show ?thesis
    by (simp add: simulates_def pg_revocation_Reset_def run)
qed

subsection \<open>Finding revocations\<close>

lemma note_revocations_spec:
  assumes P: "pg_formats_ok P" and "distinct (map revocation_key rows)"
    and "list_all (\<lambda>r. is_Ok (cid_Parse P (rv_cause r)) \<and> is_cid P (rv_revoke r) \<and> did_ok P (rv_scope r)) rows"
    and "no_empty_scopes result"
  shows "\<exists>res. note_revocations P rows result = Ok res \<and> no_empty_scopes res \<and>
    (\<forall>dl sc. scope_cause res dl sc = (case table_view revocation_key (\<lambda>r. cid_Parse P (rv_cause r)) rows (cid_String P dl, sc) of
       None \<Rightarrow> scope_cause result dl sc | Some c \<Rightarrow> Some c))"
  using assms(2-)
proof (induction rows arbitrary: result)
  case Nil
  then show ?case by (simp add: table_view_def)
next
  case (Cons r rows)
  obtain c where c: "cid_Parse P (rv_cause r) = Ok c"
    using Cons.prems(2) by (cases "cid_Parse P (rv_cause r)") auto
  have scope: "did_Parse P (rv_scope r) = Ok (rv_scope r)"
    using Cons.prems(2) by (simp add: did_ok_def)
  obtain dl0 where dl0: "rv_revoke r = cid_String P dl0" "cid_Parse P (rv_revoke r) = Ok dl0"
    using Cons.prems(2) pg_formats_okD(2) [OF P] by (auto simp: is_cid_def) metis
  define next_result where "next_result = result(dl0 \<mapsto>
    (case result dl0 of None \<Rightarrow> Map.empty | Some scopes \<Rightarrow> scopes)(rv_scope r \<mapsto> c))"
  have step: "note_revocations P (r # rows) result = note_revocations P rows next_result"
    by (simp add: c scope dl0(2) next_result_def)
  have noted: "scope_cause next_result dl sc = (if revocation_key r = (cid_String P dl, sc) then Some c else scope_cause result dl sc)" for dl sc
    by (auto simp: next_result_def scope_cause_def revocation_key_def dl0 pg_formats_okD(4) [OF P] split: option.splits)
  have "no_empty_scopes next_result"
    using Cons.prems(3) by (auto simp: next_result_def no_empty_scopes_def)
  with Cons.IH [of next_result] Cons.prems obtain res where res: "note_revocations P rows next_result = Ok res" "no_empty_scopes res"
    "\<And>dl sc. scope_cause res dl sc = (case table_view revocation_key (\<lambda>r. cid_Parse P (rv_cause r)) rows (cid_String P dl, sc) of
       None \<Rightarrow> scope_cause next_result dl sc | Some c \<Rightarrow> Some c)"
    by auto
  have own: "find (\<lambda>r'. revocation_key r' = revocation_key r) rows = None"
    using Cons.prems(1) by (simp add: find_None_key)
  have "scope_cause res dl sc = (case table_view revocation_key (\<lambda>r. cid_Parse P (rv_cause r)) (r # rows) (cid_String P dl, sc) of
       None \<Rightarrow> scope_cause result dl sc | Some c \<Rightarrow> Some c)" for dl sc
  proof (cases "revocation_key r = (cid_String P dl, sc)")
    case True
    with own show ?thesis by (simp add: res(3) noted table_view_def c)
  next
    case False
    then show ?thesis by (simp add: res(3) noted table_view_def split: option.split)
  qed
  with res(1,2) show ?case unfolding step by blast
qed

lemma pg_revocation_Find_eq:
  assumes P: "pg_formats_ok P" and R: "revocations_rel P (pg_seen E s) m" and "fault_free E"
  shows "snd (pg_revocation_Find E P ds s) = Ok (revocation_Find m ds)"
proof (cases "ds = []")
  case True
  then show ?thesis by (simp add: pg_revocation_Find_def revocation_Find_def)
next
  case False
  let ?scan = "\<lambda>r. cid_Parse P (rv_cause r)"
  let ?t = "t_revocation (pg_seen E s)"
  let ?sel = "filter (\<lambda>r. rv_revoke r \<in> cid_String P ` set ds) ?t"
  let ?rows = "sql_unordered (pg_rank E (pg_sent s)) ?sel"
  have ok: "distinct (map revocation_key ?t)"
    "list_all (\<lambda>r. is_Ok (?scan r) \<and> is_cid P (rv_revoke r) \<and> did_ok P (rv_scope r)) ?t"
    using R by (auto simp: revocations_rel_def table_ok_def list_all_iff)
  have sel: "distinct (map revocation_key ?sel)"
    using ok(1) by (rule distinct_map_filter)
  then have dist: "distinct (map revocation_key ?rows)"
    by (metis mset_map mset_sql_unordered mset_eq_imp_distinct_iff)
  have find: "find (\<lambda>r. revocation_key r = (cid_String P dl, sc)) ?rows =
      (if dl \<in> set ds then find (\<lambda>r. revocation_key r = (cid_String P dl, sc)) ?t else None)" for dl sc
  proof -
    have "find (\<lambda>r. revocation_key r = (cid_String P dl, sc)) ?rows = find (\<lambda>r. revocation_key r = (cid_String P dl, sc)) ?sel"
      using sel by (intro find_perm_key) simp_all
    also have "\<dots> = (if dl \<in> set ds then find (\<lambda>r. revocation_key r = (cid_String P dl, sc)) ?t else None)"
    proof -
      have "find (\<lambda>r. revocation_key r = (cid_String P dl, sc)) (filter (\<lambda>r. rv_revoke r \<in> cid_String P ` set ds) t) =
          (if dl \<in> set ds then find (\<lambda>r. revocation_key r = (cid_String P dl, sc)) t else None)" for t
        by (induction t) (auto simp: revocation_key_def image_iff pg_formats_okD(4) [OF P])
      then show ?thesis .
    qed
    finally show ?thesis .
  qed
  have "list_all (\<lambda>r. is_Ok (?scan r) \<and> is_cid P (rv_revoke r) \<and> did_ok P (rv_scope r)) ?rows"
    using ok(2) by (auto simp: list_all_iff)
  moreover have "no_empty_scopes Map.empty" "scope_cause Map.empty dl sc = None" for dl sc
    by (simp_all add: no_empty_scopes_def scope_cause_def)
  ultimately obtain res where res: "note_revocations P ?rows Map.empty = Ok res" "no_empty_scopes res"
      "\<And>dl sc. scope_cause res dl sc = table_view revocation_key ?scan ?rows (cid_String P dl, sc)"
    using note_revocations_spec [OF P dist, of Map.empty] by (fastforce split: option.splits)
  have "res = revocation_Find m ds"
  proof (rule revocation_store_eqI)
    show "no_empty_scopes res" by (rule res(2))
    show "no_empty_scopes (revocation_Find m ds)"
      using R by (simp add: revocations_rel_def no_empty_scopes_def revocation_Find_eq)
    show "scope_cause res dl sc = scope_cause (revocation_Find m ds) dl sc" for dl sc
    proof -
      have "scope_cause res dl sc = (if dl \<in> set ds then scope_cause m dl sc else None)"
        using R find [of dl sc] by (simp add: res(3) revocations_rel_def table_view_def)
      then show ?thesis by (simp add: scope_cause_def revocation_Find_eq)
    qed
  qed
  with False assms(3) res(1) show ?thesis
    by (simp add: pg_revocation_Find_def fault_free_pool_Query)
qed

text \<open>
Property C26. Revocations in Postgres implement those in memory. Adding a revocation and resetting a delegation are
each one step of the in-memory store, the whole of it or nothing, whatever requests and answers are lost, and
without faults they succeed and are the step; so a delegation that is revoked stays revoked through a reset that
fails half way. Finding the revocations of some delegations gives, without faults, what the in-memory store
gives, in whatever order the rows come.
\<close>

theorem pg_revocations_refine:
  assumes "pg_formats_ok P" and "did_ok P scope"
  shows "simulates (revocations_rel P) (\<lambda>_ m. (revocation_Add delegation scope cause m, Ok ())) E
      (pg_revocation_Add E P delegation scope cause) s \<and>
    simulates (revocations_rel P) (\<lambda>_ m. (revocation_Reset delegation scope cause m, Ok ())) E
      (pg_revocation_Reset E P delegation scope cause) s \<and>
    (\<forall>m. revocations_rel P (pg_seen E s) m \<longrightarrow> m delegation \<noteq> None \<longrightarrow>
      (\<exists>m'. revocations_rel P (pg_db (fst (pg_revocation_Reset E P delegation scope cause s))) m' \<and> m' delegation \<noteq> None)) \<and>
    (\<forall>m. revocations_rel P (pg_seen E s) m \<longrightarrow> fault_free E \<longrightarrow>
      snd (pg_revocation_Find E P delegations s) = Ok (revocation_Find m delegations))"
proof (intro conjI allI impI)
  show "simulates (revocations_rel P) (\<lambda>_ m. (revocation_Add delegation scope cause m, Ok ())) E
      (pg_revocation_Add E P delegation scope cause) s"
    using assms by (intro simulates_under [OF revocation_write.simulates]) (simp_all add: pg_revocation_Add_def calls_answer)
  show reset: "simulates (revocations_rel P) (\<lambda>_ m. (revocation_Reset delegation scope cause m, Ok ())) E
      (pg_revocation_Reset E P delegation scope cause) s"
    by (rule pg_revocation_Reset_simulates [OF assms])
  show "\<exists>m'. revocations_rel P (pg_db (fst (pg_revocation_Reset E P delegation scope cause s))) m' \<and> m' delegation \<noteq> None"
    if R: "revocations_rel P (pg_seen E s) m" and "m delegation \<noteq> None" for m
  proof -
    have "revocations_rel P (pg_db (fst (pg_revocation_Reset E P delegation scope cause s))) m \<or>
        revocations_rel P (pg_db (fst (pg_revocation_Reset E P delegation scope cause s))) (revocation_Reset delegation scope cause m)"
      using reset R by (auto simp: simulates_def split_beta)
    moreover have "revocation_Reset delegation scope cause m delegation \<noteq> None"
      by (simp add: revocation_Reset_def)
    ultimately show ?thesis using that(2) by blast
  qed
qed (rule pg_revocation_Find_eq [OF assms(1)])

theorem pg_revocations_refine_witness:
  "snd (pg_revocation_Find quiet sample_pg_formats [''d1'', ''d2'']
     (fst (pg_revocation_Reset quiet sample_pg_formats ''d1'' ''did:a'' ''c1'' empty_pg))) = Ok [''d1'' \<mapsto> [''did:a'' \<mapsto> ''c1'']]"
proof -
  let ?s = "fst (pg_revocation_Reset quiet sample_pg_formats ''d1'' ''did:a'' ''c1'' empty_pg)"
  have new: "revocations_rel sample_pg_formats (pg_db empty_pg) revocation_New"
    by (simp add: revocations_rel_def empty_database_def revocation_New_def table_view_def scope_cause_def no_empty_scopes_def)
  note refines = pg_revocations_refine [OF sample_pg_formats_ok, of "''did:a''" "''d1''" "''c1''" quiet]
  have sim: "simulates (revocations_rel sample_pg_formats) (\<lambda>_ m. (revocation_Reset ''d1'' ''did:a'' ''c1'' m, Ok ())) quiet
      (pg_revocation_Reset quiet sample_pg_formats ''d1'' ''did:a'' ''c1'') empty_pg"
    using refines [of empty_pg "[]"] by (simp add: did_ok_def)
  from simulates_quiet(1) [where m = revocation_New, OF sim] new
  have "revocations_rel sample_pg_formats (pg_db ?s) (revocation_Reset ''d1'' ''did:a'' ''c1'' revocation_New)" by simp
  with refines [of ?s "[''d1'', ''d2'']"] have "snd (pg_revocation_Find quiet sample_pg_formats [''d1'', ''d2''] ?s) =
      Ok (revocation_Find (revocation_Reset ''d1'' ''did:a'' ''c1'' revocation_New) [''d1'', ''d2''])"
    by (simp add: did_ok_def)
  then show ?thesis
    by (simp add: revocation_Find_def revocation_Reset_def revocation_New_def)
qed

subsection \<open>Replicas\<close>

text \<open>The in-memory store leaves the time of the last change of a new replica at zero, where the row has the time it
  was made; that time is left out of the comparison.\<close>

definition untimed :: "replica_Record \<Rightarrow> replica_Record" where
  "untimed r = r\<lparr>rep_UpdatedAt := go_zero_time\<rparr>"

definition replicas_rel :: "pg_formats \<Rightarrow> database \<Rightarrow> replica_store \<Rightarrow> bool" where
  "replicas_rel P d m \<longleftrightarrow> table_ok replica_key (scan_replica P) (t_replica d) \<and> replicas_ok m \<and>
     (\<forall>space digest provider. map_option untimed (replica_lookup m space digest provider) =
        map_option untimed (table_view replica_key (scan_replica P) (t_replica d) (space, digest_Format P digest, provider)))"

definition named_status :: "ReplicationStatus \<Rightarrow> bool" where
  "named_status status \<longleftrightarrow> parseStatus (ReplicationStatus_String status) = Ok status"

lemma named_status_cases: "named_status status \<longleftrightarrow> status \<in> {Allocated, Transferred, Failed}"
  by (cases status) (auto simp: named_status_def parseStatus_def)

lemma replica_lookup_same [simp]:
  "replica_lookup (m(space \<mapsto> replica_space m space)) = replica_lookup m" "replicas_ok (m(space \<mapsto> replica_space m space)) = replicas_ok m"
  by (simp_all add: fun_eq_iff replica_lookup_def replicas_ok_def replica_space_upd)

lemma replica_Add_result:
  assumes ok: "replicas_ok m" and step: "replica_Add space digest provider status cause now m = (m', r)"
  shows "replicas_ok m'" and "replica_lookup m space digest provider \<noteq> None \<Longrightarrow> replica_lookup m' = replica_lookup m \<and> r = Err ErrReplicaExists"
    and "replica_lookup m space digest provider = None \<Longrightarrow> r = Ok () \<and> replica_lookup m' = (replica_lookup m)(space := (replica_lookup m space)(digest :=
      (replica_lookup m space digest)(provider \<mapsto> \<lparr>rep_Space = space, rep_Digest = digest, rep_Provider = provider, rep_Status = status,
         rep_Cause = cause, rep_CreatedAt = now, rep_UpdatedAt = go_zero_time\<rparr>)))"
proof -
  have held: "m' = m(space \<mapsto> replica_space m space) \<and> r = Err ErrReplicaExists" if "replica_lookup m space digest provider \<noteq> None"
    using step that replica_is_find(2) [OF ok, of space digest provider] by (simp add: replica_Add_def Let_def)
  then show "replica_lookup m' = replica_lookup m \<and> r = Err ErrReplicaExists" if "replica_lookup m space digest provider \<noteq> None"
    using that by simp
  show "r = Ok () \<and> replica_lookup m' = (replica_lookup m)(space := (replica_lookup m space)(digest :=
      (replica_lookup m space digest)(provider \<mapsto> \<lparr>rep_Space = space, rep_Digest = digest, rep_Provider = provider, rep_Status = status,
         rep_Cause = cause, rep_CreatedAt = now, rep_UpdatedAt = go_zero_time\<rparr>)))" if "replica_lookup m space digest provider = None"
    by (rule replica_Add_spec [OF ok that, of status cause now]) (simp add: step)
  show "replicas_ok m'"
  proof (cases "replica_lookup m space digest provider")
    case None
    then show ?thesis by (rule replica_Add_spec [OF ok, of _ _ _ status cause now]) (simp add: step)
  qed (use held ok in simp)
qed

lemma replica_change_result:
  assumes ok: "replicas_ok m" and step: "(case IndexFunc (replica_is space digest provider) (replica_space m space digest) of
      Some i \<Rightarrow> (m(space \<mapsto> replica_space m space, space \<mapsto> (replica_space m space)(digest := (replica_space m space digest)[i :=
        f (replica_space m space digest ! i)])), Ok ())
    | None \<Rightarrow> (m(space \<mapsto> replica_space m space), Err ErrReplicaNotFound)) = (m', r)"
    and f: "\<And>x. rep_Space (f x) = rep_Space x" "\<And>x. rep_Digest (f x) = rep_Digest x" "\<And>x. rep_Provider (f x) = rep_Provider x"
  shows "replicas_ok m'" and "r = (if replica_lookup m space digest provider = None then Err ErrReplicaNotFound else Ok ())"
    and "replica_lookup m' = (replica_lookup m)(space := (replica_lookup m space)(digest := (replica_lookup m space digest)(provider :=
      map_option f (replica_lookup m space digest provider))))"
proof -
  let ?rs = "replica_space m space digest"
  have at: "replica_lookup m space digest provider = map_option ((!) ?rs) (IndexFunc (\<lambda>r. rep_Provider r = provider) ?rs)"
    by (simp add: replica_lookup_def IndexFunc_find)
  note step' = step [unfolded replica_is_find(1) [OF ok]]
  have "replicas_ok m' \<and> r = (if replica_lookup m space digest provider = None then Err ErrReplicaNotFound else Ok ()) \<and>
    replica_lookup m' = (replica_lookup m)(space := (replica_lookup m space)(digest := (replica_lookup m space digest)(provider :=
      map_option f (replica_lookup m space digest provider))))"
  proof (cases "IndexFunc (\<lambda>r. rep_Provider r = provider) ?rs")
    case None
    with step' ok at show ?thesis by (auto simp: fun_upd_idem)
  next
    case (Some i)
    have i: "?rs ! i \<in> set ?rs" "rep_Provider (?rs ! i) = provider"
      using IndexFunc_SomeD [OF Some] by simp_all
    with ok have "rep_Space (?rs ! i) = space" "rep_Digest (?rs ! i) = digest"
      by (simp_all add: replicas_ok_def)
    moreover have "m' = m(space \<mapsto> (replica_space m space)(digest := ?rs[i := f (?rs ! i)]))" "r = Ok ()"
      using step' Some by simp_all
    ultimately show ?thesis
      using Token_Stores.replica_update [OF ok Some, of "f (?rs ! i)" m'] i(2) at Some by (simp add: f)
  qed
  then show "replicas_ok m'" "r = (if replica_lookup m space digest provider = None then Err ErrReplicaNotFound else Ok ())"
    "replica_lookup m' = (replica_lookup m)(space := (replica_lookup m space)(digest := (replica_lookup m space digest)(provider :=
      map_option f (replica_lookup m space digest provider))))"
    by blast+
qed

interpretation replica_add_write: pg_write
  "\<lambda>d m. replicas_rel P d m \<and> pg_formats_ok P \<and> did_ok P space \<and> did_ok P provider \<and> named_status status"
  "replica_insert P space digest provider status cause" "replica_Add space digest provider status cause"
  "code_answer uniqueViolation ErrReplicaExists ''adding replica''" for P space digest provider status cause
proof
  fix d m now d' n m' r e
  let ?row = "\<lparr>rr_space = space, rr_digest = digest_Format P digest, rr_provider = provider,
    rr_status = ReplicationStatus_String status, rr_cause = cid_String P cause, rr_inserted_at = now, rr_updated_at = now\<rparr>"
  let ?new = "\<lparr>rep_Space = space, rep_Digest = digest, rep_Provider = provider, rep_Status = status, rep_Cause = cause,
    rep_CreatedAt = now, rep_UpdatedAt = now\<rparr>"
  let ?C = "pg_formats_ok P \<and> did_ok P space \<and> did_ok P provider \<and> named_status status"
  assume R: "replicas_rel P d m \<and> ?C" and step: "replica_Add space digest provider status cause now m = (m', r)"
  then have P: "pg_formats_ok P" and ok: "table_ok replica_key (scan_replica P) (t_replica d)" and m: "replicas_ok m"
    and lookup: "\<And>sp dg pr. map_option untimed (replica_lookup m sp dg pr) =
      map_option untimed (table_view replica_key (scan_replica P) (t_replica d) (sp, digest_Format P dg, pr))"
    by (simp_all add: replicas_rel_def)
  have scan: "scan_replica P ?row = Ok ?new"
    using R by (simp add: scan_replica_def did_ok_def named_status_def pg_formats_okD)
  have key: "replica_key ?row = (space, digest_Format P digest, provider)" by (simp add: replica_key_def)
  have held: "replica_lookup m space digest provider = None \<longleftrightarrow> (space, digest_Format P digest, provider) \<notin> replica_key ` set (t_replica d)"
    using lookup [of space digest provider] table_view_None [OF ok, of "(space, digest_Format P digest, provider)"]
    by (metis option.map_disc_iff)
  note add = replica_Add_result [OF m step]
  show "(replicas_rel P d' m' \<and> ?C) \<and> r = code_answer uniqueViolation ErrReplicaExists ''adding replica'' (Done n)"
    if "replica_insert P space digest provider status cause now d = Done (d', n)"
  proof -
    from that have d': "d' = d\<lparr>t_replica := t_replica d @ [?row]\<rparr>"
      and new: "(space, digest_Format P digest, provider) \<notin> replica_key ` set (t_replica d)"
      by (auto simp: replica_insert_def sql_insert_cases key)
    with R add held lookup table_insert [OF ok _ scan, unfolded key, OF new] show ?thesis
      by (simp add: replicas_rel_def answer_defs pg_formats_okD(5) [OF P] untimed_def)
  qed
  show "(replicas_rel P d m' \<and> ?C) \<and> r = code_answer uniqueViolation ErrReplicaExists ''adding replica'' (Fail e)"
    if "replica_insert P space digest provider status cause now d = Fail e"
    using that R add held by (auto simp: replica_insert_def sql_insert_cases key answer_defs replicas_rel_def)
qed (simp add: answer_defs ErrReplicaExists_def)

text \<open>The two calls that rewrite the row of a replica, which has to be there.\<close>

lemma replica_update_Done:
  assumes R: "replicas_rel P d m" and P: "pg_formats_ok P" and st: "replica_update P space digest provider upd now d = Done (d', n)"
    and keep: "\<And>r. replica_key (upd r) = replica_key r"
    and scan: "\<And>r x. scan_replica P r = Ok x \<Longrightarrow> scan_replica P ((upd r)\<lparr>rr_updated_at := now\<rparr>) = Ok (f x)"
    and same: "\<And>x y. untimed x = untimed y \<Longrightarrow> untimed (f x) = untimed (f y)"
    and m': "replicas_ok m'" "replica_lookup m' = (replica_lookup m)(space := (replica_lookup m space)(digest :=
      (replica_lookup m space digest)(provider := map_option f (replica_lookup m space digest provider))))"
  shows "replicas_rel P d' m'" and "n = 0 \<longleftrightarrow> replica_lookup m space digest provider = None"
proof -
  let ?k = "(space, digest_Format P digest, provider)"
  let ?upd = "\<lambda>r. (upd r)\<lparr>rr_updated_at := now\<rparr>"
  have ok: "table_ok replica_key (scan_replica P) (t_replica d)"
    and lookup: "\<And>sp dg pr. map_option untimed (replica_lookup m sp dg pr) =
      map_option untimed (table_view replica_key (scan_replica P) (t_replica d) (sp, digest_Format P dg, pr))"
    using R by (simp_all add: replicas_rel_def)
  have d': "d' = d\<lparr>t_replica := map (\<lambda>r. if replica_key r = ?k then ?upd r else r) (t_replica d)\<rparr>"
    "n = length (filter (\<lambda>r. replica_key r = ?k) (t_replica d))"
    using st by (auto simp: Pg_Accounts.replica_update_def sql_update_def)
  have keep': "replica_key (?upd r) = replica_key r" for r
    using keep [of r] by (simp add: replica_key_def)
  note new = table_update [OF ok, of ?upd f ?k, OF keep' scan]
  have "map_option untimed (map_option f a) = map_option untimed (map_option f b)" if "map_option untimed a = map_option untimed b" for a b
    using that by (cases a; cases b) (auto intro: same)
  with lookup [of space digest provider]
  have "map_option untimed (map_option f (replica_lookup m space digest provider)) =
      map_option untimed (map_option f (table_view replica_key (scan_replica P) (t_replica d) ?k))" by blast
  then show "replicas_rel P d' m'"
    using new m' lookup by (simp add: replicas_rel_def d' pg_formats_okD(5) [OF P])
  show "n = 0 \<longleftrightarrow> replica_lookup m space digest provider = None"
  proof -
    have "replica_lookup m space digest provider = None \<longleftrightarrow> table_view replica_key (scan_replica P) (t_replica d) ?k = None"
      using arg_cong [OF lookup [of space digest provider], of "\<lambda>x. x = None"] by simp
    then show ?thesis
      using table_view_None [OF ok, of ?k] filter_key_length [of replica_key ?k "t_replica d"] by (simp only: d'(2))
  qed
qed

interpretation replica_retry_write: pg_write "\<lambda>d m. replicas_rel P d m \<and> pg_formats_ok P \<and> named_status status"
  "replica_update P space digest provider (\<lambda>r. r\<lparr>rr_status := ReplicationStatus_String status, rr_cause := cid_String P cause\<rparr>)"
  "replica_Retry space digest provider status cause" "found_answer ErrReplicaNotFound ''retrying replica''"
  for P space digest provider status cause
proof
  fix d m now d' n m' r e
  let ?upd = "\<lambda>r. r\<lparr>rr_status := ReplicationStatus_String status, rr_cause := cid_String P cause\<rparr>"
  let ?f = "\<lambda>x. x\<lparr>rep_Status := status, rep_Cause := cause, rep_UpdatedAt := now\<rparr>"
  assume R: "replicas_rel P d m \<and> pg_formats_ok P \<and> named_status status"
    and step: "replica_Retry space digest provider status cause now m = (m', r)"
  have scan: "scan_replica P ((?upd r)\<lparr>rr_updated_at := now\<rparr>) = Ok (?f x)" if "scan_replica P r = Ok x" for r x
    using that R by (auto simp: scan_replica_def named_status_def pg_formats_okD(2))
  have same: "untimed (?f x) = untimed (?f y)" if "untimed x = untimed y" for x y
    using that by (cases x; cases y) (simp add: untimed_def)
  have "replicas_ok m" using R by (simp add: replicas_rel_def)
  from replica_change_result [OF this, where space = space and digest = digest and provider = provider and f = ?f] step
  have m': "replicas_ok m'" "r = (if replica_lookup m space digest provider = None then Err ErrReplicaNotFound else Ok ())"
    "replica_lookup m' = (replica_lookup m)(space := (replica_lookup m space)(digest := (replica_lookup m space digest)(provider :=
      map_option ?f (replica_lookup m space digest provider))))"
    by (simp_all add: replica_Retry_def Let_def)
  show "(replicas_rel P d' m' \<and> pg_formats_ok P \<and> named_status status) \<and> r = found_answer ErrReplicaNotFound ''retrying replica'' (Done n)"
    if st: "replica_update P space digest provider ?upd now d = Done (d', n)"
    using replica_update_Done [OF _ _ st _ scan same m'(1,3)] R m'(2) by (auto simp: answer_defs replica_key_def)
  show "(replicas_rel P d m' \<and> pg_formats_ok P \<and> named_status status) \<and> r = found_answer ErrReplicaNotFound ''retrying replica'' (Fail e)"
    if "replica_update P space digest provider ?upd now d = Fail e"
    using that by (simp add: Pg_Accounts.replica_update_def sql_update_def)
qed (simp add: answer_defs)

interpretation replica_status_write: pg_write "\<lambda>d m. replicas_rel P d m \<and> pg_formats_ok P \<and> named_status status"
  "replica_update P space digest provider (\<lambda>r. r\<lparr>rr_status := ReplicationStatus_String status\<rparr>)"
  "replica_SetStatus space digest provider status" "found_answer ErrReplicaNotFound ''setting replica status''"
  for P space digest provider status
proof
  fix d m now d' n m' r e
  let ?upd = "\<lambda>r. r\<lparr>rr_status := ReplicationStatus_String status\<rparr>"
  let ?f = "\<lambda>x. x\<lparr>rep_Status := status, rep_UpdatedAt := now\<rparr>"
  assume R: "replicas_rel P d m \<and> pg_formats_ok P \<and> named_status status"
    and step: "replica_SetStatus space digest provider status now m = (m', r)"
  have scan: "scan_replica P ((?upd r)\<lparr>rr_updated_at := now\<rparr>) = Ok (?f x)" if "scan_replica P r = Ok x" for r x
    using that R by (auto simp: scan_replica_def named_status_def)
  have same: "untimed (?f x) = untimed (?f y)" if "untimed x = untimed y" for x y
    using that by (cases x; cases y) (simp add: untimed_def)
  have "replicas_ok m" using R by (simp add: replicas_rel_def)
  from replica_change_result [OF this, where space = space and digest = digest and provider = provider and f = ?f] step
  have m': "replicas_ok m'" "r = (if replica_lookup m space digest provider = None then Err ErrReplicaNotFound else Ok ())"
    "replica_lookup m' = (replica_lookup m)(space := (replica_lookup m space)(digest := (replica_lookup m space digest)(provider :=
      map_option ?f (replica_lookup m space digest provider))))"
    by (simp_all add: replica_SetStatus_def Let_def)
  show "(replicas_rel P d' m' \<and> pg_formats_ok P \<and> named_status status) \<and> r = found_answer ErrReplicaNotFound ''setting replica status'' (Done n)"
    if st: "replica_update P space digest provider ?upd now d = Done (d', n)"
    using replica_update_Done [OF _ _ st _ scan same m'(1,3)] R m'(2) by (auto simp: answer_defs replica_key_def)
  show "(replicas_rel P d m' \<and> pg_formats_ok P \<and> named_status status) \<and> r = found_answer ErrReplicaNotFound ''setting replica status'' (Fail e)"
    if "replica_update P space digest provider ?upd now d = Fail e"
    using that by (simp add: Pg_Accounts.replica_update_def sql_update_def)
qed (simp add: answer_defs)

lemma pg_replica_List_rows:
  assumes R: "replicas_rel P (pg_seen E s) m" and P: "pg_formats_ok P" and "fault_free E"
  shows "\<exists>rs. snd (pg_replica_List E P space digest s) = Ok rs \<and>
    untimed ` set rs = untimed ` set (replica_space m space digest)"
proof -
  let ?t = "t_replica (pg_seen E s)"
  let ?sel = "filter (\<lambda>r. rr_space r = space \<and> rr_digest r = digest_Format P digest) ?t"
  let ?view = "\<lambda>r. the (ok_of (scan_replica P r))"
  have ok: "table_ok replica_key (scan_replica P) ?t" and m: "replicas_ok m"
    and lookup: "\<And>pr. map_option untimed (replica_lookup m space digest pr) =
      map_option untimed (table_view replica_key (scan_replica P) ?t (space, digest_Format P digest, pr))"
    using R by (simp_all add: replicas_rel_def)
  have scan: "scan_replica P r = Ok (?view r)" if "r \<in> set ?t" for r
    using ok that by (cases "scan_replica P r") (auto simp: table_ok_def list_all_iff)
  have row: "table_view replica_key (scan_replica P) ?t (space, digest_Format P digest, pr) = Some x \<longleftrightarrow>
      (\<exists>r \<in> set ?sel. rr_provider r = pr \<and> scan_replica P r = Ok x)" for pr x
  proof
    assume at: "table_view replica_key (scan_replica P) ?t (space, digest_Format P digest, pr) = Some x"
    then obtain r where r: "find (\<lambda>r. replica_key r = (space, digest_Format P digest, pr)) ?t = Some r" "ok_of (scan_replica P r) = Some x"
      by (auto simp: table_view_def bind_eq_Some_conv)
    with find_SomeD [OF r(1)] scan [of r] show "\<exists>r \<in> set ?sel. rr_provider r = pr \<and> scan_replica P r = Ok x"
      by (auto simp: replica_key_def)
  next
    assume "\<exists>r \<in> set ?sel. rr_provider r = pr \<and> scan_replica P r = Ok x"
    then obtain r where r: "r \<in> set ?t" "replica_key r = (space, digest_Format P digest, pr)" "scan_replica P r = Ok x"
      by (auto simp: replica_key_def)
    with ok find_eq_iff_key [of replica_key ?t r] show "table_view replica_key (scan_replica P) ?t (space, digest_Format P digest, pr) = Some x"
      by (simp add: table_ok_def table_view_def)
  qed
  have mem: "replica_lookup m space digest pr = Some x \<longleftrightarrow> x \<in> set (replica_space m space digest) \<and> rep_Provider x = pr" for pr x
    using m find_eq_iff_key [of rep_Provider "replica_space m space digest" x] find_SomeD [of "\<lambda>r. rep_Provider r = pr" _ x]
    by (auto simp: replica_lookup_def replicas_ok_def)
  let ?rs = "map ?view (sort_key (\<lambda>r. collate P (rr_provider r)) ?sel)"
  have "snd (pg_replica_List E P space digest s) = Ok ?rs"
  proof -
    have "scan_rows (scan_replica P) (sort_key (\<lambda>r. collate P (rr_provider r)) ?sel) = Ok ?rs"
      by (rule scan_rows_map, rule scan) simp
    with assms(3) show ?thesis by (simp add: pg_replica_List_def fault_free_pool_Query)
  qed
  moreover have "untimed ` set ?rs = untimed ` set (replica_space m space digest)"
  proof (intro set_eqI iffI)
    fix y assume "y \<in> untimed ` set ?rs"
    then obtain r where r: "r \<in> set ?sel" "y = untimed (?view r)" by auto
    with row [of "rr_provider r" "?view r"] scan [of r] lookup [of "rr_provider r"]
    have "map_option untimed (replica_lookup m space digest (rr_provider r)) = Some y" by auto
    with mem show "y \<in> untimed ` set (replica_space m space digest)" by auto
  next
    fix y assume "y \<in> untimed ` set (replica_space m space digest)"
    then obtain x where x: "x \<in> set (replica_space m space digest)" "y = untimed x" by auto
    with mem [of "rep_Provider x" x] lookup [of "rep_Provider x"]
    have "map_option untimed (table_view replica_key (scan_replica P) ?t (space, digest_Format P digest, rep_Provider x)) = Some y"
      by simp
    then obtain z where z: "table_view replica_key (scan_replica P) ?t (space, digest_Format P digest, rep_Provider x) = Some z" "untimed z = y"
      by auto
    from z(1) obtain r where "r \<in> set ?sel" "scan_replica P r = Ok z" "untimed z = y"
      unfolding row using z(2) by auto
    then show "y \<in> untimed ` set ?rs" by (auto intro!: image_eqI [of _ untimed] rev_image_eqI [of r])
  qed
  ultimately show ?thesis by blast
qed

text \<open>
Replicas in Postgres implement those in memory, but for the time of the last change. Adding a replica,
retrying it and setting its status, with one of the three statuses, are each one step of the in-memory store,
the whole of it or nothing, whatever requests and answers are lost; without faults the call is the step, with
its error where the replica is there already or is missing. Listing the replicas of a blob without faults
returns and gives the replicas the in-memory store has.
\<close>

theorem pg_replicas_refine:
  assumes "pg_formats_ok P" and "did_ok P space" and "did_ok P provider" and "named_status status"
  shows "simulates (replicas_rel P) (replica_Add space digest provider status cause) E
      (pg_replica_Add E P space digest provider status cause) s \<and>
    simulates (replicas_rel P) (replica_Retry space digest provider status cause) E
      (pg_replica_Retry E P space digest provider status cause) s \<and>
    simulates (replicas_rel P) (replica_SetStatus space digest provider status) E
      (pg_replica_SetStatus E P space digest provider status) s \<and>
    (\<forall>m. replicas_rel P (pg_seen E s) m \<longrightarrow> fault_free E \<longrightarrow>
      (\<exists>rs ms. snd (pg_replica_List E P space digest s) = Ok rs \<and> replica_List m space digest = Ok ms \<and>
        untimed ` set rs = untimed ` set ms))"
proof (intro conjI allI impI)
  show "simulates (replicas_rel P) (replica_Add space digest provider status cause) E
      (pg_replica_Add E P space digest provider status cause) s"
    using assms by (intro simulates_under [OF replica_add_write.simulates]) (simp_all add: pg_replica_Add_def calls_answer)
  show "simulates (replicas_rel P) (replica_Retry space digest provider status cause) E
      (pg_replica_Retry E P space digest provider status cause) s"
    using assms by (intro simulates_under [OF replica_retry_write.simulates]) (simp_all add: pg_replica_Retry_def calls_answer)
  show "simulates (replicas_rel P) (replica_SetStatus space digest provider status) E
      (pg_replica_SetStatus E P space digest provider status) s"
    using assms by (intro simulates_under [OF replica_status_write.simulates]) (simp_all add: pg_replica_SetStatus_def calls_answer)
  fix m assume "replicas_rel P (pg_seen E s) m" and "fault_free E"
  moreover have "replica_List m space digest = Ok (replica_space m space digest)"
    by (simp add: replica_List_def replica_space_def split: option.split)
  ultimately show "\<exists>rs ms. snd (pg_replica_List E P space digest s) = Ok rs \<and> replica_List m space digest = Ok ms \<and>
        untimed ` set rs = untimed ` set ms"
    using pg_replica_List_rows [OF _ assms(1)] by metis
qed

theorem pg_replicas_refine_witness:
  "snd (pg_replica_SetStatus quiet sample_pg_formats ''did:sp'' ''d1'' ''did:p'' Transferred
     (fst (pg_replica_Add quiet sample_pg_formats ''did:sp'' ''d1'' ''did:p'' Transferred ''c1'' empty_pg))) = Ok () \<and>
   snd (pg_replica_SetStatus quiet sample_pg_formats ''did:sp'' ''d1'' ''did:p'' Transferred empty_pg) = Err ErrReplicaNotFound"
proof -
  let ?add = "pg_replica_Add quiet sample_pg_formats ''did:sp'' ''d1'' ''did:p'' Transferred ''c1''"
  let ?set = "pg_replica_SetStatus quiet sample_pg_formats ''did:sp'' ''d1'' ''did:p'' Transferred"
  have new: "replicas_rel sample_pg_formats (pg_db empty_pg) replica_New"
    by (simp add: replicas_rel_def empty_database_def replica_New_def table_view_def replicas_ok_New [unfolded replica_New_def]
        replica_lookup_def replica_space_def)
  note refines = pg_replicas_refine [OF sample_pg_formats_ok, of "''did:sp''" "''did:p''" Transferred "''d1''" "''c1''" quiet]
  have sim: "simulates (replicas_rel sample_pg_formats) (replica_Add ''did:sp'' ''d1'' ''did:p'' Transferred ''c1'') quiet ?add s"
    "simulates (replicas_rel sample_pg_formats) (replica_SetStatus ''did:sp'' ''d1'' ''did:p'' Transferred) quiet ?set s" for s
    using refines [of s] by (simp_all add: did_ok_def named_status_cases)
  from simulates_quiet(1) [where m = replica_New and s = empty_pg, OF sim(1)] new
  have made: "replicas_rel sample_pg_formats (pg_db (fst (?add empty_pg))) (fst (replica_Add ''did:sp'' ''d1'' ''did:p'' Transferred ''c1'' 0 replica_New))"
    by simp
  from simulates_quiet(2) [where m = replica_New and s = empty_pg, OF sim(2)] new
    simulates_quiet(2) [where m = "fst (replica_Add ''did:sp'' ''d1'' ''did:p'' Transferred ''c1'' 0 replica_New)" and s = "fst (?add empty_pg)", OF sim(2)] made
  show ?thesis
    by (simp add: replica_SetStatus_def replica_Add_def replica_space_def replica_is_def replica_New_def Let_def)
qed

end
