(* ===== verification/Pg_Members.thy ===== *)
theory Pg_Members
  imports Pg_Stores
begin

section \<open>Postgres stores of customers, subscriptions and consumers\<close>

text \<open>
  The stores of \<open>Accounts\<close> in Postgres. A subscription keeps the time it was made, which the in-memory store does
  not; it is left out of the comparison. Consumers are a table with the key of subscription and provider, where
  the in-memory store keeps a list for each space and tells apart consumers by all their fields: the two agree
  where a subscription with a provider belongs to one space and one customer, and where it does not, Postgres refuses
  a consumer that the in-memory store adds.
\<close>

lemma simulates_when:
  assumes "simulates (\<lambda>d m. R d m \<and> C d) step E call s" and "C (pg_seen E s)"
  shows "simulates R step E call s"
  using assms by (auto simp: simulates_def split_beta)

subsection \<open>Customers\<close>

definition customers_rel :: "pg_formats \<Rightarrow> acct_lib \<Rightarrow> database \<Rightarrow> customer_store \<Rightarrow> bool" where
  "customers_rel P L d m \<longleftrightarrow> table_ok cr_customer (scan_customer P L) (t_customer d) \<and> customers_ok m \<and>
     customer_lookup m = table_view cr_customer (scan_customer P L) (t_customer d)"

text \<open>Details that are read back from the column.\<close>

definition details_kept :: "acct_lib \<Rightarrow> (string \<rightharpoonup> any_value) \<Rightarrow> bytes option \<Rightarrow> bool" where
  "details_kept L details js \<longleftrightarrow> (case js of None \<Rightarrow> details = Map.empty
     | Some b \<Rightarrow> details \<noteq> Map.empty \<and> details_Marshal L details = Ok b \<and> jsonb L b \<noteq> [] \<and>
         details_Unmarshal L (jsonb L b) = Ok details)"

lemma customer_Add_lookup:
  assumes "customers_ok m" and "customer_Add k acc prd det cap now m = (m', r)"
  shows "customers_ok m'" and "customer_lookup m k \<noteq> None \<Longrightarrow> m' = m \<and> r = Err ErrCustomerExists"
    and "customer_lookup m k = None \<Longrightarrow> r = Ok () \<and> customer_lookup m' = (customer_lookup m)(k \<mapsto> customer_make k (acc, prd, det, cap, now))"
  using assms customer_table.add_held [of m k "(acc, prd, det, cap, now)"]
    customer_table.add_new [OF assms(1), of k "(acc, prd, det, cap, now)"]
    customer_table.add_invar [OF assms(1), of k "(acc, prd, det, cap, now)"]
  by (auto simp: customer_add_def)

interpretation customer_add_write: pg_write
  "\<lambda>d m. customers_rel P L d m \<and> did_ok P k \<and> did_ok P prd \<and> details_kept L det js"
  "customer_insert L k acc prd js (map_option sint cap)" "customer_Add k acc prd det cap"
  "code_answer uniqueViolation ErrCustomerExists ''adding customer''" for P L k acc prd det js cap
proof
  fix d m now d' n m' r e
  let ?row = "\<lparr>cr_customer = k, cr_external_account = acc, cr_product = prd, cr_details = map_option (jsonb L) js,
    cr_reserved_capacity = map_option sint cap, cr_inserted_at = now, cr_updated_at = None\<rparr>"
  assume R: "customers_rel P L d m \<and> did_ok P k \<and> did_ok P prd \<and> details_kept L det js"
    and step: "customer_Add k acc prd det cap now m = (m', r)"
  then have ok: "table_ok cr_customer (scan_customer P L) (t_customer d)" and m: "customers_ok m"
    and lookup: "customer_lookup m = table_view cr_customer (scan_customer P L) (t_customer d)"
    by (simp_all add: customers_rel_def)
  have scan: "scan_customer P L ?row = Ok (customer_make k (acc, prd, det, cap, now))"
    using R by (auto simp: scan_customer_def did_ok_def details_kept_def customer_make_def option.map_comp o_def option.map_ident
        split: option.splits)
  note add = customer_Add_lookup [OF m step]
  show "(customers_rel P L d' m' \<and> did_ok P k \<and> did_ok P prd \<and> details_kept L det js) \<and>
      r = code_answer uniqueViolation ErrCustomerExists ''adding customer'' (Done n)"
    if "customer_insert L k acc prd js (map_option sint cap) now d = Done (d', n)"
    using that R add lookup table_insert [OF ok _ scan] table_view_None [OF ok, of k]
    by (auto simp: customer_insert_def sql_insert_cases customers_rel_def answer_defs)
  show "(customers_rel P L d m' \<and> did_ok P k \<and> did_ok P prd \<and> details_kept L det js) \<and>
      r = code_answer uniqueViolation ErrCustomerExists ''adding customer'' (Fail e)"
    if "customer_insert L k acc prd js (map_option sint cap) now d = Fail e"
    using that R add lookup table_view_None [OF ok, of k] by (auto simp: customer_insert_def sql_insert_cases answer_defs)
qed (simp add: answer_defs ErrCustomerExists_def)

lemma customer_UpdateProduct_lookup:
  assumes ok: "customers_ok m" and step: "customer_UpdateProduct k prd now m = (m', r)"
  shows "customers_ok m'" and "r = (if customer_lookup m k = None then Err ErrCustomerNotFound else Ok ())"
    and "customer_lookup m' = (customer_lookup m)(k := map_option (\<lambda>c. c\<lparr>cust_Product := prd, cust_UpdatedAt := now\<rparr>) (customer_lookup m k))"
proof -
  let ?f = "\<lambda>c. c\<lparr>cust_Product := prd, cust_UpdatedAt := now\<rparr>"
  have at: "customer_lookup m k = map_option ((!) m) (IndexFunc (\<lambda>c. cust_Customer c = k) m)"
    by (simp add: customer_lookup_def IndexFunc_find)
  have "customers_ok m' \<and> r = (if customer_lookup m k = None then Err ErrCustomerNotFound else Ok ()) \<and>
    customer_lookup m' = (customer_lookup m)(k := map_option ?f (customer_lookup m k))"
  proof (cases "IndexFunc (\<lambda>c. cust_Customer c = k) m")
    case None
    with step ok at show ?thesis by (auto simp: customer_UpdateProduct_def fun_upd_idem)
  next
    case (Some i)
    have i: "i < length m" "cust_Customer (m ! i) = k"
      using IndexFunc_SomeD [OF Some] by simp_all
    have m': "m' = m[i := ?f (m ! i)]" "r = Ok ()"
      using step Some by (simp_all add: customer_UpdateProduct_def)
    have "map cust_Customer m' = map cust_Customer m"
      using i by (simp add: m' map_update list_update_same_conv)
    with ok have "customers_ok m'" by (simp add: customers_ok_def)
    moreover have "customer_lookup m' = (customer_lookup m)(k \<mapsto> ?f (m ! i))"
      using find_update_key [OF Some, of "?f (m ! i)"] i by (simp add: m' customer_lookup_def fun_eq_iff)
    ultimately show ?thesis using Some at m' by simp
  qed
  then show "customers_ok m'" "r = (if customer_lookup m k = None then Err ErrCustomerNotFound else Ok ())"
    "customer_lookup m' = (customer_lookup m)(k := map_option ?f (customer_lookup m k))"
    by blast+
qed

interpretation customer_update_write: pg_write "\<lambda>d m. customers_rel P L d m \<and> did_ok P prd"
  "customer_update k prd" "customer_UpdateProduct k prd"
  "found_answer ErrCustomerNotFound ''updating customer product''" for P L k prd
proof
  fix d m now d' n m' r e
  let ?upd = "\<lambda>r. r\<lparr>cr_product := prd, cr_updated_at := Some now\<rparr>"
  let ?f = "\<lambda>c. c\<lparr>cust_Product := prd, cust_UpdatedAt := now\<rparr>"
  assume R: "customers_rel P L d m \<and> did_ok P prd" and step: "customer_UpdateProduct k prd now m = (m', r)"
  then have ok: "table_ok cr_customer (scan_customer P L) (t_customer d)" and m: "customers_ok m"
    and lookup: "customer_lookup m = table_view cr_customer (scan_customer P L) (t_customer d)"
    by (simp_all add: customers_rel_def)
  have scan: "scan_customer P L (?upd r) = Ok (?f x)" if "scan_customer P L r = Ok x" for r x
    using that R by (auto simp: scan_customer_def did_ok_def)
  note new = table_update [OF ok, of ?upd ?f k, OF _ scan] customer_UpdateProduct_lookup [OF m step]
  show "(customers_rel P L d' m' \<and> did_ok P prd) \<and> r = found_answer ErrCustomerNotFound ''updating customer product'' (Done n)"
    if "customer_update k prd now d = Done (d', n)"
    using that R new lookup table_view_None [OF ok, of k] filter_key_length [of cr_customer k "t_customer d"]
    by (auto simp: customer_update_def sql_update_def customers_rel_def answer_defs)
  show "(customers_rel P L d m' \<and> did_ok P prd) \<and> r = found_answer ErrCustomerNotFound ''updating customer product'' (Fail e)"
    if "customer_update k prd now d = Fail e"
    using that by (simp add: customer_update_def sql_update_def)
qed (simp add: answer_defs)

subsection \<open>Subscriptions\<close>

definition subscriptions_rel :: "pg_formats \<Rightarrow> database \<Rightarrow> subscription_store \<Rightarrow> bool" where
  "subscriptions_rel P d m \<longleftrightarrow> table_ok subscription_key (scan_subscription P) (t_subscription d) \<and>
     (\<forall>p i. subscription_lookup m (p, i) = map_option (\<lambda>r. r\<lparr>sub_InsertedAt := go_zero_time\<rparr>)
        (table_view subscription_key (scan_subscription P) (t_subscription d) (i, p)))"

interpretation subscription_write: pg_write
  "\<lambda>d m. subscriptions_rel P d m \<and> pg_formats_ok P \<and> did_ok P provider \<and> did_ok P customer"
  "subscription_insert P provider i customer cause" "\<lambda>_. subscription_Add provider i customer cause"
  "code_answer uniqueViolation ErrSubscriptionExists ''adding subscription''" for P provider i customer cause
proof
  fix d m now d' n m' r e
  let ?row = "\<lparr>sr_subscription = i, sr_provider = provider, sr_customer = customer, sr_cause = cid_String P cause, sr_inserted_at = now\<rparr>"
  let ?new = "\<lparr>sub_Provider = provider, sub_Subscription = i, sub_Customer = customer, sub_Cause = cause, sub_InsertedAt = now\<rparr>"
  assume R: "subscriptions_rel P d m \<and> pg_formats_ok P \<and> did_ok P provider \<and> did_ok P customer"
    and step: "subscription_Add provider i customer cause m = (m', r)"
  then have ok: "table_ok subscription_key (scan_subscription P) (t_subscription d)"
    and lookup: "\<And>p i. subscription_lookup m (p, i) = map_option (\<lambda>r. r\<lparr>sub_InsertedAt := go_zero_time\<rparr>)
        (table_view subscription_key (scan_subscription P) (t_subscription d) (i, p))"
    by (simp_all add: subscriptions_rel_def)
  have scan: "scan_subscription P ?row = Ok ?new"
    using R by (simp add: scan_subscription_def did_ok_def pg_formats_okD(2))
  have key: "subscription_key ?row = (i, provider)" by (simp add: subscription_key_def)
  show "(subscriptions_rel P d' m' \<and> pg_formats_ok P \<and> did_ok P provider \<and> did_ok P customer) \<and>
      r = code_answer uniqueViolation ErrSubscriptionExists ''adding subscription'' (Done n)"
    if "subscription_insert P provider i customer cause now d = Done (d', n)"
  proof -
    from that have d': "d' = d\<lparr>t_subscription := t_subscription d @ [?row]\<rparr>"
      and new: "(i, provider) \<notin> subscription_key ` set (t_subscription d)"
      by (auto simp: subscription_insert_def sql_insert_cases key)
    note view = table_insert [OF ok _ scan, unfolded key, OF new]
    have "subscription_lookup m (provider, i) = None"
      using table_view_None [OF ok, of "(i, provider)"] new by (simp add: lookup)
    with subscription_Add_new [of m provider i customer cause] step
    have "r = Ok ()" "subscription_lookup m' = (subscription_lookup m)((provider, i) \<mapsto> subscription_make (provider, i) (customer, cause))"
      by simp_all
    with R view show ?thesis
      by (auto simp: subscriptions_rel_def d' subscription_make_def answer_defs)
  qed
  show "(subscriptions_rel P d m' \<and> pg_formats_ok P \<and> did_ok P provider \<and> did_ok P customer) \<and>
      r = code_answer uniqueViolation ErrSubscriptionExists ''adding subscription'' (Fail e)"
    if "subscription_insert P provider i customer cause now d = Fail e"
  proof -
    from that have held: "(i, provider) \<in> subscription_key ` set (t_subscription d)" "e = PgError uniqueViolation"
      by (auto simp: subscription_insert_def sql_insert_cases key)
    then have "subscription_lookup m (provider, i) \<noteq> None"
      using table_view_None [OF ok, of "(i, provider)"] by (simp add: lookup)
    with subscription_Add_held [of m provider i customer cause] step R held show ?thesis
      by (simp add: answer_defs)
  qed
qed (simp add: answer_defs ErrSubscriptionExists_def)

subsection \<open>Consumers\<close>

definition consumers_rel :: "pg_formats \<Rightarrow> database \<Rightarrow> consumer_store \<Rightarrow> bool" where
  "consumers_rel P d m \<longleftrightarrow> table_ok consumer_row_key (scan_consumer P) (t_consumer d) \<and>
     list_all (\<lambda>r. did_ok P (cn_provider r) \<and> did_ok P (cn_consumer r) \<and> did_ok P (cn_customer r)) (t_consumer d) \<and>
     (\<forall>space. set (m space) = {x. \<exists>r \<in> set (t_consumer d). cn_consumer r = space \<and> scan_consumer P r = Ok x})"

lemma consumers_relD:
  assumes "consumers_rel P d m" and "r \<in> set (t_consumer d)"
  obtains x where "scan_consumer P r = Ok x" "x \<in> set (m (cn_consumer r))" "con_Provider x = cn_provider r"
    "con_Consumer x = cn_consumer r" "con_Customer x = cn_customer r" "con_Subscription x = cn_subscription r"
proof -
  have "is_Ok (scan_consumer P r)"
    using assms by (auto simp: consumers_rel_def table_ok_def list_all_iff)
  then obtain x where x: "scan_consumer P r = Ok x" by (cases "scan_consumer P r") auto
  moreover have "x \<in> set (m (cn_consumer r))"
    using assms x by (auto simp: consumers_rel_def)
  moreover have "con_Provider x = cn_provider r" "con_Consumer x = cn_consumer r" "con_Customer x = cn_customer r"
    "con_Subscription x = cn_subscription r"
    using assms x by (auto simp: consumers_rel_def list_all_iff did_ok_def scan_consumer_def)
  ultimately show thesis using that by blast
qed

text \<open>The subscription of a consumer with the provider is that space's and that customer's.\<close>

definition own_subscription :: "did \<Rightarrow> did \<Rightarrow> did \<Rightarrow> string \<Rightarrow> database \<Rightarrow> bool" where
  "own_subscription provider space customer subscription d \<longleftrightarrow>
     list_all (\<lambda>r. consumer_row_key r = (subscription, provider) \<longrightarrow> cn_consumer r = space \<and> cn_customer r = customer) (t_consumer d)"

lemma consumers_found:
  assumes R: "consumers_rel P d m"
  shows "(\<exists>c \<in> set (m space). con_Provider c = provider \<and> con_Consumer c = space \<and> con_Customer c = customer \<and> con_Subscription c = subscription) \<longleftrightarrow>
    (\<exists>r \<in> set (t_consumer d). cn_provider r = provider \<and> cn_consumer r = space \<and> cn_customer r = customer \<and> cn_subscription r = subscription)"
proof
  assume "\<exists>c \<in> set (m space). con_Provider c = provider \<and> con_Consumer c = space \<and> con_Customer c = customer \<and> con_Subscription c = subscription"
  then obtain c r where "r \<in> set (t_consumer d)" "scan_consumer P r = Ok c" "con_Provider c = provider" "con_Consumer c = space"
    "con_Customer c = customer" "con_Subscription c = subscription"
    using R by (auto simp: consumers_rel_def)
  then show "\<exists>r \<in> set (t_consumer d). cn_provider r = provider \<and> cn_consumer r = space \<and> cn_customer r = customer \<and> cn_subscription r = subscription"
    by (metis consumers_relD [OF R] res.inject(1))
next
  assume "\<exists>r \<in> set (t_consumer d). cn_provider r = provider \<and> cn_consumer r = space \<and> cn_customer r = customer \<and> cn_subscription r = subscription"
  then show "\<exists>c \<in> set (m space). con_Provider c = provider \<and> con_Consumer c = space \<and> con_Customer c = customer \<and> con_Subscription c = subscription"
    by (metis consumers_relD [OF R])
qed

interpretation consumer_write: pg_write
  "\<lambda>d m. consumers_rel P d m \<and> pg_formats_ok P \<and> list_all (did_ok P) [provider, space, customer] \<and> own_subscription provider space customer i d"
  "consumer_insert P provider space customer i cause" "\<lambda>_. consumer_Add provider space customer i cause"
  "code_answer uniqueViolation ErrConsumerExists ''adding consumer''" for P provider space customer i cause
proof
  fix d m now d' n m' r e
  let ?row = "\<lparr>cn_subscription = i, cn_provider = provider, cn_consumer = space, cn_customer = customer,
    cn_cause = cid_String P cause, cn_inserted_at = now\<rparr>"
  let ?new = "\<lparr>con_Provider = provider, con_Consumer = space, con_Customer = customer, con_Subscription = i, con_Cause = cause\<rparr>"
  let ?C = "\<lambda>d. pg_formats_ok P \<and> list_all (did_ok P) [provider, space, customer] \<and> own_subscription provider space customer i d"
  assume R: "consumers_rel P d m \<and> ?C d" and step: "consumer_Add provider space customer i cause m = (m', r)"
  then have ok: "table_ok consumer_row_key (scan_consumer P) (t_consumer d)" by (simp add: consumers_rel_def)
  have scan: "scan_consumer P ?row = Ok ?new"
    using R by (simp add: scan_consumer_def did_ok_def pg_formats_okD(2))
  have key: "consumer_row_key ?row = (i, provider)" by (simp add: consumer_row_key_def)
  note found = consumers_found [OF conjunct1 [OF R], of space provider customer i]
  show "(consumers_rel P d' m' \<and> ?C d') \<and> r = code_answer uniqueViolation ErrConsumerExists ''adding consumer'' (Done n)"
    if "consumer_insert P provider space customer i cause now d = Done (d', n)"
  proof -
    from that have d': "d' = d\<lparr>t_consumer := t_consumer d @ [?row]\<rparr>" and new: "(i, provider) \<notin> consumer_row_key ` set (t_consumer d)"
      by (auto simp: consumer_insert_def sql_insert_cases key)
    have "\<not> (\<exists>r \<in> set (t_consumer d). cn_provider r = provider \<and> cn_consumer r = space \<and> cn_customer r = customer \<and> cn_subscription r = i)"
      using new by (auto simp: consumer_row_key_def)
    with found step have m': "r = Ok ()" "m' = m(space := m space @ [?new])"
      unfolding consumer_Add_def by (auto split: if_splits)
    have "?C d'" using R by (auto simp: own_subscription_def d')
    with R table_insert(1) [OF ok _ scan, unfolded key, OF new] scan show ?thesis
      by (auto simp: consumers_rel_def d' m' answer_defs)
  qed
  show "(consumers_rel P d m' \<and> ?C d) \<and> r = code_answer uniqueViolation ErrConsumerExists ''adding consumer'' (Fail e)"
    if "consumer_insert P provider space customer i cause now d = Fail e"
  proof -
    from that have held: "(i, provider) \<in> consumer_row_key ` set (t_consumer d)" "e = PgError uniqueViolation"
      by (auto simp: consumer_insert_def sql_insert_cases key)
    then have "\<exists>r \<in> set (t_consumer d). cn_provider r = provider \<and> cn_consumer r = space \<and> cn_customer r = customer \<and> cn_subscription r = i"
      using R by (auto simp: own_subscription_def list_all_iff consumer_row_key_def)
    with found step R held show ?thesis by (simp add: consumer_Add_def answer_defs)
  qed
qed (simp add: answer_defs ErrConsumerExists_def)

lemma consumers_space:
  assumes R: "consumers_rel P d m" and "x \<in> set (m space)"
  shows "con_Consumer x = space"
proof -
  from assms obtain r where r: "r \<in> set (t_consumer d)" "cn_consumer r = space" "scan_consumer P r = Ok x"
    by (auto simp: consumers_rel_def)
  obtain y where "scan_consumer P r = Ok y" "con_Consumer y = cn_consumer r"
    by (rule consumers_relD [OF R r(1)])
  with r show ?thesis by simp
qed

lemma pg_consumer_Get_found:
  assumes R: "consumers_rel P (pg_seen E s) m" and "fault_free E"
  shows "case snd (pg_consumer_Get E P provider space s) of
      Ok x \<Rightarrow> x \<in> set (m space) \<and> con_Provider x = provider
    | Err e \<Rightarrow> e = ErrConsumerNotFound \<and> consumer_Get m provider space = Err ErrConsumerNotFound | Panic \<Rightarrow> False"
proof -
  let ?rows = "filter (\<lambda>r. cn_consumer r = space \<and> cn_provider r = provider) (t_consumer (pg_seen E s))"
  let ?row = "sql_row (pg_rank E (pg_sent s)) ?rows"
  show ?thesis
  proof (cases ?row)
    case None
    then have none: "\<not> (\<exists>r \<in> set (t_consumer (pg_seen E s)). cn_consumer r = space \<and> cn_provider r = provider)"
      by (auto simp: filter_empty_conv)
    have "find (\<lambda>c. con_Provider c = provider \<and> con_Consumer c = space) (m space) = None"
    proof (rule ccontr)
      assume "find (\<lambda>c. con_Provider c = provider \<and> con_Consumer c = space) (m space) \<noteq> None"
      then obtain c where "c \<in> set (m space)" "con_Provider c = provider" "con_Consumer c = space"
        using find_SomeD by fastforce
      moreover from this R obtain r where "r \<in> set (t_consumer (pg_seen E s))" "scan_consumer P r = Ok c"
        by (auto simp: consumers_rel_def)
      ultimately show False
        using none by (metis consumers_relD [OF R] res.inject(1))
    qed
    with None assms(2) show ?thesis
      by (simp add: pg_consumer_Get_def pg_QueryRow_def fault_free_pool_Query consumer_Get_def del: sql_row_None)
  next
    case (Some r)
    then have r: "r \<in> set (t_consumer (pg_seen E s))" "cn_consumer r = space" "cn_provider r = provider"
      using sql_row_Some [OF Some] by auto
    obtain x where "scan_consumer P r = Ok x" "x \<in> set (m (cn_consumer r))" "con_Provider x = cn_provider r"
      by (rule consumers_relD [OF R r(1)])
    with Some r assms(2) show ?thesis
      by (simp add: pg_consumer_Get_def pg_QueryRow_def fault_free_pool_Query)
  qed
qed

text \<open>Where the space has one consumer with the provider, both stores find it.\<close>

lemma pg_consumer_Get_one:
  assumes R: "consumers_rel P (pg_seen E s) m" and "fault_free E"
    and one: "\<And>x y. x \<in> set (m space) \<Longrightarrow> y \<in> set (m space) \<Longrightarrow> con_Provider x = provider \<Longrightarrow> con_Provider y = provider \<Longrightarrow> x = y"
  shows "snd (pg_consumer_Get E P provider space s) = consumer_Get m provider space"
proof (cases "snd (pg_consumer_Get E P provider space s)")
  case (Ok x)
  with pg_consumer_Get_found [where provider = provider and space = space, OF assms(1,2)] have x: "x \<in> set (m space)" "con_Provider x = provider" by simp_all
  then obtain y where y: "find (\<lambda>c. con_Provider c = provider \<and> con_Consumer c = space) (m space) = Some y"
    using consumers_space [OF R x(1)] by (cases "find (\<lambda>c. con_Provider c = provider \<and> con_Consumer c = space) (m space)") (auto simp: find_None_iff)
  from find_SomeD [OF y] one [OF x(1) _ x(2)] have "y = x" by auto
  with y Ok show ?thesis by (simp add: consumer_Get_def)
qed (use pg_consumer_Get_found [where provider = provider and space = space, OF assms(1,2)] in simp_all)

text \<open>A subscription with the provider that is another space's or another customer's.\<close>

lemma pg_consumer_Add_taken:
  assumes taken: "\<not> own_subscription provider space customer i (pg_seen E s)"
    and run: "pg_consumer_Add E P provider space customer i cause s = (s', r)"
  shows "pg_db s' = pg_seen E s" and "r \<noteq> Ok ()" and "fault_free E \<Longrightarrow> r = Err ErrConsumerExists"
    and "consumers_rel P (pg_seen E s) m \<Longrightarrow> snd (consumer_Add provider space customer i cause m) = Ok ()"
proof -
  from taken obtain row where row: "row \<in> set (t_consumer (pg_seen E s))" "consumer_row_key row = (i, provider)"
    "\<not> (cn_consumer row = space \<and> cn_customer row = customer)"
    by (auto simp: own_subscription_def list_all_iff)
  let ?st = "consumer_insert P provider space customer i cause"
  have fails: "?st now (pg_seen E s) = Fail (PgError uniqueViolation)" for now
    using row(1,2) by (auto simp: consumer_insert_def sql_insert_cases consumer_row_key_def rev_image_eqI)
  obtain s1 q where exec: "pool_Exec E ?st s = (s1, q)" by fastforce
  from exec have lost: "pg_db s1 = pg_seen E s" "\<not> (\<exists>x. q = Done x)"
    by (cases rule: pool_Exec_cases; simp add: fails)+
  have answer: "s' = s1" "r = code_answer uniqueViolation ErrConsumerExists ''adding consumer'' q"
    using run [unfolded pg_consumer_Add_def calls_answer] exec by simp_all
  with lost show "pg_db s' = pg_seen E s" "r \<noteq> Ok ()"
    by (cases q; auto simp: answer_defs)+
  show "r = Err ErrConsumerExists" if "fault_free E"
    using that exec answer(2) by (auto simp: fault_free_pool_Exec fails answer_defs)
  show "snd (consumer_Add provider space customer i cause m) = Ok ()" if R: "consumers_rel P (pg_seen E s) m"
  proof -
    have "\<not> (\<exists>r \<in> set (t_consumer (pg_seen E s)). cn_provider r = provider \<and> cn_consumer r = space \<and> cn_customer r = customer \<and> cn_subscription r = i)"
    proof
      assume "\<exists>r \<in> set (t_consumer (pg_seen E s)). cn_provider r = provider \<and> cn_consumer r = space \<and> cn_customer r = customer \<and> cn_subscription r = i"
      then obtain r where r: "r \<in> set (t_consumer (pg_seen E s))" "consumer_row_key r = consumer_row_key row"
        "cn_consumer r = space" "cn_customer r = customer"
        using row(2) by (auto simp: consumer_row_key_def)
      have "distinct (map consumer_row_key (t_consumer (pg_seen E s)))"
        using R by (simp add: consumers_rel_def table_ok_def)
      with r(1,2) row(1) have "r = row" by (auto simp: distinct_map dest: inj_onD)
      with r row(3) show False by simp
    qed
    with consumers_found [OF R, of space provider customer i] show ?thesis by (simp add: consumer_Add_def)
  qed
qed

lemma pg_GetBySubscription_eq:
  assumes R: "consumers_rel P (pg_seen E s) m" and "fault_free E" and order: "\<And>space. m space \<noteq> [] \<Longrightarrow> space \<in> set order"
  shows "snd (pg_GetBySubscription E P provider i s) = GetBySubscription m order provider i"
proof -
  have ok: "table_ok consumer_row_key (scan_consumer P) (t_consumer (pg_seen E s))"
    using R by (simp add: consumers_rel_def)
  let ?view = "table_view consumer_row_key (scan_consumer P) (t_consumer (pg_seen E s)) (i, provider)"
  let ?find = "find (\<lambda>r. con_Provider r = provider \<and> con_Subscription r = i) (concat (map m order))"
  have held: "?view = Some c" if c: "c \<in> set (concat (map m order))" "con_Provider c = provider" "con_Subscription c = i" for c
  proof -
    from c(1) R obtain r where r: "r \<in> set (t_consumer (pg_seen E s))" "scan_consumer P r = Ok c"
      by (auto simp: consumers_rel_def)
    obtain x where x: "scan_consumer P r = Ok x" "con_Provider x = cn_provider r" "con_Subscription x = cn_subscription r"
      by (rule consumers_relD [OF R r(1)])
    then have "consumer_row_key r = (i, provider)"
      using r c by (simp add: consumer_row_key_def)
    with r ok find_eq_iff_key [of consumer_row_key "t_consumer (pg_seen E s)" r] show ?thesis
      by (simp add: table_view_def table_ok_def)
  qed
  have "?find = ?view"
  proof (cases ?view)
    case None
    with held show ?thesis unfolding find_None_iff None by fastforce
  next
    case (Some x)
    then have "(i, provider) \<in> consumer_row_key ` set (t_consumer (pg_seen E s))"
      using table_view_None [OF ok, of "(i, provider)"] by auto
    then obtain r where r: "r \<in> set (t_consumer (pg_seen E s))" "cn_subscription r = i" "cn_provider r = provider"
      by (auto simp: consumer_row_key_def)
    obtain y where y: "y \<in> set (m (cn_consumer r))" "con_Provider y = provider" "con_Subscription y = i"
      using consumers_relD [OF R r(1)] r by metis
    then have "cn_consumer r \<in> set order" by (intro order) auto
    with y have "y \<in> set (concat (map m order))" by auto
    with y have "?find \<noteq> None" unfolding find_None_iff by blast
    then obtain z where z: "?find = Some z" by blast
    with find_SomeD [OF z] held [of z] show ?thesis by simp
  qed
  moreover have "snd (pg_GetBySubscription E P provider i s) = (case ?view of None \<Rightarrow> Err ErrConsumerNotFound | Some x \<Rightarrow> Ok x)"
    using ok assms(2) pg_QueryRow_view [of consumer_row_key "scan_consumer P" t_consumer E s "wrap ''getting consumer by subscription''" "(i, provider)"]
    by (simp add: pg_GetBySubscription_def)
  ultimately show ?thesis
    by (simp add: GetBySubscription_def split: option.split)
qed

text \<open>
Property C25. Customers, subscriptions and consumers in Postgres implement those in memory, with the differences stated here.
Adding a customer or changing its product, adding a subscription, and adding a consumer whose subscription with
the provider no other space or customer has, are each one step of the in-memory store, the whole of it or nothing,
whatever requests and answers are lost; without faults the call is the step, with its error where the key is taken or
missing. Where another space or customer has the subscription with the provider, the stores differ: Postgres refuses
the consumer as existing and changes nothing, and the in-memory store adds it. Reads without faults: a
customer and a consumer by subscription are the ones the in-memory store gives; a subscription is, but for the time it
was made, which the in-memory store does not keep; a consumer is found by its space exactly where the in-memory store finds
one, it is the same one where the space has one with the provider, and one of them where it has several.
\<close>

theorem pg_members_refine:
  assumes "pg_formats_ok P" and "list_all (did_ok P) [k, prd, provider, space]"
    and "details_kept L det js"
  shows "simulates (customers_rel P L) (customer_Add k acc prd det cap) E (pg_customer_Add E L k acc prd det cap) s \<and>
    simulates (customers_rel P L) (customer_UpdateProduct k prd) E (pg_customer_UpdateProduct E k prd) s \<and>
    simulates (subscriptions_rel P) (\<lambda>_. subscription_Add provider i k cause) E (pg_subscription_Add E P provider i k cause) s \<and>
    (if own_subscription provider space k i (pg_seen E s)
     then simulates (consumers_rel P) (\<lambda>_. consumer_Add provider space k i cause) E (pg_consumer_Add E P provider space k i cause) s
     else (\<forall>s' r. pg_consumer_Add E P provider space k i cause s = (s', r) \<longrightarrow>
             pg_db s' = pg_seen E s \<and> r \<noteq> Ok () \<and> (fault_free E \<longrightarrow> r = Err ErrConsumerExists)) \<and>
       (\<forall>m. consumers_rel P (pg_seen E s) m \<longrightarrow> snd (consumer_Add provider space k i cause m) = Ok ())) \<and>
    (fault_free E \<longrightarrow>
      (\<forall>m. customers_rel P L (pg_seen E s) m \<longrightarrow> snd (pg_customer_Get E P L k s) = customer_Get m k) \<and>
      (\<forall>m. subscriptions_rel P (pg_seen E s) m \<longrightarrow>
         subscription_Get m provider i = (case snd (pg_subscription_Get E P provider i s) of
           Ok x \<Rightarrow> Ok (x\<lparr>sub_InsertedAt := go_zero_time\<rparr>) | r \<Rightarrow> r)) \<and>
      (\<forall>m order. consumers_rel P (pg_seen E s) m \<longrightarrow>
         (case snd (pg_consumer_Get E P provider space s) of
            Ok x \<Rightarrow> x \<in> set (m space) \<and> con_Provider x = provider
          | Err e \<Rightarrow> e = ErrConsumerNotFound \<and> consumer_Get m provider space = Err ErrConsumerNotFound | Panic \<Rightarrow> False) \<and>
         ((\<forall>x \<in> set (m space). \<forall>y \<in> set (m space). con_Provider x = provider \<and> con_Provider y = provider \<longrightarrow> x = y) \<longrightarrow>
            snd (pg_consumer_Get E P provider space s) = consumer_Get m provider space) \<and>
         ((\<forall>sp. m sp \<noteq> [] \<longrightarrow> sp \<in> set order) \<longrightarrow>
            snd (pg_GetBySubscription E P provider i s) = GetBySubscription m order provider i)))"
proof (intro conjI impI allI)
  show "simulates (customers_rel P L) (customer_Add k acc prd det cap) E (pg_customer_Add E L k acc prd det cap) s"
    using assms(2,3) by (intro simulates_under [OF customer_add_write.simulates [where js = js]])
      (auto simp: pg_customer_Add_def calls_answer details_kept_def split: option.splits)
  show "simulates (customers_rel P L) (customer_UpdateProduct k prd) E (pg_customer_UpdateProduct E k prd) s"
    using assms(2) by (intro simulates_under [OF customer_update_write.simulates]) (simp_all add: pg_customer_UpdateProduct_def calls_answer)
  show "simulates (subscriptions_rel P) (\<lambda>_. subscription_Add provider i k cause) E (pg_subscription_Add E P provider i k cause) s"
    using assms(1,2) by (intro simulates_under [OF subscription_write.simulates]) (simp_all add: pg_subscription_Add_def calls_answer)
  have "simulates (consumers_rel P) (\<lambda>_. consumer_Add provider space k i cause) E (pg_consumer_Add E P provider space k i cause) s"
    if "own_subscription provider space k i (pg_seen E s)"
    using assms that by (intro simulates_when [OF consumer_write.simulates]) (simp_all add: pg_consumer_Add_def calls_answer)
  then show "if own_subscription provider space k i (pg_seen E s)
     then simulates (consumers_rel P) (\<lambda>_. consumer_Add provider space k i cause) E (pg_consumer_Add E P provider space k i cause) s
     else (\<forall>s' r. pg_consumer_Add E P provider space k i cause s = (s', r) \<longrightarrow>
             pg_db s' = pg_seen E s \<and> r \<noteq> Ok () \<and> (fault_free E \<longrightarrow> r = Err ErrConsumerExists)) \<and>
       (\<forall>m. consumers_rel P (pg_seen E s) m \<longrightarrow> snd (consumer_Add provider space k i cause m) = Ok ())"
    using pg_consumer_Add_taken by (cases "pg_consumer_Add E P provider space k i cause s") auto
  assume "fault_free E"
  show "snd (pg_customer_Get E P L k s) = customer_Get m k" if "customers_rel P L (pg_seen E s) m" for m
    using that \<open>fault_free E\<close> pg_QueryRow_view [of cr_customer "scan_customer P L" t_customer E s "wrap ''getting customer''" k]
    by (simp add: customers_rel_def pg_customer_Get_def customer_table.get_lookup)
  show "subscription_Get m provider i = (case snd (pg_subscription_Get E P provider i s) of
      Ok x \<Rightarrow> Ok (x\<lparr>sub_InsertedAt := go_zero_time\<rparr>) | r \<Rightarrow> r)" if "subscriptions_rel P (pg_seen E s) m" for m
    using that \<open>fault_free E\<close> subscription_table.get_lookup [of m "(provider, i)"]
      pg_QueryRow_view [of subscription_key "scan_subscription P" t_subscription E s "wrap ''getting subscription''" "(i, provider)"]
    by (simp add: subscriptions_rel_def pg_subscription_Get_def split: option.split)
  fix m order assume R: "consumers_rel P (pg_seen E s) m"
  show "case snd (pg_consumer_Get E P provider space s) of
      Ok x \<Rightarrow> x \<in> set (m space) \<and> con_Provider x = provider
    | Err e \<Rightarrow> e = ErrConsumerNotFound \<and> consumer_Get m provider space = Err ErrConsumerNotFound | Panic \<Rightarrow> False"
    by (rule pg_consumer_Get_found [OF R \<open>fault_free E\<close>])
  show "snd (pg_consumer_Get E P provider space s) = consumer_Get m provider space"
    if "\<forall>x \<in> set (m space). \<forall>y \<in> set (m space). con_Provider x = provider \<and> con_Provider y = provider \<longrightarrow> x = y"
    using that by (intro pg_consumer_Get_one [OF R \<open>fault_free E\<close>]) blast
  assume "\<forall>sp. m sp \<noteq> [] \<longrightarrow> sp \<in> set order"
  then show "snd (pg_GetBySubscription E P provider i s) = GetBySubscription m order provider i"
    by (intro pg_GetBySubscription_eq [OF R \<open>fault_free E\<close>]) blast
qed

theorem pg_members_refine_witness:
  "snd (pg_customer_Get quiet sample_pg_formats sample_acct_lib ''did:k''
     (fst (pg_customer_Add quiet sample_acct_lib ''did:k'' None ''did:free'' [''plan'' \<mapsto> ''free''] (Some 5) empty_pg))) =
   Ok \<lparr>cust_Customer = ''did:k'', cust_ExternalAccount = None, cust_Product = ''did:free'', cust_Details = [''plan'' \<mapsto> ''free''],
     cust_ReservedCapacity = Some 5, cust_InsertedAt = 0, cust_UpdatedAt = go_zero_time\<rparr>"
proof -
  let ?s = "fst (pg_customer_Add quiet sample_acct_lib ''did:k'' None ''did:free'' [''plan'' \<mapsto> ''free''] (Some 5) empty_pg)"
  have new: "customers_rel sample_pg_formats sample_acct_lib (pg_db empty_pg) customer_New"
    by (simp add: customers_rel_def empty_database_def customer_New_def table_view_def fun_eq_iff customer_lookup_def customers_ok_def)
  have det: "details_kept sample_acct_lib [''plan'' \<mapsto> ''free''] (Some ''{}'')"
    by (simp add: details_kept_def sample_acct_lib_def)
  have dids: "list_all (did_ok sample_pg_formats) [''did:k'', ''did:free'', ''did:p'', ''did:sp'']"
    by (simp add: did_ok_def)
  note refines = pg_members_refine [where i = "''sub''" and E = quiet, OF sample_pg_formats_ok dids det]
  have sim: "simulates (customers_rel sample_pg_formats sample_acct_lib) (customer_Add ''did:k'' None ''did:free'' [''plan'' \<mapsto> ''free''] (Some 5))
      quiet (pg_customer_Add quiet sample_acct_lib ''did:k'' None ''did:free'' [''plan'' \<mapsto> ''free''] (Some 5)) empty_pg"
    using refines by blast
  from simulates_quiet(1) [where m = customer_New, OF sim] new have made: "customers_rel sample_pg_formats sample_acct_lib (pg_db ?s)
      (fst (customer_Add ''did:k'' None ''did:free'' [''plan'' \<mapsto> ''free''] (Some 5) 0 customer_New))" by simp
  from refines [where s = ?s] made have "snd (pg_customer_Get quiet sample_pg_formats sample_acct_lib ''did:k'' ?s) =
      customer_Get (fst (customer_Add ''did:k'' None ''did:free'' [''plan'' \<mapsto> ''free''] (Some 5) 0 customer_New)) ''did:k''"
    by simp
  then show ?thesis
    by (simp add: customer_Get_def customer_Add_def customer_New_def)
qed

end
