(* ===== verification/Pg_Pages.thy ===== *)
theory Pg_Pages
  imports Pg_Members
begin

section \<open>Reading the Postgres account listings to the end\<close>

text \<open>
  The listings of customers, subscriptions, consumers and storage providers in Postgres, read page by page. Each
  interprets \<open>keyset_store\<close>. The cursor of the consumers joins a provider and a subscription by a bar; it reads
  back as long as no DID has a bar in it, whatever the subscription is called.
\<close>

lemma splitCursor_joinCursor:
  assumes "CHR ''|'' \<notin> set provider"
  shows "splitCursor (joinCursor provider subscription) = Ok (provider, subscription)"
proof -
  have "\<forall>x \<in> set provider. x \<noteq> CHR ''|''"
    using assms by metis
  then show ?thesis
    by (simp add: splitCursor_def joinCursor_def dropWhile_append2 takeWhile_append2)
qed

text \<open>A table that is read through \<open>scan\<close>, with what its rows stand for.\<close>

definition scanned :: "('r \<Rightarrow> 'a res) \<Rightarrow> 'r \<Rightarrow> 'a" where
  "scanned scan r = the (ok_of (scan r))"

lemma scan_scanned:
  assumes "table_ok key scan t" and "r \<in> set t"
  shows "scan r = Ok (scanned scan r)"
  using assms by (cases "scan r") (auto simp: table_ok_def list_all_iff scanned_def)

definition accounts_readable :: "pg_formats \<Rightarrow> acct_lib \<Rightarrow> database \<Rightarrow> bool" where
  "accounts_readable P L d \<longleftrightarrow> pg_formats_ok P \<and>
     table_ok cr_customer (scan_customer P L) (t_customer d) \<and> list_all (\<lambda>r. did_ok P (cr_customer r)) (t_customer d) \<and>
     table_ok subscription_key (scan_subscription P) (t_subscription d) \<and>
     table_ok consumer_row_key (scan_consumer P) (t_consumer d) \<and>
     list_all (\<lambda>r. did_ok P (cn_provider r) \<and> CHR ''|'' \<notin> set (cn_provider r)) (t_consumer d) \<and>
     table_ok pr_provider (scan_provider P L) (t_storage_provider d) \<and> list_all (\<lambda>r. did_ok P (pr_provider r)) (t_storage_provider d)"

lemma accounts_readableD:
  assumes "accounts_readable P L d"
  shows "pg_formats_ok P" "table_ok cr_customer (scan_customer P L) (t_customer d)"
    "table_ok subscription_key (scan_subscription P) (t_subscription d)"
    "table_ok consumer_row_key (scan_consumer P) (t_consumer d)" "table_ok pr_provider (scan_provider P L) (t_storage_provider d)"
    "r \<in> set (t_customer d) \<Longrightarrow> did_ok P (cr_customer r)" "q \<in> set (t_storage_provider d) \<Longrightarrow> did_ok P (pr_provider q)"
    "c \<in> set (t_consumer d) \<Longrightarrow> did_ok P (cn_provider c) \<and> CHR ''|'' \<notin> set (cn_provider c)"
  using assms by (simp_all add: accounts_readable_def list_all_iff)

interpretation customer_rows: keyset_store "accounts_readable P L" t_customer "\<lambda>r. collate P (cr_customer r)"
  "\<lambda>c. Ok (collate P c)" "scan_customer P L" "scanned (scan_customer P L)" cust_Customer for P L
proof
  fix d assume ok: "accounts_readable P L d"
  note read = accounts_readableD [OF ok]
  show "distinct (map (\<lambda>r. collate P (cr_customer r)) (t_customer d))"
    using read(2) by (auto simp: table_ok_def distinct_map inj_on_def pg_formats_okD(6) [OF read(1)])
  fix r assume r: "r \<in> set (t_customer d)"
  show scan: "scan_customer P L r = Ok (scanned (scan_customer P L) r)"
    by (rule scan_scanned [OF read(2) r])
  then have "cust_Customer (scanned (scan_customer P L) r) = cr_customer r"
    using read(6) [OF r] by (auto simp: scan_customer_def did_ok_def dest: sym)
  then show "Ok (collate P (cust_Customer (scanned (scan_customer P L) r))) = Ok (collate P (cr_customer r))" by simp
qed

interpretation provider_rows: keyset_store "accounts_readable P L" t_storage_provider "\<lambda>r. collate P (pr_provider r)"
  "\<lambda>c. Ok (collate P c)" "scan_provider P L" "scanned (scan_provider P L)" sp_Provider for P L
proof
  fix d assume ok: "accounts_readable P L d"
  note read = accounts_readableD [OF ok]
  show "distinct (map (\<lambda>r. collate P (pr_provider r)) (t_storage_provider d))"
    using read(5) by (auto simp: table_ok_def distinct_map inj_on_def pg_formats_okD(6) [OF read(1)])
  fix r assume r: "r \<in> set (t_storage_provider d)"
  show scan: "scan_provider P L r = Ok (scanned (scan_provider P L) r)"
    by (rule scan_scanned [OF read(5) r])
  then have "sp_Provider (scanned (scan_provider P L) r) = pr_provider r"
    using read(7) [OF r] by (auto simp: scan_provider_def did_ok_def dest: sym)
  then show "Ok (collate P (sp_Provider (scanned (scan_provider P L) r))) = Ok (collate P (pr_provider r))" by simp
qed

interpretation subscription_rows: keyset_store "accounts_readable P L"
  "\<lambda>d. filter (\<lambda>r. sr_customer r = customer \<and> sr_provider r = provider) (t_subscription d)" "\<lambda>r. collate P (sr_subscription r)"
  "\<lambda>c. Ok (collate P c)" "scan_subscription P" "scanned (scan_subscription P)" sub_Subscription for P L customer provider
proof
  fix d assume ok: "accounts_readable P L d"
  note read = accounts_readableD [OF ok]
  show "distinct (map (\<lambda>r. collate P (sr_subscription r))
      (filter (\<lambda>r. sr_customer r = customer \<and> sr_provider r = provider) (t_subscription d)))"
    using read(3) by (intro distinct_filter_key [of subscription_key])
      (auto simp: table_ok_def subscription_key_def pg_formats_okD(6) [OF read(1)])
  fix r assume "r \<in> set (filter (\<lambda>r. sr_customer r = customer \<and> sr_provider r = provider) (t_subscription d))"
  then show scan: "scan_subscription P r = Ok (scanned (scan_subscription P) r)"
    by (intro scan_scanned [OF read(3)]) simp
  then have "sub_Subscription (scanned (scan_subscription P) r) = sr_subscription r"
    by (auto simp: scan_subscription_def dest: sym)
  then show "Ok (collate P (sub_Subscription (scanned (scan_subscription P) r))) = Ok (collate P (sr_subscription r))" by simp
qed

interpretation consumer_rows: keyset_store "accounts_readable P L" "\<lambda>d. filter (\<lambda>r. column r = v) (t_consumer d)"
  "\<lambda>r. (collate P (cn_provider r), collate P (cn_subscription r))"
  "\<lambda>c. andThen (splitCursor c) (\<lambda>(provider, subscription). Ok (collate P provider, collate P subscription))"
  "scan_consumer P" "scanned (scan_consumer P)" "\<lambda>rec. joinCursor (con_Provider rec) (con_Subscription rec)" for P L column v
proof
  fix d assume ok: "accounts_readable P L d"
  note read = accounts_readableD [OF ok]
  show "distinct (map (\<lambda>r. (collate P (cn_provider r), collate P (cn_subscription r))) (filter (\<lambda>r. column r = v) (t_consumer d)))"
    using read(4) by (intro distinct_filter_key [of consumer_row_key])
      (auto simp: table_ok_def consumer_row_key_def pg_formats_okD(6) [OF read(1)])
  fix r assume "r \<in> set (filter (\<lambda>r. column r = v) (t_consumer d))"
  then have r: "r \<in> set (t_consumer d)" by simp
  show scan: "scan_consumer P r = Ok (scanned (scan_consumer P) r)"
    by (rule scan_scanned [OF read(4) r])
  then have "con_Provider (scanned (scan_consumer P) r) = cn_provider r" "con_Subscription (scanned (scan_consumer P) r) = cn_subscription r"
    using read(8) [OF r] by (auto simp: scan_consumer_def did_ok_def dest: sym)
  with read(8) [OF r] show "andThen (splitCursor (joinCursor (con_Provider (scanned (scan_consumer P) r)) (con_Subscription (scanned (scan_consumer P) r))))
      (\<lambda>(provider, subscription). Ok (collate P provider, collate P subscription)) = Ok (collate P (cn_provider r), collate P (cn_subscription r))"
    by (simp add: splitCursor_joinCursor)
qed

lemmas account_list_cfgs = list_options_cfg [OF customer_WithListLimit_def customer_WithListCursor_def]
  list_options_cfg [OF sp_WithListLimit_def sp_WithListCursor_def]
  list_options_cfg [OF WithListByProviderAndCustomerLimit_def WithListByProviderAndCustomerCursor_def]
  list_options_cfg [OF consumer_WithListLimit_def consumer_WithListCursor_def]
  list_options_cfg [OF WithListByCustomerLimit_def WithListByCustomerCursor_def]

text \<open>
Property C27. Reading the customers, the storage providers, the subscriptions of a customer with a provider, and
the consumers of a space or of a customer in Postgres, page by page, returns and gives every row once, in the
order of the collation. This is for any limit for which the slice of a page can be had, where nothing is lost
and nobody else writes, and where no provider has a bar in its DID.
\<close>

theorem pg_account_listings_complete:
  assumes ok: "accounts_readable P L (pg_db s)" and E: "alone E" and "page_limit \<lparr>Cursor = None, Limit = limit\<rparr> < MaxInt64"
    and "pg_alloc E (page_limit \<lparr>Cursor = None, Limit = limit\<rparr>)"
  shows "store_Collect (\<lambda>cfg. snd (pg_customer_List E P L
        (list_options customer_WithListLimit customer_WithListCursor limit (Cursor cfg)) s)) =
      Some (Ok (map (scanned (scan_customer P L)) (sort_key (\<lambda>r. collate P (cr_customer r)) (t_customer (pg_db s))))) \<and>
    store_Collect (\<lambda>cfg. snd (pg_sp_List E P L (list_options sp_WithListLimit sp_WithListCursor limit (Cursor cfg)) s)) =
      Some (Ok (map (scanned (scan_provider P L)) (sort_key (\<lambda>r. collate P (pr_provider r)) (t_storage_provider (pg_db s))))) \<and>
    store_Collect (\<lambda>cfg. snd (pg_ListByProviderAndCustomer E P provider customer
        (list_options WithListByProviderAndCustomerLimit WithListByProviderAndCustomerCursor limit (Cursor cfg)) s)) =
      Some (Ok (map (scanned (scan_subscription P)) (sort_key (\<lambda>r. collate P (sr_subscription r))
        (filter (\<lambda>r. sr_customer r = customer \<and> sr_provider r = provider) (t_subscription (pg_db s)))))) \<and>
    store_Collect (\<lambda>cfg. snd (pg_consumer_List E P space
        (list_options consumer_WithListLimit consumer_WithListCursor limit (Cursor cfg)) s)) =
      Some (Ok (map (scanned (scan_consumer P)) (sort_key (\<lambda>r. (collate P (cn_provider r), collate P (cn_subscription r)))
        (filter (\<lambda>r. cn_consumer r = space) (t_consumer (pg_db s)))))) \<and>
    store_Collect (\<lambda>cfg. snd (pg_ListByCustomer E P customer
        (list_options WithListByCustomerLimit WithListByCustomerCursor limit (Cursor cfg)) s)) =
      Some (Ok (map (scanned (scan_consumer P)) (sort_key (\<lambda>r. (collate P (cn_provider r), collate P (cn_subscription r)))
        (filter (\<lambda>r. cn_customer r = customer) (t_consumer (pg_db s))))))"
proof -
  note listing = E ok page_limit_pos assms(3,4)
  note customers = customer_rows.collects [OF listing, where msg = "''listing customers''" and iter_msg = "''listing customers''"]
  note providers = provider_rows.collects [OF listing, where msg = "''listing storage providers''" and iter_msg = "''listing storage providers''"]
  note subscriptions = subscription_rows.collects [OF listing, where msg = "''listing subscriptions''" and iter_msg = "''listing subscriptions''"]
  note consumers = consumer_rows.collects [OF listing, where msg = "''listing consumers''" and iter_msg = "''listing consumers''"]
  show ?thesis
    unfolding pg_customer_List_def pg_sp_List_def pg_ListByProviderAndCustomer_def pg_consumer_List_def pg_ListByCustomer_def
      listByColumn_def account_list_cfgs
    by (intro conjI customers providers subscriptions consumers) (simp_all add: page_limit_def)
qed

definition sample_consumers :: pg where
  "sample_consumers = fst (pg_consumer_Add quiet sample_pg_formats ''did:p'' ''did:sp'' ''did:k'' ''a|b'' ''c1''
     (fst (pg_consumer_Add quiet sample_pg_formats ''did:p'' ''did:sp'' ''did:k'' ''a'' ''c2'' empty_pg)))"

theorem pg_account_listings_complete_witness:
  "store_Collect (\<lambda>cfg. snd (pg_consumer_List quiet sample_pg_formats ''did:sp''
     (list_options consumer_WithListLimit consumer_WithListCursor (Some 1) (Cursor cfg)) sample_consumers)) =
   Some (Ok [\<lparr>con_Provider = ''did:p'', con_Consumer = ''did:sp'', con_Customer = ''did:k'', con_Subscription = ''a'', con_Cause = ''c2''\<rparr>,
     \<lparr>con_Provider = ''did:p'', con_Consumer = ''did:sp'', con_Customer = ''did:k'', con_Subscription = ''a|b'', con_Cause = ''c1''\<rparr>])"
proof -
  let ?d = "pg_db sample_consumers"
  have "t_customer ?d = []" "t_subscription ?d = []" "t_storage_provider ?d = []"
    "table_ok consumer_row_key (scan_consumer sample_pg_formats) (t_consumer ?d)"
    "list_all (\<lambda>r. did_ok sample_pg_formats (cn_provider r) \<and> CHR ''|'' \<notin> set (cn_provider r)) (t_consumer ?d)"
    by code_simp+
  then have ok: "accounts_readable sample_pg_formats sample_acct_lib ?d"
    by (simp add: accounts_readable_def sample_pg_formats_ok)
  have "map (scanned (scan_consumer sample_pg_formats)) (sort_key (\<lambda>r. (cn_provider r, cn_subscription r))
      (filter (\<lambda>r. cn_consumer r = ''did:sp'') (t_consumer ?d))) =
    [\<lparr>con_Provider = ''did:p'', con_Consumer = ''did:sp'', con_Customer = ''did:k'', con_Subscription = ''a'', con_Cause = ''c2''\<rparr>,
     \<lparr>con_Provider = ''did:p'', con_Consumer = ''did:sp'', con_Customer = ''did:k'', con_Subscription = ''a|b'', con_Cause = ''c1''\<rparr>]"
    by code_simp
  with pg_account_listings_complete [OF ok, of quiet "Some 1"] show ?thesis
    by (simp add: page_limit_def MaxInt64_def)
qed

end
