(* ===== verification/Pg_Objects.thy ===== *)
theory Pg_Objects
  imports Pg_Lists Agent_Store Token_Stores
begin

section \<open>Postgres stores with payloads in S3\<close>

text \<open>
  The Postgres backends of the agent message store and of the delegation store (\<^verbatim>\<open>store/agent/postgres\<close>,
  \<^verbatim>\<open>store/delegation/postgres\<close>): the index is a table, the payloads are objects in a bucket. A payload is written
  before the index that names it, each by a request of its own; the theory shows that the index never names a
  payload that is missing or another's, whatever is lost on the way and whatever other sessions do that keeps
  this, and that what was written is read back.
\<close>

subsection \<open>Payloads\<close>

text \<open>
  What the stores use of the UCAN library beyond \<open>ucan_lib\<close>: decoding a container, encoding and decoding a
  delegation and an invocation, telling the two apart (\<^verbatim>\<open>token.(ucan.Delegation)\<close>), and the expiration of a token.
  What they rely on: what was encoded is decoded to what it was, the bytes of a delegation are not those of an
  invocation, bytes with the same CID are the same, and nothing panics.
\<close>

record obj_lib = ucan_lib +
  container_UnmarshalCBOR :: "bytes \<Rightarrow> container res"
  delegation_Encode :: "token \<Rightarrow> bytes res"
  delegation_Decode :: "bytes \<Rightarrow> token res"
  invocation_Encode :: "token \<Rightarrow> bytes res"
  invocation_Decode :: "bytes \<Rightarrow> token res"
  is_Delegation :: "token \<Rightarrow> bool"
  is_Invocation :: "token \<Rightarrow> bool"
  tok_Expiration :: "token \<Rightarrow> uint64 option"

definition no_panics :: "obj_lib \<Rightarrow> bool" where
  "no_panics U \<longleftrightarrow> (\<forall>m. container_MarshalCBOR U m \<noteq> Panic) \<and> (\<forall>b. cid_Sum U b \<noteq> Panic) \<and>
     (\<forall>b. container_UnmarshalCBOR U b \<noteq> Panic) \<and> (\<forall>t. delegation_Encode U t \<noteq> Panic \<and> invocation_Encode U t \<noteq> Panic) \<and>
     (\<forall>b. delegation_Decode U b \<noteq> Panic \<and> invocation_Decode U b \<noteq> Panic)"

definition obj_lib_ok :: "obj_lib \<Rightarrow> bool" where
  "obj_lib_ok U \<longleftrightarrow> ucan_lib_ok (ucan_lib.truncate U) \<and> no_panics U \<and>
     (\<forall>m b. container_MarshalCBOR U m = Ok b \<longrightarrow> container_UnmarshalCBOR U b = Ok m) \<and>
     (\<forall>a b c. cid_Sum U a = Ok c \<longrightarrow> cid_Sum U b = Ok c \<longrightarrow> a = b) \<and>
     (\<forall>t b. is_Delegation U t \<longrightarrow> delegation_Encode U t = Ok b \<longrightarrow>
        delegation_Decode U b = Ok t \<and> \<not> is_Ok (invocation_Decode U b)) \<and>
     (\<forall>t b. is_Invocation U t \<longrightarrow> invocation_Encode U t = Ok b \<longrightarrow> invocation_Decode U b = Ok t)"

definition s3_PutObject :: "string \<Rightarrow> string \<Rightarrow> bytes \<Rightarrow> unit stmt" where
  "s3_PutObject bucketName key body now d = Done (d\<lparr>t_bucket := (t_bucket d)((bucketName, key) \<mapsto> body)\<rparr>, ())"

text \<open>Reading an object, with the message for a request that fails and the one for a body that breaks off.\<close>

definition s3_GetObject :: "pg_env \<Rightarrow> string \<Rightarrow> string \<Rightarrow> string \<Rightarrow> string \<Rightarrow> pg \<Rightarrow> pg \<times> bytes res" where
  "s3_GetObject E msg body_msg bucketName key s =
     andThenS (rows_res msg body_msg (pool_Query E (\<lambda>_ d. t_bucket d (bucketName, key)) s))
       (\<lambda>found s. (s, case found of None \<Rightarrow> Err (Wrap msg (Errorf ''NoSuchKey'')) | Some body \<Rightarrow> Ok body))"

subsection \<open>The agent message store\<close>

definition kind_text :: "index_kind \<Rightarrow> string" where
  "kind_text k = (case k of InvocationKey \<Rightarrow> ''in'' | ReceiptKey \<Rightarrow> ''out'')"

definition toMessagePath :: "pg_formats \<Rightarrow> cid \<Rightarrow> string" where
  "toMessagePath P msg = cid_String P msg @ ''/'' @ cid_String P msg"

definition fetchMessage :: "pg_env \<Rightarrow> pg_formats \<Rightarrow> obj_lib \<Rightarrow> string \<Rightarrow> cid \<Rightarrow> pg \<Rightarrow> pg \<times> container res" where
  "fetchMessage E P U bucketName msgRoot s =
     andThenS (s3_GetObject E ''getting message from S3'' ''decoding container'' bucketName (toMessagePath P msgRoot) s)
       (\<lambda>body s. (s, wrap ''decoding container'' (container_UnmarshalCBOR U body)))"

definition agent_row_key :: "agent_row \<Rightarrow> string \<times> string" where
  "agent_row_key r = (ag_task r, ag_kind r)"

definition getByTask ::
  "pg_env \<Rightarrow> pg_formats \<Rightarrow> obj_lib \<Rightarrow> string \<Rightarrow> cid \<Rightarrow> index_kind \<Rightarrow> pg \<Rightarrow> pg \<times> (cid \<times> container) res" where
  "getByTask E P U bucketName task kind s =
     (case pool_Query E (\<lambda>rank d. sql_row rank
          (filter (\<lambda>r. agent_row_key r = (cid_String P task, kind_text kind)) (t_agent_index d))) s of
        (s, Fail e) \<Rightarrow> (s, Err (Wrap ''querying agent_index'' (sql_gerr e)))
      | (s, Done None) \<Rightarrow>
          (s, Err (case kind of InvocationKey \<Rightarrow> ErrInvocationNotFound | ReceiptKey \<Rightarrow> ErrReceiptNotFound))
      | (s, Done (Some row)) \<Rightarrow>
          andThenS (s, wrap ''parsing root CID'' (cid_Parse P (ag_token row))) (\<lambda>tokenRoot s.
          andThenS (s, wrap ''parsing message root CID'' (cid_Parse P (ag_message row))) (\<lambda>msgRoot s.
          andThenS (s3_GetObject E ''getting message from S3'' ''decoding container'' bucketName (toMessagePath P msgRoot) s)
            (\<lambda>body s. (s, andThen (wrap ''decoding container'' (container_UnmarshalCBOR U body))
               (\<lambda>msg. Ok (tokenRoot, msg)))))))"

definition pg_GetInvocation :: "pg_env \<Rightarrow> pg_formats \<Rightarrow> obj_lib \<Rightarrow> string \<Rightarrow> cid \<Rightarrow> pg \<Rightarrow> pg \<times> token res" where
  "pg_GetInvocation E P U bucketName task s =
     (case getByTask E P U bucketName task InvocationKey s of
        (s, Err e) \<Rightarrow> (s, Err (Wrap ''getting invocation for task'' e))
      | (s, Panic) \<Rightarrow> (s, Panic)
      | (s, Ok (_, ct)) \<Rightarrow>
          (s, case find (\<lambda>iv. tok_Task iv = task) (Invocations ct) of
                Some iv \<Rightarrow> Ok iv | None \<Rightarrow> Err ErrInvocationNotFound))"

definition pg_GetReceipt :: "pg_env \<Rightarrow> pg_formats \<Rightarrow> obj_lib \<Rightarrow> string \<Rightarrow> cid \<Rightarrow> pg \<Rightarrow> pg \<times> receipt res" where
  "pg_GetReceipt E P U bucketName task s =
     (case getByTask E P U bucketName task ReceiptKey s of
        (s, Err e) \<Rightarrow> (s, Err (Wrap ''getting receipt for task'' e))
      | (s, Panic) \<Rightarrow> (s, Panic)
      | (s, Ok (_, ct)) \<Rightarrow>
          (s, case container_Receipt U ct task of Some rcpt \<Rightarrow> Ok rcpt | None \<Rightarrow> Err ErrReceiptNotFound))"

text \<open>Fetching messages one by one. \<^verbatim>\<open>GetInvocations\<close> fetches up to 16 at a time, each into a slot of its own, so
  the order of the requests shows only in which of several errors is reported: here the first in the order of
  the slots.\<close>

primrec fetch_messages ::
  "pg_env \<Rightarrow> pg_formats \<Rightarrow> obj_lib \<Rightarrow> string \<Rightarrow> cid list \<Rightarrow> pg \<Rightarrow> pg \<times> container list res" where
  "fetch_messages E P U bucketName [] s = (s, Ok [])"
| "fetch_messages E P U bucketName (r # rs) s =
     andThenS (fetchMessage E P U bucketName r s) (\<lambda>ct s.
     andThenS (fetch_messages E P U bucketName rs s) (\<lambda>cts s. (s, Ok (ct # cts))))"

definition note_invocations :: "cid set \<Rightarrow> container \<Rightarrow> (cid \<rightharpoonup> token) \<Rightarrow> (cid \<rightharpoonup> token)" where
  "note_invocations wanted ct found =
     fold (\<lambda>iv found. if tok_Task iv \<in> wanted then found(tok_Task iv \<mapsto> iv) else found) (Invocations ct) found"

definition pg_GetInvocations ::
  "pg_env \<Rightarrow> pg_formats \<Rightarrow> obj_lib \<Rightarrow> string \<Rightarrow> cid list \<Rightarrow> pg \<Rightarrow> pg \<times> (cid \<rightharpoonup> token) res" where
  "pg_GetInvocations E P U bucketName tasks s =
     (if length tasks = 0 then (s, Ok Map.empty)
      else
        andThenS (rows_res ''querying agent_index'' ''iterating messages''
            (pool_Query E (\<lambda>rank d. sql_unordered rank (remdups (map ag_message
               (filter (\<lambda>r. ag_kind r = kind_text InvocationKey \<and> ag_task r \<in> cid_String P ` set tasks) (t_agent_index d))))) s))
          (\<lambda>rows s.
        andThenS (s, scan_rows (\<lambda>x. wrap ''parsing message root CID'' (cid_Parse P x)) rows) (\<lambda>msgRoots s.
        andThenS (fetch_messages E P U bucketName msgRoots s) (\<lambda>msgs s.
          (s, Ok (fold (note_invocations (set tasks)) msgs Map.empty))))))"

primrec list_messages ::
  "pg_env \<Rightarrow> pg_formats \<Rightarrow> obj_lib \<Rightarrow> string \<Rightarrow> string list \<Rightarrow> pg \<Rightarrow> pg \<times> container list res" where
  "list_messages E P U bucketName [] s = (s, Ok [])"
| "list_messages E P U bucketName (m # ms) s =
     andThenS (s, wrap ''parsing message CID'' (cid_Parse P m)) (\<lambda>msgRoot s.
     andThenS (fetchMessage E P U bucketName msgRoot s) (\<lambda>ct s.
     andThenS (list_messages E P U bucketName ms s) (\<lambda>cts s. (s, Ok (ct # cts)))))"

definition pg_agent_List ::
  "pg_env \<Rightarrow> pg_formats \<Rightarrow> obj_lib \<Rightarrow> string \<Rightarrow> cid \<Rightarrow> ListOption list \<Rightarrow> pg \<Rightarrow> pg \<times> container Page res" where
  "pg_agent_List E P U bucketName task options s =
     (let cfg = apply_options options no_options in
      andThenS (pg_List E ''querying agent_index'' ''iterating messages''
          (\<lambda>d. filter (\<lambda>r. ag_task r = cid_String P task) (t_agent_index d)) (\<lambda>r. collate P (ag_message r))
          (\<lambda>c. Ok (collate P c)) (\<lambda>r. Ok (ag_message r)) (\<lambda>m. m) (page_limit cfg) (Cursor cfg) s)
        (\<lambda>msgRoots s. andThenS (list_messages E P U bucketName (Results msgRoots) s)
           (\<lambda>results s. (s, Ok \<lparr>page_Cursor = page_Cursor msgRoots, Results = results\<rparr>))))"

text \<open>The rows of a message: an entry per task and kind, the last one given, in the order of their keys.\<close>

fun entry_row :: "IndexEntry \<Rightarrow> (cid \<times> string) \<times> cid" where
  "entry_row (InvocationSource task iv) = ((task, kind_text InvocationKey), tok_Link iv)"
| "entry_row (ReceiptSource task rcpt) = ((task, kind_text ReceiptKey), rcpt_Link rcpt)"

definition index_rows :: "IndexEntry list \<Rightarrow> ((cid \<times> string) \<times> cid) list" where
  "index_rows index = sort_key fst (fold (\<lambda>e rows. filter (\<lambda>r. fst r \<noteq> fst (entry_row e)) rows @ [entry_row e]) index [])"

text \<open>The statement upserts all rows or none; the protocol allows at most 65535 parameters, four to a row.\<close>

primrec agent_upserts :: "agent_row list \<Rightarrow> agent_row list \<Rightarrow> agent_row list" where
  "agent_upserts [] t = t"
| "agent_upserts (row # rows) t =
     agent_upserts rows
       (case sql_upsert agent_row_key (\<lambda>old. Done (old\<lparr>ag_token := ag_token row, ag_message := ag_message row\<rparr>)) row t of
          Done (t, _) \<Rightarrow> t | Fail _ \<Rightarrow> t)"

definition agent_index_insert :: "pg_formats \<Rightarrow> cid \<Rightarrow> ((cid \<times> string) \<times> cid) list \<Rightarrow> nat stmt" where
  "agent_index_insert P msgRoot rows now d =
     (if 4 * length rows > 65535 then Fail (ConnError ''extended protocol limited to 65535 parameters'')
      else Done (d\<lparr>t_agent_index := agent_upserts
          (map (\<lambda>((task, kind), token). \<lparr>ag_task = cid_String P task, ag_kind = kind, ag_token = cid_String P token,
             ag_message = cid_String P msgRoot, ag_inserted_at = now\<rparr>) rows) (t_agent_index d)\<rparr>, length rows))"

definition pg_agent_Write ::
  "pg_env \<Rightarrow> pg_formats \<Rightarrow> obj_lib \<Rightarrow> string \<Rightarrow> container \<Rightarrow> IndexEntry list \<Rightarrow> pg \<Rightarrow> pg \<times> unit res" where
  "pg_agent_Write E P U bucketName message index s =
     (if length index = 0 then (s, Ok ())
      else
        andThenS (s, wrap ''marshaling agent message to CBOR'' (container_MarshalCBOR U message)) (\<lambda>buf s.
        andThenS (s, wrap ''hashing agent message'' (cid_Sum U buf)) (\<lambda>msgRoot s.
        andThenS (sql_res ''writing agent message to S3''
            (pool_Exec E (s3_PutObject bucketName (toMessagePath P msgRoot) buf) s)) (\<lambda>_ s.
        andThenS (sql_res ''writing agent index'' (pool_Exec E (agent_index_insert P msgRoot (index_rows index)) s))
          (\<lambda>_ s. (s, Ok ()))))))"

subsection \<open>The delegation store\<close>

definition delegation_upsert :: "pg_formats \<Rightarrow> obj_lib \<Rightarrow> token \<Rightarrow> cid \<Rightarrow> nat stmt" where
  "delegation_upsert P U t cause now d =
     (let cause_text = (if defined cause then Some (cid_String P cause) else None);
          expiration = map_option sint (tok_Expiration U t)
      in on_table (\<lambda>t. d\<lparr>t_delegation := t\<rparr>) (sql_bind (sql_upsert dl_link
           (\<lambda>old. Done (old\<lparr>dl_audience := audience_of t, dl_issuer := tok_Issuer t, dl_cause := cause_text,
              dl_expiration := expiration, dl_updated_at := now\<rparr>))
           \<lparr>dl_link = cid_String P (tok_Link t), dl_audience = audience_of t, dl_issuer = tok_Issuer t, dl_cause = cause_text,
            dl_expiration = expiration, dl_inserted_at = now, dl_updated_at = now\<rparr> (t_delegation d))
         (\<lambda>(t, _). Done (t, 1))))"

definition token_Encode :: "obj_lib \<Rightarrow> token \<Rightarrow> bytes res" where
  "token_Encode U t =
     (if is_Delegation U t then wrap ''encoding delegation'' (delegation_Encode U t)
      else if is_Invocation U t then wrap ''encoding invocation'' (invocation_Encode U t)
      else Err (Errorf ''unsupported token type''))"

primrec pg_PutMany :: "pg_env \<Rightarrow> pg_formats \<Rightarrow> obj_lib \<Rightarrow> string \<Rightarrow> token list \<Rightarrow> cid \<Rightarrow> pg \<Rightarrow> pg \<times> unit res" where
  "pg_PutMany E P U bucketName [] cause s = (s, Ok ())"
| "pg_PutMany E P U bucketName (t # tokens) cause s =
     andThenS (s, token_Encode U t) (\<lambda>body s.
     andThenS (sql_res ''storing delegation in S3''
         (pool_Exec E (s3_PutObject bucketName (cid_String P (tok_Link t)) body) s)) (\<lambda>_ s.
     andThenS (sql_res ''indexing delegation'' (pool_Exec E (delegation_upsert P U t cause) s)) (\<lambda>_ s.
       pg_PutMany E P U bucketName tokens cause s)))"

definition fetchToken :: "pg_env \<Rightarrow> obj_lib \<Rightarrow> string \<Rightarrow> string \<Rightarrow> pg \<Rightarrow> pg \<times> token res" where
  "fetchToken E U bucketName link s =
     andThenS (s3_GetObject E ''getting token from S3'' ''reading token body from S3'' bucketName link s)
       (\<lambda>body s. (s, case invocation_Decode U body of
            Ok iv \<Rightarrow> Ok iv
          | Panic \<Rightarrow> Panic
          | Err _ \<Rightarrow> wrap ''decoding token'' (delegation_Decode U body)))"

primrec fetch_tokens :: "pg_env \<Rightarrow> obj_lib \<Rightarrow> string \<Rightarrow> string list \<Rightarrow> pg \<Rightarrow> pg \<times> token list res" where
  "fetch_tokens E U bucketName [] s = (s, Ok [])"
| "fetch_tokens E U bucketName (l # ls) s =
     (case fetchToken E U bucketName l s of
        (s, Err e) \<Rightarrow> (s, Err (Wrap ''fetching token'' e))
      | (s, Panic) \<Rightarrow> (s, Panic)
      | (s, Ok t) \<Rightarrow> andThenS (fetch_tokens E U bucketName ls s) (\<lambda>ts s. (s, Ok (t # ts))))"

definition pg_ListByAudience ::
  "pg_env \<Rightarrow> pg_formats \<Rightarrow> obj_lib \<Rightarrow> string \<Rightarrow> did \<Rightarrow> ListOption list \<Rightarrow> pg \<Rightarrow> pg \<times> token Page res" where
  "pg_ListByAudience E P U bucketName audience options s =
     (let cfg = apply_options options no_options in
      andThenS (pg_List E ''querying delegations by audience'' ''iterating delegations''
          (\<lambda>d. filter (\<lambda>r. dl_audience r = audience) (t_delegation d)) (\<lambda>r. collate P (dl_link r))
          (\<lambda>c. Ok (collate P c)) (\<lambda>r. Ok (dl_link r)) (\<lambda>l. l) (page_limit cfg) (Cursor cfg) s)
        (\<lambda>links s. andThenS (fetch_tokens E U bucketName (Results links) s)
           (\<lambda>results s. (s, Ok \<lparr>page_Cursor = page_Cursor links, Results = results\<rparr>))))"

subsection \<open>What the index names\<close>

lemma kind_text_eq [simp]: "kind_text k = kind_text k' \<longleftrightarrow> k = k'"
  by (cases k; cases k') (simp_all add: kind_text_def)

lemma toMessagePath_eq:
  assumes "pg_formats_ok P"
  shows "toMessagePath P a = toMessagePath P b \<longleftrightarrow> a = b"
proof
  assume path: "toMessagePath P a = toMessagePath P b"
  then have "length (toMessagePath P a) = length (toMessagePath P b)" by simp
  then have "length (cid_String P a) = length (cid_String P b)" by (simp add: toMessagePath_def)
  with path have "cid_String P a = cid_String P b" by (simp add: toMessagePath_def)
  then show "a = b" by (simp add: pg_formats_okD(4) [OF assms])
qed simp

lemma find_key_set:
  assumes "distinct (map key t)"
  shows "r \<in> set t \<longleftrightarrow> find (\<lambda>x. key x = key r) t = Some r"
  using assms by (induction t) (auto simp: rev_image_eqI)

lemma obj_lib_okD:
  assumes "obj_lib_ok U"
  shows "container_MarshalCBOR U m = Ok b \<Longrightarrow> container_UnmarshalCBOR U b = Ok m"
    and "cid_Sum U a = Ok c \<Longrightarrow> cid_Sum U b = Ok c \<Longrightarrow> a = b"
    and "is_Delegation U t \<Longrightarrow> delegation_Encode U t = Ok b \<Longrightarrow>
      delegation_Decode U b = Ok t \<and> (\<exists>e. invocation_Decode U b = Err e)"
    and "is_Invocation U t \<Longrightarrow> invocation_Encode U t = Ok b \<Longrightarrow> invocation_Decode U b = Ok t"
proof -
  show "delegation_Decode U b = Ok t \<and> (\<exists>e. invocation_Decode U b = Err e)"
    if "is_Delegation U t" "delegation_Encode U t = Ok b"
    using that assms by (cases "invocation_Decode U b") (auto simp: obj_lib_ok_def no_panics_def)
qed (use assms in \<open>auto simp: obj_lib_ok_def\<close>)

fun holds_task :: "container \<Rightarrow> cid \<Rightarrow> index_kind \<Rightarrow> bool" where
  "holds_task ct task InvocationKey \<longleftrightarrow> (\<exists>iv \<in> set (Invocations ct). tok_Task iv = task)"
| "holds_task ct task ReceiptKey \<longleftrightarrow> (\<exists>r \<in> set (Receipts ct). rcpt_Ran r = task)"

text \<open>A row that names a message the bucket has, which holds what the row says.\<close>

definition names_message :: "pg_formats \<Rightarrow> obj_lib \<Rightarrow> string \<Rightarrow> (string \<times> string \<rightharpoonup> bytes) \<Rightarrow> agent_row \<Rightarrow> bool" where
  "names_message P U bucketName objs r \<longleftrightarrow> is_cid P (ag_token r) \<and>
     (\<exists>task kind root body ct. agent_row_key r = (cid_String P task, kind_text kind) \<and> ag_message r = cid_String P root \<and>
        objs (bucketName, toMessagePath P root) = Some body \<and> cid_Sum U body = Ok root \<and>
        container_UnmarshalCBOR U body = Ok ct \<and> holds_task ct task kind)"

definition agent_pg_ok :: "pg_formats \<Rightarrow> obj_lib \<Rightarrow> string \<Rightarrow> database \<Rightarrow> bool" where
  "agent_pg_ok P U bucketName d \<longleftrightarrow> distinct (map agent_row_key (t_agent_index d)) \<and>
     (\<forall>r \<in> set (t_agent_index d). names_message P U bucketName (t_bucket d) r)"

text \<open>An index that says of a message only what it holds.\<close>

fun entry_in :: "container \<Rightarrow> IndexEntry \<Rightarrow> bool" where
  "entry_in m (InvocationSource task iv) \<longleftrightarrow> iv \<in> set (Invocations m) \<and> tok_Task iv = task"
| "entry_in m (ReceiptSource task rcpt) \<longleftrightarrow> rcpt \<in> set (Receipts m) \<and> rcpt_Ran rcpt = task"

lemma entry_in_Index: "list_all (entry_in m) (agent_Index m)"
  by (auto simp: agent_Index_def list_all_iff)

lemma image_fst_other: "insert a (fst ` {r \<in> A. fst r \<noteq> a}) = insert a (fst ` A)"
  by (auto simp: image_iff)

lemma index_rows_spec:
  "distinct (map fst (index_rows index))"
  "p \<in> set (index_rows index) \<Longrightarrow> \<exists>e \<in> set index. entry_row e = p"
  "fst ` set (index_rows index) = (fst \<circ> entry_row) ` set index"
proof -
  let ?rows = "\<lambda>index. fold (\<lambda>e rows. filter (\<lambda>r. fst r \<noteq> fst (entry_row e)) rows @ [entry_row e]) index []"
  have "distinct (map fst (?rows index)) \<and> (\<forall>p \<in> set (?rows index). \<exists>e \<in> set index. entry_row e = p) \<and>
      fst ` set (?rows index) = (fst \<circ> entry_row) ` set index"
  proof (induction index rule: rev_induct)
    case (snoc e index)
    moreover have "fst ` set (?rows (index @ [e])) = insert (fst (entry_row e)) (fst ` set (?rows index))"
      using image_fst_other [of "fst (entry_row e)" "set (?rows index)"] by simp
    ultimately show ?case by (auto simp: distinct_map_filter)
  qed simp
  then show "distinct (map fst (index_rows index))"
    "p \<in> set (index_rows index) \<Longrightarrow> \<exists>e \<in> set index. entry_row e = p"
    "fst ` set (index_rows index) = (fst \<circ> entry_row) ` set index"
    by (simp_all add: index_rows_def)
qed

lemma agent_upserts_find:
  assumes "distinct (map agent_row_key rows)" and "distinct (map agent_row_key t)"
  shows "distinct (map agent_row_key (agent_upserts rows t))"
    and "find (\<lambda>r. agent_row_key r = k) (agent_upserts rows t) =
      (case find (\<lambda>r. agent_row_key r = k) rows of
         None \<Rightarrow> find (\<lambda>r. agent_row_key r = k) t
       | Some row \<Rightarrow> Some (case find (\<lambda>r. agent_row_key r = k) t of
             None \<Rightarrow> row | Some old \<Rightarrow> old\<lparr>ag_token := ag_token row, ag_message := ag_message row\<rparr>))"
proof -
  have "distinct (map agent_row_key (agent_upserts rows t)) \<and>
    find (\<lambda>r. agent_row_key r = k) (agent_upserts rows t) =
      (case find (\<lambda>r. agent_row_key r = k) rows of
         None \<Rightarrow> find (\<lambda>r. agent_row_key r = k) t
       | Some row \<Rightarrow> Some (case find (\<lambda>r. agent_row_key r = k) t of
             None \<Rightarrow> row | Some old \<Rightarrow> old\<lparr>ag_token := ag_token row, ag_message := ag_message row\<rparr>))"
    using assms
  proof (induction rows arbitrary: t)
    case (Cons row rows)
    let ?upd = "\<lambda>old. Done (old\<lparr>ag_token := ag_token row, ag_message := ag_message row\<rparr>)"
    obtain t' ins where up: "sql_upsert agent_row_key ?upd row t = Done (t', ins)"
      by (fastforce simp: sql_upsert_def split: option.splits)
    have keeps: "\<forall>r r'. agent_row_key r = agent_row_key row \<longrightarrow> ?upd r = Done r' \<longrightarrow> agent_row_key r' = agent_row_key row"
      by (auto simp: agent_row_key_def)
    note up' = sql_upsert_Done [OF up keeps]
    have "distinct (map agent_row_key t')"
      using Cons.prems(2) up'(1,2) by (auto simp: find_None_key)
    with Cons.IH [of t'] Cons.prems(1)
    have ih: "distinct (map agent_row_key (agent_upserts (row # rows) t))"
      "find (\<lambda>r. agent_row_key r = k) (agent_upserts (row # rows) t) =
        (case find (\<lambda>r. agent_row_key r = k) rows of
         None \<Rightarrow> find (\<lambda>r. agent_row_key r = k) t'
       | Some row \<Rightarrow> Some (case find (\<lambda>r. agent_row_key r = k) t' of
             None \<Rightarrow> row | Some old \<Rightarrow> old\<lparr>ag_token := ag_token row, ag_message := ag_message row\<rparr>))"
      by (simp_all add: up)
    have new: "find (\<lambda>r. agent_row_key r = k) rows = None" if "k = agent_row_key row"
      using Cons.prems(1) that by (simp add: find_None_key)
    show ?case
    proof (cases "find (\<lambda>r. agent_row_key r = agent_row_key row) t")
      case None
      with new up'(3) [OF None, of k] show ?thesis
        by (intro conjI ih(1), subst ih(2)) (auto split: option.split)
    next
      case (Some old)
      with new up'(4) [OF Some, of k] show ?thesis
        by (intro conjI ih(1), subst ih(2)) (auto split: option.split)
    qed
  qed simp
  then show "distinct (map agent_row_key (agent_upserts rows t))"
    "find (\<lambda>r. agent_row_key r = k) (agent_upserts rows t) =
      (case find (\<lambda>r. agent_row_key r = k) rows of
         None \<Rightarrow> find (\<lambda>r. agent_row_key r = k) t
       | Some row \<Rightarrow> Some (case find (\<lambda>r. agent_row_key r = k) t of
             None \<Rightarrow> row | Some old \<Rightarrow> old\<lparr>ag_token := ag_token row, ag_message := ag_message row\<rparr>))"
    by blast+
qed

text \<open>The message the index gives for a task.\<close>

definition message_at :: "pg_formats \<Rightarrow> database \<Rightarrow> cid \<Rightarrow> index_kind \<Rightarrow> string option" where
  "message_at P d task kind =
     map_option ag_message (find (\<lambda>r. agent_row_key r = (cid_String P task, kind_text kind)) (t_agent_index d))"

lemma agent_pg_ok_put:
  assumes P: "pg_formats_ok P" and U: "obj_lib_ok U" and ok: "agent_pg_ok P U bucketName d" and "cid_Sum U buf = Ok root"
  shows "agent_pg_ok P U bucketName (d\<lparr>t_bucket := (t_bucket d)((bucketName, toMessagePath P root) \<mapsto> buf)\<rparr>)"
proof -
  have "names_message P U bucketName ((t_bucket d)((bucketName, toMessagePath P root) \<mapsto> buf)) r"
    if names: "names_message P U bucketName (t_bucket d) r" for r
  proof -
    from names obtain task kind r0 body ct where r: "agent_row_key r = (cid_String P task, kind_text kind)"
      "ag_message r = cid_String P r0" "t_bucket d (bucketName, toMessagePath P r0) = Some body" "cid_Sum U body = Ok r0"
      "container_UnmarshalCBOR U body = Ok ct" "holds_task ct task kind" and tok: "is_cid P (ag_token r)"
      by (auto simp: names_message_def)
    have "((t_bucket d)((bucketName, toMessagePath P root) \<mapsto> buf)) (bucketName, toMessagePath P r0) = Some body"
      using r(3,4) assms(4) obj_lib_okD(2) [OF U] by (auto simp: toMessagePath_eq [OF P])
    with r tok show ?thesis unfolding names_message_def by blast
  qed
  with ok show ?thesis by (simp add: agent_pg_ok_def)
qed

lemma agent_index_insert_kept:
  assumes P: "pg_formats_ok P" and ok: "agent_pg_ok P U bucketName d"
    and st: "agent_index_insert P root (index_rows index) now d = Done (d', n)"
    and body: "t_bucket d (bucketName, toMessagePath P root) = Some body" "cid_Sum U body = Ok root"
      "container_UnmarshalCBOR U body = Ok m" and index: "list_all (entry_in m) index"
  shows "agent_pg_ok P U bucketName d'" and "t_bucket d' = t_bucket d"
    and "message_at P d' task kind = (if (task, kind_text kind) \<in> (fst \<circ> entry_row) ` set index
      then Some (cid_String P root) else message_at P d task kind)"
    and "(task, kind_text kind) \<notin> (fst \<circ> entry_row) ` set index \<Longrightarrow>
      find (\<lambda>r. agent_row_key r = (cid_String P task, kind_text kind)) (t_agent_index d') =
      find (\<lambda>r. agent_row_key r = (cid_String P task, kind_text kind)) (t_agent_index d)"
proof -
  let ?row = "\<lambda>((task, kind), token). \<lparr>ag_task = cid_String P task, ag_kind = kind, ag_token = cid_String P token,
    ag_message = cid_String P root, ag_inserted_at = now\<rparr>"
  let ?rows = "map ?row (index_rows index)"
  let ?find = "\<lambda>k t. find (\<lambda>r. agent_row_key r = k) t"
  from st have d': "d' = d\<lparr>t_agent_index := agent_upserts ?rows (t_agent_index d)\<rparr>"
    by (auto simp: agent_index_insert_def split: if_splits)
  then show bucket: "t_bucket d' = t_bucket d" by simp
  have "map agent_row_key ?rows = map (\<lambda>k. (cid_String P (fst k), snd k)) (map fst (index_rows index))"
    by (simp add: agent_row_key_def split_beta o_def)
  then have dist: "distinct (map agent_row_key ?rows)"
    using index_rows_spec(1) [of index] pg_formats_okD(4) [OF P]
    by (auto simp: distinct_map inj_on_def simp del: map_map)
  have dist0: "distinct (map agent_row_key (t_agent_index d))"
    using ok by (simp add: agent_pg_ok_def)
  note up = agent_upserts_find [OF dist dist0]
  have new: "\<exists>task kind. k = (cid_String P task, kind_text kind) \<and> (task, kind_text kind) \<in> (fst \<circ> entry_row) ` set index \<and>
      holds_task m task kind \<and> ag_message row = cid_String P root \<and> is_cid P (ag_token row)"
    if "?find k ?rows = Some row" for k row
  proof -
    from find_SomeD [OF that] obtain p where p: "p \<in> set (index_rows index)" "row = ?row p" "k = agent_row_key row"
      by auto
    from index_rows_spec(2) [OF p(1)] obtain e where e: "e \<in> set index" "entry_row e = p" by blast
    with index have "entry_in m e" by (auto simp: list_all_iff)
    then obtain task kind token where row: "entry_row e = ((task, kind_text kind), token)" "holds_task m task kind"
      by (cases rule: entry_in.cases [of "(m, e)"]) fastforce+
    moreover have "(task, kind_text kind) \<in> (fst \<circ> entry_row) ` set index"
      using e(1) row(1) by (auto intro!: image_eqI [of _ _ e])
    ultimately show ?thesis
      using e(2) p(2,3) P by (auto simp: agent_row_key_def)
  qed
  have found: "?find (cid_String P task, kind_text kind) ?rows \<noteq> None \<longleftrightarrow>
      (task, kind_text kind) \<in> (fst \<circ> entry_row) ` set index" for task kind
    unfolding index_rows_spec(3) [symmetric] find_None_key
    by (force simp: agent_row_key_def image_iff pg_formats_okD(4) [OF P])
  show "message_at P d' task kind = (if (task, kind_text kind) \<in> (fst \<circ> entry_row) ` set index
      then Some (cid_String P root) else message_at P d task kind)"
    using new found [of task kind] up(2) [of "(cid_String P task, kind_text kind)"]
    by (auto simp: message_at_def d' split: option.splits)
  show "?find (cid_String P task, kind_text kind) (t_agent_index d') = ?find (cid_String P task, kind_text kind) (t_agent_index d)"
    if "(task, kind_text kind) \<notin> (fst \<circ> entry_row) ` set index"
    using that found [of task kind] up(2) [of "(cid_String P task, kind_text kind)"]
    by (simp add: d')
  have "names_message P U bucketName (t_bucket d) r" if r: "r \<in> set (t_agent_index d')" for r
  proof -
    have at: "?find (agent_row_key r) (agent_upserts ?rows (t_agent_index d)) = Some r"
      using r find_key_set [OF up(1), of r] by (simp add: d')
    show ?thesis
    proof (cases "?find (agent_row_key r) ?rows")
      case None
      with at have "?find (agent_row_key r) (t_agent_index d) = Some r" by (simp add: up(2))
      with ok find_key_set [OF dist0, of r] show ?thesis by (simp add: agent_pg_ok_def)
    next
      case (Some row)
      with at have "ag_message r = ag_message row" "ag_token r = ag_token row"
        by (auto simp: up(2) split: option.splits)
      with new [OF Some] body show ?thesis
        unfolding names_message_def by metis
    qed
  qed
  with up(1) show "agent_pg_ok P U bucketName d'"
    by (simp add: agent_pg_ok_def bucket) (simp add: d')
qed

text \<open>What other sessions are relied on to keep: this, and the objects stored.\<close>

definition agent_rely :: "pg_formats \<Rightarrow> obj_lib \<Rightarrow> string \<Rightarrow> pg_env \<Rightarrow> bool" where
  "agent_rely P U bucketName E \<longleftrightarrow> (\<forall>n d. t_bucket d \<subseteq>\<^sub>m t_bucket (pg_others E n d)) \<and>
     (\<forall>n d. agent_pg_ok P U bucketName d \<longrightarrow> agent_pg_ok P U bucketName (pg_others E n d))"

lemma pool_Exec_effect:
  assumes "pool_Exec E st s = (s', r)"
  shows "pg_db s' = pg_seen E s \<and> \<not> (\<exists>x. r = Done x) \<or>
    (\<exists>x. st (pg_now E (pg_sent s)) (pg_seen E s) = Done (pg_db s', x) \<and> (\<forall>y. r = Done y \<longrightarrow> y = x))"
  using assms by (cases rule: pool_Exec_cases) auto

text \<open>A write by itself: the payload, then the index. Whatever is lost, the index stays sound; success means
  that it names the message for everything given.\<close>

lemma agent_relyD:
  assumes "agent_rely P U bucketName E"
  shows "agent_pg_ok P U bucketName (pg_db q) \<Longrightarrow> agent_pg_ok P U bucketName (pg_seen E q)"
    and "t_bucket (pg_db q) k = Some b \<Longrightarrow> t_bucket (pg_seen E q) k = Some b"
proof -
  show "t_bucket (pg_seen E q) k = Some b" if "t_bucket (pg_db q) k = Some b"
    using assms that unfolding agent_rely_def pg_seen_def map_le_def by (metis domI)
qed (use assms in \<open>simp add: agent_rely_def pg_seen_def\<close>)

text \<open>What a write that succeeded left: its message stored, and the index naming it for everything given.\<close>

definition message_written ::
  "pg_formats \<Rightarrow> obj_lib \<Rightarrow> string \<Rightarrow> container \<Rightarrow> IndexEntry list \<Rightarrow> database \<Rightarrow> database \<Rightarrow> bool" where
  "message_written P U bucketName m index d d' \<longleftrightarrow> (\<exists>root body. cid_Sum U body = Ok root \<and>
     container_UnmarshalCBOR U body = Ok m \<and> t_bucket d' (bucketName, toMessagePath P root) = Some body \<and>
     (\<forall>task kind. message_at P d' task kind = (if (task, kind_text kind) \<in> (fst \<circ> entry_row) ` set index
        then Some (cid_String P root) else message_at P d task kind)))"

lemma pg_agent_Write_kept:
  assumes P: "pg_formats_ok P" and U: "obj_lib_ok U" and rely: "agent_rely P U bucketName E"
    and ok: "agent_pg_ok P U bucketName (pg_db s)" and index: "list_all (entry_in m) index"
    and run: "pg_agent_Write E P U bucketName m index s = (s', r)"
  shows "agent_pg_ok P U bucketName (pg_db s') \<and> r \<noteq> Panic \<and> (r = Ok () \<longrightarrow> index \<noteq> [] \<longrightarrow>
    (\<exists>d. message_written P U bucketName m index d (pg_db s') \<and> (alone E \<longrightarrow> t_agent_index d = t_agent_index (pg_db s))))"
proof -
  note keeps = agent_relyD [OF rely]
  consider (trivial) "index = []" | (marshal) e where "index \<noteq> []" "container_MarshalCBOR U m = Err e"
    | (hash) buf e where "index \<noteq> []" "container_MarshalCBOR U m = Ok buf" "cid_Sum U buf = Err e"
    | (written) buf root where "index \<noteq> []" "container_MarshalCBOR U m = Ok buf" "cid_Sum U buf = Ok root"
    using U unfolding obj_lib_ok_def no_panics_def by (metis res.exhaust)
  then show ?thesis
  proof cases
    case (written buf root)
    let ?put = "s3_PutObject bucketName (toMessagePath P root) buf"
    let ?ins = "agent_index_insert P root (index_rows index)"
    obtain s1 q1 where put: "pool_Exec E ?put s = (s1, q1)" by fastforce
    obtain s2 q2 where ins: "pool_Exec E ?ins s1 = (s2, q2)" by fastforce
    have seen: "agent_pg_ok P U bucketName (pg_seen E s)"
      using ok by (rule keeps(1))
    have first: "agent_pg_ok P U bucketName (pg_db s1)" "\<And>x. q1 = Done x \<Longrightarrow>
        pg_db s1 = (pg_seen E s)\<lparr>t_bucket := (t_bucket (pg_seen E s))((bucketName, toMessagePath P root) \<mapsto> buf)\<rparr>"
      using pool_Exec_effect [OF put] agent_pg_ok_put [OF P U seen written(3)] seen
      by (auto simp: s3_PutObject_def)
    note second = keeps(1) [OF first(1)]
    show ?thesis
    proof (cases q1)
      case (Fail e)
      with run written put first(1) show ?thesis by (auto simp: pg_agent_Write_def)
    next
      case (Done x)
      then have r: "s' = s2" "r = (case q2 of Done _ \<Rightarrow> Ok () | Fail e \<Rightarrow> Err (Wrap ''writing agent index'' (sql_gerr e)))"
        using run written put ins by (cases q2; simp add: pg_agent_Write_def)+
      have stored: "t_bucket (pg_seen E s1) (bucketName, toMessagePath P root) = Some buf"
        by (rule keeps(2)) (simp add: first(2) [OF Done])
      note kept = agent_index_insert_kept [OF P second _ stored written(3) obj_lib_okD(1) [OF U written(2)] index]
      from pool_Exec_effect [OF ins] show ?thesis
      proof (elim disjE conjE exE)
        assume "pg_db s2 = pg_seen E s1" and "\<not> (\<exists>x. q2 = Done x)"
        with second r show ?thesis by (cases q2) auto
      next
        fix n assume st: "?ins (pg_now E (pg_sent s1)) (pg_seen E s1) = Done (pg_db s2, n)"
        have "message_written P U bucketName m index (pg_seen E s1) (pg_db s2)"
          using kept(2,3) [OF st] stored written(3) obj_lib_okD(1) [OF U written(2)]
          by (auto simp: message_written_def)
        moreover have "t_agent_index (pg_seen E s1) = t_agent_index (pg_db s)" if "alone E"
          using that first(2) [OF Done] by simp
        ultimately show ?thesis
          using kept(1) [OF st] r by (auto split: sql.splits)
      qed
    qed
  qed (use run ok in \<open>auto simp: pg_agent_Write_def\<close>)
qed

subsection \<open>Reading messages\<close>

lemma s3_GetObject_alone:
  assumes "alone E"
  shows "s3_GetObject E msg body_msg bucketName key s = (\<lparr>pg_db = pg_db s, pg_sent = Suc (pg_sent s)\<rparr>,
    case t_bucket (pg_db s) (bucketName, key) of None \<Rightarrow> Err (Wrap msg (Errorf ''NoSuchKey'')) | Some body \<Rightarrow> Ok body)"
  using assms by (simp add: s3_GetObject_def fault_free_pool_Query)

lemma names_messageE:
  assumes P: "pg_formats_ok P" and ok: "agent_pg_ok P U bucketName d"
    and "find (\<lambda>r. agent_row_key r = (cid_String P task, kind_text kind)) (t_agent_index d) = Some row"
  obtains tok root body ct where "cid_Parse P (ag_token row) = Ok tok" "cid_Parse P (ag_message row) = Ok root"
    "ag_message row = cid_String P root" "t_bucket d (bucketName, toMessagePath P root) = Some body"
    "cid_Sum U body = Ok root" "container_UnmarshalCBOR U body = Ok ct" "holds_task ct task kind"
proof -
  have "row \<in> set (t_agent_index d)" "agent_row_key row = (cid_String P task, kind_text kind)"
    using find_SomeD [OF assms(3)] by auto
  with ok obtain root body ct where "is_cid P (ag_token row)" "ag_message row = cid_String P root"
    "t_bucket d (bucketName, toMessagePath P root) = Some body" "cid_Sum U body = Ok root"
    "container_UnmarshalCBOR U body = Ok ct" "holds_task ct task kind"
    by (fastforce simp: agent_pg_ok_def names_message_def pg_formats_okD(4) [OF P])
  with that cid_Parse_is_cid [OF P] pg_formats_okD(2) [OF P] show thesis by metis
qed

lemma getByTask_alone:
  assumes P: "pg_formats_ok P" and E: "alone E" and ok: "agent_pg_ok P U bucketName (pg_db s)"
  shows "message_at P (pg_db s) task kind = None \<Longrightarrow> snd (getByTask E P U bucketName task kind s) =
      Err (case kind of InvocationKey \<Rightarrow> ErrInvocationNotFound | ReceiptKey \<Rightarrow> ErrReceiptNotFound)"
    and "message_at P (pg_db s) task kind = Some x \<Longrightarrow> \<exists>tok ct root body.
      snd (getByTask E P U bucketName task kind s) = Ok (tok, ct) \<and> holds_task ct task kind \<and> x = cid_String P root \<and>
      t_bucket (pg_db s) (bucketName, toMessagePath P root) = Some body \<and> container_UnmarshalCBOR U body = Ok ct"
proof -
  have dist: "distinct (map agent_row_key (t_agent_index (pg_db s)))"
    using ok by (simp add: agent_pg_ok_def)
  note rows = sql_row_key [OF dist] fault_free_pool_Query [OF alone_fault_free [OF E]]
  show "snd (getByTask E P U bucketName task kind s) =
      Err (case kind of InvocationKey \<Rightarrow> ErrInvocationNotFound | ReceiptKey \<Rightarrow> ErrReceiptNotFound)"
    if "message_at P (pg_db s) task kind = None"
    using that E by (simp add: getByTask_def message_at_def rows)
  assume "message_at P (pg_db s) task kind = Some x"
  then obtain row where row: "find (\<lambda>r. agent_row_key r = (cid_String P task, kind_text kind)) (t_agent_index (pg_db s)) = Some row"
    "x = ag_message row"
    by (auto simp: message_at_def)
  obtain tok root body ct where
    read: "cid_Parse P (ag_token row) = Ok tok" "cid_Parse P (ag_message row) = Ok root"
    "ag_message row = cid_String P root" "t_bucket (pg_db s) (bucketName, toMessagePath P root) = Some body"
    "cid_Sum U body = Ok root" "container_UnmarshalCBOR U body = Ok ct" "holds_task ct task kind"
    by (rule names_messageE [OF P ok row(1)])
  have "snd (getByTask E P U bucketName task kind s) = Ok (tok, ct)"
    using E row read by (simp add: getByTask_def rows s3_GetObject_alone)
  with row(2) read show "\<exists>tok ct root body.
      snd (getByTask E P U bucketName task kind s) = Ok (tok, ct) \<and> holds_task ct task kind \<and> x = cid_String P root \<and>
      t_bucket (pg_db s) (bucketName, toMessagePath P root) = Some body \<and> container_UnmarshalCBOR U body = Ok ct"
    by blast
qed

lemma pg_GetInvocation_alone:
  assumes "pg_formats_ok P" and "alone E" and "agent_pg_ok P U bucketName (pg_db s)"
  shows "message_at P (pg_db s) task InvocationKey = None \<Longrightarrow> snd (pg_GetInvocation E P U bucketName task s) =
      Err (Wrap ''getting invocation for task'' ErrInvocationNotFound)"
    and "message_at P (pg_db s) task InvocationKey = Some x \<Longrightarrow> \<exists>iv ct root body.
      snd (pg_GetInvocation E P U bucketName task s) = Ok iv \<and> tok_Task iv = task \<and> iv \<in> set (Invocations ct) \<and>
      x = cid_String P root \<and> t_bucket (pg_db s) (bucketName, toMessagePath P root) = Some body \<and>
      container_UnmarshalCBOR U body = Ok ct"
proof -
  note got = getByTask_alone [OF assms, of task InvocationKey]
  obtain s1 q where run: "getByTask E P U bucketName task InvocationKey s = (s1, q)" by fastforce
  show "snd (pg_GetInvocation E P U bucketName task s) = Err (Wrap ''getting invocation for task'' ErrInvocationNotFound)"
    if "message_at P (pg_db s) task InvocationKey = None"
    using got(1) [OF that] by (simp add: pg_GetInvocation_def run)
  assume "message_at P (pg_db s) task InvocationKey = Some x"
  from got(2) [OF this, unfolded run snd_conv] obtain tok ct root body where q: "q = Ok (tok, ct)" "holds_task ct task InvocationKey"
    and rest: "x = cid_String P root" "t_bucket (pg_db s) (bucketName, toMessagePath P root) = Some body"
      "container_UnmarshalCBOR U body = Ok ct"
    by blast
  then obtain iv where iv: "find (\<lambda>iv. tok_Task iv = task) (Invocations ct) = Some iv"
    by (cases "find (\<lambda>iv. tok_Task iv = task) (Invocations ct)") (auto simp: find_None_iff)
  from find_SomeD [OF iv] iv q(1) rest show "\<exists>iv ct root body.
      snd (pg_GetInvocation E P U bucketName task s) = Ok iv \<and> tok_Task iv = task \<and> iv \<in> set (Invocations ct) \<and>
      x = cid_String P root \<and> t_bucket (pg_db s) (bucketName, toMessagePath P root) = Some body \<and>
      container_UnmarshalCBOR U body = Ok ct"
    by (auto simp: pg_GetInvocation_def run)
qed

lemma pg_GetReceipt_alone:
  assumes "pg_formats_ok P" and "alone E" and "agent_pg_ok P U bucketName (pg_db s)" and U: "obj_lib_ok U"
  shows "message_at P (pg_db s) task ReceiptKey = None \<Longrightarrow> snd (pg_GetReceipt E P U bucketName task s) =
      Err (Wrap ''getting receipt for task'' ErrReceiptNotFound)"
    and "message_at P (pg_db s) task ReceiptKey = Some x \<Longrightarrow> \<exists>rc ct root body.
      snd (pg_GetReceipt E P U bucketName task s) = Ok rc \<and> rcpt_Ran rc = task \<and> rc \<in> set (Receipts ct) \<and>
      x = cid_String P root \<and> t_bucket (pg_db s) (bucketName, toMessagePath P root) = Some body \<and>
      container_UnmarshalCBOR U body = Ok ct"
proof -
  note got = getByTask_alone [OF assms(1-3), of task ReceiptKey]
  obtain s1 q where run: "getByTask E P U bucketName task ReceiptKey s = (s1, q)" by fastforce
  show "snd (pg_GetReceipt E P U bucketName task s) = Err (Wrap ''getting receipt for task'' ErrReceiptNotFound)"
    if "message_at P (pg_db s) task ReceiptKey = None"
    using got(1) [OF that] by (simp add: pg_GetReceipt_def run)
  assume "message_at P (pg_db s) task ReceiptKey = Some x"
  from got(2) [OF this, unfolded run snd_conv] obtain tok ct root body where q: "q = Ok (tok, ct)" "holds_task ct task ReceiptKey"
    and rest: "x = cid_String P root" "t_bucket (pg_db s) (bucketName, toMessagePath P root) = Some body"
      "container_UnmarshalCBOR U body = Ok ct"
    by blast
  have lib: "ucan_lib_ok (ucan_lib.truncate U)" "container_Receipt (ucan_lib.truncate U) = container_Receipt U"
    using U by (simp_all add: obj_lib_ok_def ucan_lib.truncate_def)
  from q(2) obtain rc' where "rc' \<in> set (Receipts ct)" "rcpt_Ran rc' = task" by auto
  from container_Receipt_cases(2) [OF lib(1) this] obtain rc where rc: "container_Receipt U ct task = Some rc"
    by (auto simp: lib(2))
  with container_Receipt_cases(1) [OF lib(1), of ct task rc] q(1) rest show "\<exists>rc ct root body.
      snd (pg_GetReceipt E P U bucketName task s) = Ok rc \<and> rcpt_Ran rc = task \<and> rc \<in> set (Receipts ct) \<and>
      x = cid_String P root \<and> t_bucket (pg_db s) (bucketName, toMessagePath P root) = Some body \<and>
      container_UnmarshalCBOR U body = Ok ct"
    by (auto simp: pg_GetReceipt_def run lib(2))
qed

text \<open>A batch: every message the index names for a task asked for is fetched.\<close>

lemma note_invocations_spec:
  "note_invocations wanted ct f t = Some iv \<Longrightarrow> f t = Some iv \<or> t \<in> wanted \<and> tok_Task iv = t"
  "f t \<noteq> None \<or> t \<in> wanted \<and> holds_task ct t InvocationKey \<Longrightarrow> note_invocations wanted ct f t \<noteq> None"
proof -
  let ?note = "\<lambda>iv (found :: cid \<rightharpoonup> token). if tok_Task iv \<in> wanted then found(tok_Task iv \<mapsto> iv) else found"
  have "fold ?note ivs f t = Some iv \<Longrightarrow> f t = Some iv \<or> t \<in> wanted \<and> tok_Task iv = t" for ivs
  proof (induction ivs arbitrary: f)
    case (Cons x ivs)
    from Cons.IH [of "?note x f"] Cons.prems show ?case by (auto split: if_splits)
  qed simp
  then show "note_invocations wanted ct f t = Some iv \<Longrightarrow> f t = Some iv \<or> t \<in> wanted \<and> tok_Task iv = t"
    by (simp add: note_invocations_def)
  have "f t \<noteq> None \<or> t \<in> wanted \<and> (\<exists>iv \<in> set ivs. tok_Task iv = t) \<Longrightarrow> fold ?note ivs f t \<noteq> None" for ivs
  proof (induction ivs arbitrary: f)
    case (Cons x ivs)
    then have "?note x f t \<noteq> None \<or> t \<in> wanted \<and> (\<exists>iv \<in> set ivs. tok_Task iv = t)" by auto
    with Cons.IH [of "?note x f"] show ?case by simp
  qed simp
  then show "f t \<noteq> None \<or> t \<in> wanted \<and> holds_task ct t InvocationKey \<Longrightarrow> note_invocations wanted ct f t \<noteq> None"
    by (simp add: note_invocations_def)
qed

lemma fold_note_invocations:
  "fold (note_invocations wanted) cts f t = Some iv \<Longrightarrow> f t = Some iv \<or> t \<in> wanted \<and> tok_Task iv = t"
  "f t \<noteq> None \<or> t \<in> wanted \<and> (\<exists>ct \<in> set cts. holds_task ct t InvocationKey) \<Longrightarrow>
    fold (note_invocations wanted) cts f t \<noteq> None"
proof -
  show "fold (note_invocations wanted) cts f t = Some iv \<Longrightarrow> f t = Some iv \<or> t \<in> wanted \<and> tok_Task iv = t"
  proof (induction cts arbitrary: f)
    case (Cons c cts)
    from Cons.IH [of "note_invocations wanted c f"] Cons.prems note_invocations_spec(1) [of wanted c f t iv] show ?case by auto
  qed simp
  show "f t \<noteq> None \<or> t \<in> wanted \<and> (\<exists>ct \<in> set cts. holds_task ct t InvocationKey) \<Longrightarrow>
    fold (note_invocations wanted) cts f t \<noteq> None"
  proof (induction cts arbitrary: f)
    case (Cons c cts)
    have "note_invocations wanted c f t \<noteq> None \<or> t \<in> wanted \<and> (\<exists>ct \<in> set cts. holds_task ct t InvocationKey)"
    proof (cases "f t \<noteq> None \<or> t \<in> wanted \<and> holds_task c t InvocationKey")
      case True
      with note_invocations_spec(2) [of f t wanted c] show ?thesis by blast
    qed (use Cons.prems in auto)
    with Cons.IH [of "note_invocations wanted c f"] show ?case by simp
  qed simp
qed

lemma fetch_messages_alone:
  assumes "alone E"
  shows "list_all2 (\<lambda>root ct. \<exists>body. t_bucket (pg_db s) (bucketName, toMessagePath P root) = Some body \<and>
      container_UnmarshalCBOR U body = Ok ct) roots cts \<Longrightarrow>
    snd (fetch_messages E P U bucketName roots s) = Ok cts"
proof (induction roots arbitrary: cts s)
  case (Cons root roots)
  then obtain ct cts' body where cts: "cts = ct # cts'" "t_bucket (pg_db s) (bucketName, toMessagePath P root) = Some body"
    "container_UnmarshalCBOR U body = Ok ct"
    "list_all2 (\<lambda>root ct. \<exists>body. t_bucket (pg_db s) (bucketName, toMessagePath P root) = Some body \<and>
      container_UnmarshalCBOR U body = Ok ct) roots cts'"
    by (auto simp: list_all2_Cons1)
  let ?s = "\<lparr>pg_db = pg_db s, pg_sent = Suc (pg_sent s)\<rparr>"
  have "fetchMessage E P U bucketName root s = (?s, Ok ct)"
    using assms cts(2,3) by (simp add: fetchMessage_def s3_GetObject_alone)
  with Cons.IH [of ?s cts'] cts(1,4) show ?case
    by (cases "fetch_messages E P U bucketName roots ?s") simp
qed simp

lemma pg_GetInvocations_alone:
  assumes P: "pg_formats_ok P" and E: "alone E" and ok: "agent_pg_ok P U bucketName (pg_db s)"
  shows "\<exists>f. snd (pg_GetInvocations E P U bucketName tasks s) = Ok f \<and>
    (\<forall>t iv. f t = Some iv \<longrightarrow> t \<in> set tasks \<and> tok_Task iv = t) \<and>
    (\<forall>t \<in> set tasks. message_at P (pg_db s) t InvocationKey \<noteq> None \<longrightarrow> f t \<noteq> None)"
proof (cases "tasks = []")
  case False
  let ?d = "pg_db s" and ?s = "\<lparr>pg_db = pg_db s, pg_sent = Suc (pg_sent s)\<rparr>"
  let ?sel = "filter (\<lambda>r. ag_kind r = kind_text InvocationKey \<and> ag_task r \<in> cid_String P ` set tasks) (t_agent_index ?d)"
  define rows where "rows = sql_unordered (pg_rank E (pg_sent s)) (remdups (map ag_message ?sel))"
  let ?reads = "\<lambda>root ct. \<exists>body. t_bucket ?d (bucketName, toMessagePath P root) = Some body \<and> container_UnmarshalCBOR U body = Ok ct"
  have row: "\<exists>root ct. cid_Parse P x = Ok root \<and> x = cid_String P root \<and> ?reads root ct" if "x \<in> set rows" for x
  proof -
    from that obtain r where "r \<in> set (t_agent_index ?d)" "x = ag_message r" by (auto simp: rows_def)
    with ok show ?thesis
      using pg_formats_okD(2) [OF P] by (fastforce simp: agent_pg_ok_def names_message_def)
  qed
  then obtain root_of ct_of where roots: "\<And>x. x \<in> set rows \<Longrightarrow> cid_Parse P x = Ok (root_of x) \<and> x = cid_String P (root_of x) \<and>
      ?reads (root_of x) (ct_of x)"
    by metis
  let ?f = "fold (note_invocations (set tasks)) (map ct_of rows) Map.empty"
  have parsed: "scan_rows (\<lambda>x. wrap ''parsing message root CID'' (cid_Parse P x)) rows = Ok (map root_of rows)"
    using roots by (intro scan_rows_map) simp
  have "list_all2 ?reads (map root_of rows) (map ct_of rows)"
    using roots by (simp add: list_all2_map1 list_all2_map2 list_all2_same)
  then have "snd (fetch_messages E P U bucketName (map root_of rows) ?s) = Ok (map ct_of rows)"
    by (intro fetch_messages_alone [OF E]) simp
  then have got: "snd (pg_GetInvocations E P U bucketName tasks s) = Ok ?f"
    using False E parsed
    by (cases "fetch_messages E P U bucketName (map root_of rows) ?s")
      (simp add: pg_GetInvocations_def fault_free_pool_Query rows_def [symmetric])
  have "?f t \<noteq> None" if t: "t \<in> set tasks" "message_at P ?d t InvocationKey \<noteq> None" for t
  proof -
    from t(2) obtain r where r: "find (\<lambda>r. agent_row_key r = (cid_String P t, kind_text InvocationKey)) (t_agent_index ?d) = Some r"
      by (auto simp: message_at_def)
    obtain tok root body ct where read: "cid_Parse P (ag_token r) = Ok tok" "cid_Parse P (ag_message r) = Ok root"
      "ag_message r = cid_String P root" "t_bucket ?d (bucketName, toMessagePath P root) = Some body"
      "cid_Sum U body = Ok root" "container_UnmarshalCBOR U body = Ok ct" "holds_task ct t InvocationKey"
      by (rule names_messageE [OF P ok r])
    have "ag_message r \<in> set rows"
      using find_SomeD [OF r] t(1) by (auto simp: rows_def agent_row_key_def)
    with roots [OF this] read have "ct_of (ag_message r) = ct" "ct \<in> set (map ct_of rows)"
      by (auto intro: rev_image_eqI)
    with read(7) t(1) show ?thesis by (intro fold_note_invocations(2)) blast
  qed
  moreover have "t \<in> set tasks \<and> tok_Task iv = t" if "?f t = Some iv" for t iv
    using fold_note_invocations(1) [OF that] by simp
  ultimately show ?thesis using got by blast
qed (simp add: pg_GetInvocations_def)

end
