(* ===== verification/Pg_Tokens.thy ===== *)
theory Pg_Tokens
  imports Pg_Objects
begin

section \<open>What the Postgres message and delegation stores promise\<close>

text \<open>
  The properties of the Postgres backends that keep payloads in S3: the index names only payloads that are
  there and hold what it says, whatever was lost while they were written; what was written is read back; and
  the delegations of an audience are listed to the end.
\<close>

subsection \<open>Samples\<close>

text \<open>A library that encodes two messages and two tokens.\<close>

definition sample_inv :: token where
  "sample_inv = \<lparr>tok_Link = ''l1'', tok_Task = ''t1'', tok_Issuer = ''i'', tok_Subject = ''s'', tok_Audience = '''',
     tok_Command = ''/c'', tok_Arguments = [], tok_Nonce = [], tok_Proofs = []\<rparr>"

definition sample_dlg :: token where
  "sample_dlg = \<lparr>tok_Link = ''l2'', tok_Task = '''', tok_Issuer = ''i'', tok_Subject = ''s'', tok_Audience = ''a'',
     tok_Command = ''/c'', tok_Arguments = [], tok_Nonce = [], tok_Proofs = []\<rparr>"

definition sample_rcpt :: receipt where
  "sample_rcpt = \<lparr>rcpt_Link = ''r1'', rcpt_Ran = ''t1'', rcpt_Issuer = ''i'', rcpt_Out = OutOk []\<rparr>"

definition sample_msg :: container where
  "sample_msg = \<lparr>Invocations = [sample_inv], Delegations = [], Receipts = [sample_rcpt]\<rparr>"

definition sample_obj_lib :: obj_lib where
  "sample_obj_lib = ucan_lib.extend
     (sample_ucan_lib\<lparr>container_MarshalCBOR := (\<lambda>m. if m = sample_msg then Ok ''m'' else Err (Errorf ''unknown''))\<rparr>)
     (obj_lib.fields (\<lambda>b. if b = ''m'' then Ok sample_msg else Err (Errorf ''unknown''))
       (\<lambda>t. if t = sample_dlg then Ok ''d'' else Err (Errorf ''unknown''))
       (\<lambda>b. if b = ''d'' then Ok sample_dlg else Err (Errorf ''unknown''))
       (\<lambda>t. if t = sample_inv then Ok ''i'' else Err (Errorf ''unknown''))
       (\<lambda>b. if b = ''i'' then Ok sample_inv else Err (Errorf ''unknown''))
       (\<lambda>t. t = sample_dlg) (\<lambda>t. t = sample_inv) (\<lambda>t. None))"

lemma sample_obj_lib_ok: "obj_lib_ok sample_obj_lib"
proof -
  have "ucan_lib_ok (sample_ucan_lib\<lparr>container_MarshalCBOR := f\<rparr>)" for f
    using sample_ucan_lib_ok by (simp add: ucan_lib_ok_def)
  moreover have "ucan_lib.truncate sample_obj_lib =
      sample_ucan_lib\<lparr>container_MarshalCBOR := (\<lambda>m. if m = sample_msg then Ok ''m'' else Err (Errorf ''unknown''))\<rparr>"
    by (simp add: sample_obj_lib_def ucan_lib.truncate_def ucan_lib.extend_def)
  ultimately show ?thesis
    by (simp add: obj_lib_ok_def no_panics_def) (simp add: sample_obj_lib_def ucan_lib.extend_def obj_lib.fields_def sample_ucan_lib_def)
qed

lemma agent_rely_quiet: "agent_rely P U b quiet" "agent_rely P U b (faulty n f)"
  by (simp_all add: agent_rely_def quiet_def faulty_def)

lemma empty_agent_ok: "agent_pg_ok P U b empty_database"
  by (simp add: agent_pg_ok_def empty_database_def)

subsection \<open>Agent messages\<close>

definition pg_agent_writes :: "pg_formats \<Rightarrow> obj_lib \<Rightarrow> string \<Rightarrow> (pg_env \<times> container) list \<Rightarrow> pg \<Rightarrow> pg" where
  "pg_agent_writes P U bucketName writes s =
     fold (\<lambda>(E, m) s. fst (pg_agent_Write E P U bucketName m (agent_Index m) s)) writes s"

lemma pg_agent_writes_kept:
  assumes "pg_formats_ok P" and "obj_lib_ok U" and "\<forall>p \<in> set writes. agent_rely P U bucketName (fst p)"
    and "agent_pg_ok P U bucketName (pg_db s)"
  shows "agent_pg_ok P U bucketName (pg_db (pg_agent_writes P U bucketName writes s))"
  using assms(3,4)
proof (induction writes arbitrary: s)
  case (Cons p writes)
  have "agent_pg_ok P U bucketName (pg_db (fst (pg_agent_Write (fst p) P U bucketName (snd p) (agent_Index (snd p)) s)))"
    using pg_agent_Write_kept [OF assms(1,2) _ Cons.prems(2) entry_in_Index prod.collapse [symmetric]] Cons.prems(1) by simp
  with Cons show ?case by (simp add: pg_agent_writes_def split_beta)
qed (simp add: pg_agent_writes_def)

text \<open>
Property C19. The Postgres agent store never dangles. Whatever messages were written from the empty database, each
in an environment of its own that loses requests and answers and where other sessions write too, every task
reads without a fault as one of: the index has no entry, and the answer is not found; or the index has one,
its message is in the bucket and decodes, and the answer is an invocation (or receipt) of that task. A batch
of tasks reads without error, gives only invocations of tasks asked for, and misses none that is indexed.
\<close>

theorem pg_agent_never_dangles:
  assumes "pg_formats_ok P" and "obj_lib_ok U" and "pg_db s = empty_database"
    and "\<forall>p \<in> set writes. agent_rely P U bucketName (fst p)" and "alone E"
    and "s' = pg_agent_writes P U bucketName writes s"
  shows "(case snd (pg_GetInvocation E P U bucketName task s') of
       Ok iv \<Rightarrow> message_at P (pg_db s') task InvocationKey \<noteq> None \<and> tok_Task iv = task
     | Err e \<Rightarrow> message_at P (pg_db s') task InvocationKey = None \<and> e = Wrap ''getting invocation for task'' ErrInvocationNotFound
     | Panic \<Rightarrow> False) \<and>
    (case snd (pg_GetReceipt E P U bucketName task s') of
       Ok rc \<Rightarrow> message_at P (pg_db s') task ReceiptKey \<noteq> None \<and> rcpt_Ran rc = task
     | Err e \<Rightarrow> message_at P (pg_db s') task ReceiptKey = None \<and> e = Wrap ''getting receipt for task'' ErrReceiptNotFound
     | Panic \<Rightarrow> False) \<and>
    (\<exists>f. snd (pg_GetInvocations E P U bucketName tasks s') = Ok f \<and>
      (\<forall>t iv. f t = Some iv \<longrightarrow> t \<in> set tasks \<and> tok_Task iv = t) \<and>
      (\<forall>t \<in> set tasks. message_at P (pg_db s') t InvocationKey \<noteq> None \<longrightarrow> f t \<noteq> None))"
proof -
  have ok: "agent_pg_ok P U bucketName (pg_db s')"
    unfolding assms(6) using assms(3) by (intro pg_agent_writes_kept assms(1,2,4)) (simp add: empty_agent_ok)
  note iv = pg_GetInvocation_alone [OF assms(1,5) ok, of task]
  note rc = pg_GetReceipt_alone [OF assms(1,5) ok assms(2), of task]
  have "case snd (pg_GetInvocation E P U bucketName task s') of
       Ok iv \<Rightarrow> message_at P (pg_db s') task InvocationKey \<noteq> None \<and> tok_Task iv = task
     | Err e \<Rightarrow> message_at P (pg_db s') task InvocationKey = None \<and> e = Wrap ''getting invocation for task'' ErrInvocationNotFound
     | Panic \<Rightarrow> False"
    by (cases "message_at P (pg_db s') task InvocationKey") (use iv in fastforce)+
  moreover have "case snd (pg_GetReceipt E P U bucketName task s') of
       Ok rc \<Rightarrow> message_at P (pg_db s') task ReceiptKey \<noteq> None \<and> rcpt_Ran rc = task
     | Err e \<Rightarrow> message_at P (pg_db s') task ReceiptKey = None \<and> e = Wrap ''getting receipt for task'' ErrReceiptNotFound
     | Panic \<Rightarrow> False"
    by (cases "message_at P (pg_db s') task ReceiptKey") (use rc in fastforce)+
  ultimately show ?thesis
    using pg_GetInvocations_alone [OF assms(1,5) ok] by blast
qed

theorem pg_agent_never_dangles_witness:
  "snd (pg_GetInvocation quiet sample_pg_formats sample_obj_lib ''b'' ''t1'' (pg_agent_writes sample_pg_formats sample_obj_lib ''b''
     [(faulty 1 (Lost ''reset''), sample_msg)] \<lparr>pg_db = empty_database, pg_sent = 0\<rparr>)) =
   Err (Wrap ''getting invocation for task'' ErrInvocationNotFound)"
proof -
  let ?s = "pg_agent_writes sample_pg_formats sample_obj_lib ''b'' [(faulty 1 (Lost ''reset''), sample_msg)]
    \<lparr>pg_db = empty_database, pg_sent = 0\<rparr>"
  have "message_at sample_pg_formats (pg_db ?s) ''t1'' InvocationKey = None"
    by code_simp
  then show ?thesis
    using pg_agent_never_dangles [OF sample_pg_formats_ok sample_obj_lib_ok, of "\<lparr>pg_db = empty_database, pg_sent = 0\<rparr>"
        "[(faulty 1 (Lost ''reset''), sample_msg)]" "''b''" quiet ?s "''t1''" "[]"]
    by (simp add: agent_rely_quiet split: res.splits)
qed

lemma length_index_rows: "length (index_rows index) \<le> length index"
proof -
  have "length (fold (\<lambda>e rows. filter (\<lambda>r. fst r \<noteq> fst (entry_row e)) rows @ [entry_row e]) index []) \<le> length index"
  proof (induction index rule: rev_induct)
    case (snoc e index)
    then show ?case
      by (simp add: le_trans [OF length_filter_le])
  qed simp
  then show ?thesis by (simp add: index_rows_def)
qed

lemma pg_agent_Write_runs:
  assumes "fault_free E" and "container_MarshalCBOR U m = Ok buf" and "cid_Sum U buf = Ok root" and "4 * length index \<le> 65535"
  shows "snd (pg_agent_Write E P U bucketName m index s) = Ok ()"
  using assms length_index_rows [of index]
  by (simp add: pg_agent_Write_def fault_free_pool_Exec s3_PutObject_def agent_index_insert_def)

text \<open>A read of a task depends only on the row of its key and on the objects stored under the hash of their contents.\<close>

definition same_reads :: "pg_formats \<Rightarrow> obj_lib \<Rightarrow> string \<Rightarrow> cid \<Rightarrow> index_kind \<Rightarrow> database \<Rightarrow> database \<Rightarrow> bool" where
  "same_reads P U bucketName task kind d d' \<longleftrightarrow>
     find (\<lambda>r. agent_row_key r = (cid_String P task, kind_text kind)) (t_agent_index d') =
       find (\<lambda>r. agent_row_key r = (cid_String P task, kind_text kind)) (t_agent_index d) \<and>
     (\<forall>root body. cid_Sum U body = Ok root \<longrightarrow> t_bucket d (bucketName, toMessagePath P root) = Some body \<longrightarrow>
        t_bucket d' (bucketName, toMessagePath P root) = Some body)"

lemma getByTask_same:
  assumes P: "pg_formats_ok P" and E: "alone E"
    and ok: "agent_pg_ok P U bucketName (pg_db s)" "agent_pg_ok P U bucketName (pg_db s')"
    and same: "same_reads P U bucketName task kind (pg_db s) (pg_db s')"
  shows "snd (getByTask E P U bucketName task kind s') = snd (getByTask E P U bucketName task kind s)"
proof (cases "find (\<lambda>r. agent_row_key r = (cid_String P task, kind_text kind)) (t_agent_index (pg_db s))")
  case None
  with same have "message_at P (pg_db s) task kind = None" "message_at P (pg_db s') task kind = None"
    by (simp_all add: message_at_def same_reads_def)
  with getByTask_alone(1) [OF P E ok(1)] getByTask_alone(1) [OF P E ok(2)] show ?thesis by simp
next
  case (Some row)
  then have at: "find (\<lambda>r. agent_row_key r = (cid_String P task, kind_text kind)) (t_agent_index (pg_db s')) = Some row"
    using same by (simp add: same_reads_def)
  have dist: "distinct (map agent_row_key (t_agent_index (pg_db s)))" "distinct (map agent_row_key (t_agent_index (pg_db s')))"
    using ok by (simp_all add: agent_pg_ok_def)
  note rows = sql_row_key [OF dist(1)] sql_row_key [OF dist(2)] fault_free_pool_Query [OF alone_fault_free [OF E]]
  obtain tok root body ct where
    read: "cid_Parse P (ag_token row) = Ok tok" "cid_Parse P (ag_message row) = Ok root"
    "t_bucket (pg_db s) (bucketName, toMessagePath P root) = Some body"
    "cid_Sum U body = Ok root" "container_UnmarshalCBOR U body = Ok ct"
    by (rule names_messageE [OF P ok(1) Some])
  moreover from this(3,4) same have "t_bucket (pg_db s') (bucketName, toMessagePath P root) = Some body"
    by (simp add: same_reads_def)
  ultimately show ?thesis
    using E Some at by (simp add: getByTask_def rows s3_GetObject_alone)
qed

lemma pg_GetInvocation_same:
  assumes "snd (getByTask E P U bucketName task InvocationKey s') = snd (getByTask E P U bucketName task InvocationKey s)"
  shows "snd (pg_GetInvocation E P U bucketName task s') = snd (pg_GetInvocation E P U bucketName task s)"
  using assms by (auto simp: pg_GetInvocation_def split: prod.splits res.splits)

lemma pg_GetReceipt_same:
  assumes "snd (getByTask E P U bucketName task ReceiptKey s') = snd (getByTask E P U bucketName task ReceiptKey s)"
  shows "snd (pg_GetReceipt E P U bucketName task s') = snd (pg_GetReceipt E P U bucketName task s)"
  using assms by (auto simp: pg_GetReceipt_def split: prod.splits res.splits)

lemma same_reads_put:
  assumes "pg_formats_ok P" and "obj_lib_ok U" and "cid_Sum U buf = Ok root"
  shows "same_reads P U bucketName task kind d (d\<lparr>t_bucket := (t_bucket d)((bucketName, toMessagePath P root) \<mapsto> buf)\<rparr>)"
  using assms obj_lib_okD(2) [OF assms(2)] by (auto simp: same_reads_def toMessagePath_eq [OF assms(1)])

lemma same_reads_refl [simp]: "same_reads P U bucketName task kind d d"
  by (simp add: same_reads_def)

text \<open>Whatever becomes of a write, where no other session writes, the tasks it does not index are read as before.\<close>

lemma pg_agent_Write_others:
  assumes P: "pg_formats_ok P" and U: "obj_lib_ok U" and lone: "pg_others E = (\<lambda>_ d. d)"
    and ok: "agent_pg_ok P U bucketName (pg_db s)" and index: "list_all (entry_in m) index"
    and run: "pg_agent_Write E P U bucketName m index s = (s', r)"
    and other: "(task, kind_text kind) \<notin> (fst \<circ> entry_row) ` set index"
  shows "same_reads P U bucketName task kind (pg_db s) (pg_db s')"
proof (cases "\<exists>buf root. index \<noteq> [] \<and> container_MarshalCBOR U m = Ok buf \<and> cid_Sum U buf = Ok root")
  case False
  with run have "s' = s"
    by (cases "container_MarshalCBOR U m"; cases "case container_MarshalCBOR U m of Ok buf \<Rightarrow> cid_Sum U buf")
      (auto simp: pg_agent_Write_def split: if_splits)
  then show ?thesis by simp
next
  case True
  then obtain buf root where written: "index \<noteq> []" "container_MarshalCBOR U m = Ok buf" "cid_Sum U buf = Ok root" by blast
  have seen: "pg_seen E q = pg_db q" for q
    using lone by (simp add: pg_seen_def)
  obtain s1 q1 where put: "pool_Exec E (s3_PutObject bucketName (toMessagePath P root) buf) s = (s1, q1)" by fastforce
  obtain s2 q2 where ins: "pool_Exec E (agent_index_insert P root (index_rows index)) s1 = (s2, q2)" by fastforce
  let ?stored = "(pg_db s)\<lparr>t_bucket := (t_bucket (pg_db s))((bucketName, toMessagePath P root) \<mapsto> buf)\<rparr>"
  have first: "pg_db s1 = pg_db s \<or> pg_db s1 = ?stored" "\<And>x. q1 = Done x \<Longrightarrow> pg_db s1 = ?stored"
    using pool_Exec_effect [OF put] by (auto simp: s3_PutObject_def seen)
  note put_same = same_reads_put [OF P U written(3), of bucketName task kind "pg_db s"]
  show ?thesis
  proof (cases q1)
    case (Fail e)
    with run written put have "s' = s1" by (simp add: pg_agent_Write_def)
    with first(1) put_same show ?thesis by auto
  next
    case (Done x)
    then have s': "s' = s2" using run written put ins by (cases q2) (simp_all add: pg_agent_Write_def)
    have ok1: "agent_pg_ok P U bucketName (pg_db s1)"
      using agent_pg_ok_put [OF P U ok written(3)] first(2) [OF Done] by simp
    have at: "t_bucket (pg_db s1) (bucketName, toMessagePath P root) = Some buf"
      by (simp add: first(2) [OF Done])
    note kept = agent_index_insert_kept [OF P ok1 _ at written(3) obj_lib_okD(1) [OF U written(2)] index]
    from pool_Exec_effect [OF ins] consider "pg_db s2 = pg_db s1"
      | n where "agent_index_insert P root (index_rows index) (pg_now E (pg_sent s1)) (pg_db s1) = Done (pg_db s2, n)"
      by (auto simp: seen)
    then have "same_reads P U bucketName task kind (pg_db s1) (pg_db s2)"
      by cases (use kept(2,4) other in \<open>simp_all add: same_reads_def\<close>)
    with put_same first(2) [OF Done] s' show ?thesis by (auto simp: same_reads_def)
  qed
qed

lemma pg_agent_Write_found:
  assumes "pg_formats_ok P" and "obj_lib_ok U" and "agent_rely P U bucketName E"
    and "agent_pg_ok P U bucketName (pg_db s)" and "alone E'"
    and "pg_agent_Write E P U bucketName m (agent_Index m) s = (s', r)"
  shows "r = Ok () \<longrightarrow>
      (\<forall>iv \<in> set (Invocations m). \<exists>iv' \<in> set (Invocations m). tok_Task iv' = tok_Task iv \<and>
        snd (pg_GetInvocation E' P U bucketName (tok_Task iv) s') = Ok iv') \<and>
      (\<forall>rc \<in> set (Receipts m). \<exists>rc' \<in> set (Receipts m). rcpt_Ran rc' = rcpt_Ran rc \<and>
        snd (pg_GetReceipt E' P U bucketName (rcpt_Ran rc) s') = Ok rc')"
proof (intro conjI impI)
  note kept = pg_agent_Write_kept [OF assms(1-4) entry_in_Index assms(6)]
  have ok: "agent_pg_ok P U bucketName (pg_db s')" using kept by blast
  assume r: "r = Ok ()"
  have reads: "ct = m" if at: "message_at P (pg_db s') task kind = Some x" "(task, kind_text kind) \<in> (fst \<circ> entry_row) ` set (agent_Index m)"
    "x = cid_String P root" "t_bucket (pg_db s') (bucketName, toMessagePath P root) = Some body"
    "container_UnmarshalCBOR U body = Ok ct" for task kind x root body ct
  proof -
    from at(2) have "agent_Index m \<noteq> []" by auto
    with kept r obtain d where "message_written P U bucketName m (agent_Index m) d (pg_db s')" by blast
    with at show ?thesis
      by (auto simp: message_written_def pg_formats_okD(4) [OF assms(1)])
  qed
  have indexed: "\<exists>x. message_at P (pg_db s') task kind = Some x" if "(task, kind_text kind) \<in> (fst \<circ> entry_row) ` set (agent_Index m)"
    for task kind
  proof -
    from that have "agent_Index m \<noteq> []" by auto
    with kept r that show ?thesis by (auto simp: message_written_def)
  qed
  show "\<forall>iv \<in> set (Invocations m). \<exists>iv' \<in> set (Invocations m). tok_Task iv' = tok_Task iv \<and>
      snd (pg_GetInvocation E' P U bucketName (tok_Task iv) s') = Ok iv'"
  proof
    fix iv assume "iv \<in> set (Invocations m)"
    then have key: "(tok_Task iv, kind_text InvocationKey) \<in> (fst \<circ> entry_row) ` set (agent_Index m)"
      by (auto simp: agent_Index_def image_Un image_image rev_image_eqI)
    from indexed [OF key] obtain x where x: "message_at P (pg_db s') (tok_Task iv) InvocationKey = Some x" ..
    from pg_GetInvocation_alone(2) [OF assms(1,5) ok x] reads [OF x key]
    show "\<exists>iv' \<in> set (Invocations m). tok_Task iv' = tok_Task iv \<and>
      snd (pg_GetInvocation E' P U bucketName (tok_Task iv) s') = Ok iv'" by metis
  qed
  show "\<forall>rc \<in> set (Receipts m). \<exists>rc' \<in> set (Receipts m). rcpt_Ran rc' = rcpt_Ran rc \<and>
      snd (pg_GetReceipt E' P U bucketName (rcpt_Ran rc) s') = Ok rc'"
  proof
    fix rc assume "rc \<in> set (Receipts m)"
    then have key: "(rcpt_Ran rc, kind_text ReceiptKey) \<in> (fst \<circ> entry_row) ` set (agent_Index m)"
      by (auto simp: agent_Index_def image_Un image_image rev_image_eqI)
    from indexed [OF key] obtain x where x: "message_at P (pg_db s') (rcpt_Ran rc) ReceiptKey = Some x" ..
    from pg_GetReceipt_alone(2) [OF assms(1,5) ok assms(2) x] reads [OF x key]
    show "\<exists>rc' \<in> set (Receipts m). rcpt_Ran rc' = rcpt_Ran rc \<and>
      snd (pg_GetReceipt E' P U bucketName (rcpt_Ran rc) s') = Ok rc'" by metis
  qed
qed

text \<open>
Property C20. A message that was written to the Postgres agent store is read back: once a write has answered with
success, every task of the message reads as an invocation of the message with that task, or a receipt of it,
even where an earlier message had the task. Where no other session writes meanwhile, every other task reads as before,
its invocation and its receipt, whether the write succeeded or not and whatever was lost. Without faults a message that
can be encoded, with at most 16383 invocations and receipts, is written, whatever the store held.
\<close>

theorem pg_agent_Write_read:
  assumes "pg_formats_ok P" and "obj_lib_ok U" and "agent_rely P U bucketName E"
    and "agent_pg_ok P U bucketName (pg_db s)" and "alone E'"
    and "pg_agent_Write E P U bucketName m (agent_Index m) s = (s', r)"
  shows "(r = Ok () \<longrightarrow>
      (\<forall>iv \<in> set (Invocations m). \<exists>iv' \<in> set (Invocations m). tok_Task iv' = tok_Task iv \<and>
        snd (pg_GetInvocation E' P U bucketName (tok_Task iv) s') = Ok iv') \<and>
      (\<forall>rc \<in> set (Receipts m). \<exists>rc' \<in> set (Receipts m). rcpt_Ran rc' = rcpt_Ran rc \<and>
        snd (pg_GetReceipt E' P U bucketName (rcpt_Ran rc) s') = Ok rc')) \<and>
    (pg_others E = (\<lambda>_ d. d) \<longrightarrow>
      (\<forall>t. t \<notin> tok_Task ` set (Invocations m) \<longrightarrow>
        snd (pg_GetInvocation E' P U bucketName t s') = snd (pg_GetInvocation E' P U bucketName t s)) \<and>
      (\<forall>t. t \<notin> rcpt_Ran ` set (Receipts m) \<longrightarrow>
        snd (pg_GetReceipt E' P U bucketName t s') = snd (pg_GetReceipt E' P U bucketName t s))) \<and>
    (fault_free E \<and> (\<exists>buf root. container_MarshalCBOR U m = Ok buf \<and> cid_Sum U buf = Ok root) \<and>
      length (Invocations m) + length (Receipts m) \<le> 16383 \<longrightarrow> r = Ok ())"
proof -
  note kept = pg_agent_Write_kept [OF assms(1-4) entry_in_Index assms(6)]
  have ok: "agent_pg_ok P U bucketName (pg_db s')" using kept by blast
  have same: "snd (getByTask E' P U bucketName t kind s') = snd (getByTask E' P U bucketName t kind s)"
    if "pg_others E = (\<lambda>_ d. d)" "(t, kind_text kind) \<notin> (fst \<circ> entry_row) ` set (agent_Index m)" for t kind
    by (rule getByTask_same [OF assms(1,5,4) ok pg_agent_Write_others [OF assms(1,2) that(1) assms(4) entry_in_Index assms(6) that(2)]])
  have key: "(t, kind_text InvocationKey) \<in> (fst \<circ> entry_row) ` set (agent_Index m) \<longleftrightarrow> t \<in> tok_Task ` set (Invocations m)"
    "(t, kind_text ReceiptKey) \<in> (fst \<circ> entry_row) ` set (agent_Index m) \<longleftrightarrow> t \<in> rcpt_Ran ` set (Receipts m)" for t
    by (auto simp: agent_Index_def image_Un image_image)
  show ?thesis
  proof (intro conjI impI allI)
    fix t assume lone: "pg_others E = (\<lambda>_ d. d)"
    show "snd (pg_GetInvocation E' P U bucketName t s') = snd (pg_GetInvocation E' P U bucketName t s)"
      if "t \<notin> tok_Task ` set (Invocations m)"
      using that by (intro pg_GetInvocation_same same [OF lone]) (simp only: key not_False_eq_True)
    show "snd (pg_GetReceipt E' P U bucketName t s') = snd (pg_GetReceipt E' P U bucketName t s)"
      if "t \<notin> rcpt_Ran ` set (Receipts m)"
      using that by (intro pg_GetReceipt_same same [OF lone]) (simp only: key not_False_eq_True)
  next
    assume "fault_free E \<and> (\<exists>buf root. container_MarshalCBOR U m = Ok buf \<and> cid_Sum U buf = Ok root) \<and>
        length (Invocations m) + length (Receipts m) \<le> 16383"
    then show "r = Ok ()"
      using pg_agent_Write_runs [of E U m _ _ "agent_Index m" P bucketName s] assms(6) by (auto simp: agent_Index_def)
  qed (use pg_agent_Write_found [OF assms(1-6)] in blast)+
qed

theorem pg_agent_Write_read_witness:
  "\<exists>s'. pg_agent_Write quiet sample_pg_formats sample_obj_lib ''b'' sample_msg (agent_Index sample_msg)
      \<lparr>pg_db = empty_database, pg_sent = 0\<rparr> = (s', Ok ()) \<and>
     snd (pg_GetInvocation quiet sample_pg_formats sample_obj_lib ''b'' ''t1'' s') = Ok sample_inv"
proof (cases "pg_agent_Write quiet sample_pg_formats sample_obj_lib ''b'' sample_msg (agent_Index sample_msg)
    \<lparr>pg_db = empty_database, pg_sent = 0\<rparr>")
  case (Pair s' r)
  have lib: "container_MarshalCBOR sample_obj_lib sample_msg = Ok ''m''" "cid_Sum sample_obj_lib = Ok"
    by (simp_all add: sample_obj_lib_def ucan_lib.extend_def obj_lib.fields_def sample_ucan_lib_def)
  note spec = pg_agent_Write_read [OF sample_pg_formats_ok sample_obj_lib_ok agent_rely_quiet(1) _ quiet_simps(2) Pair]
  have "r = Ok ()"
    using spec lib by (simp add: empty_agent_ok sample_msg_def)
  with spec Pair show ?thesis
    by (simp add: empty_agent_ok sample_msg_def sample_inv_def)
qed

subsection \<open>Delegations\<close>

text \<open>A link names one token.\<close>

definition links_name :: "obj_lib \<Rightarrow> bool" where
  "links_name U \<longleftrightarrow> (\<forall>t t'. is_Ok (token_Encode U t) \<longrightarrow> is_Ok (token_Encode U t') \<longrightarrow> tok_Link t = tok_Link t' \<longrightarrow> t = t')"

definition token_Decode :: "obj_lib \<Rightarrow> bytes \<Rightarrow> token res" where
  "token_Decode U body = (case invocation_Decode U body of
      Ok iv \<Rightarrow> Ok iv | Panic \<Rightarrow> Panic | Err _ \<Rightarrow> wrap ''decoding token'' (delegation_Decode U body))"

lemma token_Decode_Encode:
  assumes "obj_lib_ok U" and "token_Encode U t = Ok body"
  shows "token_Decode U body = Ok t"
  using assms(2) obj_lib_okD(3,4) [OF assms(1), of t body]
  by (auto simp: token_Encode_def token_Decode_def split: if_splits)

text \<open>A row that names a token the bucket has, with its audience.\<close>

definition names_token :: "pg_formats \<Rightarrow> obj_lib \<Rightarrow> string \<Rightarrow> (string \<times> string \<rightharpoonup> bytes) \<Rightarrow> delegation_row \<Rightarrow> token \<Rightarrow> bool" where
  "names_token P U bucketName objs r t \<longleftrightarrow> dl_link r = cid_String P (tok_Link t) \<and> dl_audience r = audience_of t \<and>
     (\<exists>body. token_Encode U t = Ok body \<and> objs (bucketName, dl_link r) = Some body)"

definition delegations_ok :: "pg_formats \<Rightarrow> obj_lib \<Rightarrow> string \<Rightarrow> database \<Rightarrow> bool" where
  "delegations_ok P U bucketName d \<longleftrightarrow> distinct (map dl_link (t_delegation d)) \<and>
     (\<forall>r \<in> set (t_delegation d). \<exists>t. names_token P U bucketName (t_bucket d) r t)"

text \<open>The tokens the index names.\<close>

definition tokens_in :: "pg_formats \<Rightarrow> obj_lib \<Rightarrow> database \<Rightarrow> token set" where
  "tokens_in P U d = {t. is_Ok (token_Encode U t) \<and> cid_String P (tok_Link t) \<in> dl_link ` set (t_delegation d)}"

lemma delegations_ok_put:
  assumes P: "pg_formats_ok P" and U: "links_name U" and ok: "delegations_ok P U bucketName d" and enc: "token_Encode U t = Ok body"
  shows "delegations_ok P U bucketName (d\<lparr>t_bucket := (t_bucket d)((bucketName, cid_String P (tok_Link t)) \<mapsto> body)\<rparr>)"
proof -
  have "names_token P U bucketName ((t_bucket d)((bucketName, cid_String P (tok_Link t)) \<mapsto> body)) r t'"
    if names: "names_token P U bucketName (t_bucket d) r t'" for r t'
  proof (cases "tok_Link t' = tok_Link t")
    case True
    moreover from names have "is_Ok (token_Encode U t')" by (auto simp: names_token_def is_Ok_iff)
    ultimately have "t' = t" using U enc by (auto simp: links_name_def is_Ok_iff)
    with names enc show ?thesis by (auto simp: names_token_def)
  next
    case False
    with names show ?thesis by (auto simp: names_token_def pg_formats_okD(4) [OF P])
  qed
  with ok show ?thesis unfolding delegations_ok_def by simp blast
qed

lemma delegation_upsert_kept:
  assumes P: "pg_formats_ok P" and ok: "delegations_ok P U bucketName d" and enc: "token_Encode U t = Ok body"
    and stored: "t_bucket d (bucketName, cid_String P (tok_Link t)) = Some body"
    and st: "delegation_upsert P U t cause now d = Done (d', n)"
  shows "delegations_ok P U bucketName d'" and "tokens_in P U d' = tokens_in P U d \<union> {t'. is_Ok (token_Encode U t') \<and> tok_Link t' = tok_Link t}"
    and "t_bucket d' = t_bucket d"
proof -
  let ?cause = "if defined cause then Some (cid_String P cause) else None"
  let ?exp = "map_option sint (tok_Expiration U t)"
  let ?row = "\<lparr>dl_link = cid_String P (tok_Link t), dl_audience = audience_of t, dl_issuer = tok_Issuer t, dl_cause = ?cause,
    dl_expiration = ?exp, dl_inserted_at = now, dl_updated_at = now\<rparr>"
  let ?upd = "\<lambda>old. Done (old\<lparr>dl_audience := audience_of t, dl_issuer := tok_Issuer t, dl_cause := ?cause,
    dl_expiration := ?exp, dl_updated_at := now\<rparr>)"
  from st obtain tb ins where up: "sql_upsert dl_link ?upd ?row (t_delegation d) = Done (tb, ins)"
    and d': "d' = d\<lparr>t_delegation := tb\<rparr>"
    by (auto simp: delegation_upsert_def Let_def)
  have keeps: "\<forall>r r'. dl_link r = dl_link ?row \<longrightarrow> ?upd r = Done r' \<longrightarrow> dl_link r' = dl_link ?row"
    by auto
  note up' = sql_upsert_Done [OF up keeps]
  show bucket: "t_bucket d' = t_bucket d" by (simp add: d')
  have "distinct (map dl_link tb)"
    using ok up'(1,2) by (auto simp: delegations_ok_def find_None_key)
  moreover have "\<exists>t. names_token P U bucketName (t_bucket d) r t" if "r \<in> set tb" for r
  proof -
    from that up'(5) consider "r = ?row" | "r \<in> set (t_delegation d)"
      | old where "dl_link old = dl_link ?row" "?upd old = Done r"
      by blast
    then show ?thesis
      using ok enc stored by cases (fastforce simp: names_token_def delegations_ok_def)+
  qed
  ultimately show "delegations_ok P U bucketName d'"
    by (simp add: delegations_ok_def bucket) (simp add: d')
  have "dl_link ` set tb = insert (dl_link ?row) (dl_link ` set (t_delegation d))"
    using up'(1) arg_cong [OF up'(2), of set] by (auto simp: find_None_key split: if_splits)
  then show "tokens_in P U d' = tokens_in P U d \<union> {t'. is_Ok (token_Encode U t') \<and> tok_Link t' = tok_Link t}"
    by (auto simp: tokens_in_def d' pg_formats_okD(4) [OF P])
qed

text \<open>Putting tokens where nobody else writes: whatever is lost, the index stays sound and gains none but them;
  success means all of them.\<close>

lemma pg_PutMany_kept:
  assumes P: "pg_formats_ok P" and U: "obj_lib_ok U" "links_name U" and others: "pg_others E = (\<lambda>_ d. d)"
  shows "delegations_ok P U bucketName (pg_db s) \<Longrightarrow> pg_PutMany E P U bucketName tokens cause s = (s', r) \<Longrightarrow>
    delegations_ok P U bucketName (pg_db s') \<and> tokens_in P U (pg_db s) \<subseteq> tokens_in P U (pg_db s') \<and>
    tokens_in P U (pg_db s') \<subseteq> tokens_in P U (pg_db s) \<union> set tokens \<and>
    r \<noteq> Panic \<and> (r = Ok () \<longrightarrow> set tokens \<subseteq> tokens_in P U (pg_db s')) \<and>
    (fault_free E \<and> (\<forall>t \<in> set tokens. is_Ok (token_Encode U t)) \<longrightarrow> r = Ok ())"
proof (induction tokens arbitrary: s)
  case (Cons t tokens)
  have seen: "pg_seen E q = pg_db q" for q
    using others by (simp add: pg_seen_def)
  show ?case
  proof (cases "token_Encode U t")
    case (Err e)
    with Cons.prems show ?thesis by auto
  next
    case Panic
    with U(1) show ?thesis
      by (auto simp: token_Encode_def obj_lib_ok_def no_panics_def split: if_splits)
  next
    case (Ok body)
    let ?put = "s3_PutObject bucketName (cid_String P (tok_Link t)) body"
    obtain s1 q1 where put: "pool_Exec E ?put s = (s1, q1)" by fastforce
    obtain s2 q2 where ins: "pool_Exec E (delegation_upsert P U t cause) s1 = (s2, q2)" by fastforce
    have first: "delegations_ok P U bucketName (pg_db s1)" "tokens_in P U (pg_db s1) = tokens_in P U (pg_db s)"
      "\<And>x. q1 = Done x \<Longrightarrow> t_bucket (pg_db s1) (bucketName, cid_String P (tok_Link t)) = Some body"
      using pool_Exec_effect [OF put] delegations_ok_put [OF P U(2) Cons.prems(1) Ok] Cons.prems(1)
      by (auto simp: s3_PutObject_def seen tokens_in_def dest: sym)
    have free: "q1 = Done ()" "\<exists>n. q2 = Done n" if "fault_free E"
      using that put ins fault_free_pool_Exec [OF that, of ?put s]
        fault_free_pool_Exec [OF that, of "delegation_upsert P U t cause" s1]
      by (auto simp: s3_PutObject_def delegation_upsert_def sql_upsert_def Let_def split: option.splits)
    show ?thesis
    proof (cases q1)
      case (Fail e)
      with Cons.prems Ok put first(1,2) free show ?thesis by auto
    next
      case (Done x)
      note kept = delegation_upsert_kept [OF P first(1) Ok first(3) [OF Done], where cause = cause]
      have same: "{t'. is_Ok (token_Encode U t') \<and> tok_Link t' = tok_Link t} = {t}"
        using U(2) Ok by (auto simp: links_name_def is_Ok_iff)
      have second: "delegations_ok P U bucketName (pg_db s2)" "tokens_in P U (pg_db s) \<subseteq> tokens_in P U (pg_db s2)"
        "tokens_in P U (pg_db s2) \<subseteq> insert t (tokens_in P U (pg_db s))" "\<And>n. q2 = Done n \<Longrightarrow> t \<in> tokens_in P U (pg_db s2)"
        using pool_Exec_effect [OF ins] kept(1,2) first(1,2) by (auto simp: seen same)
      show ?thesis
      proof (cases q2)
        case (Fail e)
        with Cons.prems Ok put ins Done second free show ?thesis by auto
      next
        case (Done n)
        with Cons.prems(2) Ok put ins \<open>q1 = Done x\<close> have "pg_PutMany E P U bucketName tokens cause s2 = (s', r)" by simp
        from Cons.IH [OF second(1) this] second Done show ?thesis by auto
      qed
    qed
  qed
qed auto

subsection \<open>Listing the delegations of an audience\<close>

interpretation link_rows: keyset_store "\<lambda>d. pg_formats_ok P \<and> distinct (map dl_link (t_delegation d))"
  "\<lambda>d. filter (\<lambda>r. dl_audience r = audience) (t_delegation d)" "\<lambda>r. collate P (dl_link r)" "\<lambda>c. Ok (collate P c)"
  "\<lambda>r. Ok (dl_link r)" dl_link "\<lambda>l. l" for P audience
proof
  fix d assume wf: "pg_formats_ok P \<and> distinct (map dl_link (t_delegation d))"
  then show "distinct (map (\<lambda>r. collate P (dl_link r)) (filter (\<lambda>r. dl_audience r = audience) (t_delegation d)))"
    using pg_formats_okD(6) [of P] by (intro distinct_filter_key [of dl_link]) auto
qed simp_all

text \<open>The token under a link.\<close>

definition token_at :: "obj_lib \<Rightarrow> string \<Rightarrow> database \<Rightarrow> string \<Rightarrow> token" where
  "token_at U bucketName d link = (case t_bucket d (bucketName, link) of
      Some body \<Rightarrow> (case token_Decode U body of Ok t \<Rightarrow> t | _ \<Rightarrow> sample_inv) | None \<Rightarrow> sample_inv)"

lemma names_token_at:
  "obj_lib_ok U \<Longrightarrow> names_token P U bucketName (t_bucket d) r t \<Longrightarrow> token_at U bucketName d (dl_link r) = t"
  by (auto simp: names_token_def token_at_def token_Decode_Encode)

lemma fetch_tokens_alone:
  assumes "alone E" and U: "obj_lib_ok U"
  shows "\<forall>l \<in> set ls. \<exists>t body. t_bucket (pg_db s) (bucketName, l) = Some body \<and> token_Encode U t = Ok body \<Longrightarrow>
    snd (fetch_tokens E U bucketName ls s) = Ok (map (token_at U bucketName (pg_db s)) ls)"
proof (induction ls arbitrary: s)
  case (Cons l ls)
  then obtain t body where body: "t_bucket (pg_db s) (bucketName, l) = Some body" "token_Encode U t = Ok body" by auto
  let ?s = "\<lparr>pg_db = pg_db s, pg_sent = Suc (pg_sent s)\<rparr>"
  have "fetchToken E U bucketName l s = (?s, token_Decode U body)"
    using assms(1) body(1) by (simp add: fetchToken_def s3_GetObject_alone token_Decode_def)
  then have "fetchToken E U bucketName l s = (?s, Ok t)" "token_at U bucketName (pg_db s) l = t"
    using body token_Decode_Encode [OF U body(2)] by (simp_all add: token_at_def)
  with Cons.IH [of ?s] Cons.prems show ?case
    by (cases "fetch_tokens E U bucketName ls ?s") simp
qed simp

lemma pg_List_state:
  assumes "alone E"
  shows "pg_db (fst (pg_List E msg iter_msg rows key decode scan cursor limit cur s)) = pg_db s"
proof -
  have "pg_db (fst (pg_select E msg iter_msg rows key scan limit after s)) = pg_db s" for after
    using assms by (simp add: pg_select_def fault_free_pool_Query Let_def)
  then show ?thesis
    by (simp add: pg_List_def fst_andThenS split: res.split)
qed

lemma pg_ListByAudience_collects:
  assumes P: "pg_formats_ok P" and U: "obj_lib_ok U" and E: "alone E" and ok: "delegations_ok P U bucketName (pg_db s)"
    and l: "page_limit \<lparr>Cursor = None, Limit = limit\<rparr> < MaxInt64" "pg_alloc E (page_limit \<lparr>Cursor = None, Limit = limit\<rparr>)"
  shows "store_Collect (\<lambda>cfg. snd (pg_ListByAudience E P U bucketName audience
      (list_options WithListByAudienceLimit WithListByAudienceCursor limit (Cursor cfg)) s)) =
    Some (Ok (map (\<lambda>r. token_at U bucketName (pg_db s) (dl_link r)) (sort_key (\<lambda>r. collate P (dl_link r))
      (filter (\<lambda>r. dl_audience r = audience) (t_delegation (pg_db s))))))"
proof -
  let ?l = "page_limit \<lparr>Cursor = None, Limit = limit\<rparr>"
  let ?rows = "sort_key (\<lambda>r. collate P (dl_link r)) (filter (\<lambda>r. dl_audience r = audience) (t_delegation (pg_db s)))"
  let ?tok = "token_at U bucketName (pg_db s)"
  let ?links = "\<lambda>c. pg_List E ''querying delegations by audience'' ''iterating delegations''
    (\<lambda>d. filter (\<lambda>r. dl_audience r = audience) (t_delegation d)) (\<lambda>r. collate P (dl_link r))
    (\<lambda>c. Ok (collate P c)) (\<lambda>r. Ok (dl_link r)) (\<lambda>l. l) ?l c s"
  let ?page = "\<lambda>c. snd (pg_ListByAudience E P U bucketName audience
    (list_options WithListByAudienceLimit WithListByAudienceCursor limit c) s)"
  have wf: "pg_formats_ok P \<and> distinct (map dl_link (t_delegation (pg_db s)))"
    using P ok by (simp add: delegations_ok_def)
  note pages = link_rows.pages [OF E wf page_limit_pos l, where msg = "''querying delegations by audience''"
      and iter_msg = "''iterating delegations''" and audience = audience]
  have stored: "\<exists>t body. t_bucket (pg_db s) (bucketName, x) = Some body \<and> token_Encode U t = Ok body"
    if "x \<in> set (map dl_link ?rows)" for x
    using that ok by (fastforce simp: delegations_ok_def names_token_def)
  have page: "?page c = Ok \<lparr>page_Cursor = page_Cursor links, Results = map ?tok (Results links)\<rparr>"
    if "snd (?links c) = Ok links" "set (Results links) \<subseteq> set (map dl_link ?rows)" for c links
  proof -
    define s1 where "s1 = fst (?links c)"
    have s1: "?links c = (s1, Ok links)" "pg_db s1 = pg_db s"
      unfolding s1_def that(1) [symmetric] by (simp, rule pg_List_state [OF E])
    have "\<forall>l \<in> set (Results links). \<exists>t body. t_bucket (pg_db s1) (bucketName, l) = Some body \<and> token_Encode U t = Ok body"
      unfolding s1(2) using stored that(2) by blast
    from fetch_tokens_alone [OF E U this]
    have "snd (fetch_tokens E U bucketName (Results links) s1) = Ok (map ?tok (Results links))"
      by (simp only: s1(2))
    with s1(1) show ?thesis
      by (cases "fetch_tokens E U bucketName (Results links) s1")
        (simp add: pg_ListByAudience_def page_limit_any [of c]
          list_options_cfg [OF WithListByAudienceLimit_def WithListByAudienceCursor_def])
  qed
  have "pager (\<lambda>_ :: unit. True) (\<lambda>_. map ?tok (map dl_link ?rows)) (\<lambda>_ c. ?page c)
    (\<lambda>_. key_resumes (\<lambda>l. l) (map dl_link ?rows))"
  proof
    fix c p assume at: "key_resumes (\<lambda>l. l) (map dl_link ?rows) c p"
    from pages [OF at] obtain links n where links: "snd (?links c) = Ok links"
      "Results links = take n (drop p (map dl_link ?rows))"
      and follow: "case page_Cursor links of None \<Rightarrow> length (map dl_link ?rows) \<le> p + n
        | Some c' \<Rightarrow> Results links \<noteq> [] \<and> key_resumes (\<lambda>l. l) (map dl_link ?rows) (Some c') (p + length (Results links))"
      by blast
    have "set (Results links) \<subseteq> set (map dl_link ?rows)"
      unfolding links(2) by (meson set_drop_subset set_take_subset subset_trans)
    from page [OF links(1) this] links(2) follow
    show "\<exists>pg n. ?page c = Ok pg \<and> Results pg = take n (drop p (map ?tok (map dl_link ?rows))) \<and>
      (case page_Cursor pg of None \<Rightarrow> length (map ?tok (map dl_link ?rows)) \<le> p + n
       | Some c' \<Rightarrow> Results pg \<noteq> [] \<and> key_resumes (\<lambda>l. l) (map dl_link ?rows) (Some c') (p + length (Results pg)))"
      by (intro exI [of _ "\<lparr>page_Cursor = page_Cursor links, Results = map ?tok (Results links)\<rparr>"] exI [of _ n])
        (simp add: take_map drop_map split: option.splits)
  qed simp
  from pager.collect_items [OF this, where getPage = "\<lambda>cfg. ?page (Cursor cfg)"] show ?thesis
    by (simp add: o_def)
qed

text \<open>Several calls that put tokens, each in an environment of its own, with their answers.\<close>

primrec pg_puts ::
  "pg_formats \<Rightarrow> obj_lib \<Rightarrow> string \<Rightarrow> (pg_env \<times> token list \<times> cid) list \<Rightarrow> pg \<Rightarrow> pg \<times> unit res list" where
  "pg_puts P U bucketName [] s = (s, [])"
| "pg_puts P U bucketName (p # puts) s =
     (case pg_PutMany (fst p) P U bucketName (fst (snd p)) (snd (snd p)) s of
        (s, r) \<Rightarrow> (case pg_puts P U bucketName puts s of (s, rs) \<Rightarrow> (s, r # rs)))"

lemma pg_puts_kept:
  assumes "pg_formats_ok P" and "obj_lib_ok U" and "links_name U"
  shows "\<forall>p \<in> set puts. pg_others (fst p) = (\<lambda>_ d. d) \<Longrightarrow> delegations_ok P U bucketName (pg_db s) \<Longrightarrow>
    pg_puts P U bucketName puts s = (s', rs) \<Longrightarrow>
    delegations_ok P U bucketName (pg_db s') \<and> tokens_in P U (pg_db s) \<subseteq> tokens_in P U (pg_db s') \<and>
    tokens_in P U (pg_db s') \<subseteq> tokens_in P U (pg_db s) \<union> (\<Union>p \<in> set puts. set (fst (snd p))) \<and>
    (\<forall>(p, r) \<in> set (zip puts rs). (r = Ok () \<longrightarrow> set (fst (snd p)) \<subseteq> tokens_in P U (pg_db s')) \<and>
      (fault_free (fst p) \<and> (\<forall>t \<in> set (fst (snd p)). is_Ok (token_Encode U t)) \<longrightarrow> r = Ok ()))"
proof (induction puts arbitrary: s rs)
  case (Cons p puts)
  obtain s1 r where put: "pg_PutMany (fst p) P U bucketName (fst (snd p)) (snd (snd p)) s = (s1, r)" by fastforce
  obtain s2 rs' where rest: "pg_puts P U bucketName puts s1 = (s2, rs')" by fastforce
  from Cons.prems(3) have s': "s' = s2" "rs = r # rs'" by (simp_all add: put rest)
  have "pg_others (fst p) = (\<lambda>_ d. d)" using Cons.prems(1) by simp
  note one = pg_PutMany_kept [OF assms this Cons.prems(2) put]
  from one Cons.prems(1) Cons.IH [OF _ _ rest [folded s'(1)]] show ?case
    unfolding s'(2) by auto
qed simp

text \<open>
Property C22. Delegations put into the Postgres store are listed. After any calls that put tokens into the empty
store, whatever requests and answers they lost, reading the delegations of an audience to the end page by
page succeeds and gives tokens of that audience only, each once and each one that was put, ordered by
link; and it gives every token of the audience that was put by a call that answered with success. Calls that
lose nothing do so where the tokens can be encoded. A link has to name one token, and nobody else writes.
\<close>

theorem pg_PutMany_List:
  assumes "pg_formats_ok P" and "obj_lib_ok U" and "links_name U" and "pg_db s = empty_database"
    and "\<forall>p \<in> set puts. pg_others (fst p) = (\<lambda>_ d. d)" and "alone E"
    and "page_limit \<lparr>Cursor = None, Limit = limit\<rparr> < MaxInt64" and "pg_alloc E (page_limit \<lparr>Cursor = None, Limit = limit\<rparr>)"
    and "pg_puts P U bucketName puts s = (s', rs)"
  shows "\<exists>ts. store_Collect (\<lambda>cfg. snd (pg_ListByAudience E P U bucketName audience
        (list_options WithListByAudienceLimit WithListByAudienceCursor limit (Cursor cfg)) s')) = Some (Ok ts) \<and>
      distinct ts \<and> sorted (map (\<lambda>t. collate P (cid_String P (tok_Link t))) ts) \<and>
      (\<forall>t \<in> set ts. audience_of t = audience \<and> (\<exists>p \<in> set puts. t \<in> set (fst (snd p)))) \<and>
      (\<forall>(p, r) \<in> set (zip puts rs). r = Ok () \<longrightarrow>
        (\<forall>t \<in> set (fst (snd p)). audience_of t = audience \<longrightarrow> t \<in> set ts)) \<and>
      (\<forall>(p, r) \<in> set (zip puts rs). fault_free (fst p) \<and> (\<forall>t \<in> set (fst (snd p)). is_Ok (token_Encode U t)) \<longrightarrow> r = Ok ())"
proof -
  let ?rows = "sort_key (\<lambda>r. collate P (dl_link r)) (filter (\<lambda>r. dl_audience r = audience) (t_delegation (pg_db s')))"
  let ?ts = "map (\<lambda>r. token_at U bucketName (pg_db s') (dl_link r)) ?rows"
  have "delegations_ok P U bucketName (pg_db s)" "tokens_in P U (pg_db s) = {}"
    by (simp_all add: assms(4) delegations_ok_def tokens_in_def empty_database_def)
  with pg_puts_kept [OF assms(1-3,5) _ assms(9)]
  have ok: "delegations_ok P U bucketName (pg_db s')"
    and may: "tokens_in P U (pg_db s') \<subseteq> (\<Union>p \<in> set puts. set (fst (snd p)))"
    and must: "\<forall>(p, r) \<in> set (zip puts rs). r = Ok () \<longrightarrow> set (fst (snd p)) \<subseteq> tokens_in P U (pg_db s')"
    and free: "\<forall>(p, r) \<in> set (zip puts rs). fault_free (fst p) \<and> (\<forall>t \<in> set (fst (snd p)). is_Ok (token_Encode U t)) \<longrightarrow> r = Ok ()"
    by auto
  have row: "\<exists>t. names_token P U bucketName (t_bucket (pg_db s')) r t \<and> token_at U bucketName (pg_db s') (dl_link r) = t"
    if "r \<in> set (t_delegation (pg_db s'))" for r
    using ok that names_token_at [OF assms(2)] by (auto simp: delegations_ok_def)
  have link: "cid_String P (tok_Link (token_at U bucketName (pg_db s') (dl_link r))) = dl_link r"
    if "r \<in> set (t_delegation (pg_db s'))" for r
    using row [OF that] by (auto simp: names_token_def)
  have inter: "set ?ts = {t \<in> tokens_in P U (pg_db s'). audience_of t = audience}"
  proof (intro set_eqI iffI)
    fix t assume "t \<in> set ?ts"
    then obtain r where "r \<in> set (t_delegation (pg_db s'))" "dl_audience r = audience" "t = token_at U bucketName (pg_db s') (dl_link r)"
      by auto
    with row [OF this(1)] show "t \<in> {t \<in> tokens_in P U (pg_db s'). audience_of t = audience}"
      by (auto simp: names_token_def tokens_in_def is_Ok_iff intro!: rev_image_eqI [of r])
  next
    fix t assume "t \<in> {t \<in> tokens_in P U (pg_db s'). audience_of t = audience}"
    then obtain r where t: "is_Ok (token_Encode U t)" "audience_of t = audience" and r: "r \<in> set (t_delegation (pg_db s'))"
      "cid_String P (tok_Link t) = dl_link r"
      by (auto simp: tokens_in_def)
    from row [OF r(1)] obtain t' where t': "names_token P U bucketName (t_bucket (pg_db s')) r t'"
      "token_at U bucketName (pg_db s') (dl_link r) = t'" by blast
    then have "t' = t"
      using t(1) r(2) assms(3) by (auto simp: names_token_def links_name_def is_Ok_iff pg_formats_okD(4) [OF assms(1)])
    with t' t(2) r(1) show "t \<in> set ?ts"
      by (auto simp: names_token_def intro!: rev_image_eqI [of r])
  qed
  have links: "map (\<lambda>t. cid_String P (tok_Link t)) ?ts = map dl_link ?rows"
    using link by simp
  have "distinct (map dl_link ?rows)"
    using ok by (auto simp: delegations_ok_def distinct_map intro: inj_on_subset)
  then have "distinct ?ts"
    unfolding links [symmetric] by (simp only: distinct_map)
  moreover have "sorted (map (\<lambda>t. collate P (cid_String P (tok_Link t))) ?ts)"
  proof -
    have "map (\<lambda>t. collate P (cid_String P (tok_Link t))) ?ts = map (collate P) (map dl_link ?rows)"
      unfolding links [symmetric] by (simp add: o_def)
    then show ?thesis by (simp only: map_map o_def sorted_sort_key)
  qed
  moreover have "\<forall>t \<in> set ?ts. audience_of t = audience \<and> (\<exists>p \<in> set puts. t \<in> set (fst (snd p)))"
    unfolding inter using may by auto
  moreover have "\<forall>(p, r) \<in> set (zip puts rs). r = Ok () \<longrightarrow> (\<forall>t \<in> set (fst (snd p)). audience_of t = audience \<longrightarrow> t \<in> set ?ts)"
    unfolding inter using must by blast
  ultimately show ?thesis
    using pg_ListByAudience_collects [OF assms(1,2,6) ok assms(7,8), of audience] free by blast
qed

lemma sample_links_name: "links_name sample_obj_lib"
proof -
  have "is_Ok (token_Encode sample_obj_lib t) \<longleftrightarrow> t = sample_dlg \<or> t = sample_inv" for t
    by (auto simp: token_Encode_def sample_obj_lib_def ucan_lib.extend_def obj_lib.fields_def)
  then show ?thesis
    by (auto simp: links_name_def sample_dlg_def sample_inv_def)
qed

theorem pg_PutMany_List_witness:
  "\<exists>ts. store_Collect (\<lambda>cfg. snd (pg_ListByAudience quiet sample_pg_formats sample_obj_lib ''b'' ''a''
      (list_options WithListByAudienceLimit WithListByAudienceCursor (Some 1) (Cursor cfg))
      (fst (pg_puts sample_pg_formats sample_obj_lib ''b'' [(quiet, [sample_inv, sample_dlg], ''c'')]
        \<lparr>pg_db = empty_database, pg_sent = 0\<rparr>)))) = Some (Ok ts) \<and> sample_dlg \<in> set ts"
proof -
  let ?puts = "[(quiet, [sample_inv, sample_dlg], ''c'')]" and ?s = "\<lparr>pg_db = empty_database, pg_sent = 0\<rparr>"
  obtain s' rs where run: "pg_puts sample_pg_formats sample_obj_lib ''b'' ?puts ?s = (s', rs)" by fastforce
  have others: "pg_others quiet = (\<lambda>_ d. d)" by (simp add: quiet_def)
  have "snd (pg_puts sample_pg_formats sample_obj_lib ''b'' ?puts ?s) = [Ok ()]"
    by code_simp
  then have rs: "rs = [Ok ()]" by (simp only: run snd_conv)
  have aud: "audience_of sample_dlg = ''a''" by code_simp
  have l: "page_limit \<lparr>Cursor = None, Limit = Some 1\<rparr> < MaxInt64" "pg_alloc quiet (page_limit \<lparr>Cursor = None, Limit = Some 1\<rparr>)"
    by (simp_all add: page_limit_def MaxInt64_def)
  have all: "\<forall>p \<in> set ?puts. pg_others (fst p) = (\<lambda>_ d. d)"
    using others by simp
  from pg_PutMany_List [OF sample_pg_formats_ok sample_obj_lib_ok sample_links_name _ all quiet_simps(2) l run, of "''a''"]
  show ?thesis
    unfolding run fst_conv rs using aud by auto
qed

end
