(* ===== verification/Http_Service.thy ===== *)
theory Http_Service
  imports Access_Handlers Pg_Tokens
begin

section \<open>The HTTP service\<close>

text \<open>
  The two requests of \<^verbatim>\<open>pkg/service/service.go\<close> that are not UCAN invocations: \<^verbatim>\<open>GET /receipt/:cid\<close>, which looks a
  receipt up in the agent message store, and \<^verbatim>\<open>/validate-email\<close>, where the link of a confirmation mail leads. The
  pages of \<^verbatim>\<open>pkg/service/ui\<close> are the data their templates are given; rendering them is not modelled. The agent
  store is the interface the handler calls, so that either backend can be behind it.
\<close>

datatype page = PendingValidateEmailPage bool | ValidateEmailPage string string string | ErrorPage string "gerr option"

datatype http_response = RespStream int page | RespString int string | RespJSON int string "gerr option" | RespBlob int string bytes

subsection \<open>Receipts\<close>

text \<open>\<open>ContentType\<close> is the media type the codec's package declares, \<open>list\<close> is \<^verbatim>\<open>agentStore.List\<close> and
  \<open>param\<close> the text of the task in the path. An error is returned to the HTTP framework, which answers with status 500.\<close>

definition HandleReceiptRequest ::
  "string \<Rightarrow> (string \<Rightarrow> cid res) \<Rightarrow> 'u ucan_lib_scheme \<Rightarrow> (cid \<Rightarrow> ListOption list \<Rightarrow> 's \<Rightarrow> 's \<times> container Page res) \<Rightarrow> string \<Rightarrow> 's \<Rightarrow>
   's \<times> http_response res" where
  "HandleReceiptRequest ContentType parse U list param s =
     (case parse param of
        Err e \<Rightarrow> (s, Ok (RespJSON 400 ''invalid task CID'' (Some e)))
      | Panic \<Rightarrow> (s, Panic)
      | Ok task \<Rightarrow>
          (case list task [agent_WithListLimit 25] s of
             (s, Err e) \<Rightarrow> (s, Err (Wrap ''listing agent messages'' e))
           | (s, Panic) \<Rightarrow> (s, Panic)
           | (s, Ok page) \<Rightarrow>
               (let msgs = Results page;
                    invs = concat (map Invocations msgs);
                    dlgs = concat (map Delegations msgs);
                    rcpts = concat (map Receipts msgs)
                in if \<not> list_ex (\<lambda>r. rcpt_Ran r = task) rcpts then (s, Ok (RespJSON 404 ''receipt not found'' None))
                   else (s, andThen (wrap ''marshaling receipt container'' (container_MarshalCBOR U (container_New U invs dlgs rcpts)))
                          (\<lambda>buf. Ok (RespBlob 200 ContentType buf))))))"

subsection \<open>Confirming by mail\<close>

definition HandleValidateEmailRequest ::
  "access_lib \<Rightarrow> ucan_lib \<Rightarrow> (token \<Rightarrow> token list \<Rightarrow> receipt list \<Rightarrow> 'w \<Rightarrow> 'w \<times> (receipt \<times> container option) res) \<Rightarrow>
   (token \<Rightarrow> bytes) \<Rightarrow> string \<Rightarrow> string \<Rightarrow> 'w \<Rightarrow> 'w \<times> http_response res" where
  "HandleValidateEmailRequest A U exec metaBytes method ucan w =
     (if ucan = '''' then (w, Ok (RespStream 400 (ErrorPage ''missing ucan query parameter'' None)))
      else if method = ''GET'' then (w, Ok (RespStream 200 (PendingValidateEmailPage True)))
      else if method = ''POST'' then
        (case ExecBase64urlAccessConfirm A U exec metaBytes ucan w of
           (w, Err e) \<Rightarrow> (w, Ok (RespStream 500 (ErrorPage ''Oops, something went wrong'' (Some e))))
         | (w, Panic) \<Rightarrow> (w, Panic)
         | (w, Ok res) \<Rightarrow> (w, Ok (RespStream 200 (ValidateEmailPage (acr_UCAN res) (acr_Email res) (acr_Audience res)))))
      else (w, Ok (RespString 405 ''method not allowed'')))"

subsection \<open>Receipts from the Postgres store\<close>

text \<open>A task has at most two rows, one of each kind, so that a page of 25 is all of them.\<close>

lemma agent_rows_few:
  assumes ok: "agent_pg_ok P U bucketName d"
  shows "length (filter (\<lambda>r. ag_task r = x) (t_agent_index d)) \<le> 2"
proof -
  let ?rows = "filter (\<lambda>r. ag_task r = x) (t_agent_index d)"
  have "distinct (map agent_row_key ?rows)"
    using ok by (simp add: agent_pg_ok_def distinct_map_filter)
  moreover have "map agent_row_key ?rows = map (Pair x) (map ag_kind ?rows)"
    by (auto simp: agent_row_key_def)
  ultimately have dist: "distinct (map ag_kind ?rows)"
    by (metis distinct_map)
  have "set (map ag_kind ?rows) \<subseteq> {kind_text InvocationKey, kind_text ReceiptKey}"
  proof
    fix k assume "k \<in> set (map ag_kind ?rows)"
    then obtain r where "r \<in> set (t_agent_index d)" "k = ag_kind r" by auto
    with ok obtain kind where "k = kind_text kind"
      by (fastforce simp: agent_pg_ok_def names_message_def agent_row_key_def)
    then show "k \<in> {kind_text InvocationKey, kind_text ReceiptKey}" by (cases kind) simp_all
  qed
  then have "card (set (map ag_kind ?rows)) \<le> card {kind_text InvocationKey, kind_text ReceiptKey}"
    by (intro card_mono) simp_all
  also have "\<dots> \<le> 2" by (simp add: card_insert_if)
  finally show ?thesis using distinct_card [OF dist] by simp
qed

text \<open>The message of a row, where the index is sound.\<close>

definition indexed_message :: "pg_formats \<Rightarrow> obj_lib \<Rightarrow> string \<Rightarrow> database \<Rightarrow> string \<Rightarrow> container" where
  "indexed_message P U bucketName d x =
     (case t_bucket d (bucketName, toMessagePath P (the_cid P x)) of Some body \<Rightarrow>
        (case container_UnmarshalCBOR U body of Ok ct \<Rightarrow> ct))"

lemma list_messages_alone:
  assumes P: "pg_formats_ok P" and E: "alone E" and ok: "agent_pg_ok P U bucketName (pg_db s)"
    and "set xs \<subseteq> ag_message ` set (t_agent_index (pg_db s))"
  shows "snd (list_messages E P U bucketName xs s) = Ok (map (indexed_message P U bucketName (pg_db s)) xs)"
  using ok assms(4)
proof (induction xs arbitrary: s)
  case (Cons x xs)
  from Cons.prems obtain r where r: "r \<in> set (t_agent_index (pg_db s))" "x = ag_message r" by auto
  with Cons.prems(1) obtain root body ct where
    x: "x = cid_String P root" "t_bucket (pg_db s) (bucketName, toMessagePath P root) = Some body" "container_UnmarshalCBOR U body = Ok ct"
    by (auto simp: agent_pg_ok_def names_message_def)
  have msg: "indexed_message P U bucketName (pg_db s) x = ct"
    using x P by (simp add: indexed_message_def)
  let ?s = "\<lparr>pg_db = pg_db s, pg_sent = Suc (pg_sent s)\<rparr>"
  have "snd (list_messages E P U bucketName xs ?s) = Ok (map (indexed_message P U bucketName (pg_db s)) xs)"
    using Cons.IH [of ?s] Cons.prems by simp
  then obtain s' where "list_messages E P U bucketName xs ?s = (s', Ok (map (indexed_message P U bucketName (pg_db s)) xs))"
    by (cases "list_messages E P U bucketName xs ?s") auto
  with x E msg show ?case
    by (simp add: pg_formats_okD(2) [OF P] fetchMessage_def s3_GetObject_alone)
qed simp

lemma pg_agent_List_alone:
  assumes P: "pg_formats_ok P" and E: "alone E" and ok: "agent_pg_ok P U bucketName (pg_db s)" and "pg_alloc E 25"
  shows "\<exists>page. snd (pg_agent_List E P U bucketName task [agent_WithListLimit 25] s) = Ok page \<and>
    set (Results page) = indexed_message P U bucketName (pg_db s) ` ag_message ` {r \<in> set (t_agent_index (pg_db s)). ag_task r = cid_String P task}"
proof -
  let ?rows = "filter (\<lambda>r. ag_task r = cid_String P task) (t_agent_index (pg_db s))"
  let ?xs = "map ag_message (sort_key (\<lambda>r. collate P (ag_message r)) ?rows)"
  let ?s = "\<lparr>pg_db = pg_db s, pg_sent = Suc (pg_sent s)\<rparr>"
  have few: "length ?rows \<le> 2" by (rule agent_rows_few [OF ok])
  have "scan_rows (\<lambda>r. Ok (ag_message r)) rows = Ok (map ag_message rows)" for rows :: "agent_row list"
    by (rule scan_rows_map) simp
  then have "pg_List E ''querying agent_index'' ''iterating messages''
      (\<lambda>d. filter (\<lambda>r. ag_task r = cid_String P task) (t_agent_index d)) (\<lambda>r. collate P (ag_message r))
      (\<lambda>c. Ok (collate P c)) (\<lambda>r. Ok (ag_message r)) (\<lambda>m. m) 25 None s = (?s, Ok \<lparr>page_Cursor = None, Results = ?xs\<rparr>)"
    using few E assms(4)
    by (simp add: pg_List_def pg_select_def fault_free_pool_Query keyset_def cut_page_def MaxInt64_def)
  moreover have cfg: "apply_options [agent_WithListLimit 25] no_options = \<lparr>Cursor = None, Limit = Some 25\<rparr>"
    by (simp add: agent_WithListLimit_def no_options_def)
  moreover have "snd (list_messages E P U bucketName ?xs ?s) = Ok (map (indexed_message P U bucketName (pg_db s)) ?xs)"
    using list_messages_alone [OF P E, of U bucketName ?s ?xs] ok by auto
  then obtain s' where "list_messages E P U bucketName ?xs ?s = (s', Ok (map (indexed_message P U bucketName (pg_db s)) ?xs))"
    by (cases "list_messages E P U bucketName ?xs ?s") auto
  ultimately show ?thesis
    by (simp add: pg_agent_List_def page_limit_def image_image)
qed

text \<open>
Property C21. Receipts are served from the Postgres agent store. Whatever messages were written, and whatever was
lost while they were, a request for the receipt of a task is answered without a fault: with 400 where the path
is no CID; with a container that is read back from its bytes and holds a receipt of the task and the whole of
every message the index names for it, where the index has a receipt for the task; with 404 only where it has
none. It fails only where the container cannot be encoded.
\<close>

theorem receipt_served:
  assumes "pg_formats_ok P" and "obj_lib_ok U" and "pg_db s0 = empty_database"
    and "\<forall>p \<in> set writes. agent_rely P U bucketName (fst p)" and "alone E" and "pg_alloc E 25"
    and "s = pg_agent_writes P U bucketName writes s0"
  shows "case snd (HandleReceiptRequest ContentType (cid_Parse P) U (pg_agent_List E P U bucketName) param s) of
      Ok (RespJSON status _ _) \<Rightarrow>
        (status = 400 \<and> \<not> is_Ok (cid_Parse P param)) \<or>
        (status = 404 \<and> (\<exists>task. cid_Parse P param = Ok task \<and> message_at P (pg_db s) task ReceiptKey = None))
    | Ok (RespBlob status mime body) \<Rightarrow> status = 200 \<and> mime = ContentType \<and> (\<exists>task ct. cid_Parse P param = Ok task \<and>
        container_UnmarshalCBOR U body = Ok ct \<and> (\<exists>r \<in> set (Receipts ct). rcpt_Ran r = task) \<and>
        (\<forall>kind x. message_at P (pg_db s) task kind = Some x \<longrightarrow> (let msg = indexed_message P U bucketName (pg_db s) x in
          set (Invocations msg) \<subseteq> set (Invocations ct) \<and> set (Delegations msg) \<subseteq> set (Delegations ct) \<and>
          set (Receipts msg) \<subseteq> set (Receipts ct))))
    | Err e \<Rightarrow> \<exists>ct e'. container_MarshalCBOR U ct = Err e' \<and> e = Wrap ''marshaling receipt container'' e'
    | _ \<Rightarrow> False"
proof (cases "cid_Parse P param")
  case (Ok task)
  note P = assms(1)
  have ok: "agent_pg_ok P U bucketName (pg_db s)"
    using pg_agent_writes_kept [OF assms(1,2,4)] empty_agent_ok assms(3,7) by simp
  let ?rows = "{r \<in> set (t_agent_index (pg_db s)). ag_task r = cid_String P task}"
  let ?msg = "indexed_message P U bucketName (pg_db s)"
  obtain page where page: "snd (pg_agent_List E P U bucketName task [agent_WithListLimit 25] s) = Ok page"
    "set (Results page) = ?msg ` ag_message ` ?rows"
    using pg_agent_List_alone [OF P assms(5) ok assms(6)] by blast
  obtain s' where list: "pg_agent_List E P U bucketName task [agent_WithListLimit 25] s = (s', Ok page)"
    using page(1) by (cases "pg_agent_List E P U bucketName task [agent_WithListLimit 25] s") auto
  let ?ct = "container_New U (concat (map Invocations (Results page))) (concat (map Delegations (Results page))) (concat (map Receipts (Results page)))"
  have lib: "set (Invocations ?ct) = (\<Union>m \<in> set (Results page). set (Invocations m))"
    "set (Delegations ?ct) = (\<Union>m \<in> set (Results page). set (Delegations m))"
    "set (Receipts ?ct) = (\<Union>m \<in> set (Results page). set (Receipts m))"
    using assms(2) by (auto simp: obj_lib_ok_def ucan_lib_ok_def ucan_lib.truncate_def)
  have named: "?msg x \<in> set (Results page) \<and> holds_task (?msg x) task kind" if at: "message_at P (pg_db s) task kind = Some x" for kind x
  proof -
    from at obtain r where r: "find (\<lambda>r. agent_row_key r = (cid_String P task, kind_text kind)) (t_agent_index (pg_db s)) = Some r"
      and x: "x = ag_message r"
      by (auto simp: message_at_def)
    have "r \<in> ?rows" using find_SomeD [OF r] by (simp add: agent_row_key_def)
    then have "?msg x \<in> set (Results page)" using page(2) x by blast
    moreover have "holds_task (?msg x) task kind"
      by (rule names_messageE [OF P ok r]) (simp add: indexed_message_def x the_cid_String [OF P])
    ultimately show ?thesis by blast
  qed
  show ?thesis
  proof (cases "list_ex (\<lambda>r. rcpt_Ran r = task) (concat (map Receipts (Results page)))")
    case True
    then have found: "\<exists>r \<in> set (Receipts ?ct). rcpt_Ran r = task"
      by (auto simp: lib list_ex_iff)
    show ?thesis
    proof (cases "container_MarshalCBOR U ?ct")
      case (Ok buf)
      with True list found named lib obj_lib_okD(1) [OF assms(2) Ok] \<open>cid_Parse P param = Ok task\<close> show ?thesis
        by (auto simp: HandleReceiptRequest_def Let_def intro!: exI [of _ ?ct])
    next
      case (Err e)
      with True list \<open>cid_Parse P param = Ok task\<close> show ?thesis
        by (auto simp: HandleReceiptRequest_def Let_def)
    next
      case Panic
      with assms(2) show ?thesis by (auto simp: obj_lib_ok_def no_panics_def)
    qed
  next
    case False
    have "message_at P (pg_db s) task ReceiptKey = None"
    proof (rule ccontr)
      assume "message_at P (pg_db s) task ReceiptKey \<noteq> None"
      then obtain x where "message_at P (pg_db s) task ReceiptKey = Some x" by blast
      from named [OF this] False show False by (auto simp: list_ex_iff)
    qed
    with False list Ok show ?thesis
      by (auto simp: HandleReceiptRequest_def Let_def)
  qed
qed (auto simp: HandleReceiptRequest_def pg_formats_okD(9) [OF assms(1)])

lemma remdups_singleton: "set xs = {a} \<Longrightarrow> remdups xs = [a]"
proof -
  assume "set xs = {a}"
  then have "set (remdups xs) = {a}" "distinct (remdups xs)" by simp_all
  then show ?thesis by (cases "remdups xs") (auto simp: subset_singleton_iff)
qed

definition sample_served :: pg where
  "sample_served = pg_agent_writes sample_pg_formats sample_obj_lib ''b'' [(quiet, sample_msg)] \<lparr>pg_db = empty_database, pg_sent = 0\<rparr>"

lemma sample_obj_lib_simps:
  "container_MarshalCBOR sample_obj_lib m = (if m = sample_msg then Ok ''m'' else Err (Errorf ''unknown''))"
  "container_UnmarshalCBOR sample_obj_lib b = (if b = ''m'' then Ok sample_msg else Err (Errorf ''unknown''))"
  "container_New sample_obj_lib = container_New sample_ucan_lib" "cid_Sum sample_obj_lib = cid_Sum sample_ucan_lib"
  by (simp_all add: sample_obj_lib_def ucan_lib.extend_def obj_lib.fields_def)

lemma sample_served_receipt:
  "agent_pg_ok sample_pg_formats sample_obj_lib ''b'' (pg_db sample_served)"
  "\<exists>x. message_at sample_pg_formats (pg_db sample_served) ''t1'' ReceiptKey = Some x"
proof -
  let ?s = "\<lparr>pg_db = empty_database, pg_sent = 0\<rparr>"
  obtain s' r where run: "pg_agent_Write quiet sample_pg_formats sample_obj_lib ''b'' sample_msg (agent_Index sample_msg) ?s = (s', r)"
    by fastforce
  have "snd (pg_agent_Write quiet sample_pg_formats sample_obj_lib ''b'' sample_msg (agent_Index sample_msg) ?s) = Ok ()"
    by (rule pg_agent_Write_runs [where buf = "''m''" and root = "''m''"])
      (simp_all add: sample_obj_lib_simps sample_ucan_lib_def agent_Index_def sample_msg_def)
  with run have r: "r = Ok ()" by simp
  note kept = pg_agent_Write_kept [OF sample_pg_formats_ok sample_obj_lib_ok agent_rely_quiet(1) _ entry_in_Index run]
  have s': "sample_served = s'" by (simp add: sample_served_def pg_agent_writes_def run)
  show "agent_pg_ok sample_pg_formats sample_obj_lib ''b'' (pg_db sample_served)"
    using kept empty_agent_ok s' by simp
  show "\<exists>x. message_at sample_pg_formats (pg_db sample_served) ''t1'' ReceiptKey = Some x"
    using kept empty_agent_ok r unfolding s'
    by (auto simp: message_written_def agent_Index_def sample_msg_def sample_rcpt_def)
qed

lemma sample_served_page:
  "\<exists>s' page. pg_agent_List quiet sample_pg_formats sample_obj_lib ''b'' ''t1'' [agent_WithListLimit 25] sample_served = (s', Ok page) \<and>
     set (Results page) = {sample_msg}"
proof -
  let ?msg = "indexed_message sample_pg_formats sample_obj_lib ''b'' (pg_db sample_served)"
  let ?rows = "{r \<in> set (t_agent_index (pg_db sample_served)). ag_task r = cid_String sample_pg_formats ''t1''}"
  have only: "?msg (ag_message r) = sample_msg" if "r \<in> set (t_agent_index (pg_db sample_served))" for r
    using sample_served_receipt(1) that the_cid_String [OF sample_pg_formats_ok]
    by (fastforce simp: agent_pg_ok_def names_message_def indexed_message_def sample_obj_lib_simps split: if_splits)
  obtain r where "r \<in> ?rows"
    using sample_served_receipt(2) by (auto simp: message_at_def agent_row_key_def dest: find_SomeD)
  with only have "?msg ` ag_message ` ?rows = {sample_msg}" by force
  moreover obtain page where page:
    "snd (pg_agent_List quiet sample_pg_formats sample_obj_lib ''b'' ''t1'' [agent_WithListLimit 25] sample_served) = Ok page"
    "set (Results page) = ?msg ` ag_message ` ?rows"
    using pg_agent_List_alone [OF sample_pg_formats_ok quiet_simps(2) sample_served_receipt(1), of "''t1''"] by auto
  ultimately have "set (Results page) = {sample_msg}" by (simp only:)
  then show ?thesis
    by (intro exI [of _ "fst (pg_agent_List quiet sample_pg_formats sample_obj_lib ''b'' ''t1'' [agent_WithListLimit 25] sample_served)"] exI [of _ page])
      (simp only: page(1) [symmetric] prod.collapse simp_thms)
qed

lemma sample_served_ok:
  "is_Ok (snd (HandleReceiptRequest ''mime'' (cid_Parse sample_pg_formats) sample_obj_lib
     (pg_agent_List quiet sample_pg_formats sample_obj_lib ''b'') (cid_String sample_pg_formats ''t1'') sample_served))"
proof -
  obtain s' page where page: "pg_agent_List quiet sample_pg_formats sample_obj_lib ''b'' ''t1'' [agent_WithListLimit 25] sample_served = (s', Ok page)"
    "set (Results page) = {sample_msg}"
    using sample_served_page by blast
  have "set (concat (map Invocations (Results page))) = {sample_inv}" "set (concat (map Receipts (Results page))) = {sample_rcpt}"
    "set (concat (map Delegations (Results page))) = {}"
    by (simp_all add: page(2)) (simp_all add: sample_msg_def)
  then have "remdups (concat (map Invocations (Results page))) = [sample_inv]" "remdups (concat (map Receipts (Results page))) = [sample_rcpt]"
    by (simp_all only: remdups_singleton)
  moreover have "remdups (concat (map Delegations (Results page))) = []"
    by (simp add: page(2)) (simp add: sample_msg_def)
  ultimately have "container_New sample_obj_lib (concat (map Invocations (Results page))) (concat (map Delegations (Results page)))
      (concat (map Receipts (Results page))) = sample_msg"
    by (simp add: sample_obj_lib_simps sample_ucan_lib_def sample_msg_def)
  then have "is_Ok (snd (HandleReceiptRequest ''mime'' (cid_Parse sample_pg_formats) sample_obj_lib
      (pg_agent_List quiet sample_pg_formats sample_obj_lib ''b'') param sample_served))"
    if "cid_Parse sample_pg_formats param = Ok ''t1''" for param
    using that by (simp add: HandleReceiptRequest_def Let_def page(1) sample_obj_lib_simps(1))
  from this [OF pg_formats_okD(2) [OF sample_pg_formats_ok]] show ?thesis .
qed

theorem receipt_served_witness:
  "\<exists>body ct. snd (HandleReceiptRequest ''mime'' (cid_Parse sample_pg_formats) sample_obj_lib
       (pg_agent_List quiet sample_pg_formats sample_obj_lib ''b'') (cid_String sample_pg_formats ''t1'') sample_served) =
     Ok (RespBlob 200 ''mime'' body) \<and> container_UnmarshalCBOR sample_obj_lib body = Ok ct \<and> (\<exists>r \<in> set (Receipts ct). rcpt_Ran r = ''t1'')"
proof -
  define param where "param = cid_String sample_pg_formats ''t1''"
  have task: "cid_Parse sample_pg_formats param = Ok ''t1''"
    unfolding param_def by (rule pg_formats_okD(2) [OF sample_pg_formats_ok])
  have rely: "\<forall>p \<in> set [(quiet, sample_msg)]. agent_rely sample_pg_formats sample_obj_lib ''b'' (fst p)"
    by (simp add: agent_rely_quiet)
  note served = receipt_served [OF sample_pg_formats_ok sample_obj_lib_ok _ rely quiet_simps(2) _ sample_served_def,
      where ContentType = "''mime''" and param = param]
  from served sample_served_ok [folded param_def] sample_served_receipt(2) task show ?thesis
    unfolding param_def [symmetric] by (auto split: res.splits http_response.splits)
qed

subsection \<open>Access confirmed by mail\<close>

text \<open>
  What the code relies on of the UCAN server that executes a confirmation. It runs the handler on the arguments of the
  invocation and its receipt says how the handler ended, with the metadata the handler set; or it refuses the invocation
  and runs nothing. It recovers from panics. It may fail after the handler has run.
\<close>

definition runs_confirm ::
  "handler_lib \<Rightarrow> access_lib \<Rightarrow> ucan_lib \<Rightarrow> did \<Rightarrow>
   (token \<Rightarrow> token list \<Rightarrow> receipt list \<Rightarrow> delegation_store \<Rightarrow> delegation_store \<times> (receipt \<times> container option) res) \<Rightarrow> bool" where
  "runs_confirm H A U ident exec \<longleftrightarrow> (\<forall>iv dlgs rcpts s s' r. tok_Command iv = ConfirmCommand A \<and> exec iv dlgs rcpts s = (s', r) \<longrightarrow>
     r \<noteq> Panic \<and>
     ((s' = s \<and> (\<forall>rcpt meta. r = Ok (rcpt, meta) \<longrightarrow> IsErr (rcpt_Out rcpt))) \<or>
      (\<exists>args r'. ConfirmArguments_Unmarshal A (tok_Arguments iv) = Ok args \<and> AccessConfirmHandler H A U ident iv args s = (s', r') \<and>
         (\<forall>rcpt meta. r = Ok (rcpt, meta) \<and> \<not> IsErr (rcpt_Out rcpt) \<longrightarrow> (\<exists>links. r' = Ok (SetSuccess meta links))))))"

definition confirm_lib_ok :: "access_lib \<Rightarrow> bool" where
  "confirm_lib_ok A \<longleftrightarrow> (\<forall>b. container_Decode A b \<noteq> Panic) \<and> (\<forall>ct. container_Encode A ct \<noteq> Panic) \<and>
     (\<forall>b. ConfirmArguments_Unmarshal A b \<noteq> Panic) \<and> (\<forall>d. didmailto_Email A d \<noteq> Panic)"

text \<open>
  The delegations \<open>ds\<close> are those that carrying out the confirmation in the text \<open>ucan\<close> gives: one of the top command on
  the account itself, which every confirmation issues and none asks for, then one of each command it asks for.
\<close>

definition confirmed ::
  "handler_lib \<Rightarrow> access_lib \<Rightarrow> did \<Rightarrow> string \<Rightarrow> ConfirmArguments \<Rightarrow> token list \<Rightarrow> bool" where
  "confirmed H A ident ucan args ds \<longleftrightarrow> (\<exists>ct iv account. container_Decode A ucan = Ok ct \<and> Invocations ct = [iv] \<and>
     tok_Command iv = ConfirmCommand A \<and> tok_Subject iv = ident \<and> ConfirmArguments_Unmarshal A (tok_Arguments iv) = Ok args \<and>
     didmailto_Parse H (conf_Issuer args) = Ok account \<and>
     map tok_Command ds = command_Top A # conf_Attenuations args \<and>
     map tok_Subject ds = account # map (\<lambda>_. '''') (conf_Attenuations args) \<and>
     (\<forall>d \<in> set ds. tok_Issuer d = account \<and> tok_Audience d = conf_Audience args))"

lemma AccessConfirm_step:
  assumes "delegates_ok A" and "AccessConfirmHandler H A U ident iv args s = (s', r)"
  obtains (refused) "s' = s" "\<And>m links. r \<noteq> Ok (SetSuccess m links)"
  | (granted) account ds where "tok_Subject iv = ident" "didmailto_Parse H (conf_Issuer args) = Ok account"
      "map tok_Command ds = command_Top A # conf_Attenuations args"
      "map tok_Subject ds = account # map (\<lambda>_. '''') (conf_Attenuations args)"
      "\<forall>d \<in> set ds. tok_Issuer d = account \<and> tok_Audience d = conf_Audience args"
      "s' = PutMany ds '''' s" "r = Ok (SetSuccess (Some (container_New U [] ds [])) (map tok_Link ds))"
proof (cases "tok_Subject iv = ident")
  case True
  show ?thesis
  proof (cases "didmailto_Parse H (conf_Issuer args)")
    case (Ok account)
    let ?proofs = "createSessionProofs A account (conf_Audience args) (conf_Attenuations args) (conf_Cause args, tok_Task iv)"
    show ?thesis
    proof (cases ?proofs)
      case ok: (Ok p)
      obtain ds as where p: "p = (ds, as)" by (cases p)
      from createSessionProofs_Ok [OF assms(1) ok [unfolded p]] assms(2) True Ok ok p show ?thesis
        by (intro granted [of account ds]) (auto simp: AccessConfirmHandler_def Let_def)
    qed (use assms(2) True Ok in \<open>auto simp: AccessConfirmHandler_def intro: refused\<close>)
  qed (use assms(2) True in \<open>auto simp: AccessConfirmHandler_def intro: refused\<close>)
qed (use assms(2) in \<open>auto simp: AccessConfirmHandler_def intro: refused\<close>)

lemma andThenS_wrap:
  "andThenS (s, wrap msg r) f = (case r of Ok x \<Rightarrow> f x s | Err e \<Rightarrow> (s, Err (Wrap msg e)) | Panic \<Rightarrow> (s, Panic))"
  by (cases r) simp_all

text \<open>What executing the text of a confirmation does: nothing, or it runs the one invocation in it, and the result is read
  off the receipt.\<close>

lemma ExecConfirm_run:
  assumes A: "confirm_lib_ok A" and run: "ExecBase64urlAccessConfirm A U exec metaBytes ucan s = (s', r)"
  obtains (unread) e where "s' = s" "r = Err e"
  | (executed) ct iv q where "container_Decode A ucan = Ok ct" "Invocations ct = [iv]" "tok_Command iv = ConfirmCommand A"
      "exec iv (Delegations ct) (Receipts ct) s = (s', q)" "q \<noteq> Panic \<Longrightarrow> r \<noteq> Panic"
      "\<And>res. r = Ok res \<Longrightarrow> \<exists>rcpt meta args out. q = Ok (rcpt, meta) \<and> \<not> IsErr (rcpt_Out rcpt) \<and>
         ConfirmArguments_Unmarshal A (tok_Arguments iv) = Ok args \<and> acr_Audience res = conf_Audience args \<and>
         didmailto_Email A (conf_Issuer args) = Ok (acr_Email res) \<and> container_Encode A out = Ok (acr_UCAN res) \<and>
         out = container_New U (case meta of None \<Rightarrow> [] | Some ct \<Rightarrow> Invocations ct)
           (case meta of None \<Rightarrow> [] | Some ct \<Rightarrow> Delegations ct) (rcpt # (case meta of None \<Rightarrow> [] | Some ct \<Rightarrow> Receipts ct))"
proof (cases "container_Decode A ucan")
  case (Ok ct)
  show ?thesis
  proof (cases "length (Invocations ct) = 1 \<and> tok_Command (hd (Invocations ct)) = ConfirmCommand A")
    case True
    then obtain iv where iv: "Invocations ct = [iv]" "tok_Command iv = ConfirmCommand A"
      by (auto simp: length_Suc_conv)
    obtain s1 q where q: "exec iv (Delegations ct) (Receipts ct) s = (s1, q)" by fastforce
    have noPanic: "ConfirmArguments_Unmarshal A b \<noteq> Panic" "didmailto_Email A d \<noteq> Panic" "container_Encode A out \<noteq> Panic" for b d out
      using A by (simp_all add: confirm_lib_ok_def)
    show ?thesis
    proof (rule executed [OF Ok iv])
      show "exec iv (Delegations ct) (Receipts ct) s = (s', q)" and "q \<noteq> Panic \<Longrightarrow> r \<noteq> Panic"
        using run q noPanic iv Ok
        by (auto simp: ExecBase64urlAccessConfirm_def andThenS_wrap Let_def split: if_splits res.splits prod.splits)
    qed (use run q iv Ok in \<open>auto simp: ExecBase64urlAccessConfirm_def andThenS_wrap Let_def split: if_splits option.split_asm res.splits\<close>)
  qed (use run Ok in \<open>auto simp: ExecBase64urlAccessConfirm_def intro: unread split: if_splits\<close>)
qed (use A run in \<open>auto simp: ExecBase64urlAccessConfirm_def confirm_lib_ok_def intro: unread\<close>)

lemma ExecConfirm_stored:
  assumes "delegates_ok A" "confirm_lib_ok A" "ucan_lib_ok U" "runs_confirm H A U ident exec"
    and "ExecBase64urlAccessConfirm A U exec metaBytes ucan s = (s', r)"
  shows "r \<noteq> Panic \<and> (s' = s \<and> \<not> is_Ok r \<or> (\<exists>args ds. confirmed H A ident ucan args ds \<and> s' = PutMany ds '''' s \<and>
    (\<forall>res. r = Ok res \<longrightarrow> acr_Audience res = conf_Audience args \<and> didmailto_Email A (conf_Issuer args) = Ok (acr_Email res) \<and>
       (\<exists>out. container_Encode A out = Ok (acr_UCAN res) \<and> set ds \<subseteq> set (Delegations out)))))"
  using assms(2,5)
proof (cases rule: ExecConfirm_run)
  case (executed ct iv q)
  note law = assms(4) [unfolded runs_confirm_def, rule_format, OF conjI [OF executed(3,4)]]
  with executed(5) have r: "r \<noteq> Panic" by blast
  from law consider
    (refused) "s' = s" "\<forall>rcpt meta. q = Ok (rcpt, meta) \<longrightarrow> IsErr (rcpt_Out rcpt)"
    | (handled) args r' where "ConfirmArguments_Unmarshal A (tok_Arguments iv) = Ok args"
        "AccessConfirmHandler H A U ident iv args s = (s', r')"
        "\<forall>rcpt meta. q = Ok (rcpt, meta) \<and> \<not> IsErr (rcpt_Out rcpt) \<longrightarrow> (\<exists>links. r' = Ok (SetSuccess meta links))"
    by blast
  then show ?thesis
  proof cases
    case refused
    with executed(6) r show ?thesis by (fastforce simp: is_Ok_iff)
  next
    case handled
    from assms(1) handled(2) show ?thesis
    proof (cases rule: AccessConfirm_step)
      case refused
      with handled(3) executed(6) r show ?thesis by (fastforce simp: is_Ok_iff)
    next
      case (granted account ds)
      have "confirmed H A ident ucan args ds"
        using granted executed(1-3) handled(1) by (auto simp: confirmed_def)
      moreover have "acr_Audience res = conf_Audience args \<and> didmailto_Email A (conf_Issuer args) = Ok (acr_Email res) \<and>
          (\<exists>out. container_Encode A out = Ok (acr_UCAN res) \<and> set ds \<subseteq> set (Delegations out))" if "r = Ok res" for res
      proof -
        from executed(6) [OF that] handled(1) obtain rcpt meta out where ok: "q = Ok (rcpt, meta)" "\<not> IsErr (rcpt_Out rcpt)"
          "acr_Audience res = conf_Audience args" "didmailto_Email A (conf_Issuer args) = Ok (acr_Email res)"
          "container_Encode A out = Ok (acr_UCAN res)"
          "out = container_New U (case meta of None \<Rightarrow> [] | Some ct \<Rightarrow> Invocations ct)
             (case meta of None \<Rightarrow> [] | Some ct \<Rightarrow> Delegations ct) (rcpt # (case meta of None \<Rightarrow> [] | Some ct \<Rightarrow> Receipts ct))"
          by auto
        from handled(3) ok(1,2) granted(7) have "meta = Some (container_New U [] ds [])" by simp
        with ok(6) assms(3) have "set ds \<subseteq> set (Delegations out)" by (simp add: ucan_lib_ok_def)
        with ok(3-5) show ?thesis by blast
      qed
      ultimately show ?thesis using r granted(6) by blast
    qed
  qed
qed simp

text \<open>
Property C11. A confirmation link is carried out once it is followed by a POST and not before. Whatever the
request, the delegations stored are those there were, or those with the ones added that the single confirmation in the
link gives: it is on the service and for an account that is a mail address, and gives, from that account to the agent, one
delegation of the top command on the account itself, which is not among those asked for, and one of each
command asked for. Opening the link (GET) shows the pending page and stores nothing; another method is
refused with 405, and a request with no link with 400, storing nothing. Where the page says that access was granted, the
delegations are stored, the page names the account's address and the agent, and the text it shows holds them.
\<close>

theorem email_confirmed:
  assumes "delegates_ok A" and "ucan_lib_ok U" and "confirm_lib_ok A" and "runs_confirm H A U ident exec"
    and "HandleValidateEmailRequest A U exec metaBytes method ucan s = (s', r)"
  shows "(s' = s \<or> (method = ''POST'' \<and> (\<exists>args ds. confirmed H A ident ucan args ds \<and> s' = PutMany ds '''' s))) \<and>
    (case r of
       Ok (RespStream status (PendingValidateEmailPage _)) \<Rightarrow> status = 200 \<and> method = ''GET''
     | Ok (RespStream status (ValidateEmailPage output email aud)) \<Rightarrow> status = 200 \<and> method = ''POST'' \<and>
         (\<exists>args ds out. confirmed H A ident ucan args ds \<and> s' = PutMany ds '''' s \<and> aud = conf_Audience args \<and>
            didmailto_Email A (conf_Issuer args) = Ok email \<and> container_Encode A out = Ok output \<and> set ds \<subseteq> set (Delegations out))
     | Ok (RespStream status (ErrorPage _ _)) \<Rightarrow> (status = 400 \<and> ucan = '''') \<or> (status = 500 \<and> method = ''POST'')
     | Ok (RespString status _) \<Rightarrow> status = 405 \<and> method \<noteq> ''GET'' \<and> method \<noteq> ''POST''
     | _ \<Rightarrow> False)"
proof (cases "ucan \<noteq> '''' \<and> method = ''POST''")
  case True
  obtain s'' q where run: "ExecBase64urlAccessConfirm A U exec metaBytes ucan s = (s'', q)" by fastforce
  note step = ExecConfirm_stored [OF assms(1,3,2,4) run]
  show ?thesis
  proof (cases q)
    case (Ok res)
    with run True assms(5) have "s' = s''" "r = Ok (RespStream 200 (ValidateEmailPage (acr_UCAN res) (acr_Email res) (acr_Audience res)))"
      by (simp_all add: HandleValidateEmailRequest_def)
    with step Ok True show ?thesis by simp blast
  qed (use run True step assms(5) in \<open>auto simp: HandleValidateEmailRequest_def\<close>)
qed (use assms(5) in \<open>auto simp: HandleValidateEmailRequest_def split: if_splits\<close>)

definition sample_confirmation :: token where
  "sample_confirmation = sample_task\<lparr>tok_Subject := ''did:web:up'', tok_Command := ''/access/confirm'', tok_Arguments := ''args''\<rparr>"

definition sample_mail_lib :: access_lib where
  "sample_mail_lib = sample_access_lib
     \<lparr>ConfirmArguments_Unmarshal := (\<lambda>b. if b = ''args'' then Ok \<lparr>conf_Issuer = ''did:mailto:a'', conf_Audience = ''did:key:b'',
        conf_Attenuations = [''/blob/add''], conf_Cause = ''c1''\<rparr> else Err (Errorf ''no arguments'')),
      container_Decode := (\<lambda>b. if b = ''u'' then Ok \<lparr>Invocations = [sample_confirmation], Delegations = [], Receipts = []\<rparr>
        else Err (Errorf ''no container''))\<rparr>"

text \<open>A server that validates nothing.\<close>

definition sample_exec ::
  "token \<Rightarrow> token list \<Rightarrow> receipt list \<Rightarrow> delegation_store \<Rightarrow> delegation_store \<times> (receipt \<times> container option) res" where
  "sample_exec iv dlgs rcpts s =
     (let rcpt = \<lparr>rcpt_Link = ''r'', rcpt_Ran = tok_Task iv, rcpt_Issuer = ''did:web:up'', rcpt_Out = OutErr ''''\<rparr> in
      case ConfirmArguments_Unmarshal sample_mail_lib (tok_Arguments iv) of
        Ok args \<Rightarrow>
          (case AccessConfirmHandler sample_handler_lib sample_mail_lib sample_ucan_lib ''did:web:up'' iv args s of
             (s, Ok (SetSuccess m links)) \<Rightarrow> (s, Ok (rcpt\<lparr>rcpt_Out := OutOk ''''\<rparr>, m))
           | (s, _) \<Rightarrow> (s, Ok (rcpt, None)))
      | _ \<Rightarrow> (s, Ok (rcpt, None)))"

lemma sample_exec_runs: "runs_confirm sample_handler_lib sample_mail_lib sample_ucan_lib ''did:web:up'' sample_exec"
  unfolding runs_confirm_def sample_exec_def Let_def
  by (auto split: res.splits prod.splits response.splits)

theorem email_confirmed_witness:
  "\<exists>s' output ds. HandleValidateEmailRequest sample_mail_lib sample_ucan_lib sample_exec (\<lambda>_. '''') ''POST'' ''u'' delegation_New =
     (s', Ok (RespStream 200 (ValidateEmailPage output ''a'' ''did:key:b''))) \<and>
     s' = PutMany ds '''' delegation_New \<and> map tok_Command ds = [''/'', ''/blob/add'']"
proof -
  let ?run = "HandleValidateEmailRequest sample_mail_lib sample_ucan_lib sample_exec (\<lambda>_. '''') ''POST'' ''u'' delegation_New"
  have lib: "delegates_ok sample_mail_lib" "confirm_lib_ok sample_mail_lib"
    by (simp_all add: delegates_ok_def confirm_lib_ok_def sample_mail_lib_def sample_access_lib_def)
  have page: "\<exists>output. snd ?run = Ok (RespStream 200 (ValidateEmailPage output ''a'' ''did:key:b''))"
    by (simp add: HandleValidateEmailRequest_def ExecBase64urlAccessConfirm_def sample_exec_def sample_confirmation_def
        AccessConfirmHandler_def createSessionProofs_def sample_mail_lib_def sample_access_lib_def sample_handler_lib_def
        sample_task_def Let_def)
  then obtain s' shown where run: "?run = (s', Ok (RespStream 200 (ValidateEmailPage shown ''a'' ''did:key:b'')))"
    by (cases ?run) auto
  from email_confirmed [OF lib(1) sample_ucan_lib_ok lib(2) sample_exec_runs run] run show ?thesis
    by (auto simp: confirmed_def sample_mail_lib_def sample_confirmation_def sample_access_lib_def split: if_splits)
qed

end
