(* ===== verification/Spec2Isabelle.thy ===== *)
theory Spec2Isabelle
  imports Json_Codecs Pg_Revocations Pg_Pages Http_Service
begin

text \<open>
  \<^bold>\<open>sprue, the upload service.\<close> sprue receives UCAN invocations from clients over HTTP and keeps, for each space, the blobs and
  uploads it holds. A blob is added in stages: \<^verbatim>\<open>/blob/add\<close> chooses a storage node, asks it to allocate, and hands
  the client an upload task and the promise of an acceptance; when the client concludes the upload with
  \<^verbatim>\<open>/ucan/conclude\<close> the service asks the node to accept and registers the blob. Every invocation and receipt is
  recorded in the agent message store, from which later steps recover what happened. Around this stand accounts
  and provisioning, routing of blobs to nodes, usage reporting, delegations of access, and the operator's commands.

  \<^bold>\<open>Theories and sources.\<close> Paths are below \<^verbatim>\<open>pkg/\<close>; a definition has the name of the Go function, with the package
  first where two clash.
  \<^item> \<open>Prelude\<close>: types, errors and outcomes (\<open>Ok\<close>, \<open>Err\<close>, \<open>Panic\<close>), slices with their panics, 64-bit words, list lemmas,
    and the locale \<open>invariant_of\<close> for invariants of reachable states.
  \<^item> \<open>Paging\<close>: \<^verbatim>\<open>store/store.go\<close>; pages, options, the collecting loop, cursors. The locale \<open>pager\<close> is the contract of
    a listing and shows once that reading page by page ends with every item once, in order.
  \<^item> \<open>Diff_Logs\<close>, \<open>Metrics\<close>, \<open>Blob_Registry\<close>, \<open>Upload_Store\<close>, \<open>Ledger\<close>: \<^verbatim>\<open>store/space_diff\<close>, \<^verbatim>\<open>store/upload_diff\<close>, \<^verbatim>\<open>store/metrics\<close>,
    \<^verbatim>\<open>store/blob_registry\<close> and \<^verbatim>\<open>store/upload\<close>. The state is the records of these stores, each extending the ledger of
    logs and counters it writes; \<open>Ledger\<close> shows that holdings, logs and counters agree in every reachable state.
  \<^item> \<open>Usage\<close>: \<^verbatim>\<open>usage/usage.go\<close>; sampling a space's usage from counters and logs while writers interleave.
  \<^item> \<open>Accounts\<close>, \<open>Provisioning\<close>: \<^verbatim>\<open>store/customer\<close>, \<^verbatim>\<open>store/subscription\<close>, \<^verbatim>\<open>store/consumer\<close>, \<^verbatim>\<open>provisioning\<close>, \<^verbatim>\<open>billing\<close>. The locale
    \<open>keyed_table\<close> is the contract of a store of records under a key.
  \<^item> \<open>Ucan\<close>, \<open>Providers\<close>, \<open>Routing\<close>: tokens, receipts and containers; \<^verbatim>\<open>store/storage_provider\<close>, \<^verbatim>\<open>store/routing_policy\<close>,
    \<^verbatim>\<open>routing/service.go\<close>.
  \<^item> \<open>Agent_Store\<close>, \<open>Token_Stores\<close>: \<^verbatim>\<open>store/agent\<close>; \<^verbatim>\<open>store/delegation\<close>, \<^verbatim>\<open>store/revocation\<close>, \<^verbatim>\<open>store/replica\<close>.
  \<^item> \<open>Piri_Client\<close>: \<^verbatim>\<open>piriclient\<close> and \<^verbatim>\<open>lib/ucan_client\<close>; the calls on a storage node.
  \<^item> \<open>Conclude\<close>, \<open>Blob_Add\<close>, \<open>Blob_Remove\<close>: \<^verbatim>\<open>service/handlers/ucan_conclude.go\<close>, \<^verbatim>\<open>ucan_conclude_http_put.go\<close>, \<^verbatim>\<open>blob_add.go\<close>,
    \<^verbatim>\<open>blob_remove.go\<close>, \<^verbatim>\<open>blob_abort.go\<close>, and the message listener of \<^verbatim>\<open>lib/ucan_server/events.go\<close>. The state is \<open>service\<close>:
    registry, agent store, router, provisioning and the outside world.
  \<^item> \<open>Space_Handlers\<close>, \<open>Access_Handlers\<close>, \<open>Admin_Handlers\<close>: the other handlers of \<^verbatim>\<open>service/handlers\<close>, with \<^verbatim>\<open>indexerclient\<close> and
    \<^verbatim>\<open>lib/ucan_server/email_auth.go\<close>.
  \<^item> \<open>Cbor_Codecs\<close>, \<open>Json_Codecs\<close>: the codecs of \<^verbatim>\<open>commands/admin/provider\<close>. The locale \<open>codec\<close> is the contract of an encoder
    and a decoder, interpreted on each of the twelve pairs.
  \<^item> \<open>Sql\<close>: the tables of \<^verbatim>\<open>internal/migrations/sql\<close>, the SQL statements of the stores as functions on tables, and running them on a
    connection pool or in a transaction (\<open>with_tx\<close>) while requests and answers are lost and other sessions commit. The locale
    \<open>querier\<close> is what pool and transaction share, \<open>keyset_store\<close> the contract of a listing by key.
  \<^item> \<open>Pg_Ledger\<close>, \<open>Pg_Uploads\<close>, \<open>Pg_Balance\<close>, \<open>Pg_Lists\<close>: \<^verbatim>\<open>store/metrics/postgres\<close>, \<^verbatim>\<open>store/space_diff/postgres\<close>, \<^verbatim>\<open>store/upload_diff/postgres\<close>,
    \<^verbatim>\<open>store/blob_registry/postgres\<close> and \<^verbatim>\<open>store/upload/postgres\<close>. \<open>pg_abs\<close> reads the tables as a state of the in-memory stores.
  \<^item> \<open>Pg_Objects\<close>, \<open>Pg_Tokens\<close>: \<^verbatim>\<open>store/agent/postgres\<close> and \<^verbatim>\<open>store/delegation/postgres\<close>; an index in a table, the payloads in a bucket.
  \<^item> \<open>Pg_Accounts\<close>, \<open>Pg_Stores\<close>, \<open>Pg_Members\<close>, \<open>Pg_Revocations\<close>, \<open>Pg_Pages\<close>: the Postgres backends of customers, subscriptions, consumers,
    storage providers, routing policies, revocations and replicas. The locale \<open>pg_write\<close> is the contract of a write of one
    statement against a step of the in-memory store, interpreted on each of the fifteen; \<open>simulates\<close> is what follows of the call.
  \<^item> \<open>Http_Service\<close>: the requests of \<^verbatim>\<open>service/service.go\<close> that are not invocations: receipts, over the Postgres agent store, and the
    confirmation of access by mail, over the handler of confirmations.

  \<^bold>\<open>What is shown.\<close>
  \<^item> Adding: an add gets an answer; a blob is registered only after an admissible node accepted that blob for
    that space, and the answer names the acceptance; the task accepted on conclusion is the task that was handed out; an add
    of a blob that is registered, repeated, asks no node, and one of a blob that is not registered yet allocates again; allocation ends whatever the nodes answer (\<open>Blob_Add\<close>).
  \<^item> Concluding: a blob is registered exactly where a put for it has a usable acceptance, acceptances are recorded
    whole within the message budget, and a batch keeps requests and receipts aligned (\<open>Conclude\<close>, \<open>Piri_Client\<close>).
  \<^item> Removing and aborting: every node holding the blob is told, whatever the others answer, before it leaves the registry; an add can be aborted by its
    own space only, by a rejection of its allocation sent to its node (\<open>Blob_Remove\<close>).
  \<^item> Bookkeeping: in every reachable state the logs, the counters and the holdings agree, and a usage query over them
    gives the true sums; a reading is consistent whatever interleaves (\<open>Ledger\<close>, \<open>Usage\<close>).
  \<^item> Accounts: consumers refer to subscriptions; only spaces that an account with a plan provisioned are used
    (\<open>Provisioning\<close>, \<open>Space_Handlers\<close>).
  \<^item> Routing: an eligible node is chosen where there is one; the chances of the draw are what the code gives them, which is not
    quite the weights (\<open>Routing\<close>).
  \<^item> Access and operation: delegated and confirmed access can be claimed and nothing else, where every confirmation also gives the agent the
    account itself; only the operator changes or lists the nodes, and every node has proved what the service will ask of it (\<open>Access_Handlers\<close>, \<open>Admin_Handlers\<close>). A link sent by
    mail is carried out when it is followed by a POST and not before, and a receipt that was recorded is served (\<open>Http_Service\<close>).
  \<^item> Stores: each in-memory backend is a map with its branches, and its listing ends and is complete; codecs read back
    what they write and accept only what they can write.
  \<^item> Postgres: the registry's transactions are atomic steps of the in-memory registry whatever is lost, a retried one is
    made once, the ledger stays in balance while sessions interleave, and the listings are complete (\<open>Pg_Balance\<close>, \<open>Pg_Lists\<close>,
    \<open>Pg_Pages\<close>); the index of messages never names a payload that is missing, and messages and delegations are read back
    (\<open>Pg_Tokens\<close>); every write of the account stores is a whole step of the in-memory store or none, and reads agree; of
    consumers, where the keys of the two stores differ, it is stated where they part
    (\<open>Pg_Stores\<close>, \<open>Pg_Members\<close>, \<open>Pg_Revocations\<close>).

  \<^bold>\<open>Parameters.\<close> Code outside the repository is an argument: UCAN tokens, proof chains, containers and their encodings
  (\<open>ucan_lib\<close>, \<open>forge_lib\<close>, \<open>access_lib\<close>, \<open>handler_lib\<close>), text forms of CIDs and times (\<open>formats\<close>), codec libraries (\<open>cbor_lib\<close>,
  \<open>json_lib\<close>), what the database keeps and sorts of a text and the encodings stored in it (\<open>pg_formats\<close>, \<open>obj_lib\<close>, \<open>acct_lib\<close>), faults and
  other sessions of the database (\<open>pg_env\<close>), storage nodes and the network (\<open>node\<close>, over an arbitrary world), the random draw, the clock and the order in
  which Go ranges over a map. What the code relies on is a named predicate (\<open>ucan_lib_ok\<close>, \<open>formats_ok\<close>, \<open>cbor_ok\<close>, \<dots>), and a
  concrete instance of each is given beside it, on which the witnesses run.

  \<^bold>\<open>Bounds and loops.\<close> Loops over slices are structural. A loop that the code does not bound is a \<^verbatim>\<open>partial_function\<close> into
  \<^verbatim>\<open>option\<close>, where \<^const>\<open>None\<close> is not returning, and it is proved that it returns: paging, choosing nodes, claiming, listing
  providers. The decoders' loops have the turns the code gives them. Counters and weights are 64-bit words, so sums wrap as in Go;
  lengths and limits are integers. A handler runs from start to end on the state it finds; only readings of usage are
  interleaved with writers, step by step.

  \<^bold>\<open>Not modelled.\<close>
  \<^item> What PostgreSQL, S3 and their clients do below a statement: isolation is that a statement or a transaction runs on the
    database as it finds it and is committed at once, so serialisation failures and deadlocks show only as requests that fail.
    Creating buckets and migrating old data are left out; the tables are those of the last migration. The concurrent fetches of
    \<^verbatim>\<open>GetInvocations\<close> are made one after the other.
  \<^item> \<^verbatim>\<open>service/handlers/blob_replicate.go\<close> and \<^verbatim>\<open>ucan_conclude_blob_replica_transfer.go\<close>, which are commented out in full.
  \<^item> Building the UCAN server in \<^verbatim>\<open>service/service.go\<close>, rendering the pages of \<^verbatim>\<open>service/ui\<close>; \<^verbatim>\<open>mailer\<close>, \<^verbatim>\<open>client\<close>, \<^verbatim>\<open>cmd\<close>, \<^verbatim>\<open>internal\<close>: HTTP and HTML, mail, the command line, configuration,
    wiring, migrations and tracing, which are input and output around libraries; and logging throughout.
  \<^item> Mutexes: every store operation takes its lock for its whole body, which is what running it in one step says.
\<close>

end
